(* ===== verification/Ufs_Prelude.thy ===== *)
theory Ufs_Prelude
  imports Main "HOL-Library.Word" "HOL-Library.Monad_Syntax"
begin

text \<open>
  Shared ground of the development: machine integers at the widths of
  \<^verbatim>\<open>include/ufs/types.h\<close>, byte buffers with the \<^verbatim>\<open>memcpy\<close>-like operations the code
  performs on them, the big-endian layout of S/370 words, return codes as a datatype, and the
  calculus \<open>wpo\<close> for code that may be undefined or abend.
\<close>

unbundle bit_operations_syntax

section \<open>Machine types\<close>

type_synonym byte = "8 word"
type_synonym u16 = "16 word"
type_synonym u32 = "32 word"
type_synonym u64 = "64 word"
type_synonym block = "byte list"

lemma unat_lt32: "unat (w :: u32) < 2 ^ 32"
  using unsigned_less [of w] by simp

lemma unat_of_nat32: "n < 2 ^ 32 \<Longrightarrow> unat (of_nat n :: u32) = n"
  by (simp add: unat_of_nat)

section \<open>Return codes\<close>

text \<open>
  An \<^verbatim>\<open>INT32\<close> return code is success, an \<^verbatim>\<open>errno\<close> constant, one of the
  \<^verbatim>\<open>UFS_ITERATOR_\<close> codes of \<^verbatim>\<open>include/ufs/data.h\<close>, or a number that the code only
  passes on (a DECB completion code, a lock return code, the initial \<open>-1\<close> of the pager).
\<close>

datatype errno = EPERM | ENOENT | EIO | E2BIG | ENOMEM | EACCES | EBUSY | EEXIST | ENOTDIR
  | EISDIR | EINVAL | ENFILE | EFBIG | ENOSPC | EROFS | ENAMETOOLONG | ENOTEMPTY

datatype iter = ITER_BREAK | ITER_END | ITER_ERROR

datatype rc = RcOk | RcErr errno | RcIter iter | RcNum int

section \<open>Computations that may be undefined\<close>

text \<open>
  \<open>None\<close> stands for a C computation whose behaviour is undefined or that abends: an index
  outside its array, a \<^verbatim>\<open>memcpy\<close> beyond its target, a division by zero, a null
  dereference. \<open>wpo m Q\<close> says that the computation is defined and its result satisfies
  \<open>Q\<close> (total correctness).
\<close>

named_theorems wpo_intros

definition wpo :: "'a option \<Rightarrow> ('a \<Rightarrow> bool) \<Rightarrow> bool" where
  "wpo m Q \<longleftrightarrow> (case m of None \<Rightarrow> False | Some a \<Rightarrow> Q a)"

lemma wpo_Some [simp]: "wpo (Some a) Q = Q a"
  by (simp add: wpo_def)

lemma wpo_None [simp]: "wpo None Q = False"
  by (simp add: wpo_def)

lemma wpo_bind [simp]: "wpo (Option.bind m f) Q = wpo m (\<lambda>a. wpo (f a) Q)"
  by (cases m) simp_all

lemma wpo_mono: "wpo m P \<Longrightarrow> (\<And>a. P a \<Longrightarrow> Q a) \<Longrightarrow> wpo m Q"
  by (cases m) simp_all

lemma wpo_conj: "wpo m P \<Longrightarrow> wpo m Q \<Longrightarrow> wpo m (\<lambda>a. P a \<and> Q a)"
  by (cases m) simp_all

lemma wpo_iff: "wpo m Q \<longleftrightarrow> (\<exists>a. m = Some a \<and> Q a)"
  by (cases m) simp_all

lemma wpoI: "m = Some a \<Longrightarrow> Q a \<Longrightarrow> wpo m Q"
  by simp

text \<open>\<open>wlp m Q\<close>: the result of the computation, if it has one, satisfies \<open>Q\<close>.\<close>

named_theorems wlp_intros

definition wlp :: "'a option \<Rightarrow> ('a \<Rightarrow> bool) \<Rightarrow> bool" where
  "wlp m Q \<longleftrightarrow> (case m of None \<Rightarrow> True | Some a \<Rightarrow> Q a)"

lemma wlpI: "(\<And>a. m = Some a \<Longrightarrow> Q a) \<Longrightarrow> wlp m Q"
  by (cases m) (simp_all add: wlp_def)

lemma wlpD: "wlp m Q \<Longrightarrow> m = Some a \<Longrightarrow> Q a"
  by (simp add: wlp_def)

lemma wlp_simps [simp]: "wlp (Some a) Q = Q a" "wlp None Q"
  by (simp_all add: wlp_def)

lemma wlp_mono: "wlp m P \<Longrightarrow> (\<And>a. P a \<Longrightarrow> Q a) \<Longrightarrow> wlp m Q"
  by (cases m) simp_all

lemma wlp_bind: "wlp m P \<Longrightarrow> (\<And>a. P a \<Longrightarrow> wlp (f a) Q) \<Longrightarrow> wlp (m \<bind> f) Q"
  by (cases m) simp_all

lemma wlp_any: "(\<And>a. m = Some a \<Longrightarrow> wlp (f a) Q) \<Longrightarrow> wlp (m \<bind> f) Q"
  by (cases m) simp_all

lemma wlp_let [wlp_intros]: "(\<And>x. x = e \<Longrightarrow> wlp (f x) Q) \<Longrightarrow> wlp (Let e f) Q"
  by simp

lemma wlp_prod [wlp_intros]: "(\<And>a b. x = (a, b) \<Longrightarrow> wlp (f a b) Q) \<Longrightarrow> wlp (case x of (a, b) \<Rightarrow> f a b) Q"
  by (cases x) simp

lemma wlp_if [wlp_intros]: "(b \<Longrightarrow> wlp m Q) \<Longrightarrow> (\<not> b \<Longrightarrow> wlp m' Q) \<Longrightarrow> wlp (if b then m else m') Q"
  by simp

lemma wlp_option [wlp_intros]:
  "(x = None \<Longrightarrow> wlp m Q) \<Longrightarrow> (\<And>a. x = Some a \<Longrightarrow> wlp (f a) Q) \<Longrightarrow> wlp (case x of None \<Rightarrow> m | Some a \<Rightarrow> f a) Q"
  by (cases x) simp_all

section \<open>Byte buffers\<close>

definition slice :: "nat \<Rightarrow> nat \<Rightarrow> 'a list \<Rightarrow> 'a list" where
  "slice i n b = take n (drop i b)"

text \<open>\<open>blit i src dst\<close> is \<^verbatim>\<open>memcpy(dst + i, src, length src)\<close> inside the buffer.\<close>

definition blit :: "nat \<Rightarrow> 'a list \<Rightarrow> 'a list \<Rightarrow> 'a list" where
  "blit i src dst = take i dst @ src @ drop (i + length src) dst"

named_theorems buf_simps

lemma length_blit [simp]: "i + length src \<le> length dst \<Longrightarrow> length (blit i src dst) = length dst"
  by (simp add: blit_def)

lemma length_slice [simp]: "i + n \<le> length b \<Longrightarrow> length (slice i n b) = n"
  by (simp add: slice_def)

lemma slice_blit_same [buf_simps]:
  "i + length src \<le> length dst \<Longrightarrow> n = length src \<Longrightarrow> slice i n (blit i src dst) = src"
  by (simp add: slice_def blit_def)

lemma slice_blit_other [buf_simps]:
  assumes "j + n \<le> i \<or> i + length src \<le> j" and "i + length src \<le> length dst"
  shows "slice j n (blit i src dst) = slice j n dst"
proof (cases "j + n \<le> i")
  case True
  then show ?thesis using assms(2)
    by (simp add: slice_def blit_def take_drop min_def)
next
  case False
  with assms(1) have "i + length src \<le> j" by simp
  then obtain d where j: "j = i + length src + d" by (metis le_iff_add)
  show ?thesis using assms(2)
    by (simp add: slice_def blit_def j drop_drop add.commute add.left_commute)
qed

lemma slice_append_left [buf_simps]:
  "i + n \<le> length xs \<Longrightarrow> slice i n (xs @ ys) = slice i n xs"
  by (simp add: slice_def)

lemma slice_append_right [buf_simps]:
  "length xs \<le> i \<Longrightarrow> slice i n (xs @ ys) = slice (i - length xs) n ys"
  by (simp add: slice_def)

lemma slice_full [simp]: "n = length b \<Longrightarrow> slice 0 n b = b"
  by (simp add: slice_def)

lemma slice_slice [buf_simps]: "j + m \<le> n \<Longrightarrow> slice j m (slice i n b) = slice (i + j) m b"
  by (simp add: slice_def drop_take take_take min_def add.commute)

lemma blit_slice_id [simp]: "i + n \<le> length b \<Longrightarrow> blit i (slice i n b) b = b"
  by (simp add: blit_def slice_def min_def)
     (metis add.commute append_assoc append_take_drop_id take_add)

section \<open>Big-endian words in buffers\<close>

definition be16 :: "u16 \<Rightarrow> byte list" where
  "be16 w = [ucast (drop_bit 8 w), ucast w]"

definition un16 :: "byte list \<Rightarrow> u16" where
  "un16 bs = (case bs of a # b # _ \<Rightarrow> push_bit 8 (ucast a) OR ucast b | _ \<Rightarrow> 0)"

definition be32 :: "u32 \<Rightarrow> byte list" where
  "be32 w = [ucast (drop_bit 24 w), ucast (drop_bit 16 w), ucast (drop_bit 8 w), ucast w]"

definition un32 :: "byte list \<Rightarrow> u32" where
  "un32 bs = (case bs of a # b # c # d # _ \<Rightarrow>
     push_bit 24 (ucast a) OR push_bit 16 (ucast b) OR push_bit 8 (ucast c) OR ucast d | _ \<Rightarrow> 0)"

definition be64 :: "u64 \<Rightarrow> byte list" where
  "be64 w = be32 (ucast (drop_bit 32 w)) @ be32 (ucast w)"

definition un64 :: "byte list \<Rightarrow> u64" where
  "un64 bs = push_bit 32 (ucast (un32 (slice 0 4 bs))) OR ucast (un32 (slice 4 4 bs))"

lemma length_be16 [simp]: "length (be16 w) = 2"
  by (simp add: be16_def)

lemma length_be32 [simp]: "length (be32 w) = 4"
  by (simp add: be32_def)

lemma length_be64 [simp]: "length (be64 w) = 8"
  by (simp add: be64_def)

lemma un16_be16 [simp]: "un16 (be16 w) = w"
  by (rule bit_word_eqI) (auto simp: be16_def un16_def bit_simps)

lemma un32_be32 [simp]: "un32 (be32 w) = w"
proof (rule bit_word_eqI)
  fix n assume "n < LENGTH(32)"
  then consider "n < 8" | "8 \<le> n" "n < 16" | "16 \<le> n" "n < 24" | "24 \<le> n" "n < 32"
    by fastforce
  then show "bit (un32 (be32 w)) n = bit w n"
    by cases (auto simp: be32_def un32_def bit_simps)
qed

lemma list4_cases:
  assumes "length bs = 4"
  obtains a b c d where "bs = [a, b, c, d]"
  using assms by (auto simp: numeral_eq_Suc length_Suc_conv)

lemma byte_bit_high [simp]: "8 \<le> n \<Longrightarrow> \<not> bit (w :: byte) n"
  using bit_imp_le_length [of w n] by auto

lemma be32_un32: "length bs = 4 \<Longrightarrow> be32 (un32 bs) = bs"
  by (erule list4_cases) (auto simp: be32_def un32_def bit_simps intro!: bit_word_eqI)

lemma un64_be64 [simp]: "un64 (be64 w) = w"
  by (rule bit_word_eqI) (auto simp: be64_def un64_def bit_simps buf_simps)

definition get32 :: "byte list \<Rightarrow> nat \<Rightarrow> u32" where
  "get32 b i = un32 (slice i 4 b)"

definition put32 :: "nat \<Rightarrow> u32 \<Rightarrow> byte list \<Rightarrow> byte list" where
  "put32 i w b = blit i (be32 w) b"

lemma length_put32 [simp]: "i + 4 \<le> length b \<Longrightarrow> length (put32 i w b) = length b"
  by (simp add: put32_def)

lemma get32_put32_same [buf_simps]: "i + 4 \<le> length b \<Longrightarrow> get32 (put32 i w b) i = w"
  by (simp add: get32_def put32_def buf_simps)

lemma get32_put32_other [buf_simps]:
  "i + 4 \<le> length b \<Longrightarrow> j + 4 \<le> i \<or> i + 4 \<le> j \<Longrightarrow> get32 (put32 i w b) j = get32 b j"
  by (simp add: get32_def put32_def buf_simps)

text \<open>Arrays of 32-bit words: \<open>words_at b i n\<close> reads \<open>n\<close> of them from offset \<open>i\<close>.\<close>

definition words_at :: "byte list \<Rightarrow> nat \<Rightarrow> nat \<Rightarrow> u32 list" where
  "words_at b i n = map (\<lambda>k. get32 b (i + 4 * k)) [0..<n]"

definition be32s :: "u32 list \<Rightarrow> byte list" where
  "be32s ws = concat (map be32 ws)"

lemma length_be32s [simp]: "length (be32s ws) = 4 * length ws"
  by (induction ws) (simp_all add: be32s_def)

lemma length_words_at [simp]: "length (words_at b i n) = n"
  by (simp add: words_at_def)

lemma slice_be32s: "k < length ws \<Longrightarrow> slice (4 * k) 4 (be32s ws) = be32 (ws ! k)"
proof (induction ws arbitrary: k)
  case Nil
  then show ?case by simp
next
  case (Cons w ws)
  show ?case
  proof (cases k)
    case 0
    then show ?thesis by (simp add: be32s_def buf_simps)
  next
    case (Suc m)
    with Cons have "slice (4 * m) 4 (be32s ws) = be32 (ws ! m)" by simp
    then show ?thesis by (simp add: Suc be32s_def slice_append_right)
  qed
qed

lemma get32_be32s: "k < length ws \<Longrightarrow> get32 (be32s ws) (4 * k) = ws ! k"
  by (simp add: get32_def slice_be32s)

lemma words_at_slice:
  "4 * n \<le> m \<Longrightarrow> words_at (slice i m b) 0 n = words_at b i n"
  by (auto simp: words_at_def get32_def buf_simps)

lemma words_at_be32s [simp]: "n = length ws \<Longrightarrow> words_at (be32s ws) 0 n = ws"
  by (rule nth_equalityI) (simp_all add: words_at_def get32_be32s)

lemma nth_words_at [simp]: "k < n \<Longrightarrow> words_at b i n ! k = get32 b (i + 4 * k)"
  by (simp add: words_at_def)

lemma get32_append_left [buf_simps]: "i + 4 \<le> length xs \<Longrightarrow> get32 (xs @ ys) i = get32 xs i"
  by (simp add: get32_def buf_simps)

lemma get32_append_right [buf_simps]: "length xs \<le> i \<Longrightarrow> get32 (xs @ ys) i = get32 ys (i - length xs)"
  by (simp add: get32_def buf_simps)

lemma get32_be32 [simp]: "get32 (be32 w) 0 = w"
  by (simp add: get32_def)

lemma words_at_append_right [buf_simps]:
  "length xs \<le> i \<Longrightarrow> words_at (xs @ ys) i n = words_at ys (i - length xs) n"
  by (simp add: words_at_def buf_simps)

lemma words_at_append_left [buf_simps]:
  "i + 4 * n \<le> length xs \<Longrightarrow> words_at (xs @ ys) i n = words_at xs i n"
  by (simp add: words_at_def buf_simps)

lemma slice_Cons [buf_simps]: "0 < i \<Longrightarrow> slice i n (x # xs) = slice (i - 1) n xs"
  by (cases i) (simp_all add: slice_def)

lemma get32_Cons [buf_simps]: "0 < i \<Longrightarrow> get32 (x # xs) i = get32 xs (i - 1)"
  by (simp add: get32_def buf_simps)

lemma words_at_Cons [buf_simps]: "0 < i \<Longrightarrow> words_at (x # xs) i n = words_at xs (i - 1) n"
  by (simp add: words_at_def buf_simps)

section \<open>C strings\<close>

text \<open>
  A C string in a buffer ends at its first zero byte. \<open>strncpy_to n s\<close> is the content that
  \<^verbatim>\<open>strncpy(dst, s, n)\<close> gives to \<^verbatim>\<open>dst[0..n)\<close>: the string, padded with zeros.
\<close>

definition cstr :: "byte list \<Rightarrow> byte list" where
  "cstr bs = takeWhile (\<lambda>c. c \<noteq> 0) bs"

definition strncpy_to :: "nat \<Rightarrow> byte list \<Rightarrow> byte list" where
  "strncpy_to n s = take n (cstr s @ replicate n 0)"

fun strncmp_eq :: "nat \<Rightarrow> byte list \<Rightarrow> byte list \<Rightarrow> bool" where
  "strncmp_eq 0 s t = True"
| "strncmp_eq (Suc n) s t =
     (let a = (case s of [] \<Rightarrow> 0 | x # _ \<Rightarrow> x); b = (case t of [] \<Rightarrow> 0 | x # _ \<Rightarrow> x) in
      if a \<noteq> b then False else if a = 0 then True else strncmp_eq n (tl s) (tl t))"

abbreviation ch :: "char \<Rightarrow> byte" where
  "ch c \<equiv> of_char c"

definition str :: "string \<Rightarrow> byte list" where
  "str s = map of_char s"

definition digit :: "nat \<Rightarrow> byte" where
  "digit i = str ''0123456789'' ! i"

lemma length_strncpy_to [simp]: "length (strncpy_to n s) = n"
  by (simp add: strncpy_to_def)

lemma cstr_nonzero: "0 \<notin> set (cstr s)"
  by (auto simp: cstr_def dest: set_takeWhileD)

lemma cstr_id [simp]: "0 \<notin> set s \<Longrightarrow> cstr s = s"
  by (simp add: cstr_def) (metis takeWhile_eq_all_conv)

lemma cstr_cstr [simp]: "cstr (cstr s) = cstr s"
  by (simp add: cstr_nonzero)

lemma strncmp_eq_iff: "strncmp_eq n s t \<longleftrightarrow> take n (cstr s) = take n (cstr t)"
proof (induction n arbitrary: s t)
  case 0
  then show ?case by simp
next
  case (Suc n)
  show ?case
    by (cases s; cases t) (auto simp: Suc.IH cstr_def Let_def)
qed

lemma cstr_append_zero: "(0::byte) \<in> set s \<Longrightarrow> cstr (s @ t) = cstr s"
  by (induction s) (auto simp: cstr_def)

lemma cstr_append_nonzero: "(0::byte) \<notin> set s \<Longrightarrow> cstr (s @ t) = s @ cstr t"
  by (induction s) (auto simp: cstr_def)

lemma cstr_zeros [simp]: "cstr (s @ replicate n 0) = cstr s"
proof (cases "0 \<in> set s")
  case True
  then show ?thesis by (rule cstr_append_zero)
next
  case False
  then have "cstr (s @ replicate n 0) = s @ cstr (replicate n 0)"
    by (rule cstr_append_nonzero)
  moreover have "cstr (replicate n 0) = []"
    by (cases n) (simp_all add: cstr_def)
  ultimately show ?thesis using False by simp
qed

lemma cstr_strncpy_to: "cstr (strncpy_to n s) = take n (cstr s)"
proof -
  have "strncpy_to n s = take n (cstr s) @ replicate (n - length (cstr s)) 0"
    by (simp add: strncpy_to_def min_def)
  then show ?thesis
    using cstr_nonzero [of s] by (metis cstr_id cstr_zeros in_set_takeD)
qed

end
