(* ===== verification/Ufs_Types.thy ===== *)
theory Ufs_Types
  imports Ufs_Prelude
begin

text \<open>
  The data of the system, as the structs of \<^verbatim>\<open>include/ufs/disk.h\<close>,
  \<^verbatim>\<open>pager.h\<close>, \<^verbatim>\<open>inode.h\<close>, \<^verbatim>\<open>dir.h\<close>, \<^verbatim>\<open>vdisk.h\<close> have it, and the
  interface to everything outside the repository: BDAM I/O, locks, storage and clocks.
\<close>

section \<open>Disk layout constants\<close>

definition UFS_BOOTBLOCK_SECTOR :: u32 where "UFS_BOOTBLOCK_SECTOR = 0"
definition UFS_SUPERBLOCK_SECTOR :: u32 where "UFS_SUPERBLOCK_SECTOR = 1"
definition UFS_ILIST_SECTOR :: u32 where "UFS_ILIST_SECTOR = 2"
definition UFS_MAX_FREEBLOCK :: nat where "UFS_MAX_FREEBLOCK = 51"
definition UFS_MAX_FREEINODE :: nat where "UFS_MAX_FREEINODE = 64"
definition UFS_ROOT_INODE :: u32 where "UFS_ROOT_INODE = 2"
definition UFS_NAME_MAX :: nat where "UFS_NAME_MAX = 59"

section \<open>Disk handle\<close>

record boot =
  bt_type :: u16
  bt_check :: u16
  bt_blksize :: u16
  bt_padding :: u16

record boote =
  be_create_time :: u64
  be_update_time :: u64
  be_version :: byte
  be_unused :: "byte list"

record sb =
  sb_datablock_start_sector :: u32
  sb_volume_size :: u32
  sb_lock_freeblock :: byte
  sb_lock_freeinode :: byte
  sb_modified :: byte
  sb_readonly :: byte
  sb_update_time :: u32
  sb_total_freeblock :: u32
  sb_total_freeinode :: u32
  sb_create_time :: u32
  sb_nfreeblock :: u32
  sb_freeblock :: "u32 list"
  sb_nfreeinode :: u32
  sb_freeinode :: "u32 list"
  sb_inodes_per_block :: u32
  sb_blksize_shift :: u32
  sb_ilist_sector :: u32
  sb_unused3 :: u32

text \<open>
  The handle of an open disk. The DCB is the outside world's; \<open>dk_buf\<close> is the pool of
  disk buffers with their stale contents, last returned buffer last.
\<close>

record disk =
  dk_blksize :: u16
  dk_readonly :: byte
  dk_buf :: "block list"
  dk_ddname :: "byte list"
  dk_dsname :: "byte list"
  dk_boot :: boot
  dk_sb :: sb
  dk_boote :: "boote option"

section \<open>Page cache\<close>

record page =
  pg_lru :: u64
  pg_dirty :: u32
  pg_used :: u32
  pg_block :: u32
  pg_buf :: block

record pager =
  pr_maxpages :: u32
  pr_pages :: "page list"
  pr_cachehits :: u32
  pr_reads :: u32
  pr_writes :: u32
  pr_dreads :: u32
  pr_dwrites :: u32

section \<open>Inodes\<close>

record dinode =
  di_mode :: u16
  di_nlink :: u16
  di_filesize :: u32
  di_ctime :: u64
  di_mtime :: u64
  di_atime :: u64
  di_owner :: "byte list"
  di_group :: "byte list"
  di_codepage :: u16
  di_addr :: "u32 list"

record minode =
  mi_inode_number :: u32
  mi_type :: byte
  mi_flags :: byte
  mi_usecount :: u16
  mi_mounted_vdisk :: "nat option"
  mi_dinode :: dinode

section \<open>A virtual disk and what it stands on\<close>

text \<open>
  \<^verbatim>\<open>UFSVDISK\<close> with the objects it owns: the disk handle, the I/O vector (function
  pointers to the pager when \<open>v_pager\<close> is present, to the disk routines otherwise, the two
  vectors \<^verbatim>\<open>ufs_sys_new\<close> installs), the inode cache, and the inodes themselves in an
  explicit store, since handles to one cached inode are shared. \<open>v_outer\<close> is the state of
  the world outside the program (dataset contents, locks, storage, clocks).
\<close>

record 'd vol =
  v_outer :: 'd
  v_disk :: disk
  v_pager :: "pager option"
  v_minodes :: "nat list"
  v_mstore :: "nat \<Rightarrow> minode option"
  v_mnext :: nat

section \<open>The outside world\<close>

text \<open>
  Code that is not under \<^verbatim>\<open>src/\<close> is this record of functions on the outside state, a
  parameter of every definition that needs it: the BDAM access routines of the MVS library
  (a DECB completion code, and the data for a read), \<^verbatim>\<open>lock\<close>/\<^verbatim>\<open>unlock\<close>,
  whether a storage request succeeds, and the clocks. Nothing is assumed of it here.
\<close>

datatype lockword = LkDisk | LkPager | LkVdisk | LkMinode nat | LkSys | LkCwd | LkFile | LkDevs

record 'd os =
  osdread :: "'d \<Rightarrow> u16 \<Rightarrow> u32 \<Rightarrow> u32 \<times> block \<times> 'd"
  osdwrite :: "'d \<Rightarrow> u16 \<Rightarrow> block \<Rightarrow> u32 \<Rightarrow> u32 \<times> 'd"
  os_lock :: "'d \<Rightarrow> lockword \<Rightarrow> int \<times> 'd"
  os_unlock :: "'d \<Rightarrow> lockword \<Rightarrow> 'd"
  os_calloc :: "'d \<Rightarrow> nat \<Rightarrow> bool \<times> 'd"
  os_time :: "'d \<Rightarrow> u32 \<times> 'd"
  os_time64 :: "'d \<Rightarrow> u64 \<times> 'd"
  os_ddcb :: "'d \<Rightarrow> byte list \<Rightarrow> bool \<times> 'd"
  os_dopen :: "'d \<Rightarrow> int \<times> 'd"
  os_rdjfcb :: "'d \<Rightarrow> byte list \<times> bool"
  os_dcbblksi :: "'d \<Rightarrow> u16"
  os_dclose :: "'d \<Rightarrow> 'd"

text \<open>
  A lock request returns 0 (acquired) or 8 (already held by this task), and anything else is a
  failure; it is released only by the request that got 0.
\<close>

definition lock :: "'d os \<Rightarrow> lockword \<Rightarrow> 'd vol \<Rightarrow> int \<times> 'd vol" where
  "lock os k s = (let (r, d) = os_lock os (v_outer s) k in (r, s\<lparr>v_outer := d\<rparr>))"

definition lock_held :: "int \<Rightarrow> bool" where
  "lock_held lockrc \<longleftrightarrow> lockrc = 0 \<or> lockrc = 8"

definition unlock :: "'d os \<Rightarrow> int \<Rightarrow> lockword \<Rightarrow> 'd vol \<Rightarrow> 'd vol" where
  "unlock os lockrc k s =
     (if lockrc = 0 then s\<lparr>v_outer := os_unlock os (v_outer s) k\<rparr> else s)"

definition calloc :: "'d os \<Rightarrow> nat \<Rightarrow> 'd vol \<Rightarrow> bool \<times> 'd vol" where
  "calloc os n s = (let (ok, d) = os_calloc os (v_outer s) n in (ok, s\<lparr>v_outer := d\<rparr>))"

definition clock64 :: "'d os \<Rightarrow> 'd vol \<Rightarrow> u64 \<times> 'd vol" where
  "clock64 os s = (let (t, d) = os_time64 os (v_outer s) in (t, s\<lparr>v_outer := d\<rparr>))"

definition clock32 :: "'d os \<Rightarrow> 'd vol \<Rightarrow> u32 \<times> 'd vol" where
  "clock32 os s = (let (t, d) = os_time os (v_outer s) in (t, s\<lparr>v_outer := d\<rparr>))"

section \<open>Shorthands for the super block of a volume\<close>

abbreviation v_sb :: "'d vol \<Rightarrow> sb" where
  "v_sb s \<equiv> dk_sb (v_disk s)"

abbreviation v_blksize :: "'d vol \<Rightarrow> u16" where
  "v_blksize s \<equiv> dk_blksize (v_disk s)"

definition upd_sb :: "(sb \<Rightarrow> sb) \<Rightarrow> 'd vol \<Rightarrow> 'd vol" where
  "upd_sb f s = s\<lparr>v_disk := (v_disk s)\<lparr>dk_sb := f (v_sb s)\<rparr>\<rparr>"

lemma upd_sb_simps [simp]:
  "v_sb (upd_sb f s) = f (v_sb s)"
  "v_blksize (upd_sb f s) = v_blksize s"
  "dk_readonly (v_disk (upd_sb f s)) = dk_readonly (v_disk s)"
  "dk_buf (v_disk (upd_sb f s)) = dk_buf (v_disk s)"
  "dk_boote (v_disk (upd_sb f s)) = dk_boote (v_disk s)"
  "v_outer (upd_sb f s) = v_outer s"
  "v_pager (upd_sb f s) = v_pager s"
  "v_minodes (upd_sb f s) = v_minodes s"
  "v_mstore (upd_sb f s) = v_mstore s"
  "v_mnext (upd_sb f s) = v_mnext s"
  by (simp_all add: upd_sb_def)

end
