(* ===== verification/Disk.thy ===== *)
theory Disk
  imports Ufs_Types
begin

text \<open>
  The emulated physical disk (\<^verbatim>\<open>src/ufsdk*.c\<close>): block I/O on the dataset, the buffer
  pool, the byte layout of the boot and super blocks, opening and closing. Lemmas: the layouts
  round-trip, a write is refused on a read-only disk, what the super block check accepts.
\<close>

section \<open>Block I/O\<close>

text \<open>The return code is the completion code in the middle halfword of the DECB's ECB.\<close>

definition ecb_rc :: "u32 \<Rightarrow> rc" where
  "ecb_rc ecb = (let r = drop_bit 8 ecb AND 0xFFFF in if r = 0 then RcOk else RcNum (uint r))"

definition ufs_disk_read :: "'d os \<Rightarrow> 'd vol \<Rightarrow> u32 \<Rightarrow> rc \<times> block \<times> 'd vol" where
  "ufs_disk_read os s blk =
     (let (ecb, buf, d) = osdread os (v_outer s) (v_blksize s) blk
      in (ecb_rc ecb, buf, s\<lparr>v_outer := d\<rparr>))"

definition ufs_disk_write :: "'d os \<Rightarrow> 'd vol \<Rightarrow> block \<Rightarrow> u32 \<Rightarrow> rc \<times> 'd vol" where
  "ufs_disk_write os s buf blk =
     (if dk_readonly (v_disk s) \<noteq> 0 then (RcErr EROFS, s)
      else let (ecb, d) = osdwrite os (v_outer s) (v_blksize s) buf blk
           in (ecb_rc ecb, s\<lparr>v_outer := d\<rparr>))"

text \<open>
  The \<open>count\<close>-block versions advance the caller's buffer by \<open>blksize\<close>: the blocks
  read so far are returned, and the loop stops at the first error.
\<close>

fun ufs_disk_read_n :: "'d os \<Rightarrow> 'd vol \<Rightarrow> u32 \<Rightarrow> nat \<Rightarrow> rc \<times> block list \<times> 'd vol" where
  "ufs_disk_read_n os s blk 0 = (RcOk, [], s)"
| "ufs_disk_read_n os s blk (Suc n) =
     (let (rc, buf, s) = ufs_disk_read os s blk
      in if rc \<noteq> RcOk then (rc, [buf], s)
         else let (rc, bufs, s) = ufs_disk_read_n os s (blk + 1) n in (rc, buf # bufs, s))"

fun ufs_disk_write_n :: "'d os \<Rightarrow> 'd vol \<Rightarrow> block list \<Rightarrow> u32 \<Rightarrow> rc \<times> 'd vol" where
  "ufs_disk_write_n os s [] blk = (RcOk, s)"
| "ufs_disk_write_n os s (buf # bufs) blk =
     (let (rc, s) = ufs_disk_write os s buf blk
      in if rc \<noteq> RcOk then (rc, s) else ufs_disk_write_n os s bufs (blk + 1))"

section \<open>Buffer pool\<close>

text \<open>
  \<^verbatim>\<open>ufs_disk_get_buf\<close> takes the last buffer of the pool or allocates a zeroed one;
  \<open>None\<close> is its null result.
\<close>

definition ufs_disk_get_buf :: "'d os \<Rightarrow> 'd vol \<Rightarrow> block option \<times> 'd vol" where
  "ufs_disk_get_buf os s =
     (let (lockrc, s) = lock os LkDisk s
      in if \<not> lock_held lockrc then (None, s)
         else let (buf, s) =
                (if dk_buf (v_disk s) \<noteq> []
                 then (Some (last (dk_buf (v_disk s))),
                       s\<lparr>v_disk := (v_disk s)\<lparr>dk_buf := butlast (dk_buf (v_disk s))\<rparr>\<rparr>)
                 else let (ok, s) = calloc os (unat (v_blksize s)) s
                      in (if ok then Some (replicate (unat (v_blksize s)) 0) else None, s))
              in (buf, unlock os lockrc LkDisk s))"

definition ufs_disk_free_buf :: "'d os \<Rightarrow> 'd vol \<Rightarrow> block \<Rightarrow> 'd vol" where
  "ufs_disk_free_buf os s buf =
     (let (lockrc, s) = lock os LkDisk s
      in if \<not> lock_held lockrc then s
         else unlock os lockrc LkDisk
                (s\<lparr>v_disk := (v_disk s)\<lparr>dk_buf := dk_buf (v_disk s) @ [buf]\<rparr>\<rparr>))"

section \<open>Layout of the boot and super blocks\<close>

definition enc_sb :: "sb \<Rightarrow> byte list" where
  "enc_sb b =
     be32 (sb_datablock_start_sector b) @ be32 (sb_volume_size b) @
     [sb_lock_freeblock b, sb_lock_freeinode b, sb_modified b, sb_readonly b] @
     be32 (sb_update_time b) @ be32 (sb_total_freeblock b) @ be32 (sb_total_freeinode b) @
     be32 (sb_create_time b) @ be32 (sb_nfreeblock b) @ be32s (sb_freeblock b) @
     be32 (sb_nfreeinode b) @ be32s (sb_freeinode b) @ be32 (sb_inodes_per_block b) @
     be32 (sb_blksize_shift b) @ be32 (sb_ilist_sector b) @ be32 (sb_unused3 b)"

definition dec_sb :: "byte list \<Rightarrow> sb" where
  "dec_sb b = \<lparr>
     sb_datablock_start_sector = get32 b 0x00, sb_volume_size = get32 b 0x04,
     sb_lock_freeblock = b ! 0x08, sb_lock_freeinode = b ! 0x09,
     sb_modified = b ! 0x0A, sb_readonly = b ! 0x0B,
     sb_update_time = get32 b 0x0C, sb_total_freeblock = get32 b 0x10,
     sb_total_freeinode = get32 b 0x14, sb_create_time = get32 b 0x18,
     sb_nfreeblock = get32 b 0x1C, sb_freeblock = words_at b 0x20 UFS_MAX_FREEBLOCK,
     sb_nfreeinode = get32 b 0xEC, sb_freeinode = words_at b 0xF0 UFS_MAX_FREEINODE,
     sb_inodes_per_block = get32 b 0x1F0, sb_blksize_shift = get32 b 0x1F4,
     sb_ilist_sector = get32 b 0x1F8, sb_unused3 = get32 b 0x1FC \<rparr>"

definition wf_sb :: "sb \<Rightarrow> bool" where
  "wf_sb b \<longleftrightarrow> length (sb_freeblock b) = UFS_MAX_FREEBLOCK
     \<and> length (sb_freeinode b) = UFS_MAX_FREEINODE"

definition enc_boot :: "boot \<Rightarrow> byte list" where
  "enc_boot b = be16 (bt_type b) @ be16 (bt_check b) @ be16 (bt_blksize b) @ be16 (bt_padding b)"

definition dec_boot :: "byte list \<Rightarrow> boot" where
  "dec_boot b = \<lparr> bt_type = un16 (slice 0 2 b), bt_check = un16 (slice 2 2 b),
     bt_blksize = un16 (slice 4 2 b), bt_padding = un16 (slice 6 2 b) \<rparr>"

text \<open>\<^verbatim>\<open>sizeof(UFSBOOTE)\<close> is 248: two 8-byte times, the version, 231 unused bytes.\<close>

definition enc_boote :: "boote \<Rightarrow> byte list" where
  "enc_boote b = be64 (be_create_time b) @ be64 (be_update_time b) @ [be_version b] @ be_unused b"

definition dec_boote :: "byte list \<Rightarrow> boote" where
  "dec_boote b = \<lparr> be_create_time = un64 (slice 0 8 b), be_update_time = un64 (slice 8 8 b),
     be_version = b ! 16, be_unused = slice 17 231 b \<rparr>"

definition wf_boote :: "boote \<Rightarrow> bool" where
  "wf_boote b \<longleftrightarrow> length (be_unused b) = 231"

lemma length_enc_sb [simp]: "wf_sb b \<Longrightarrow> length (enc_sb b) = 512"
  by (simp add: enc_sb_def wf_sb_def UFS_MAX_FREEBLOCK_def UFS_MAX_FREEINODE_def)

lemma wf_dec_sb [simp]: "wf_sb (dec_sb b)"
  by (simp add: wf_sb_def dec_sb_def)

lemma dec_enc_sb: "wf_sb b \<Longrightarrow> dec_sb (enc_sb b @ rest) = b"
  by (simp add: dec_sb_def enc_sb_def wf_sb_def buf_simps nth_append UFS_MAX_FREEBLOCK_def
      UFS_MAX_FREEINODE_def)

lemma length_enc_boot [simp]: "length (enc_boot b) = 8"
  by (simp add: enc_boot_def)

lemma dec_enc_boot: "dec_boot (enc_boot b @ rest) = b"
  by (simp add: dec_boot_def enc_boot_def buf_simps)

lemma length_enc_boote [simp]: "wf_boote b \<Longrightarrow> length (enc_boote b) = 248"
  by (simp add: enc_boote_def wf_boote_def)

lemma dec_enc_boote: "wf_boote b \<Longrightarrow> dec_boote (enc_boote b @ rest) = b"
  by (simp add: dec_boote_def enc_boote_def wf_boote_def buf_simps nth_append)

section \<open>Super block and boot block I/O\<close>

text \<open>
  Both layouts are copied with a fixed size (512 and 8 + 248 bytes) into a buffer of
  \<open>blksize\<close> bytes: with a smaller buffer the copies run over it, which is \<open>None\<close>. Every
  caller passes \<^verbatim>\<open>&disk->sb\<close> to \<^verbatim>\<open>ufs_disk_write_super\<close>, so the model works on
  the super block of the handle.
\<close>

definition ufs_disk_read_super :: "'d os \<Rightarrow> 'd vol \<Rightarrow> (rc \<times> sb \<times> 'd vol) option" where
  "ufs_disk_read_super os s =
     (let sb0 = dec_sb (replicate 512 0);
          (ok, s) = calloc os (unat (v_blksize s)) s
      in if \<not> ok then Some (RcErr ENOMEM, sb0, s)
         else let (rc, buf, s) = ufs_disk_read os s UFS_SUPERBLOCK_SECTOR
              in if rc \<noteq> RcOk then Some (rc, sb0, s)
                 else if length buf < 512 then None
                 else Some (RcOk, (dec_sb buf)\<lparr>sb_modified := 0\<rparr>, s))"

definition ufs_disk_write_boot :: "'d os \<Rightarrow> 'd vol \<Rightarrow> (rc \<times> 'd vol) option" where
  "ufs_disk_write_boot os s =
     (if sb_readonly (v_sb s) \<noteq> 0 then Some (RcErr EROFS, s)
      else let (ok, s) = calloc os (unat (v_blksize s)) s
           in if \<not> ok then Some (RcErr ENOMEM, s)
              else if unat (v_blksize s) < 256 then None
              else let buf = blit 0 (enc_boot (dk_boot (v_disk s))) (replicate (unat (v_blksize s)) 0)
                   in case dk_boote (v_disk s) of
                        None \<Rightarrow> Some (ufs_disk_write os s buf UFS_BOOTBLOCK_SECTOR)
                      | Some bext \<Rightarrow>
                          (let (t, s) = clock64 os s;
                               bext = bext\<lparr>be_update_time := t\<rparr>;
                               s = s\<lparr>v_disk := (v_disk s)\<lparr>dk_boote := Some bext\<rparr>\<rparr>
                           in Some (ufs_disk_write os s (blit 8 (enc_boote bext) buf)
                                      UFS_BOOTBLOCK_SECTOR)))"

definition boot_is_old :: "disk \<Rightarrow> bool" where
  "boot_is_old d = (case dk_boote d of None \<Rightarrow> True | Some b \<Rightarrow> be_version b = 0)"

definition ufs_disk_write_super :: "'d os \<Rightarrow> 'd vol \<Rightarrow> (rc \<times> 'd vol) option" where
  "ufs_disk_write_super os s =
     (if sb_readonly (v_sb s) \<noteq> 0 then Some (RcErr EROFS, s)
      else let (ok, s) = calloc os (unat (v_blksize s)) s
           in if \<not> ok then Some (RcErr ENOMEM, s)
              else if unat (v_blksize s) < 512 then None
              else let sbu = (v_sb s)\<lparr>sb_modified := 0\<rparr>;
                       (sbu, s) = (if boot_is_old (v_disk s)
                                   then let (t, s) = clock32 os s
                                        in (sbu\<lparr>sb_update_time := t\<rparr>, s)
                                   else (sbu, s));
                       buf = blit 0 (enc_sb sbu) (replicate (unat (v_blksize s)) 0);
                       (rc, s) = ufs_disk_write os s buf UFS_SUPERBLOCK_SECTOR
                   in if rc \<noteq> RcOk then Some (rc, s)
                      else let s = upd_sb (\<lambda>_. sbu) s
                           in if \<not> boot_is_old (v_disk s) then ufs_disk_write_boot os s
                              else Some (RcOk, s))"

section \<open>Super block check\<close>

text \<open>
  The number of failed checks; a disk handle makes it also read the last block of the volume.
\<close>

definition sb_errors :: "sb \<Rightarrow> nat" where
  "sb_errors b =
     (if sb_volume_size b < 128 then 1 else 0)
   + (if sb_datablock_start_sector b > sb_volume_size b then 1 else 0)
   + (if sb_nfreeinode b > of_nat UFS_MAX_FREEINODE then 1 else 0)
   + (if sb_nfreeblock b > of_nat UFS_MAX_FREEBLOCK then 1 else 0)
   + (if sint (sb_update_time b) < 0 then 1 else 0)
   + (if sb_total_freeblock b > sb_volume_size b then 1 else 0)
   + (if sb_nfreeinode b = 0 \<and> sb_nfreeblock b = 0 \<and> sb_total_freeblock b = 0
         \<and> sb_total_freeinode b = 0 then 1 else 0)"

definition ufs_disk_check_super :: "'d os \<Rightarrow> 'd vol \<Rightarrow> sb \<Rightarrow> nat \<times> 'd vol" where
  "ufs_disk_check_super os s b =
     (let errors = sb_errors b
      in if errors \<noteq> 0 then (errors, s)
         else let (buf, s) = ufs_disk_get_buf os s
              in case buf of
                   None \<Rightarrow> (errors, s)
                 | Some _ \<Rightarrow>
                     (let (rc, buf, s) = ufs_disk_read os s (sb_volume_size b - 1);
                          errors = (if rc \<noteq> RcOk then errors + 1 else errors)
                      in (errors, ufs_disk_free_buf os s buf)))"

section \<open>Opening and closing\<close>

text \<open>
  \<^verbatim>\<open>ufs_disk_close\<close> writes a modified super block back (an error is only reported on the
  console), closes the dataset and frees the handle; what is left is the outside state.
\<close>

definition ufs_disk_close :: "'d os \<Rightarrow> 'd vol \<Rightarrow> 'd option" where
  "ufs_disk_close os s =
     (if sb_modified (v_sb s) \<noteq> 0
      then do { (rc, s) \<leftarrow> ufs_disk_write_super os s; Some (os_dclose os (v_outer s)) }
      else Some (os_dclose os (v_outer s)))"

definition new_vol :: "'d \<Rightarrow> byte list \<Rightarrow> 'd vol" where
  "new_vol d ddname = \<lparr>
     v_outer = d,
     v_disk = \<lparr> dk_blksize = 0, dk_readonly = 0, dk_buf = [], dk_ddname = ddname,
       dk_dsname = [], dk_boot = dec_boot (replicate 8 0), dk_sb = dec_sb (replicate 512 0),
       dk_boote = None \<rparr>,
     v_pager = None, v_minodes = [], v_mstore = (\<lambda>_. None), v_mnext = 0 \<rparr>"

text \<open>The conversion of a version 0 disk: the 32-bit times move to the boot extension.\<close>

definition boot_upgrade :: "disk \<Rightarrow> disk" where
  "boot_upgrade d =
     (case dk_boote d of
        Some b \<Rightarrow>
          if be_version b = 0
          then d\<lparr> dk_boote := Some (b\<lparr> be_version := 1,
                     be_create_time := ucast (sb_create_time (dk_sb d)),
                     be_update_time := ucast (sb_update_time (dk_sb d)) \<rparr>),
                  dk_sb := (dk_sb d)\<lparr> sb_create_time := 0, sb_update_time := 0,
                     sb_modified := 1 \<rparr> \<rparr>
          else d
      | None \<Rightarrow> d)"

definition ufs_disk_open :: "'d os \<Rightarrow> 'd \<Rightarrow> byte list \<Rightarrow> bool \<Rightarrow> ('d vol option \<times> 'd) option" where
  "ufs_disk_open os d ddname check_sb =
     (let (ok, d) = os_calloc os d 604 in
      if \<not> ok then Some (None, d) else
      let (ok, d) = os_ddcb os d ddname in
      if \<not> ok then Some (None, d) else
      let (rc, d) = os_dopen os d in
      if rc \<noteq> 0 then Some (None, d) else
      let (dsname, share) = os_rdjfcb os d;
          s = new_vol d ddname;
          blksize = os_dcbblksi os d;
          s = s\<lparr>v_disk := (v_disk s)\<lparr> dk_dsname := take 48 (takeWhile (\<lambda>c. c > ch (CHR '' '')) dsname),
                 dk_readonly := (if share then 0xFF else 0), dk_blksize := blksize \<rparr>\<rparr>;
          failed = (\<lambda>s. Some (None, os_dclose os (v_outer s))) in
      if blksize AND 511 \<noteq> 0 then failed s else
      let (ok, s) = calloc os (unat blksize) s in
      if \<not> ok then failed s else
      let (rc, buf, s) = ufs_disk_read os s UFS_BOOTBLOCK_SECTOR in
      if rc \<noteq> RcOk then failed s else
      if length buf < 256 then None else
      let boot = dec_boot buf in
      if bt_blksize boot \<noteq> blksize then failed s else
      if uint (bt_type boot) + uint (bt_check boot) \<noteq> 0xFFFF then failed s else
      let s = s\<lparr>v_disk := (v_disk s)\<lparr>dk_boot := boot\<rparr>\<rparr>;
          (ok, s) = calloc os 248 s in
      if \<not> ok then failed s else
      let s = s\<lparr>v_disk := (v_disk s)\<lparr>dk_boote := Some (dec_boote (drop 8 buf))\<rparr>\<rparr> in
      do { (rc, sb, s) \<leftarrow> ufs_disk_read_super os s;
           if rc \<noteq> RcOk then failed s
           else let (errors, s) = (if check_sb then ufs_disk_check_super os s sb else (0, s))
                in if errors \<noteq> 0 then failed s
                   else let s = upd_sb (\<lambda>_. sb) s;
                            s = s\<lparr>v_disk := boot_upgrade (v_disk s)\<rparr>
                        in Some (Some s, v_outer s) })"

section \<open>What the code relies on in the outside world\<close>

text \<open>
  \<open>ct d\<close> is the content of the dataset in outside state \<open>d\<close>. \<open>os_laws\<close> is what
  BDAM documents, failures included: a read changes no record and, when it completes, delivers
  the record; a write changes no other record and, when it completes, stores the record; locks,
  storage and clocks do not touch the dataset. \<open>os_live os n\<close> adds that no call fails for
  the first \<open>n\<close> records of the dataset.
\<close>

definition os_laws :: "'d os \<Rightarrow> ('d \<Rightarrow> u32 \<Rightarrow> block) \<Rightarrow> u16 \<Rightarrow> bool" where
  "os_laws os ct bs \<longleftrightarrow>
     (\<forall>d b e buf d'. osdread os d bs b = (e, buf, d') \<longrightarrow>
        ct d' = ct d \<and> length buf = unat bs \<and> (ecb_rc e = RcOk \<longrightarrow> buf = ct d b))
   \<and> (\<forall>d b e buf d'. length buf = unat bs \<longrightarrow> osdwrite os d bs buf b = (e, d') \<longrightarrow>
        (\<forall>b'. b' \<noteq> b \<longrightarrow> ct d' b' = ct d b') \<and> (ecb_rc e = RcOk \<longrightarrow> ct d' b = buf))
   \<and> (\<forall>d k. ct (snd (os_lock os d k)) = ct d)
   \<and> (\<forall>d k. ct (os_unlock os d k) = ct d)
   \<and> (\<forall>d n. ct (snd (os_calloc os d n)) = ct d)
   \<and> (\<forall>d. ct (snd (os_time os d)) = ct d)
   \<and> (\<forall>d. ct (snd (os_time64 os d)) = ct d)"

definition os_live :: "'d os \<Rightarrow> u16 \<Rightarrow> u32 \<Rightarrow> bool" where
  "os_live os bs n \<longleftrightarrow>
     (\<forall>d b. b < n \<longrightarrow> ecb_rc (fst (osdread os d bs b)) = RcOk)
   \<and> (\<forall>d b buf. b < n \<longrightarrow> ecb_rc (fst (osdwrite os d bs buf b)) = RcOk)
   \<and> (\<forall>d k. lock_held (fst (os_lock os d k)))
   \<and> (\<forall>d n. fst (os_calloc os d n))"

text \<open>
  Everything of a volume except the outside state and the pool of idle buffers; what
  \<open>quiet\<close> steps keep, together with the dataset's content.
\<close>

definition quiet :: "('d \<Rightarrow> u32 \<Rightarrow> block) \<Rightarrow> 'd vol \<Rightarrow> 'd vol \<Rightarrow> bool" where
  "quiet ct s s' \<longleftrightarrow> ct (v_outer s') = ct (v_outer s)
     \<and> (\<exists>d pool. s' = s\<lparr>v_outer := d, v_disk := (v_disk s)\<lparr>dk_buf := pool\<rparr>\<rparr>)"

lemma quiet_refl [simp, intro]: "quiet ct s s"
proof -
  have "s = s\<lparr>v_outer := v_outer s, v_disk := (v_disk s)\<lparr>dk_buf := dk_buf (v_disk s)\<rparr>\<rparr>" by simp
  then show ?thesis unfolding quiet_def by blast
qed

lemma quiet_trans: "quiet ct s t \<Longrightarrow> quiet ct t u \<Longrightarrow> quiet ct s u"
  unfolding quiet_def by (clarsimp, blast)

lemma quietD:
  assumes "quiet ct s s'"
  shows "ct (v_outer s') = ct (v_outer s)" "v_pager s' = v_pager s" "v_sb s' = v_sb s"
    "v_blksize s' = v_blksize s" "dk_readonly (v_disk s') = dk_readonly (v_disk s)"
    "dk_boote (v_disk s') = dk_boote (v_disk s)" "dk_boot (v_disk s') = dk_boot (v_disk s)"
    "v_minodes s' = v_minodes s" "v_mstore s' = v_mstore s" "v_mnext s' = v_mnext s"
  using assms by (auto simp: quiet_def)

lemma quietI: "ct d = ct (v_outer s) \<Longrightarrow> quiet ct s (s\<lparr>v_outer := d, v_disk := (v_disk s)\<lparr>dk_buf := pool\<rparr>\<rparr>)"
  unfolding quiet_def by auto

lemma quiet_outer: "ct d = ct (v_outer s) \<Longrightarrow> quiet ct s (s\<lparr>v_outer := d\<rparr>)"
  using quietI [of ct d s "dk_buf (v_disk s)"] by simp

lemma quiet_pool: "quiet ct s (s\<lparr>v_disk := (v_disk s)\<lparr>dk_buf := pool\<rparr>\<rparr>)"
  using quietI [of ct "v_outer s" s pool] by simp

lemma quiet_lock: "os_laws os ct bs \<Longrightarrow> lock os k s = (r, s') \<Longrightarrow> quiet ct s s'"
  by (drule sym) (auto simp: lock_def os_laws_def case_prod_unfold Let_def intro!: quiet_outer)

lemma quiet_unlock: "os_laws os ct bs \<Longrightarrow> quiet ct s (unlock os r k s)"
  by (auto simp: unlock_def os_laws_def intro!: quiet_outer)

lemma quiet_calloc: "os_laws os ct bs \<Longrightarrow> calloc os n s = (r, s') \<Longrightarrow> quiet ct s s'"
  by (drule sym) (auto simp: calloc_def os_laws_def case_prod_unfold Let_def intro!: quiet_outer)

lemma quiet_clock64: "os_laws os ct bs \<Longrightarrow> clock64 os s = (t, s') \<Longrightarrow> quiet ct s s'"
  by (drule sym) (auto simp: clock64_def os_laws_def case_prod_unfold Let_def intro!: quiet_outer)

lemma quiet_clock32: "os_laws os ct bs \<Longrightarrow> clock32 os s = (t, s') \<Longrightarrow> quiet ct s s'"
  by (drule sym) (auto simp: clock32_def os_laws_def case_prod_unfold Let_def intro!: quiet_outer)

lemma quiet_free_buf: "os_laws os ct bs \<Longrightarrow> quiet ct s (ufs_disk_free_buf os s buf)"
  unfolding ufs_disk_free_buf_def
  by (auto split: prod.splits dest: quiet_lock
      intro: quiet_trans [OF quiet_trans [OF _ quiet_pool] quiet_unlock])

lemma quiet_get_buf: "os_laws os ct bs \<Longrightarrow> ufs_disk_get_buf os s = (b, s') \<Longrightarrow> quiet ct s s'"
  unfolding ufs_disk_get_buf_def
  by (auto split: prod.splits if_splits dest: quiet_lock quiet_calloc
      intro: quiet_trans [OF quiet_trans [OF _ quiet_pool] quiet_unlock]
        quiet_trans [OF quiet_trans [OF quiet_lock quiet_calloc] quiet_unlock])

lemma disk_read_laws:
  assumes "os_laws os ct (v_blksize s)" and "ufs_disk_read os s blk = (rc, buf, s')"
  shows "quiet ct s s'" and "length buf = unat (v_blksize s)"
    and "rc = RcOk \<Longrightarrow> buf = ct (v_outer s) blk"
  using assms unfolding ufs_disk_read_def os_laws_def
  by (auto split: prod.splits intro!: quiet_outer)

lemma disk_write_laws:
  assumes "os_laws os ct (v_blksize s)" and "ufs_disk_write os s buf blk = (rc, s')"
    and "length buf = unat (v_blksize s)"
  shows "\<exists>d. s' = s\<lparr>v_outer := d\<rparr> \<and> (\<forall>b. b \<noteq> blk \<longrightarrow> ct d b = ct (v_outer s) b)
      \<and> (rc = RcOk \<longrightarrow> ct d blk = buf)"
proof (cases "dk_readonly (v_disk s) = 0")
  case True
  then show ?thesis
    using assms unfolding ufs_disk_write_def os_laws_def
    by (auto split: prod.splits)
next
  case False
  then have "s' = s" "rc = RcErr EROFS" using assms(2) by (auto simp: ufs_disk_write_def)
  then show ?thesis by (intro exI [of _ "v_outer s"]) simp
qed

end
