(* ===== verification/Pager.thy ===== *)
theory Pager
  imports Disk
begin

text \<open>
  The page cache (\<^verbatim>\<open>src/ufspg*.c\<close>): pages of a disk with deferred writes, replaced
  least-used first. A page is denoted by its index in \<^verbatim>\<open>pager->pages\<close> (no page is removed
  from the array while the pager lives). Lemmas: the cache is transparent.
\<close>

section \<open>Operations\<close>

definition pgr :: "'d vol \<Rightarrow> pager" where
  "pgr s = (case v_pager s of Some p \<Rightarrow> p
     | None \<Rightarrow> \<lparr> pr_maxpages = 0, pr_pages = [], pr_cachehits = 0, pr_reads = 0, pr_writes = 0,
                 pr_dreads = 0, pr_dwrites = 0 \<rparr>)"

definition upd_pgr :: "(pager \<Rightarrow> pager) \<Rightarrow> 'd vol \<Rightarrow> 'd vol" where
  "upd_pgr f s = s\<lparr>v_pager := map_option f (v_pager s)\<rparr>"

definition upd_page :: "nat \<Rightarrow> (page \<Rightarrow> page) \<Rightarrow> 'd vol \<Rightarrow> 'd vol" where
  "upd_page i f = upd_pgr (\<lambda>p. p\<lparr>pr_pages := (pr_pages p)[i := f (pr_pages p ! i)]\<rparr>)"

definition ufs_pager_new :: "u32 \<Rightarrow> pager" where
  "ufs_pager_new maxpages = \<lparr> pr_maxpages = maxpages, pr_pages = [], pr_cachehits = 0,
     pr_reads = 0, pr_writes = 0, pr_dreads = 0, pr_dwrites = 0 \<rparr>"

text \<open>Counters do not overflow: they restart at \<open>reset\<close>.\<close>

definition ufs_pager_inc :: "u32 \<Rightarrow> u32 \<Rightarrow> u32" where
  "ufs_pager_inc counter reset = (if counter = 0xFFFFFFFF then reset else counter + 1)"

fun find_from :: "page list \<Rightarrow> nat \<Rightarrow> u32 \<Rightarrow> nat option" where
  "find_from [] n blk = None"
| "find_from (p # ps) n blk = (if pg_block p = blk then Some n else find_from ps (Suc n) blk)"

definition ufs_pager_find_block :: "pager \<Rightarrow> u32 \<Rightarrow> nat option" where
  "ufs_pager_find_block p blk = find_from (pr_pages p) 0 blk"

text \<open>A new page has an invalid block number, all ones.\<close>

definition ufs_page_new :: "'d os \<Rightarrow> 'd vol \<Rightarrow> page option \<times> 'd vol" where
  "ufs_page_new os s =
     (let (ok, s) = calloc os (24 + unat (v_blksize s)) s
      in if \<not> ok then (None, s)
         else let (t, s) = clock64 os s
              in (Some \<lparr> pg_lru = t, pg_dirty = 0, pg_used = 0, pg_block = -1,
                         pg_buf = replicate (unat (v_blksize s)) 0 \<rparr>, s))"

fun lru_scan :: "page list \<Rightarrow> nat \<Rightarrow> nat \<Rightarrow> page \<Rightarrow> nat" where
  "lru_scan [] n i page = i"
| "lru_scan (p # ps) n i page =
     (if pg_used p < pg_used page \<or> pg_used p = pg_used page \<and> pg_lru p < pg_lru page
      then lru_scan ps (Suc n) n p else lru_scan ps (Suc n) i page)"

definition ufs_pager_lru_page :: "'d os \<Rightarrow> 'd vol \<Rightarrow> nat option \<times> 'd vol" where
  "ufs_pager_lru_page os s =
     (let pages = pr_pages (pgr s); count = length pages
      in if count \<ge> unat (pr_maxpages (pgr s)) \<and> pages \<noteq> []
         then (Some (lru_scan (tl pages) 1 0 (hd pages)), s)
         else let (page, s) = ufs_page_new os s
              in case page of None \<Rightarrow> (None, s)
                 | Some pg \<Rightarrow> (Some count, upd_pgr (\<lambda>p. p\<lparr>pr_pages := pr_pages p @ [pg]\<rparr>) s))"

definition ufs_page_flush :: "'d os \<Rightarrow> 'd vol \<Rightarrow> nat \<Rightarrow> rc \<times> 'd vol" where
  "ufs_page_flush os s i =
     (let page = pr_pages (pgr s) ! i;
          (rc, s) = ufs_disk_write os s (pg_buf page) (pg_block page)
      in if rc \<noteq> RcOk then (rc, s)
         else (RcOk, upd_page i (\<lambda>p. p\<lparr>pg_dirty := 0\<rparr>)
                 (upd_pgr (\<lambda>p. p\<lparr>pr_dwrites := ufs_pager_inc (pr_dwrites p) 1\<rparr>) s)))"

text \<open>What both miss paths do with the page they got: it now caches \<open>blk\<close>.\<close>

definition page_reset :: "'d os \<Rightarrow> 'd vol \<Rightarrow> nat \<Rightarrow> block \<Rightarrow> u32 \<Rightarrow> 'd vol" where
  "page_reset os s i buf blk =
     (let (t, s) = clock64 os s
      in upd_page i (\<lambda>p. p\<lparr>pg_lru := t, pg_dirty := 0, pg_used := 1, pg_block := blk,
                            pg_buf := buf\<rparr>) s)"

text \<open>The hit path of both operations: count the hit and stamp the page.\<close>

definition page_hit :: "'d os \<Rightarrow> 'd vol \<Rightarrow> nat \<Rightarrow> 'd vol" where
  "page_hit os s i =
     (let s = upd_pgr (\<lambda>p. p\<lparr>pr_cachehits := ufs_pager_inc (pr_cachehits p) 1\<rparr>) s;
          s = upd_page i (\<lambda>p. p\<lparr>pg_used := ufs_pager_inc (pg_used p) 1\<rparr>) s;
          (t, s) = clock64 os s
      in upd_page i (\<lambda>p. p\<lparr>pg_lru := t\<rparr>) s)"

definition pager_read_miss :: "'d os \<Rightarrow> 'd vol \<Rightarrow> block \<Rightarrow> u32 \<Rightarrow> rc \<times> block \<times> 'd vol" where
  "pager_read_miss os s buf blk =
     (let (page, s) = ufs_pager_lru_page os s in
      case page of
        None \<Rightarrow> (RcNum (-1), buf, s)
      | Some i \<Rightarrow>
          let (rc, s) = (if pg_dirty (pr_pages (pgr s) ! i) \<noteq> 0 then ufs_page_flush os s i
                         else (RcOk, s)) in
          if rc \<noteq> RcOk then (rc, buf, s) else
          let (rc, buf, s) = ufs_disk_read os s blk in
          if rc \<noteq> RcOk then (rc, buf, s) else
          let s = upd_pgr (\<lambda>p. p\<lparr>pr_dreads := ufs_pager_inc (pr_dreads p) 1\<rparr>) s
          in (RcOk, buf, page_reset os s i buf blk))"

definition ufs_pager_read :: "'d os \<Rightarrow> 'd vol \<Rightarrow> block \<Rightarrow> u32 \<Rightarrow> rc \<times> block \<times> 'd vol" where
  "ufs_pager_read os s buf blk =
     (let (lockrc, s) = lock os LkPager s in
      if \<not> lock_held lockrc then (RcNum lockrc, buf, s) else
      let s = upd_pgr (\<lambda>p. p\<lparr>pr_reads := ufs_pager_inc (pr_reads p) 0\<rparr>) s;
          (rc, buf, s) =
            (case ufs_pager_find_block (pgr s) blk of
               Some i \<Rightarrow> let s = page_hit os s i in (RcOk, pg_buf (pr_pages (pgr s) ! i), s)
             | None \<Rightarrow> pager_read_miss os s buf blk)
      in (rc, buf, unlock os lockrc LkPager s))"

text \<open>
  The write path defers on a hit (\<^verbatim>\<open>page->dirty++\<close> is a plain 32-bit increment) and
  writes through on a miss.
\<close>

definition pager_write_hit :: "'d os \<Rightarrow> 'd vol \<Rightarrow> nat \<Rightarrow> block \<Rightarrow> 'd vol" where
  "pager_write_hit os s i buf =
     upd_page i (\<lambda>p. p\<lparr>pg_buf := buf, pg_dirty := pg_dirty p + 1\<rparr>) (page_hit os s i)"

definition pager_write_miss :: "'d os \<Rightarrow> 'd vol \<Rightarrow> block \<Rightarrow> u32 \<Rightarrow> rc \<times> 'd vol" where
  "pager_write_miss os s buf blk =
     (let (rc, s) = ufs_disk_write os s buf blk in
      if rc \<noteq> RcOk then (rc, s) else
      let s = upd_pgr (\<lambda>p. p\<lparr>pr_dwrites := ufs_pager_inc (pr_dwrites p) 1\<rparr>) s;
          (page, s) = ufs_pager_lru_page os s in
      case page of
        None \<Rightarrow> (RcOk, s)
      | Some i \<Rightarrow>
          let (rc, s) = (if pg_dirty (pr_pages (pgr s) ! i) \<noteq> 0 then ufs_page_flush os s i
                         else (RcOk, s)) in
          if rc \<noteq> RcOk then (rc, s) else (RcOk, page_reset os s i buf blk))"

definition ufs_pager_write :: "'d os \<Rightarrow> 'd vol \<Rightarrow> block \<Rightarrow> u32 \<Rightarrow> rc \<times> 'd vol" where
  "ufs_pager_write os s buf blk =
     (let (lockrc, s) = lock os LkPager s in
      if \<not> lock_held lockrc then (RcNum lockrc, s) else
      let s = upd_pgr (\<lambda>p. p\<lparr>pr_writes := ufs_pager_inc (pr_writes p) 0\<rparr>) s;
          (rc, s) =
            (case ufs_pager_find_block (pgr s) blk of
               Some i \<Rightarrow> (RcOk, pager_write_hit os s i buf)
             | None \<Rightarrow> pager_write_miss os s buf blk)
      in (rc, unlock os lockrc LkPager s))"

fun ufs_pager_read_n :: "'d os \<Rightarrow> 'd vol \<Rightarrow> block list \<Rightarrow> u32 \<Rightarrow> rc \<times> block list \<times> 'd vol" where
  "ufs_pager_read_n os s [] blk = (RcOk, [], s)"
| "ufs_pager_read_n os s (buf # bufs) blk =
     (let (rc, buf, s) = ufs_pager_read os s buf blk
      in if rc \<noteq> RcOk then (rc, buf # bufs, s)
         else let (rc, bufs, s) = ufs_pager_read_n os s bufs (blk + 1) in (rc, buf # bufs, s))"

fun ufs_pager_write_n :: "'d os \<Rightarrow> 'd vol \<Rightarrow> block list \<Rightarrow> u32 \<Rightarrow> rc \<times> 'd vol" where
  "ufs_pager_write_n os s [] blk = (RcOk, s)"
| "ufs_pager_write_n os s (buf # bufs) blk =
     (let (rc, s) = ufs_pager_write os s buf blk
      in if rc \<noteq> RcOk then (rc, s) else ufs_pager_write_n os s bufs (blk + 1))"

fun flush_from :: "'d os \<Rightarrow> 'd vol \<Rightarrow> nat \<Rightarrow> nat \<Rightarrow> rc \<times> 'd vol" where
  "flush_from os s n 0 = (RcOk, s)"
| "flush_from os s n (Suc k) =
     (if pg_dirty (pr_pages (pgr s) ! n) \<noteq> 0
      then let (rc, s) = ufs_page_flush os s n
           in if rc \<noteq> RcOk then (rc, s) else flush_from os s (Suc n) k
      else flush_from os s (Suc n) k)"

definition ufs_pager_flush :: "'d os \<Rightarrow> 'd vol \<Rightarrow> rc \<times> 'd vol" where
  "ufs_pager_flush os s =
     (let (lockrc, s) = lock os LkPager s in
      if \<not> lock_held lockrc then (RcNum lockrc, s) else
      let (rc, s) = flush_from os s 0 (length (pr_pages (pgr s)))
      in (rc, unlock os lockrc LkPager s))"

text \<open>
  \<^verbatim>\<open>ufs_pager_free\<close> keeps the handle only when the lock cannot be had. A failed flush
  does not keep it: its pages are freed all the same. The handle is freed before its lock is
  released, which the model leaves in place.
\<close>

definition ufs_pager_free :: "'d os \<Rightarrow> 'd vol \<Rightarrow> bool \<Rightarrow> 'd vol" where
  "ufs_pager_free os s flush =
     (case v_pager s of
        None \<Rightarrow> s
      | Some _ \<Rightarrow>
          let (lockrc, s) = lock os LkPager s in
          if \<not> lock_held lockrc then s else
          let s = (if flush then snd (ufs_pager_flush os s) else s)
          in unlock os lockrc LkPager (s\<lparr>v_pager := None\<rparr>))"

section \<open>The blocks a page list presents\<close>

text \<open>
  \<open>pv ps c\<close> is the disk as seen through the pages \<open>ps\<close> over content \<open>c\<close>. \<open>pinv bs lim k ps c\<close> is the
  invariant of the cache: one page per block, clean pages agree with the disk, pages without a
  block are clean, and no page's 32-bit count of deferred writes is within \<open>k\<close> of wrapping.
\<close>

definition pv :: "page list \<Rightarrow> (u32 \<Rightarrow> block) \<Rightarrow> u32 \<Rightarrow> block" where
  "pv ps c b = (if b = -1 then c b
     else case find (\<lambda>p. pg_block p = b) ps of Some p \<Rightarrow> pg_buf p | None \<Rightarrow> c b)"

definition page_ok :: "u16 \<Rightarrow> u32 \<Rightarrow> nat \<Rightarrow> (u32 \<Rightarrow> block) \<Rightarrow> page \<Rightarrow> bool" where
  "page_ok bs lim k c p \<longleftrightarrow> length (pg_buf p) = unat bs
     \<and> (pg_dirty p = 0 \<longrightarrow> pg_block p \<noteq> -1 \<longrightarrow> c (pg_block p) = pg_buf p)
     \<and> (pg_dirty p \<noteq> 0 \<longrightarrow> pg_block p < lim) \<and> unat (pg_dirty p) + k < 2 ^ 32"

definition uniq :: "u32 list \<Rightarrow> bool" where
  "uniq bs \<longleftrightarrow> (\<forall>i < length bs. \<forall>j < length bs. bs ! i \<noteq> -1 \<longrightarrow> bs ! i = bs ! j \<longrightarrow> i = j)"

definition one_page :: "page list \<Rightarrow> bool" where
  "one_page ps \<longleftrightarrow> uniq (map pg_block ps)"

definition pinv :: "u16 \<Rightarrow> u32 \<Rightarrow> nat \<Rightarrow> page list \<Rightarrow> (u32 \<Rightarrow> block) \<Rightarrow> bool" where
  "pinv bs lim k ps c \<longleftrightarrow> k < 2 ^ 32 \<and> (\<forall>p\<in>set ps. page_ok bs lim k c p) \<and> one_page ps"

lemma pv_cached:
  assumes "one_page ps" "i < length ps" "pg_block (ps ! i) = b" "b \<noteq> -1"
  shows "pv ps c b = pg_buf (ps ! i)"
proof -
  have "find (\<lambda>p. pg_block p = b) ps \<noteq> None"
    using assms(2,3) nth_mem [of i ps] unfolding find_None_iff by blast
  then obtain p where p: "find (\<lambda>p. pg_block p = b) ps = Some p" by blast
  then obtain j where j: "j < length ps" "p = ps ! j" "pg_block p = b"
    unfolding find_Some_iff by blast
  have "pg_block (ps ! i) \<noteq> -1" "pg_block (ps ! i) = pg_block (ps ! j)"
    using assms(3,4) j by auto
  with assms(1,2) j(1) have "i = j" unfolding one_page_def uniq_def by force
  with p j(2) assms(4) show ?thesis by (simp add: pv_def)
qed

lemma pv_uncached: "b \<notin> pg_block ` set ps \<Longrightarrow> pv ps c b = c b"
  by (cases "find (\<lambda>p. pg_block p = b) ps") (auto simp: pv_def find_Some_iff)

lemma valid_block: "(blk :: u32) < lim \<Longrightarrow> blk \<noteq> -1"
  using word_not_simps(3) [of lim] by auto

lemma pv_none: "b = -1 \<Longrightarrow> pv ps c b = c b"
  by (simp add: pv_def)

lemma pv_cases:
  assumes "one_page ps"
  obtains i where "i < length ps" "pg_block (ps ! i) = b" "b \<noteq> -1" "pv ps c b = pg_buf (ps ! i)"
  | "b = -1 \<or> b \<notin> pg_block ` set ps" "pv ps c b = c b"
proof (cases "b = -1 \<or> b \<notin> pg_block ` set ps")
  case True
  then show ?thesis using that(2) pv_uncached by (auto simp: pv_def)
next
  case False
  then obtain i where "i < length ps" "pg_block (ps ! i) = b"
    by (auto simp: in_set_conv_nth)
  with False show ?thesis using that(1) pv_cached [OF assms] by blast
qed

lemma map_block_update [simp]:
  "i < length ps \<Longrightarrow> pg_block p = pg_block (ps ! i) \<Longrightarrow> map pg_block (ps[i := p]) = map pg_block ps"
  by (simp add: map_update) (metis length_map list_update_id nth_map)

lemma one_page_update:
  "one_page ps \<Longrightarrow> i < length ps \<Longrightarrow> pg_block p = pg_block (ps ! i) \<Longrightarrow> one_page (ps[i := p])"
  by (simp add: one_page_def)

lemma uniq_fresh:
  assumes "uniq bs" "b \<notin> set bs" shows "uniq (bs[i := b])"
  unfolding uniq_def
proof (intro allI impI)
  fix j k
  assume *: "j < length (bs[i := b])" "k < length (bs[i := b])" "bs[i := b] ! j \<noteq> - 1"
    "bs[i := b] ! j = bs[i := b] ! k"
  have "bs ! j \<noteq> b" "bs ! k \<noteq> b" using * assms(2) nth_mem by fastforce+
  moreover have "bs ! j \<noteq> -1 \<Longrightarrow> bs ! j = bs ! k \<Longrightarrow> j = k"
    using assms(1) * unfolding uniq_def by simp
  moreover have upd: "bs[i := b] ! m = (if i = m \<and> i < length bs then b else bs ! m)" for m
    by (cases "i < length bs") (simp_all add: not_less list_update_beyond)
  ultimately show "j = k" using *(3,4) unfolding upd by metis
qed

lemma one_page_fresh:
  "one_page ps \<Longrightarrow> pg_block p \<notin> pg_block ` set ps \<Longrightarrow> one_page (ps[i := p])"
  unfolding one_page_def map_update by (rule uniq_fresh) auto

lemma uniq_append: "uniq bs \<Longrightarrow> uniq (bs @ [-1])"
  unfolding uniq_def by (auto simp: nth_append less_Suc_eq)

lemma one_page_append:
  "one_page ps \<Longrightarrow> pg_block p = -1 \<Longrightarrow> one_page (ps @ [p])"
  unfolding one_page_def by (simp add: uniq_append)

lemma block_set_update:
  "i < length ps \<Longrightarrow> pg_block p = pg_block (ps ! i) \<Longrightarrow> pg_block ` set (ps[i := p]) = pg_block ` set ps"
  by (metis list.set_map map_block_update)

lemma pv_update:
  assumes "one_page ps" "i < length ps" "pg_block p = pg_block (ps ! i)"
    and "\<And>b. b \<noteq> pg_block p \<Longrightarrow> c' b = c b" "pg_block p = -1 \<longrightarrow> c' (-1) = c (-1)"
  shows "pv (ps[i := p]) c' b =
    (if b = pg_block p \<and> b \<noteq> -1 then pg_buf p else pv ps c b)"
proof (cases "b = pg_block p \<and> b \<noteq> -1")
  case True
  moreover have "pv (ps[i := p]) c' (pg_block p) = pg_buf p" if "pg_block p \<noteq> -1"
    using pv_cached [OF one_page_update [OF assms(1-3)], of i "pg_block p" c'] assms(2) that by simp
  ultimately show ?thesis by auto
next
  case other: False
  show ?thesis
  proof (cases rule: pv_cases [OF assms(1), of b c])
    case (1 j)
    then have "j \<noteq> i" using other assms(3) by auto
    then show ?thesis
      using pv_cached [OF one_page_update [OF assms(1-3)], of j] 1 other by auto
  next
    case 2
    then have "b = -1 \<or> b \<notin> pg_block ` set (ps[i := p])"
      using assms(2,3) by (simp add: block_set_update)
    then have "pv (ps[i := p]) c' b = c' b" using pv_uncached pv_none by blast
    moreover have "c' b = c b" using other assms(4) [of b] assms(5) by (cases "b = -1") auto
    ultimately show ?thesis using 2 other by auto
  qed
qed


lemma pv_append:
  assumes p: "pg_block p = -1" shows "pv (ps @ [p]) c = pv ps c"
proof
  fix b
  have "b \<noteq> -1 \<Longrightarrow> find (\<lambda>q. pg_block q = b) (ps @ [p]) = find (\<lambda>q. pg_block q = b) ps"
    using p by (induction ps) auto
  then show "pv (ps @ [p]) c b = pv ps c b" by (simp add: pv_def)
qed

lemma pv_fresh:
  assumes "one_page ps" "i < length ps" "pg_block p = blk" "blk \<notin> pg_block ` set ps" "blk \<noteq> -1"
    and "pg_buf p = c blk" "page_ok bs lim k c (ps ! i)" "pg_dirty (ps ! i) = 0"
  shows "pv (ps[i := p]) c = pv ps c"
proof
  fix b
  note op = one_page_fresh [OF assms(1), of p i]
  show "pv (ps[i := p]) c b = pv ps c b"
  proof (cases "b = blk")
    case True
    then show ?thesis using pv_cached [OF op, of i blk] assms pv_uncached [of blk ps c] by simp
  next
    case False
    show ?thesis
    proof (cases rule: pv_cases [OF assms(1), of b c])
      case (1 j)
      show ?thesis
      proof (cases "j = i")
        case True
        then have "b \<notin> pg_block ` set (ps[i := p])"
          using 1 False assms(1-4) unfolding one_page_def uniq_def
          by (auto simp: in_set_conv_nth nth_list_update split: if_splits)
        then have "pv (ps[i := p]) c b = c b" by (rule pv_uncached)
        then show ?thesis using 1 True assms(7,8) by (simp add: page_ok_def)
      next
        case False
        then show ?thesis using pv_cached [OF op, of j b] 1 assms(3,4) by simp
      qed
    next
      case 2
      then have "b = -1 \<or> b \<notin> pg_block ` set (ps[i := p])"
        using False assms(2,3) set_update_subset_insert [of ps i p] by auto
      then show ?thesis using 2 pv_uncached pv_none by metis
    qed
  qed
qed

lemma pinv_page: "pinv bs lim k ps c \<Longrightarrow> i < length ps \<Longrightarrow> page_ok bs lim k c (ps ! i)"
  by (simp add: pinv_def)

lemma pinv_mono: "pinv bs lim k ps c \<Longrightarrow> j \<le> k \<Longrightarrow> pinv bs lim j ps c"
  by (auto simp: pinv_def page_ok_def)

lemma pinv_set_update:
  "pinv bs lim k ps c \<Longrightarrow> one_page (ps[i := p]) \<Longrightarrow> page_ok bs lim k c p \<Longrightarrow> pinv bs lim k (ps[i := p]) c"
  unfolding pinv_def using set_update_subset_insert [of ps i p] by blast


section \<open>A volume as its I/O vector presents it\<close>

definition vview :: "('d \<Rightarrow> u32 \<Rightarrow> block) \<Rightarrow> 'd vol \<Rightarrow> u32 \<Rightarrow> block" where
  "vview ct s = pv (pr_pages (pgr s)) (ct (v_outer s))"

definition vinv :: "'d os \<Rightarrow> ('d \<Rightarrow> u32 \<Rightarrow> block) \<Rightarrow> u32 \<Rightarrow> nat \<Rightarrow> 'd vol \<Rightarrow> bool" where
  "vinv os ct lim k s \<longleftrightarrow> os_laws os ct (v_blksize s)
     \<and> pinv (v_blksize s) lim k (pr_pages (pgr s)) (ct (v_outer s))"

definition vrest :: "'d vol \<Rightarrow> disk \<times> nat list \<times> (nat \<Rightarrow> minode option) \<times> nat \<times> bool" where
  "vrest s = ((v_disk s)\<lparr>dk_buf := []\<rparr>, v_minodes s, v_mstore s, v_mnext s, v_pager s = None)"

lemma vrestD:
  assumes "vrest s' = vrest s"
  shows "v_sb s' = v_sb s" "v_blksize s' = v_blksize s"
    "dk_readonly (v_disk s') = dk_readonly (v_disk s)" "dk_boote (v_disk s') = dk_boote (v_disk s)"
    "v_minodes s' = v_minodes s" "v_mstore s' = v_mstore s" "v_mnext s' = v_mnext s"
    "v_pager s' = None \<longleftrightarrow> v_pager s = None"
  using assms unfolding vrest_def by (auto dest: arg_cong [where f = dk_sb]
      arg_cong [where f = dk_blksize] arg_cong [where f = dk_readonly] arg_cong [where f = dk_boote])

text \<open>A transparent step: nothing a client of the volume can see changes, and no invariant is lost.\<close>

definition transp :: "'d os \<Rightarrow> ('d \<Rightarrow> u32 \<Rightarrow> block) \<Rightarrow> 'd vol \<Rightarrow> 'd vol \<Rightarrow> bool" where
  "transp os ct s s' \<longleftrightarrow> vview ct s' = vview ct s \<and> vrest s' = vrest s
     \<and> (\<forall>lim k. vinv os ct lim k s \<longrightarrow> vinv os ct lim k s')"

lemma transp_refl [simp, intro]: "transp os ct s s"
  by (simp add: transp_def)

lemma transp_trans [trans]: "transp os ct s t \<Longrightarrow> transp os ct t u \<Longrightarrow> transp os ct s u"
  by (simp add: transp_def)

lemma transpD:
  assumes "transp os ct s s'"
  shows "vview ct s' = vview ct s" "vrest s' = vrest s" "vinv os ct lim k s \<Longrightarrow> vinv os ct lim k s'"
  using assms by (auto simp: transp_def)

lemma vinv_laws: "vinv os ct lim k s \<Longrightarrow> os_laws os ct (v_blksize s)"
  by (simp add: vinv_def)

lemma vinv_mono: "vinv os ct lim k s \<Longrightarrow> j \<le> k \<Longrightarrow> vinv os ct lim j s"
  using pinv_mono by (auto simp: vinv_def)

lemma quiet_transp: "quiet ct s s' \<Longrightarrow> transp os ct s s'"
  unfolding quiet_def transp_def vview_def vinv_def vrest_def pgr_def by auto

lemma quiet_pgr: "quiet ct s s' \<Longrightarrow> pgr s' = pgr s"
  by (simp add: pgr_def quietD)

lemma pgr_outer [simp]: "pgr (s\<lparr>v_outer := d\<rparr>) = pgr s"
  by (simp add: pgr_def)

lemma pgr_upd_pgr [simp]: "v_pager s \<noteq> None \<Longrightarrow> pgr (upd_pgr f s) = f (pgr s)"
  by (auto simp: pgr_def upd_pgr_def)

lemma upd_pgr_simps [simp]:
  "v_outer (upd_pgr f s) = v_outer s" "v_disk (upd_pgr f s) = v_disk s"
  "v_pager (upd_pgr f s) = None \<longleftrightarrow> v_pager s = None"
  "vrest (upd_pgr f s) = vrest s"
  by (simp_all add: upd_pgr_def vrest_def)

lemma upd_page_simps [simp]:
  "v_outer (upd_page i f s) = v_outer s" "v_disk (upd_page i f s) = v_disk s"
  "v_pager (upd_page i f s) = None \<longleftrightarrow> v_pager s = None"
  "vrest (upd_page i f s) = vrest s"
  "v_pager s \<noteq> None \<Longrightarrow>
     pr_pages (pgr (upd_page i f s)) = (pr_pages (pgr s))[i := f (pr_pages (pgr s) ! i)]"
  by (simp_all add: upd_page_def)

lemma transp_counter:
  "v_pager s \<noteq> None \<Longrightarrow> (\<And>p. pr_pages (f p) = pr_pages p) \<Longrightarrow> transp os ct s (upd_pgr f s)"
  by (simp add: transp_def vview_def vinv_def)

lemma transp_touch:
  assumes "v_pager s \<noteq> None" "vinv os ct lim k s" "i < length (pr_pages (pgr s))"
    and "\<And>p. pg_block (f p) = pg_block p \<and> pg_buf (f p) = pg_buf p \<and> pg_dirty (f p) = pg_dirty p"
  shows "transp os ct s (upd_page i f s)"
proof -
  let ?ps = "pr_pages (pgr s)" and ?c = "ct (v_outer s)"
  have op: "one_page ?ps" using assms(2) by (simp add: vinv_def pinv_def)
  have pv: "pv (?ps[i := f (?ps ! i)]) ?c b = pv ?ps ?c b" for b
    using pv_update [OF op assms(3), of "f (?ps ! i)" ?c ?c b] assms(4)
      pv_cached [OF op assms(3), of b ?c] by auto
  have "pinv bs lim j ?ps ?c \<Longrightarrow> pinv bs lim j (?ps[i := f (?ps ! i)]) ?c" for bs lim j
    using assms(3,4) pinv_page [of bs lim j ?ps ?c i]
    by (intro pinv_set_update one_page_update op) (auto simp: page_ok_def)
  with pv assms(1) show ?thesis by (auto simp: transp_def vview_def vinv_def)
qed

lemma find_from_Some:
  "find_from ps n blk = Some i \<Longrightarrow> n \<le> i \<and> i < n + length ps \<and> pg_block (ps ! (i - n)) = blk"
  by (induction ps arbitrary: n) (force simp: nth_Cons' split: if_splits)+

lemma find_from_None: "find_from ps n blk = None \<longleftrightarrow> blk \<notin> pg_block ` set ps"
  by (induction ps arbitrary: n) auto

lemma find_block_Some:
  "ufs_pager_find_block p blk = Some i \<Longrightarrow> i < length (pr_pages p) \<and> pg_block (pr_pages p ! i) = blk"
  unfolding ufs_pager_find_block_def by (drule find_from_Some) simp

lemma find_block_None:
  "ufs_pager_find_block p blk = None \<longleftrightarrow> blk \<notin> pg_block ` set (pr_pages p)"
  by (simp add: ufs_pager_find_block_def find_from_None)


section \<open>Replacement\<close>

definition page_le :: "page \<Rightarrow> page \<Rightarrow> bool" where
  "page_le p q \<longleftrightarrow> pg_used p < pg_used q \<or> pg_used p = pg_used q \<and> pg_lru p \<le> pg_lru q"

lemma lru_scan_spec:
  assumes "i < n" "\<And>q. q \<in> set pre \<Longrightarrow> page_le page q" "length pre = n" "pre ! i = page"
  shows "lru_scan ps n i page < n + length ps
    \<and> (\<forall>q \<in> set (pre @ ps). page_le ((pre @ ps) ! lru_scan ps n i page) q)"
  using assms
proof (induction ps arbitrary: n i page pre)
  case (Cons p ps)
  define better where "better \<longleftrightarrow> pg_used p < pg_used page \<or> pg_used p = pg_used page \<and> pg_lru p < pg_lru page"
  define i' where "i' = (if better then n else i)"
  define page' where "page' = (if better then p else page)"
  have step: "lru_scan (p # ps) n i page = lru_scan ps (Suc n) i' page'"
    by (simp add: i'_def page'_def better_def)
  have "page_le p q" if "page_le page q" better for q
    using that unfolding page_le_def better_def by auto
  moreover have "page_le page p" if "\<not> better"
    using that unfolding page_le_def better_def by auto
  moreover have "page_le q q" for q by (simp add: page_le_def)
  ultimately have le: "\<And>q. q \<in> set (pre @ [p]) \<Longrightarrow> page_le page' q"
    using Cons.prems(2) by (auto simp: page'_def)
  have "i' < Suc n" "length (pre @ [p]) = Suc n" "(pre @ [p]) ! i' = page'"
    using Cons.prems by (auto simp: i'_def page'_def nth_append)
  from Cons.IH [OF this(1) le this(2,3)] show ?case unfolding step by auto
qed (auto)

text \<open>A full cache gives up its least-used page, the oldest of those.\<close>

lemma lru_page_victim:
  assumes "ufs_pager_lru_page os s = (Some i, s')" "pr_pages (pgr s) \<noteq> []"
    and "length (pr_pages (pgr s)) \<ge> unat (pr_maxpages (pgr s))"
  shows "s' = s \<and> i < length (pr_pages (pgr s))
    \<and> (\<forall>q \<in> set (pr_pages (pgr s)). page_le (pr_pages (pgr s) ! i) q)"
proof -
  obtain p ps where ps: "pr_pages (pgr s) = p # ps" using assms(2) by (cases "pr_pages (pgr s)") auto
  have "lru_scan ps 1 0 p < 1 + length ps"
    "\<forall>q\<in>set ([p] @ ps). page_le (([p] @ ps) ! lru_scan ps 1 0 p) q"
    using lru_scan_spec [of 0 1 "[p]" p ps] by (auto simp: page_le_def)
  with assms ps show ?thesis by (auto simp: ufs_pager_lru_page_def Let_def)
qed

lemma lru_page_spec:
  assumes "vinv os ct lim k s" "v_pager s \<noteq> None" "ufs_pager_lru_page os s = (r, s')"
  shows "transp os ct s s'"
    and "r = Some i \<Longrightarrow> i < length (pr_pages (pgr s'))"
    and "length (pr_pages (pgr s')) \<le> max 1 (max (unat (pr_maxpages (pgr s))) (length (pr_pages (pgr s))))"
    and "pg_block ` set (pr_pages (pgr s')) \<subseteq> insert (-1) (pg_block ` set (pr_pages (pgr s)))"
    and "pr_maxpages (pgr s') = pr_maxpages (pgr s)"
proof -
  note laws = vinv_laws [OF assms(1)]
  have "transp os ct s s' \<and> (r = Some i \<longrightarrow> i < length (pr_pages (pgr s')))
    \<and> length (pr_pages (pgr s')) \<le> max 1 (max (unat (pr_maxpages (pgr s))) (length (pr_pages (pgr s))))
    \<and> pg_block ` set (pr_pages (pgr s')) \<subseteq> insert (-1) (pg_block ` set (pr_pages (pgr s)))
    \<and> pr_maxpages (pgr s') = pr_maxpages (pgr s)"
  proof (cases "length (pr_pages (pgr s)) \<ge> unat (pr_maxpages (pgr s)) \<and> pr_pages (pgr s) \<noteq> []")
    case True
    then obtain j where "r = Some j" "s' = s" using assms(3) by (auto simp: ufs_pager_lru_page_def Let_def)
    then show ?thesis using lru_page_victim [of os s j s'] True assms(3) by auto
  next
    case False
    obtain pg s1 where new: "ufs_page_new os s = (pg, s1)" by fastforce
    have q: "quiet ct s s1"
      using new laws unfolding ufs_page_new_def
      by (auto split: prod.splits if_splits dest: quiet_calloc intro: quiet_trans [OF quiet_calloc quiet_clock64])
    note q' = quiet_pgr [OF q] quiet_transp [OF q]
    show ?thesis
    proof (cases pg)
      case None
      then have "r = None" "s' = s1" using assms(3) False new by (auto simp: ufs_pager_lru_page_def Let_def)
      then show ?thesis using q' by auto
    next
      case (Some p)
      then have r: "r = Some (length (pr_pages (pgr s)))"
        "s' = upd_pgr (\<lambda>q. q\<lparr>pr_pages := pr_pages q @ [p]\<rparr>) s1"
        using assms(3) False new by (auto simp: ufs_pager_lru_page_def Let_def)
      have p: "pg_block p = -1" "pg_dirty p = 0" "length (pg_buf p) = unat (v_blksize s)"
        using new Some q unfolding ufs_page_new_def
        by (auto split: prod.splits if_splits simp: calloc_def quietD(4) [OF q])
      have pg1: "v_pager s1 \<noteq> None" using assms(2) quietD(2) [OF q] by simp
      have "vinv os ct lim j s'" if "vinv os ct lim j s1" for lim j
        using that one_page_append [of "pr_pages (pgr s1)" p] p pg1 quietD(4) [OF q]
        by (auto simp: vinv_def r pinv_def page_ok_def)
      then have "transp os ct s1 s'" unfolding transp_def 
        using pg1 p by (auto simp: vview_def r pv_append)  
      with q'(2) have "transp os ct s s'" by (rule transp_trans)
      then show ?thesis using q'(1) r p(1) pg1 False by (auto simp: max_def not_le)
    qed
  qed
  then show "transp os ct s s'" "r = Some i \<Longrightarrow> i < length (pr_pages (pgr s'))"
    "length (pr_pages (pgr s')) \<le> max 1 (max (unat (pr_maxpages (pgr s))) (length (pr_pages (pgr s))))"
    "pg_block ` set (pr_pages (pgr s')) \<subseteq> insert (-1) (pg_block ` set (pr_pages (pgr s)))"
    "pr_maxpages (pgr s') = pr_maxpages (pgr s)"
    by blast+
qed


section \<open>Transparency of the cache\<close>

lemma pinvI:
  "k < 2 ^ 32 \<Longrightarrow> (\<And>m. m < length ps \<Longrightarrow> page_ok bs lim k c (ps ! m)) \<Longrightarrow> one_page ps \<Longrightarrow> pinv bs lim k ps c"
  by (auto simp: pinv_def in_set_conv_nth)

lemma one_pageD:
  "one_page ps \<Longrightarrow> i < length ps \<Longrightarrow> j < length ps \<Longrightarrow> pg_block (ps ! i) = pg_block (ps ! j) \<Longrightarrow>
     pg_block (ps ! i) \<noteq> -1 \<Longrightarrow> i = j"
  unfolding one_page_def uniq_def by simp

lemma page_flush_spec:
  assumes "vinv os ct lim k s" "v_pager s \<noteq> None" "i < length (pr_pages (pgr s))"
    and "pg_dirty (pr_pages (pgr s) ! i) \<noteq> 0" "ufs_page_flush os s i = (rc, s')"
  shows "transp os ct s s'"
    and "rc = RcOk \<Longrightarrow> pr_pages (pgr s') = (pr_pages (pgr s))[i := (pr_pages (pgr s) ! i)\<lparr>pg_dirty := 0\<rparr>]"
    and "rc \<noteq> RcOk \<Longrightarrow> pr_pages (pgr s') = pr_pages (pgr s)"
    and "pr_maxpages (pgr s') = pr_maxpages (pgr s)"
proof -
  let ?ps = "pr_pages (pgr s)" and ?c = "ct (v_outer s)" and ?bs = "v_blksize s"
  let ?p = "?ps ! i"
  note laws = vinv_laws [OF assms(1)]
  have inv: "pinv ?bs lim k ?ps ?c" using assms(1) by (simp add: vinv_def)
  then have op: "one_page ?ps" by (simp add: pinv_def)
  have ok: "page_ok ?bs lim k ?c ?p" using pinv_page [OF inv assms(3)] .
  then have blk: "pg_block ?p \<noteq> -1" using assms(4) by (auto simp: page_ok_def)
  obtain rc1 s1 where w: "ufs_disk_write os s (pg_buf ?p) (pg_block ?p) = (rc1, s1)" by fastforce
  have "length (pg_buf ?p) = unat ?bs" using ok by (simp add: page_ok_def)
  from disk_write_laws [OF laws w this] obtain d where
    s1: "s1 = s\<lparr>v_outer := d\<rparr>" and oth: "\<And>b. b \<noteq> pg_block ?p \<Longrightarrow> ct d b = ?c b"
    and st: "rc1 = RcOk \<Longrightarrow> ct d (pg_block ?p) = pg_buf ?p" by blast
  have pg1: "pgr s1 = pgr s" by (simp add: s1 pgr_def)
  have "pv ?ps (ct d) b = pv ?ps ?c b" for b
    using pv_update [OF op assms(3) refl, of "ct d" ?c b] oth blk pv_cached [OF op assms(3), of b ?c]
    by auto
  moreover have "pinv ?bs lim j ?ps (ct d)" if "pinv ?bs lim j ?ps ?c" for lim j
  proof (rule pinvI)
    show "j < 2 ^ 32" using that by (simp add: pinv_def)
    fix m assume m: "m < length ?ps"
    have "m = i \<or> pg_block (?ps ! m) \<noteq> pg_block ?p"
      using one_pageD [OF op assms(3) m] blk by auto
    then show "page_ok ?bs lim j (ct d) (?ps ! m)"
      using pinv_page [OF that m] oth assms(4) unfolding page_ok_def by auto
  qed (rule op)
  ultimately have tr1: "transp os ct s s1"
    by (auto simp: transp_def vview_def vinv_def s1 vrest_def)
  let ?s2 = "upd_page i (\<lambda>p. p\<lparr>pg_dirty := 0\<rparr>)
    (upd_pgr (\<lambda>p. p\<lparr>pr_dwrites := ufs_pager_inc (pr_dwrites p) 1\<rparr>) s1)"
  have pgs: "v_pager s1 \<noteq> None" using assms(2) by (simp add: s1)
  then have ps2: "pr_pages (pgr ?s2) = ?ps[i := ?p\<lparr>pg_dirty := 0\<rparr>]"
    "pr_maxpages (pgr ?s2) = pr_maxpages (pgr s)"
    by (simp_all add: pg1 upd_page_def)
  have "transp os ct s1 ?s2" if "rc1 = RcOk"
  proof -
    have "pv (?ps[i := ?p\<lparr>pg_dirty := 0\<rparr>]) (ct d) b = pv ?ps (ct d) b" for b
      using pv_update [OF op assms(3), of "?p\<lparr>pg_dirty := 0\<rparr>" "ct d" "ct d" b]
        pv_cached [OF op assms(3), of b "ct d"] by auto
    moreover have "pinv ?bs lim j (?ps[i := ?p\<lparr>pg_dirty := 0\<rparr>]) (ct d)" if "pinv ?bs lim j ?ps (ct d)" for lim j
      using that pinv_page [OF that assms(3)] st [OF \<open>rc1 = RcOk\<close>]
      by (intro pinv_set_update one_page_update op assms(3)) (auto simp: page_ok_def pinv_def)
    moreover have "v_outer s1 = d" "v_disk s1 = v_disk s" by (simp_all add: s1)
    ultimately show ?thesis by (auto simp: transp_def vview_def vinv_def ps2 pg1)
  qed
  then show "transp os ct s s'" "rc = RcOk \<Longrightarrow> pr_pages (pgr s') = ?ps[i := ?p\<lparr>pg_dirty := 0\<rparr>]"
    "rc \<noteq> RcOk \<Longrightarrow> pr_pages (pgr s') = pr_pages (pgr s)"
    "pr_maxpages (pgr s') = pr_maxpages (pgr s)"
    using assms(5) w tr1 transp_trans [OF tr1] ps2 pg1
    by (auto simp: ufs_page_flush_def Let_def split: if_splits)
qed


lemma clean_page_spec:
  assumes "vinv os ct lim k s" "v_pager s \<noteq> None" "ufs_pager_lru_page os s = (Some i, s1)"
    and "(if pg_dirty (pr_pages (pgr s1) ! i) \<noteq> 0 then ufs_page_flush os s1 i else (RcOk, s1)) = (rc, s2)"
  shows "transp os ct s s2" and "i < length (pr_pages (pgr s2))"
    and "rc = RcOk \<Longrightarrow> pg_dirty (pr_pages (pgr s2) ! i) = 0"
    and "pg_block ` set (pr_pages (pgr s2)) \<subseteq> insert (-1) (pg_block ` set (pr_pages (pgr s)))"
    and "v_pager s2 \<noteq> None" and "pr_maxpages (pgr s2) = pr_maxpages (pgr s)"
    and "length (pr_pages (pgr s2)) \<le> max 1 (max (unat (pr_maxpages (pgr s))) (length (pr_pages (pgr s))))"
proof -
  note lru = lru_page_spec [OF assms(1-3)]
  have s1: "vinv os ct lim k s1" "v_pager s1 \<noteq> None" "i < length (pr_pages (pgr s1))"
    using lru(1,2) transpD [OF lru(1)] assms(1,2) vrestD(8) [of s1 s] by auto
  have "transp os ct s s2 \<and> i < length (pr_pages (pgr s2)) \<and> (rc = RcOk \<longrightarrow>
      pg_dirty (pr_pages (pgr s2) ! i) = 0) \<and>
      pg_block ` set (pr_pages (pgr s2)) \<subseteq> insert (-1) (pg_block ` set (pr_pages (pgr s))) \<and>
      v_pager s2 \<noteq> None \<and> pr_maxpages (pgr s2) = pr_maxpages (pgr s) \<and>
      length (pr_pages (pgr s2)) \<le> max 1 (max (unat (pr_maxpages (pgr s))) (length (pr_pages (pgr s))))"
  proof (cases "pg_dirty (pr_pages (pgr s1) ! i) \<noteq> 0")
    case True
    with assms(4) have fl: "ufs_page_flush os s1 i = (rc, s2)" by simp
    note f = page_flush_spec [OF s1 True fl]
    have "pg_block ` set (pr_pages (pgr s2)) = pg_block ` set (pr_pages (pgr s1))"
      "length (pr_pages (pgr s2)) = length (pr_pages (pgr s1))"
      using f(2,3) s1(3) by (cases "rc = RcOk"; simp add: block_set_update)+
    moreover have "v_pager s2 \<noteq> None" using s1(2) vrestD(8) [OF transpD(2) [OF f(1)]] by simp
    ultimately show ?thesis
      using transp_trans [OF lru(1) f(1)] f(2,4) lru(3-5) s1(3) by auto
  next
    case False
    then have "s2 = s1" using assms(4) by simp
    with False s1 lru show ?thesis
      by auto
  qed
  then
  show "transp os ct s s2" "i < length (pr_pages (pgr s2))"
    "rc = RcOk \<Longrightarrow> pg_dirty (pr_pages (pgr s2) ! i) = 0"
    "pg_block ` set (pr_pages (pgr s2)) \<subseteq> insert (-1) (pg_block ` set (pr_pages (pgr s)))"
    "v_pager s2 \<noteq> None" "pr_maxpages (pgr s2) = pr_maxpages (pgr s)"
    "length (pr_pages (pgr s2)) \<le> max 1 (max (unat (pr_maxpages (pgr s))) (length (pr_pages (pgr s))))"
    by blast+
qed

lemma quiet_clock64_s: "os_laws os ct bs \<Longrightarrow> quiet ct s (snd (clock64 os s))"
  using quiet_clock64 [of os ct bs s "fst (clock64 os s)" "snd (clock64 os s)"] by simp

lemma page_reset_transp:
  assumes "vinv os ct lim k s" "v_pager s \<noteq> None" "i < length (pr_pages (pgr s))"
    and "pg_dirty (pr_pages (pgr s) ! i) = 0" "blk \<notin> pg_block ` set (pr_pages (pgr s))" "blk \<noteq> -1"
    and "buf = ct (v_outer s) blk" "length buf = unat (v_blksize s)"
  shows "transp os ct s (page_reset os s i buf blk)"
    and "length (pr_pages (pgr (page_reset os s i buf blk))) = length (pr_pages (pgr s))"
    and "pr_maxpages (pgr (page_reset os s i buf blk)) = pr_maxpages (pgr s)"
proof -
  obtain t s1 where c: "clock64 os s = (t, s1)" by fastforce
  have q: "quiet ct s s1" using quiet_clock64 [OF vinv_laws [OF assms(1)] c] .
  let ?f = "\<lambda>p. p\<lparr>pg_lru := t, pg_dirty := 0, pg_used := 1, pg_block := blk, pg_buf := buf\<rparr>"
  let ?ps = "pr_pages (pgr s)" and ?c = "ct (v_outer s)" and ?bs = "v_blksize s"
  have r: "page_reset os s i buf blk = upd_page i ?f s1" by (simp add: page_reset_def c)
  have s1: "pgr s1 = pgr s" "v_pager s1 \<noteq> None" "ct (v_outer s1) = ?c" "v_blksize s1 = ?bs"
    using quiet_pgr [OF q] quietD [OF q] assms(2) by auto
  have inv: "pinv ?bs lim k ?ps ?c" using assms(1) by (simp add: vinv_def)
  then have op: "one_page ?ps" by (simp add: pinv_def)
  have "pv (?ps[i := ?f (?ps ! i)]) ?c = pv ?ps ?c"
    by (rule pv_fresh [OF op assms(3) _ assms(5,6) _ pinv_page [OF inv assms(3)] assms(4)])
       (simp_all add: assms(7))
  moreover have "pinv ?bs lim j (?ps[i := ?f (?ps ! i)]) ?c" if "pinv ?bs lim j ?ps ?c" for lim j
    using that assms(5-8)
    by (intro pinv_set_update one_page_fresh op) (auto simp: page_ok_def pinv_def)
  ultimately have "transp os ct s1 (page_reset os s i buf blk)"
    using s1 by (auto simp: r transp_def vview_def vinv_def)
  with quiet_transp [OF q] show "transp os ct s (page_reset os s i buf blk)" by (rule transp_trans)
  show "length (pr_pages (pgr (page_reset os s i buf blk))) = length ?ps"
    "pr_maxpages (pgr (page_reset os s i buf blk)) = pr_maxpages (pgr s)"
    using s1 by (simp_all add: r upd_page_def)
qed


lemma transp_pager: "transp os ct s s' \<Longrightarrow> v_pager s' = None \<longleftrightarrow> v_pager s = None"
  using transpD(2) vrestD(8) by metis

lemma transp_blksize: "transp os ct s s' \<Longrightarrow> v_blksize s' = v_blksize s"
  using transpD(2) vrestD(2) by metis

lemma view_cached:
  "vinv os ct lim k s \<Longrightarrow> i < length (pr_pages (pgr s)) \<Longrightarrow> pg_block (pr_pages (pgr s) ! i) = b \<Longrightarrow> b \<noteq> -1 \<Longrightarrow>
     vview ct s b = pg_buf (pr_pages (pgr s) ! i)"
  unfolding vview_def vinv_def pinv_def using pv_cached by blast

lemma view_uncached: "b \<notin> pg_block ` set (pr_pages (pgr s)) \<Longrightarrow> vview ct s b = ct (v_outer s) b"
  unfolding vview_def by (rule pv_uncached)

lemma view_length:
  assumes "vinv os ct lim k s" "i < length (pr_pages (pgr s))"
  shows "length (pg_buf (pr_pages (pgr s) ! i)) = unat (v_blksize s)"
  using assms pinv_page unfolding vinv_def page_ok_def by blast

lemma page_hit_transp:
  assumes "vinv os ct lim k s" "v_pager s \<noteq> None" "i < length (pr_pages (pgr s))"
  shows "transp os ct s (page_hit os s i)"
    and "map pg_block (pr_pages (pgr (page_hit os s i))) = map pg_block (pr_pages (pgr s))"
    and "map pg_dirty (pr_pages (pgr (page_hit os s i))) = map pg_dirty (pr_pages (pgr s))"
    and "map pg_buf (pr_pages (pgr (page_hit os s i))) = map pg_buf (pr_pages (pgr s))"
    and "pr_maxpages (pgr (page_hit os s i)) = pr_maxpages (pgr s)"
proof -
  define s1 where "s1 = upd_pgr (\<lambda>p. p\<lparr>pr_cachehits := ufs_pager_inc (pr_cachehits p) 1\<rparr>) s"
  define s2 where "s2 = upd_page i (\<lambda>p. p\<lparr>pg_used := ufs_pager_inc (pg_used p) 1\<rparr>) s1"
  obtain t s3 where c: "clock64 os s2 = (t, s3)" by fastforce
  have h: "page_hit os s i = upd_page i (\<lambda>p. p\<lparr>pg_lru := t\<rparr>) s3"
    using c by (simp add: page_hit_def s1_def [symmetric] s2_def [symmetric])
  have t1: "transp os ct s s1" unfolding s1_def using assms(2) by (rule transp_counter) simp
  have p1: "pgr s1 = (pgr s)\<lparr>pr_cachehits := ufs_pager_inc (pr_cachehits (pgr s)) 1\<rparr>"
    "v_pager s1 \<noteq> None" using assms(2) by (simp_all add: s1_def)
  have t2: "transp os ct s1 s2" unfolding s2_def
    by (rule transp_touch [OF p1(2) transpD(3) [OF t1 assms(1)]]) (use assms(3) p1 in simp_all)
  have p2: "v_pager s2 \<noteq> None" using p1(2) by (simp add: s2_def)
  note t12 = transp_trans [OF t1 t2]
  have q: "quiet ct s2 s3"
    using quiet_clock64 [OF vinv_laws [OF transpD(3) [OF t12 assms(1)]] c] .
  note t13 = transp_trans [OF t12 quiet_transp [OF q]]
  have p3: "v_pager s3 \<noteq> None" "pgr s3 = pgr s2" using p2 quietD(2) [OF q] quiet_pgr [OF q] by auto
  have p3': "pr_pages (pgr s3) = (pr_pages (pgr s))[i := (pr_pages (pgr s) ! i)\<lparr>pg_used :=
      ufs_pager_inc (pg_used (pr_pages (pgr s) ! i)) 1\<rparr>]" "pr_maxpages (pgr s3) = pr_maxpages (pgr s)"
    using p1 p3(2) by (simp_all add: s2_def upd_page_def)
  have "transp os ct s3 (page_hit os s i)" unfolding h
    by (rule transp_touch [OF p3(1) transpD(3) [OF t13 assms(1)]]) (use assms(3) p3' in simp_all)
  with t13 show "transp os ct s (page_hit os s i)" by (rule transp_trans)
  show "map pg_block (pr_pages (pgr (page_hit os s i))) = map pg_block (pr_pages (pgr s))"
    "map pg_dirty (pr_pages (pgr (page_hit os s i))) = map pg_dirty (pr_pages (pgr s))"
    "map pg_buf (pr_pages (pgr (page_hit os s i))) = map pg_buf (pr_pages (pgr s))"
    "pr_maxpages (pgr (page_hit os s i)) = pr_maxpages (pgr s)"
    using p3 p3' assms(3) by (auto simp: h upd_page_def nth_list_update intro!: nth_equalityI)
qed


text \<open>The store of a deferred write: the page holds the new data and one more write is pending.\<close>

lemma page_store:
  assumes "vinv os ct lim (Suc k) s" "v_pager s \<noteq> None" "i < length (pr_pages (pgr s))"
    and "pg_block (pr_pages (pgr s) ! i) = blk" "blk < lim" "length buf = unat (v_blksize s)"
    and "s' = upd_page i (\<lambda>p. p\<lparr>pg_buf := buf, pg_dirty := pg_dirty p + 1\<rparr>) s"
  shows "vinv os ct lim k s'" "vview ct s' = (vview ct s)(blk := buf)" "vrest s' = vrest s"
proof -
  let ?ps = "pr_pages (pgr s)" and ?c = "ct (v_outer s)" and ?bs = "v_blksize s"
  let ?q = "(?ps ! i)\<lparr>pg_buf := buf, pg_dirty := pg_dirty (?ps ! i) + 1\<rparr>"
  have inv: "pinv ?bs lim (Suc k) ?ps ?c" using assms(1) by (simp add: vinv_def)
  then have op: "one_page ?ps" by (simp add: pinv_def)
  have ok: "unat (pg_dirty (?ps ! i)) + Suc k < 2 ^ 32"
    using pinv_page [OF inv assms(3)] by (simp add: page_ok_def)
  then have d: "unat (pg_dirty (?ps ! i) + 1) = unat (pg_dirty (?ps ! i)) + 1"
    by (subst unat_add_lem [THEN iffD1]) auto
  have "pinv ?bs lim k (?ps[i := ?q]) ?c"
  proof (intro pinv_set_update one_page_update op assms(3))
    show "pinv ?bs lim k ?ps ?c" using inv pinv_mono by (metis le_add2 plus_1_eq_Suc)
    have "pg_dirty (?ps ! i) + 1 \<noteq> 0" using d by (metis add_is_0 one_neq_zero unat_0)
    then show "page_ok ?bs lim k ?c ?q"
      using ok d assms(4-6) unfolding page_ok_def by simp
  qed simp
  with assms show "vinv os ct lim k s'" by (simp add: vinv_def)
  show "vview ct s' = (vview ct s)(blk := buf)"
    using assms(2) valid_block [OF assms(5)] pv_update [OF op assms(3), of ?q ?c ?c] assms(4)
    by (auto simp: vview_def assms(7))
  show "vrest s' = vrest s" by (simp add: assms(7))
qed

lemma quiet_unlock_transp: "vinv os ct lim k s \<Longrightarrow> transp os ct s (unlock os r l s)"
  by (rule quiet_transp [OF quiet_unlock [OF vinv_laws]])

lemma pager_read_miss_spec:
  assumes v: "vinv os ct lim k s" and p: "v_pager s \<noteq> None" and "blk < lim" "length buf = unat (v_blksize s)"
    and nin: "blk \<notin> pg_block ` set (pr_pages (pgr s))" and miss: "pager_read_miss os s buf blk = (rc, buf', s')"
  shows "transp os ct s s' \<and> length buf' = unat (v_blksize s) \<and> (rc = RcOk \<longrightarrow> buf' = vview ct s blk)"
proof -
  obtain page s3 where lp: "ufs_pager_lru_page os s = (page, s3)" by fastforce
  show ?thesis
  proof (cases page)
    case None
    then show ?thesis
      using lru_page_spec(1) [OF v p lp] miss lp assms(4) by (auto simp: pager_read_miss_def)
  next
    case (Some i)
    obtain rc4 s4 where c: "(if pg_dirty (pr_pages (pgr s3) ! i) \<noteq> 0 then ufs_page_flush os s3 i
        else (RcOk, s3)) = (rc4, s4)" by fastforce
    note cl = clean_page_spec [OF v p lp [unfolded Some] c]
    note v4 = transpD(3) [OF cl(1) v] and b4 = transp_blksize [OF cl(1)]
    have nin4: "blk \<notin> pg_block ` set (pr_pages (pgr s4))" using cl(4) nin valid_block [OF assms(3)] by auto
    obtain rc5 buf5 s5 where rd: "ufs_disk_read os s4 blk = (rc5, buf5, s5)" by (metis prod_cases3)
    note dr = disk_read_laws [OF vinv_laws [OF v4] rd]
    note t5 = transp_trans [OF cl(1) quiet_transp [OF dr(1)]]
    let ?s6 = "upd_pgr (\<lambda>p. p\<lparr>pr_dreads := ufs_pager_inc (pr_dreads p) 1\<rparr>) s5"
    have p5: "v_pager s5 \<noteq> None" using cl(5) quietD(2) [OF dr(1)] by simp
    have t6: "transp os ct s ?s6" using transp_trans [OF t5 transp_counter [OF p5]] by simp
    have pg6: "pr_pages (pgr ?s6) = pr_pages (pgr s4)" using p5 quiet_pgr [OF dr(1)] by simp
    show ?thesis
    proof (cases "rc4 = RcOk \<and> rc5 = RcOk")
      case True
      then have s': "s' = page_reset os ?s6 i buf5 blk" "rc = RcOk" "buf' = buf5"
        using miss lp Some c rd by (auto simp: pager_read_miss_def)
      have "transp os ct ?s6 (page_reset os ?s6 i buf5 blk)"
        by (rule page_reset_transp [OF transpD(3) [OF t6 v]])
           (use cl p5 pg6 nin4 True dr quietD(1,4) [OF dr(1)] valid_block [OF assms(3)] in auto)
      with t6 have "transp os ct s s'" unfolding s' by (rule transp_trans)
      moreover have "buf5 = vview ct s blk"
        using dr(3) True view_uncached [OF nin4, of ct] transpD(1) [OF cl(1)] by simp
      ultimately show ?thesis using s' dr(2) b4 by simp
    next
      case False
      then have "(s' = s4 \<and> buf' = buf \<or> s' = s5 \<and> buf' = buf5) \<and> rc \<noteq> RcOk"
        using miss lp Some c rd by (cases "rc4 = RcOk") (auto simp: pager_read_miss_def)
      then show ?thesis using cl(1) t5 dr(2) assms(4) b4 by auto
    qed
  qed
qed

text \<open>
  A read through the cache: whatever fails on the way, the volume presents the same blocks
  afterwards, and a completed read delivers the block presented.
\<close>

lemma pager_read_spec:
  assumes "vinv os ct lim k s" "v_pager s \<noteq> None" "blk < lim" "length buf = unat (v_blksize s)"
    and "ufs_pager_read os s buf blk = (rc, buf', s')"
  shows "transp os ct s s' \<and> length buf' = unat (v_blksize s) \<and> (rc = RcOk \<longrightarrow> buf' = vview ct s blk)"
proof -
  obtain lockrc s1 where l: "lock os LkPager s = (lockrc, s1)" by fastforce
  note t1 = quiet_transp [OF quiet_lock [OF vinv_laws [OF assms(1)] l]]
  show ?thesis
  proof (cases "lock_held lockrc")
    case False
    then show ?thesis using assms(4,5) l t1 by (auto simp: ufs_pager_read_def)
  next
    case held: True
    define s2 where "s2 = upd_pgr (\<lambda>p. p\<lparr>pr_reads := ufs_pager_inc (pr_reads p) 0\<rparr>) s1"
    have "v_pager s1 \<noteq> None" using assms(2) transp_pager [OF t1] by simp
    then have "transp os ct s1 s2" and p2: "v_pager s2 \<noteq> None"
      unfolding s2_def by (simp_all add: transp_counter)
    with t1 have t2: "transp os ct s s2" using transp_trans by blast
    note v2 = transpD(3) [OF t2 assms(1)]
    obtain s3 where s': "s' = unlock os lockrc LkPager s3" and b:
      "(case ufs_pager_find_block (pgr s2) blk of
         Some i \<Rightarrow> let s = page_hit os s2 i in (RcOk, pg_buf (pr_pages (pgr s) ! i), s)
       | None \<Rightarrow> pager_read_miss os s2 buf blk) = (rc, buf', s3)"
      using assms(5) l held unfolding s2_def
      by (auto simp: ufs_pager_read_def Let_def split: prod.splits)
    have "transp os ct s2 s3 \<and> length buf' = unat (v_blksize s2) \<and> (rc = RcOk \<longrightarrow> buf' = vview ct s2 blk)"
    proof (cases "ufs_pager_find_block (pgr s2) blk")
      case None
      then show ?thesis
        using pager_read_miss_spec [OF v2 p2 assms(3), of buf rc buf' s3] b assms(4) transp_blksize [OF t2]
          find_block_None [of "pgr s2" blk] by simp
    next
      case (Some i)
      note i = find_block_Some [OF Some]
      note h = page_hit_transp [OF v2 p2 conjunct1 [OF i]]
      have "buf' = pg_buf (pr_pages (pgr s2) ! i)"
        using b Some i arg_cong [OF h(4), of "\<lambda>l. l ! i"] arg_cong [OF h(4), of length] by (auto simp: Let_def)
      then show ?thesis
        using b Some h(1) view_cached [OF v2 _ conjunct2 [OF i] valid_block [OF assms(3)]] view_length [OF v2] i
        by (simp add: Let_def)
    qed
    moreover from this have "transp os ct s s3" using t2 transp_trans by blast
    from transp_trans [OF this quiet_unlock_transp [OF transpD(3) [OF this assms(1)]]]
    have "transp os ct s s'" by (simp add: s')
    ultimately show ?thesis using transpD(1) [OF t2] transp_blksize [OF t2] by simp
  qed
qed

text \<open>
  What a write may do: spend one unit of the write budget, change no other block, and, when it
  completes, make the volume present the new one.
\<close>

definition stored :: "'d os \<Rightarrow> ('d \<Rightarrow> u32 \<Rightarrow> block) \<Rightarrow> u32 \<Rightarrow> nat \<Rightarrow> 'd vol \<Rightarrow> u32 \<Rightarrow> block \<Rightarrow> rc \<Rightarrow> 'd vol \<Rightarrow> bool" where
  "stored os ct lim k s blk buf rc s' \<longleftrightarrow> vinv os ct lim k s' \<and> vrest s' = vrest s
     \<and> (\<forall>b. b \<noteq> blk \<longrightarrow> vview ct s' b = vview ct s b) \<and> (rc = RcOk \<longrightarrow> vview ct s' blk = buf)"

lemma stored_transp: "stored os ct lim k s blk buf rc t \<Longrightarrow> transp os ct t s' \<Longrightarrow> stored os ct lim k s blk buf rc s'"
  by (simp add: stored_def transp_def)

lemma transp_stored: "transp os ct s t \<Longrightarrow> stored os ct lim k t blk buf rc s' \<Longrightarrow> stored os ct lim k s blk buf rc s'"
  by (simp add: stored_def transp_def)

lemma pager_write_hit_spec:
  assumes v: "vinv os ct lim (Suc k) s" and p: "v_pager s \<noteq> None" and i: "i < length (pr_pages (pgr s))"
    and "pg_block (pr_pages (pgr s) ! i) = blk" "blk < lim" "length buf = unat (v_blksize s)"
  shows "stored os ct lim k s blk buf RcOk (pager_write_hit os s i buf)"
proof -
  note h = page_hit_transp [OF v p i]
  have i': "i < length (pr_pages (pgr (page_hit os s i)))" "pg_block (pr_pages (pgr (page_hit os s i)) ! i) = blk"
    using i assms(4) arg_cong [OF h(2), of length] arg_cong [OF h(2), of "\<lambda>l. l ! i"] by auto
  have "v_pager (page_hit os s i) \<noteq> None" "length buf = unat (v_blksize (page_hit os s i))"
    using transp_pager [OF h(1)] p transp_blksize [OF h(1)] assms(6) by simp_all
  note st = page_store [OF transpD(3) [OF h(1) v] this(1) i' assms(5) this(2) pager_write_hit_def]
  show ?thesis using st by (intro transp_stored [OF h(1)]) (simp add: stored_def)
qed

lemma pager_write_through:
  assumes v: "vinv os ct lim k s" and "blk < lim" "length buf = unat (v_blksize s)"
    and nin: "blk \<notin> pg_block ` set (pr_pages (pgr s))" and w: "ufs_disk_write os s buf blk = (rc, s')"
  shows "stored os ct lim k s blk buf rc s'" and "pgr s' = pgr s"
proof -
  from disk_write_laws [OF vinv_laws [OF v] w assms(3)] obtain d where
    s': "s' = s\<lparr>v_outer := d\<rparr>" and oth: "\<And>b. b \<noteq> blk \<Longrightarrow> ct d b = ct (v_outer s) b"
    and st: "rc = RcOk \<Longrightarrow> ct d blk = buf" by blast
  show pgr: "pgr s' = pgr s" by (simp add: s')
  have inv: "pinv (v_blksize s) lim k (pr_pages (pgr s)) (ct (v_outer s))" using v by (simp add: vinv_def)
  then have "pinv (v_blksize s) lim k (pr_pages (pgr s)) (ct d)"
    using nin oth unfolding pinv_def page_ok_def by (metis imageI)
  then have "vinv os ct lim k s'" using v by (simp add: vinv_def s')
  moreover have "vview ct s' b = vview ct s b" if "b \<noteq> blk" for b
    using oth [OF that] by (cases "b = -1"; simp add: vview_def s' pv_def cong: option.case_cong)
  moreover have "rc = RcOk \<Longrightarrow> vview ct s' blk = buf"
    using view_uncached [of blk s' ct] nin st pgr by (simp add: s')
  ultimately show "stored os ct lim k s blk buf rc s'" by (simp add: stored_def s' vrest_def)
qed

lemma pager_write_miss_spec:
  assumes v: "vinv os ct lim k s" and p: "v_pager s \<noteq> None" and "blk < lim" "length buf = unat (v_blksize s)"
    and nin: "blk \<notin> pg_block ` set (pr_pages (pgr s))" and miss: "pager_write_miss os s buf blk = (rc, s')"
  shows "stored os ct lim k s blk buf rc s'"
proof -
  obtain rc3 s3 where w: "ufs_disk_write os s buf blk = (rc3, s3)" by fastforce
  note th = pager_write_through [OF v assms(3,4) nin w]
  show ?thesis
  proof (cases "rc3 = RcOk")
    case False
    then show ?thesis using th(1) miss w by (auto simp: pager_write_miss_def)
  next
    case ok: True
    have v3: "vinv os ct lim k s3" and r3: "vrest s3 = vrest s" and st3: "vview ct s3 blk = buf"
      using th(1) ok by (simp_all add: stored_def)
    define s4 where "s4 = upd_pgr (\<lambda>p. p\<lparr>pr_dwrites := ufs_pager_inc (pr_dwrites p) 1\<rparr>) s3"
    have "v_pager s3 \<noteq> None" using p vrestD(8) [OF r3] by simp
    then have t34: "transp os ct s3 s4" and p4: "v_pager s4 \<noteq> None"
      and pg4: "pr_pages (pgr s4) = pr_pages (pgr s)"
      unfolding s4_def using th(2) by (simp_all add: transp_counter)
    note v4 = transpD(3) [OF t34 v3]
    obtain page s5 where lp: "ufs_pager_lru_page os s4 = (page, s5)" by fastforce
    have fin: ?thesis if "transp os ct s3 s'"
      using stored_transp [OF th(1) that] ok by (simp add: stored_def)
    show ?thesis
    proof (cases page)
      case None
      then have "s' = s5" using miss w ok lp by (auto simp: pager_write_miss_def s4_def [symmetric])
      then show ?thesis using fin transp_trans [OF t34 lru_page_spec(1) [OF v4 p4 lp]] by simp
    next
      case (Some i)
      obtain rc6 s6 where c: "(if pg_dirty (pr_pages (pgr s5) ! i) \<noteq> 0 then ufs_page_flush os s5 i
          else (RcOk, s5)) = (rc6, s6)" by fastforce
      note cl = clean_page_spec [OF v4 p4 lp [unfolded Some] c]
      note t36 = transp_trans [OF t34 cl(1)]
      note v6 = transpD(3) [OF t36 v3]
      have nin6: "blk \<notin> pg_block ` set (pr_pages (pgr s6))" using cl(4) nin valid_block [OF assms(3)] pg4 by auto
      have b: "buf = ct (v_outer s6) blk"
        using view_uncached [OF nin6, of ct] transpD(1) [OF t36] st3 by simp
      have "length buf = unat (v_blksize s6)"
        using assms(4) transp_blksize [OF t36] vrestD(2) [OF r3] by simp
      then have "transp os ct s6 (page_reset os s6 i buf blk)" if "rc6 = RcOk"
        using page_reset_transp(1) [OF v6 cl(5,2) cl(3) [OF that] nin6 valid_block [OF assms(3)] b] by simp
      moreover have "s' = (if rc6 = RcOk then page_reset os s6 i buf blk else s6)"
        using miss w ok lp Some c by (auto simp: pager_write_miss_def s4_def [symmetric])
      ultimately show ?thesis using fin t36 transp_trans by metis
    qed
  qed
qed

text \<open>
  A write through the cache: no other block changes even when it fails, and a completed write
  is what the volume presents from then on, whether or not it has reached the disk.
\<close>

lemma pager_write_spec:
  assumes "vinv os ct lim (Suc k) s" "v_pager s \<noteq> None" "blk < lim" "length buf = unat (v_blksize s)"
    and "ufs_pager_write os s buf blk = (rc, s')"
  shows "stored os ct lim k s blk buf rc s'"
proof -
  obtain lockrc s1 where l: "lock os LkPager s = (lockrc, s1)" by fastforce
  note t1 = quiet_transp [OF quiet_lock [OF vinv_laws [OF assms(1)] l]]
  have less: "vinv os ct lim (Suc k) t \<Longrightarrow> vinv os ct lim k t" for t
    by (erule vinv_mono) simp
  show ?thesis
  proof (cases "lock_held lockrc")
    case False
    then have "s' = s1" "rc \<noteq> RcOk" using assms(5) l by (auto simp: ufs_pager_write_def)
    then show ?thesis using transpD [OF t1] less [OF assms(1)] by (simp add: stored_def)
  next
    case held: True
    define s2 where "s2 = upd_pgr (\<lambda>p. p\<lparr>pr_writes := ufs_pager_inc (pr_writes p) 0\<rparr>) s1"
    have "v_pager s1 \<noteq> None" using assms(2) transp_pager [OF t1] by simp
    then have "transp os ct s1 s2" and p2: "v_pager s2 \<noteq> None"
      unfolding s2_def by (simp_all add: transp_counter)
    with t1 have t2: "transp os ct s s2" using transp_trans by blast
    note v2 = transpD(3) [OF t2 assms(1)]
    have len: "length buf = unat (v_blksize s2)" using assms(4) transp_blksize [OF t2] by simp
    obtain s3 where s': "s' = unlock os lockrc LkPager s3" and b:
      "(case ufs_pager_find_block (pgr s2) blk of Some i \<Rightarrow> (RcOk, pager_write_hit os s2 i buf)
        | None \<Rightarrow> pager_write_miss os s2 buf blk) = (rc, s3)"
      using assms(5) l held unfolding s2_def
      by (auto simp: ufs_pager_write_def Let_def split: prod.splits)
    have "stored os ct lim k s2 blk buf rc s3"
    proof (cases "ufs_pager_find_block (pgr s2) blk")
      case None
      then show ?thesis
        using pager_write_miss_spec [OF less [OF v2] p2 assms(3) len] b find_block_None [of "pgr s2" blk]
        by simp
    next
      case (Some i)
      then show ?thesis
        using pager_write_hit_spec [OF v2 p2 _ _ assms(3) len] find_block_Some [OF Some] b by auto
    qed
    from transp_stored [OF t2 this] have st: "stored os ct lim k s blk buf rc s3" .
    then have "vinv os ct lim k s3" by (simp add: stored_def)
    from stored_transp [OF st quiet_unlock_transp [OF this]] show ?thesis by (simp add: s')
  qed
qed


section \<open>Flush\<close>

lemma flush_from_spec:
  assumes "vinv os ct lim k s" "v_pager s \<noteq> None" "n + m = length (pr_pages (pgr s))"
    and "flush_from os s n m = (rc, s')" "\<forall>i < n. pg_dirty (pr_pages (pgr s) ! i) = 0"
  shows "transp os ct s s' \<and> length (pr_pages (pgr s')) = length (pr_pages (pgr s))
    \<and> (rc = RcOk \<longrightarrow> (\<forall>p \<in> set (pr_pages (pgr s')). pg_dirty p = 0))"
  using assms
proof (induction m arbitrary: s n)
  case 0
  then show ?case by (auto simp: in_set_conv_nth)
next
  case (Suc m)
  then have n: "n < length (pr_pages (pgr s))" by simp
  show ?case
  proof (cases "pg_dirty (pr_pages (pgr s) ! n) = 0")
    case True
    then have "flush_from os s (Suc n) m = (rc, s')" using Suc.prems(4) by simp
    with Suc.IH [OF Suc.prems(1,2), of "Suc n"] Suc.prems(3,5) True show ?thesis
      by (auto simp: less_Suc_eq)
  next
    case False
    obtain rc1 s1 where fl: "ufs_page_flush os s n = (rc1, s1)" by fastforce
    note f = page_flush_spec [OF Suc.prems(1,2) n False fl]
    show ?thesis
    proof (cases "rc1 = RcOk")
      case err: False
      then show ?thesis using Suc.prems(4) False fl f(1,3) by auto
    next
      case ok: True
      then have "flush_from os s1 (Suc n) m = (rc, s')" using Suc.prems(4) False fl by simp
      moreover note p1 = f(2) [OF ok]
      moreover have "v_pager s1 \<noteq> None" using Suc.prems(2) transp_pager [OF f(1)] by simp
      moreover have "\<forall>i < Suc n. pg_dirty (pr_pages (pgr s1) ! i) = 0"
        using Suc.prems(5) n p1 by (auto simp: less_Suc_eq)
      ultimately have "transp os ct s1 s' \<and> length (pr_pages (pgr s')) = length (pr_pages (pgr s1))
          \<and> (rc = RcOk \<longrightarrow> (\<forall>p \<in> set (pr_pages (pgr s')). pg_dirty p = 0))"
        using Suc.IH [OF transpD(3) [OF f(1) Suc.prems(1)], of "Suc n"] Suc.prems(3) by simp
      then show ?thesis using transp_trans [OF f(1)] p1 by auto
    qed
  qed
qed

lemma clean_view:
  assumes "vinv os ct lim k s" "\<forall>p \<in> set (pr_pages (pgr s)). pg_dirty p = 0"
  shows "ct (v_outer s) = vview ct s"
proof
  fix b
  have inv: "pinv (v_blksize s) lim k (pr_pages (pgr s)) (ct (v_outer s))" using assms(1) by (simp add: vinv_def)
  then have "one_page (pr_pages (pgr s))" by (simp add: pinv_def)
  then show "ct (v_outer s) b = vview ct s b"
  proof (cases rule: pv_cases [of _ b "ct (v_outer s)"])
    case (1 i)
    then show ?thesis using pinv_page [OF inv 1(1)] assms(2) by (auto simp: page_ok_def vview_def)
  qed (simp add: vview_def)
qed

text \<open>After a completed flush the dataset itself holds what the volume presented before it.\<close>

lemma pager_flush_spec:
  assumes "vinv os ct lim k s" "v_pager s \<noteq> None" "ufs_pager_flush os s = (rc, s')"
  shows "transp os ct s s'" and "rc = RcOk \<Longrightarrow> ct (v_outer s') = vview ct s"
proof -
  obtain lockrc s1 where l: "lock os LkPager s = (lockrc, s1)" by fastforce
  note q = quiet_lock [OF vinv_laws [OF assms(1)] l]
  note t1 = quiet_transp [OF q]
  obtain rc2 s2 where f: "flush_from os s1 0 (length (pr_pages (pgr s1))) = (rc2, s2)" by fastforce
  have "v_pager s1 \<noteq> None" using assms(2) transp_pager [OF t1] by simp
  from flush_from_spec [OF transpD(3) [OF t1 assms(1)] this _ f]
  have fl: "transp os ct s1 s2" "rc2 = RcOk \<Longrightarrow> \<forall>p \<in> set (pr_pages (pgr s2)). pg_dirty p = 0" by auto
  note t2 = transp_trans [OF t1 fl(1)]
  note v2 = transpD(3) [OF t2 assms(1)]
  have r: "if lock_held lockrc then rc = rc2 \<and> s' = unlock os lockrc LkPager s2 else rc \<noteq> RcOk \<and> s' = s1"
    using assms(3) l f by (auto simp: ufs_pager_flush_def lock_held_def)
  then show "transp os ct s s'"
    using t1 transp_trans [OF t2 quiet_unlock_transp [OF v2]] by (auto split: if_splits)
  assume "rc = RcOk"
  then have ok: "rc2 = RcOk" "s' = unlock os lockrc LkPager s2" using r by (auto split: if_splits)
  show "ct (v_outer s') = vview ct s"
    using clean_view [OF v2 fl(2) [OF ok(1)]] quietD(1) [OF quiet_unlock [OF vinv_laws [OF v2]]]
      transpD(1) [OF t2] by (simp add: ok(2))
qed


section \<open>Nothing fails\<close>

text \<open>When the outside world fails no call for the first \<open>lim\<close> blocks, neither does the cache.\<close>

definition vlive :: "'d os \<Rightarrow> u32 \<Rightarrow> 'd vol \<Rightarrow> bool" where
  "vlive os lim s \<longleftrightarrow> os_live os (v_blksize s) lim \<and> dk_readonly (v_disk s) = 0"

lemma vlive_rest: "vlive os lim s \<Longrightarrow> vrest s' = vrest s \<Longrightarrow> vlive os lim s'"
  using vrestD by (metis vlive_def)

lemma vlive_transp: "vlive os lim s \<Longrightarrow> transp os ct s s' \<Longrightarrow> vlive os lim s'"
  using vlive_rest transpD(2) by blast

lemma disk_read_live: "vlive os lim s \<Longrightarrow> blk < lim \<Longrightarrow> ufs_disk_read os s blk = (rc, buf, s') \<Longrightarrow> rc = RcOk"
  by (auto simp: vlive_def os_live_def ufs_disk_read_def split: prod.splits) (metis fst_conv)

lemma disk_write_live: "vlive os lim s \<Longrightarrow> blk < lim \<Longrightarrow> ufs_disk_write os s buf blk = (rc, s') \<Longrightarrow> rc = RcOk"
  by (auto simp: vlive_def os_live_def ufs_disk_write_def split: prod.splits) (metis fst_conv)

lemma lock_live: "vlive os lim s \<Longrightarrow> lock os l s = (r, s') \<Longrightarrow> lock_held r"
  by (auto simp: vlive_def os_live_def lock_def split: prod.splits) (metis fst_conv)

lemma calloc_live: "vlive os lim s \<Longrightarrow> calloc os n s = (r, s') \<Longrightarrow> r"
  by (auto simp: vlive_def os_live_def calloc_def split: prod.splits) (metis fst_conv)

lemma lru_page_live: "vlive os lim s \<Longrightarrow> ufs_pager_lru_page os s = (r, s') \<Longrightarrow> r \<noteq> None"
  by (auto simp: ufs_pager_lru_page_def ufs_page_new_def Let_def dest: calloc_live
      split: prod.splits option.splits if_splits)

lemma page_flush_live:
  assumes "vlive os lim s" "vinv os ct lim k s" "i < length (pr_pages (pgr s))"
    "pg_dirty (pr_pages (pgr s) ! i) \<noteq> 0" "ufs_page_flush os s i = (rc, s')"
  shows "rc = RcOk"
proof -
  have "pg_block (pr_pages (pgr s) ! i) < lim"
    using assms(2-4) pinv_page unfolding vinv_def page_ok_def by blast
  from disk_write_live [OF assms(1) this] show ?thesis using assms(5)
    by (auto simp: ufs_page_flush_def Let_def split: prod.splits if_splits)
qed

lemma clean_page_live:
  assumes "vlive os lim s" "vinv os ct lim k s" "v_pager s \<noteq> None" "ufs_pager_lru_page os s = (Some i, s1)"
    and "(if pg_dirty (pr_pages (pgr s1) ! i) \<noteq> 0 then ufs_page_flush os s1 i else (RcOk, s1)) = (rc, s2)"
  shows "rc = RcOk"
proof -
  note lru = lru_page_spec [OF assms(2-4)]
  show ?thesis
    using assms(5) page_flush_live [OF vlive_transp [OF assms(1) lru(1)] transpD(3) [OF lru(1) assms(2)]]
      lru(2) by (auto split: if_splits)
qed

lemma pager_read_live:
  assumes "vlive os lim s" "vinv os ct lim k s" "v_pager s \<noteq> None" "blk < lim" "length buf = unat (v_blksize s)"
    and "ufs_pager_read os s buf blk = (rc, buf', s')"
  shows "rc = RcOk"
proof -
  obtain lockrc s1 where l: "lock os LkPager s = (lockrc, s1)" by fastforce
  note t1 = quiet_transp [OF quiet_lock [OF vinv_laws [OF assms(2)] l]]
  define s2 where "s2 = upd_pgr (\<lambda>p. p\<lparr>pr_reads := ufs_pager_inc (pr_reads p) 0\<rparr>) s1"
  have "v_pager s1 \<noteq> None" using assms(3) transp_pager [OF t1] by simp
  then have "transp os ct s1 s2" and p2: "v_pager s2 \<noteq> None"
    unfolding s2_def by (simp_all add: transp_counter)
  with t1 have t2: "transp os ct s s2" using transp_trans by blast
  note v2 = transpD(3) [OF t2 assms(2)] and l2 = vlive_transp [OF assms(1) t2]
  have "rcm = RcOk" if miss: "pager_read_miss os s2 buf blk = (rcm, bufm, sm)" for rcm bufm sm
  proof -
    obtain i s3 where lp: "ufs_pager_lru_page os s2 = (Some i, s3)"
      using lru_page_live [OF l2] by (cases "ufs_pager_lru_page os s2") auto
    obtain rc4 s4 where c: "(if pg_dirty (pr_pages (pgr s3) ! i) \<noteq> 0 then ufs_page_flush os s3 i
        else (RcOk, s3)) = (rc4, s4)" by fastforce
    note cl = clean_page_spec(1) [OF v2 p2 lp c] and ok = clean_page_live [OF l2 v2 p2 lp c]
    show ?thesis
      using miss lp c ok disk_read_live [OF vlive_transp [OF l2 cl] assms(4)]
      by (cases "ufs_disk_read os s4 blk") (auto simp: pager_read_miss_def split: if_splits)
  qed
  then show ?thesis
    using assms(6) l lock_live [OF assms(1) l]
    by (auto simp: ufs_pager_read_def s2_def Let_def split: prod.splits option.splits)
qed

lemma pager_write_live:
  assumes "vlive os lim s" "vinv os ct lim (Suc k) s" "v_pager s \<noteq> None" "blk < lim"
    and "length buf = unat (v_blksize s)" "ufs_pager_write os s buf blk = (rc, s')"
  shows "rc = RcOk"
proof -
  obtain lockrc s1 where l: "lock os LkPager s = (lockrc, s1)" by fastforce
  note t1 = quiet_transp [OF quiet_lock [OF vinv_laws [OF assms(2)] l]]
  define s2 where "s2 = upd_pgr (\<lambda>p. p\<lparr>pr_writes := ufs_pager_inc (pr_writes p) 0\<rparr>) s1"
  have "v_pager s1 \<noteq> None" using assms(3) transp_pager [OF t1] by simp
  then have "transp os ct s1 s2" and p2: "v_pager s2 \<noteq> None"
    unfolding s2_def by (simp_all add: transp_counter)
  with t1 have t2: "transp os ct s s2" using transp_trans by blast
  note v2 = transpD(3) [OF t2 assms(2)] and l2 = vlive_transp [OF assms(1) t2]
  have len: "length buf = unat (v_blksize s2)" using assms(5) transp_blksize [OF t2] by simp
  have "rcm = RcOk" if miss: "pager_write_miss os s2 buf blk = (rcm, sm)"
    and nin: "blk \<notin> pg_block ` set (pr_pages (pgr s2))" for rcm sm
  proof -
    obtain rc3 s3 where w: "ufs_disk_write os s2 buf blk = (rc3, s3)" by fastforce
    note th = pager_write_through [OF v2 assms(4) len nin w]
    have v3: "vinv os ct lim (Suc k) s3" and r3: "vrest s3 = vrest s2" using th(1) by (simp_all add: stored_def)
    define s4 where "s4 = upd_pgr (\<lambda>p. p\<lparr>pr_dwrites := ufs_pager_inc (pr_dwrites p) 1\<rparr>) s3"
    have "v_pager s3 \<noteq> None" using p2 vrestD(8) [OF r3] by simp
    then have t34: "transp os ct s3 s4" and p4: "v_pager s4 \<noteq> None"
      unfolding s4_def by (simp_all add: transp_counter)
    note v4 = transpD(3) [OF t34 v3] and l4 = vlive_transp [OF vlive_rest [OF l2 r3] t34]
    obtain i s5 where lp: "ufs_pager_lru_page os s4 = (Some i, s5)"
      using lru_page_live [OF l4] by (cases "ufs_pager_lru_page os s4") auto
    obtain rc6 s6 where c: "(if pg_dirty (pr_pages (pgr s5) ! i) \<noteq> 0 then ufs_page_flush os s5 i
        else (RcOk, s5)) = (rc6, s6)" by fastforce
    show ?thesis
      using miss w disk_write_live [OF l2 assms(4) w] lp c clean_page_live [OF l4 v4 p4 lp c]
      by (auto simp: pager_write_miss_def s4_def)
  qed
  then show ?thesis
    using assms(6) l lock_live [OF assms(1) l] find_block_None [of "pgr s2" blk]
    by (auto simp: ufs_pager_write_def s2_def Let_def split: prod.splits option.splits)
qed

end
