(* ===== verification/Vdisk.thy ===== *)
theory Vdisk
  imports Pager
begin

text \<open>
  The virtual disk (\<^verbatim>\<open>src/ufsvd*.c\<close>) and the interface every layer above it relies on.
  The locale \<open>block_io\<close> states what reading and writing blocks promises, whatever fails; its
  lemmas hold for each of the three providers: the raw disk, the page cache, and the virtual
  disk that dispatches to one of them.
\<close>

section \<open>Operations\<close>

definition ufs_vdisk_read :: "'d os \<Rightarrow> 'd vol \<Rightarrow> block \<Rightarrow> u32 \<Rightarrow> rc \<times> block \<times> 'd vol" where
  "ufs_vdisk_read os s buf blk =
     (case v_pager s of None \<Rightarrow> ufs_disk_read os s blk | Some _ \<Rightarrow> ufs_pager_read os s buf blk)"

definition ufs_vdisk_write :: "'d os \<Rightarrow> 'd vol \<Rightarrow> block \<Rightarrow> u32 \<Rightarrow> rc \<times> 'd vol" where
  "ufs_vdisk_write os s buf blk =
     (if dk_readonly (v_disk s) \<noteq> 0 then (RcErr EROFS, s)
      else case v_pager s of None \<Rightarrow> ufs_disk_write os s buf blk
        | Some _ \<Rightarrow> ufs_pager_write os s buf blk)"

definition ufs_vdisk_fsread_n :: "'d os \<Rightarrow> 'd vol \<Rightarrow> block list \<Rightarrow> u32 \<Rightarrow> rc \<times> block list \<times> 'd vol" where
  "ufs_vdisk_fsread_n os s bufs blk =
     (case v_pager s of None \<Rightarrow> ufs_disk_read_n os s blk (length bufs)
        | Some _ \<Rightarrow> ufs_pager_read_n os s bufs blk)"

definition ufs_vdisk_write_n :: "'d os \<Rightarrow> 'd vol \<Rightarrow> block list \<Rightarrow> u32 \<Rightarrow> rc \<times> 'd vol" where
  "ufs_vdisk_write_n os s bufs blk =
     (if dk_readonly (v_disk s) \<noteq> 0 then (RcErr EROFS, s)
      else case v_pager s of None \<Rightarrow> ufs_disk_write_n os s bufs blk
        | Some _ \<Rightarrow> ufs_pager_write_n os s bufs blk)"

section \<open>The contract of block I/O\<close>

text \<open>
  \<open>view s b\<close> is the block the provider presents, \<open>rest\<close> the part of the state that is not
  I/O's, \<open>inv lim k\<close> the provider's invariant with room for \<open>k\<close> more writes below \<open>lim\<close>,
  and \<open>live lim\<close> a world in which no call for the first \<open>lim\<close> blocks fails.
\<close>

locale block_io =
  fixes rd :: "'s \<Rightarrow> block \<Rightarrow> u32 \<Rightarrow> rc \<times> block \<times> 's"
    and wr :: "'s \<Rightarrow> block \<Rightarrow> u32 \<Rightarrow> rc \<times> 's"
    and view :: "'s \<Rightarrow> u32 \<Rightarrow> block"
    and rest :: "'s \<Rightarrow> 'r"
    and bsz :: "'s \<Rightarrow> nat"
    and inv :: "u32 \<Rightarrow> nat \<Rightarrow> 's \<Rightarrow> bool"
    and live :: "u32 \<Rightarrow> 's \<Rightarrow> bool"
  assumes rd_law: "inv lim k s \<Longrightarrow> b < lim \<Longrightarrow> length buf = bsz s \<Longrightarrow> rd s buf b = (rc, buf', s') \<Longrightarrow>
      inv lim k s' \<and> view s' = view s \<and> rest s' = rest s \<and> length buf' = bsz s
      \<and> (rc = RcOk \<longrightarrow> buf' = view s b)"
    and wr_law: "inv lim (Suc k) s \<Longrightarrow> b < lim \<Longrightarrow> length buf = bsz s \<Longrightarrow> wr s buf b = (rc, s') \<Longrightarrow>
      inv lim k s' \<and> (\<forall>b'. b' \<noteq> b \<longrightarrow> view s' b' = view s b') \<and> rest s' = rest s
      \<and> (rc = RcOk \<longrightarrow> view s' b = buf)"
    and rd_live: "live lim s \<Longrightarrow> inv lim k s \<Longrightarrow> b < lim \<Longrightarrow> length buf = bsz s \<Longrightarrow> fst (rd s buf b) = RcOk"
    and wr_live: "live lim s \<Longrightarrow> inv lim (Suc k) s \<Longrightarrow> b < lim \<Longrightarrow> length buf = bsz s \<Longrightarrow>
      fst (wr s buf b) = RcOk"
    and inv_less: "inv lim (Suc k) s \<Longrightarrow> inv lim k s"
    and bsz_rest: "rest s' = rest s \<Longrightarrow> bsz s' = bsz s"
    and live_rest: "rest s' = rest s \<Longrightarrow> live lim s \<Longrightarrow> live lim s'"
begin

text \<open>The \<open>count\<close>-block loops over a provider.\<close>

fun rds :: "'s \<Rightarrow> block list \<Rightarrow> u32 \<Rightarrow> rc \<times> block list \<times> 's" where
  "rds s [] b = (RcOk, [], s)"
| "rds s (buf # bufs) b =
     (let (rc, buf, s) = rd s buf b
      in if rc \<noteq> RcOk then (rc, buf # bufs, s)
         else let (rc, bufs, s) = rds s bufs (b + 1) in (rc, buf # bufs, s))"

fun wrs :: "'s \<Rightarrow> block list \<Rightarrow> u32 \<Rightarrow> rc \<times> 's" where
  "wrs s [] b = (RcOk, s)"
| "wrs s (buf # bufs) b =
     (let (rc, s) = wr s buf b in if rc \<noteq> RcOk then (rc, s) else wrs s bufs (b + 1))"

lemma rd_ok:
  assumes "live lim s" "inv lim k s" "b < lim" "length buf = bsz s"
  obtains s' where "rd s buf b = (RcOk, view s b, s')" "inv lim k s'" "view s' = view s" "rest s' = rest s"
proof -
  obtain rc buf' s' where r: "rd s buf b = (rc, buf', s')" by (metis prod_cases3)
  with rd_live [OF assms] have "rc = RcOk" by simp
  with rd_law [OF assms(2-4) r] r that show ?thesis by simp
qed

lemma wr_ok:
  assumes "live lim s" "inv lim (Suc k) s" "b < lim" "length buf = bsz s"
  obtains s' where "wr s buf b = (RcOk, s')" "inv lim k s'" "view s' = (view s)(b := buf)" "rest s' = rest s"
proof -
  obtain rc s' where r: "wr s buf b = (rc, s')" by fastforce
  with wr_live [OF assms] have "rc = RcOk" by simp
  with wr_law [OF assms(2-4) r] have "view s' = (view s)(b := buf)" by auto
  with wr_law [OF assms(2-4) r] \<open>rc = RcOk\<close> r that show ?thesis by simp
qed

lemma inv_zero: "inv lim k s \<Longrightarrow> inv lim 0 s"
  by (induction k) (auto intro: inv_less)

text \<open>A block reads back as it was last written, also after a write of another block that fails.\<close>

lemma read_after_write:
  assumes "inv lim (Suc (Suc k)) s" "a < lim" "b < lim" "a \<noteq> b" "length buf = bsz s" "length other = bsz s"
    and "wr s buf a = (RcOk, s1)" "wr s1 other b = (rc, s2)" "rd s2 old a = (RcOk, buf', s3)"
    and "length old = bsz s"
  shows "buf' = buf"
proof -
  note w1 = wr_law [OF assms(1,2,5,7)]
  then have b1: "bsz s1 = bsz s" using bsz_rest by blast
  have w2: "inv lim k s2 \<and> view s2 a = view s1 a \<and> rest s2 = rest s1"
    using wr_law [OF _ assms(3) _ assms(8), of k] w1 b1 assms(4,6) by simp
  then have "bsz s2 = bsz s" using bsz_rest b1 by metis
  then show ?thesis using rd_law [OF _ assms(2) _ assms(9), of k] w1 w2 assms(10) by simp
qed

lemma next_block: "unat b + Suc n \<le> unat (lim :: u32) \<Longrightarrow> b < lim \<and> (0 < n \<longrightarrow> unat (b + 1) = unat b + 1)"
proof -
  assume *: "unat b + Suc n \<le> unat lim"
  then have "b < lim" by (simp add: word_less_nat_alt)
  moreover have "unat b + 1 < 2 ^ 32" if "0 < n" using * that unat_lt32 [of lim] by simp
  ultimately show ?thesis by (auto simp: unat_word_ariths)
qed

lemma wrs_spec:
  assumes "inv lim (length bufs) s" "unat b + length bufs \<le> unat lim"
    and "\<forall>buf \<in> set bufs. length buf = bsz s" "wrs s bufs b = (rc, s')"
  shows "inv lim 0 s' \<and> rest s' = rest s
    \<and> (\<forall>x. (\<forall>i < length bufs. unat x \<noteq> unat b + i) \<longrightarrow> view s' x = view s x)
    \<and> (rc = RcOk \<longrightarrow> (\<forall>x. \<forall>i < length bufs. unat x = unat b + i \<longrightarrow> view s' x = bufs ! i))"
  using assms
proof (induction bufs arbitrary: s b)
  case Nil
  then show ?case by simp
next
  case (Cons buf bufs)
  obtain rc1 s1 where w: "wr s buf b = (rc1, s1)" by fastforce
  have nb: "b < lim" "0 < length bufs \<longrightarrow> unat (b + 1) = unat b + 1"
    using next_block [of b "length bufs" lim] Cons.prems(2) by auto
  have l: "inv lim (length bufs) s1 \<and> (\<forall>b'. b' \<noteq> b \<longrightarrow> view s1 b' = view s b') \<and> rest s1 = rest s
      \<and> (rc1 = RcOk \<longrightarrow> view s1 b = buf)"
    using wr_law [OF _ nb(1) _ w, of "length bufs"] Cons.prems(1,3) by simp
  then have sz: "bsz s1 = bsz s" using bsz_rest by blast
  show ?case
  proof (cases "rc1 = RcOk \<and> bufs \<noteq> []")
    case False
    then have "s' = s1" "rc = rc1" using Cons.prems(4) w by (auto split: if_splits)
    moreover have "rc1 \<noteq> RcOk \<or> bufs = []" using False by simp
    ultimately show ?thesis using l inv_zero [of lim "length bufs" s1]
      by (auto simp: less_Suc_eq_0_disj word_unat_eq_iff [symmetric])
  next
    case True
    then have b1: "unat (b + 1) = unat b + 1" and r: "wrs s1 bufs (b + 1) = (rc, s')"
      using nb(2) Cons.prems(4) w by auto
    have "inv lim (length bufs) s1" "unat (b + 1) + length bufs \<le> unat lim"
      "\<forall>buf \<in> set bufs. length buf = bsz s1"
      using l b1 Cons.prems(2,3) sz by auto
    from Cons.IH [OF this r] have ih: "inv lim 0 s'" "rest s' = rest s1"
      "\<And>x. \<forall>i < length bufs. unat x \<noteq> unat b + 1 + i \<Longrightarrow> view s' x = view s1 x"
      "\<And>x i. rc = RcOk \<Longrightarrow> i < length bufs \<Longrightarrow> unat x = unat b + 1 + i \<Longrightarrow> view s' x = bufs ! i"
      using b1 by auto
    have "view s' x = view s x" if "\<forall>i < Suc (length bufs). unat x \<noteq> unat b + i" for x
    proof -
      have "x \<noteq> b" using that by auto
      moreover have "\<forall>i < length bufs. unat x \<noteq> unat b + 1 + i" using that by force
      ultimately show ?thesis using ih(3) l by metis
    qed
    moreover have "view s' x = (buf # bufs) ! i"
      if "rc = RcOk" "i < Suc (length bufs)" "unat x = unat b + i" for x i
    proof (cases i)
      case 0
      then have "x = b" using that(3) by (simp add: word_unat_eq_iff)
      then show ?thesis using ih(3) [of b] l True 0 by simp
    next
      case (Suc j)
      then show ?thesis using ih(4) [of j x] that by simp
    qed
    ultimately show ?thesis using ih(1,2) l by simp
  qed
qed

lemma rds_spec:
  assumes "inv lim k s" "unat b + length bufs \<le> unat lim" "\<forall>buf \<in> set bufs. length buf = bsz s"
    and "rds s bufs b = (rc, bufs', s')"
  shows "inv lim k s' \<and> rest s' = rest s \<and> view s' = view s \<and> length bufs' = length bufs
    \<and> (rc = RcOk \<longrightarrow> (\<forall>x. \<forall>i < length bufs. unat x = unat b + i \<longrightarrow> bufs' ! i = view s x))"
  using assms
proof (induction bufs arbitrary: s b bufs')
  case Nil
  then show ?case by simp
next
  case (Cons buf bufs)
  obtain rc1 buf1 s1 where r: "rd s buf b = (rc1, buf1, s1)" by (metis prod_cases3)
  have nb: "b < lim" "0 < length bufs \<longrightarrow> unat (b + 1) = unat b + 1"
    using next_block [of b "length bufs" lim] Cons.prems(2) by auto
  have l: "inv lim k s1 \<and> view s1 = view s \<and> rest s1 = rest s \<and> (rc1 = RcOk \<longrightarrow> buf1 = view s b)"
    using rd_law [OF Cons.prems(1) nb(1) _ r] Cons.prems(3) by simp
  then have sz: "bsz s1 = bsz s" using bsz_rest by blast
  show ?case
  proof (cases "rc1 = RcOk \<and> bufs \<noteq> []")
    case False
    then have "s' = s1" "rc = rc1" "bufs' = buf1 # bufs" using Cons.prems(4) r by (auto split: if_splits)
    moreover have "rc1 \<noteq> RcOk \<or> bufs = []" using False by simp
    ultimately show ?thesis using l by (auto simp: word_unat_eq_iff [symmetric])
  next
    case True
    then obtain bufs1 where b1: "unat (b + 1) = unat b + 1" and r1: "rds s1 bufs (b + 1) = (rc, bufs1, s')"
      and b': "bufs' = buf1 # bufs1"
      using nb(2) Cons.prems(4) r by (auto split: prod.splits)
    have "unat (b + 1) + length bufs \<le> unat lim" "\<forall>buf \<in> set bufs. length buf = bsz s1"
      using b1 Cons.prems(2,3) sz by auto
    from Cons.IH [OF conjunct1 [OF l] this r1] have ih: "inv lim k s'" "rest s' = rest s1" "view s' = view s1"
      "length bufs1 = length bufs"
      "\<And>x i. rc = RcOk \<Longrightarrow> i < length bufs \<Longrightarrow> unat x = unat b + 1 + i \<Longrightarrow> bufs1 ! i = view s1 x"
      using b1 by auto
    have "bufs' ! i = view s x" if "rc = RcOk" "i < Suc (length bufs)" "unat x = unat b + i" for x i
    proof (cases i)
      case 0
      then have "x = b" using that(3) by (simp add: word_unat_eq_iff)
      then show ?thesis using l True 0 b' by simp
    next
      case (Suc j)
      then show ?thesis using ih(5) [of j x] that b' l by simp
    qed
    then show ?thesis using ih l b' by simp
  qed
qed

text \<open>In a world that does not fail the runs do not fail either.\<close>

lemma wrs_live:
  assumes "live lim s" "inv lim (length bufs) s" "unat b + length bufs \<le> unat lim" "\<forall>buf \<in> set bufs. length buf = bsz s"
  shows "fst (wrs s bufs b) = RcOk"
  using assms
proof (induction bufs arbitrary: s b)
  case (Cons buf bufs)
  have nb: "b < lim" "0 < length bufs \<longrightarrow> unat (b + 1) = unat b + 1"
    using next_block [of b "length bufs" lim] Cons.prems(3) by auto
  have inv: "inv lim (Suc (length bufs)) s" using Cons.prems(2) by simp
  obtain s1 where w: "wr s buf b = (RcOk, s1)" "inv lim (length bufs) s1" "rest s1 = rest s"
    using wr_ok [OF Cons.prems(1) inv nb(1), of buf] Cons.prems(4) by auto
  show ?case
  proof (cases "bufs = []")
    case False
    then have "unat (b + 1) + length bufs \<le> unat lim" using nb(2) Cons.prems(3) by simp
    from Cons.IH [OF live_rest [OF w(3) Cons.prems(1)] w(2) this] Cons.prems(4) bsz_rest [OF w(3)]
    show ?thesis using w(1) by simp
  qed (use w in simp)
qed simp

lemma rds_live:
  assumes "live lim s" "inv lim k s" "unat b + length bufs \<le> unat lim" "\<forall>buf \<in> set bufs. length buf = bsz s"
  shows "fst (rds s bufs b) = RcOk"
  using assms
proof (induction bufs arbitrary: s b)
  case (Cons buf bufs)
  have nb: "b < lim" "0 < length bufs \<longrightarrow> unat (b + 1) = unat b + 1"
    using next_block [of b "length bufs" lim] Cons.prems(3) by auto
  obtain s1 where r: "rd s buf b = (RcOk, view s b, s1)" "inv lim k s1" "rest s1 = rest s"
    using rd_ok [OF Cons.prems(1,2) nb(1), of buf] Cons.prems(4) by auto
  show ?case
  proof (cases "bufs = []")
    case False
    then have "unat (b + 1) + length bufs \<le> unat lim" using nb(2) Cons.prems(3) by simp
    from Cons.IH [OF live_rest [OF r(3) Cons.prems(1)] r(2) this] Cons.prems(4) bsz_rest [OF r(3)]
    show ?thesis using r(1) by (auto split: prod.splits)
  qed (use r in simp)
qed simp

text \<open>A run of blocks reads back as written.\<close>

lemma run_round_trip:
  assumes "inv lim (length bufs) s" "unat b + length bufs \<le> unat lim"
    and "\<forall>buf \<in> set bufs. length buf = bsz s" "wrs s bufs b = (RcOk, s1)"
    and "length olds = length bufs" "\<forall>buf \<in> set olds. length buf = bsz s" "rds s1 olds b = (RcOk, bufs', s2)"
  shows "bufs' = bufs"
proof -
  have w: "inv lim 0 s1" "rest s1 = rest s"
    "\<And>x i. i < length bufs \<Longrightarrow> unat x = unat b + i \<Longrightarrow> view s1 x = bufs ! i"
    using wrs_spec [OF assms(1-4)] by auto
  have "unat b + length olds \<le> unat lim" "\<forall>buf \<in> set olds. length buf = bsz s1"
    using assms(2,5,6) bsz_rest [OF w(2)] by auto
  from rds_spec [OF w(1) this assms(7)] have r: "length bufs' = length bufs"
    "\<And>x i. i < length bufs \<Longrightarrow> unat x = unat b + i \<Longrightarrow> bufs' ! i = view s1 x"
    using assms(5) by auto
  show ?thesis
  proof (rule nth_equalityI [OF r(1)])
    fix i assume "i < length bufs'"
    then have i: "i < length bufs" using r(1) by simp
    then have "unat b + i < 2 ^ 32" using assms(2) unat_lt32 [of lim] by simp
    then have "unat (b + of_nat i) = unat b + i" by (simp add: unat_word_ariths unat_of_nat)
    with r(2) [OF i this] w(3) [OF i this] show "bufs' ! i = bufs ! i" by simp
  qed
qed

lemma run_total:
  assumes "live lim s" "inv lim (length bufs) s" "unat b + length bufs \<le> unat lim"
    and "\<forall>buf \<in> set bufs. length buf = bsz s" "length olds = length bufs" "\<forall>buf \<in> set olds. length buf = bsz s"
  shows "\<exists>s1 s2. wrs s bufs b = (RcOk, s1) \<and> inv lim 0 s1 \<and> rds s1 olds b = (RcOk, bufs, s2)"
proof -
  obtain s1 where w: "wrs s bufs b = (RcOk, s1)" using wrs_live [OF assms(1-4)] by (metis prod.collapse)
  have i: "inv lim 0 s1" "rest s1 = rest s" using wrs_spec [OF assms(2-4) w] by auto
  have "unat b + length olds \<le> unat lim" "\<forall>buf \<in> set olds. length buf = bsz s1"
    using assms(3,5,6) bsz_rest [OF i(2)] by auto
  from rds_live [OF live_rest [OF i(2) assms(1)] i(1) this]
  obtain bufs' s2 where r: "rds s1 olds b = (RcOk, bufs', s2)" by (metis prod.collapse)
  show ?thesis using w i(1) r run_round_trip [OF assms(2-4) w assms(5,6) r] by blast
qed

end


section \<open>The three providers\<close>

lemma vrest_blksize: "vrest s' = vrest s \<Longrightarrow> unat (v_blksize s') = unat (v_blksize s)"
  by (drule vrestD(2)) simp

lemma raw_view: "v_pager s = None \<Longrightarrow> vview ct s = ct (v_outer s)"
  by (simp add: vview_def pgr_def fun_eq_iff pv_def)

lemma raw_inv: "v_pager s = None \<Longrightarrow> vinv os ct lim k s \<longleftrightarrow> os_laws os ct (v_blksize s) \<and> k < 2 ^ 32"
  by (auto simp: vinv_def pinv_def pgr_def one_page_def uniq_def)

lemma raw_read_spec:
  assumes "vinv os ct lim k s" "v_pager s = None" "ufs_disk_read os s b = (rc, buf, s')"
  shows "transp os ct s s' \<and> length buf = unat (v_blksize s) \<and> (rc = RcOk \<longrightarrow> buf = vview ct s b)"
  using disk_read_laws [OF vinv_laws [OF assms(1)] assms(3)] quiet_transp raw_view [OF assms(2)] by metis

lemma raw_write_spec:
  assumes "vinv os ct lim k s" "v_pager s = None" "length buf = unat (v_blksize s)"
    and "ufs_disk_write os s buf b = (rc, s')"
  shows "stored os ct lim k s b buf rc s'"
proof -
  from disk_write_laws [OF vinv_laws [OF assms(1)] assms(4,3)] obtain d where
    s': "s' = s\<lparr>v_outer := d\<rparr>" and "\<And>x. x \<noteq> b \<Longrightarrow> ct d x = ct (v_outer s) x"
    "rc = RcOk \<Longrightarrow> ct d b = buf" by blast
  then show ?thesis
    using assms(1,2) by (auto simp: stored_def raw_view raw_inv vrest_def)
qed

interpretation raw: block_io "\<lambda>s buf b. ufs_disk_read os s b" "ufs_disk_write os" "vview ct" vrest
    "\<lambda>s. unat (v_blksize s)" "\<lambda>lim k s. vinv os ct lim k s \<and> v_pager s = None" "vlive os" for os ct
proof (unfold_locales, goal_cases)
  case (1 lim k s b buf rc buf' s')
  then have "transp os ct s s' \<and> length buf' = unat (v_blksize s) \<and> (rc = RcOk \<longrightarrow> buf' = vview ct s b)"
    using raw_read_spec by blast
  then show ?case using 1 transpD transp_pager by metis
next
  case (2 lim k s b buf rc s')
  then have "stored os ct lim k s b buf rc s'" using raw_write_spec [OF vinv_mono [of os ct lim "Suc k" s k]] by simp
  then show ?case using 2 vrestD(8) [of s' s] unfolding stored_def by simp
next
  case (3 lim s k b buf)
  then show ?case using disk_read_live [of os lim s b] by (metis prod.collapse)
next
  case (4 lim s k b buf)
  then show ?case using disk_write_live [of os lim s b buf] by (metis prod.collapse)
next
  case (5 lim k s)
  then show ?case using vinv_mono [of os ct lim "Suc k" s k] by simp
next
  case (6 s' s)
  then show ?case by (rule vrest_blksize)
next
  case (7 s' s lim)
  then show ?case using vlive_rest by blast
qed

interpretation paged: block_io "ufs_pager_read os" "ufs_pager_write os" "vview ct" vrest
    "\<lambda>s. unat (v_blksize s)" "\<lambda>lim k s. vinv os ct lim k s \<and> v_pager s \<noteq> None" "vlive os" for os ct
proof (unfold_locales, goal_cases)
  case (1 lim k s b buf rc buf' s')
  then have "transp os ct s s' \<and> length buf' = unat (v_blksize s) \<and> (rc = RcOk \<longrightarrow> buf' = vview ct s b)"
    using pager_read_spec by blast
  then show ?case using 1 transpD transp_pager by metis
next
  case (2 lim k s b buf rc s')
  then have "stored os ct lim k s b buf rc s'" using pager_write_spec by blast
  then show ?case using 2 vrestD(8) [of s' s] unfolding stored_def by simp
next
  case (3 lim s k b buf)
  then show ?case using pager_read_live [of os lim s ct k b buf] by (metis prod.collapse)
next
  case (4 lim s k b buf)
  then show ?case using pager_write_live [of os lim s ct k b buf] by (metis prod.collapse)
next
  case (5 lim k s)
  then show ?case using vinv_mono [of os ct lim "Suc k" s k] by simp
next
  case (6 s' s)
  then show ?case by (rule vrest_blksize)
next
  case (7 s' s lim)
  then show ?case using vlive_rest by blast
qed

text \<open>The virtual disk is one or the other, whichever vector is installed.\<close>

interpretation vio: block_io "ufs_vdisk_read os" "ufs_vdisk_write os" "vview ct" vrest
    "\<lambda>s. unat (v_blksize s)" "vinv os ct" "vlive os" for os ct
proof (unfold_locales, goal_cases)
  case (1 lim k s b buf rc buf' s')
  then show ?case
    using raw.rd_law [of os ct lim k s b buf rc buf' s'] paged.rd_law [of os ct lim k s b buf rc buf' s']
    by (cases "v_pager s") (auto simp: ufs_vdisk_read_def)
next
  case (2 lim k s b buf rc s')
  show ?case
  proof (cases "dk_readonly (v_disk s) = 0")
    case True
    then show ?thesis
      using 2 raw.wr_law [of os ct lim k s b buf rc s'] paged.wr_law [of os ct lim k s b buf rc s']
      by (cases "v_pager s") (auto simp: ufs_vdisk_write_def)
  next
    case False
    then show ?thesis using 2 vinv_mono [of os ct lim "Suc k" s k] by (auto simp: ufs_vdisk_write_def)
  qed
next
  case (3 lim s k b buf)
  then show ?case
    using raw.rd_live [of os lim s ct k b buf] paged.rd_live [of os lim s ct k b buf]
    by (cases "v_pager s") (auto simp: ufs_vdisk_read_def)
next
  case (4 lim s k b buf)
  then show ?case
    using raw.wr_live [of os lim s ct k b buf] paged.wr_live [of os lim s ct k b buf]
    by (cases "v_pager s") (auto simp: ufs_vdisk_write_def vlive_def)
next
  case (5 lim k s)
  then show ?case using vinv_mono [of os ct lim "Suc k" s k] by simp
next
  case (6 s' s)
  then show ?case by (rule vrest_blksize)
next
  case (7 s' s lim)
  then show ?case using vlive_rest by blast
qed

section \<open>Runs of blocks\<close>

lemma pager_write_n_eq: "ufs_pager_write_n os s bufs b = paged.wrs os s bufs b"
  by (induction os s bufs b rule: ufs_pager_write_n.induct) (auto split: prod.splits)

lemma pager_read_n_eq: "ufs_pager_read_n os s bufs b = paged.rds os s bufs b"
  by (induction os s bufs b rule: ufs_pager_read_n.induct) (auto split: prod.splits)

lemma disk_write_n_eq: "ufs_disk_write_n os s bufs b = raw.wrs os s bufs b"
  by (induction os s bufs b rule: ufs_disk_write_n.induct) (auto split: prod.splits)


lemma read_n_rds:
  "raw.rds os s olds b = (RcOk, bs, s') \<Longrightarrow> ufs_disk_read_n os s b (length olds) = (RcOk, bs, s')"
proof (induction olds arbitrary: s b bs)
  case (Cons x olds)
  then show ?case by (auto split: prod.splits if_splits)
qed simp

lemma vdisk_round_trip:
  assumes "vinv os ct lim (length bufs) s" "vlive os lim s" "unat b + length bufs \<le> unat lim"
    and "\<forall>buf \<in> set bufs. length buf = unat (v_blksize s)"
    and "length olds = length bufs" "\<forall>buf \<in> set olds. length buf = unat (v_blksize s)"
  shows "\<exists>s1 s2. ufs_vdisk_write_n os s bufs b = (RcOk, s1) \<and> ufs_vdisk_fsread_n os s1 olds b = (RcOk, bufs, s2)"
proof (cases "v_pager s")
  case None
  then have i: "vinv os ct lim (length bufs) s \<and> v_pager s = None" using assms(1) by simp
  obtain s1 s2 where r: "raw.wrs os s bufs b = (RcOk, s1)" "raw.rds os s1 olds b = (RcOk, bufs, s2)" "v_pager s1 = None"
    using raw.run_total [OF assms(2) i assms(3-6)] by blast
  show ?thesis
    using r read_n_rds [OF r(2)] None assms(2) by (simp add: ufs_vdisk_write_n_def ufs_vdisk_fsread_n_def disk_write_n_eq vlive_def)
next
  case (Some p)
  then have i: "vinv os ct lim (length bufs) s \<and> v_pager s \<noteq> None" using assms(1) by simp
  obtain s1 s2 where r: "paged.wrs os s bufs b = (RcOk, s1)" "paged.rds os s1 olds b = (RcOk, bufs, s2)" "v_pager s1 \<noteq> None"
    using paged.run_total [OF assms(2) i assms(3-6)] by blast
  then show ?thesis
    using Some assms(2)
    by (auto simp: ufs_vdisk_write_n_def ufs_vdisk_fsread_n_def pager_write_n_eq pager_read_n_eq vlive_def)
qed

section \<open>What block I/O leaves alone\<close>

lemma quiet_page_new_disk: "ufs_page_new os s = (p, s') \<Longrightarrow> v_disk s' = v_disk s \<and> v_pager s' = v_pager s"
  by (auto simp: ufs_page_new_def calloc_def clock64_def split: prod.splits if_splits)

lemma lru_page_disk: "ufs_pager_lru_page os s = (p, s') \<Longrightarrow> v_disk s' = v_disk s"
  by (auto simp: ufs_pager_lru_page_def Let_def dest: quiet_page_new_disk
      split: prod.splits if_splits option.splits)

lemma disk_write_disk: "ufs_disk_write os s buf b = (rc, s') \<Longrightarrow> v_disk s' = v_disk s"
  by (auto simp: ufs_disk_write_def split: prod.splits if_splits)

lemma disk_read_disk: "ufs_disk_read os s b = (rc, buf, s') \<Longrightarrow> v_disk s' = v_disk s"
  by (auto simp: ufs_disk_read_def split: prod.splits)

lemma page_flush_disk: "ufs_page_flush os s i = (rc, s') \<Longrightarrow> v_disk s' = v_disk s"
  by (auto simp: ufs_page_flush_def Let_def dest: disk_write_disk split: prod.splits if_splits)

lemma page_reset_disk [simp]: "v_disk (page_reset os s i buf b) = v_disk s"
  by (auto simp: page_reset_def clock64_def split: prod.splits)

lemma page_hit_disk [simp]: "v_disk (page_hit os s i) = v_disk s"
  by (auto simp: page_hit_def clock64_def Let_def split: prod.splits)

lemma lock_disk: "lock os l s = (r, s') \<Longrightarrow> v_disk s' = v_disk s"
  by (auto simp: lock_def split: prod.splits)

lemma unlock_disk [simp]: "v_disk (unlock os r l s) = v_disk s"
  by (simp add: unlock_def)

lemmas io_disk = lru_page_disk disk_write_disk disk_read_disk page_flush_disk lock_disk

lemma pager_read_miss_disk: "pager_read_miss os s buf b = (rc, buf', s') \<Longrightarrow> v_disk s' = v_disk s"
  by (auto simp: pager_read_miss_def Let_def dest!: io_disk split: prod.splits if_splits option.splits)

lemma pager_write_miss_disk: "pager_write_miss os s buf b = (rc, s') \<Longrightarrow> v_disk s' = v_disk s"
  by (auto simp: pager_write_miss_def Let_def dest!: io_disk split: prod.splits if_splits option.splits)

lemma vdisk_read_disk: "ufs_vdisk_read os s buf b = (rc, buf', s') \<Longrightarrow> v_disk s' = v_disk s"
  by (auto simp: ufs_vdisk_read_def ufs_pager_read_def Let_def dest!: io_disk pager_read_miss_disk
      split: prod.splits if_splits option.splits)

lemma vdisk_write_disk: "ufs_vdisk_write os s buf b = (rc, s') \<Longrightarrow> v_disk s' = v_disk s"
  by (auto simp: ufs_vdisk_write_def ufs_pager_write_def pager_write_hit_def Let_def
      dest!: io_disk pager_write_miss_disk split: prod.splits if_splits option.splits)

section \<open>A working volume\<close>

text \<open>
  \<open>vgood lim k s\<close>: the cache invariant holds with room for \<open>k\<close> writes, the pool holds whole
  buffers, and the outside world fails no call. \<open>vsame\<close> relates states a client cannot tell
  apart. The rules below are what the proofs of the layers above use.
\<close>

definition vgood :: "'d os \<Rightarrow> ('d \<Rightarrow> u32 \<Rightarrow> block) \<Rightarrow> u32 \<Rightarrow> nat \<Rightarrow> 'd vol \<Rightarrow> bool" where
  "vgood os ct lim k s \<longleftrightarrow> vinv os ct lim k s \<and> vlive os lim s
     \<and> (\<forall>b \<in> set (dk_buf (v_disk s)). length b = unat (v_blksize s))"

definition vsame :: "('d \<Rightarrow> u32 \<Rightarrow> block) \<Rightarrow> 'd vol \<Rightarrow> 'd vol \<Rightarrow> bool" where
  "vsame ct s s' \<longleftrightarrow> vview ct s' = vview ct s \<and> vrest s' = vrest s"

lemma vsame_refl [simp]: "vsame ct s s"
  by (simp add: vsame_def)

lemma vsame_trans [trans]: "vsame ct s t \<Longrightarrow> vsame ct t u \<Longrightarrow> vsame ct s u"
  by (simp add: vsame_def)

lemma vsameD:
  assumes "vsame ct s s'"
  shows "vview ct s' = vview ct s" "vrest s' = vrest s" "v_sb s' = v_sb s" "v_blksize s' = v_blksize s"
    "v_minodes s' = v_minodes s" "v_mstore s' = v_mstore s" "v_mnext s' = v_mnext s"
  using assms vrestD [of s' s] by (simp_all add: vsame_def)

lemma vgood_mono: "vgood os ct lim k s \<Longrightarrow> j \<le> k \<Longrightarrow> vgood os ct lim j s"
  by (auto simp: vgood_def intro: vinv_mono)

lemma good_read:
  assumes "vgood os ct lim k s" "b < lim" "length buf = unat (v_blksize s)"
  obtains s' where "ufs_vdisk_read os s buf b = (RcOk, vview ct s b, s')" "vgood os ct lim k s'" "vsame ct s s'"
    "length (vview ct s b) = unat (v_blksize s)"
proof -
  have "vlive os lim s" "vinv os ct lim k s" using assms(1) by (auto simp: vgood_def)
  then obtain s' where r: "ufs_vdisk_read os s buf b = (RcOk, vview ct s b, s')" "vinv os ct lim k s'"
    "vview ct s' = vview ct s" "vrest s' = vrest s"
    by (rule vio.rd_ok [OF _ _ assms(2,3)])
  then have "vgood os ct lim k s'" "vsame ct s s'"
    using assms(1) vdisk_read_disk [OF r(1)] vlive_rest unfolding vgood_def vsame_def by auto
  moreover have "length (vview ct s b) = unat (v_blksize s)"
    using vio.rd_law [OF \<open>vinv os ct lim k s\<close> assms(2,3) r(1)] by simp
  ultimately show ?thesis using that r by blast
qed

lemma good_write:
  assumes "vgood os ct lim (Suc k) s" "b < lim" "length buf = unat (v_blksize s)"
  obtains s' where "ufs_vdisk_write os s buf b = (RcOk, s')" "vgood os ct lim k s'"
    "vview ct s' = (vview ct s)(b := buf)" "vrest s' = vrest s"
proof -
  have "vlive os lim s" "vinv os ct lim (Suc k) s" using assms(1) by (auto simp: vgood_def)
  then obtain s' where w: "ufs_vdisk_write os s buf b = (RcOk, s')" "vinv os ct lim k s'"
    "vview ct s' = (vview ct s)(b := buf)" "vrest s' = vrest s"
    by (rule vio.wr_ok [OF _ _ assms(2,3)])
  then have "vgood os ct lim k s'"
    using assms(1) vdisk_write_disk [OF w(1)] vlive_rest unfolding vgood_def by auto
  then show ?thesis using that w by blast
qed

lemma good_transp:
  "vgood os ct lim k s \<Longrightarrow> transp os ct s s' \<Longrightarrow> \<forall>b \<in> set (dk_buf (v_disk s')). length b = unat (v_blksize s') \<Longrightarrow>
     vgood os ct lim k s' \<and> vsame ct s s'"
  using vlive_transp [of os lim s ct s'] by (auto simp: vgood_def vsame_def transp_def)

lemma good_lock:
  assumes "vgood os ct lim k s"
  obtains r s' where "lock os l s = (r, s')" "lock_held r" "vgood os ct lim k s'" "vsame ct s s'"
proof -
  obtain r s' where l: "lock os l s = (r, s')" by fastforce
  have "vgood os ct lim k s' \<and> vsame ct s s'"
    using good_transp [OF assms quiet_transp [OF quiet_lock [OF _ l]]] lock_disk [OF l] assms
    by (auto simp: vgood_def vinv_def)
  moreover have "lock_held r" using lock_live [OF _ l] assms by (auto simp: vgood_def)
  ultimately show ?thesis using l that by blast
qed

lemma good_unlock:
  assumes "vgood os ct lim k s"
  shows "vgood os ct lim k (unlock os r l s)" "vsame ct s (unlock os r l s)"
proof -
  have "os_laws os ct (v_blksize s)" using assms by (simp add: vgood_def vinv_def)
  from good_transp [OF assms quiet_transp [OF quiet_unlock [OF this, of s r l]]] assms
  show "vgood os ct lim k (unlock os r l s)" "vsame ct s (unlock os r l s)" by (auto simp: vgood_def)
qed

lemma good_calloc:
  assumes "vgood os ct lim k s"
  obtains s' where "calloc os n s = (True, s')" "vgood os ct lim k s'" "vsame ct s s'" "v_disk s' = v_disk s"
proof -
  obtain r s' where l: "calloc os n s = (r, s')" by fastforce
  have d: "v_disk s' = v_disk s" using l by (auto simp: calloc_def split: prod.splits)
  have "vgood os ct lim k s' \<and> vsame ct s s'"
    using good_transp [OF assms quiet_transp [OF quiet_calloc [OF _ l]]] d assms
    by (auto simp: vgood_def vinv_def)
  moreover have "r" using calloc_live [OF _ l] assms by (auto simp: vgood_def)
  ultimately show ?thesis using l that d by simp
qed

lemma good_pool:
  assumes "vgood os ct lim k s" "\<forall>b \<in> set pool. length b = unat (v_blksize s)"
  shows "vgood os ct lim k (s\<lparr>v_disk := (v_disk s)\<lparr>dk_buf := pool\<rparr>\<rparr>)"
    and "vsame ct s (s\<lparr>v_disk := (v_disk s)\<lparr>dk_buf := pool\<rparr>\<rparr>)"
  using good_transp [OF assms(1) quiet_transp [OF quiet_pool]] assms(2) by auto

lemma good_get_buf:
  assumes "vgood os ct lim k s"
  obtains buf s' where "ufs_disk_get_buf os s = (Some buf, s')" "length buf = unat (v_blksize s)"
    "vgood os ct lim k s'" "vsame ct s s'"
proof -
  obtain r s1 where l: "lock os LkDisk s = (r, s1)" "lock_held r" "vgood os ct lim k s1" "vsame ct s s1"
    by (rule good_lock [OF assms])
  show ?thesis
  proof (cases "dk_buf (v_disk s1) = []")
    case True
    obtain s2 where c: "calloc os (unat (v_blksize s1)) s1 = (True, s2)" "vgood os ct lim k s2" "vsame ct s1 s2"
      "v_disk s2 = v_disk s1" by (rule good_calloc [OF l(3)])
    have "ufs_disk_get_buf os s = (Some (replicate (unat (v_blksize s1)) 0), unlock os r LkDisk s2)"
      by (simp add: ufs_disk_get_buf_def l True c)
    then show ?thesis
      using that [of "replicate (unat (v_blksize s1)) 0" "unlock os r LkDisk s2"] vsameD(4) [OF l(4)]
        good_unlock [OF c(2)] vsame_trans [OF vsame_trans [OF l(4) c(3)]] by simp
  next
    case False
    let ?s2 = "s1\<lparr>v_disk := (v_disk s1)\<lparr>dk_buf := butlast (dk_buf (v_disk s1))\<rparr>\<rparr>"
    have len: "\<forall>b \<in> set (dk_buf (v_disk s1)). length b = unat (v_blksize s1)" using l(3) by (simp add: vgood_def)
    then have "\<forall>b \<in> set (butlast (dk_buf (v_disk s1))). length b = unat (v_blksize s1)"
      by (auto dest: in_set_butlastD)
    note p = good_pool [OF l(3) this]
    have "ufs_disk_get_buf os s = (Some (last (dk_buf (v_disk s1))), unlock os r LkDisk ?s2)"
      by (simp add: ufs_disk_get_buf_def l False)
    moreover have "length (last (dk_buf (v_disk s1))) = unat (v_blksize s)"
      using len False vsameD(4) [OF l(4)] by simp
    ultimately show ?thesis
      using good_unlock [OF p(1), of r LkDisk] vsame_trans [OF vsame_trans [OF l(4) p(2)]] by (intro that)
  qed
qed

lemma good_free_buf:
  assumes "vgood os ct lim k s" "length buf = unat (v_blksize s)"
  shows "vgood os ct lim k (ufs_disk_free_buf os s buf)" "vsame ct s (ufs_disk_free_buf os s buf)"
proof -
  obtain r s1 where l: "lock os LkDisk s = (r, s1)" "lock_held r" "vgood os ct lim k s1" "vsame ct s s1"
    by (rule good_lock [OF assms(1)])
  let ?s2 = "s1\<lparr>v_disk := (v_disk s1)\<lparr>dk_buf := dk_buf (v_disk s1) @ [buf]\<rparr>\<rparr>"
  have "\<forall>b \<in> set (dk_buf (v_disk s1) @ [buf]). length b = unat (v_blksize s1)"
    using l(3) assms(2) vsameD(4) [OF l(4)] by (auto simp: vgood_def)
  note p = good_pool [OF l(3) this]
  have "ufs_disk_free_buf os s buf = unlock os r LkDisk ?s2" by (simp add: ufs_disk_free_buf_def l)
  then show "vgood os ct lim k (ufs_disk_free_buf os s buf)" "vsame ct s (ufs_disk_free_buf os s buf)"
    using good_unlock [OF p(1), of r LkDisk] vsame_trans [OF vsame_trans [OF l(4) p(2)]] by simp_all
qed

lemma good_upd_sb:
  "vgood os ct lim k (upd_sb f s) \<longleftrightarrow> vgood os ct lim k s"
  "vview ct (upd_sb f s) = vview ct s"
  by (simp_all add: vgood_def vinv_def vlive_def vview_def pgr_def)

end
