(* ===== verification/Freeblock.thy ===== *)
theory Freeblock
  imports Vdisk
begin

text \<open>
  Allocation of data blocks (\<^verbatim>\<open>src/ufsdasan.c\<close>, \<^verbatim>\<open>ufsdafup.c\<close>, \<^verbatim>\<open>ufsdaalc.c\<close>,
  \<^verbatim>\<open>ufsdadal.c\<close>): a cache of at most 51 free block numbers in the super block, whose entry 0
  is a block that holds the next 51. The abstract view is one list of free blocks; allocation takes
  its head, deallocation puts a block in front.
\<close>

section \<open>Operations\<close>

definition ufs_datablock_number_sanity :: "'d vol \<Rightarrow> u32 \<Rightarrow> bool" where
  "ufs_datablock_number_sanity s block \<longleftrightarrow>
     block \<ge> sb_datablock_start_sector (v_sb s) \<and> block < sb_volume_size (v_sb s)"

text \<open>
  A \<^verbatim>\<open>UFSFB\<close> is a count and 51 block numbers. The copy into the super block, whose length
  is a 32-bit product, runs over the cache when it exceeds 51 words.
\<close>

definition ufs_freeblock_update :: "'d os \<Rightarrow> 'd vol \<Rightarrow> u32 \<Rightarrow> (rc \<times> 'd vol) option" where
  "ufs_freeblock_update os s blk =
     (let (buf, s) = ufs_disk_get_buf os s in
      case buf of
        None \<Rightarrow> Some (RcErr ENOMEM, s)
      | Some buf \<Rightarrow>
          if \<not> ufs_datablock_number_sanity s blk
          then Some (RcErr EIO, ufs_disk_free_buf os s buf) else
          let (rc, buf, s) = ufs_vdisk_read os s buf blk in
          if rc \<noteq> RcOk then Some (RcErr EIO, ufs_disk_free_buf os s buf) else
          let n = unat (4 * get32 buf 0) div 4 in
          if n > UFS_MAX_FREEBLOCK \<or> 4 + 4 * n > length buf then None else
          let s = upd_sb (\<lambda>b. b\<lparr>sb_freeblock := words_at buf 4 n @ drop n (sb_freeblock b),
                                 sb_nfreeblock := get32 buf 0, sb_modified := 1\<rparr>) s
          in Some (RcOk, ufs_disk_free_buf os s buf))"

text \<open>
  The loop that pops candidates until one is a data block. \<open>fuel\<close> bounds its iterations: each
  takes one from \<^verbatim>\<open>total_freeblock\<close>, and at zero the loop ends.
\<close>

fun alloc_pick :: "'d os \<Rightarrow> nat \<Rightarrow> 'd vol \<Rightarrow> rc \<Rightarrow> (rc \<times> u32 \<times> 'd vol) option" where
  "alloc_pick os fuel s error =
     (if sb_total_freeblock (v_sb s) = 0 then Some (RcErr ENOSPC, 0, s)
      else case fuel of 0 \<Rightarrow> None
      | Suc fuel \<Rightarrow>
          let n = unat (sb_nfreeblock (v_sb s) - 1) in
          if n \<ge> length (sb_freeblock (v_sb s)) then None else
          let blk = sb_freeblock (v_sb s) ! n;
              s = upd_sb (\<lambda>b. b\<lparr>sb_nfreeblock := sb_nfreeblock b - 1,
                                 sb_total_freeblock := sb_total_freeblock b - 1,
                                 sb_modified := 1\<rparr>) s
          in do { (error, s) \<leftarrow> (if sb_nfreeblock (v_sb s) = 0 then ufs_freeblock_update os s blk
                                 else Some (error, s));
                  if ufs_datablock_number_sanity s blk then Some (error, blk, s)
                  else alloc_pick os fuel s error })"

declare alloc_pick.simps [simp del]

text \<open>The block number 0 is returned with every error.\<close>

definition ufs_datablock_allocate :: "'d os \<Rightarrow> 'd vol \<Rightarrow> (rc \<times> u32 \<times> 'd vol) option" where
  "ufs_datablock_allocate os s =
     (let (lockrc, s) = lock os LkDisk s in
      if \<not> lock_held lockrc then Some (RcErr EPERM, 0, s) else
      do { (error, blk, s) \<leftarrow> alloc_pick os (unat (sb_total_freeblock (v_sb s))) s RcOk;
           let s = unlock os lockrc LkDisk s;
           if error \<noteq> RcOk then Some (error, 0, s) else
           let (buf, s) = ufs_disk_get_buf os s in
           case buf of
             None \<Rightarrow> Some (RcErr ENOMEM, 0, s)
           | Some buf \<Rightarrow>
               let (rc, buf, s) = ufs_vdisk_read os s buf blk in
               if rc \<noteq> RcOk then Some (RcErr EIO, 0, ufs_disk_free_buf os s buf) else
               let buf = replicate (unat (v_blksize s)) 0;
                   (rc, s) = ufs_vdisk_write os s buf blk in
               if rc \<noteq> RcOk then Some (RcErr EIO, 0, ufs_disk_free_buf os s buf)
               else Some (RcOk, blk, ufs_disk_free_buf os s buf) })"

text \<open>
  The clearing of the in-core cache passes 51 bytes, not 51 words, to \<^verbatim>\<open>memset\<close>: 12 words and
  three bytes of the next one.
\<close>

definition clear_cache :: "u32 list \<Rightarrow> u32 list" where
  "clear_cache ws = replicate 12 0 @ [ws ! 12 AND 0xFF] @ drop 13 ws"

definition ufs_datablock_deallocate :: "'d os \<Rightarrow> 'd vol \<Rightarrow> u32 \<Rightarrow> (rc \<times> 'd vol) option" where
  "ufs_datablock_deallocate os s blk =
     (if \<not> ufs_datablock_number_sanity s blk then Some (RcErr EIO, s) else
      let (lockrc, s) = lock os LkDisk s in
      if \<not> lock_held lockrc then Some (RcErr EPERM, s) else
      let n = unat (sb_nfreeblock (v_sb s)) in
      if n < UFS_MAX_FREEBLOCK
      then Some (RcOk, unlock os lockrc LkDisk
             (upd_sb (\<lambda>b. b\<lparr>sb_freeblock := (sb_freeblock b)[n := blk],
                             sb_nfreeblock := sb_nfreeblock b + 1,
                             sb_total_freeblock := sb_total_freeblock b + 1,
                             sb_modified := 1\<rparr>) s)) else
      let (buf, s) = ufs_disk_get_buf os s in
      case buf of
        None \<Rightarrow> Some (RcErr ENOMEM, unlock os lockrc LkDisk s)
      | Some buf \<Rightarrow>
          let quit = (\<lambda>rc buf s. Some (rc, unlock os lockrc LkDisk (ufs_disk_free_buf os s buf)));
              (rc, buf, s) = ufs_vdisk_read os s buf blk in
          if rc \<noteq> RcOk then quit (RcErr EIO) buf s else
          if unat (v_blksize s) < 4 + 4 * UFS_MAX_FREEBLOCK then None else
          let buf = blit 0 (be32 (of_nat UFS_MAX_FREEBLOCK) @ be32s (sb_freeblock (v_sb s)))
                      (replicate (unat (v_blksize s)) 0);
              (rc, s) = ufs_vdisk_write os s buf blk in
          if rc \<noteq> RcOk then quit (RcErr EIO) buf s else
          let s = upd_sb (\<lambda>b. b\<lparr>sb_freeblock := (clear_cache (sb_freeblock b))[0 := blk],
                                 sb_nfreeblock := 1,
                                 sb_total_freeblock := sb_total_freeblock b + 1,
                                 sb_modified := 1\<rparr>) s
          in quit RcOk buf s)"

section \<open>The free list\<close>

text \<open>
  \<open>free_chain view xs L\<close>: with \<open>xs\<close> the used part of the cache, the blocks that allocation
  will hand out are \<open>L\<close>, in this order.
\<close>

inductive free_chain :: "(u32 \<Rightarrow> block) \<Rightarrow> u32 list \<Rightarrow> u32 list \<Rightarrow> bool" for view where
  fc_empty: "free_chain view [] []"
| fc_pop: "xs \<noteq> [] \<Longrightarrow> free_chain view xs L \<Longrightarrow> free_chain view (xs @ [b]) (b # L)"
| fc_link: "unat (get32 (view b) 0) = n \<Longrightarrow> n \<le> UFS_MAX_FREEBLOCK \<Longrightarrow>
    free_chain view (words_at (view b) 4 n) L \<Longrightarrow> free_chain view [b] (b # L)"

inductive_cases free_chain_NilE: "free_chain view [] L"
inductive_cases free_chain_headE: "free_chain view xs (b # L)"
inductive_cases free_chain_endE: "free_chain view xs []"

lemma free_chain_cong:
  "free_chain view xs L \<Longrightarrow> (\<And>b. b \<in> set L \<Longrightarrow> view' b = view b) \<Longrightarrow> free_chain view' xs L"
  by (induction rule: free_chain.induct) (auto intro: free_chain.intros)

lemma free_chain_update: "free_chain view xs L \<Longrightarrow> b \<notin> set L \<Longrightarrow> free_chain (view(b := c)) xs L"
  by (erule free_chain_cong) auto

lemma free_chain_empty_iff: "free_chain view xs L \<Longrightarrow> xs = [] \<longleftrightarrow> L = []"
  by (erule free_chain.cases) auto

definition free_ok :: "('d \<Rightarrow> u32 \<Rightarrow> block) \<Rightarrow> 'd vol \<Rightarrow> u32 list \<Rightarrow> bool" where
  "free_ok ct s L \<longleftrightarrow> 512 \<le> unat (v_blksize s)
     \<and> length (sb_freeblock (v_sb s)) = UFS_MAX_FREEBLOCK
     \<and> unat (sb_nfreeblock (v_sb s)) \<le> UFS_MAX_FREEBLOCK
     \<and> free_chain (vview ct s) (take (unat (sb_nfreeblock (v_sb s))) (sb_freeblock (v_sb s))) L
     \<and> unat (sb_total_freeblock (v_sb s)) = length L \<and> distinct L
     \<and> (\<forall>b \<in> set L. ufs_datablock_number_sanity s b)"

definition fgood :: "'d os \<Rightarrow> ('d \<Rightarrow> u32 \<Rightarrow> block) \<Rightarrow> nat \<Rightarrow> 'd vol \<Rightarrow> u32 list \<Rightarrow> bool" where
  "fgood os ct k s L \<longleftrightarrow> vgood os ct (sb_volume_size (v_sb s)) k s \<and> free_ok ct s L"

text \<open>What allocation leaves alone: everything but the free-block fields of the super block.\<close>

definition frest :: "'d vol \<Rightarrow> disk \<times> nat list \<times> (nat \<Rightarrow> minode option) \<times> nat \<times> bool" where
  "frest s = vrest (upd_sb (\<lambda>b. b\<lparr>sb_freeblock := [], sb_nfreeblock := 0,
     sb_total_freeblock := 0, sb_modified := 0\<rparr>) s)"

lemma vrest_upd_sb_eq:
  "vrest (upd_sb f s) = (case vrest s of (d, r) \<Rightarrow> (d\<lparr>dk_sb := f (dk_sb d)\<rparr>, r))"
  by (simp add: vrest_def upd_sb_def)

lemma vrest_upd_sb: "vrest s' = vrest s \<Longrightarrow> vrest (upd_sb f s') = vrest (upd_sb f s)"
  by (simp add: vrest_upd_sb_eq)

lemma frest_vrest: "vrest s' = vrest s \<Longrightarrow> frest s' = frest s"
  unfolding frest_def by (rule vrest_upd_sb)

lemma upd_sb_upd_sb: "upd_sb f (upd_sb g s) = upd_sb (\<lambda>b. f (g b)) s"
  by (simp add: upd_sb_def)

lemma frest_upd_sb:
  "(\<And>b. (f b)\<lparr>sb_freeblock := [], sb_nfreeblock := 0, sb_total_freeblock := 0, sb_modified := 0\<rparr>
      = b\<lparr>sb_freeblock := [], sb_nfreeblock := 0, sb_total_freeblock := 0, sb_modified := 0\<rparr>) \<Longrightarrow>
   frest (upd_sb f s) = frest s"
  by (simp add: frest_def upd_sb_upd_sb)

lemma frestD:
  assumes "frest s' = frest s"
  shows "v_blksize s' = v_blksize s" "sb_volume_size (v_sb s') = sb_volume_size (v_sb s)"
    "sb_datablock_start_sector (v_sb s') = sb_datablock_start_sector (v_sb s)"
    "sb_blksize_shift (v_sb s') = sb_blksize_shift (v_sb s)"
    "dk_readonly (v_disk s') = dk_readonly (v_disk s)"
    "v_minodes s' = v_minodes s" "v_mstore s' = v_mstore s" "v_mnext s' = v_mnext s"
    "ufs_datablock_number_sanity s' = ufs_datablock_number_sanity s"
proof -
  have v: "vrest (upd_sb (\<lambda>b. b\<lparr>sb_freeblock := [], sb_nfreeblock := 0, sb_total_freeblock := 0,
      sb_modified := 0\<rparr>) s') = vrest (upd_sb (\<lambda>b. b\<lparr>sb_freeblock := [], sb_nfreeblock := 0,
      sb_total_freeblock := 0, sb_modified := 0\<rparr>) s)"
    using assms by (simp add: frest_def)
  note d = vrestD [OF v]
  have sb: "sb_volume_size (v_sb s') = sb_volume_size (v_sb s)"
    "sb_datablock_start_sector (v_sb s') = sb_datablock_start_sector (v_sb s)"
    "sb_blksize_shift (v_sb s') = sb_blksize_shift (v_sb s)"
    using arg_cong [OF d(1), of sb_volume_size] arg_cong [OF d(1), of sb_datablock_start_sector]
      arg_cong [OF d(1), of sb_blksize_shift] by simp_all
  then show "v_blksize s' = v_blksize s" "sb_volume_size (v_sb s') = sb_volume_size (v_sb s)"
    "sb_datablock_start_sector (v_sb s') = sb_datablock_start_sector (v_sb s)"
    "sb_blksize_shift (v_sb s') = sb_blksize_shift (v_sb s)"
    "dk_readonly (v_disk s') = dk_readonly (v_disk s)"
    "v_minodes s' = v_minodes s" "v_mstore s' = v_mstore s" "v_mnext s' = v_mnext s"
    using d by simp_all
  show "ufs_datablock_number_sanity s' = ufs_datablock_number_sanity s"
    using sb by (simp add: ufs_datablock_number_sanity_def fun_eq_iff)
qed

lemma fgood_vsame:
  assumes "fgood os ct k s L" "vgood os ct (sb_volume_size (v_sb s)) j s'" "vsame ct s s'"
  shows "fgood os ct j s' L"
  using assms vsameD [OF assms(3)]
  by (simp add: fgood_def free_ok_def ufs_datablock_number_sanity_def)

lemma fgood_sane: "fgood os ct k s L \<Longrightarrow> b \<in> set L \<Longrightarrow> ufs_datablock_number_sanity s b \<and> b < sb_volume_size (v_sb s)"
  by (auto simp: fgood_def free_ok_def ufs_datablock_number_sanity_def)

lemma fgood_vgood: "fgood os ct k s L \<Longrightarrow> vgood os ct (sb_volume_size (v_sb s)) k s"
  by (simp add: fgood_def)

lemma unat_minus_one32: "unat (w :: u32) = Suc n \<Longrightarrow> unat (w - 1) = n"
  by (subst unat_minus_one) auto

lemma good_freeblock_update:
  assumes "vgood os ct (sb_volume_size (v_sb s)) k s" "ufs_datablock_number_sanity s b"
    and "length (sb_freeblock (v_sb s)) = UFS_MAX_FREEBLOCK" "512 \<le> unat (v_blksize s)"
    and "unat (get32 (vview ct s b) 0) = n" "n \<le> UFS_MAX_FREEBLOCK"
  obtains s' where "ufs_freeblock_update os s b = Some (RcOk, s')" "vgood os ct (sb_volume_size (v_sb s)) k s'"
    "vview ct s' = vview ct s" "frest s' = frest s" "sb_nfreeblock (v_sb s') = of_nat n"
    "sb_total_freeblock (v_sb s') = sb_total_freeblock (v_sb s)"
    "length (sb_freeblock (v_sb s')) = UFS_MAX_FREEBLOCK"
    "take n (sb_freeblock (v_sb s')) = words_at (vview ct s b) 4 n"
proof -
  let ?lim = "sb_volume_size (v_sb s)"
  obtain buf s1 where g: "ufs_disk_get_buf os s = (Some buf, s1)" "length buf = unat (v_blksize s)"
    "vgood os ct ?lim k s1" "vsame ct s s1" by (rule good_get_buf [OF assms(1)])
  note e1 = vsameD [OF g(4)]
  have "b < ?lim" using assms(2) by (simp add: ufs_datablock_number_sanity_def)
  then obtain s2 where r: "ufs_vdisk_read os s1 buf b = (RcOk, vview ct s1 b, s2)" "vgood os ct ?lim k s2"
    "vsame ct s1 s2" "length (vview ct s1 b) = unat (v_blksize s1)"
    using good_read [OF g(3), of b buf] g(2) e1 by metis
  note e2 = vsameD [OF r(3)]
  let ?buf = "vview ct s b"
  let ?s3 = "upd_sb (\<lambda>b. b\<lparr>sb_freeblock := words_at ?buf 4 n @ drop n (sb_freeblock b),
                                 sb_nfreeblock := get32 ?buf 0, sb_modified := 1\<rparr>) s2"
  let ?s4 = "ufs_disk_free_buf os ?s3 ?buf"
  have n: "of_nat n = get32 ?buf 0" using assms(5) by auto
  have "unat (4 * get32 ?buf 0) = 4 * n" using assms(5,6) by (simp add: unat_word_ariths UFS_MAX_FREEBLOCK_def)
  then have c: "unat (4 * get32 ?buf 0) div 4 = n" by simp
  have g3: "vgood os ct ?lim k ?s3" using r(2) by (simp add: good_upd_sb)
  have "length ?buf = unat (v_blksize ?s3)" using r(4) e1 e2 by simp
  note f = good_free_buf [OF g3 this]
  note e4 = vsameD [OF f(2)]
  have "ufs_freeblock_update os s b = Some (RcOk, ?s4)"
    using assms(2,4,6) g(1) r(1,4) e1
    by (simp add: ufs_freeblock_update_def ufs_datablock_number_sanity_def UFS_MAX_FREEBLOCK_def Let_def c)
  moreover have "frest ?s4 = frest s"
    using frest_vrest [OF e4(2)] frest_upd_sb [of _ s2] frest_vrest [OF e2(2)] frest_vrest [OF e1(2)]
    by simp
  moreover have "length (sb_freeblock (v_sb ?s4)) = UFS_MAX_FREEBLOCK" using e4 e2 e1 assms(3,6) by simp
  moreover have "take n (sb_freeblock (v_sb ?s4)) = words_at ?buf 4 n" using e4 by simp
  ultimately show ?thesis
    using that [of ?s4] f(1) e4 e2 e1 n by (simp add: good_upd_sb)
qed

lemma pick_head:
  assumes "fgood os ct k s (b # L)"
  obtains s' where "alloc_pick os (Suc fuel) s RcOk = Some (RcOk, b, s')" "fgood os ct k s' L"
    "vview ct s' = vview ct s" "frest s' = frest s"
proof -
  note vg = fgood_vgood [OF assms]
  note sane = fgood_sane [OF assms list.set_intros(1)]
  let ?n = "unat (sb_nfreeblock (v_sb s))"
  let ?f = "\<lambda>b. b\<lparr>sb_nfreeblock := sb_nfreeblock b - 1, sb_total_freeblock := sb_total_freeblock b - 1,
      sb_modified := 1\<rparr>"
  have ok: "length (sb_freeblock (v_sb s)) = UFS_MAX_FREEBLOCK" "?n \<le> UFS_MAX_FREEBLOCK"
    "free_chain (vview ct s) (take ?n (sb_freeblock (v_sb s))) (b # L)"
    "unat (sb_total_freeblock (v_sb s)) = Suc (length L)" "distinct (b # L)"
    "\<forall>b \<in> set L. ufs_datablock_number_sanity s b" "512 \<le> unat (v_blksize s)"
    using assms by (auto simp: fgood_def free_ok_def)
  have "take ?n (sb_freeblock (v_sb s)) \<noteq> []" using ok(3) free_chain_empty_iff by fastforce
  then obtain m where m: "?n = Suc m" by (cases ?n) auto
  then have m1: "unat (sb_nfreeblock (v_sb s) - 1) = m" by (rule unat_minus_one32)
  have tot: "sb_total_freeblock (v_sb s) \<noteq> 0" "unat (sb_total_freeblock (v_sb s) - 1) = length L"
    using ok(4) unat_minus_one32 by auto
  have ml: "m < length (sb_freeblock (v_sb s))" using ok(1,2) m by simp
  have tk: "take ?n (sb_freeblock (v_sb s)) = take m (sb_freeblock (v_sb s)) @ [sb_freeblock (v_sb s) ! m]"
    using ml by (simp add: m take_Suc_conv_app_nth)
  define s1 where "s1 = upd_sb ?f s"
  have s1: "vgood os ct (sb_volume_size (v_sb s1)) k s1" "vview ct s1 = vview ct s" "frest s1 = frest s"
    using vg by (simp_all add: s1_def good_upd_sb frest_upd_sb)
  let ?blk = "sb_freeblock (v_sb s) ! m"
  have step: "alloc_pick os (Suc fuel) s RcOk =
      do { (error, s') \<leftarrow> (if m = 0 then ufs_freeblock_update os s1 ?blk else Some (RcOk, s1));
           if ufs_datablock_number_sanity s' ?blk then Some (error, ?blk, s')
           else alloc_pick os fuel s' error }"
    using tot(1) ml m1 by (simp add: alloc_pick.simps [of os "Suc fuel"] Let_def s1_def unat_eq_zero [symmetric] del: unat_eq_zero)
  have rest: "(\<forall>b \<in> set L. ufs_datablock_number_sanity s1 b) \<and> ufs_datablock_number_sanity s1 b"
    using ok(6) sane by (simp add: s1_def ufs_datablock_number_sanity_def)
  from ok(3) [unfolded tk] ml
  consider "m \<noteq> 0" "?blk = b" "free_chain (vview ct s) (take m (sb_freeblock (v_sb s))) L"
    | n where "m = 0" "?blk = b" "unat (get32 (vview ct s b) 0) = n" "n \<le> UFS_MAX_FREEBLOCK"
        "free_chain (vview ct s) (words_at (vview ct s b) 4 n) L"
    by (auto elim!: free_chain_headE)
  then show ?thesis
  proof cases
    case 1
    have "fgood os ct k s1 L"
      using s1(1,2) ok 1 m1 tot(2) rest ml unfolding fgood_def free_ok_def by (simp add: s1_def)
    then show ?thesis using that [of s1] 1 s1 step rest by simp
  next
    case (2 n)
    have "ufs_datablock_number_sanity s1 b" "length (sb_freeblock (v_sb s1)) = UFS_MAX_FREEBLOCK"
      "512 \<le> unat (v_blksize s1)" "unat (get32 (vview ct s1 b) 0) = n"
      using rest ok 2 s1(2) by (simp_all add: s1_def)
    then obtain s2 where u: "ufs_freeblock_update os s1 b = Some (RcOk, s2)"
      "vgood os ct (sb_volume_size (v_sb s1)) k s2" "vview ct s2 = vview ct s1" "frest s2 = frest s1"
      "sb_nfreeblock (v_sb s2) = of_nat n" "sb_total_freeblock (v_sb s2) = sb_total_freeblock (v_sb s1)"
      "length (sb_freeblock (v_sb s2)) = UFS_MAX_FREEBLOCK"
      "take n (sb_freeblock (v_sb s2)) = words_at (vview ct s1 b) 4 n"
      using 2 good_freeblock_update [OF s1(1)] by metis
    note d = frestD [OF u(4)]
    have "unat (of_nat n :: u32) = n" using 2 by (simp add: UFS_MAX_FREEBLOCK_def unat_of_nat32)
    then have "fgood os ct k s2 L"
      using u d s1 ok 2 tot(2) rest unfolding fgood_def free_ok_def by (simp add: s1_def)
    then show ?thesis
      using that [of s2] u d(9) s1 step rest 2(1,2) by simp
  qed
qed

lemma pick_end:
  assumes "fgood os ct k s []"
  shows "alloc_pick os fuel s error = Some (RcErr ENOSPC, 0, s)"
  using assms by (simp add: alloc_pick.simps [of os fuel] fgood_def free_ok_def unat_eq_zero)


section \<open>Allocation and deallocation on the abstract list\<close>

text \<open>Allocation on a working volume takes the head of the list and clears the block.\<close>

lemma allocate_head:
  assumes "fgood os ct (Suc k) s (b # L)"
  obtains s' where "ufs_datablock_allocate os s = Some (RcOk, b, s')" "fgood os ct k s' L"
    "vview ct s' = (vview ct s)(b := replicate (unat (v_blksize s)) 0)" "frest s' = frest s"
proof -
  let ?lim = "sb_volume_size (v_sb s)"
  obtain r s1 where l: "lock os LkDisk s = (r, s1)" "lock_held r" "vgood os ct ?lim (Suc k) s1" "vsame ct s s1"
    by (rule good_lock [OF fgood_vgood [OF assms]])
  note e1 = vsameD [OF l(4)]
  have f1: "fgood os ct (Suc k) s1 (b # L)" by (rule fgood_vsame [OF assms l(3,4)])
  then have "unat (sb_total_freeblock (v_sb s1)) = Suc (length L)" by (simp add: fgood_def free_ok_def)
  then obtain s2 where p: "alloc_pick os (unat (sb_total_freeblock (v_sb s1))) s1 RcOk = Some (RcOk, b, s2)"
    "fgood os ct (Suc k) s2 L" "vview ct s2 = vview ct s1" "frest s2 = frest s1"
    using pick_head [OF f1, of "length L"] by metis
  note d2 = frestD [OF p(4)]
  let ?s3 = "unlock os r LkDisk s2"
  have lim2: "sb_volume_size (v_sb s2) = ?lim" using d2 e1 by simp
  note u = good_unlock [OF fgood_vgood [OF p(2)], unfolded lim2]
  note e3 = vsameD [OF u(2)]
  obtain buf s4 where g: "ufs_disk_get_buf os ?s3 = (Some buf, s4)" "length buf = unat (v_blksize ?s3)"
    "vgood os ct ?lim (Suc k) s4" "vsame ct ?s3 s4" by (rule good_get_buf [OF u(1)])
  note e4 = vsameD [OF g(4)]
  have b: "b < ?lim" using fgood_sane [OF assms] by simp
  obtain s5 where rd: "ufs_vdisk_read os s4 buf b = (RcOk, vview ct s4 b, s5)" "vgood os ct ?lim (Suc k) s5"
    "vsame ct s4 s5" "length (vview ct s4 b) = unat (v_blksize s4)"
    using good_read [OF g(3) b] g(2) e4 by metis
  note e5 = vsameD [OF rd(3)]
  let ?z = "replicate (unat (v_blksize s5)) 0"
  obtain s6 where w: "ufs_vdisk_write os s5 ?z b = (RcOk, s6)" "vgood os ct ?lim k s6"
    "vview ct s6 = (vview ct s5)(b := ?z)" "vrest s6 = vrest s5"
    using good_write [OF rd(2) b, of ?z] by auto
  note e6 = vrestD [OF w(4)]
  let ?s7 = "ufs_disk_free_buf os s6 ?z"
  have "length ?z = unat (v_blksize s6)" using e6 by simp
  note f7 = good_free_buf [OF w(2) this]
  note e7 = vsameD [OF f7(2)]
  have bs: "v_blksize s5 = v_blksize s" using e5 e4 e3 d2 e1 by simp
  have alloc: "ufs_datablock_allocate os s = Some (RcOk, b, ?s7)"
    using p(1) by (simp add: ufs_datablock_allocate_def l g rd(1) w(1))
  have rest: "vrest ?s7 = vrest s2" using e7(2) w(4) e5(2) e4(2) e3(2) by simp
  have view: "vview ct ?s7 = (vview ct s2)(b := ?z)" using e7(1) w(3) e5(1) e4(1) e3(1) by simp
  note d7 = vrestD [OF rest]
  have "b \<notin> set L" using f1 by (simp add: fgood_def free_ok_def)
  then have "fgood os ct k ?s7 L"
    using p(2) f7(1) d7 lim2 view
    by (simp add: fgood_def free_ok_def free_chain_update ufs_datablock_number_sanity_def)
  moreover have "frest ?s7 = frest s" using frest_vrest [OF rest] p(4) frest_vrest [OF e1(2)] by simp
  ultimately show ?thesis using that alloc view bs p(3) e1(1) by simp
qed

lemma allocate_empty:
  assumes "fgood os ct k s []"
  obtains s' where "ufs_datablock_allocate os s = Some (RcErr ENOSPC, 0, s')" "vsame ct s s'" "fgood os ct k s' []"
proof -
  obtain r s1 where l: "lock os LkDisk s = (r, s1)" "lock_held r"
    "vgood os ct (sb_volume_size (v_sb s)) k s1" "vsame ct s s1"
    by (rule good_lock [OF fgood_vgood [OF assms]])
  have f1: "fgood os ct k s1 []" by (rule fgood_vsame [OF assms l(3,4)])
  note u = good_unlock [OF l(3), of r LkDisk]
  have "fgood os ct k (unlock os r LkDisk s1) []"
    by (rule fgood_vsame [OF assms u(1) vsame_trans [OF l(4) u(2)]])
  then show ?thesis
    using that [of "unlock os r LkDisk s1"] pick_end [OF f1] vsame_trans [OF l(4) u(2)]
    by (simp add: ufs_datablock_allocate_def l)
qed


lemma sane_count:
  assumes "distinct L" "\<forall>b \<in> set L. ufs_datablock_number_sanity s b"
  shows "length L < 2 ^ 32"
proof -
  have "unat ` set L \<subseteq> {..< unat (sb_volume_size (v_sb s))}"
    using assms(2) by (auto simp: ufs_datablock_number_sanity_def word_less_nat_alt)
  then have "card (unat ` set L) \<le> unat (sb_volume_size (v_sb s))"
    using card_mono [OF finite_lessThan] by fastforce
  moreover have "card (unat ` set L) = length L"
    using distinct_card [OF assms(1)] card_image [of unat "set L"] by (simp add: inj_on_def word_unat_eq_iff)
  ultimately show ?thesis using unat_lt32 [of "sb_volume_size (v_sb s)"] by simp
qed

lemma unat_add_one32: "unat (w :: u32) + 1 < 2 ^ 32 \<Longrightarrow> unat (w + 1) = unat w + 1"
  by (simp add: unat_word_ariths)

text \<open>
  The two ways to put a block in front: into the cache, or, when the cache is full, as the block
  that holds the cache. An empty list needs a block whose first word is zero: nothing is written
  into it, and the next allocation reads a count from there.
\<close>

lemma deallocate_room_state:
  assumes g: "vgood os ct (sb_volume_size (v_sb s)) k s" and b: "ufs_datablock_number_sanity s b"
    and n: "unat (sb_nfreeblock (v_sb s)) < UFS_MAX_FREEBLOCK"
  obtains s' where "ufs_datablock_deallocate os s b = Some (RcOk, s')"
    "vgood os ct (sb_volume_size (v_sb s)) k s'" "vview ct s' = vview ct s" "frest s' = frest s"
    "sb_freeblock (v_sb s') = (sb_freeblock (v_sb s))[unat (sb_nfreeblock (v_sb s)) := b]"
    "unat (sb_nfreeblock (v_sb s')) = Suc (unat (sb_nfreeblock (v_sb s)))"
    "sb_total_freeblock (v_sb s') = sb_total_freeblock (v_sb s) + 1"
proof -
  obtain r s1 where l: "lock os LkDisk s = (r, s1)" "lock_held r"
    "vgood os ct (sb_volume_size (v_sb s)) k s1" "vsame ct s s1"
    by (rule good_lock [OF g])
  note e1 = vsameD [OF l(4)]
  let ?n = "unat (sb_nfreeblock (v_sb s))"
  let ?f = "\<lambda>sb. sb\<lparr>sb_freeblock := (sb_freeblock sb)[?n := b], sb_nfreeblock := sb_nfreeblock sb + 1,
     sb_total_freeblock := sb_total_freeblock sb + 1, sb_modified := 1\<rparr>"
  let ?s2 = "upd_sb ?f s1"
  let ?s3 = "unlock os r LkDisk ?s2"
  have g2: "vgood os ct (sb_volume_size (v_sb s)) k ?s2" using l(3) by (simp add: good_upd_sb)
  note u = good_unlock [OF g2, of r LkDisk]
  note e3 = vsameD [OF u(2)]
  have n1: "unat (sb_nfreeblock (v_sb s) + 1) = Suc ?n"
    using n unat_add_one32 [of "sb_nfreeblock (v_sb s)"] by (simp add: UFS_MAX_FREEBLOCK_def)
  have "ufs_datablock_deallocate os s b = Some (RcOk, ?s3)"
    using b n l e1 by (simp add: ufs_datablock_deallocate_def)
  moreover have "frest ?s3 = frest s"
    using frest_vrest [OF e3(2)] frest_upd_sb [of ?f s1] frest_vrest [OF e1(2)] by simp
  ultimately show ?thesis using that [of ?s3] u(1) e3 e1 n1 by (simp add: good_upd_sb)
qed

lemma deallocate_room:
  assumes g: "fgood os ct k s L" and b: "b \<notin> set L" "ufs_datablock_number_sanity s b"
    and e: "L \<noteq> [] \<or> get32 (vview ct s b) 0 = 0"
    and n: "unat (sb_nfreeblock (v_sb s)) < UFS_MAX_FREEBLOCK"
  obtains s' where "ufs_datablock_deallocate os s b = Some (RcOk, s')" "fgood os ct k s' (b # L)"
    "vview ct s' = vview ct s" "frest s' = frest s"
proof -
  let ?n = "unat (sb_nfreeblock (v_sb s))"
  obtain s' where d: "ufs_datablock_deallocate os s b = Some (RcOk, s')"
    "vgood os ct (sb_volume_size (v_sb s)) k s'" "vview ct s' = vview ct s" "frest s' = frest s"
    "sb_freeblock (v_sb s') = (sb_freeblock (v_sb s))[?n := b]"
    "unat (sb_nfreeblock (v_sb s')) = Suc ?n"
    "sb_total_freeblock (v_sb s') = sb_total_freeblock (v_sb s) + 1"
    by (rule deallocate_room_state [OF fgood_vgood [OF g] b(2) n])
  have ok: "length (sb_freeblock (v_sb s)) = UFS_MAX_FREEBLOCK" "?n \<le> UFS_MAX_FREEBLOCK"
    "free_chain (vview ct s) (take ?n (sb_freeblock (v_sb s))) L"
    "unat (sb_total_freeblock (v_sb s)) = length L" "distinct L"
    "\<forall>b \<in> set L. ufs_datablock_number_sanity s b" "512 \<le> unat (v_blksize s)"
    using g by (auto simp: fgood_def free_ok_def)
  have "length (b # L) < 2 ^ 32" using sane_count [of "b # L" s] ok(5,6) b by simp
  then have t1: "unat (sb_total_freeblock (v_sb s) + 1) = Suc (length L)"
    using unat_add_one32 [of "sb_total_freeblock (v_sb s)"] ok(4) by simp
  have "free_chain (vview ct s) (take ?n (sb_freeblock (v_sb s)) @ [b]) (b # L)"
  proof (cases "L = []")
    case True
    then have "take ?n (sb_freeblock (v_sb s)) = []" using free_chain_empty_iff [OF ok(3)] by simp
    moreover have "free_chain (vview ct s) [b] [b]"
      using fc_link [of "vview ct s" b 0 "[]"] e True by (simp add: words_at_def fc_empty)
    ultimately show ?thesis using True by (simp only: append_Nil)
  next
    case False
    then show ?thesis using fc_pop [OF _ ok(3)] free_chain_empty_iff [OF ok(3)] by simp
  qed
  moreover have "take (Suc ?n) ((sb_freeblock (v_sb s))[?n := b]) = take ?n (sb_freeblock (v_sb s)) @ [b]"
    using n ok(1) by (simp add: take_Suc_conv_app_nth)
  ultimately have "fgood os ct k s' (b # L)"
    using d n t1 ok b frestD [OF d(4)] by (simp add: fgood_def free_ok_def)
  then show ?thesis using that d by blast
qed

lemma deallocate_full:
  assumes g: "fgood os ct (Suc k) s L" and b: "b \<notin> set L" "ufs_datablock_number_sanity s b"
    and n: "unat (sb_nfreeblock (v_sb s)) = UFS_MAX_FREEBLOCK"
  obtains s' where "ufs_datablock_deallocate os s b = Some (RcOk, s')" "fgood os ct k s' (b # L)"
    "\<And>x. x \<noteq> b \<Longrightarrow> vview ct s' x = vview ct s x" "frest s' = frest s"
proof -
  let ?lim = "sb_volume_size (v_sb s)" and ?fb = "sb_freeblock (v_sb s)"
  obtain r s1 where l: "lock os LkDisk s = (r, s1)" "lock_held r" "vgood os ct ?lim (Suc k) s1" "vsame ct s s1"
    by (rule good_lock [OF fgood_vgood [OF g]])
  note e1 = vsameD [OF l(4)]
  obtain buf s2 where gb: "ufs_disk_get_buf os s1 = (Some buf, s2)" "length buf = unat (v_blksize s1)"
    "vgood os ct ?lim (Suc k) s2" "vsame ct s1 s2" by (rule good_get_buf [OF l(3)])
  note e2 = vsameD [OF gb(4)]
  have blim: "b < ?lim" using b(2) by (simp add: ufs_datablock_number_sanity_def)
  obtain s3 where rd: "ufs_vdisk_read os s2 buf b = (RcOk, vview ct s2 b, s3)" "vgood os ct ?lim (Suc k) s3"
    "vsame ct s2 s3" "length (vview ct s2 b) = unat (v_blksize s2)"
    using good_read [OF gb(3) blim] gb(2) e2 by metis
  note e3 = vsameD [OF rd(3)]
  have ok: "length ?fb = UFS_MAX_FREEBLOCK" "free_chain (vview ct s) ?fb L"
    "unat (sb_total_freeblock (v_sb s)) = length L" "distinct L"
    "\<forall>b \<in> set L. ufs_datablock_number_sanity s b" "512 \<le> unat (v_blksize s)"
    using g n by (auto simp: fgood_def free_ok_def)
  let ?z = "blit 0 (be32 (of_nat UFS_MAX_FREEBLOCK) @ be32s ?fb) (replicate (unat (v_blksize s)) 0)"
  have zlen: "length ?z = unat (v_blksize s)" using ok(1,6) by (simp add: UFS_MAX_FREEBLOCK_def)
  obtain s4 where w: "ufs_vdisk_write os s3 ?z b = (RcOk, s4)" "vgood os ct ?lim k s4"
    "vview ct s4 = (vview ct s3)(b := ?z)" "vrest s4 = vrest s3"
    using good_write [OF rd(2) blim, of ?z] zlen e3 e2 e1 by metis
  note e4 = vrestD [OF w(4)]
  let ?f = "\<lambda>sb. sb\<lparr>sb_freeblock := (clear_cache (sb_freeblock sb))[0 := b], sb_nfreeblock := 1,
     sb_total_freeblock := sb_total_freeblock sb + 1, sb_modified := 1\<rparr>"
  let ?s5 = "upd_sb ?f s4"
  have g5: "vgood os ct ?lim k ?s5" using w(2) by (simp add: good_upd_sb)
  have "length ?z = unat (v_blksize ?s5)" using zlen e4 e3 e2 e1 by simp
  note f6 = good_free_buf [OF g5 this]
  note e6 = vsameD [OF f6(2)]
  note u = good_unlock [OF f6(1), of r LkDisk]
  note e7 = vsameD [OF u(2)]
  let ?s7 = "unlock os r LkDisk (ufs_disk_free_buf os ?s5 ?z)"
  have dealloc: "ufs_datablock_deallocate os s b = Some (RcOk, ?s7)"
    using b(2) n ok(6) e1 e2 e3 w(1) e4
    by (simp add: ufs_datablock_deallocate_def l gb(1) rd(1) Let_def)
       (simp add: UFS_MAX_FREEBLOCK_def)
  have "length (b # L) < 2 ^ 32" using sane_count [of "b # L" s] ok(4,5) b by simp
  then have t1: "unat (sb_total_freeblock (v_sb s) + 1) = Suc (length L)"
    using unat_add_one32 [of "sb_total_freeblock (v_sb s)"] ok(3) by simp
  have view: "vview ct ?s7 = (vview ct s)(b := ?z)"
    using e7(1) e6(1) w(3) e3(1) e2(1) e1(1) by (simp add: good_upd_sb)
  have zfb: "unat (get32 ?z 0) = UFS_MAX_FREEBLOCK" "words_at ?z 4 UFS_MAX_FREEBLOCK = ?fb"
    using ok(1,6) by (simp_all add: blit_def buf_simps UFS_MAX_FREEBLOCK_def unat_of_nat32)
  have "free_chain (vview ct ?s7) ?fb L" unfolding view by (rule free_chain_update [OF ok(2) b(1)])
  then have "free_chain (vview ct ?s7) [b] (b # L)"
    using fc_link [of "vview ct ?s7" b UFS_MAX_FREEBLOCK L] zfb view by simp
  moreover have "(clear_cache ?fb)[0 := b] = b # drop 1 (clear_cache ?fb)" "length (clear_cache ?fb) = UFS_MAX_FREEBLOCK"
    using ok(1) by (simp_all add: clear_cache_def UFS_MAX_FREEBLOCK_def numeral_eq_Suc)
  ultimately have "fgood os ct k ?s7 (b # L)"
    using u(1) e7 e6 e4 e3 e2 e1 t1 ok b
    by (simp add: fgood_def free_ok_def ufs_datablock_number_sanity_def good_upd_sb UFS_MAX_FREEBLOCK_def)
  moreover have "frest ?s7 = frest s"
    using frest_vrest [OF e7(2)] frest_vrest [OF e6(2)] frest_upd_sb [of ?f s4] frest_vrest [OF w(4)]
      frest_vrest [OF e3(2)] frest_vrest [OF e2(2)] frest_vrest [OF e1(2)] by simp
  ultimately show ?thesis using that [of ?s7] dealloc view by simp
qed


lemma deallocate_front:
  assumes g: "fgood os ct (Suc k) s L" and b: "b \<notin> set L" "ufs_datablock_number_sanity s b"
    and e: "L \<noteq> [] \<or> get32 (vview ct s b) 0 = 0"
  obtains s' where "ufs_datablock_deallocate os s b = Some (RcOk, s')" "fgood os ct k s' (b # L)"
    "\<And>x. x \<noteq> b \<Longrightarrow> vview ct s' x = vview ct s x" "frest s' = frest s"
proof (cases "unat (sb_nfreeblock (v_sb s)) < UFS_MAX_FREEBLOCK")
  case True
  have "fgood os ct k s L" using g by (auto simp: fgood_def intro: vgood_mono)
  then show ?thesis using deallocate_room [OF _ b e True] that by metis
next
  case False
  then have "unat (sb_nfreeblock (v_sb s)) = UFS_MAX_FREEBLOCK"
    using g by (simp add: fgood_def free_ok_def)
  then show ?thesis using deallocate_full [OF g b] that by metis
qed

section \<open>The contract of block allocation\<close>

locale block_alloc =
  fixes alloc :: "'s \<Rightarrow> (rc \<times> u32 \<times> 's) option"
    and dealloc :: "'s \<Rightarrow> u32 \<Rightarrow> (rc \<times> 's) option"
    and good :: "nat \<Rightarrow> 's \<Rightarrow> u32 list \<Rightarrow> bool"
    and sane :: "'s \<Rightarrow> u32 \<Rightarrow> bool"
    and view :: "'s \<Rightarrow> u32 \<Rightarrow> block"
  assumes alloc_law: "good (Suc k) s (b # L) \<Longrightarrow>
      \<exists>s'. alloc s = Some (RcOk, b, s') \<and> good k s' L \<and> sane s' = sane s
        \<and> (\<forall>x. x \<noteq> b \<longrightarrow> view s' x = view s x) \<and> get32 (view s' b) 0 = 0"
    and alloc_end: "good k s [] \<Longrightarrow> \<exists>s'. alloc s = Some (RcErr ENOSPC, 0, s') \<and> good k s' []"
    and dealloc_law: "good (Suc k) s L \<Longrightarrow> b \<notin> set L \<Longrightarrow> sane s b \<Longrightarrow>
      L \<noteq> [] \<or> get32 (view s b) 0 = 0 \<Longrightarrow>
      \<exists>s'. dealloc s b = Some (RcOk, s') \<and> good k s' (b # L) \<and> sane s' = sane s
        \<and> (\<forall>x. x \<noteq> b \<longrightarrow> view s' x = view s x)"
    and good_sane: "good k s L \<Longrightarrow> b \<in> set L \<Longrightarrow> sane s b"
    and good_distinct: "good k s L \<Longrightarrow> distinct L"
begin

fun allocs :: "nat \<Rightarrow> 's \<Rightarrow> (u32 list \<times> 's) option" where
  "allocs 0 s = Some ([], s)"
| "allocs (Suc n) s =
     do { (rc, b, s) \<leftarrow> alloc s;
          if rc \<noteq> RcOk then Some ([], s)
          else do { (bs, s) \<leftarrow> allocs n s; Some (b # bs, s) } }"

text \<open>Successive allocations hand out the list in order, each block once.\<close>

lemma allocs_take:
  assumes "good (n + k) s L" "n \<le> length L"
  shows "\<exists>s'. allocs n s = Some (take n L, s') \<and> good k s' (drop n L)
       \<and> (\<forall>x. x \<notin> set (take n L) \<longrightarrow> view s' x = view s x)"
  using assms
proof (induction n arbitrary: s L)
  case 0
  then show ?case by auto
next
  case (Suc n)
  then obtain b L' where L: "L = b # L'" "n \<le> length L'" by (cases L) auto
  then have "good (Suc (n + k)) s (b # L')" using Suc.prems by simp
  from alloc_law [OF this] obtain s1 where a: "alloc s = Some (RcOk, b, s1)" "good (n + k) s1 L'"
    "\<And>x. x \<noteq> b \<Longrightarrow> view s1 x = view s x" by blast
  from Suc.IH [OF a(2) L(2)] obtain s2 where "allocs n s1 = Some (take n L', s2)" "good k s2 (drop n L')"
    "\<And>x. x \<notin> set (take n L') \<Longrightarrow> view s2 x = view s1 x" by blast
  then show ?case using a L by (intro exI [of _ s2]) auto
qed

text \<open>A block given back is the next one handed out.\<close>

lemma alloc_after_dealloc:
  assumes "good (Suc (Suc k)) s L" "b \<notin> set L" "sane s b" "L \<noteq> [] \<or> get32 (view s b) 0 = 0"
  shows "\<exists>s1 s2. dealloc s b = Some (RcOk, s1) \<and> alloc s1 = Some (RcOk, b, s2) \<and> good k s2 L"
  using dealloc_law [OF assms] alloc_law by metis

text \<open>A block allocated and given back leaves the free list as it was.\<close>

lemma dealloc_after_alloc:
  assumes "good (Suc (Suc k)) s (b # L)"
  shows "\<exists>s1 s2. alloc s = Some (RcOk, b, s1) \<and> dealloc s1 b = Some (RcOk, s2) \<and> good k s2 (b # L)"
proof -
  from alloc_law [OF assms] obtain s1 where a: "alloc s = Some (RcOk, b, s1)" "good (Suc k) s1 L"
    "sane s1 = sane s" "get32 (view s1 b) 0 = 0" by blast
  have "b \<notin> set L" using good_distinct [OF assms] by simp
  moreover have "sane s1 b" using good_sane [OF assms] a(3) by simp
  ultimately show ?thesis using dealloc_law [OF a(2)] a by blast
qed

end

lemma get32_zeros: "4 \<le> n \<Longrightarrow> get32 (replicate n 0) 0 = 0"
  by (simp add: get32_def slice_def un32_def numeral_eq_Suc)

interpretation ufs_alloc: block_alloc "ufs_datablock_allocate os" "ufs_datablock_deallocate os"
    "fgood os ct" ufs_datablock_number_sanity "vview ct" for os ct
proof (unfold_locales, goal_cases)
  case (1 k s b L)
  from allocate_head [OF 1] obtain s' where a: "ufs_datablock_allocate os s = Some (RcOk, b, s')"
    "fgood os ct k s' L" "vview ct s' = (vview ct s)(b := replicate (unat (v_blksize s)) 0)" "frest s' = frest s"
    by metis
  moreover have "4 \<le> unat (v_blksize s)" using 1 by (simp add: fgood_def free_ok_def)
  ultimately show ?case using frestD(9) [OF a(4)] get32_zeros by auto
next
  case (2 k s)
  then show ?case using allocate_empty by metis
next
  case (3 k s L b)
  then show ?case using deallocate_front [OF 3] frestD(9) by metis
next
  case (4 k s L b)
  then show ?case using fgood_sane by blast
next
  case (5 k s L)
  then show ?case by (simp add: fgood_def free_ok_def)
qed

text \<open>\<open>n\<close> allocations in a row, stopping at the first that fails.\<close>

fun allocate_n :: "'d os \<Rightarrow> nat \<Rightarrow> 'd vol \<Rightarrow> (u32 list \<times> 'd vol) option" where
  "allocate_n os 0 s = Some ([], s)"
| "allocate_n os (Suc n) s =
     do { (rc, b, s) \<leftarrow> ufs_datablock_allocate os s;
          if rc \<noteq> RcOk then Some ([], s)
          else do { (bs, s) \<leftarrow> allocate_n os n s; Some (b # bs, s) } }"

lemma allocate_n_eq: "allocate_n os n s = ufs_alloc.allocs os n s"
  by (induction n arbitrary: s) (simp_all cong: if_cong)

section \<open>The list when it is exhausted\<close>

text \<open>
  A block freed into an empty list becomes its link block without being written: the next
  allocation takes a count from what the file left in its first word.
\<close>

lemma stale_link:
  assumes g: "fgood os ct k s []" and b: "ufs_datablock_number_sanity s b"
    and w: "UFS_MAX_FREEBLOCK < unat (get32 (vview ct s b) 0)" "unat (get32 (vview ct s b) 0) < 2 ^ 30"
  shows "\<exists>s'. ufs_datablock_deallocate os s b = Some (RcOk, s') \<and> ufs_datablock_allocate os s' = None"
proof -
  let ?lim = "sb_volume_size (v_sb s)"
  have ok: "free_ok ct s []" and vg: "vgood os ct ?lim k s" using g by (simp_all add: fgood_def)
  then have n0: "sb_nfreeblock (v_sb s) = 0" "sb_total_freeblock (v_sb s) = 0"
    and len: "length (sb_freeblock (v_sb s)) = UFS_MAX_FREEBLOCK"
    using free_chain_empty_iff [of "vview ct s" "take (unat (sb_nfreeblock (v_sb s))) (sb_freeblock (v_sb s))" "[]"]
    by (auto simp: free_ok_def unat_eq_zero UFS_MAX_FREEBLOCK_def)
  obtain r s1 where l: "lock os LkDisk s = (r, s1)" "lock_held r" "vgood os ct ?lim k s1" "vsame ct s s1"
    by (rule good_lock [OF vg])
  note e1 = vsameD [OF l(4)]
  define s2 where "s2 = upd_sb (\<lambda>c. c\<lparr>sb_freeblock := (sb_freeblock c)[0 := b], sb_nfreeblock := sb_nfreeblock c + 1,
      sb_total_freeblock := sb_total_freeblock c + 1, sb_modified := 1\<rparr>) s1"
  define s3 where "s3 = unlock os r LkDisk s2"
  have g2: "vgood os ct ?lim k s2" "vview ct s2 = vview ct s" using l(3) e1 by (simp_all add: s2_def good_upd_sb)
  note u = good_unlock [OF g2(1), of r LkDisk, folded s3_def]
  have d: "ufs_datablock_deallocate os s b = Some (RcOk, s3)"
    using b n0 l e1 by (simp add: ufs_datablock_deallocate_def UFS_MAX_FREEBLOCK_def s2_def s3_def)
  note e3 = vsameD [OF u(2)]
  have sb3: "sb_nfreeblock (v_sb s3) = 1" "sb_total_freeblock (v_sb s3) = 1" "sb_freeblock (v_sb s3) ! 0 = b"
    "length (sb_freeblock (v_sb s3)) = UFS_MAX_FREEBLOCK" "ufs_datablock_number_sanity s3 b" "vview ct s3 = vview ct s"
    using e3 e1 n0 len b g2(2) by (simp_all add: s2_def UFS_MAX_FREEBLOCK_def ufs_datablock_number_sanity_def)
  obtain r' s4 where l4: "lock os LkDisk s3 = (r', s4)" "lock_held r'" "vgood os ct ?lim k s4" "vsame ct s3 s4"
    by (rule good_lock [OF u(1)])
  note e4 = vsameD [OF l4(4)]
  define s5 where "s5 = upd_sb (\<lambda>c. c\<lparr>sb_nfreeblock := sb_nfreeblock c - 1,
      sb_total_freeblock := sb_total_freeblock c - 1, sb_modified := 1\<rparr>) s4"
  have g5: "vgood os ct ?lim k s5" "vview ct s5 = vview ct s" using l4(3) e4 sb3 by (simp_all add: s5_def good_upd_sb)
  obtain buf s6 where gb: "ufs_disk_get_buf os s5 = (Some buf, s6)" "length buf = unat (v_blksize s5)"
    "vgood os ct ?lim k s6" "vsame ct s5 s6" by (rule good_get_buf [OF g5(1)])
  note e6 = vsameD [OF gb(4)]
  have "b < ?lim" using b by (simp add: ufs_datablock_number_sanity_def)
  then obtain s7 where rd: "ufs_vdisk_read os s6 buf b = (RcOk, vview ct s6 b, s7)"
    using good_read [OF gb(3), of b buf] gb(2) e6 by metis
  have "unat (4 * get32 (vview ct s b) 0) = 4 * unat (get32 (vview ct s b) 0)"
    using w(2) by (simp add: unat_word_ariths)
  moreover have "ufs_datablock_number_sanity s6 b"
    using sb3(5) e4 e6 by (simp add: ufs_datablock_number_sanity_def s5_def)
  moreover have "vview ct s6 b = vview ct s b" using e6 g5 by simp
  ultimately have "ufs_freeblock_update os s5 b = None"
    using w(1) gb(1) rd by (simp add: ufs_freeblock_update_def Let_def)
  then have "alloc_pick os 1 s4 RcOk = None"
    using e4 sb3 by (subst alloc_pick.simps) (simp add: s5_def UFS_MAX_FREEBLOCK_def)
  then have "ufs_datablock_allocate os s3 = None" using l4 e4 sb3(2) by (simp add: ufs_datablock_allocate_def)
  then show ?thesis using d by blast
qed

text \<open>
  A cache that is empty while blocks are free, as an I/O error on the link block leaves it: the
  next allocation indexes the cache with -1.
\<close>

lemma empty_cache:
  assumes "lock os LkDisk s = (r, s1)" "lock_held r"
    and "sb_nfreeblock (v_sb s) = 0" "0 < unat (sb_total_freeblock (v_sb s))"
    and "length (sb_freeblock (v_sb s)) = UFS_MAX_FREEBLOCK"
  shows "ufs_datablock_allocate os s = None"
proof -
  have "v_disk s1 = v_disk s" using assms(1) by (rule lock_disk)
  moreover obtain n where "unat (sb_total_freeblock (v_sb s)) = Suc n" using assms(4) by (cases "unat (sb_total_freeblock (v_sb s))") auto
  moreover have "\<not> unat (- 1 :: u32) < 51" by (simp add: unsigned_minus_1_eq_mask mask_eq_exp_minus_1)
  ultimately have "alloc_pick os (unat (sb_total_freeblock (v_sb s1))) s1 RcOk = None"
    using assms by (subst alloc_pick.simps) (auto simp: UFS_MAX_FREEBLOCK_def Let_def)
  then show ?thesis using assms(1,2) by (simp add: ufs_datablock_allocate_def)
qed

lemma get_buf_any:
  assumes lk: "\<And>d k. lock_held (fst (os_lock os d k))" and buf: "\<And>d n. fst (os_calloc os d n)"
  obtains b s' where "ufs_disk_get_buf os s = (Some b, s')" "v_sb s' = v_sb s" "v_blksize s' = v_blksize s"
    "v_pager s' = v_pager s"
proof -
  have "\<exists>b s'. ufs_disk_get_buf os s = (Some b, s') \<and> v_sb s' = v_sb s \<and> v_blksize s' = v_blksize s
      \<and> v_pager s' = v_pager s"
    using lk [of "v_outer s" LkDisk] buf [of _ "unat (v_blksize s)"]
    by (auto simp: ufs_disk_get_buf_def lock_def calloc_def unlock_def Let_def split: prod.splits) (metis fst_conv)+
  then show ?thesis using that by blast
qed

lemma free_buf_sb [simp]: "v_sb (ufs_disk_free_buf os s b) = v_sb s"
  by (cases "os_lock os (v_outer s) LkDisk") (auto simp: ufs_disk_free_buf_def lock_def)

lemma lock_any:
  assumes "\<And>d k. lock_held (fst (os_lock os d k))"
  obtains r s' where "lock os l s = (r, s')" "lock_held r" "v_disk s' = v_disk s" "v_pager s' = v_pager s"
  using assms [of "v_outer s" l] that by (cases "os_lock os (v_outer s) l") (auto simp: lock_def)

lemma failed_link:
  assumes lk: "\<And>d k. lock_held (fst (os_lock os d k))" and buf: "\<And>d n. fst (os_calloc os d n)"
    and raw: "v_pager s = None" "\<And>d. ecb_rc (fst (osdread os d (v_blksize s) b)) \<noteq> RcOk"
    and sb: "sb_nfreeblock (v_sb s) = 1" "sb_freeblock (v_sb s) ! 0 = b" "ufs_datablock_number_sanity s b"
      "length (sb_freeblock (v_sb s)) = UFS_MAX_FREEBLOCK" "1 < unat (sb_total_freeblock (v_sb s))"
  shows "\<exists>s'. ufs_datablock_allocate os s = Some (RcErr EIO, 0, s') \<and> ufs_datablock_allocate os s' = None"
proof -
  obtain r s1 where l: "lock os LkDisk s = (r, s1)" "lock_held r" "v_disk s1 = v_disk s" "v_pager s1 = v_pager s"
    by (rule lock_any [OF lk])
  define s2 where "s2 = upd_sb (\<lambda>c. c\<lparr>sb_nfreeblock := sb_nfreeblock c - 1,
      sb_total_freeblock := sb_total_freeblock c - 1, sb_modified := 1\<rparr>) s1"
  obtain b' s3 where gb: "ufs_disk_get_buf os s2 = (Some b', s3)" "v_sb s3 = v_sb s2" "v_blksize s3 = v_blksize s2"
    "v_pager s3 = v_pager s2" by (rule get_buf_any [OF lk buf])
  obtain rc x s4 where rd: "ufs_vdisk_read os s3 b' b = (rc, x, s4)" by (metis prod_cases3)
  have p3: "v_pager s3 = None" "v_blksize s3 = v_blksize s" using gb raw(1) l by (simp_all add: s2_def)
  then have rc: "rc \<noteq> RcOk" using rd raw(2) [of "v_outer s3"]
    by (auto simp: ufs_vdisk_read_def ufs_disk_read_def split: prod.splits)
  have d4: "v_sb s4 = v_sb s2" using vdisk_read_disk [OF rd] gb(2) by simp
  let ?s5 = "ufs_disk_free_buf os s4 x"
  let ?s6 = "unlock os r LkDisk ?s5"
  have up: "ufs_freeblock_update os s2 b = Some (RcErr EIO, ?s5)"
    using gb rd rc sb(3) l(3) by (simp add: ufs_freeblock_update_def ufs_datablock_number_sanity_def s2_def)
  have t: "unat (sb_total_freeblock (v_sb s) - 1) = unat (sb_total_freeblock (v_sb s)) - 1"
    by (rule unat_minus_one) (use sb(5) in auto)
  obtain n where n: "unat (sb_total_freeblock (v_sb s)) = Suc n" using sb(5) by (cases "unat (sb_total_freeblock (v_sb s))") auto
  have "alloc_pick os (unat (sb_total_freeblock (v_sb s1))) s1 RcOk = Some (RcErr EIO, b, ?s5)"
    using sb l(3) up d4 n by (subst alloc_pick.simps)
      (auto simp: s2_def [symmetric] Let_def UFS_MAX_FREEBLOCK_def ufs_datablock_number_sanity_def, auto simp: s2_def)
  then have a: "ufs_datablock_allocate os s = Some (RcErr EIO, 0, ?s6)" using l by (simp add: ufs_datablock_allocate_def)
  have sb6: "v_sb ?s6 = v_sb s2" using d4 by simp
  obtain r' s7 where l7: "lock os LkDisk ?s6 = (r', s7)" "lock_held r'" by (rule lock_any [OF lk])
  have "ufs_datablock_allocate os ?s6 = None"
    by (rule empty_cache [OF l7]) (use sb6 sb l(3) t in \<open>simp_all add: s2_def\<close>)
  then show ?thesis using a by blast
qed

end
