(* ===== verification/Inode.thy ===== *)
theory Inode
  imports Freeblock
begin

text \<open>
  Index nodes (\<^verbatim>\<open>src/ufsin*.c\<close>): the 128-byte disk layout, where an inode lives on the
  disk, loading and writing back, the volume's cache of open inodes with its use counts, the free
  inode cache of the super block, and access checks.
\<close>

section \<open>Modes and flags\<close>

definition UFS_IFMT :: u16 where "UFS_IFMT = 0xF000"
definition UFS_IFDIR :: u16 where "UFS_IFDIR = 0x4000"
definition UFS_IFREG :: u16 where "UFS_IFREG = 0x8000"
definition MINODE_TYPE_FILE :: byte where "MINODE_TYPE_FILE = 0x80"
definition MINODE_TYPE_DIR :: byte where "MINODE_TYPE_DIR = 0x40"
definition MINODE_TYPE_FSROOT :: byte where "MINODE_TYPE_FSROOT = 0x20"
definition MINODE_TYPE_MOUNTPOINT :: byte where "MINODE_TYPE_MOUNTPOINT = 0x10"
definition MINODE_FLAG_APPEND :: byte where "MINODE_FLAG_APPEND = 0x80"
definition MINODE_FLAG_RDONLY :: byte where "MINODE_FLAG_RDONLY = 0x40"
definition MINODE_FLAG_DIRTY :: byte where "MINODE_FLAG_DIRTY = 0x20"

definition ufs_inode_isdir :: "dinode \<Rightarrow> bool" where
  "ufs_inode_isdir di \<longleftrightarrow> di_mode di AND UFS_IFMT = UFS_IFDIR"

definition ufs_inode_isfile :: "dinode \<Rightarrow> bool" where
  "ufs_inode_isfile di \<longleftrightarrow> di_mode di AND UFS_IFMT = UFS_IFREG"

section \<open>Disk layout\<close>

definition enc_dinode :: "dinode \<Rightarrow> byte list" where
  "enc_dinode d =
     be16 (di_mode d) @ be16 (di_nlink d) @ be32 (di_filesize d) @ be64 (di_ctime d) @
     be64 (di_mtime d) @ be64 (di_atime d) @ di_owner d @ di_group d @ be16 (di_codepage d) @
     be32s (di_addr d)"

definition dec_dinode :: "byte list \<Rightarrow> dinode" where
  "dec_dinode b = \<lparr>
     di_mode = un16 (slice 0 2 b), di_nlink = un16 (slice 2 2 b), di_filesize = get32 b 4,
     di_ctime = un64 (slice 0x08 8 b), di_mtime = un64 (slice 0x10 8 b), di_atime = un64 (slice 0x18 8 b),
     di_owner = slice 0x20 9 b, di_group = slice 0x29 9 b, di_codepage = un16 (slice 0x32 2 b),
     di_addr = words_at b 0x34 19 \<rparr>"

definition wf_dinode :: "dinode \<Rightarrow> bool" where
  "wf_dinode d \<longleftrightarrow> length (di_owner d) = 9 \<and> length (di_group d) = 9 \<and> length (di_addr d) = 19"

definition zero_dinode :: dinode where
  "zero_dinode = dec_dinode (replicate 128 0)"

definition zero_minode :: minode where
  "zero_minode = \<lparr> mi_inode_number = 0, mi_type = 0, mi_flags = 0, mi_usecount = 0,
     mi_mounted_vdisk = None, mi_dinode = zero_dinode \<rparr>"

text \<open>Inode arithmetic of \<^verbatim>\<open>include/ufs/inode.h\<close>, in 32-bit unsigned arithmetic.\<close>

definition ufs_inode_per_block :: "u32 \<Rightarrow> u32" where
  "ufs_inode_per_block blksize = blksize div 128"

definition ufs_max_inode :: "u32 \<Rightarrow> u32 \<Rightarrow> u32" where
  "ufs_max_inode blksize start = (start - UFS_ILIST_SECTOR) * ufs_inode_per_block blksize"

text \<open>\<open>True\<close> where the code returns 0.\<close>

definition ufs_inode_number_sanity :: "'d vol \<Rightarrow> u32 \<Rightarrow> bool" where
  "ufs_inode_number_sanity s inode \<longleftrightarrow>
     (let maxinode = ufs_max_inode (ucast (v_blksize s)) (sb_datablock_start_sector (v_sb s))
      in \<not> (inode < UFS_ROOT_INODE \<or> inode \<ge> maxinode))"

definition ufs_inode_inquire_disk_location :: "'d vol \<Rightarrow> u32 \<Rightarrow> rc \<times> u32 \<times> u32" where
  "ufs_inode_inquire_disk_location s n =
     (let ofs = (n - 1) * 128;
          blk = drop_bit (unat (sb_blksize_shift (v_sb s))) ofs;
          block = blk + sb_ilist_sector (v_sb s);
          offset = (ofs - blk * ucast (v_blksize s)) div 128
      in (if block < sb_datablock_start_sector (v_sb s) then RcOk else RcErr ENOENT, block, offset))"

definition ufs_inode_setup_memory_image :: "dinode \<Rightarrow> minode" where
  "ufs_inode_setup_memory_image di = zero_minode\<lparr>
     mi_type := (if ufs_inode_isfile di then MINODE_TYPE_FILE else 0)
                OR (if ufs_inode_isdir di then MINODE_TYPE_DIR else 0),
     mi_dinode := di \<rparr>"

definition ufs_inode_setup_disk_image :: "minode \<Rightarrow> dinode" where
  "ufs_inode_setup_disk_image m = mi_dinode m"

section \<open>Loading and writing back\<close>

text \<open>
  An inode's slot is read or written only when it lies inside the buffer; otherwise the C code
  runs over it, which is \<open>None\<close>. On an error the caller's inode is left as it was.
\<close>

definition ufs_inode_load :: "'d os \<Rightarrow> 'd vol \<Rightarrow> minode \<Rightarrow> u32 \<Rightarrow> (rc \<times> minode \<times> 'd vol) option" where
  "ufs_inode_load os s minode inode =
     (let (rc, blk, ofs) = ufs_inode_inquire_disk_location s inode in
      if rc \<noteq> RcOk then Some (RcErr ENOENT, minode, s) else
      let (lockrc, s) = lock os LkDisk s in
      if \<not> lock_held lockrc then Some (RcErr ENOENT, minode, s) else
      let (buf, s) = ufs_disk_get_buf os s in
      case buf of
        None \<Rightarrow> Some (RcErr EIO, minode, unlock os lockrc LkDisk s)
      | Some buf \<Rightarrow>
          let (rc, buf, s) = ufs_vdisk_read os s buf blk;
              s = unlock os lockrc LkDisk s in
          if rc \<noteq> RcOk then Some (RcErr EIO, minode, ufs_disk_free_buf os s buf) else
          if 128 * unat ofs + 128 > length buf then None else
          let m = ufs_inode_setup_memory_image (dec_dinode (drop (128 * unat ofs) buf));
              m = m\<lparr>mi_inode_number := inode,
                     mi_type := (if inode = UFS_ROOT_INODE then mi_type m OR MINODE_TYPE_FSROOT
                                 else mi_type m)\<rparr>
          in Some (RcOk, m, ufs_disk_free_buf os s buf))"

definition ufs_inode_writeback :: "'d os \<Rightarrow> 'd vol \<Rightarrow> minode \<Rightarrow> (rc \<times> minode \<times> 'd vol) option" where
  "ufs_inode_writeback os s minode =
     (let (rc, blk, ofs) = ufs_inode_inquire_disk_location s (mi_inode_number minode) in
      if rc \<noteq> RcOk then Some (RcErr ENOENT, minode, s) else
      let (lockrc, s) = lock os LkDisk s in
      if \<not> lock_held lockrc then Some (RcErr ENOENT, minode, s) else
      let (buf, s) = ufs_disk_get_buf os s in
      case buf of
        None \<Rightarrow> Some (RcErr ENOMEM, minode, unlock os lockrc LkDisk s)
      | Some buf \<Rightarrow>
          let fin = (\<lambda>rc m buf s. Some (rc, m, unlock os lockrc LkDisk (ufs_disk_free_buf os s buf)));
              (rc, buf, s) = ufs_vdisk_read os s buf blk in
          if rc \<noteq> RcOk then fin (RcErr EIO) minode buf s else
          if 128 * unat ofs + 128 > length buf then None else
          let buf = blit (128 * unat ofs) (enc_dinode (mi_dinode minode)) buf;
              (rc, s) = ufs_vdisk_write os s buf blk in
          if rc \<noteq> RcOk then fin (RcErr EIO) minode buf s else
          fin RcOk (minode\<lparr>mi_flags := mi_flags minode AND NOT MINODE_FLAG_DIRTY\<rparr>) buf s)"

section \<open>The cache of open inodes\<close>

text \<open>
  A handle is an address in \<^verbatim>\<open>v_mstore\<close>; following a freed one is \<open>None\<close>. The results of
  the locks on the volume and the inode are not looked at except to release them.
\<close>

definition set_minode :: "nat \<Rightarrow> minode option \<Rightarrow> 'd vol \<Rightarrow> 'd vol" where
  "set_minode p m s = s\<lparr>v_mstore := (v_mstore s)(p := m)\<rparr>"

text \<open>An operation of the layers below on the inode at an address of the store.\<close>

definition at_minode :: "nat \<Rightarrow> ('d vol \<Rightarrow> minode \<Rightarrow> (rc \<times> minode \<times> 'd vol) option) \<Rightarrow> 'd vol \<Rightarrow>
    (rc \<times> 'd vol) option" where
  "at_minode p f s =
     do { m \<leftarrow> v_mstore s p; (rc, m, s) \<leftarrow> f s m; Some (rc, set_minode p (Some m) s) }"

fun find_minode :: "(nat \<Rightarrow> minode option) \<Rightarrow> nat list \<Rightarrow> u32 \<Rightarrow> nat option option" where
  "find_minode st [] ino = Some None"
| "find_minode st (p # ps) ino =
     (case st p of None \<Rightarrow> None
      | Some m \<Rightarrow> if mi_inode_number m = ino then Some (Some p) else find_minode st ps ino)"

definition ufs_inode_use :: "'d os \<Rightarrow> 'd vol \<Rightarrow> nat \<Rightarrow> 'd vol option" where
  "ufs_inode_use os s p =
     (let (lockrc, s) = lock os (LkMinode p) s in
      do { m \<leftarrow> v_mstore s p;
           let s = set_minode p (Some (m\<lparr>mi_usecount := mi_usecount m + 1\<rparr>)) s
           in Some (unlock os lockrc (LkMinode p) s) })"

definition ufs_inode_get :: "'d os \<Rightarrow> 'd vol \<Rightarrow> u32 \<Rightarrow> (nat option \<times> 'd vol) option" where
  "ufs_inode_get os s ino =
     (let (lockvdisk, s) = lock os LkVdisk s;
          quit = (\<lambda>p s. Some (p, unlock os lockvdisk LkVdisk s)) in
      do { found \<leftarrow> find_minode (v_mstore s) (v_minodes s) ino;
           case found of
             Some p \<Rightarrow> do { s \<leftarrow> ufs_inode_use os s p; quit (Some p) s }
           | None \<Rightarrow>
               let (ok, s) = calloc os 144 s in
               if \<not> ok then quit None s else
               do { (error, m, s) \<leftarrow> ufs_inode_load os s zero_minode ino;
                    if error \<noteq> RcOk then quit None s else
                    let p = v_mnext s;
                        s = set_minode p (Some m) (s\<lparr>v_minodes := v_minodes s @ [p], v_mnext := Suc p\<rparr>)
                    in do { s \<leftarrow> ufs_inode_use os s p; quit (Some p) s } } })"

fun del_minode :: "(nat \<Rightarrow> minode option) \<Rightarrow> nat list \<Rightarrow> u32 \<Rightarrow> nat list option" where
  "del_minode st [] ino = Some []"
| "del_minode st (p # ps) ino =
     (case st p of None \<Rightarrow> None
      | Some m \<Rightarrow> if mi_inode_number m = ino then Some ps
                   else map_option (\<lambda>ps. p # ps) (del_minode st ps ino))"

definition ufs_inode_rel :: "'d os \<Rightarrow> 'd vol \<Rightarrow> nat \<Rightarrow> 'd vol option" where
  "ufs_inode_rel os s p =
     (let (lockvdisk, s) = lock os LkVdisk s;
          (lockrc, s) = lock os (LkMinode p) s;
          quit = (\<lambda>s. Some (unlock os lockvdisk LkVdisk (unlock os lockrc (LkMinode p) s))) in
      do { m \<leftarrow> v_mstore s p;
           let m = (if mi_usecount m > 0 then m\<lparr>mi_usecount := mi_usecount m - 1\<rparr> else m);
               s = set_minode p (Some m) s
           in if ufs_inode_isdir (mi_dinode m) \<and> di_nlink (mi_dinode m) \<noteq> 0 then quit s
              else if mi_usecount m = 0
              then do { ps \<leftarrow> del_minode (v_mstore s) (v_minodes s) (mi_inode_number m);
                        quit (set_minode p None (s\<lparr>v_minodes := ps\<rparr>)) }
              else quit s })"

section \<open>Free inodes\<close>

text \<open>
  \<open>scan_block\<close> is the inner loop over the inodes of one block: \<open>j\<close> counts up to
  \<^verbatim>\<open>inodes_per_block\<close> (\<open>n\<close> iterations left), \<open>k\<close> is the fill of the cache, and the
  result has the new \<open>k\<close>, inode number and super block.
\<close>

fun scan_block :: "byte list \<Rightarrow> nat \<Rightarrow> nat \<Rightarrow> nat \<Rightarrow> u32 \<Rightarrow> sb \<Rightarrow> (nat \<times> u32 \<times> sb) option" where
  "scan_block buf 0 j k inode b = Some (k, inode, b)"
| "scan_block buf (Suc n) j k inode b =
     (if k \<ge> UFS_MAX_FREEINODE then Some (k, inode, b)
      else if 128 * j + 128 > length buf then None
      else if un16 (slice (128 * j) 2 buf) \<noteq> 0 then scan_block buf n (Suc j) k (inode + 1) b
      else scan_block buf n (Suc j) (Suc k) (inode + 1)
             (b\<lparr>sb_freeinode := (sb_freeinode b)[k := inode], sb_modified := 1\<rparr>))"

fun scan_ilist :: "'d os \<Rightarrow> nat \<Rightarrow> 'd vol \<Rightarrow> u32 \<Rightarrow> nat \<Rightarrow> u32 \<Rightarrow> (rc \<times> nat \<times> 'd vol) option" where
  "scan_ilist os 0 s i k inode = Some (RcOk, k, s)"
| "scan_ilist os (Suc n) s i k inode =
     (let (buf, s) = ufs_disk_get_buf os s in
      case buf of
        None \<Rightarrow> Some (RcErr ENOMEM, k, s)
      | Some buf \<Rightarrow>
          let (rc, buf, s) = ufs_vdisk_read os s buf i in
          if rc \<noteq> RcOk then scan_ilist os n s (i + 1) k (inode + sb_inodes_per_block (v_sb s)) else
          do { (k, inode, b) \<leftarrow>
                 scan_block buf (unat (sb_inodes_per_block (v_sb s))) 0 k inode (v_sb s);
               scan_ilist os n (ufs_disk_free_buf os (upd_sb (\<lambda>_. b) s) buf) (i + 1) k inode })"

text \<open>A failed lock makes the function return no value at all.\<close>

definition ufs_freeinode_update :: "'d os \<Rightarrow> 'd vol \<Rightarrow> (rc \<times> 'd vol) option" where
  "ufs_freeinode_update os s =
     (if sb_readonly (v_sb s) \<noteq> 0 then Some (RcErr EROFS, s) else
      let (lockrc, s) = lock os LkDisk s in
      if \<not> lock_held lockrc then None else
      do { (rc, k, s) \<leftarrow> scan_ilist os
             (unat (sb_datablock_start_sector (v_sb s)) - unat (sb_ilist_sector (v_sb s))) s
             (sb_ilist_sector (v_sb s)) (unat (sb_nfreeinode (v_sb s))) 1;
           (rc, s) \<leftarrow>
             (if sb_modified (v_sb s) \<noteq> 0
              then let s = upd_sb (\<lambda>b. b\<lparr>sb_modified := 0, sb_nfreeinode := of_nat k\<rparr>) s
                   in do { (wrc, s) \<leftarrow> ufs_disk_write_super os s;
                           if wrc \<noteq> RcOk
                           then Some (RcErr EIO, upd_sb (\<lambda>b. b\<lparr>sb_modified := 1\<rparr>) s)
                           else Some (rc, s) }
              else Some (rc, s));
           Some (rc, unlock os lockrc LkDisk s) })"

definition ufs_inode_allocate :: "'d os \<Rightarrow> 'd vol \<Rightarrow> (rc \<times> u32 \<times> 'd vol) option" where
  "ufs_inode_allocate os s =
     (if sb_readonly (v_sb s) \<noteq> 0 then Some (RcErr EROFS, 0, s) else
      let (lockrc, s) = lock os LkDisk s in
      if \<not> lock_held lockrc then Some (RcErr ENOSPC, 0, s) else
      let errexit = (\<lambda>rc ino s. Some (rc, ino, unlock os lockrc LkDisk s)) in
      if sb_total_freeinode (v_sb s) = 0 then errexit (RcErr ENOSPC) 0 s else
      do { (error, s) \<leftarrow> (if sb_nfreeinode (v_sb s) = 0 then ufs_freeinode_update os s
                           else Some (RcOk, s));
           if error \<noteq> RcOk then errexit error 0 s else
           let n = unat (sb_nfreeinode (v_sb s) - 1) in
           if n \<ge> length (sb_freeinode (v_sb s)) then None else
           let inode = sb_freeinode (v_sb s) ! n;
               s = upd_sb (\<lambda>b. b\<lparr>sb_nfreeinode := sb_nfreeinode b - 1,
                                  sb_total_freeinode := sb_total_freeinode b - 1,
                                  sb_modified := 1\<rparr>) s
           in if \<not> ufs_inode_number_sanity s inode then errexit (RcErr ENOSPC) 0 s
              else errexit RcOk inode s })"

text \<open>The inode is cleared in the cache and on disk; its handle keeps the use just taken out.\<close>

definition ufs_inode_deallocate :: "'d os \<Rightarrow> 'd vol \<Rightarrow> u32 \<Rightarrow> 'd vol option" where
  "ufs_inode_deallocate os s inode =
     do { (p, s) \<leftarrow> ufs_inode_get os s inode;
          case p of
            None \<Rightarrow> Some s
          | Some p \<Rightarrow>
              do { (rc, m, s) \<leftarrow> ufs_inode_writeback os s (zero_minode\<lparr>mi_inode_number := inode\<rparr>);
                   let s = set_minode p (Some m) s;
                       (lockrc, s) = lock os LkDisk s in
                   if \<not> lock_held lockrc then Some s else
                   let s = upd_sb (\<lambda>b.
                         let n = unat (sb_nfreeinode b);
                             b = (if n < UFS_MAX_FREEINODE
                                  then b\<lparr>sb_freeinode := (sb_freeinode b)[n := inode],
                                         sb_nfreeinode := sb_nfreeinode b + 1\<rparr> else b)
                         in b\<lparr>sb_total_freeinode := sb_total_freeinode b + 1, sb_modified := 1\<rparr>) s
                   in Some (unlock os lockrc LkDisk s) } }"

section \<open>Iteration over all inodes\<close>

fun foreach_block :: "('d vol \<Rightarrow> 'c \<Rightarrow> minode \<Rightarrow> u32 \<Rightarrow> (rc \<times> 'c \<times> 'd vol) option) \<Rightarrow> byte list \<Rightarrow>
    nat \<Rightarrow> nat \<Rightarrow> u32 \<Rightarrow> rc \<Rightarrow> 'c \<Rightarrow> 'd vol \<Rightarrow> (rc \<times> u32 \<times> 'c \<times> 'd vol) option" where
  "foreach_block func buf 0 j k ret ctx s = Some (ret, k, ctx, s)"
| "foreach_block func buf (Suc n) j k ret ctx s =
     (if 128 * j + 128 > length buf then None else
      let m = (ufs_inode_setup_memory_image (dec_dinode (drop (128 * j) buf)))\<lparr>mi_inode_number := k\<rparr>
      in do { (ret, ctx, s) \<leftarrow> func s ctx m k;
              if ret \<noteq> RcOk then Some (ret, k, ctx, s)
              else foreach_block func buf n (Suc j) (k + 1) ret ctx s })"

fun foreach_ilist :: "'d os \<Rightarrow> ('d vol \<Rightarrow> 'c \<Rightarrow> minode \<Rightarrow> u32 \<Rightarrow> (rc \<times> 'c \<times> 'd vol) option) \<Rightarrow> nat \<Rightarrow>
    block \<Rightarrow> u32 \<Rightarrow> u32 \<Rightarrow> rc \<Rightarrow> 'c \<Rightarrow> 'd vol \<Rightarrow> (rc \<times> block \<times> 'c \<times> 'd vol) option" where
  "foreach_ilist os func 0 buf i k ret ctx s = Some (ret, buf, ctx, s)"
| "foreach_ilist os func (Suc n) buf i k ret ctx s =
     (let (rc, buf, s) = ufs_vdisk_read os s buf i in
      if rc \<noteq> RcOk
      then foreach_ilist os func n buf (i + 1) (k + sb_inodes_per_block (v_sb s)) ret ctx s else
      do { (ret, k, ctx, s) \<leftarrow>
             foreach_block func buf (unat (sb_inodes_per_block (v_sb s))) 0 k ret ctx s;
           if ret \<noteq> RcOk then Some (ret, buf, ctx, s)
           else foreach_ilist os func n buf (i + 1) k ret ctx s })"

definition ufs_ilist_foreach :: "'d os \<Rightarrow> ('d vol \<Rightarrow> 'c \<Rightarrow> minode \<Rightarrow> u32 \<Rightarrow> (rc \<times> 'c \<times> 'd vol) option) \<Rightarrow>
    'c \<Rightarrow> 'd vol \<Rightarrow> (rc \<times> 'c \<times> 'd vol) option" where
  "ufs_ilist_foreach os func ctx s =
     (let (buf, s) = ufs_disk_get_buf os s in
      case buf of
        None \<Rightarrow> Some (RcErr ENOMEM, ctx, s)
      | Some buf \<Rightarrow>
          do { (ret, buf, ctx, s) \<leftarrow> foreach_ilist os func
                 (unat (sb_datablock_start_sector (v_sb s)) - unat (sb_ilist_sector (v_sb s)))
                 buf (sb_ilist_sector (v_sb s)) 1 (RcErr EIO) ctx s;
               Some (ret, ctx, ufs_disk_free_buf os s buf) })"

section \<open>Access checks\<close>

text \<open>
  An ACEE has an eye catcher, the user and group as Pascal strings and the list of connected groups.
  \<^verbatim>\<open>strncmpi\<close> is the C library's comparison that ignores case: a parameter, as the
  function \<open>fc\<close> on characters it compares by.
\<close>

record acee =
  aceeacee :: "byte list"
  aceeuser :: "byte list"
  aceegrp :: "byte list"
  aceecgrp :: "byte list list"

definition UFSACC_READ :: u32 where "UFSACC_READ = 4"
definition UFSACC_WRITE :: u32 where "UFSACC_WRITE = 2"
definition UFSACC_EXEC :: u32 where "UFSACC_EXEC = 1"

definition access_allowed :: "u32 \<Rightarrow> u32 \<Rightarrow> bool" where
  "access_allowed ufsacc mode \<longleftrightarrow> ufsacc AND mode \<noteq> 0"

definition pascal_match :: "(byte \<Rightarrow> byte) \<Rightarrow> byte list \<Rightarrow> byte list \<Rightarrow> bool" where
  "pascal_match fc name p \<longleftrightarrow>
     (let len = length (cstr name)
      in len = unat (hd p) \<and> strncmp_eq len (map fc name) (map fc (tl p)))"

definition ufs_inode_auth :: "(byte \<Rightarrow> byte) \<Rightarrow> acee option \<Rightarrow> minode \<Rightarrow> u32 \<Rightarrow> bool" where
  "ufs_inode_auth fc acee minode ufsacc =
     (let di = mi_dinode minode;
          mode = ucast (di_mode di) :: u32 in
      if access_allowed ufsacc (mode AND 7) then True else
      case acee of
        None \<Rightarrow> False
      | Some acee \<Rightarrow>
          if pascal_match fc (di_owner di) (aceeuser acee)
             \<and> access_allowed ufsacc (drop_bit 6 mode AND 7) then True else
          if pascal_match fc (di_group di) (aceegrp acee)
             \<and> access_allowed ufsacc (drop_bit 3 mode AND 7) then True else
          list_ex (\<lambda>grp. pascal_match fc (di_group di) grp
             \<and> access_allowed ufsacc (drop_bit 3 mode AND 7)) (aceecgrp acee))"

definition ufs_inode_auth_read :: "(byte \<Rightarrow> byte) \<Rightarrow> acee option \<Rightarrow> minode \<Rightarrow> bool" where
  "ufs_inode_auth_read fc acee minode = ufs_inode_auth fc acee minode UFSACC_READ"

definition ufs_inode_auth_write :: "(byte \<Rightarrow> byte) \<Rightarrow> acee option \<Rightarrow> minode \<Rightarrow> bool" where
  "ufs_inode_auth_write fc acee minode = ufs_inode_auth fc acee minode UFSACC_WRITE"

definition ufs_inode_auth_exec :: "(byte \<Rightarrow> byte) \<Rightarrow> acee option \<Rightarrow> minode \<Rightarrow> bool" where
  "ufs_inode_auth_exec fc acee minode = ufs_inode_auth fc acee minode UFSACC_EXEC"

section \<open>Layout and location\<close>

lemma length_enc_dinode [simp]: "wf_dinode d \<Longrightarrow> length (enc_dinode d) = 128"
  by (simp add: enc_dinode_def wf_dinode_def)

lemma wf_dec_dinode [simp]: "128 \<le> length b \<Longrightarrow> wf_dinode (dec_dinode b)"
  by (simp add: wf_dinode_def dec_dinode_def)

lemma dec_enc_dinode: "wf_dinode d \<Longrightarrow> dec_dinode (enc_dinode d @ rest) = d"
  by (simp add: dec_dinode_def enc_dinode_def wf_dinode_def buf_simps)

text \<open>
  The geometry a volume must have for inode arithmetic not to wrap: a block size that is the
  power of two the super block says, the inode list in blocks 2 up to the data blocks, and fewer
  than $2^{32}$ bytes before them.
\<close>

definition geom :: "'d vol \<Rightarrow> bool" where
  "geom s \<longleftrightarrow> unat (v_blksize s) = 2 ^ unat (sb_blksize_shift (v_sb s))
     \<and> 9 \<le> unat (sb_blksize_shift (v_sb s)) \<and> unat (sb_blksize_shift (v_sb s)) \<le> 15
     \<and> sb_ilist_sector (v_sb s) = UFS_ILIST_SECTOR
     \<and> UFS_ILIST_SECTOR < sb_datablock_start_sector (v_sb s)
     \<and> sb_datablock_start_sector (v_sb s) \<le> sb_volume_size (v_sb s)
     \<and> unat (sb_datablock_start_sector (v_sb s)) * unat (v_blksize s) < 2 ^ 32"

definition ipb :: "'d vol \<Rightarrow> nat" where
  "ipb s = unat (v_blksize s) div 128"

definition max_inode :: "'d vol \<Rightarrow> nat" where
  "max_inode s = (unat (sb_datablock_start_sector (v_sb s)) - 2) * ipb s"

definition inode_num :: "'d vol \<Rightarrow> u32 \<Rightarrow> bool" where
  "inode_num s n \<longleftrightarrow> 1 \<le> unat n \<and> unat n \<le> max_inode s"

definition inode_block :: "'d vol \<Rightarrow> u32 \<Rightarrow> u32" where
  "inode_block s n = of_nat (2 + (unat n - 1) div ipb s)"

definition inode_slot :: "'d vol \<Rightarrow> u32 \<Rightarrow> nat" where
  "inode_slot s n = (unat n - 1) mod ipb s"

lemma geom_ipb:
  assumes "geom s" shows "unat (v_blksize s) = 128 * ipb s" "4 \<le> ipb s"
proof -
  let ?k = "unat (sb_blksize_shift (v_sb s)) - 7"
  have b: "unat (v_blksize s) = 2 ^ (7 + ?k)" and k: "2 \<le> ?k" using assms by (auto simp: geom_def)
  have bs: "unat (v_blksize s) = 128 * 2 ^ ?k" unfolding b power_add by simp
  then have ip: "ipb s = 2 ^ ?k" by (simp add: ipb_def)
  with bs show "unat (v_blksize s) = 128 * ipb s" by simp
  show "4 \<le> ipb s" using power_increasing [OF k, of "2::nat"] ip by simp
qed

lemma unat_mult32: "unat (a :: u32) * unat b < 2 ^ 32 \<Longrightarrow> unat (a * b) = unat a * unat b"
  by (simp add: unat_word_ariths)

lemma unat_ucast16 [simp]: "unat (ucast (w :: u16) :: u32) = unat w"
proof -
  have "unat w < 2 ^ 16" using unsigned_less [of w] by simp
  then show ?thesis by (simp add: unsigned_ucast_eq take_bit_nat_eq_self)
qed

lemma inode_location:
  assumes g: "geom s" and n: "inode_num s n"
  shows "ufs_inode_inquire_disk_location s n = (RcOk, inode_block s n, of_nat (inode_slot s n))"
    and "inode_block s n < sb_datablock_start_sector (v_sb s)"
    and "unat (inode_block s n) = 2 + (unat n - 1) div ipb s"
    and "inode_slot s n < ipb s" and "2 \<le> inode_block s n"
proof -
  let ?bs = "unat (v_blksize s)" and ?start = "unat (sb_datablock_start_sector (v_sb s))"
  let ?i = "unat n - 1" and ?sh = "unat (sb_blksize_shift (v_sb s))"
  note ip = geom_ipb [OF g]
  have st: "2 < ?start" "?start * ?bs < 2 ^ 32" "?bs = 2 ^ ?sh"
    using g by (auto simp: geom_def UFS_ILIST_SECTOR_def word_less_nat_alt)
  have i: "?i < (?start - 2) * ipb s" using n by (auto simp: inode_num_def max_inode_def)
  have n0: "n \<noteq> 0" using n by (auto simp: inode_num_def)
  have d: "?i div ipb s < ?start - 2" using i ip(2) by (simp add: div_less_iff_less_mult)
  have "?i * 128 < (?start - 2) * ipb s * 128" using i by simp
  also have "\<dots> \<le> ?start * ?bs" by (simp add: ip(1))
  finally have i128: "?i * 128 < 2 ^ 32" using st(2) by simp
  define ofs where "ofs = (n - 1) * 128"
  have ofs: "unat ofs = ?i * 128" unfolding ofs_def
    using unat_mult32 [of "n - 1" 128] i128 unat_minus_one [OF n0] by simp
  have "unat (drop_bit ?sh ofs) = drop_bit ?sh (unat ofs)" by (rule unat_drop_bit_eq)
  also have "\<dots> = ?i * 128 div 2 ^ ?sh" by (simp add: drop_bit_eq_div ofs)
  also have "2 ^ ?sh = ipb s * 128" using st(3) ip by simp
  also have "?i * 128 div (ipb s * 128) = ?i div ipb s" by simp
  finally have blk: "unat (drop_bit ?sh ofs) = ?i div ipb s" .
  let ?blk = "drop_bit ?sh ofs"
  have st32: "?start < 2 ^ 32" by (rule unat_lt32)
  have block: "unat (?blk + sb_ilist_sector (v_sb s)) = 2 + ?i div ipb s"
    using blk d st32 g by (simp add: unat_word_ariths geom_def UFS_ILIST_SECTOR_def)
  have ib: "unat (inode_block s n) = 2 + ?i div ipb s"
    using d st32 unat_of_nat32 [of "2 + ?i div ipb s"] by (simp add: inode_block_def)
  then have eq: "?blk + sb_ilist_sector (v_sb s) = inode_block s n"
    using block by (simp add: word_unat_eq_iff)
  show lt: "inode_block s n < sb_datablock_start_sector (v_sb s)"
    using ib d by (simp add: word_less_nat_alt)
  have mod: "?i * 128 - ?i div ipb s * ?bs = (?i mod ipb s) * 128"
    by (simp add: ip(1) minus_div_mult_eq_mod [symmetric] diff_mult_distrib algebra_simps)
  have "?i div ipb s * ?bs \<le> ?i * 128" by (simp add: ip(1))
  then have le: "?i div ipb s * ?bs < 2 ^ 32" using i128 by simp
  then have "unat (?blk * ucast (v_blksize s)) = ?i div ipb s * ?bs"
    using unat_mult32 [of ?blk "ucast (v_blksize s)"] blk by simp
  then have "unat (ofs - ?blk * ucast (v_blksize s)) = (?i mod ipb s) * 128"
    using ofs mod \<open>?i div ipb s * ?bs \<le> ?i * 128\<close> by (simp add: unat_sub word_le_nat_alt)
  moreover have "?i mod ipb s < 2 ^ 32"
    using i128 le_less_trans [OF mod_less_eq_dividend [of ?i "ipb s"]] by simp
  ultimately have "(ofs - ?blk * ucast (v_blksize s)) div 128 = of_nat (inode_slot s n)"
    using unat_of_nat32 [of "?i mod ipb s"] by (simp add: word_unat_eq_iff unat_div inode_slot_def)
  then show "ufs_inode_inquire_disk_location s n = (RcOk, inode_block s n, of_nat (inode_slot s n))"
    unfolding ufs_inode_inquire_disk_location_def Let_def ofs_def [symmetric] using eq lt by simp
  show "unat (inode_block s n) = 2 + ?i div ipb s" by (rule ib)
  show "inode_slot s n < ipb s" using ip(2) by (simp add: inode_slot_def)
  show "2 \<le> inode_block s n" using ib by (simp add: word_le_nat_alt)
qed

section \<open>The inode table\<close>

text \<open>\<open>inode_at ct s n\<close> is disk inode \<open>n\<close> as the volume presents it.\<close>

definition inode_at :: "('d \<Rightarrow> u32 \<Rightarrow> block) \<Rightarrow> 'd vol \<Rightarrow> u32 \<Rightarrow> dinode" where
  "inode_at ct s n = dec_dinode (slice (128 * inode_slot s n) 128 (vview ct s (inode_block s n)))"

definition inode_image :: "u32 \<Rightarrow> dinode \<Rightarrow> minode" where
  "inode_image n di = (ufs_inode_setup_memory_image di)\<lparr>mi_inode_number := n,
     mi_type := (if n = UFS_ROOT_INODE
       then mi_type (ufs_inode_setup_memory_image di) OR MINODE_TYPE_FSROOT
       else mi_type (ufs_inode_setup_memory_image di))\<rparr>"

abbreviation v_lim :: "'d vol \<Rightarrow> u32" where
  "v_lim s \<equiv> sb_volume_size (v_sb s)"

definition igood :: "'d os \<Rightarrow> ('d \<Rightarrow> u32 \<Rightarrow> block) \<Rightarrow> nat \<Rightarrow> 'd vol \<Rightarrow> bool" where
  "igood os ct k s \<longleftrightarrow> vgood os ct (v_lim s) k s \<and> geom s"

lemma dec_dinode_slice: "off + 128 \<le> length b \<Longrightarrow> dec_dinode (drop off b) = dec_dinode (slice off 128 b)"
proof -
  assume le: "off + 128 \<le> length b"
  have "drop off b = slice off 128 b @ drop 128 (drop off b)"
    unfolding slice_def by (rule append_take_drop_id [symmetric])
  moreover have "dec_dinode (slice off 128 b @ x) = dec_dinode (slice off 128 b)" for x
    using le by (simp add: dec_dinode_def buf_simps)
  ultimately show ?thesis by metis
qed

lemma geom_rest:
  assumes "vrest s' = vrest s"
  shows "geom s' \<longleftrightarrow> geom s" "inode_num s' = inode_num s" "inode_block s' = inode_block s"
    "inode_slot s' = inode_slot s"
  using vrestD(1,2) [OF assms]
  by (simp_all add: geom_def inode_num_def inode_block_def inode_slot_def max_inode_def ipb_def fun_eq_iff)

lemma inode_at_vsame: "vsame ct s s' \<Longrightarrow> inode_at ct s' = inode_at ct s"
  by (simp add: inode_at_def fun_eq_iff vsameD(1) geom_rest [OF vsameD(2)])

lemma igood_vsame: "igood os ct k s \<Longrightarrow> vgood os ct (v_lim s) j s' \<Longrightarrow> vsame ct s s' \<Longrightarrow> igood os ct j s'"
  by (simp add: igood_def vsameD(3) geom_rest [OF vsameD(2)])

lemma good_inode_block:
  assumes "igood os ct k s" "inode_num s n"
  shows "inode_block s n < v_lim s" "inode_slot s n < ipb s" "unat (v_blksize s) = 128 * ipb s"
    "128 * inode_slot s n + 128 \<le> unat (v_blksize s)"
    "unat (of_nat (inode_slot s n) :: u32) = inode_slot s n"
proof -
  have g: "geom s" using assms(1) by (simp add: igood_def)
  note l = inode_location [OF g assms(2)] and ip = geom_ipb [OF g]
  show "inode_block s n < v_lim s" using l(2) g by (auto simp: geom_def)
  show "inode_slot s n < ipb s" "unat (v_blksize s) = 128 * ipb s" using l(4) ip(1) by simp_all
  show le: "128 * inode_slot s n + 128 \<le> unat (v_blksize s)" using l(4) ip(1) by simp
  have "unat (v_blksize s) < 2 ^ 16" using unsigned_less [of "v_blksize s"] by simp
  then show "unat (of_nat (inode_slot s n) :: u32) = inode_slot s n"
    using le by (intro unat_of_nat32) simp
qed

lemma good_load:
  assumes "igood os ct k s" "inode_num s n"
  obtains s' where "ufs_inode_load os s m n = Some (RcOk, inode_image n (inode_at ct s n), s')"
    "vgood os ct (v_lim s) k s'" "vsame ct s s'" "wf_dinode (inode_at ct s n)"
proof -
  let ?lim = "v_lim s" and ?blk = "inode_block s n"
  have vg: "vgood os ct ?lim k s" and g: "geom s" using assms(1) by (auto simp: igood_def)
  note loc = inode_location(1) [OF g assms(2)] and ib = good_inode_block [OF assms]
  obtain r s1 where l: "lock os LkDisk s = (r, s1)" "lock_held r" "vgood os ct ?lim k s1" "vsame ct s s1"
    by (rule good_lock [OF vg])
  note e1 = vsameD [OF l(4)]
  obtain buf s2 where gb: "ufs_disk_get_buf os s1 = (Some buf, s2)" "length buf = unat (v_blksize s1)"
    "vgood os ct ?lim k s2" "vsame ct s1 s2" by (rule good_get_buf [OF l(3)])
  note e2 = vsameD [OF gb(4)]
  obtain s3 where rd: "ufs_vdisk_read os s2 buf ?blk = (RcOk, vview ct s2 ?blk, s3)" "vgood os ct ?lim k s3"
    "vsame ct s2 s3" "length (vview ct s2 ?blk) = unat (v_blksize s2)"
    using good_read [OF gb(3) ib(1)] gb(2) e2 by metis
  note u = good_unlock [OF rd(2), of r LkDisk]
  have "length (vview ct s2 ?blk) = unat (v_blksize (unlock os r LkDisk s3))"
    using rd(4) vsameD(4) [OF rd(3)] vsameD(4) [OF u(2)] by simp
  note f = good_free_buf [OF u(1) this]
  let ?s' = "ufs_disk_free_buf os (unlock os r LkDisk s3) (vview ct s2 ?blk)"
  have "vsame ct s ?s'"
    using vsame_trans [OF vsame_trans [OF vsame_trans [OF l(4) gb(4)] rd(3)] vsame_trans [OF u(2) f(2)]] .
  moreover have v: "vview ct s2 = vview ct s" "v_blksize s2 = v_blksize s" using e1 e2 by simp_all
  moreover have "dec_dinode (drop (128 * inode_slot s n) (vview ct s ?blk)) = inode_at ct s n"
    using dec_dinode_slice [of "128 * inode_slot s n" "vview ct s ?blk"] ib(4) rd(4) v by (simp add: inode_at_def)
  then have "ufs_inode_load os s m n = Some (RcOk, inode_image n (inode_at ct s n), ?s')"
    using loc l gb(1) rd(1,4) ib(4,5) v by (simp add: ufs_inode_load_def inode_image_def Let_def)
  moreover have "wf_dinode (inode_at ct s n)"
    using ib(4) rd(4) v by (simp add: inode_at_def wf_dec_dinode)
  ultimately show ?thesis using that f(1) by blast
qed

lemma good_writeback:
  assumes "igood os ct (Suc k) s" "inode_num s (mi_inode_number m)" and wf: "wf_dinode (mi_dinode m)"
  obtains s' where "ufs_inode_writeback os s m = Some (RcOk, m\<lparr>mi_flags := mi_flags m AND NOT MINODE_FLAG_DIRTY\<rparr>, s')"
    "vgood os ct (v_lim s) k s'" "vrest s' = vrest s"
    "vview ct s' = (vview ct s)(inode_block s (mi_inode_number m) :=
       blit (128 * inode_slot s (mi_inode_number m)) (enc_dinode (mi_dinode m))
         (vview ct s (inode_block s (mi_inode_number m))))"
    "length (vview ct s (inode_block s (mi_inode_number m))) = unat (v_blksize s)"
proof -
  let ?lim = "v_lim s" and ?n = "mi_inode_number m"
  let ?blk = "inode_block s ?n" and ?off = "128 * inode_slot s ?n"
  have vg: "vgood os ct ?lim (Suc k) s" and g: "geom s" using assms(1) by (auto simp: igood_def)
  note loc = inode_location(1) [OF g assms(2)] and ib = good_inode_block [OF assms(1,2)]
  obtain r s1 where l: "lock os LkDisk s = (r, s1)" "lock_held r" "vgood os ct ?lim (Suc k) s1" "vsame ct s s1"
    by (rule good_lock [OF vg])
  note e1 = vsameD [OF l(4)]
  obtain buf s2 where gb: "ufs_disk_get_buf os s1 = (Some buf, s2)" "length buf = unat (v_blksize s1)"
    "vgood os ct ?lim (Suc k) s2" "vsame ct s1 s2" by (rule good_get_buf [OF l(3)])
  note e2 = vsameD [OF gb(4)]
  obtain s3 where rd: "ufs_vdisk_read os s2 buf ?blk = (RcOk, vview ct s2 ?blk, s3)" "vgood os ct ?lim (Suc k) s3"
    "vsame ct s2 s3" "length (vview ct s2 ?blk) = unat (v_blksize s2)"
    using good_read [OF gb(3) ib(1)] gb(2) e2 by metis
  note e3 = vsameD [OF rd(3)]
  have v: "vview ct s2 = vview ct s" "v_blksize s2 = v_blksize s" using e1 e2 by simp_all
  let ?buf = "blit ?off (enc_dinode (mi_dinode m)) (vview ct s ?blk)"
  have len: "length ?buf = unat (v_blksize s)" using ib(4) rd(4) v wf by simp
  obtain s4 where w: "ufs_vdisk_write os s3 ?buf ?blk = (RcOk, s4)" "vgood os ct ?lim k s4"
    "vview ct s4 = (vview ct s3)(?blk := ?buf)" "vrest s4 = vrest s3"
    using good_write [OF rd(2) ib(1), of ?buf] len e3 v by metis
  have "length ?buf = unat (v_blksize s4)" using len vrestD(2) [OF w(4)] e3 v by simp
  note f = good_free_buf [OF w(2) this]
  note u = good_unlock [OF f(1), of r LkDisk]
  let ?s' = "unlock os r LkDisk (ufs_disk_free_buf os s4 ?buf)"
  have "ufs_inode_writeback os s m = Some (RcOk, m\<lparr>mi_flags := mi_flags m AND NOT MINODE_FLAG_DIRTY\<rparr>, ?s')"
    using loc l gb(1) rd(1,4) w(1) ib(4,5) v by (simp add: ufs_inode_writeback_def Let_def)
  moreover have "vrest ?s' = vrest s"
    using vsameD(2) [OF u(2)] vsameD(2) [OF f(2)] w(4) e3(2) e2(2) e1(2) by simp
  moreover have "vview ct ?s' = (vview ct s)(?blk := ?buf)"
    using vsameD(1) [OF u(2)] vsameD(1) [OF f(2)] w(3) e3(1) v(1) by simp
  moreover have "length (vview ct s ?blk) = unat (v_blksize s)" using rd(4) v by simp
  ultimately show ?thesis using that u(1) by blast
qed

lemma inode_slot_inj:
  assumes g: "geom s" and "inode_num s n" "inode_num s x" "inode_block s x = inode_block s n"
    and "inode_slot s x = inode_slot s n"
  shows "x = n"
proof -
  have "(unat x - 1) div ipb s = (unat n - 1) div ipb s"
    using inode_location(3) [OF g assms(2)] inode_location(3) [OF g assms(3)] assms(4) by simp
  moreover have "(unat x - 1) mod ipb s = (unat n - 1) mod ipb s" using assms(5) by (simp add: inode_slot_def)
  ultimately have "unat x - 1 = unat n - 1" by (metis div_mult_mod_eq)
  then have "unat x = unat n" using assms(2,3) by (auto simp: inode_num_def)
  then show ?thesis by (simp add: word_unat_eq_iff)
qed

text \<open>Writing an inode back changes that entry of the inode table and no other.\<close>

lemma inode_at_writeback:
  assumes "igood os ct k s" "inode_num s n" "inode_num s x" "wf_dinode di"
    and "vview ct s' = (vview ct s)(inode_block s n :=
       blit (128 * inode_slot s n) (enc_dinode di) (vview ct s (inode_block s n)))"
    and "vrest s' = vrest s" "length (vview ct s (inode_block s n)) = unat (v_blksize s)"
  shows "inode_at ct s' x = (if x = n then di else inode_at ct s x)"
proof -
  note ib = good_inode_block [OF assms(1,2)] and r = geom_rest [OF assms(6)]
  have at: "inode_at ct s' x = dec_dinode (slice (128 * inode_slot s x) 128 (vview ct s' (inode_block s x)))"
    by (simp add: inode_at_def r)
  have le: "128 * inode_slot s n + length (enc_dinode di) \<le> length (vview ct s (inode_block s n))"
    using ib(4) assms(4,7) by simp
  show ?thesis
  proof (cases "inode_block s x = inode_block s n")
    case False
    then show ?thesis using at assms(5) by (auto simp: inode_at_def)
  next
    case True
    show ?thesis
    proof (cases "x = n")
      case eq: True
      have "slice (128 * inode_slot s n) 128
          (blit (128 * inode_slot s n) (enc_dinode di) (vview ct s (inode_block s n))) = enc_dinode di"
        by (rule slice_blit_same [OF le]) (simp add: assms(4))
      then show ?thesis using at eq assms(4,5) dec_enc_dinode [OF assms(4), of "[]"] by simp
    next
      case False
      then have "inode_slot s x \<noteq> inode_slot s n" using inode_slot_inj [OF _ assms(2,3) True] assms(1) by (auto simp: igood_def)
      then have "128 * inode_slot s x + 128 \<le> 128 * inode_slot s n \<or>
          128 * inode_slot s n + length (enc_dinode di) \<le> 128 * inode_slot s x"
        using assms(4) by auto
      from slice_blit_other [OF this le] show ?thesis using at False True assms(5) by (simp add: inode_at_def)
    qed
  qed
qed


section \<open>The last inode\<close>

text \<open>
  The range check of inode numbers excludes the last inode of the list, which the location
  function accepts: \<^verbatim>\<open>ufs_max_inode\<close> is the number of inodes, and they start from 1.
\<close>

lemma max_inode_word:
  assumes g: "geom s"
  shows "unat (ufs_max_inode (ucast (v_blksize s)) (sb_datablock_start_sector (v_sb s))) = max_inode s"
proof -
  let ?bs = "ucast (v_blksize s) :: u32" and ?start = "sb_datablock_start_sector (v_sb s)"
  note ip = geom_ipb [OF g]
  have b: "unat (?bs div 128) = ipb s" by (simp add: unat_div ipb_def)
  have st: "2 < unat ?start" "unat ?start * unat (v_blksize s) < 2 ^ 32"
    using g by (auto simp: geom_def UFS_ILIST_SECTOR_def word_less_nat_alt)
  have d: "unat (?start - 2) = unat ?start - 2" using st(1) by (simp add: unat_sub word_le_nat_alt)
  have "ipb s * (unat ?start - 2) \<le> unat (v_blksize s) * unat ?start"
    using ip(1) by (intro mult_le_mono) simp_all
  then have "ipb s * (unat ?start - 2) < 2 ^ 32" using st(2) by (simp add: mult.commute)
  then show ?thesis using unat_mult32 [of "?bs div 128" "?start - 2"] unat_mult32 [of "?start - 2" "?bs div 128"] b d
    by (simp add: ufs_max_inode_def max_inode_def ufs_inode_per_block_def UFS_ILIST_SECTOR_def mult.commute)
qed

lemma last_inode:
  assumes g: "geom s" and n: "unat n = max_inode s" "1 \<le> max_inode s"
  shows "fst (ufs_inode_inquire_disk_location s n) = RcOk" "\<not> ufs_inode_number_sanity s n"
proof -
  have "inode_num s n" using n by (simp add: inode_num_def)
  then show "fst (ufs_inode_inquire_disk_location s n) = RcOk" using inode_location(1) [OF g] by simp
  show "\<not> ufs_inode_number_sanity s n"
    using max_inode_word [OF g] n by (simp add: ufs_inode_number_sanity_def Let_def word_le_nat_alt)
qed

lemma inode_sane:
  assumes g: "geom s"
  shows "ufs_inode_number_sanity s n \<longleftrightarrow> UFS_ROOT_INODE \<le> n \<and> inode_num s n \<and> unat n \<noteq> max_inode s"
  using max_inode_word [OF g]
  by (auto simp: ufs_inode_number_sanity_def inode_num_def Let_def word_le_nat_alt word_less_nat_alt UFS_ROOT_INODE_def)

end
