(* ===== verification/Blockmap.thy ===== *)
theory Blockmap
  imports Inode
begin

text \<open>
  From a position in a file to a block of the volume, and growing and shrinking files
  (\<^verbatim>\<open>src/ufsda*.c\<close>): 16 direct addresses, then one, two and three levels of index
  blocks. The inode is passed by value: every function returns it as it leaves it.
\<close>

section \<open>Position to address\<close>

text \<open>\<open>UFSADRM\<close>: the level and the indexes the code sets for it.\<close>

record adrm =
  am_level :: nat
  am_index :: "u32 list"

definition ufs_round :: "u32 \<Rightarrow> u32 \<Rightarrow> u32" where
  "ufs_round x a = (x + (a - 1)) AND NOT (a - 1)"

definition ufs_datablock_addr :: "'d vol \<Rightarrow> u32 \<Rightarrow> (rc \<times> adrm) option" where
  "ufs_datablock_addr s sz =
     (let blksize = ucast (v_blksize s) :: u32;
          blkshift = unat (sb_blksize_shift (v_sb s));
          nidx = blksize div 4;
          direct_sz = 16 * blksize;
          idx1_sz = nidx * blksize;
          idx2_sz = nidx * nidx * blksize in
      if sz = 0 then Some (RcOk, \<lparr>am_level = 0, am_index = [0]\<rparr>) else
      let sz = ufs_round sz blksize in
      if sz \<le> direct_sz
      then Some (RcOk, \<lparr>am_level = 0, am_index = [drop_bit blkshift sz - 1]\<rparr>) else
      let sz = sz - direct_sz in
      if sz \<le> idx1_sz
      then Some (RcOk, \<lparr>am_level = 1, am_index = [drop_bit blkshift sz - 1]\<rparr>) else
      let sz = sz - idx1_sz in
      if sz \<le> idx2_sz
      then if idx1_sz = 0 then None else
           let i0 = ufs_round sz idx1_sz div idx1_sz - 1
           in Some (RcOk, \<lparr>am_level = 2, am_index = [i0, drop_bit blkshift (sz - i0 * idx1_sz) - 1]\<rparr>)
      else
      let sz = sz - idx2_sz in
      if idx2_sz = 0 \<or> idx1_sz = 0 then None else
      let i0 = ufs_round sz idx2_sz div idx2_sz - 1;
          sz = sz - i0 * idx2_sz;
          i1 = ufs_round sz idx1_sz div idx1_sz - 1;
          sz = sz - i1 * idx1_sz;
          i2 = drop_bit blkshift sz - 1
      in Some (if i2 \<ge> nidx then RcErr ENOSPC else RcOk, \<lparr>am_level = 3, am_index = [i0, i1, i2]\<rparr>))"

section \<open>Index blocks\<close>

definition nth_opt :: "'a list \<Rightarrow> nat \<Rightarrow> 'a option" where
  "nth_opt xs n = (if n < length xs then Some (xs ! n) else None)"

definition word_at :: "block \<Rightarrow> nat \<Rightarrow> u32 option" where
  "word_at buf n = (if 4 * n + 4 \<le> length buf then Some (get32 buf (4 * n)) else None)"

text \<open>Block number 0 is the failure of these functions.\<close>

definition ufs_datablock_link :: "'d os \<Rightarrow> 'd vol \<Rightarrow> u32 \<Rightarrow> nat \<Rightarrow> (u32 \<times> 'd vol) option" where
  "ufs_datablock_link os s listblk n =
     (if \<not> ufs_datablock_number_sanity s listblk then Some (0, s) else
      let (buf, s) = ufs_disk_get_buf os s in
      case buf of
        None \<Rightarrow> Some (0, s)
      | Some buf \<Rightarrow>
          let (rc, buf, s) = ufs_vdisk_read os s buf listblk in
          if rc \<noteq> RcOk then Some (0, ufs_disk_free_buf os s buf) else
          do { blk \<leftarrow> word_at buf n;
               let s = ufs_disk_free_buf os s buf
               in Some (if ufs_datablock_number_sanity s blk then blk else 0, s) })"

definition ufs_datablock_unlink :: "'d os \<Rightarrow> 'd vol \<Rightarrow> u32 \<Rightarrow> nat \<Rightarrow> (u32 \<times> 'd vol) option" where
  "ufs_datablock_unlink os s idxblk n =
     (let (buf, s) = ufs_disk_get_buf os s in
      case buf of
        None \<Rightarrow> Some (0, s)
      | Some buf \<Rightarrow>
          let (rc, buf, s) = ufs_vdisk_read os s buf idxblk in
          if rc \<noteq> RcOk then Some (0, ufs_disk_free_buf os s buf) else
          do { blk \<leftarrow> word_at buf n;
               let buf = put32 (4 * n) 0 buf;
                   (rc, s) = ufs_vdisk_write os s buf idxblk
               in Some (if rc \<noteq> RcOk then 0 else blk, ufs_disk_free_buf os s buf) })"

text \<open>A leaf that cannot be entered in its index block stays allocated.\<close>

definition ufs_datablock_add_leaf :: "'d os \<Rightarrow> 'd vol \<Rightarrow> u32 \<Rightarrow> nat \<Rightarrow> (u32 \<times> 'd vol) option" where
  "ufs_datablock_add_leaf os s up idx =
     (if up = 0 then Some (0, s) else
      if \<not> ufs_datablock_number_sanity s up then Some (0, s) else
      do { (error, newblk, s) \<leftarrow> ufs_datablock_allocate os s;
           if error \<noteq> RcOk then Some (0, s) else
           let (buf, s) = ufs_disk_get_buf os s in
           case buf of
             None \<Rightarrow> Some (0, s)
           | Some buf \<Rightarrow>
               let (rc, buf, s) = ufs_vdisk_read os s buf up in
               if rc \<noteq> RcOk then Some (0, ufs_disk_free_buf os s buf) else
               do { _ \<leftarrow> word_at buf idx;
                    let buf = put32 (4 * idx) newblk buf;
                        (rc, s) = ufs_vdisk_write os s buf up
                    in Some (if rc \<noteq> RcOk then 0 else newblk, ufs_disk_free_buf os s buf) } })"

definition ufs_datablock_remove_leaf :: "'d os \<Rightarrow> 'd vol \<Rightarrow> u32 \<Rightarrow> nat \<Rightarrow> (u32 \<times> 'd vol) option" where
  "ufs_datablock_remove_leaf os s up n =
     (if \<not> ufs_datablock_number_sanity s up then Some (0, s) else
      do { (down, s) \<leftarrow> ufs_datablock_unlink os s up n;
           (rc, s) \<leftarrow> ufs_datablock_deallocate os s down;
           Some (down, s) })"

definition ufs_datablock_remove_self :: "'d os \<Rightarrow> 'd vol \<Rightarrow> u32 \<Rightarrow> (u32 \<times> 'd vol) option" where
  "ufs_datablock_remove_self os s up =
     (if \<not> ufs_datablock_number_sanity s up then Some (0, s) else
      do { (down, s) \<leftarrow> ufs_datablock_unlink os s up 0;
           (rc, s) \<leftarrow> ufs_datablock_deallocate os s up;
           Some (down, s) })"

definition idx :: "adrm \<Rightarrow> nat \<Rightarrow> nat option" where
  "idx mp n = map_option unat (nth_opt (am_index mp) n)"

definition ufs_datablock_last :: "'d os \<Rightarrow> 'd vol \<Rightarrow> minode \<Rightarrow> u32 \<Rightarrow> (u32 \<times> 'd vol) option" where
  "ufs_datablock_last os s minode offset =
     (let addr = di_addr (mi_dinode minode) in
      do { (rc, mp) \<leftarrow> ufs_datablock_addr s offset;
           if rc \<noteq> RcOk then Some (0, s) else
           if am_level mp = 0 then
             do { i \<leftarrow> idx mp 0; blk \<leftarrow> nth_opt addr i; Some (blk, s) }
           else if am_level mp = 1 then
             do { i \<leftarrow> idx mp 0; a \<leftarrow> nth_opt addr 16; ufs_datablock_link os s a i }
           else if am_level mp = 2 then
             do { i \<leftarrow> idx mp 0; j \<leftarrow> idx mp 1; a \<leftarrow> nth_opt addr 17;
                  (b, s) \<leftarrow> ufs_datablock_link os s a i;
                  ufs_datablock_link os s b j }
           else
             do { i \<leftarrow> idx mp 0; j \<leftarrow> idx mp 1; k \<leftarrow> idx mp 2; a \<leftarrow> nth_opt addr 18;
                  (b, s) \<leftarrow> ufs_datablock_link os s a i;
                  (c, s) \<leftarrow> ufs_datablock_link os s b j;
                  ufs_datablock_link os s c k } })"


section \<open>Growing a file\<close>

text \<open>
  \<open>expand_step\<close> is the body of the loop: the inode and the block number \<open>blk\<close> it leaves,
  \<open>None\<close> for a variable not assigned yet, or \<open>Inl\<close> the error with which the function
  returns at once.
\<close>

definition set_addr :: "nat \<Rightarrow> u32 \<Rightarrow> minode \<Rightarrow> minode option" where
  "set_addr i a m =
     (if i < length (di_addr (mi_dinode m))
      then Some (m\<lparr>mi_dinode := (mi_dinode m)\<lparr>di_addr := (di_addr (mi_dinode m))[i := a]\<rparr>\<rparr>)
      else None)"

definition get_addr :: "minode \<Rightarrow> nat \<Rightarrow> u32 option" where
  "get_addr m i = nth_opt (di_addr (mi_dinode m)) i"

definition expand_level :: "'d os \<Rightarrow> 'd vol \<Rightarrow> minode \<Rightarrow> u32 option \<Rightarrow> adrm \<Rightarrow> u32 \<Rightarrow>
    (minode \<times> u32 option \<times> 'd vol) option" where
  "expand_level os s m blk newmap idxblk =
     (if am_level newmap = 1 then
        do { m \<leftarrow> set_addr 16 idxblk m;
             (b, s) \<leftarrow> ufs_datablock_add_leaf os s idxblk 0;
             Some (m, Some b, s) }
      else if am_level newmap = 2 then
        do { m \<leftarrow> set_addr 17 idxblk m;
             (b, s) \<leftarrow> ufs_datablock_add_leaf os s idxblk 0;
             (b, s) \<leftarrow> ufs_datablock_add_leaf os s b 0;
             Some (m, Some b, s) }
      else if am_level newmap = 3 then
        do { m \<leftarrow> set_addr 18 idxblk m;
             (b, s) \<leftarrow> ufs_datablock_add_leaf os s idxblk 0;
             (b, s) \<leftarrow> ufs_datablock_add_leaf os s b 0;
             (b, s) \<leftarrow> ufs_datablock_add_leaf os s b 0;
             Some (m, Some b, s) }
      else Some (m, blk, s))"

definition expand_same :: "'d os \<Rightarrow> 'd vol \<Rightarrow> minode \<Rightarrow> adrm \<Rightarrow> adrm \<Rightarrow>
    (u32 \<times> 'd vol) option" where
  "expand_same os s m oldmap newmap =
     (if am_level newmap = 1 then
        do { a \<leftarrow> get_addr m 16; i \<leftarrow> idx newmap 0; ufs_datablock_add_leaf os s a i }
      else if am_level newmap = 2 then
        do { a \<leftarrow> get_addr m 17; i \<leftarrow> idx newmap 0; j \<leftarrow> idx newmap 1; oi \<leftarrow> idx oldmap 0;
             (_, s) \<leftarrow> (if oi \<noteq> i then ufs_datablock_add_leaf os s a i else Some (0, s));
             (b, s) \<leftarrow> ufs_datablock_link os s a i;
             ufs_datablock_add_leaf os s b j }
      else
        do { a \<leftarrow> get_addr m 18; i \<leftarrow> idx newmap 0; j \<leftarrow> idx newmap 1; k \<leftarrow> idx newmap 2;
             oi \<leftarrow> idx oldmap 0; oj \<leftarrow> idx oldmap 1;
             (_, s) \<leftarrow> (if oi \<noteq> i then ufs_datablock_add_leaf os s a i else Some (0, s));
             s \<leftarrow> (if oj \<noteq> j
                   then do { (b, s) \<leftarrow> ufs_datablock_link os s a i;
                             (_, s) \<leftarrow> ufs_datablock_add_leaf os s b j; Some s }
                   else Some s);
             (b, s) \<leftarrow> ufs_datablock_link os s a i;
             (b, s) \<leftarrow> ufs_datablock_link os s b j;
             ufs_datablock_add_leaf os s b k })"

definition expand_step :: "'d os \<Rightarrow> 'd vol \<Rightarrow> minode \<Rightarrow> u32 option \<Rightarrow> adrm \<Rightarrow> adrm \<Rightarrow>
    ((rc + u32 option) \<times> minode \<times> 'd vol) option" where
  "expand_step os s m blk oldmap newmap =
     (if am_level oldmap \<noteq> am_level newmap then
        do { (error, idxblk, s) \<leftarrow> ufs_datablock_allocate os s;
             if error \<noteq> RcOk then Some (Inl error, m, s) else
             do { (m, blk, s) \<leftarrow> expand_level os s m blk newmap idxblk;
                  Some (Inr blk, m, s) } }
      else if am_level newmap = 0 then
        do { (error, b, s) \<leftarrow> ufs_datablock_allocate os s;
             if error \<noteq> RcOk then Some (Inl error, m, s) else
             do { i \<leftarrow> idx newmap 0; m \<leftarrow> set_addr i b m; Some (Inr (Some b), m, s) } }
      else
        do { (b, s) \<leftarrow> expand_same os s m oldmap newmap; Some (Inr (Some b), m, s) })"


fun expand_loop :: "'d os \<Rightarrow> nat \<Rightarrow> 'd vol \<Rightarrow> u32 \<Rightarrow> u32 \<Rightarrow> adrm \<Rightarrow> u32 option \<Rightarrow> minode \<Rightarrow> minode \<Rightarrow>
    (rc \<times> minode \<times> 'd vol) option" where
  "expand_loop os 0 s old i oldmap blk backup m = Some (RcOk, m, s)"
| "expand_loop os (Suc n) s old i oldmap blk backup m =
     do { (_, newmap) \<leftarrow> ufs_datablock_addr s (old + (i + 1) * ucast (v_blksize s));
          (r, m, s) \<leftarrow> expand_step os s m blk oldmap newmap;
          case r of
            Inl error \<Rightarrow> Some (error, m, s)
          | Inr None \<Rightarrow> None
          | Inr (Some blk) \<Rightarrow>
              if blk = 0 then Some (RcErr ENOSPC, backup, s)
              else expand_loop os n s old (i + 1) newmap (Some blk) backup m }"

definition set_size :: "u32 \<Rightarrow> minode \<Rightarrow> minode" where
  "set_size n m = m\<lparr>mi_dinode := (mi_dinode m)\<lparr>di_filesize := n\<rparr>\<rparr>"

definition nblk :: "'d vol \<Rightarrow> u32 \<Rightarrow> u32" where
  "nblk s sz = drop_bit (unat (sb_blksize_shift (v_sb s))) (ufs_round sz (ucast (v_blksize s)))"

text \<open>The result of the write back is not looked at.\<close>

definition ufs_datablock_expand :: "'d os \<Rightarrow> 'd vol \<Rightarrow> minode \<Rightarrow> u32 \<Rightarrow> (rc \<times> minode \<times> 'd vol) option" where
  "ufs_datablock_expand os s m sz =
     (let old = di_filesize (mi_dinode m);
          new = old + sz in
      if nblk s old = nblk s new then
        do { (_, m, s) \<leftarrow> ufs_inode_writeback os s (set_size new m); Some (RcOk, m, s) }
      else
        do { (_, oldmap) \<leftarrow> ufs_datablock_addr s old;
             (rc, m, s) \<leftarrow> expand_loop os (unat (nblk s new - nblk s old)) s old 0 oldmap None m m;
             if rc \<noteq> RcOk then Some (rc, m, s) else
             do { (_, m, s) \<leftarrow> ufs_inode_writeback os s (set_size (di_filesize (mi_dinode m) + sz) m);
                  Some (RcOk, m, s) } })"

section \<open>Shrinking a file\<close>

text \<open>
  Only the deallocations of the level 0 and level change cases reach the return code; the freed
  direct addresses stay in the inode.
\<close>

definition contract_level :: "'d os \<Rightarrow> 'd vol \<Rightarrow> minode \<Rightarrow> adrm \<Rightarrow> rc \<Rightarrow> (rc \<times> minode \<times> 'd vol) option" where
  "contract_level os s m newmap error =
     (if am_level newmap = 0 then
        do { a \<leftarrow> get_addr m 16; m \<leftarrow> set_addr 16 0 m;
             (d, s) \<leftarrow> ufs_datablock_remove_self os s a;
             (error, s) \<leftarrow> ufs_datablock_deallocate os s d;
             Some (error, m, s) }
      else if am_level newmap = 1 then
        do { a \<leftarrow> get_addr m 17; m \<leftarrow> set_addr 17 0 m;
             (d, s) \<leftarrow> ufs_datablock_remove_self os s a;
             (d, s) \<leftarrow> ufs_datablock_remove_self os s d;
             (error, s) \<leftarrow> ufs_datablock_deallocate os s d;
             Some (error, m, s) }
      else if am_level newmap = 2 then
        do { a \<leftarrow> get_addr m 18; m \<leftarrow> set_addr 18 0 m;
             (d, s) \<leftarrow> ufs_datablock_remove_self os s a;
             (d, s) \<leftarrow> ufs_datablock_remove_self os s d;
             (d, s) \<leftarrow> ufs_datablock_remove_self os s d;
             (error, s) \<leftarrow> ufs_datablock_deallocate os s d;
             Some (error, m, s) }
      else Some (error, m, s))"

definition contract_same :: "'d os \<Rightarrow> 'd vol \<Rightarrow> minode \<Rightarrow> adrm \<Rightarrow> adrm \<Rightarrow> rc \<Rightarrow> (rc \<times> 'd vol) option" where
  "contract_same os s m oldmap newmap error =
     (if am_level newmap = 0 then
        do { i \<leftarrow> idx oldmap 0; a \<leftarrow> get_addr m i; ufs_datablock_deallocate os s a }
      else if am_level newmap = 1 then
        do { a \<leftarrow> get_addr m 16; i \<leftarrow> idx oldmap 0;
             (_, s) \<leftarrow> ufs_datablock_remove_leaf os s a i;
             Some (error, s) }
      else if am_level newmap = 2 then
        do { a \<leftarrow> get_addr m 17; i \<leftarrow> idx oldmap 0; j \<leftarrow> idx oldmap 1; ni \<leftarrow> idx newmap 0;
             (b, s) \<leftarrow> ufs_datablock_link os s a i;
             (_, s) \<leftarrow> ufs_datablock_remove_leaf os s b j;
             (_, s) \<leftarrow> (if i \<noteq> ni then ufs_datablock_remove_leaf os s a i else Some (0, s));
             Some (error, s) }
      else
        do { a \<leftarrow> get_addr m 18; i \<leftarrow> idx oldmap 0; j \<leftarrow> idx oldmap 1; k \<leftarrow> idx oldmap 2;
             ni \<leftarrow> idx newmap 0; nj \<leftarrow> idx newmap 1;
             (b, s) \<leftarrow> ufs_datablock_link os s a i;
             (b, s) \<leftarrow> ufs_datablock_link os s b j;
             (_, s) \<leftarrow> ufs_datablock_remove_leaf os s b k;
             s \<leftarrow> (if j \<noteq> nj
                   then do { (b, s) \<leftarrow> ufs_datablock_link os s a i;
                             (_, s) \<leftarrow> ufs_datablock_remove_leaf os s b j; Some s }
                   else Some s);
             (_, s) \<leftarrow> (if i \<noteq> ni then ufs_datablock_remove_leaf os s a i else Some (0, s));
             Some (error, s) })"

fun contract_loop :: "'d os \<Rightarrow> nat \<Rightarrow> 'd vol \<Rightarrow> u32 \<Rightarrow> u32 \<Rightarrow> adrm \<Rightarrow> rc \<Rightarrow> minode \<Rightarrow>
    (rc \<times> minode \<times> 'd vol) option" where
  "contract_loop os 0 s old i oldmap error m = Some (error, m, s)"
| "contract_loop os (Suc n) s old i oldmap error m =
     do { (_, newmap) \<leftarrow> ufs_datablock_addr s (old - (i + 1) * ucast (v_blksize s));
          (error, m, s) \<leftarrow>
            (if am_level oldmap \<noteq> am_level newmap then contract_level os s m newmap error
             else do { (error, s) \<leftarrow> contract_same os s m oldmap newmap error; Some (error, m, s) });
          contract_loop os n s old (i + 1) newmap error m }"

definition ufs_datablock_contract :: "'d os \<Rightarrow> 'd vol \<Rightarrow> minode \<Rightarrow> u32 \<Rightarrow> (rc \<times> minode \<times> 'd vol) option" where
  "ufs_datablock_contract os s m sz =
     (let old = di_filesize (mi_dinode m);
          new = old - sz in
      if nblk s old = nblk s new then
        do { (_, m, s) \<leftarrow> ufs_inode_writeback os s (set_size new m); Some (RcOk, m, s) }
      else
        do { (_, oldmap) \<leftarrow> ufs_datablock_addr s old;
             (error, m, s) \<leftarrow> contract_loop os (unat (nblk s old - nblk s new)) s old 0 oldmap RcOk m;
             (_, m, s) \<leftarrow> ufs_inode_writeback os s (set_size (di_filesize (mi_dinode m) - sz) m);
             Some (error, m, s) })"

text \<open>The difference is taken as a signed 32-bit number.\<close>

definition ufs_datablock_size_change :: "'d os \<Rightarrow> 'd vol \<Rightarrow> u32 \<Rightarrow> minode \<Rightarrow> (rc \<times> minode \<times> 'd vol) option" where
  "ufs_datablock_size_change os s newsz m =
     (let diff = newsz - di_filesize (mi_dinode m) in
      if sint diff > 0 then ufs_datablock_expand os s m diff
      else if sint diff < 0 then ufs_datablock_contract os s m (- diff)
      else Some (RcOk, m, s))"

section \<open>Iteration over the data blocks\<close>

text \<open>
  The callback is called with each data block and the bytes of the file in it, on a context the
  caller owns; \<open>fs\<close> is the rest of the file, counted down block by block.
\<close>

type_synonym ('d, 'c) blkfun = "'d vol \<Rightarrow> 'c \<Rightarrow> u32 \<Rightarrow> u32 \<Rightarrow> (rc \<times> 'c \<times> 'd vol) option"

definition visit :: "('d, 'c) blkfun \<Rightarrow> 'd vol \<Rightarrow> u32 \<Rightarrow> u32 \<Rightarrow> 'c \<Rightarrow> (rc \<times> u32 \<times> 'c \<times> 'd vol) option" where
  "visit func s blk fs ctx =
     (let bs = ucast (v_blksize s);
          last = fs \<le> bs in
      do { (ret, ctx, s) \<leftarrow> func s ctx blk (if last then fs else bs);
           if ret \<noteq> RcOk then Some (ret, fs, ctx, s)
           else if last then Some (RcIter ITER_END, fs, ctx, s)
           else Some (RcOk, fs - ucast (v_blksize s), ctx, s) })"

fun loop1_from :: "'d os \<Rightarrow> ('d, 'c) blkfun \<Rightarrow> nat \<Rightarrow> 'd vol \<Rightarrow> u32 \<Rightarrow> nat \<Rightarrow> u32 \<Rightarrow> 'c \<Rightarrow>
    (rc \<times> u32 \<times> 'c \<times> 'd vol) option" where
  "loop1_from os func 0 s listblk k fs ctx = Some (RcOk, fs, ctx, s)"
| "loop1_from os func (Suc n) s listblk k fs ctx =
     do { (blk, s) \<leftarrow> ufs_datablock_link os s listblk k;
          if \<not> ufs_datablock_number_sanity s blk then Some (RcErr EIO, fs, ctx, s) else
          do { (ret, fs, ctx, s) \<leftarrow> visit func s blk fs ctx;
               if ret \<noteq> RcOk then Some (ret, fs, ctx, s)
               else loop1_from os func n s listblk (Suc k) fs ctx } }"

definition per_block :: "'d vol \<Rightarrow> nat" where
  "per_block s = unat (v_blksize s) div 4"

definition ufs_datablock_loop1 :: "'d os \<Rightarrow> ('d, 'c) blkfun \<Rightarrow> 'd vol \<Rightarrow> u32 \<Rightarrow> u32 \<Rightarrow> 'c \<Rightarrow>
    (rc \<times> u32 \<times> 'c \<times> 'd vol) option" where
  "ufs_datablock_loop1 os func s listblk fs ctx = loop1_from os func (per_block s) s listblk 0 fs ctx"

fun loop2_from :: "'d os \<Rightarrow> ('d, 'c) blkfun \<Rightarrow> nat \<Rightarrow> 'd vol \<Rightarrow> u32 \<Rightarrow> nat \<Rightarrow> u32 \<Rightarrow> 'c \<Rightarrow>
    (rc \<times> u32 \<times> 'c \<times> 'd vol) option" where
  "loop2_from os func 0 s listblk j fs ctx = Some (RcOk, fs, ctx, s)"
| "loop2_from os func (Suc n) s listblk j fs ctx =
     do { (blk, s) \<leftarrow> ufs_datablock_link os s listblk j;
          if \<not> ufs_datablock_number_sanity s blk then Some (RcErr EIO, fs, ctx, s) else
          do { (ret, fs, ctx, s) \<leftarrow> ufs_datablock_loop1 os func s blk fs ctx;
               if ret \<noteq> RcOk then Some (ret, fs, ctx, s)
               else loop2_from os func n s listblk (Suc j) fs ctx } }"

definition ufs_datablock_loop2 :: "'d os \<Rightarrow> ('d, 'c) blkfun \<Rightarrow> 'd vol \<Rightarrow> u32 \<Rightarrow> u32 \<Rightarrow> 'c \<Rightarrow>
    (rc \<times> u32 \<times> 'c \<times> 'd vol) option" where
  "ufs_datablock_loop2 os func s listblk fs ctx = loop2_from os func (per_block s) s listblk 0 fs ctx"

fun loop3_from :: "'d os \<Rightarrow> ('d, 'c) blkfun \<Rightarrow> nat \<Rightarrow> 'd vol \<Rightarrow> u32 \<Rightarrow> nat \<Rightarrow> u32 \<Rightarrow> 'c \<Rightarrow>
    (rc \<times> u32 \<times> 'c \<times> 'd vol) option" where
  "loop3_from os func 0 s listblk i fs ctx = Some (RcOk, fs, ctx, s)"
| "loop3_from os func (Suc n) s listblk i fs ctx =
     do { (blk, s) \<leftarrow> ufs_datablock_link os s listblk i;
          if \<not> ufs_datablock_number_sanity s blk then Some (RcErr EIO, fs, ctx, s) else
          do { (ret, fs, ctx, s) \<leftarrow> ufs_datablock_loop2 os func s blk fs ctx;
               if ret \<noteq> RcOk then Some (ret, fs, ctx, s)
               else loop3_from os func n s listblk (Suc i) fs ctx } }"

fun direct_from :: "('d, 'c) blkfun \<Rightarrow> nat \<Rightarrow> 'd vol \<Rightarrow> minode \<Rightarrow> nat \<Rightarrow> u32 \<Rightarrow> 'c \<Rightarrow>
    (rc \<times> u32 \<times> 'c \<times> 'd vol) option" where
  "direct_from func 0 s m i fs ctx = Some (RcOk, fs, ctx, s)"
| "direct_from func (Suc n) s m i fs ctx =
     do { blk \<leftarrow> get_addr m i;
          if \<not> ufs_datablock_number_sanity s blk then Some (RcErr EIO, fs, ctx, s) else
          do { (ret, fs, ctx, s) \<leftarrow> visit func s blk fs ctx;
               if ret \<noteq> RcOk then Some (ret, fs, ctx, s)
               else direct_from func n s m (Suc i) fs ctx } }"

definition ufs_datablock_foreach :: "'d os \<Rightarrow> ('d, 'c) blkfun \<Rightarrow> 'd vol \<Rightarrow> minode \<Rightarrow> 'c \<Rightarrow>
    (rc \<times> 'c \<times> 'd vol) option" where
  "ufs_datablock_foreach os func s m ctx =
     (let fs = di_filesize (mi_dinode m);
          ret4 = (\<lambda>rc ctx s. Some (rc, ctx, s)) in
      if fs = 0 then Some (RcIter ITER_END, ctx, s) else
      do { (ret, fs, ctx, s) \<leftarrow> direct_from func 16 s m 0 fs ctx;
           if ret \<noteq> RcOk then ret4 ret ctx s else
           do { blk \<leftarrow> get_addr m 16;
                if \<not> ufs_datablock_number_sanity s blk then ret4 (RcErr EIO) ctx s else
                do { (ret, fs, ctx, s) \<leftarrow> ufs_datablock_loop1 os func s blk fs ctx;
                     if ret \<noteq> RcOk then ret4 ret ctx s else
                     do { blk \<leftarrow> get_addr m 17;
                          if \<not> ufs_datablock_number_sanity s blk then ret4 (RcErr EIO) ctx s else
                          do { (ret, fs, ctx, s) \<leftarrow> ufs_datablock_loop2 os func s blk fs ctx;
                               if ret \<noteq> RcOk then ret4 ret ctx s else
                               do { blk \<leftarrow> get_addr m 18;
                                    if \<not> ufs_datablock_number_sanity s blk then ret4 (RcErr EIO) ctx s else
                                    do { (ret, fs, ctx, s) \<leftarrow> loop3_from os func (per_block s) s blk 0 fs ctx;
                                         if ret \<noteq> RcOk then ret4 ret ctx s
                                         else ret4 (RcErr EFBIG) ctx s } } } } } } })"

section \<open>The address arithmetic\<close>

text \<open>
  The path to logical block \<open>i\<close> of a file: an entry of the address array and the indexes to follow
  from it, with \<open>n\<close> addresses per index block.
\<close>

definition fpath :: "nat \<Rightarrow> nat \<Rightarrow> nat \<times> nat list" where
  "fpath n i =
     (if i < 16 then (i, [])
      else if i - 16 < n then (16, [i - 16])
      else let j = i - 16 - n in
      if j < n * n then (17, [j div n, j mod n])
      else let j = j - n * n in (18, [j div (n * n), j div n mod n, j mod n]))"

definition adrm_of :: "nat \<times> nat list \<Rightarrow> adrm" where
  "adrm_of p = (case p of (r, ks) \<Rightarrow>
     \<lparr>am_level = length ks, am_index = map of_nat (if ks = [] then [r] else ks)\<rparr>)"

lemma and_not_mask_eq: "(x :: u32) AND NOT (2 ^ k - 1) = push_bit k (drop_bit k x)"
  by (rule bit_word_eqI) (auto simp: bit_simps mask_eq_exp_minus_1 [symmetric] simp flip: mask_eq_exp_minus_1)

lemma pred_div: "0 < (x :: nat) \<Longrightarrow> 0 < a \<Longrightarrow> (x + a - 1) div a = (x - 1) div a + 1"
proof -
  assume "0 < x" "0 < a"
  then have eq: "x + a - 1 = (x - 1) + a" by simp
  show ?thesis unfolding eq by (rule div_add_self2) (use \<open>0 < a\<close> in simp)
qed

lemma unat_exp32: "k < 32 \<Longrightarrow> unat (2 ^ k :: u32) = 2 ^ k"
proof -
  assume "k < 32"
  then have "(2 :: nat) ^ k < 2 ^ 32" by (intro power_strict_increasing) auto
  from unat_of_nat32 [OF this] show ?thesis by simp
qed

lemma unat_drop_bit32: "unat (drop_bit k (y :: u32)) = unat y div 2 ^ k"
  unfolding unat_drop_bit_eq by (rule drop_bit_eq_div)

lemma unat_drop_push:
  assumes "k < 32" shows "unat (push_bit k (drop_bit k (y :: u32))) = unat y div 2 ^ k * 2 ^ k"
proof -
  note d = unat_drop_bit32 [of k y]
  have "unat y div 2 ^ k * 2 ^ k \<le> unat y" by simp
  then have "unat y div 2 ^ k * 2 ^ k < 2 ^ 32" using unat_lt32 [of y] by (rule le_less_trans)
  then show ?thesis using unat_mult32 [of "drop_bit k y" "2 ^ k"] d unat_exp32 [OF assms]
    by (simp add: push_bit_eq_mult)
qed

lemma unat_round:
  assumes "a = 2 ^ k" "k < 32" "0 < unat x" "unat x + 2 ^ k \<le> 2 ^ 32"
  shows "unat (ufs_round x a) = ((unat x - 1) div 2 ^ k + 1) * 2 ^ k"
proof -
  have "a \<noteq> 0" using assms(1) unat_exp32 [OF assms(2)] by (metis unat_0 power_eq_0_iff zero_neq_numeral)
  then have a: "unat (a - 1) = 2 ^ k - 1" 
    using unat_minus_one [OF \<open>a \<noteq> 0\<close>] unat_exp32 [OF assms(2)] by (simp add: assms(1))
  have pos: "(0 :: nat) < 2 ^ k" by simp
  have "unat x + unat (a - 1) < 2 ^ 32" using a assms(3,4) pos by linarith
  then have "unat (x + (a - 1)) = unat x + 2 ^ k - 1" using a pos by (simp add: unat_word_ariths)
  moreover have "ufs_round x a = push_bit k (drop_bit k (x + (a - 1)))"
    by (simp add: ufs_round_def assms(1) and_not_mask_eq)
  ultimately show ?thesis using unat_drop_push [OF assms(2), of "x + (a - 1)"] pred_div [OF assms(3) pos] by simp
qed

lemma unat_round_index:
  assumes "a = 2 ^ k" "k < 32" "0 < unat x" "unat x + 2 ^ k \<le> 2 ^ 32"
  shows "unat (ufs_round x a div a - 1) = (unat x - 1) div 2 ^ k"
proof -
  have "unat (ufs_round x a div a) = (unat x - 1) div 2 ^ k + 1"
    using unat_round [OF assms] unat_exp32 [OF assms(2)] assms(1) by (simp add: unat_div)
  then show ?thesis using unat_minus_one [of "ufs_round x a div a"] by (cases "ufs_round x a div a = 0") auto
qed

lemma unat_shift_index:
  assumes "unat (x :: u32) = q * 2 ^ k" "0 < q"
  shows "unat (drop_bit k x - 1) = q - 1"
proof -
  have "unat (drop_bit k x) = q" unfolding unat_drop_bit32 using assms by simp
  then show ?thesis using assms(2) unat_minus_one [of "drop_bit k x"] by (cases "drop_bit k x = 0") auto
qed

lemma mult_pred_div: "0 < (q :: nat) \<Longrightarrow> 0 < b \<Longrightarrow> (q * b - 1) div (b * n) = (q - 1) div n"
proof -
  assume "0 < q" "0 < b"
  obtain m where m: "q = Suc m" using \<open>0 < q\<close> by (cases q) auto
  have "(q * b - 1) div b = q - 1" using \<open>0 < b\<close> by (intro div_nat_eqI) (auto simp: m algebra_simps)
  then show ?thesis by (simp add: div_mult2_eq)
qed

text \<open>One step of the index arithmetic: the quotient by \<open>2 ^ m = 2 ^ k * n\<close>, and what is left.\<close>

lemma index_step:
  assumes x: "unat x = (q + 1) * 2 ^ k" and d: "d = 2 ^ m" "m < 32" "2 ^ m = 2 ^ k * (n :: nat)" "0 < n"
    and lim: "(q + 1) * 2 ^ k + 2 ^ m \<le> 2 ^ 32"
  shows "unat (ufs_round x d div d - 1) = q div n"
    and "unat (x - (ufs_round x d div d - 1) * d) = (q mod n + 1) * 2 ^ k"
proof -
  let ?i = "ufs_round x d div d - 1"
  have "unat x + 2 ^ m \<le> 2 ^ 32" "0 < unat x" using x lim by simp_all
  then have "unat ?i = (unat x - 1) div 2 ^ m" using unat_round_index [OF d(1,2)] by simp
  also have "\<dots> = q div n" using mult_pred_div [of "q + 1" "2 ^ k" n] by (simp add: x d(3))
  finally show i: "unat ?i = q div n" .
  have du: "unat d = 2 ^ k * n" using unat_exp32 [OF d(2)] d(1,3) by simp
  have le: "q div n * (2 ^ k * n) \<le> q * 2 ^ k" by (simp add: mult.commute mult.left_commute)
  have qx: "q * 2 ^ k \<le> unat x" by (simp add: x)
  then have "unat ?i * unat d < 2 ^ 32" using i du le_less_trans [OF le_trans [OF le] unat_lt32] by simp
  then have id: "unat (?i * d) = q div n * (2 ^ k * n)" using unat_mult32 i du by simp
  then have "?i * d \<le> x" using le_trans [OF le qx] by (simp add: word_le_nat_alt)
  then have "unat (x - ?i * d) = (q + 1) * 2 ^ k - q div n * (2 ^ k * n)" using id x by (simp add: unat_sub)
  also have "\<dots> = (q + 1 - q div n * n) * 2 ^ k" by (simp add: diff_mult_distrib algebra_simps)
  also have "q + 1 - q div n * n = q mod n + 1"
    using Suc_diff_le [of "q div n * n" q] by (simp add: minus_div_mult_eq_mod)
  finally show "unat (x - ?i * d) = (q mod n + 1) * 2 ^ k" .
qed

lemma word_index: "unat i = j \<Longrightarrow> i = of_nat j"
  by auto

lemma addr_path:
  assumes g: "geom s" and sh: "unat (sb_blksize_shift (v_sb s)) \<le> 11"
    and sz: "0 < unat sz" "unat sz \<le> 2 ^ 31"
  shows "ufs_datablock_addr s sz =
    Some (RcOk, adrm_of (fpath (per_block s) ((unat sz - 1) div unat (v_blksize s))))"
proof -
  define k where "k = unat (sb_blksize_shift (v_sb s))"
  have k: "9 \<le> k" "k \<le> 11" "unat (v_blksize s) = 2 ^ k" using g sh by (auto simp: geom_def k_def)
  define n where "n = per_block s"
  define bs where "bs = (ucast (v_blksize s) :: u32)"
  have bs: "unat bs = 2 ^ k" using k(3) by (simp add: bs_def)
  have n: "n = 2 ^ (k - 2)" using k by (simp add: n_def per_block_def power_diff)
  have bs': "bs = 2 ^ k" using bs unat_exp32 [of k] k by (simp add: word_unat_eq_iff)
  have nw: "unat (bs div 4) = n" using bs n k by (simp add: unat_div power_diff)
  have nn: "n * 2 ^ k = 2 ^ (2 * k - 2)" "n * n * 2 ^ k = 2 ^ (3 * k - 4)"
    using k by (simp_all add: n power_add [symmetric])
  have le: "(2 :: nat) ^ k \<le> 2 ^ 11" "(2 :: nat) ^ (2 * k - 2) \<le> 2 ^ 20" "(2 :: nat) ^ (3 * k - 4) \<le> 2 ^ 29"
    using k by (intro power_increasing; simp)+
  have n0: "0 < n" by (simp add: n)
  define d1 where "d1 = bs div 4 * bs"
  define d2 where "d2 = bs div 4 * (bs div 4) * bs"
  have d1: "unat d1 = n * 2 ^ k" using nw bs nn le unat_mult32 [of "bs div 4" bs] by (simp add: d1_def)
  have "n * n \<le> n * n * 2 ^ k" by simp
  then have nnlt: "n * n < 2 ^ 32" using nn(2) le(3) by simp
  have "unat (bs div 4 * (bs div 4)) = n * n" using nw nnlt unat_mult32 [of "bs div 4" "bs div 4"] by simp
  then have d2: "unat d2 = n * n * 2 ^ k"
    using bs nn(2) le(3) unat_mult32 [of "bs div 4 * (bs div 4)" bs] by (simp add: d2_def)
  have d1w: "d1 = 2 ^ (2 * k - 2)" using d1 nn(1) unat_exp32 [of "2 * k - 2"] k by (simp add: word_unat_eq_iff)
  have d2w: "d2 = 2 ^ (3 * k - 4)" using d2 nn(2) unat_exp32 [of "3 * k - 4"] k by (simp add: word_unat_eq_iff)
  have dir: "unat (16 * bs) = 16 * 2 ^ k" using unat_mult32 [of 16 bs] bs le(1) by simp
  define i where "i = (unat sz - 1) div 2 ^ k"
  define x0 where "x0 = ufs_round sz bs"
  have x0: "unat x0 = (i + 1) * 2 ^ k"
    using unat_round [OF bs' _ sz(1)] k sz(2) le(1) by (simp add: x0_def i_def)
  have sz0: "sz \<noteq> 0" using sz(1) by auto
  have "(i + 1) * 2 ^ k \<le> unat sz - 1 + 2 ^ k" by (simp add: i_def)
  then have ib: "(i + 1) * 2 ^ k \<le> 2 ^ 31 + 2 ^ 11" using sz le(1) by linarith
  let ?map = "adrm_of (fpath n i)"
  have goal: "ufs_datablock_addr s sz = Some (RcOk, ?map)"
  proof (cases "i < 16")
    case True
    then have "x0 \<le> 16 * bs" using x0 dir by (simp add: word_le_nat_alt)
    moreover have "drop_bit k x0 - 1 = of_nat i" using unat_shift_index [OF x0] by (intro word_index) simp
    ultimately show ?thesis
      using True sz0 unfolding ufs_datablock_addr_def Let_def bs_def [symmetric] k_def [symmetric] x0_def [symmetric]
      by (simp add: fpath_def adrm_of_def)
  next
    case False
    define j where "j = i - 16"
    have j: "i = 16 + j" using False by (simp add: j_def)
    have gt: "\<not> x0 \<le> 16 * bs" using x0 dir j by (simp add: word_le_nat_alt)
    define x1 where "x1 = x0 - 16 * bs"
    have x1: "unat x1 = (j + 1) * 2 ^ k"
      using gt x0 dir j by (simp add: x1_def unat_sub algebra_simps)
    show ?thesis
    proof (cases "j < n")
      case True
      then have "(j + 1) * 2 ^ k \<le> n * 2 ^ k" by (intro mult_le_mono1) simp
      then have "x1 \<le> d1" using x1 d1 by (simp add: word_le_nat_alt)
      moreover have "drop_bit k x1 - 1 = of_nat j" using unat_shift_index [OF x1] by (intro word_index) simp
      ultimately show ?thesis
        using True False j sz0 gt
        unfolding ufs_datablock_addr_def Let_def bs_def [symmetric] k_def [symmetric] x0_def [symmetric]
          d1_def [symmetric] x1_def [symmetric]
        by (simp add: fpath_def adrm_of_def)
    next
      case f1: False
      define q where "q = j - n"
      have q: "j = n + q" using f1 by (simp add: q_def)
      have gt1: "\<not> x1 \<le> d1" using x1 d1 q n0 by (simp add: word_le_nat_alt algebra_simps)
      define x2 where "x2 = x1 - d1"
      have x2: "unat x2 = (q + 1) * 2 ^ k" using gt1 x1 d1 q by (simp add: x2_def unat_sub algebra_simps)
      have p1: "2 ^ (2 * k - 2) = 2 ^ k * n" and p2: "2 ^ (3 * k - 4) = 2 ^ k * (n * n)"
        using nn by (simp_all add: mult.commute)
      have d1n: "d1 \<noteq> 0" using d1 n0 by auto
      have "(q + 1) * 2 ^ k \<le> (i + 1) * 2 ^ k" using j q by (intro mult_le_mono1) simp
      then have qb: "(q + 1) * 2 ^ k \<le> 2 ^ 31 + 2 ^ 11" using ib by linarith
      have room: "a + b \<le> 2 ^ 32" if "a \<le> 2 ^ 31 + 2 ^ 11" "b \<le> 2 ^ 29" for a b :: nat
        using add_mono [OF that] by simp
      have le20: "(2 :: nat) ^ (2 * k - 2) \<le> 2 ^ 29" using le(2) by simp
      show ?thesis
      proof (cases "q < n * n")
        case True
        then have "(q + 1) * 2 ^ k \<le> n * n * 2 ^ k" by (intro mult_le_mono1) simp
        then have le2: "x2 \<le> d2" using x2 d2 by (simp add: word_le_nat_alt)
        have lim: "(q + 1) * 2 ^ k + 2 ^ (2 * k - 2) \<le> 2 ^ 32" using qb le20 by (rule room)
        note st = index_step [OF x2 d1w _ p1 n0 lim]
        have "ufs_round x2 d1 div d1 - 1 = of_nat (q div n)" using st(1) k by (intro word_index) simp
        moreover have "drop_bit k (x2 - (ufs_round x2 d1 div d1 - 1) * d1) - 1 = of_nat (q mod n)"
          using unat_shift_index [OF st(2)] k by (intro word_index) simp
        ultimately show ?thesis
          using True f1 False j q sz0 gt gt1 le2 d1n
          unfolding ufs_datablock_addr_def Let_def bs_def [symmetric] k_def [symmetric] x0_def [symmetric]
            d1_def [symmetric] d2_def [symmetric] x1_def [symmetric] x2_def [symmetric]
          by (simp add: fpath_def adrm_of_def Let_def)
      next
        case f2: False
        define t where "t = q - n * n"
        have t: "q = n * n + t" using f2 by (simp add: t_def)
        have gt2: "\<not> x2 \<le> d2" using x2 d2 t by (simp add: word_le_nat_alt algebra_simps)
        define x3 where "x3 = x2 - d2"
        have x3: "unat x3 = (t + 1) * 2 ^ k" using gt2 x2 d2 t by (simp add: x3_def unat_sub algebra_simps)
        have d2n: "d2 \<noteq> 0" using d2 n0 by auto
        have "(t + 1) * 2 ^ k \<le> (q + 1) * 2 ^ k" using t by (intro mult_le_mono1) simp
        then have tb: "(t + 1) * 2 ^ k \<le> 2 ^ 31 + 2 ^ 11" using qb by linarith
        have lim: "(t + 1) * 2 ^ k + 2 ^ (3 * k - 4) \<le> 2 ^ 32" using tb le(3) by (rule room)
        have nn0: "0 < n * n" using n0 by simp
        define i0 where "i0 = ufs_round x3 d2 div d2 - 1"
        define x4 where "x4 = x3 - i0 * d2"
        have i0: "unat i0 = t div (n * n)" and x4: "unat x4 = (t mod (n * n) + 1) * 2 ^ k"
          using index_step [OF x3 d2w _ p2 nn0 lim] k by (simp_all add: i0_def x4_def)
        define r where "r = t mod (n * n)"
        have "(r + 1) * 2 ^ k \<le> (t + 1) * 2 ^ k" by (intro mult_le_mono1) (simp add: r_def)
        from le_trans [OF this tb] have lim1: "(r + 1) * 2 ^ k + 2 ^ (2 * k - 2) \<le> 2 ^ 32" using le20 by (rule room)
        define i1 where "i1 = ufs_round x4 d1 div d1 - 1"
        define x5 where "x5 = x4 - i1 * d1"
        have i1: "unat i1 = r div n" and x5: "unat x5 = (r mod n + 1) * 2 ^ k"
          using index_step [OF x4 [folded r_def] d1w _ p1 n0 lim1] k by (simp_all add: i1_def x5_def)
        have r: "r div n = t div n mod n" "r mod n = t mod n"
          using n0 by (simp_all add: r_def mod_mult2_eq)
        define i2 where "i2 = drop_bit k x5 - 1"
        have i2: "unat i2 = t mod n" using unat_shift_index [OF x5] r by (simp add: i2_def)
        have "\<not> bs div 4 \<le> i2" using i2 nw mod_less_divisor [OF n0, of t] by (simp add: word_le_nat_alt)
        moreover have "i0 = of_nat (t div (n * n))" "i1 = of_nat (t div n mod n)" "i2 = of_nat (t mod n)"
          using i0 i1 i2 r by (intro word_index; simp)+
        ultimately show ?thesis
          using f2 f1 False j q t sz0 gt gt1 gt2 d1n d2n
          unfolding ufs_datablock_addr_def Let_def bs_def [symmetric] k_def [symmetric] x0_def [symmetric]
            d1_def [symmetric] d2_def [symmetric] x1_def [symmetric] x2_def [symmetric] x3_def [symmetric]
            i0_def [symmetric] x4_def [symmetric] i1_def [symmetric] x5_def [symmetric] i2_def [symmetric]
          by (simp add: fpath_def adrm_of_def Let_def)
      qed
    qed
  qed
  then show ?thesis by (simp add: n_def i_def k(3))
qed

text \<open>
  With blocks of 4096 bytes, the size \<^verbatim>\<open>disk.h\<close> calls the expected one, the size of the
  double index area is $2^{32}$, which is 0 in 32 bits: beyond the single index area the code takes
  the third level and divides by zero.
\<close>

lemma addr_4096:
  assumes "v_blksize s = 4096" "sb_blksize_shift (v_sb s) = 12"
    and "4259840 < unat sz" "unat sz \<le> 2 ^ 31"
  shows "ufs_datablock_addr s sz = None"
proof -
  have bs: "(ucast (v_blksize s) :: u32) = 4096" using assms(1) by simp
  define x where "x = ufs_round sz 4096"
  define d where "d = (unat sz - 1) div 4096"
  have "unat x = (d + 1) * 4096" using unat_round [of 4096 12 sz] assms(3,4) by (simp add: x_def d_def)
  moreover have "1040 \<le> d" using assms(3) by (simp add: d_def)
  ultimately have "unat x > 4259840" by simp
  then have x: "4259840 < x" by (simp add: word_less_nat_alt)
  then have a: "\<not> x \<le> 65536" by (simp add: word_less_nat_alt word_le_nat_alt)
  have b: "unat (x - 65536) = unat x - 65536"
    using a by (simp add: unat_sub word_le_nat_alt)
  then have c: "\<not> x - 65536 \<le> 4194304" using \<open>unat x > 4259840\<close> by (simp add: word_le_nat_alt)
  have "unat (x - 65536 - 4194304) = unat x - 4259840"
    using b c by (simp add: unat_sub word_le_nat_alt)
  then have "unat (x - 65536 - 4194304) \<noteq> 0" using \<open>unat x > 4259840\<close> by simp
  then have d: "x - 65536 - 4194304 \<noteq> 0" "\<not> x - 65536 - 4194304 \<le> 4294967296"
    by (metis unat_0, simp add: word_le_nat_alt)
  have "sz \<noteq> 0" using assms(3) by auto
  then show ?thesis
    using a c d unfolding ufs_datablock_addr_def Let_def bs x_def [symmetric]
    by simp
qed

text \<open>
  With blocks of 512 bytes the third level ends below 4 GB. The check at the end of the function
  looks at the last index, which is always in range, and lets the first one leave its block.
\<close>

lemma addr_512:
  assumes "geom s" "sb_blksize_shift (v_sb s) = 9" "1082204160 < unat sz" "unat sz \<le> 2 ^ 31"
  shows "\<exists>mp i. ufs_datablock_addr s sz = Some (RcOk, mp) \<and> am_level mp = 3 \<and> idx mp 0 = Some i \<and> per_block s \<le> i"
proof -
  have sh: "unat (sb_blksize_shift (v_sb s)) = 9" using assms(2) by simp
  have bs: "unat (v_blksize s) = 512" using assms(1) sh by (simp add: geom_def)
  define i where "i = (unat sz - 1) div 512"
  have i: "2113680 \<le> i" "i < 2 ^ 22" using assms(3,4) by (simp_all add: i_def)
  have "ufs_datablock_addr s sz = Some (RcOk, adrm_of (fpath 128 i))"
    using addr_path [OF assms(1) _ _ assms(4)] sh assms(3) bs by (simp add: per_block_def i_def)
  moreover have p: "fpath 128 i = (18, [(i - 16528) div 16384, (i - 16528) div 128 mod 128, (i - 16528) mod 128])"
    using i unfolding fpath_def Let_def by auto
  have j: "128 \<le> (i - 16528) div 16384" "(i - 16528) div 16384 < 2 ^ 32" using i by simp_all
  ultimately show ?thesis
    using unat_of_nat32 [OF j(2)] bs j(1) by (simp add: p adrm_of_def idx_def nth_opt_def per_block_def)
qed

end
