(* ===== verification/Blocktree.thy ===== *)
theory Blocktree
  imports Blockmap
begin

text \<open>
  The abstract file: the tree of blocks that hangs from an inode's address array. A position is an
  entry of the array and the indexes followed from it. \<open>tree_ok\<close> says that the positions in
  use denote distinct data blocks none of which is free; the lemmas show that entering and removing
  leaves, growing and shrinking keep it, and what they do to the positions.
\<close>

section \<open>Positions and the blocks at them\<close>

type_synonym pos = "nat \<times> nat list"

fun walk :: "(u32 \<Rightarrow> block) \<Rightarrow> u32 \<Rightarrow> nat list \<Rightarrow> u32" where
  "walk v a [] = a"
| "walk v a (k # ks) = walk v (get32 (v a) (4 * k)) ks"

definition node :: "(u32 \<Rightarrow> block) \<Rightarrow> u32 list \<Rightarrow> pos \<Rightarrow> u32" where
  "node v addr p = (case p of (r, ks) \<Rightarrow> walk v (addr ! r) ks)"

lemma walk_snoc: "walk v a (ks @ [k]) = get32 (v (walk v a ks)) (4 * k)"
  by (induction ks arbitrary: a) auto

lemma node_root [simp]: "node v addr (r, []) = addr ! r"
  by (simp add: node_def)

lemma node_snoc: "node v addr (r, ks @ [k]) = get32 (v (node v addr (r, ks))) (4 * k)"
  by (simp add: node_def walk_snoc)

definition tree_ok :: "('d \<Rightarrow> u32 \<Rightarrow> block) \<Rightarrow> 'd vol \<Rightarrow> u32 list \<Rightarrow> pos set \<Rightarrow> u32 list \<Rightarrow> bool" where
  "tree_ok ct s addr S L \<longleftrightarrow> length addr = 19
     \<and> (\<forall>r ks k. (r, ks @ [k]) \<in> S \<longrightarrow> (r, ks) \<in> S \<and> k < per_block s)
     \<and> (\<forall>p \<in> S. fst p < 19 \<and> ufs_datablock_number_sanity s (node (vview ct s) addr p)
          \<and> node (vview ct s) addr p \<notin> set L)
     \<and> inj_on (node (vview ct s) addr) S"

section \<open>Primitives on a working volume\<close>

text \<open>\<open>bgood\<close>: a working volume with free list \<open>L\<close> and sound geometry.\<close>

definition bgood :: "'d os \<Rightarrow> ('d \<Rightarrow> u32 \<Rightarrow> block) \<Rightarrow> nat \<Rightarrow> 'd vol \<Rightarrow> u32 list \<Rightarrow> bool" where
  "bgood os ct k s L \<longleftrightarrow> fgood os ct k s L \<and> geom s"

lemma frest_geom:
  assumes "frest s' = frest s" shows "geom s' \<longleftrightarrow> geom s" "per_block s' = per_block s"
proof -
  have v: "vrest (upd_sb (\<lambda>b. b\<lparr>sb_freeblock := [], sb_nfreeblock := 0, sb_total_freeblock := 0,
      sb_modified := 0\<rparr>) s') = vrest (upd_sb (\<lambda>b. b\<lparr>sb_freeblock := [], sb_nfreeblock := 0,
      sb_total_freeblock := 0, sb_modified := 0\<rparr>) s)"
    using assms by (simp add: frest_def)
  have "sb_ilist_sector (v_sb s') = sb_ilist_sector (v_sb s)"
    using arg_cong [OF vrestD(1) [OF v], of sb_ilist_sector] by simp
  then show "geom s' \<longleftrightarrow> geom s" using frestD [OF assms] by (simp add: geom_def)
  show "per_block s' = per_block s" using frestD(1) [OF assms] by (simp add: per_block_def)
qed

lemma sane_frest: "frest s' = frest s \<Longrightarrow> ufs_datablock_number_sanity s' = ufs_datablock_number_sanity s"
  by (rule frestD(9))

lemma bgood_vsame:
  assumes "bgood os ct k s L" "vgood os ct (v_lim s) j s'" "vsame ct s s'"
  shows "bgood os ct j s' L"
  using fgood_vsame [of os ct k s L j s'] assms geom_rest [OF vsameD(2) [OF assms(3)]]
  by (simp add: bgood_def)

lemma bgood_nonzero: "bgood os ct k s L \<Longrightarrow> ufs_datablock_number_sanity s b \<Longrightarrow> b \<noteq> 0"
  by (auto simp: bgood_def geom_def ufs_datablock_number_sanity_def UFS_ILIST_SECTOR_def
      word_less_nat_alt word_le_nat_alt)

lemma bgood_mono: "bgood os ct k s L \<Longrightarrow> j \<le> k \<Longrightarrow> bgood os ct j s L"
  by (auto simp: bgood_def fgood_def intro: vgood_mono)

lemma per_block_size: "bgood os ct k s L \<Longrightarrow> 4 * per_block s = unat (v_blksize s)"
  using geom_ipb [of s] by (simp add: bgood_def per_block_def)

lemma sane_lim: "ufs_datablock_number_sanity s b \<Longrightarrow> b < v_lim s"
  by (simp add: ufs_datablock_number_sanity_def)

lemma block_length:
  assumes "bgood os ct k s L" "ufs_datablock_number_sanity s b"
  shows "length (vview ct s b) = unat (v_blksize s)"
proof -
  have vg: "vgood os ct (v_lim s) k s" using assms(1) by (simp add: bgood_def fgood_def)
  have "length (replicate (unat (v_blksize s)) (0 :: byte)) = unat (v_blksize s)" by simp
  from good_read [OF vg sane_lim [OF assms(2)] this] show ?thesis by metis
qed

text \<open>A block read into a pool buffer: the pattern every index operation starts with.\<close>

lemma good_fetch:
  assumes "vgood os ct lim k s" "b < lim"
  obtains buf s1 s2 where "ufs_disk_get_buf os s = (Some buf, s1)"
    "ufs_vdisk_read os s1 buf b = (RcOk, vview ct s b, s2)" "vgood os ct lim k s2" "vsame ct s s1" "vsame ct s s2"
    "length (vview ct s b) = unat (v_blksize s2)"
proof -
  obtain buf s1 where gb: "ufs_disk_get_buf os s = (Some buf, s1)" "length buf = unat (v_blksize s)"
    "vgood os ct lim k s1" "vsame ct s s1" by (rule good_get_buf [OF assms(1)])
  note e1 = vsameD [OF gb(4)]
  obtain s2 where rd: "ufs_vdisk_read os s1 buf b = (RcOk, vview ct s1 b, s2)" "vgood os ct lim k s2"
    "vsame ct s1 s2" "length (vview ct s1 b) = unat (v_blksize s1)"
    using good_read [OF gb(3) assms(2)] gb(2) e1 by metis
  show ?thesis
    by (rule that [OF gb(1) _ rd(2) gb(4) vsame_trans [OF gb(4) rd(3)]])
       (use rd(1,4) e1 vsameD(4) [OF rd(3)] in simp_all)
qed

text \<open>Locks and the buffer pool leave a working volume what it is.\<close>

lemma bgood_lock:
  assumes "bgood os ct k s L"
  obtains r s' where "lock os l s = (r, s')" "bgood os ct k s' L" "vsame ct s s'"
proof -
  have vg: "vgood os ct (v_lim s) k s" using assms by (simp add: bgood_def fgood_def)
  show ?thesis by (rule good_lock [OF vg]) (use that bgood_vsame [OF assms] in blast)
qed

lemma bgood_unlock:
  assumes "bgood os ct k s L"
  shows "bgood os ct k (unlock os r l s) L" "vsame ct s (unlock os r l s)"
proof -
  have vg: "vgood os ct (v_lim s) k s" using assms by (simp add: bgood_def fgood_def)
  show v: "vsame ct s (unlock os r l s)" by (rule good_unlock [OF vg])
  show "bgood os ct k (unlock os r l s) L" by (rule bgood_vsame [OF assms good_unlock [OF vg]])
qed

lemma bgood_free_buf:
  assumes "bgood os ct k s L" "length buf = unat (v_blksize s)"
  shows "bgood os ct k (ufs_disk_free_buf os s buf) L" "vsame ct s (ufs_disk_free_buf os s buf)"
proof -
  have vg: "vgood os ct (v_lim s) k s" using assms by (simp add: bgood_def fgood_def)
  show v: "vsame ct s (ufs_disk_free_buf os s buf)" by (rule good_free_buf [OF vg assms(2)])
  show "bgood os ct k (ufs_disk_free_buf os s buf) L" by (rule bgood_vsame [OF assms(1) good_free_buf [OF vg assms(2)]])
qed

lemma good_link:
  assumes g: "bgood os ct k s L" and a: "ufs_datablock_number_sanity s a" and n: "n < per_block s"
    and b: "ufs_datablock_number_sanity s (get32 (vview ct s a) (4 * n))"
  obtains s' where "ufs_datablock_link os s a n = Some (get32 (vview ct s a) (4 * n), s')"
    "bgood os ct k s' L" "vsame ct s s'"
proof -
  have vg: "vgood os ct (v_lim s) k s" using g by (simp add: bgood_def fgood_def)
  obtain buf s1 s2 where f: "ufs_disk_get_buf os s = (Some buf, s1)"
    "ufs_vdisk_read os s1 buf a = (RcOk, vview ct s a, s2)" "vgood os ct (v_lim s) k s2" "vsame ct s s1" "vsame ct s s2"
    "length (vview ct s a) = unat (v_blksize s2)" by (rule good_fetch [OF vg sane_lim [OF a]])
  note fr = good_free_buf [OF f(3,6)]
  let ?s3 = "ufs_disk_free_buf os s2 (vview ct s a)"
  have v: "vsame ct s ?s3" by (rule vsame_trans [OF f(5) fr(2)])
  have "4 * n + 4 \<le> length (vview ct s a)"
    using per_block_size [OF g] n f(6) vsameD(4) [OF f(5)] by simp
  then have "ufs_datablock_link os s a n = Some (get32 (vview ct s a) (4 * n), ?s3)"
    using a b f(1,2) vsameD(3) [OF v]
    by (simp add: ufs_datablock_link_def word_at_def ufs_datablock_number_sanity_def)
  then show ?thesis using that bgood_vsame [OF g fr(1) v] v by blast
qed

lemma bgood_store:
  assumes g: "bgood os ct j s L" and v: "vgood os ct (v_lim s) k s'" "vrest s' = vrest s"
    and w: "vview ct s' = (vview ct s)(a := x)" and a: "a \<notin> set L"
  shows "bgood os ct k s' L"
proof -
  note d = vrestD [OF v(2)]
  have "free_chain (vview ct s) xs L \<Longrightarrow> free_chain (vview ct s') xs L" for xs
    using free_chain_update [of "vview ct s" xs L a x] a w by simp
  then show ?thesis
    using g v d geom_rest [OF v(2)]
    by (auto simp: bgood_def fgood_def free_ok_def ufs_datablock_number_sanity_def)
qed

lemma good_unlink:
  assumes g: "bgood os ct (Suc k) s L" and a: "ufs_datablock_number_sanity s a" "a \<notin> set L"
    and n: "n < per_block s"
  obtains s' where "ufs_datablock_unlink os s a n = Some (get32 (vview ct s a) (4 * n), s')"
    "bgood os ct k s' L" "vrest s' = vrest s" "vview ct s' = (vview ct s)(a := put32 (4 * n) 0 (vview ct s a))"
proof -
  have vg: "vgood os ct (v_lim s) (Suc k) s" using g by (simp add: bgood_def fgood_def)
  obtain buf s1 s2 where f: "ufs_disk_get_buf os s = (Some buf, s1)"
    "ufs_vdisk_read os s1 buf a = (RcOk, vview ct s a, s2)" "vgood os ct (v_lim s) (Suc k) s2" "vsame ct s s1"
    "vsame ct s s2" "length (vview ct s a) = unat (v_blksize s2)"
    by (rule good_fetch [OF vg sane_lim [OF a(1)]])
  have len: "4 * n + 4 \<le> length (vview ct s a)"
    using per_block_size [OF g] n f(6) vsameD(4) [OF f(5)] by simp
  let ?x = "put32 (4 * n) 0 (vview ct s a)"
  have "length ?x = unat (v_blksize s2)" using len f(6) by simp
  then obtain s3 where w: "ufs_vdisk_write os s2 ?x a = (RcOk, s3)" "vgood os ct (v_lim s) k s3"
    "vview ct s3 = (vview ct s2)(a := ?x)" "vrest s3 = vrest s2"
    by (rule good_write [OF f(3) sane_lim [OF a(1)]])
  have "length ?x = unat (v_blksize s3)" using len f(6) vrestD(2) [OF w(4)] by simp
  note fr = good_free_buf [OF w(2) this]
  let ?s4 = "ufs_disk_free_buf os s3 ?x"
  have r: "vrest ?s4 = vrest s" using vsameD(2) [OF fr(2)] w(4) vsameD(2) [OF f(5)] by simp
  have v: "vview ct ?s4 = (vview ct s)(a := ?x)" using vsameD(1) [OF fr(2)] w(3) vsameD(1) [OF f(5)] by simp
  have "ufs_datablock_unlink os s a n = Some (get32 (vview ct s a) (4 * n), ?s4)"
    using len f(1,2) w(1) by (simp add: ufs_datablock_unlink_def word_at_def)
  then show ?thesis using that bgood_store [OF g fr(1) r v a(2)] r v by blast
qed

lemma good_allocate:
  assumes "bgood os ct (Suc k) s (b # L)"
  obtains s' where "ufs_datablock_allocate os s = Some (RcOk, b, s')" "bgood os ct k s' L"
    "vview ct s' = (vview ct s)(b := replicate (unat (v_blksize s)) 0)" "frest s' = frest s"
    "b \<notin> set L" "ufs_datablock_number_sanity s b" "b \<noteq> 0"
proof -
  have f: "fgood os ct (Suc k) s (b # L)" using assms by (simp add: bgood_def)
  obtain s' where a: "ufs_datablock_allocate os s = Some (RcOk, b, s')" "fgood os ct k s' L"
    "vview ct s' = (vview ct s)(b := replicate (unat (v_blksize s)) 0)" "frest s' = frest s"
    by (rule allocate_head [OF f])
  have "b \<notin> set L" using f by (simp add: fgood_def free_ok_def)
  moreover have sane: "ufs_datablock_number_sanity s b" using fgood_sane [OF f] by simp
  moreover have "bgood os ct k s' L" using a frest_geom(1) [OF a(4)] assms by (simp add: bgood_def)
  ultimately show ?thesis using that a bgood_nonzero [OF assms] by blast
qed

lemma good_add_leaf:
  assumes g: "bgood os ct (Suc (Suc k)) s (b # L)" and a: "ufs_datablock_number_sanity s a" "a \<notin> set (b # L)"
    and n: "n < per_block s"
  obtains s' where "ufs_datablock_add_leaf os s a n = Some (b, s')" "bgood os ct k s' L" "frest s' = frest s"
    "vview ct s' = (vview ct s)(b := replicate (unat (v_blksize s)) 0, a := put32 (4 * n) b (vview ct s a))"
    "b \<notin> set L" "ufs_datablock_number_sanity s b" "b \<noteq> 0"
proof -
  obtain s1 where al: "ufs_datablock_allocate os s = Some (RcOk, b, s1)" "bgood os ct (Suc k) s1 L"
    "vview ct s1 = (vview ct s)(b := replicate (unat (v_blksize s)) 0)" "frest s1 = frest s"
    "b \<notin> set L" "ufs_datablock_number_sanity s b" "b \<noteq> 0" by (rule good_allocate [OF g])
  have a1: "ufs_datablock_number_sanity s1 a" using a(1) sane_frest [OF al(4)] by simp
  have vg: "vgood os ct (v_lim s1) (Suc k) s1" using al(2) by (simp add: bgood_def fgood_def)
  have va: "vview ct s1 a = vview ct s a" using al(3) a(2) by auto
  obtain buf s2 s3 where f: "ufs_disk_get_buf os s1 = (Some buf, s2)"
    "ufs_vdisk_read os s2 buf a = (RcOk, vview ct s1 a, s3)" "vgood os ct (v_lim s1) (Suc k) s3" "vsame ct s1 s2"
    "vsame ct s1 s3" "length (vview ct s1 a) = unat (v_blksize s3)"
    by (rule good_fetch [OF vg sane_lim [OF a1]])
  have len: "4 * n + 4 \<le> length (vview ct s a)"
    using per_block_size [OF al(2)] n f(6) vsameD(4) [OF f(5)] frest_geom(2) [OF al(4)] va by simp
  let ?x = "put32 (4 * n) b (vview ct s a)"
  have "length ?x = unat (v_blksize s3)" using len f(6) va by simp
  then obtain s4 where w: "ufs_vdisk_write os s3 ?x a = (RcOk, s4)" "vgood os ct (v_lim s1) k s4"
    "vview ct s4 = (vview ct s3)(a := ?x)" "vrest s4 = vrest s3"
    by (rule good_write [OF f(3) sane_lim [OF a1]])
  have "length ?x = unat (v_blksize s4)" using len f(6) va vrestD(2) [OF w(4)] by simp
  note fr = good_free_buf [OF w(2) this]
  let ?s5 = "ufs_disk_free_buf os s4 ?x"
  have r: "vrest ?s5 = vrest s1" using vsameD(2) [OF fr(2)] w(4) vsameD(2) [OF f(5)] by simp
  have v: "vview ct ?s5 = (vview ct s1)(a := ?x)" using vsameD(1) [OF fr(2)] w(3) vsameD(1) [OF f(5)] by simp
  have "a \<noteq> 0" using bgood_nonzero [OF g a(1)] .
  then have "ufs_datablock_add_leaf os s a n = Some (b, ?s5)"
    using a(1) al(1) len f(1,2) w(1) va by (simp add: ufs_datablock_add_leaf_def word_at_def)
  moreover have "bgood os ct k ?s5 L" using bgood_store [OF al(2) fr(1) r v] a(2) by simp
  ultimately show ?thesis using that v al(3,5-7) frest_vrest [OF r] al(4) by simp
qed

lemma good_deallocate:
  assumes g: "bgood os ct (Suc k) s L" and b: "b \<notin> set L" "ufs_datablock_number_sanity s b" and "L \<noteq> []"
  obtains s' where "ufs_datablock_deallocate os s b = Some (RcOk, s')" "bgood os ct k s' (b # L)"
    "\<And>x. x \<noteq> b \<Longrightarrow> vview ct s' x = vview ct s x" "frest s' = frest s"
proof -
  have f: "fgood os ct (Suc k) s L" using g by (simp add: bgood_def)
  obtain s' where a: "ufs_datablock_deallocate os s b = Some (RcOk, s')" "fgood os ct k s' (b # L)"
    "\<And>x. x \<noteq> b \<Longrightarrow> vview ct s' x = vview ct s x" "frest s' = frest s"
    by (rule deallocate_front [OF f b]) (use assms(4) in auto)
  have "bgood os ct k s' (b # L)" using a(2) frest_geom(1) [OF a(4)] g by (simp add: bgood_def)
  then show ?thesis using that a by blast
qed

section \<open>The tree under changes of the volume\<close>

lemma node_stable:
  assumes "\<And>r ks k. (r, ks @ [k]) \<in> S \<Longrightarrow> (r, ks) \<in> S"
    and "\<And>r ks k. (r, ks @ [k]) \<in> S \<Longrightarrow>
      get32 (v' (node v addr (r, ks))) (4 * k) = get32 (v (node v addr (r, ks))) (4 * k)"
    and "\<And>r. (r, []) \<in> S \<Longrightarrow> addr' ! r = addr ! r"
    and "(r, ks) \<in> S"
  shows "node v' addr' (r, ks) = node v addr (r, ks)"
  using assms(4)
proof (induction ks rule: rev_induct)
  case Nil
  then show ?case using assms(3) by simp
next
  case (snoc k ks)
  then have "node v' addr' (r, ks) = node v addr (r, ks)" using assms(1) by blast
  then show ?case using assms(2) [OF snoc.prems] by (simp add: node_snoc)
qed

lemma tree_okD:
  assumes "tree_ok ct s addr S L"
  shows "length addr = 19" "(r, ks @ [k]) \<in> S \<Longrightarrow> (r, ks) \<in> S" "(r, ks @ [k]) \<in> S \<Longrightarrow> k < per_block s"
    "p \<in> S \<Longrightarrow> fst p < 19" "p \<in> S \<Longrightarrow> ufs_datablock_number_sanity s (node (vview ct s) addr p)"
    "p \<in> S \<Longrightarrow> node (vview ct s) addr p \<notin> set L"
    "p \<in> S \<Longrightarrow> q \<in> S \<Longrightarrow> node (vview ct s) addr p = node (vview ct s) addr q \<Longrightarrow> p = q"
proof -
  note c = assms [unfolded tree_ok_def]
  note A = conjunct1 [OF c] and B = conjunct1 [OF conjunct2 [OF c]]
    and C = conjunct1 [OF conjunct2 [OF conjunct2 [OF c]]] and D = conjunct2 [OF conjunct2 [OF conjunct2 [OF c]]]
  show "length addr = 19" by (rule A)
  show "(r, ks @ [k]) \<in> S \<Longrightarrow> (r, ks) \<in> S" "(r, ks @ [k]) \<in> S \<Longrightarrow> k < per_block s" using B by blast+
  show "p \<in> S \<Longrightarrow> fst p < 19" "p \<in> S \<Longrightarrow> ufs_datablock_number_sanity s (node (vview ct s) addr p)"
    "p \<in> S \<Longrightarrow> node (vview ct s) addr p \<notin> set L" using C by blast+
  show "p \<in> S \<Longrightarrow> q \<in> S \<Longrightarrow> node (vview ct s) addr p = node (vview ct s) addr q \<Longrightarrow> p = q"
    using D by (simp add: inj_on_def)
qed

lemma inj_on_insert_fresh: "inj_on f S \<Longrightarrow> f x \<notin> f ` S \<Longrightarrow> inj_on f (insert x S)"
  by (subst inj_on_insert) blast

lemma tree_insert:
  assumes t: "tree_ok ct s addr S (b # L)" and b: "b \<notin> set L" "ufs_datablock_number_sanity s b"
    and fr: "frest s' = frest s" and addr': "length addr' = 19"
    and same: "\<And>p. p \<in> S \<Longrightarrow> node (vview ct s') addr' p = node (vview ct s) addr p"
    and new: "node (vview ct s') addr' x = b" "fst x < 19"
    and closed: "\<And>r ks k. x = (r, ks @ [k]) \<Longrightarrow> (r, ks) \<in> S \<and> k < per_block s"
  shows "tree_ok ct s' addr' (insert x S) L"
proof -
  have "inj_on (node (vview ct s') addr') S"
    using t same by (simp add: tree_ok_def inj_on_def)
  moreover have "node (vview ct s') addr' x \<notin> node (vview ct s') addr' ` S"
    using new(1) same tree_okD(6) [OF t] by force
  ultimately have "inj_on (node (vview ct s') addr') (insert x S)" by (rule inj_on_insert_fresh)
  moreover have "p \<in> insert x S \<Longrightarrow> fst p < 19 \<and> ufs_datablock_number_sanity s' (node (vview ct s') addr' p)
      \<and> node (vview ct s') addr' p \<notin> set L" for p
    using tree_okD(4-6) [OF t, of p] same [of p] new b sane_frest [OF fr] by auto
  moreover have "(r, ks @ [k]) \<in> insert x S \<Longrightarrow> (r, ks) \<in> insert x S \<and> k < per_block s'" for r ks k
    using tree_okD(2,3) [OF t, of r ks k] closed frest_geom(2) [OF fr] by auto
  ultimately show ?thesis using addr' by (simp add: tree_ok_def)
qed

text \<open>Entering a fresh block \<open>b\<close> as leaf \<open>k\<close> of the index block at \<open>(r, ks)\<close>.\<close>

lemma tree_enter:
  assumes t: "tree_ok ct s addr S (b # L)" and b: "b \<notin> set L" "ufs_datablock_number_sanity s b"
    and fr: "frest s' = frest s" and p: "(r, ks) \<in> S" "(r, ks @ [k]) \<notin> S" "k < per_block s"
    and a: "a = node (vview ct s) addr (r, ks)"
    and v: "vview ct s' = (vview ct s)(b := z, a := put32 (4 * k) b (vview ct s a))"
    and len: "length (vview ct s a) = 4 * per_block s"
  shows "tree_ok ct s' addr (insert (r, ks @ [k]) S) L"
    and "\<And>q. q \<in> S \<Longrightarrow> node (vview ct s') addr q = node (vview ct s) addr q"
    and "node (vview ct s') addr (r, ks @ [k]) = b"
proof -
  let ?v = "vview ct s" and ?v' = "vview ct s'"
  have same: "node ?v' addr q = node ?v addr q" if q: "q \<in> S" for q
  proof -
    obtain r1 ks1 where q1: "q = (r1, ks1)" by fastforce
    show ?thesis unfolding q1
    proof (rule node_stable)
      fix r' ks' k' assume in_S: "(r', ks' @ [k']) \<in> S"
      then show pS: "(r', ks') \<in> S" by (rule tree_okD(2) [OF t])
      let ?n = "node ?v addr (r', ks')"
      have "?n \<noteq> b" using tree_okD(6) [OF t pS] by auto
      show "get32 (?v' ?n) (4 * k') = get32 (?v ?n) (4 * k')"
      proof (cases "?n = a")
        case True
        then have "(r', ks') = (r, ks)" using tree_okD(7) [OF t pS p(1)] a by simp
        then have "k' \<noteq> k" using in_S p(2) by auto
        then have "4 * k' + 4 \<le> 4 * k \<or> 4 * k + 4 \<le> 4 * k'" by auto
        then show ?thesis using True len p(3) get32_put32_other [of "4 * k" "?v a" "4 * k'" b] by (simp add: v)
      next
        case False
        then show ?thesis using \<open>?n \<noteq> b\<close> by (simp add: v)
      qed
    qed (use q q1 in auto)
  qed
  have "node ?v' addr (r, ks) = a" using same [OF p(1)] a by simp
  then have new: "node ?v' addr (r, ks @ [k]) = b" using len p(3) by (simp add: node_snoc v buf_simps)
  show "\<And>q. q \<in> S \<Longrightarrow> node ?v' addr q = node ?v addr q" by (rule same)
  show "node ?v' addr (r, ks @ [k]) = b" by (rule new)
  have "fst (r, ks @ [k]) < 19" using tree_okD(4) [OF t p(1)] by simp
  from tree_insert [OF t b fr tree_okD(1) [OF t] same new this] p(1,3)
  show "tree_ok ct s' addr (insert (r, ks @ [k]) S) L" by auto
qed

text \<open>Entering a fresh block at a root.\<close>

lemma tree_root:
  assumes t: "tree_ok ct s addr S (b # L)" and b: "b \<notin> set L" "ufs_datablock_number_sanity s b"
    and fr: "frest s' = frest s" and p: "(r, []) \<notin> S" "r < 19"
    and v: "vview ct s' = (vview ct s)(b := z)"
  shows "tree_ok ct s' (addr[r := b]) (insert (r, []) S) L"
    and "\<And>q. q \<in> S \<Longrightarrow> node (vview ct s') (addr[r := b]) q = node (vview ct s) addr q"
proof -
  let ?v = "vview ct s" and ?v' = "vview ct s'"
  have same: "node ?v' (addr[r := b]) q = node ?v addr q" if q: "q \<in> S" for q
  proof -
    obtain r1 ks1 where q1: "q = (r1, ks1)" by fastforce
    show ?thesis unfolding q1
    proof (rule node_stable)
      fix r' ks' k' assume in_S: "(r', ks' @ [k']) \<in> S"
      then show pS: "(r', ks') \<in> S" by (rule tree_okD(2) [OF t])
      have "node ?v addr (r', ks') \<noteq> b" using tree_okD(6) [OF t pS] by auto
      then show "get32 (?v' (node ?v addr (r', ks'))) (4 * k') = get32 (?v (node ?v addr (r', ks'))) (4 * k')"
        by (simp add: v)
    next
      fix r' assume "(r', []) \<in> S"
      then have "r' \<noteq> r" using p(1) by auto
      then show "addr[r := b] ! r' = addr ! r'" by simp
    qed (use q q1 in auto)
  qed
  have "node ?v' (addr[r := b]) (r, []) = b" using p(2) tree_okD(1) [OF t] by simp
  from tree_insert [OF t b fr _ same this] p(2) tree_okD(1) [OF t]
  show "tree_ok ct s' (addr[r := b]) (insert (r, []) S) L" by simp
  show "\<And>q. q \<in> S \<Longrightarrow> node ?v' (addr[r := b]) q = node ?v addr q" by (rule same)
qed

section \<open>Growing\<close>

text \<open>A data block is a leaf: a direct address, or an index path of the root's full depth.\<close>

definition leaf :: "pos \<Rightarrow> bool" where
  "leaf p \<longleftrightarrow> length (snd p) = fst p - 15"

text \<open>
  What growing does: the new positions take blocks off the free list, data blocks among them are
  zero, positions that were there keep their blocks, and no block outside the free list changes
  but the index blocks of the tree.
\<close>

definition grow :: "('d \<Rightarrow> u32 \<Rightarrow> block) \<Rightarrow> 'd vol \<Rightarrow> u32 list \<Rightarrow> pos set \<Rightarrow> u32 list \<Rightarrow>
    'd vol \<Rightarrow> u32 list \<Rightarrow> pos set \<Rightarrow> u32 list \<Rightarrow> bool" where
  "grow ct s addr S L s' addr' S' L' \<longleftrightarrow>
     tree_ok ct s' addr' S' L' \<and> frest s' = frest s
     \<and> set L = set L' \<union> node (vview ct s') addr' ` (S' - S) \<and> S \<subseteq> S'
     \<and> (\<forall>p \<in> S. node (vview ct s') addr' p = node (vview ct s) addr p)
     \<and> (\<forall>x. x \<notin> set L \<longrightarrow> x \<notin> node (vview ct s) addr ` {p \<in> S. \<not> leaf p} \<longrightarrow> vview ct s' x = vview ct s x)
     \<and> (\<forall>p \<in> S' - S. leaf p \<longrightarrow>
          vview ct s' (node (vview ct s') addr' p) = replicate (unat (v_blksize s)) 0)"

lemma grow_refl: "tree_ok ct s addr S L \<Longrightarrow> grow ct s addr S L s addr S L"
  by (simp add: grow_def)

lemma growD:
  assumes "grow ct s addr S L s' addr' S' L'"
  shows "tree_ok ct s' addr' S' L'" "frest s' = frest s" "set L = set L' \<union> node (vview ct s') addr' ` (S' - S)"
    "S \<subseteq> S'" "p \<in> S \<Longrightarrow> node (vview ct s') addr' p = node (vview ct s) addr p"
    "p \<in> S' \<Longrightarrow> p \<notin> S \<Longrightarrow> node (vview ct s') addr' p \<in> set L"
    "x \<notin> set L \<Longrightarrow> x \<notin> node (vview ct s) addr ` {p \<in> S. \<not> leaf p} \<Longrightarrow> vview ct s' x = vview ct s x"
    "p \<in> S' \<Longrightarrow> p \<notin> S \<Longrightarrow> leaf p \<Longrightarrow>
       vview ct s' (node (vview ct s') addr' p) = replicate (unat (v_blksize s)) 0"
proof -
  note a = assms [unfolded grow_def]
  note A = conjunct1 [OF a] and B = conjunct1 [OF conjunct2 [OF a]] and C = conjunct1 [OF conjunct2 [OF conjunct2 [OF a]]]
    and D = conjunct2 [OF conjunct2 [OF conjunct2 [OF a]]]
  show "tree_ok ct s' addr' S' L'" "frest s' = frest s" "set L = set L' \<union> node (vview ct s') addr' ` (S' - S)"
    using A B C by blast+
  show "p \<in> S' \<Longrightarrow> p \<notin> S \<Longrightarrow> node (vview ct s') addr' p \<in> set L" using C by blast
  show "S \<subseteq> S'" "p \<in> S \<Longrightarrow> node (vview ct s') addr' p = node (vview ct s) addr p"
    "x \<notin> set L \<Longrightarrow> x \<notin> node (vview ct s) addr ` {p \<in> S. \<not> leaf p} \<Longrightarrow> vview ct s' x = vview ct s x"
    "p \<in> S' \<Longrightarrow> p \<notin> S \<Longrightarrow> leaf p \<Longrightarrow>
       vview ct s' (node (vview ct s') addr' p) = replicate (unat (v_blksize s)) 0"
    using D by simp_all
qed

lemma leaf_not_index:
  assumes "tree_ok ct s addr S L" "p \<in> S" "leaf p"
  shows "node (vview ct s) addr p \<notin> set L" "node (vview ct s) addr p \<notin> node (vview ct s) addr ` {p \<in> S. \<not> leaf p}"
  using tree_okD(6) [OF assms(1,2)] tree_okD(7) [OF assms(1,2)] assms(3) by auto

lemma grow_trans:
  assumes "grow ct s addr S L s1 a1 S1 L1" "grow ct s1 a1 S1 L1 s2 a2 S2 L2"
  shows "grow ct s addr S L s2 a2 S2 L2"
proof -
  note g1 = growD [OF assms(1)] and g2 = growD [OF assms(2)]
  have nodes: "node (vview ct s2) a2 p = node (vview ct s) addr p" if "p \<in> S" for p
    using g2(5) [of p] g1(4,5) that by auto
  have view: "vview ct s2 x = vview ct s x"
    if "x \<notin> set L" "x \<notin> node (vview ct s) addr ` {p \<in> S. \<not> leaf p}" for x
  proof -
    have "x \<notin> node (vview ct s1) a1 ` {p \<in> S1. \<not> leaf p}"
    proof
      assume "x \<in> node (vview ct s1) a1 ` {p \<in> S1. \<not> leaf p}"
      then obtain p where p: "p \<in> S1" "\<not> leaf p" "x = node (vview ct s1) a1 p" by auto
      show False using that p g1(5,6) [of p] by (cases "p \<in> S") auto
    qed
    then show ?thesis using g2(7) [of x] g1(3) g1(7) [of x] that by auto
  qed
  have new: "set L = set L2 \<union> node (vview ct s2) a2 ` (S2 - S)"
  proof -
    have "S2 - S = (S2 - S1) \<union> (S1 - S)" using g1(4) g2(4) by auto
    moreover have "node (vview ct s2) a2 ` (S1 - S) = node (vview ct s1) a1 ` (S1 - S)"
      using g2(5) by (intro image_cong) auto
    ultimately show ?thesis using g1(3) g2(3) by (auto simp: image_Un)
  qed
  have zero: "vview ct s2 (node (vview ct s2) a2 p) = replicate (unat (v_blksize s)) 0"
    if "p \<in> S2" "p \<notin> S" "leaf p" for p
  proof (cases "p \<in> S1")
    case True
    then have "vview ct s2 (node (vview ct s1) a1 p) = vview ct s1 (node (vview ct s1) a1 p)"
      using g2(7) leaf_not_index [OF g1(1) True that(3)] by blast
    then show ?thesis using g2(5) [OF True] g1(8) [OF True that(2,3)] by simp
  next
    case False
    then show ?thesis using g2(8) [OF that(1) False that(3)] frestD(1) [OF g1(2)] by simp
  qed
  show ?thesis
    unfolding grow_def using g2(1,2,4) g1(2,4) nodes view new zero by auto
qed

lemma grow_leaf:
  assumes g: "bgood os ct (Suc (Suc k)) s (b # L)" and t: "tree_ok ct s addr S (b # L)"
    and p: "(r, ks) \<in> S" "(r, ks @ [i]) \<notin> S" "i < per_block s" "\<not> leaf (r, ks)"
  obtains s' where "ufs_datablock_add_leaf os s (node (vview ct s) addr (r, ks)) i = Some (b, s')"
    "bgood os ct k s' L" "grow ct s addr S (b # L) s' addr (insert (r, ks @ [i]) S) L"
    "node (vview ct s') addr (r, ks @ [i]) = b" "b \<noteq> 0"
proof -
  let ?a = "node (vview ct s) addr (r, ks)"
  have a: "ufs_datablock_number_sanity s ?a" "?a \<notin> set (b # L)" using tree_okD(5,6) [OF t p(1)] by auto
  obtain s' where l: "ufs_datablock_add_leaf os s ?a i = Some (b, s')" "bgood os ct k s' L" "frest s' = frest s"
    "vview ct s' = (vview ct s)(b := replicate (unat (v_blksize s)) 0, ?a := put32 (4 * i) b (vview ct s ?a))"
    "b \<notin> set L" "ufs_datablock_number_sanity s b" "b \<noteq> 0"
    by (rule good_add_leaf [OF g a p(3)])
  have len: "length (vview ct s ?a) = 4 * per_block s" using block_length [OF g a(1)] per_block_size [OF g] by simp
  note e = tree_enter [OF t l(5,6,3) p(1-3) refl l(4) len]
  have "grow ct s addr S (b # L) s' addr (insert (r, ks @ [i]) S) L"
    unfolding grow_def
  proof (intro conjI ballI allI impI)
    fix x assume "x \<notin> set (b # L)" "x \<notin> node (vview ct s) addr ` {p \<in> S. \<not> leaf p}"
    moreover have "?a \<in> node (vview ct s) addr ` {p \<in> S. \<not> leaf p}" using p(1,4) by auto
    ultimately show "vview ct s' x = vview ct s x" using l(4) by auto
  next
    fix q assume "q \<in> insert (r, ks @ [i]) S - S" "leaf q"
    then have "node (vview ct s') addr q = b" using e(3) by auto
    then show "vview ct s' (node (vview ct s') addr q) = replicate (unat (v_blksize s)) 0"
      using l(4) a(2) by auto
  next
    have "insert (r, ks @ [i]) S - S = {(r, ks @ [i])}" using p(2) by blast
    then show "set (b # L) = set L \<union> node (vview ct s') addr ` (insert (r, ks @ [i]) S - S)" using e(3) by simp
  qed (use e l(3) in auto)
  then show ?thesis using that l e(3) by blast
qed

lemma grow_root:
  assumes g: "bgood os ct (Suc k) s (b # L)" and t: "tree_ok ct s addr S (b # L)"
    and p: "(r, []) \<notin> S" "r < 19"
  obtains s' where "ufs_datablock_allocate os s = Some (RcOk, b, s')"
    "bgood os ct k s' L" "grow ct s addr S (b # L) s' (addr[r := b]) (insert (r, []) S) L"
    "node (vview ct s') (addr[r := b]) (r, []) = b" "b \<noteq> 0"
proof -
  obtain s' where l: "ufs_datablock_allocate os s = Some (RcOk, b, s')" "bgood os ct k s' L"
    "vview ct s' = (vview ct s)(b := replicate (unat (v_blksize s)) 0)" "frest s' = frest s"
    "b \<notin> set L" "ufs_datablock_number_sanity s b" "b \<noteq> 0"
    by (rule good_allocate [OF g])
  note e = tree_root [OF t l(5,6,4) p l(3)]
  have n: "node (vview ct s') (addr[r := b]) (r, []) = b" using p(2) tree_okD(1) [OF t] by simp
  have "grow ct s addr S (b # L) s' (addr[r := b]) (insert (r, []) S) L"
    unfolding grow_def
  proof (intro conjI ballI allI impI)
    fix q assume "q \<in> insert (r, []) S - S" "leaf q"
    then have "node (vview ct s') (addr[r := b]) q = b" using n by auto
    then show "vview ct s' (node (vview ct s') (addr[r := b]) q) = replicate (unat (v_blksize s)) 0"
      using l(3) by simp
  next
    have "insert (r, []) S - S = {(r, [])}" using p(1) by blast
    then show "set (b # L) = set L \<union> node (vview ct s') (addr[r := b]) ` (insert (r, []) S - S)" using n by simp
  qed (use e l(3,4) n in auto)
  then show ?thesis using that l n by blast
qed

section \<open>The positions of a file of N blocks\<close>

text \<open>\<open>pfirst n p\<close> is the first logical block whose path goes through \<open>p\<close>.\<close>

fun pfirst :: "nat \<Rightarrow> pos \<Rightarrow> nat" where
  "pfirst n (r, ks) =
     (if r < 16 then r
      else if r = 16 then 16 + (case ks of [a] \<Rightarrow> a | _ \<Rightarrow> 0)
      else if r = 17 then 16 + n + (case ks of [a] \<Rightarrow> a * n | [a, b] \<Rightarrow> a * n + b | _ \<Rightarrow> 0)
      else 16 + n + n * n +
        (case ks of [a] \<Rightarrow> a * (n * n) | [a, b] \<Rightarrow> a * (n * n) + b * n
         | [a, b, c] \<Rightarrow> a * (n * n) + b * n + c | _ \<Rightarrow> 0))"

definition pwf :: "nat \<Rightarrow> pos \<Rightarrow> bool" where
  "pwf n p \<longleftrightarrow> fst p < 19 \<and> length (snd p) \<le> fst p - 15 \<and> (\<forall>k \<in> set (snd p). k < n)"

definition file_pos :: "nat \<Rightarrow> nat \<Rightarrow> pos set" where
  "file_pos n N = {p. pwf n p \<and> pfirst n p < N}"

definition max_blocks :: "nat \<Rightarrow> nat" where
  "max_blocks n = 16 + n + n * n + n * n * n"

lemma file_pos_0 [simp]: "file_pos n 0 = {}"
  by (simp add: file_pos_def)

lemma file_pos_Suc: "file_pos n (Suc N) = file_pos n N \<union> {p. pwf n p \<and> pfirst n p = N}"
  by (auto simp: file_pos_def)

lemma pwf_cases:
  assumes "pwf n p"
  obtains r where "r < 19" "p = (r, [])"
  | a where "a < n" "p = (16, [a])"
  | a where "a < n" "p = (17, [a])"
  | a b where "a < n" "b < n" "p = (17, [a, b])"
  | a where "a < n" "p = (18, [a])"
  | a b where "a < n" "b < n" "p = (18, [a, b])"
  | a b c where "a < n" "b < n" "c < n" "p = (18, [a, b, c])"
proof -
  obtain r ks where p: "p = (r, ks)" by fastforce
  have w: "r < 19" "length ks \<le> r - 15" "\<forall>k \<in> set ks. k < n" using assms by (auto simp: pwf_def p)
  show ?thesis
  proof (cases ks)
    case Nil
    then show ?thesis using that(1) w p by simp
  next
    case (Cons a ks1)
    then have "r = 16 \<or> r = 17 \<or> r = 18" using w by simp linarith
    then show ?thesis
      using w p Cons that(2-7) by (cases ks1; cases "tl ks1"; cases "tl (tl ks1)") auto
  qed
qed

lemma fpath_pos:
  assumes "i < max_blocks n"
  shows "pwf n (fpath n i)" "pfirst n (fpath n i) = i" "leaf (fpath n i)"
proof -
  have "pwf n (fpath n i) \<and> pfirst n (fpath n i) = i \<and> leaf (fpath n i)"
  proof (cases "i < 16 + n")
    case True
    then show ?thesis by (auto simp: fpath_def pwf_def leaf_def)
  next
    case False
    define j where "j = i - 16 - n"
    have i: "i = 16 + n + j" using False by (simp add: j_def)
    show ?thesis
    proof (cases "j < n * n")
      case True
      then have "0 < n" "j div n < n" by (auto simp: less_mult_imp_div_less intro: Nat.gr0I)
      then show ?thesis using True by (simp add: fpath_def pwf_def leaf_def Let_def i)
    next
      case f: False
      define t where "t = j - n * n"
      have j: "j = n * n + t" using f by (simp add: t_def)
      have "t < n * n * n" using assms by (simp add: max_blocks_def i j)
      then have n: "0 < n" and "t div (n * n) < n"
        by (auto simp: less_mult_imp_div_less mult.commute intro: Nat.gr0I)
      moreover have "t div (n * n) * (n * n) + (t div n mod n * n + t mod n) = t"
        by (metis add.commute div_mult2_eq div_mult_mod_eq mod_mult2_eq mult.commute)
      ultimately show ?thesis by (simp add: fpath_def pwf_def leaf_def Let_def i j add.assoc)
    qed
  qed
  then show "pwf n (fpath n i)" "pfirst n (fpath n i) = i" "leaf (fpath n i)" by auto
qed

lemma fpath_in: "i < N \<Longrightarrow> i < max_blocks n \<Longrightarrow> fpath n i \<in> file_pos n N"
  using fpath_pos [of i n] by (simp add: file_pos_def)

lemma digits2: "b < n \<Longrightarrow> a * n + b = j \<longleftrightarrow> a = j div n \<and> b = j mod (n :: nat)"
  by auto

lemma digits3:
  assumes "b < n" "c < n"
  shows "a * (n * n) + b * n + c = t \<longleftrightarrow> a = t div (n * n) \<and> b = t div n mod n \<and> c = t mod (n :: nat)"
proof -
  have "a * (n * n) + b * n + c = (a * n + b) * n + c" by (simp add: algebra_simps)
  then have "a * (n * n) + b * n + c = t \<longleftrightarrow> a * n + b = t div n \<and> c = t mod n"
    using digits2 [OF assms(2), of "a * n + b" t] by simp
  also have "a * n + b = t div n \<longleftrightarrow> a = t div n div n \<and> b = t div n mod n" by (rule digits2 [OF assms(1)])
  finally show ?thesis by (auto simp: div_mult2_eq)
qed

lemma two_digits_bound: "a < n \<Longrightarrow> b < n \<Longrightarrow> a * n + b < n * (n :: nat)"
proof -
  assume "a < n" "b < n"
  then have "a * n + b < Suc a * n" by simp
  also have "\<dots> \<le> n * n" using \<open>a < n\<close> by (intro mult_le_mono1) simp
  finally show ?thesis .
qed

lemma pfirst_level:
  assumes "pwf n p" "0 < n"
  shows "if fst p < 16 then pfirst n p < 16
    else if fst p = 16 then 16 \<le> pfirst n p \<and> pfirst n p < 16 + n
    else if fst p = 17 then 16 + n \<le> pfirst n p \<and> pfirst n p < 16 + n + n * n
    else 16 + n + n * n \<le> pfirst n p"
  using assms(1)
proof (cases rule: pwf_cases)
  case (3 a)
  then show ?thesis using two_digits_bound [of a n 0] assms(2) by simp
next
  case (4 a b)
  then show ?thesis using two_digits_bound [of a n b] by simp
qed (use assms(2) in auto)

definition new_pos :: "nat \<Rightarrow> nat \<Rightarrow> pos set" where
  "new_pos n N = {p. pwf n p \<and> pfirst n p = N}"

lemma new_pos_0: "0 < n \<Longrightarrow> N < 16 \<Longrightarrow> new_pos n N = {(N, [])}"
proof (intro set_eqI iffI)
  fix p assume "0 < n" "N < 16" "p \<in> new_pos n N"
  then have w: "pwf n p" "pfirst n p = N" by (auto simp: new_pos_def)
  then have "fst p < 16" using pfirst_level [OF w(1) \<open>0 < n\<close>] \<open>N < 16\<close> by (auto split: if_splits)
  with w show "p \<in> {(N, [])}" by (cases rule: pwf_cases [OF w(1)]) auto
qed (auto simp: new_pos_def pwf_def)

lemma new_pos_1:
  assumes "i < n"
  shows "new_pos n (16 + i) = (if i = 0 then {(16, []), (16, [0])} else {(16, [i])})"
proof (intro set_eqI iffI)
  fix p assume "p \<in> new_pos n (16 + i)"
  then have w: "pwf n p" "pfirst n p = 16 + i" by (auto simp: new_pos_def)
  have "0 < n" using assms by simp
  from pfirst_level [OF w(1) this] have "fst p = 16" using w(2) assms by (auto split: if_splits)
  with w show "p \<in> (if i = 0 then {(16, []), (16, [0])} else {(16, [i])})"
    by (cases rule: pwf_cases [OF w(1)]) auto
qed (use assms in \<open>auto simp: new_pos_def pwf_def split: if_splits\<close>)

lemma new_pos_2:
  assumes "j < n * n"
  shows "new_pos n (16 + n + j) =
    (if j = 0 then {(17, []), (17, [0]), (17, [0, 0])}
     else if j mod n = 0 then {(17, [j div n]), (17, [j div n, 0])}
     else {(17, [j div n, j mod n])})" (is "_ = ?R")
proof (intro set_eqI iffI)
  have n: "0 < n" using assms by (auto intro: Nat.gr0I)
  have jd: "j div n < n" "j mod n < n" using assms n by (auto simp: less_mult_imp_div_less)
  {
    fix p assume "p \<in> new_pos n (16 + n + j)"
    then have w: "pwf n p" "pfirst n p = 16 + n + j" by (auto simp: new_pos_def)
    from pfirst_level [OF w(1) n] have r: "fst p = 17" using w(2) assms by (auto split: if_splits)
    show "p \<in> ?R"
    proof (cases rule: pwf_cases [OF w(1)])
      case (3 a)
      then have "a * n = j" using w(2) by simp
      then show ?thesis using 3 n by auto
    next
      case (4 a b)
      then have "a = j div n \<and> b = j mod n" using w(2) digits2 [OF 4(2), of a j] by simp
      then show ?thesis using 4 by auto
    qed (use r w in auto)
  next
    fix p assume "p \<in> ?R"
    moreover have "j mod n = 0 \<Longrightarrow> j div n * n = j" by auto
    ultimately show "p \<in> new_pos n (16 + n + j)"
      using n jd by (auto simp: new_pos_def pwf_def split: if_splits)
  }
qed

lemma new_pos_3:
  assumes "t < n * n * n"
  shows "new_pos n (16 + n + n * n + t) =
    (let a = t div (n * n); b = t div n mod n; c = t mod n in
     if t = 0 then {(18, []), (18, [0]), (18, [0, 0]), (18, [0, 0, 0])}
     else if c = 0 \<and> b = 0 then {(18, [a]), (18, [a, 0]), (18, [a, 0, 0])}
     else if c = 0 then {(18, [a, b]), (18, [a, b, 0])}
     else {(18, [a, b, c])})" (is "_ = ?R")
proof (intro set_eqI iffI)
  have n: "0 < n" using assms by (auto intro: Nat.gr0I)
  have td: "t div (n * n) < n" "t div n mod n < n" "t mod n < n"
    using assms n by (auto simp: less_mult_imp_div_less mult.commute)
  have dig: "t div (n * n) * (n * n) + t div n mod n * n + t mod n = t"
    using digits3 [OF td(2,3), of "t div (n * n)" t] by simp
  {
    fix p assume "p \<in> new_pos n (16 + n + n * n + t)"
    then have w: "pwf n p" "pfirst n p = 16 + n + n * n + t" by (auto simp: new_pos_def)
    from pfirst_level [OF w(1) n] have r: "fst p \<ge> 18" using w(2) by (auto split: if_splits)
    show "p \<in> ?R"
    proof (cases rule: pwf_cases [OF w(1)])
      case (5 a)
      then have "a * (n * n) + 0 * n + 0 = t" using w(2) by simp
      then have "a = t div (n * n)" "0 = t div n mod n" "0 = t mod n" using digits3 [OF n n, of a t] by blast+
      then show ?thesis using 5 by (auto simp: Let_def)
    next
      case (6 a b)
      then have "a * (n * n) + b * n + 0 = t" using w(2) by simp
      then have "a = t div (n * n)" "b = t div n mod n" "0 = t mod n" using digits3 [OF 6(2) n, of a t] by blast+
      then show ?thesis using 6 by (auto simp: Let_def)
    next
      case (7 a b c)
      then have "a * (n * n) + b * n + c = t" using w(2) by simp
      then have "a = t div (n * n)" "b = t div n mod n" "c = t mod n" using digits3 [OF 7(2,3), of a t] by blast+
      then show ?thesis using 7 by (auto simp: Let_def)
    qed (use r w in \<open>auto simp: Let_def\<close>)
  next
    fix p assume "p \<in> ?R"
    then show "p \<in> new_pos n (16 + n + n * n + t)"
      using n td dig by (auto simp: new_pos_def pwf_def Let_def split: if_splits)
  }
qed

section \<open>One step of growing\<close>

lemma tree_vsame: "vsame ct s s' \<Longrightarrow> tree_ok ct s' addr S L \<longleftrightarrow> tree_ok ct s addr S L"
  by (simp add: tree_ok_def vsameD(1,3,4) ufs_datablock_number_sanity_def per_block_def)

lemma grow_vsame: "grow ct s addr S L s1 a1 S1 L1 \<Longrightarrow> vsame ct s1 s2 \<Longrightarrow> grow ct s addr S L s2 a1 S1 L1"
  unfolding grow_def using tree_vsame [of ct s1 s2 a1 S1 L1] frest_vrest [OF vsameD(2) [of ct s1 s2]]
  by (simp add: vsameD(1))

lemma tree_link:
  assumes g: "bgood os ct k s L" and t: "tree_ok ct s addr S L" and p: "(r, ks @ [i]) \<in> S"
  obtains s' where
    "ufs_datablock_link os s (node (vview ct s) addr (r, ks)) i = Some (node (vview ct s) addr (r, ks @ [i]), s')"
    "bgood os ct k s' L" "vsame ct s s'"
proof -
  have "ufs_datablock_number_sanity s (node (vview ct s) addr (r, ks))"
    using tree_okD(5) [OF t tree_okD(2) [OF t p]] .
  moreover have "ufs_datablock_number_sanity s (get32 (vview ct s (node (vview ct s) addr (r, ks))) (4 * i))"
    using tree_okD(5) [OF t p] by (simp add: node_snoc)
  ultimately show ?thesis
    using good_link [OF g _ tree_okD(3) [OF t p]] that by (simp add: node_snoc) metis
qed

definition with_addr :: "minode \<Rightarrow> u32 list \<Rightarrow> minode" where
  "with_addr m a = m\<lparr>mi_dinode := (mi_dinode m)\<lparr>di_addr := a\<rparr>\<rparr>"

abbreviation m_addr :: "minode \<Rightarrow> u32 list" where
  "m_addr m \<equiv> di_addr (mi_dinode m)"

lemma with_addr_simps [simp]:
  "m_addr (with_addr m a) = a" "with_addr (with_addr m a) b = with_addr m b" "with_addr m (m_addr m) = m"
  "mi_inode_number (with_addr m a) = mi_inode_number m"
  "di_filesize (mi_dinode (with_addr m a)) = di_filesize (mi_dinode m)"
  by (simp_all add: with_addr_def)

lemma set_addr_eq: "i < length (m_addr m) \<Longrightarrow> set_addr i b m = Some (with_addr m ((m_addr m)[i := b]))"
  by (simp add: set_addr_def with_addr_def)

lemma get_addr_eq: "i < length (m_addr m) \<Longrightarrow> get_addr m i = Some (m_addr m ! i)"
  by (simp add: get_addr_def nth_opt_def)

text \<open>\<open>stage\<close>: what has been built since \<open>s0\<close>, on a volume that works.\<close>

definition stage :: "'d os \<Rightarrow> ('d \<Rightarrow> u32 \<Rightarrow> block) \<Rightarrow> 'd vol \<Rightarrow> u32 list \<Rightarrow> pos set \<Rightarrow> u32 list \<Rightarrow>
    nat \<Rightarrow> 'd vol \<Rightarrow> u32 list \<Rightarrow> pos set \<Rightarrow> u32 list \<Rightarrow> bool" where
  "stage os ct s0 a0 S0 L0 k s a S L \<longleftrightarrow> grow ct s0 a0 S0 L0 s a S L \<and> bgood os ct k s L"

lemma stage_refl: "bgood os ct k s L \<Longrightarrow> tree_ok ct s a S L \<Longrightarrow> stage os ct s a S L k s a S L"
  by (simp add: stage_def grow_refl)

lemma stage_tree: "stage os ct s0 a0 S0 L0 k s a S L \<Longrightarrow> tree_ok ct s a S L"
  by (auto simp: stage_def dest: growD(1))

lemma stage_mono: "stage os ct s0 a0 S0 L0 k s a S L \<Longrightarrow> j \<le> k \<Longrightarrow> stage os ct s0 a0 S0 L0 j s a S L"
  by (auto simp: stage_def intro: bgood_mono)

lemma stage_root:
  assumes st0: "stage os ct s0 a0 S0 L0 K s a S (b # L)" and K: "Suc k \<le> K" and p: "(r, []) \<notin> S" "r < 19"
  obtains s' where "ufs_datablock_allocate os s = Some (RcOk, b, s')"
    "stage os ct s0 a0 S0 L0 k s' (a[r := b]) (insert (r, []) S) L"
    "node (vview ct s') (a[r := b]) (r, []) = b" "b \<noteq> 0"
proof -
  note st = stage_mono [OF st0 K]
  show ?thesis
    by (rule grow_root [OF conjunct2 [OF st [unfolded stage_def]] stage_tree [OF st] p])
       (use that grow_trans [OF conjunct1 [OF st [unfolded stage_def]]] in \<open>auto simp: stage_def\<close>)
qed

lemma stage_leaf:
  assumes st0: "stage os ct s0 a0 S0 L0 K s a S (b # L)" and K: "Suc (Suc k) \<le> K"
    and p: "(r, ks) \<in> S" "(r, ks @ [i]) \<notin> S" "i < per_block s0" "\<not> leaf (r, ks)"
  obtains s' where "ufs_datablock_add_leaf os s (node (vview ct s) a (r, ks)) i = Some (b, s')"
    "stage os ct s0 a0 S0 L0 k s' a (insert (r, ks @ [i]) S) L"
    "node (vview ct s') a (r, ks @ [i]) = b" "b \<noteq> 0"
    "\<And>q. q \<in> S \<Longrightarrow> node (vview ct s') a q = node (vview ct s) a q"
proof -
  have gr: "grow ct s0 a0 S0 L0 s a S (b # L)" and g: "bgood os ct (Suc (Suc k)) s (b # L)"
    using stage_mono [OF st0 K] by (simp_all add: stage_def)
  have i: "i < per_block s" using p(3) frest_geom(2) [OF growD(2) [OF gr]] by simp
  obtain s' where l: "ufs_datablock_add_leaf os s (node (vview ct s) a (r, ks)) i = Some (b, s')"
    "bgood os ct k s' L" "grow ct s a S (b # L) s' a (insert (r, ks @ [i]) S) L"
    "node (vview ct s') a (r, ks @ [i]) = b" "b \<noteq> 0"
    by (rule grow_leaf [OF g growD(1) [OF gr] p(1,2) i p(4)])
  have "stage os ct s0 a0 S0 L0 k s' a (insert (r, ks @ [i]) S) L"
    using grow_trans [OF gr l(3)] l(2) by (simp add: stage_def)
  then show ?thesis using that l(1,4,5) growD(5) [OF l(3)] by blast
qed

lemma stage_link:
  assumes st: "stage os ct s0 a0 S0 L0 k s a S L" and p: "(r, ks @ [i]) \<in> S"
  obtains s' where
    "ufs_datablock_link os s (node (vview ct s) a (r, ks)) i = Some (node (vview ct s) a (r, ks @ [i]), s')"
    "stage os ct s0 a0 S0 L0 k s' a S L" "vview ct s' = vview ct s"
proof -
  have gr: "grow ct s0 a0 S0 L0 s a S L" and g: "bgood os ct k s L" using st by (simp_all add: stage_def)
  obtain s' where l:
    "ufs_datablock_link os s (node (vview ct s) a (r, ks)) i = Some (node (vview ct s) a (r, ks @ [i]), s')"
    "bgood os ct k s' L" "vsame ct s s'" by (rule tree_link [OF g growD(1) [OF gr] p])
  show ?thesis by (rule that [OF l(1)]) (use l(2,3) grow_vsame [OF gr l(3)] in \<open>simp_all add: stage_def vsameD(1)\<close>)
qed

definition grown :: "'d os \<Rightarrow> ('d \<Rightarrow> u32 \<Rightarrow> block) \<Rightarrow> nat \<Rightarrow> 'd vol \<Rightarrow> minode \<Rightarrow> pos set \<Rightarrow> u32 list \<Rightarrow>
    u32 \<Rightarrow> minode \<Rightarrow> 'd vol \<Rightarrow> pos set \<Rightarrow> bool" where
  "grown os ct k s m S L b m' s' S' \<longleftrightarrow> b \<noteq> 0 \<and> m' = with_addr m (m_addr m')
     \<and> (\<exists>L'. grow ct s (m_addr m) S L s' (m_addr m') S' L' \<and> bgood os ct k s' L' \<and> length L \<le> length L' + 4)"

lemma four_blocks:
  assumes "4 \<le> length L"
  obtains b1 b2 b3 b4 L' where "L = b1 # b2 # b3 # b4 # L'"
  using assms by (cases L; cases "tl L"; cases "tl (tl L)"; cases "tl (tl (tl L))") auto

lemma not_in_file_pos: "N \<le> pfirst n p \<Longrightarrow> p \<notin> file_pos n N"
  by (simp add: file_pos_def)

lemma file_pos_step: "file_pos n (Suc N) = new_pos n N \<union> file_pos n N"
  by (auto simp: file_pos_Suc new_pos_def)

lemma idx_adrm: "idx (adrm_of (r, ks)) i =
    (if i < length (if ks = [] then [r] else ks) then Some (unat (of_nat ((if ks = [] then [r] else ks) ! i) :: u32))
     else None)"
  by (simp add: idx_def adrm_of_def nth_opt_def)

lemma level_adrm [simp]: "am_level (adrm_of (r, ks)) = length ks"
  by (simp add: adrm_of_def)

lemma per_block_bound: "bgood os ct k s L \<Longrightarrow> 128 \<le> per_block s \<and> per_block s < 2 ^ 14"
proof -
  assume g: "bgood os ct k s L"
  have "4 * per_block s = unat (v_blksize s)" using per_block_size [OF g] .
  moreover have "512 \<le> unat (v_blksize s)" using g by (simp add: bgood_def fgood_def free_ok_def)
  moreover have "unat (v_blksize s) < 2 ^ 16" using unsigned_less [of "v_blksize s"] by simp
  ultimately show ?thesis by simp
qed

lemma small_index: "i < 2 ^ 14 \<Longrightarrow> unat (of_nat i :: u32) = i"
  by (rule unat_of_nat32) simp

text \<open>Level 0: a direct address.\<close>

lemma step_direct:
  assumes g: "bgood os ct (k + 7) s L" and t: "tree_ok ct s (m_addr m) (file_pos n N) L"
    and n: "n = per_block s" and N: "N < 16" and L: "4 \<le> length L"
  shows "\<exists>b m' s'. expand_step os s m blk (adrm_of (fpath n (N - 1))) (adrm_of (fpath n N)) = Some (Inr (Some b), m', s')
    \<and> grown os ct k s m (file_pos n N) L b m' s' (file_pos n (Suc N))"
proof -
  obtain b1 b2 b3 b4 L' where Lb: "L = b1 # b2 # b3 # b4 # L'" using L by (rule four_blocks)
  have g1: "bgood os ct (Suc k) s (b1 # b2 # b3 # b4 # L')" using bgood_mono [OF g, of "Suc k"] Lb by simp
  have n0: "0 < n" using per_block_bound [OF g] n by simp
  have notin: "(N, []) \<notin> file_pos n N" using N by (intro not_in_file_pos) simp
  obtain s' where a: "ufs_datablock_allocate os s = Some (RcOk, b1, s')" "bgood os ct k s' (b2 # b3 # b4 # L')"
    "grow ct s (m_addr m) (file_pos n N) L s' ((m_addr m)[N := b1]) (insert (N, []) (file_pos n N)) (b2 # b3 # b4 # L')"
    "b1 \<noteq> 0"
    using grow_root [OF g1 t [unfolded Lb] notin] N Lb by auto
  have len: "length (m_addr m) = 19" using tree_okD(1) [OF t] .
  have S: "insert (N, []) (file_pos n N) = file_pos n (Suc N)"
    by (simp add: file_pos_step new_pos_0 [OF n0 N])
  have "expand_step os s m blk (adrm_of (fpath n (N - 1))) (adrm_of (fpath n N))
      = Some (Inr (Some b1), with_addr m ((m_addr m)[N := b1]), s')"
    using N less_imp_diff_less [OF N, of 1] a(1) len
    by (simp add: expand_step_def fpath_def idx_adrm small_index set_addr_eq)
  moreover have "grown os ct k s m (file_pos n N) L b1 (with_addr m ((m_addr m)[N := b1])) s' (file_pos n (Suc N))"
    unfolding grown_def using a(2-4) Lb by (auto simp: S)
  ultimately show ?thesis by blast
qed


lemma grownI:
  assumes "stage os ct s (m_addr m) S L k s' a S' L'" "b \<noteq> 0" "length L \<le> length L' + 4"
  shows "grown os ct k s m S L b (with_addr m a) s' S'"
  using assms by (auto simp: grown_def stage_def)

lemma fpath_1: "i < n \<Longrightarrow> fpath n (16 + i) = (16, [i])"
  by (simp add: fpath_def)

lemma fpath_2: "j < n * n \<Longrightarrow> fpath n (16 + n + j) = (17, [j div n, j mod n])"
  by (simp add: fpath_def Let_def)

lemma fpath_3: "fpath n (16 + n + n * n + t) = (18, [t div (n * n), t div n mod n, t mod n])"
  by (simp add: fpath_def Let_def)

lemma fpath_level: "length (snd (fpath n i)) =
    (if i < 16 then 0 else if i < 16 + n then 1 else if i < 16 + n + n * n then 2 else 3)"
  by (simp add: fpath_def Let_def) linarith

lemma adrm_level [simp]: "am_level (adrm_of p) = length (snd p)"
  by (cases p) simp

text \<open>Level 1: the index block and its first entry, or one more entry.\<close>

lemma step_1:
  assumes g: "bgood os ct (k + 7) s L" and t: "tree_ok ct s (m_addr m) (file_pos n N) L"
    and n: "n = per_block s" and N: "N = 16 + i" "i < n" and L: "4 \<le> length L"
  shows "\<exists>b m' s'. expand_step os s m blk (adrm_of (fpath n (N - 1))) (adrm_of (fpath n N)) = Some (Inr (Some b), m', s')
    \<and> grown os ct k s m (file_pos n N) L b m' s' (file_pos n (Suc N))"
proof -
  obtain b1 b2 b3 b4 L' where Lb: "L = b1 # b2 # b3 # b4 # L'" using L by (rule four_blocks)
  let ?F = "file_pos n N" and ?a = "m_addr m"
  let ?a1 = "?a[16 := b1]"
  have nb: "128 \<le> n" "n < 2 ^ 14" using per_block_bound [OF g] n by simp_all
  have len: "length ?a = 19" using tree_okD(1) [OF t] .
  note st = stage_refl [OF g [unfolded Lb] t [unfolded Lb]]
  have np: "fpath n N = (16, [i])" using N fpath_1 by simp
  have S: "file_pos n (Suc N) = new_pos n N \<union> ?F" by (rule file_pos_step)
  show ?thesis
  proof (cases "i = 0")
    case True
    have notin: "(16, ks) \<notin> ?F" for ks using N True by (intro not_in_file_pos) simp
    obtain s1 where a1: "ufs_datablock_allocate os s = Some (RcOk, b1, s1)"
      "stage os ct s ?a ?F L (k + 6) s1 ?a1 (insert (16, []) ?F) (b2 # b3 # b4 # L')"
      "node (vview ct s1) ?a1 (16, []) = b1" "b1 \<noteq> 0"
      by (rule stage_root [OF st, of "k + 6" 16]) (use Lb notin in auto)
    obtain s2 where a2: "ufs_datablock_add_leaf os s1 (node (vview ct s1) ?a1 (16, [])) 0 = Some (b2, s2)"
      "stage os ct s ?a ?F L (k + 4) s2 ?a1 (insert (16, [0]) (insert (16, []) ?F)) (b3 # b4 # L')" "b2 \<noteq> 0"
      by (rule stage_leaf [OF a1(2), of "k + 4" 16 "[]" 0])
         (use notin nb n in \<open>auto simp: leaf_def\<close>)
    have lv: "length (snd (fpath n (N - 1))) = 0" using N True by (simp add: fpath_level)
    have "expand_step os s m blk (adrm_of (fpath n (N - 1))) (adrm_of (fpath n N))
        = Some (Inr (Some b2), with_addr m ?a1, s2)"
      using a1(1,3) a2(1) len lv by (simp add: expand_step_def expand_level_def np set_addr_eq)
    moreover have "insert (16, [0]) (insert (16, []) ?F) = file_pos n (Suc N)"
      unfolding S using new_pos_1 [OF N(2)] True N(1) by auto
    moreover have "grown os ct k s m ?F L b2 (with_addr m ?a1) s2 (insert (16, [0]) (insert (16, []) ?F))"
      by (rule grownI [OF stage_mono [OF a2(2)] a2(3)]) (simp_all add: Lb)
    ultimately show ?thesis by auto
  next
    case False
    then have in1: "(16, []) \<in> ?F" using N by (simp add: file_pos_def pwf_def)
    have notin: "(16, [i]) \<notin> ?F" using N by (intro not_in_file_pos) simp
    obtain s2 where a2: "ufs_datablock_add_leaf os s (node (vview ct s) ?a (16, [])) i = Some (b1, s2)"
      "stage os ct s ?a ?F L (k + 5) s2 ?a (insert (16, [i]) ?F) (b2 # b3 # b4 # L')" "b1 \<noteq> 0"
      by (rule stage_leaf [OF st, of "k + 5" 16 "[]" i])
         (use in1 notin N(2) n Lb in \<open>auto simp: leaf_def\<close>)
    have lv: "length (snd (fpath n (N - 1))) = 1" using N False by (simp add: fpath_level)
    have "expand_step os s m blk (adrm_of (fpath n (N - 1))) (adrm_of (fpath n N))
        = Some (Inr (Some b1), with_addr m ?a, s2)"
      using a2(1) len lv N(2) nb by (simp add: expand_step_def expand_same_def np get_addr_eq idx_adrm small_index)
    moreover have "insert (16, [i]) ?F = file_pos n (Suc N)"
      unfolding S using new_pos_1 [OF N(2)] False N(1) by auto
    moreover have "grown os ct k s m ?F L b1 (with_addr m ?a) s2 (insert (16, [i]) ?F)"
      by (rule grownI [OF stage_mono [OF a2(2)] a2(3)]) (simp_all add: Lb)
    ultimately show ?thesis by auto
  qed
qed


text \<open>Level 2: the three blocks of a new tree, a new index block and its first entry, or one more entry.\<close>

lemma div_step: "0 < (n :: nat) \<Longrightarrow> 0 < j \<Longrightarrow> (j - 1) div n = j div n \<longleftrightarrow> j mod n \<noteq> 0"
proof -
  assume n: "0 < n" and j: "0 < j"
  obtain i where "j = Suc i" using j by (cases j) auto
  then show ?thesis by (simp add: div_Suc mod_Suc)
qed

lemma step_2:
  assumes g: "bgood os ct (k + 7) s L" and t: "tree_ok ct s (m_addr m) (file_pos n N) L"
    and n: "n = per_block s" and N: "N = 16 + n + j" "j < n * n" and L: "4 \<le> length L"
  shows "\<exists>b m' s'. expand_step os s m blk (adrm_of (fpath n (N - 1))) (adrm_of (fpath n N)) = Some (Inr (Some b), m', s')
    \<and> grown os ct k s m (file_pos n N) L b m' s' (file_pos n (Suc N))"
proof -
  obtain b1 b2 b3 b4 L' where Lb: "L = b1 # b2 # b3 # b4 # L'" using L by (rule four_blocks)
  let ?F = "file_pos n N" and ?a = "m_addr m"
  let ?a1 = "?a[17 := b1]"
  have nb: "128 \<le> n" "n < 2 ^ 14" using per_block_bound [OF g] n by simp_all
  have len: "length ?a = 19" using tree_okD(1) [OF t] .
  note st = stage_refl [OF g [unfolded Lb] t [unfolded Lb]]
  have np: "fpath n N = (17, [j div n, j mod n])" unfolding N(1) by (rule fpath_2 [OF N(2)])
  have dj: "j div n < n" "j mod n < n" using N(2) nb by (simp_all add: less_mult_imp_div_less)
  have S: "file_pos n (Suc N) = new_pos n N \<union> ?F" by (rule file_pos_step)
  note S = S [unfolded new_pos_2 [OF N(2), folded N(1)]]
  show ?thesis
  proof (cases "j = 0")
    case True
    have notin: "(17, ks) \<notin> ?F" for ks using N True by (intro not_in_file_pos) simp
    obtain s1 where a1: "ufs_datablock_allocate os s = Some (RcOk, b1, s1)"
      "stage os ct s ?a ?F (b1 # b2 # b3 # b4 # L') (k + 6) s1 ?a1 (insert (17, []) ?F) (b2 # b3 # b4 # L')"
      "node (vview ct s1) ?a1 (17, []) = b1" "b1 \<noteq> 0"
      by (rule stage_root [OF st, of "k + 6" 17]) (use notin in auto)
    obtain s2 where a2: "ufs_datablock_add_leaf os s1 (node (vview ct s1) ?a1 (17, [])) 0 = Some (b2, s2)"
      "stage os ct s ?a ?F (b1 # b2 # b3 # b4 # L') (k + 4) s2 ?a1 (insert (17, [0]) (insert (17, []) ?F)) (b3 # b4 # L')"
      "node (vview ct s2) ?a1 (17, [0]) = b2"
      by (rule stage_leaf [OF a1(2), of "k + 4" 17 "[]" 0]) (use notin nb n in \<open>auto simp: leaf_def\<close>)
    obtain s3 where a3: "ufs_datablock_add_leaf os s2 (node (vview ct s2) ?a1 (17, [0])) 0 = Some (b3, s3)"
      "stage os ct s ?a ?F (b1 # b2 # b3 # b4 # L') (k + 2) s3 ?a1
         (insert (17, [0, 0]) (insert (17, [0]) (insert (17, []) ?F))) (b4 # L')" "b3 \<noteq> 0"
      by (rule stage_leaf [OF a2(2), of "k + 2" 17 "[0]" 0]) (use notin nb n in \<open>auto simp: leaf_def\<close>)
    have lv: "length (snd (fpath n (N - 1))) = 1" using N True nb by (simp add: fpath_level)
    have "expand_step os s m blk (adrm_of (fpath n (N - 1))) (adrm_of (fpath n N))
        = Some (Inr (Some b3), with_addr m ?a1, s3)"
      using a1(1,3) a2(1,3) a3(1) len lv by (simp add: expand_step_def expand_level_def np set_addr_eq)
    moreover have "insert (17, [0, 0]) (insert (17, [0]) (insert (17, []) ?F)) = file_pos n (Suc N)"
      unfolding S using True by auto
    moreover have "grown os ct k s m ?F L b3 (with_addr m ?a1) s3
        (insert (17, [0, 0]) (insert (17, [0]) (insert (17, []) ?F)))"
      by (rule grownI [OF stage_mono [OF a3(2) [folded Lb]] a3(3)]) (simp_all add: Lb)
    ultimately show ?thesis by auto
  next
    case j: False
    have lv: "length (snd (fpath n (N - 1))) = 2" using N j nb by (simp add: fpath_level)
    have "fpath n (N - 1) = fpath n (16 + n + (j - 1))" using N j by simp
    then have op: "fpath n (N - 1) = (17, [(j - 1) div n, (j - 1) mod n])" using fpath_2 [of "j - 1" n] N(2) by simp
    have oi: "(j - 1) div n < n" using N(2) by (simp add: less_mult_imp_div_less)
    have in0: "(17, []) \<in> ?F" using N j by (simp add: file_pos_def pwf_def)
    have notin: "(17, [j div n, j mod n]) \<notin> ?F" using N by (intro not_in_file_pos) simp
    have small: "j div n < 2 ^ 14" "j mod n < 2 ^ 14" "(j - 1) div n < 2 ^ 14"
      by (rule less_trans [OF dj(1) nb(2)], rule less_trans [OF dj(2) nb(2)], rule less_trans [OF oi nb(2)])
    note ix = small_index [OF small(1)] small_index [OF small(2)] small_index [OF small(3)]
    show ?thesis
    proof (cases "j mod n = 0")
      case True
      then have e: "j div n * n = j" by auto
      then have notin1: "(17, [j div n]) \<notin> ?F" using N by (intro not_in_file_pos) simp
      obtain s1 where a1: "ufs_datablock_add_leaf os s (node (vview ct s) ?a (17, [])) (j div n) = Some (b1, s1)"
        "stage os ct s ?a ?F (b1 # b2 # b3 # b4 # L') (k + 5) s1 ?a (insert (17, [j div n]) ?F) (b2 # b3 # b4 # L')"
        "node (vview ct s1) ?a (17, [j div n]) = b1"
        by (rule stage_leaf [OF st, of "k + 5" 17 "[]" "j div n"]) (use in0 notin1 dj n in \<open>auto simp: leaf_def\<close>)
      obtain s2 where a2: "ufs_datablock_link os s1 (node (vview ct s1) ?a (17, [])) (j div n) = Some (b1, s2)"
        "stage os ct s ?a ?F (b1 # b2 # b3 # b4 # L') (k + 5) s2 ?a (insert (17, [j div n]) ?F) (b2 # b3 # b4 # L')"
        "vview ct s2 = vview ct s1"
        by (rule stage_link [OF a1(2), of 17 "[]" "j div n"]) (use a1(3) in auto)
      obtain s3 where a3: "ufs_datablock_add_leaf os s2 (node (vview ct s2) ?a (17, [j div n])) 0 = Some (b2, s3)"
        "stage os ct s ?a ?F (b1 # b2 # b3 # b4 # L') (k + 3) s3 ?a
           (insert (17, [j div n, 0]) (insert (17, [j div n]) ?F)) (b3 # b4 # L')" "b2 \<noteq> 0"
        by (rule stage_leaf [OF a2(2), of "k + 3" 17 "[j div n]" 0]) (use notin True nb n in \<open>auto simp: leaf_def\<close>)
      have "expand_step os s m blk (adrm_of (fpath n (N - 1))) (adrm_of (fpath n N))
          = Some (Inr (Some b2), with_addr m ?a, s3)"
        using a1(1,3) a2(1,3) a3(1) len lv ix True j nb div_step [of n j]
        by (simp add: expand_step_def expand_same_def np op [simplified] get_addr_eq idx_adrm)
      moreover have "insert (17, [j div n, 0]) (insert (17, [j div n]) ?F) = file_pos n (Suc N)"
        unfolding S using True j by auto
      moreover have "grown os ct k s m ?F L b2 (with_addr m ?a) s3 (insert (17, [j div n, 0]) (insert (17, [j div n]) ?F))"
        by (rule grownI [OF stage_mono [OF a3(2) [folded Lb]] a3(3)]) (simp_all add: Lb)
      ultimately show ?thesis by auto
    next
      case False
      have "j div n * n + j mod n = j" by simp
      then have "j div n * n < j" using False by linarith
      then have in1: "(17, [j div n]) \<in> ?F" using N dj by (simp add: file_pos_def pwf_def)
      obtain s2 where a2: "ufs_datablock_link os s (node (vview ct s) ?a (17, [])) (j div n)
          = Some (node (vview ct s) ?a (17, [j div n]), s2)"
        "stage os ct s ?a ?F (b1 # b2 # b3 # b4 # L') (k + 7) s2 ?a ?F (b1 # b2 # b3 # b4 # L')"
        "vview ct s2 = vview ct s"
        by (rule stage_link [OF st, of 17 "[]" "j div n"]) (use in1 in auto)
      obtain s3 where a3: "ufs_datablock_add_leaf os s2 (node (vview ct s2) ?a (17, [j div n])) (j mod n) = Some (b1, s3)"
        "stage os ct s ?a ?F (b1 # b2 # b3 # b4 # L') (k + 5) s3 ?a (insert (17, [j div n, j mod n]) ?F) (b2 # b3 # b4 # L')"
        "b1 \<noteq> 0"
        by (rule stage_leaf [OF a2(2), of "k + 5" 17 "[j div n]" "j mod n"])
           (use in1 notin dj n in \<open>auto simp: leaf_def\<close>)
      have "expand_step os s m blk (adrm_of (fpath n (N - 1))) (adrm_of (fpath n N))
          = Some (Inr (Some b1), with_addr m ?a, s3)"
        using a2(1,3) a3(1) len lv ix False j nb div_step [of n j]
        by (simp add: expand_step_def expand_same_def np op [simplified] get_addr_eq idx_adrm)
      moreover have "insert (17, [j div n, j mod n]) ?F = file_pos n (Suc N)"
        unfolding S using False j by auto
      moreover have "grown os ct k s m ?F L b1 (with_addr m ?a) s3 (insert (17, [j div n, j mod n]) ?F)"
        by (rule grownI [OF stage_mono [OF a3(2) [folded Lb]] a3(3)]) (simp_all add: Lb)
      ultimately show ?thesis by auto
    qed
  qed
qed


text \<open>Level 3, one lemma per case: the first block, a new index block at the first or at the second level, or none.\<close>

lemma step_3_first:
  assumes g: "bgood os ct (k + 7) s L" and t: "tree_ok ct s (m_addr m) (file_pos n N) L"
    and n: "n = per_block s" and N: "N = 16 + n + n * n" and L: "4 \<le> length L"
  shows "\<exists>b m' s'. expand_step os s m blk (adrm_of (fpath n (N - 1))) (adrm_of (fpath n N)) = Some (Inr (Some b), m', s')
    \<and> grown os ct k s m (file_pos n N) L b m' s' (file_pos n (Suc N))"
proof -
  obtain b1 b2 b3 b4 L' where Lb: "L = b1 # b2 # b3 # b4 # L'" using L by (rule four_blocks)
  let ?F = "file_pos n N" and ?a = "m_addr m"
  let ?a1 = "?a[18 := b1]"
  have nb: "128 \<le> n" "n < 2 ^ 14" using per_block_bound [OF g] n by simp_all
  have len: "length ?a = 19" using tree_okD(1) [OF t] .
  note st = stage_refl [OF g [unfolded Lb] t [unfolded Lb]]
  have np: "fpath n N = (18, [0, 0, 0])" unfolding N using fpath_3 [of n 0] by simp
  have notin: "(18, ks) \<notin> ?F" for ks using N by (intro not_in_file_pos) simp
  obtain s1 where a1: "ufs_datablock_allocate os s = Some (RcOk, b1, s1)"
    "stage os ct s ?a ?F (b1 # b2 # b3 # b4 # L') (k + 6) s1 ?a1 (insert (18, []) ?F) (b2 # b3 # b4 # L')"
    "node (vview ct s1) ?a1 (18, []) = b1"
    by (rule stage_root [OF st, of "k + 6" 18]) (use notin in auto)
  obtain s2 where a2: "ufs_datablock_add_leaf os s1 (node (vview ct s1) ?a1 (18, [])) 0 = Some (b2, s2)"
    "stage os ct s ?a ?F (b1 # b2 # b3 # b4 # L') (k + 4) s2 ?a1 (insert (18, [0]) (insert (18, []) ?F)) (b3 # b4 # L')"
    "node (vview ct s2) ?a1 (18, [0]) = b2"
    by (rule stage_leaf [OF a1(2), of "k + 4" 18 "[]" 0]) (use notin nb n in \<open>auto simp: leaf_def\<close>)
  obtain s3 where a3: "ufs_datablock_add_leaf os s2 (node (vview ct s2) ?a1 (18, [0])) 0 = Some (b3, s3)"
    "stage os ct s ?a ?F (b1 # b2 # b3 # b4 # L') (k + 2) s3 ?a1
       (insert (18, [0, 0]) (insert (18, [0]) (insert (18, []) ?F))) (b4 # L')"
    "node (vview ct s3) ?a1 (18, [0, 0]) = b3"
    by (rule stage_leaf [OF a2(2), of "k + 2" 18 "[0]" 0]) (use notin nb n in \<open>auto simp: leaf_def\<close>)
  obtain s4 where a4: "ufs_datablock_add_leaf os s3 (node (vview ct s3) ?a1 (18, [0, 0])) 0 = Some (b4, s4)"
    "stage os ct s ?a ?F (b1 # b2 # b3 # b4 # L') k s4 ?a1
       (insert (18, [0, 0, 0]) (insert (18, [0, 0]) (insert (18, [0]) (insert (18, []) ?F)))) L'" "b4 \<noteq> 0"
    by (rule stage_leaf [OF a3(2), of k 18 "[0, 0]" 0]) (use notin nb n in \<open>auto simp: leaf_def\<close>)
  have lv: "length (snd (fpath n (N - 1))) = 2" using N nb by (simp add: fpath_level)
  have "expand_step os s m blk (adrm_of (fpath n (N - 1))) (adrm_of (fpath n N))
      = Some (Inr (Some b4), with_addr m ?a1, s4)"
    using a1(1,3) a2(1,3) a3(1,3) a4(1) len lv by (simp add: expand_step_def expand_level_def np set_addr_eq)
  moreover have "insert (18, [0, 0, 0]) (insert (18, [0, 0]) (insert (18, [0]) (insert (18, []) ?F)))
      = file_pos n (Suc N)"
    unfolding file_pos_step using new_pos_3 [of 0 n] nb N by auto
  moreover have "grown os ct k s m ?F L b4 (with_addr m ?a1) s4
      (insert (18, [0, 0, 0]) (insert (18, [0, 0]) (insert (18, [0]) (insert (18, []) ?F))))"
    by (rule grownI [OF stage_mono [OF a4(2) [folded Lb]] a4(3)]) (simp_all add: Lb)
  ultimately show ?thesis by auto
qed

text \<open>The paths of the last block and of the next one in a level 3 tree that exists.\<close>

definition l3 :: "nat \<Rightarrow> nat \<Rightarrow> nat \<Rightarrow> nat \<Rightarrow> nat \<Rightarrow> nat \<Rightarrow> bool" where
  "l3 n N t a b c \<longleftrightarrow> N = 16 + n + n * n + t \<and> 0 < t \<and> t < n * n * n \<and>
     a = t div (n * n) \<and> b = t div n mod n \<and> c = t mod n"

lemma l3_paths:
  assumes "l3 n N t a b c" "2 \<le> n"
  obtains oa ob oc where "fpath n N = (18, [a, b, c])" "fpath n (N - 1) = (18, [oa, ob, oc])"
    "oa < n" "ob < n" "oc < n" "a < n" "b < n" "c < n" "oa \<noteq> a \<longleftrightarrow> b = 0 \<and> c = 0" "ob \<noteq> b \<longleftrightarrow> c = 0"
    "t = a * (n * n) + b * n + c"
proof -
  have h: "N = 16 + n + n * n + t" "0 < t" "t < n * n * n" "a = t div (n * n)" "b = t div n mod n" "c = t mod n"
    using assms(1) by (simp_all add: l3_def)
  have op: "fpath n (N - 1) = (18, [(t - 1) div (n * n), (t - 1) div n mod n, (t - 1) mod n])"
    using fpath_3 [of n "t - 1"] h(1,2) by simp
  have np: "fpath n N = (18, [a, b, c])" unfolding h(1) fpath_3 by (simp add: h(4-6))
  have "t - 1 < n * n * n" using h(3) by simp
  then have lt: "a < n" "(t - 1) div (n * n) < n"
    using h(3,4) by (simp_all add: less_mult_imp_div_less mult.commute)
  have lt2: "b < n" "c < n" "(t - 1) div n mod n < n" "(t - 1) mod n < n" using assms(2) h(5,6) by auto
  have dig: "t = a * (n * n) + b * n + c" using digits3 [OF lt2(1,2), of a t] h(4-6) by simp
  have n0: "0 < n" using assms(2) by simp
  have step: "(t - 1) div n = (if c = 0 then t div n - 1 else t div n)"
    using div_step [OF n0 h(2)] h(2,6) n0 by (cases t) (auto simp: div_Suc mod_Suc)
  have mod2: "t mod (n * n) = b * n + c"
    using h(5,6) by (simp add: mod_mult2_eq)
  have "0 < n * n" using n0 by simp
  from div_step [OF this h(2)] have "(t - 1) div (n * n) \<noteq> a \<longleftrightarrow> b = 0 \<and> c = 0"
    using mod2 h(4) n0 by auto
  moreover have "(t - 1) div n mod n \<noteq> b \<longleftrightarrow> c = 0"
  proof (cases "c = 0")
    case True
    then have "0 < t div n" using h(2,6) n0 by (metis add.right_neutral div_mult_mod_eq gr0I mult_is_0)
    then obtain q where q: "t div n = Suc q" by (cases "t div n") auto
    have "q mod n \<noteq> Suc q mod n" using assms(2) by (auto simp: mod_Suc)
    then show ?thesis using True step q h(5) by simp
  next
    case False
    then show ?thesis using step h(5) by simp
  qed
  ultimately show ?thesis using that [OF np op lt(2) lt2(3,4) lt(1) lt2(1,2) _ _ dig] by blast
qed


lemma new_pos_l3:
  assumes "l3 n N t a b c"
  shows "new_pos n N = (if c = 0 \<and> b = 0 then {(18, [a]), (18, [a, 0]), (18, [a, 0, 0])}
     else if c = 0 then {(18, [a, b]), (18, [a, b, 0])} else {(18, [a, b, c])})"
proof -
  have h: "N = 16 + n + n * n + t" "0 < t" "t < n * n * n" "a = t div (n * n)" "b = t div n mod n" "c = t mod n"
    using assms by (simp_all add: l3_def)
  show ?thesis unfolding h(1) new_pos_3 [OF h(3)] using h(2,4-6) by (simp add: Let_def)
qed

lemma step_3_eq:
  assumes "fpath n N = (18, [a, b, c])" "fpath n (N - 1) = (18, [oa, ob, oc])" "length (m_addr m) = 19"
    "a < 2 ^ 14" "b < 2 ^ 14" "c < 2 ^ 14" "oa < 2 ^ 14" "ob < 2 ^ 14"
  shows "expand_step os s m blk (adrm_of (fpath n (N - 1))) (adrm_of (fpath n N)) =
    (let r = m_addr m ! 18 in
     do { (_, s) \<leftarrow> (if oa \<noteq> a then ufs_datablock_add_leaf os s r a else Some (0, s));
          s \<leftarrow> (if ob \<noteq> b then do { (x, s) \<leftarrow> ufs_datablock_link os s r a;
                                     (_, s) \<leftarrow> ufs_datablock_add_leaf os s x b; Some s } else Some s);
          (x, s) \<leftarrow> ufs_datablock_link os s r a;
          (x, s) \<leftarrow> ufs_datablock_link os s x b;
          (x, s) \<leftarrow> ufs_datablock_add_leaf os s x c;
          Some (Inr (Some x), m, s) })"
proof -
  note ix = small_index [OF assms(4)] small_index [OF assms(5)] small_index [OF assms(6)]
    small_index [OF assms(7)] small_index [OF assms(8)]
  show ?thesis
    unfolding assms(1,2) using assms(3)
    by (simp add: expand_step_def expand_same_def get_addr_eq idx_adrm ix split_def Let_def)
qed

lemma l3_root: "l3 n N t a b c \<Longrightarrow> (18, []) \<in> file_pos n N"
  by (auto simp: l3_def file_pos_def pwf_def)

lemma step_3_leaf:
  assumes g: "bgood os ct (k + 7) s L" and t: "tree_ok ct s (m_addr m) (file_pos n N) L"
    and n: "n = per_block s" and l: "l3 n N j a b c" and c: "c \<noteq> 0" and L: "4 \<le> length L"
  shows "\<exists>x m' s'. expand_step os s m blk (adrm_of (fpath n (N - 1))) (adrm_of (fpath n N)) = Some (Inr (Some x), m', s')
    \<and> grown os ct k s m (file_pos n N) L x m' s' (file_pos n (Suc N))"
proof -
  obtain b1 b2 b3 b4 L' where Lb: "L = b1 # b2 # b3 # b4 # L'" using L by (rule four_blocks)
  let ?F = "file_pos n N" and ?a = "m_addr m"
  have nb: "128 \<le> n" "n < 2 ^ 14" "2 \<le> n" using per_block_bound [OF g] n by simp_all
  obtain oa ob oc where p: "fpath n N = (18, [a, b, c])" "fpath n (N - 1) = (18, [oa, ob, oc])"
    "oa < n" "ob < n" "oc < n" "a < n" "b < n" "c < n" "oa \<noteq> a \<longleftrightarrow> b = 0 \<and> c = 0" "ob \<noteq> b \<longleftrightarrow> c = 0"
    "j = a * (n * n) + b * n + c" by (rule l3_paths [OF l nb(3)])
  have N: "N = 16 + n + n * n + j" using l by (simp add: l3_def)
  note lt = less_trans [OF _ nb(2)]
  note eq = step_3_eq [OF p(1,2) tree_okD(1) [OF t] p(6-8,3,4) [THEN lt]]
  note st = stage_refl [OF g [unfolded Lb] t [unfolded Lb]]
  have ina: "(18, [a]) \<in> ?F" "(18, [a, b]) \<in> ?F" using N p(6,7,11) c by (auto simp: file_pos_def pwf_def)
  have notin: "(18, [a, b, c]) \<notin> ?F" using N p(11) by (intro not_in_file_pos) simp
  obtain s1 where a1: "ufs_datablock_link os s (node (vview ct s) ?a (18, [])) a = Some (node (vview ct s) ?a (18, [a]), s1)"
    "stage os ct s ?a ?F (b1 # b2 # b3 # b4 # L') (k + 7) s1 ?a ?F (b1 # b2 # b3 # b4 # L')" "vview ct s1 = vview ct s"
    by (rule stage_link [OF st, of 18 "[]" a]) (use ina in auto)
  obtain s2 where a2: "ufs_datablock_link os s1 (node (vview ct s) ?a (18, [a])) b = Some (node (vview ct s) ?a (18, [a, b]), s2)"
    "stage os ct s ?a ?F (b1 # b2 # b3 # b4 # L') (k + 7) s2 ?a ?F (b1 # b2 # b3 # b4 # L')" "vview ct s2 = vview ct s"
    by (rule stage_link [OF a1(2), of 18 "[a]" b]) (use ina a1(3) in auto)
  obtain s3 where a3: "ufs_datablock_add_leaf os s2 (node (vview ct s) ?a (18, [a, b])) c = Some (b1, s3)"
    "stage os ct s ?a ?F (b1 # b2 # b3 # b4 # L') (k + 5) s3 ?a (insert (18, [a, b, c]) ?F) (b2 # b3 # b4 # L')" "b1 \<noteq> 0"
    by (rule stage_leaf [OF a2(2), of "k + 5" 18 "[a, b]" c]) (use ina notin p(8) n a2(3) in \<open>auto simp: leaf_def\<close>)
  have "expand_step os s m blk (adrm_of (fpath n (N - 1))) (adrm_of (fpath n N)) = Some (Inr (Some b1), with_addr m ?a, s3)"
    unfolding eq using a1(1) a2(1) a3(1) p(9,10) c by simp
  moreover have "insert (18, [a, b, c]) ?F = file_pos n (Suc N)"
    unfolding file_pos_step new_pos_l3 [OF l] using c by simp
  moreover have "grown os ct k s m ?F L b1 (with_addr m ?a) s3 (insert (18, [a, b, c]) ?F)"
    by (rule grownI [OF stage_mono [OF a3(2) [folded Lb]] a3(3)]) (simp_all add: Lb)
  ultimately show ?thesis by auto
qed

lemma step_3_index:
  assumes g: "bgood os ct (k + 7) s L" and t: "tree_ok ct s (m_addr m) (file_pos n N) L"
    and n: "n = per_block s" and l: "l3 n N j a b 0" and b: "b \<noteq> 0" and L: "4 \<le> length L"
  shows "\<exists>x m' s'. expand_step os s m blk (adrm_of (fpath n (N - 1))) (adrm_of (fpath n N)) = Some (Inr (Some x), m', s')
    \<and> grown os ct k s m (file_pos n N) L x m' s' (file_pos n (Suc N))"
proof -
  obtain b1 b2 b3 b4 L' where Lb: "L = b1 # b2 # b3 # b4 # L'" using L by (rule four_blocks)
  let ?F = "file_pos n N" and ?a = "m_addr m"
  have nb: "128 \<le> n" "n < 2 ^ 14" "2 \<le> n" using per_block_bound [OF g] n by simp_all
  obtain oa ob oc where p: "fpath n N = (18, [a, b, 0])" "fpath n (N - 1) = (18, [oa, ob, oc])"
    "oa < n" "ob < n" "oc < n" "a < n" "b < n" "0 < n" "oa \<noteq> a \<longleftrightarrow> b = 0 \<and> (0 :: nat) = 0" "ob \<noteq> b \<longleftrightarrow> (0 :: nat) = 0"
    "j = a * (n * n) + b * n + 0" by (rule l3_paths [OF l nb(3)])
  have N: "N = 16 + n + n * n + j" using l by (simp add: l3_def)
  note lt = less_trans [OF _ nb(2)]
  note eq = step_3_eq [OF p(1,2) tree_okD(1) [OF t] p(6-8,3,4) [THEN lt]]
  note st = stage_refl [OF g [unfolded Lb] t [unfolded Lb]]
  have ina: "(18, [a]) \<in> ?F" using N p(6,11) b p(8) by (auto simp: file_pos_def pwf_def)
  have notin: "(18, [a, b]) \<notin> ?F" "(18, [a, b, 0]) \<notin> ?F" using N p(11) by (intro not_in_file_pos; simp)+
  let ?F1 = "insert (18, [a, b]) ?F"
  obtain s1 where a1: "ufs_datablock_link os s (node (vview ct s) ?a (18, [])) a = Some (node (vview ct s) ?a (18, [a]), s1)"
    "stage os ct s ?a ?F (b1 # b2 # b3 # b4 # L') (k + 7) s1 ?a ?F (b1 # b2 # b3 # b4 # L')" "vview ct s1 = vview ct s"
    by (rule stage_link [OF st, of 18 "[]" a]) (use ina in auto)
  obtain s2 where a2: "ufs_datablock_add_leaf os s1 (node (vview ct s) ?a (18, [a])) b = Some (b1, s2)"
    "stage os ct s ?a ?F (b1 # b2 # b3 # b4 # L') (k + 5) s2 ?a ?F1 (b2 # b3 # b4 # L')"
    "node (vview ct s2) ?a (18, [a, b]) = b1"
    by (rule stage_leaf [OF a1(2), of "k + 5" 18 "[a]" b]) (use ina notin p(7) n a1(3) in \<open>auto simp: leaf_def\<close>)
  obtain s3 where a3: "ufs_datablock_link os s2 (node (vview ct s2) ?a (18, [])) a = Some (node (vview ct s2) ?a (18, [a]), s3)"
    "stage os ct s ?a ?F (b1 # b2 # b3 # b4 # L') (k + 5) s3 ?a ?F1 (b2 # b3 # b4 # L')" "vview ct s3 = vview ct s2"
    by (rule stage_link [OF a2(2), of 18 "[]" a]) (use ina in auto)
  obtain s4 where a4: "ufs_datablock_link os s3 (node (vview ct s3) ?a (18, [a])) b = Some (node (vview ct s3) ?a (18, [a, b]), s4)"
    "stage os ct s ?a ?F (b1 # b2 # b3 # b4 # L') (k + 5) s4 ?a ?F1 (b2 # b3 # b4 # L')" "vview ct s4 = vview ct s3"
    by (rule stage_link [OF a3(2), of 18 "[a]" b]) auto
  obtain s5 where a5: "ufs_datablock_add_leaf os s4 (node (vview ct s4) ?a (18, [a, b])) 0 = Some (b2, s5)"
    "stage os ct s ?a ?F (b1 # b2 # b3 # b4 # L') (k + 3) s5 ?a (insert (18, [a, b, 0]) ?F1) (b3 # b4 # L')" "b2 \<noteq> 0"
    by (rule stage_leaf [OF a4(2), of "k + 3" 18 "[a, b]" 0]) (use notin p(8) n in \<open>auto simp: leaf_def\<close>)
  have "expand_step os s m blk (adrm_of (fpath n (N - 1))) (adrm_of (fpath n N)) = Some (Inr (Some b2), with_addr m ?a, s5)"
    unfolding eq using a1(1) a2(1,3) a3(1,3) a4(1,3) a5(1) p(9,10) b by simp
  moreover have "insert (18, [a, b, 0]) ?F1 = file_pos n (Suc N)"
    unfolding file_pos_step new_pos_l3 [OF l] using b by auto
  moreover have "grown os ct k s m ?F L b2 (with_addr m ?a) s5 (insert (18, [a, b, 0]) ?F1)"
    by (rule grownI [OF stage_mono [OF a5(2) [folded Lb]] a5(3)]) (simp_all add: Lb)
  ultimately show ?thesis by auto
qed

lemma step_3_indexes:
  assumes g: "bgood os ct (k + 7) s L" and t: "tree_ok ct s (m_addr m) (file_pos n N) L"
    and n: "n = per_block s" and l: "l3 n N j a 0 0" and L: "4 \<le> length L"
  shows "\<exists>x m' s'. expand_step os s m blk (adrm_of (fpath n (N - 1))) (adrm_of (fpath n N)) = Some (Inr (Some x), m', s')
    \<and> grown os ct k s m (file_pos n N) L x m' s' (file_pos n (Suc N))"
proof -
  obtain b1 b2 b3 b4 L' where Lb: "L = b1 # b2 # b3 # b4 # L'" using L by (rule four_blocks)
  let ?F = "file_pos n N" and ?a = "m_addr m"
  have nb: "128 \<le> n" "n < 2 ^ 14" "2 \<le> n" using per_block_bound [OF g] n by simp_all
  obtain oa ob oc where p: "fpath n N = (18, [a, 0, 0])" "fpath n (N - 1) = (18, [oa, ob, oc])"
    "oa < n" "ob < n" "oc < n" "a < n" "0 < n" "0 < n" "oa \<noteq> a \<longleftrightarrow> (0 :: nat) = 0 \<and> (0 :: nat) = 0"
    "ob \<noteq> 0 \<longleftrightarrow> (0 :: nat) = 0" "j = a * (n * n) + 0 * n + 0" by (rule l3_paths [OF l nb(3)])
  have N: "N = 16 + n + n * n + j" using l by (simp add: l3_def)
  note lt = less_trans [OF _ nb(2)]
  note eq = step_3_eq [OF p(1,2) tree_okD(1) [OF t] p(6-8,3,4) [THEN lt]]
  note st = stage_refl [OF g [unfolded Lb] t [unfolded Lb]]
  have root: "(18, []) \<in> ?F" by (rule l3_root [OF l])
  have notin: "(18, [a]) \<notin> ?F" "(18, [a, 0]) \<notin> ?F" "(18, [a, 0, 0]) \<notin> ?F"
    using N p(11) by (intro not_in_file_pos; simp)+
  let ?F1 = "insert (18, [a]) ?F"
  let ?F2 = "insert (18, [a, 0]) ?F1"
  obtain s1 where a1: "ufs_datablock_add_leaf os s (node (vview ct s) ?a (18, [])) a = Some (b1, s1)"
    "stage os ct s ?a ?F (b1 # b2 # b3 # b4 # L') (k + 5) s1 ?a ?F1 (b2 # b3 # b4 # L')"
    by (rule stage_leaf [OF st, of "k + 5" 18 "[]" a]) (use root notin p(6) n in \<open>auto simp: leaf_def\<close>)
  obtain s2 where a2: "ufs_datablock_link os s1 (node (vview ct s1) ?a (18, [])) a = Some (node (vview ct s1) ?a (18, [a]), s2)"
    "stage os ct s ?a ?F (b1 # b2 # b3 # b4 # L') (k + 5) s2 ?a ?F1 (b2 # b3 # b4 # L')" "vview ct s2 = vview ct s1"
    by (rule stage_link [OF a1(2), of 18 "[]" a]) auto
  obtain s3 where a3: "ufs_datablock_add_leaf os s2 (node (vview ct s2) ?a (18, [a])) 0 = Some (b2, s3)"
    "stage os ct s ?a ?F (b1 # b2 # b3 # b4 # L') (k + 3) s3 ?a ?F2 (b3 # b4 # L')"
    by (rule stage_leaf [OF a2(2), of "k + 3" 18 "[a]" 0]) (use notin p(7) n in \<open>auto simp: leaf_def\<close>)
  obtain s4 where a4: "ufs_datablock_link os s3 (node (vview ct s3) ?a (18, [])) a = Some (node (vview ct s3) ?a (18, [a]), s4)"
    "stage os ct s ?a ?F (b1 # b2 # b3 # b4 # L') (k + 3) s4 ?a ?F2 (b3 # b4 # L')" "vview ct s4 = vview ct s3"
    by (rule stage_link [OF a3(2), of 18 "[]" a]) auto
  obtain s5 where a5: "ufs_datablock_link os s4 (node (vview ct s4) ?a (18, [a])) 0 = Some (node (vview ct s4) ?a (18, [a, 0]), s5)"
    "stage os ct s ?a ?F (b1 # b2 # b3 # b4 # L') (k + 3) s5 ?a ?F2 (b3 # b4 # L')" "vview ct s5 = vview ct s4"
    by (rule stage_link [OF a4(2), of 18 "[a]" 0]) auto
  obtain s6 where a6: "ufs_datablock_add_leaf os s5 (node (vview ct s5) ?a (18, [a, 0])) 0 = Some (b3, s6)"
    "stage os ct s ?a ?F (b1 # b2 # b3 # b4 # L') (k + 1) s6 ?a (insert (18, [a, 0, 0]) ?F2) (b4 # L')" "b3 \<noteq> 0"
    by (rule stage_leaf [OF a5(2), of "k + 1" 18 "[a, 0]" 0]) (use notin p(8) n in \<open>auto simp: leaf_def\<close>)
  have "expand_step os s m blk (adrm_of (fpath n (N - 1))) (adrm_of (fpath n N)) = Some (Inr (Some b3), with_addr m ?a, s6)"
    unfolding eq using a1(1) a2(1,3) a3(1) a4(1,3) a5(1,3) a6(1) p(9,10) by simp
  moreover have "insert (18, [a, 0, 0]) ?F2 = file_pos n (Suc N)"
    unfolding file_pos_step new_pos_l3 [OF l] by auto
  moreover have "grown os ct k s m ?F L b3 (with_addr m ?a) s6 (insert (18, [a, 0, 0]) ?F2)"
    by (rule grownI [OF stage_mono [OF a6(2) [folded Lb]] a6(3)]) (simp_all add: Lb)
  ultimately show ?thesis by auto
qed


lemma expand_step_ok:
  assumes g: "bgood os ct (k + 7) s L" and t: "tree_ok ct s (m_addr m) (file_pos n N) L"
    and n: "n = per_block s" and N: "N < max_blocks n" and L: "4 \<le> length L"
  shows "\<exists>b m' s'. expand_step os s m blk (adrm_of (fpath n (N - 1))) (adrm_of (fpath n N)) = Some (Inr (Some b), m', s')
    \<and> grown os ct k s m (file_pos n N) L b m' s' (file_pos n (Suc N))"
proof -
  note rules = g t n
  consider "N < 16" | i where "N = 16 + i" "i < n" | j where "N = 16 + n + j" "j < n * n"
    | "N = 16 + n + n * n" | j where "N = 16 + n + n * n + j" "0 < j" "j < n * n * n"
  proof -
    have "16 \<le> N \<Longrightarrow> N = 16 + (N - 16)" "16 + n \<le> N \<Longrightarrow> N = 16 + n + (N - 16 - n)"
      "16 + n + n * n \<le> N \<Longrightarrow> N = 16 + n + n * n + (N - 16 - n - n * n)" by simp_all
    moreover have "16 + n + n * n \<le> N \<Longrightarrow> N - 16 - n - n * n < n * n * n" using N by (simp add: max_blocks_def)
    moreover have "N < 16 + n + n * n \<Longrightarrow> 16 + n \<le> N \<Longrightarrow> N - 16 - n < n * n" by linarith
    moreover have "N < 16 + n \<Longrightarrow> 16 \<le> N \<Longrightarrow> N - 16 < n" by linarith
    moreover have "16 + n + n * n \<le> N \<Longrightarrow> N \<noteq> 16 + n + n * n \<Longrightarrow> 0 < N - 16 - n - n * n" by linarith
    ultimately show ?thesis using that by (metis not_less)
  qed
  then show ?thesis
  proof cases
    case (5 j)
    then have l: "l3 n N j (j div (n * n)) (j div n mod n) (j mod n)" by (simp add: l3_def)
    consider "j mod n \<noteq> 0" | "j mod n = 0" "j div n mod n \<noteq> 0" | "j mod n = 0" "j div n mod n = 0" by blast
    then show ?thesis
    proof cases
      case 1
      show ?thesis by (rule step_3_leaf [OF rules l 1 L])
    next
      case 2
      show ?thesis by (rule step_3_index [OF rules l [unfolded 2(1)] 2(2) L])
    next
      case 3
      show ?thesis by (rule step_3_indexes [OF rules l [unfolded 3] L])
    qed
  qed (use step_direct [OF rules _ L] step_1 [OF rules _ _ L] step_2 [OF rules _ _ L] step_3_first [OF rules _ L] in blast)+
qed

section \<open>Growing a file\<close>

lemma grownD:
  assumes "grown os ct k s m S L b m' s' S'"
  obtains L' where "b \<noteq> 0" "m' = with_addr m (m_addr m')" "grow ct s (m_addr m) S L s' (m_addr m') S' L'"
    "bgood os ct k s' L'" "length L \<le> length L' + 4" "tree_ok ct s' (m_addr m') S' L'" "frest s' = frest s"
  using assms growD(1,2) unfolding grown_def by metis

text \<open>\<open>blocks bs sz\<close>: the blocks a file of \<open>sz\<close> bytes takes.\<close>

definition blocks :: "nat \<Rightarrow> nat \<Rightarrow> nat" where
  "blocks bs sz = (sz + bs - 1) div bs"

lemma blocks_Suc: "0 < bs \<Longrightarrow> blocks bs (Suc x) = x div bs + 1"
  using div_add_self2 [of bs x] by (simp add: blocks_def)

lemma blocks_0 [simp]: "0 < bs \<Longrightarrow> blocks bs 0 = 0"
  by (simp add: blocks_def)

lemma blocks_pos: "0 < bs \<Longrightarrow> 0 < sz \<Longrightarrow> blocks bs sz = (sz - 1) div bs + 1"
  by (cases sz) (simp_all add: blocks_Suc)

lemma blocks_add:
  assumes "0 < bs" shows "blocks bs (sz + i * bs) = blocks bs sz + i"
proof (cases sz)
  case 0
  then show ?thesis using assms
    by (cases i; cases bs) (simp_all add: blocks_def div_nat_eqI)
next
  case (Suc x)
  then show ?thesis using assms by (simp add: blocks_Suc)
qed

text \<open>The geometries whose files the address arithmetic can address.\<close>

definition good_blksize :: "'d vol \<Rightarrow> bool" where
  "good_blksize s \<longleftrightarrow> unat (v_blksize s) \<le> 2048"

lemma geom_shift_le: "geom s \<Longrightarrow> good_blksize s \<Longrightarrow> unat (sb_blksize_shift (v_sb s)) \<le> 11"
proof (rule ccontr)
  assume g: "geom s" "good_blksize s" and "\<not> unat (sb_blksize_shift (v_sb s)) \<le> 11"
  then have "(2 :: nat) ^ 12 \<le> 2 ^ unat (sb_blksize_shift (v_sb s))" by (intro power_increasing) simp_all
  also have "\<dots> = unat (v_blksize s)" using g by (simp add: geom_def)
  finally show False using g by (simp add: good_blksize_def)
qed

lemma addr_blocks:
  assumes "geom s" "good_blksize s" "unat sz \<le> 2 ^ 31"
  shows "ufs_datablock_addr s sz = Some (RcOk, adrm_of (fpath (per_block s) (blocks (unat (v_blksize s)) (unat sz) - 1)))"
proof -
  have bs: "0 < unat (v_blksize s)" using assms(1) by (simp add: geom_def)
  show ?thesis
  proof (cases "sz = 0")
    case True
    then show ?thesis using bs by (simp add: ufs_datablock_addr_def fpath_def adrm_of_def)
  next
    case False
    then have "0 < unat sz" by (metis unat_eq_zero gr0I)
    then show ?thesis
      using addr_path [OF assms(1) geom_shift_le [OF assms(1,2)] _ assms(3)] bs by (simp add: blocks_pos)
  qed
qed


lemma offset_word:
  assumes "unat (old :: u32) + (unat i + 1) * unat (b :: u16) \<le> 2 ^ 31"
    and "unat i < 2 ^ 31"
  shows "unat (old + (i + 1) * ucast b) = unat old + (unat i + 1) * unat b" "unat (i + 1) = unat i + 1"
proof -
  show i: "unat (i + 1) = unat i + 1" using assms(2) by (simp add: unat_word_ariths)
  have "(unat i + 1) * unat b < 2 ^ 32" using assms(1) by simp
  then have m: "unat ((i + 1) * ucast b) = (unat i + 1) * unat b" using unat_mult32 [of "i + 1" "ucast b"] i by simp
  have "unat old + unat ((i + 1) * ucast b) < 2 ^ 32" using assms(1) m by simp
  then have "unat (old + (i + 1) * ucast b) = unat old + unat ((i + 1) * ucast b)"
    by (simp only: unat_word_ariths) simp
  then show "unat (old + (i + 1) * ucast b) = unat old + (unat i + 1) * unat b" using m by simp
qed

lemma expand_loop_ok:
  assumes "bgood os ct (k + 7 * c) s L" "tree_ok ct s (m_addr m) (file_pos n N) L" "n = per_block s" "good_blksize s"
    and "N + c \<le> max_blocks n" "4 * c \<le> length L" "N = blocks (unat (v_blksize s)) (unat old) + unat i"
    and "unat old + (unat i + c) * unat (v_blksize s) \<le> 2 ^ 31" "oldmap = adrm_of (fpath n (N - 1))"
  shows "\<exists>m' s' L'. expand_loop os c s old i oldmap blk backup m = Some (RcOk, m', s')
    \<and> m' = with_addr m (m_addr m') \<and> grow ct s (m_addr m) (file_pos n N) L s' (m_addr m') (file_pos n (N + c)) L'
    \<and> bgood os ct k s' L' \<and> length L \<le> length L' + 4 * c"
  using assms
proof (induction c arbitrary: s L m N i oldmap blk)
  case 0
  then show ?case using grow_refl [OF 0(2)] by (intro exI [of _ m] exI [of _ s] exI [of _ L]) simp
next
  case (Suc c)
  let ?bs = "unat (v_blksize s)"
  have g: "geom s" using Suc.prems(1) by (simp add: bgood_def)
  have bs: "0 < ?bs" using g by (simp add: geom_def)
  have "(unat i + 1) * ?bs \<le> (unat i + Suc c) * ?bs" by (intro mult_le_mono1) simp
  then have b1: "unat old + (unat i + 1) * ?bs \<le> 2 ^ 31" using Suc.prems(8) by linarith
  have "unat i * 1 \<le> unat i * ?bs" using bs by (intro mult_le_mono) simp_all
  also have "\<dots> < (unat i + 1) * ?bs" using bs by simp
  also have "\<dots> \<le> 2 ^ 31" using b1 by linarith
  finally have ib: "unat i < 2 ^ 31" by simp
  note w = offset_word [OF b1 ib]
  have "blocks ?bs (unat (old + (i + 1) * ucast (v_blksize s))) = Suc N"
    using blocks_add [OF bs, of "unat old" "unat i + 1"] Suc.prems(7) unfolding w(1) by simp
  then have a: "ufs_datablock_addr s (old + (i + 1) * ucast (v_blksize s)) = Some (RcOk, adrm_of (fpath n N))"
    using addr_blocks [OF g Suc.prems(4)] b1 w(1) Suc.prems(3) by simp
  have g7: "bgood os ct (k + 7 * c + 7) s L" using Suc.prems(1) by (rule bgood_mono) simp
  have "N < max_blocks n" "4 \<le> length L" using Suc.prems(5,6) by simp_all
  then obtain b m1 s1 where e:
    "expand_step os s m blk (adrm_of (fpath n (N - 1))) (adrm_of (fpath n N)) = Some (Inr (Some b), m1, s1)"
    and gr: "grown os ct (k + 7 * c) s m (file_pos n N) L b m1 s1 (file_pos n (Suc N))"
    using expand_step_ok [OF g7 Suc.prems(2,3)] by blast
  obtain L1 where r: "b \<noteq> 0" "m1 = with_addr m (m_addr m1)"
    "grow ct s (m_addr m) (file_pos n N) L s1 (m_addr m1) (file_pos n (Suc N)) L1" "bgood os ct (k + 7 * c) s1 L1"
    "length L \<le> length L1 + 4" "tree_ok ct s1 (m_addr m1) (file_pos n (Suc N)) L1" "frest s1 = frest s"
    by (rule grownD [OF gr])
  have bs1: "v_blksize s1 = v_blksize s" using frestD(1) [OF r(7)] by simp
  have "\<exists>m' s' L'. expand_loop os c s1 old (i + 1) (adrm_of (fpath n N)) (Some b) backup m1 = Some (RcOk, m', s')
    \<and> m' = with_addr m1 (m_addr m')
    \<and> grow ct s1 (m_addr m1) (file_pos n (Suc N)) L1 s' (m_addr m') (file_pos n (Suc N + c)) L'
    \<and> bgood os ct k s' L' \<and> length L1 \<le> length L' + 4 * c"
  proof (rule Suc.IH [OF r(4,6)])
    show "n = per_block s1" using Suc.prems(3) frest_geom(2) [OF r(7)] by simp
    show "good_blksize s1" using Suc.prems(4) bs1 by (simp add: good_blksize_def)
    show "Suc N + c \<le> max_blocks n" "4 * c \<le> length L1" using Suc.prems(5,6) r(5) by simp_all
    show "Suc N = blocks (unat (v_blksize s1)) (unat old) + unat (i + 1)" using Suc.prems(7) w(2) bs1 by simp
    show "unat old + (unat (i + 1) + c) * unat (v_blksize s1) \<le> 2 ^ 31" using Suc.prems(8) w(2) bs1 by simp
  qed simp
  then obtain m' s' L' where l: "expand_loop os c s1 old (i + 1) (adrm_of (fpath n N)) (Some b) backup m1 = Some (RcOk, m', s')"
    "m' = with_addr m1 (m_addr m')" "grow ct s1 (m_addr m1) (file_pos n (Suc N)) L1 s' (m_addr m') (file_pos n (Suc N + c)) L'"
    "bgood os ct k s' L'" "length L1 \<le> length L' + 4 * c" by blast
  have "expand_loop os (Suc c) s old i oldmap blk backup m = Some (RcOk, m', s')"
    using a e r(1) l(1) Suc.prems(9) by simp
  moreover have "m' = with_addr m (m_addr m')" using l(2) r(2) by (metis with_addr_simps(2))
  moreover have "grow ct s (m_addr m) (file_pos n N) L s' (m_addr m') (file_pos n (N + Suc c)) L'"
    using grow_trans [OF r(3) l(3)] by simp
  ultimately show ?case using l(4,5) r(5) by (intro exI [of _ m'] exI [of _ s'] exI [of _ L']) simp
qed


lemma nblk_blocks:
  assumes "geom s" "unat sz + unat (v_blksize s) \<le> 2 ^ 32"
  shows "unat (nblk s sz) = blocks (unat (v_blksize s)) (unat sz)"
proof -
  define k where "k = unat (sb_blksize_shift (v_sb s))"
  define a where "a = (ucast (v_blksize s) :: u32)"
  have bs: "unat (v_blksize s) = 2 ^ k" using assms(1) by (simp add: geom_def k_def)
  have "unat (v_blksize s) < 2 ^ 16" using unsigned_less [of "v_blksize s"] by simp
  then have "(2 :: nat) ^ k < 2 ^ 16" unfolding bs .
  then have k: "k < 32" using power_less_imp_less_exp [of "2 :: nat" k 16] by simp
  have a: "a = 2 ^ k" using bs unat_exp32 [OF k] by (simp add: word_unat_eq_iff a_def)
  show ?thesis
  proof (cases "sz = 0")
    case True
    have "(0 :: u32) + (a - 1) AND NOT (a - 1) = 0" by simp
    then show ?thesis using True bs
      by (simp add: nblk_def ufs_round_def flip: a_def)
  next
    case False
    then have p: "0 < unat sz" by (metis unat_eq_zero gr0I)
    have le: "unat sz + 2 ^ k \<le> 2 ^ 32" using assms(2) bs by simp
    show ?thesis
      unfolding nblk_def k_def [symmetric] a_def [symmetric] unat_drop_bit32
      using unat_round [OF a k p le] p bs by (simp add: blocks_pos)
  qed
qed

text \<open>The content of a file: its data blocks in the order of the code's address arithmetic.\<close>

definition file_block :: "('d \<Rightarrow> u32 \<Rightarrow> block) \<Rightarrow> 'd vol \<Rightarrow> u32 list \<Rightarrow> nat \<Rightarrow> block" where
  "file_block ct s addr i = vview ct s (node (vview ct s) addr (fpath (per_block s) i))"

definition file_blocks :: "('d \<Rightarrow> u32 \<Rightarrow> block) \<Rightarrow> 'd vol \<Rightarrow> minode \<Rightarrow> block list" where
  "file_blocks ct s m = map (file_block ct s (m_addr m))
     [0 ..< blocks (unat (v_blksize s)) (unat (di_filesize (mi_dinode m)))]"

definition m_pos :: "'d vol \<Rightarrow> minode \<Rightarrow> pos set" where
  "m_pos s m = file_pos (per_block s) (blocks (unat (v_blksize s)) (unat (di_filesize (mi_dinode m))))"

definition file_nodes :: "('d \<Rightarrow> u32 \<Rightarrow> block) \<Rightarrow> 'd vol \<Rightarrow> minode \<Rightarrow> u32 set" where
  "file_nodes ct s m = node (vview ct s) (m_addr m) ` m_pos s m"

text \<open>A file in order: its blocks are distinct data blocks, none of them free.\<close>

definition file_ok :: "('d \<Rightarrow> u32 \<Rightarrow> block) \<Rightarrow> 'd vol \<Rightarrow> minode \<Rightarrow> u32 list \<Rightarrow> bool" where
  "file_ok ct s m L \<longleftrightarrow> tree_ok ct s (m_addr m) (m_pos s m) L \<and> inode_num s (mi_inode_number m)
     \<and> wf_dinode (mi_dinode m) \<and> unat (di_filesize (mi_dinode m)) \<le> 2 ^ 31
     \<and> blocks (unat (v_blksize s)) (unat (di_filesize (mi_dinode m))) \<le> max_blocks (per_block s)"

lemma inode_block_low:
  assumes "geom s" "inode_num s n" "ufs_datablock_number_sanity s b"
  shows "b \<noteq> inode_block s n"
  using inode_location(2) [OF assms(1,2)] assms(3) by (auto simp: ufs_datablock_number_sanity_def)

lemma walk_update:
  "(\<And>j. j < length ks \<Longrightarrow> walk v a (take j ks) \<noteq> b) \<Longrightarrow> walk (v(b := x)) a ks = walk v a ks"
proof (induction ks arbitrary: a)
  case (Cons k ks)
  have "a \<noteq> b" using Cons.prems [of 0] by simp
  moreover have "walk v (get32 (v a) (4 * k)) (take j ks) \<noteq> b" if "j < length ks" for j
    using Cons.prems [of "Suc j"] that by simp
  ultimately show ?case using Cons.IH by simp
qed simp

lemma tree_prefix:
  assumes "tree_ok ct s addr S L" "(r, ks) \<in> S"
  shows "(r, take j ks) \<in> S"
  using assms(2)
proof (induction ks rule: rev_induct)
  case (snoc k ks)
  have "(r, ks) \<in> S" using tree_okD(2) [OF assms(1) snoc.prems] .
  then show ?case using snoc by (cases "j \<le> length ks") auto
qed simp

text \<open>A change of a block outside the tree leaves the tree as it is.\<close>

lemma node_outside:
  assumes "tree_ok ct s addr S L" "p \<in> S" "b \<notin> node (vview ct s) addr ` S"
  shows "node ((vview ct s)(b := x)) addr p = node (vview ct s) addr p"
proof -
  obtain r ks where p: "p = (r, ks)" by fastforce
  have "walk (vview ct s) (addr ! r) (take j ks) \<noteq> b" for j
    using tree_prefix [OF assms(1), of r ks j] assms(2,3) p by (force simp: node_def)
  then show ?thesis by (simp add: node_def p walk_update)
qed

lemma tree_outside:
  assumes t: "tree_ok ct s addr S L" and v: "vview ct s' = (vview ct s)(b := x)" and r: "vrest s' = vrest s"
    and b: "b \<notin> node (vview ct s) addr ` S"
  shows "tree_ok ct s' addr S L"
proof -
  have eq: "node (vview ct s') addr p = node (vview ct s) addr p" if "p \<in> S" for p
    using node_outside [OF t that b] v by simp
  have "inj_on (node (vview ct s') addr) S" using t eq by (simp add: tree_ok_def inj_on_def)
  moreover have "ufs_datablock_number_sanity s' = ufs_datablock_number_sanity s" "per_block s' = per_block s"
    using vrestD [OF r] by (auto simp: ufs_datablock_number_sanity_def per_block_def)
  ultimately show ?thesis using t eq by (simp add: tree_ok_def)
qed


lemma vrest_frest_geom:
  assumes "vrest s' = vrest s"
  shows "per_block s' = per_block s" "ufs_datablock_number_sanity s' = ufs_datablock_number_sanity s"
    "v_blksize s' = v_blksize s" "geom s' = geom s" "inode_num s' = inode_num s" "good_blksize s' = good_blksize s"
  using vrestD [OF assms] geom_rest [OF assms]
  by (auto simp: per_block_def ufs_datablock_number_sanity_def good_blksize_def)

text \<open>Writing back the inode of a file: its tree and the free list stay, the inode table has it.\<close>

lemma writeback_file:
  assumes g: "bgood os ct (Suc k) s L" and t: "tree_ok ct s (m_addr m) S L" and i: "inode_num s (mi_inode_number m)"
    and wf: "wf_dinode (mi_dinode m)"
  obtains s' where "ufs_inode_writeback os s m = Some (RcOk, m\<lparr>mi_flags := mi_flags m AND NOT MINODE_FLAG_DIRTY\<rparr>, s')"
    "bgood os ct k s' L" "vrest s' = vrest s" "tree_ok ct s' (m_addr m) S L"
    "\<And>x. x \<noteq> inode_block s (mi_inode_number m) \<Longrightarrow> vview ct s' x = vview ct s x"
    "\<And>p. p \<in> S \<Longrightarrow> node (vview ct s') (m_addr m) p = node (vview ct s) (m_addr m) p"
    "\<And>x. inode_num s x \<Longrightarrow> inode_at ct s' x = (if x = mi_inode_number m then mi_dinode m else inode_at ct s x)"
proof -
  let ?n = "mi_inode_number m"
  have geo: "geom s" and vg: "vgood os ct (v_lim s) (Suc k) s" using g by (simp_all add: bgood_def fgood_def)
  then have ig: "igood os ct (Suc k) s" by (simp add: igood_def)
  obtain s' where w: "ufs_inode_writeback os s m = Some (RcOk, m\<lparr>mi_flags := mi_flags m AND NOT MINODE_FLAG_DIRTY\<rparr>, s')"
    "vgood os ct (v_lim s) k s'" "vrest s' = vrest s"
    "vview ct s' = (vview ct s)(inode_block s ?n := blit (128 * inode_slot s ?n) (enc_dinode (mi_dinode m))
         (vview ct s (inode_block s ?n)))" "length (vview ct s (inode_block s ?n)) = unat (v_blksize s)"
    by (rule good_writeback [OF ig i wf])
  have out: "inode_block s ?n \<notin> node (vview ct s) (m_addr m) ` S"
    using inode_block_low [OF geo i tree_okD(5) [OF t]] by (metis imageE)
  have "inode_block s ?n \<notin> set L" 
    using inode_block_low [OF geo i] fgood_sane g unfolding bgood_def by metis
  then have b: "bgood os ct k s' L" by (rule bgood_store [OF g w(2-4)])
  have n: "node (vview ct s') (m_addr m) p = node (vview ct s) (m_addr m) p" if "p \<in> S" for p
    using node_outside [OF t that out] w(4) by simp
  have a: "inode_at ct s' x = (if x = ?n then mi_dinode m else inode_at ct s x)" if "inode_num s x" for x
    by (rule inode_at_writeback [OF ig i that wf w(4,3,5)])
  show ?thesis
    by (rule that [OF w(1) b w(3) tree_outside [OF t w(4,3) out] _ n a]) (use w(4) in auto)
qed

text \<open>\<open>grown_file\<close>: the effect of \<open>ufs_datablock_expand\<close>, content first.\<close>

definition grown_file :: "('d \<Rightarrow> u32 \<Rightarrow> block) \<Rightarrow> 'd vol \<Rightarrow> minode \<Rightarrow> u32 list \<Rightarrow> 'd vol \<Rightarrow> minode \<Rightarrow> u32 list \<Rightarrow> nat \<Rightarrow> bool" where
  "grown_file ct s m L s' m' L' c \<longleftrightarrow>
     file_blocks ct s' m' = file_blocks ct s m @ replicate c (replicate (unat (v_blksize s)) 0)
     \<and> file_ok ct s' m' L'
     \<and> set L = set L' \<union> (file_nodes ct s' m' - file_nodes ct s m) \<and> file_nodes ct s m \<subseteq> file_nodes ct s' m'
     \<and> (\<forall>p \<in> m_pos s m. node (vview ct s') (m_addr m') p = node (vview ct s) (m_addr m) p)
     \<and> (\<forall>x. inode_num s x \<longrightarrow> inode_at ct s' x = (if x = mi_inode_number m then mi_dinode m' else inode_at ct s x))
     \<and> (\<forall>x. x \<notin> set L \<longrightarrow> x \<notin> file_nodes ct s m \<longrightarrow> x \<noteq> inode_block s (mi_inode_number m) \<longrightarrow>
          vview ct s' x = vview ct s x)"

lemma grown_fileD:
  assumes "grown_file ct s m L s' m' L' c"
  shows "file_blocks ct s' m' = file_blocks ct s m @ replicate c (replicate (unat (v_blksize s)) 0)"
    "file_ok ct s' m' L'" "set L = set L' \<union> (file_nodes ct s' m' - file_nodes ct s m)"
    "file_nodes ct s m \<subseteq> file_nodes ct s' m'"
    "p \<in> m_pos s m \<Longrightarrow> node (vview ct s') (m_addr m') p = node (vview ct s) (m_addr m) p"
    "inode_num s x \<Longrightarrow> inode_at ct s' x = (if x = mi_inode_number m then mi_dinode m' else inode_at ct s x)"
    "y \<notin> set L \<Longrightarrow> y \<notin> file_nodes ct s m \<Longrightarrow> y \<noteq> inode_block s (mi_inode_number m) \<Longrightarrow> vview ct s' y = vview ct s y"
  using assms unfolding grown_file_def by blast+

lemma leaf_fpath: "i < max_blocks n \<Longrightarrow> leaf (fpath n i)"
  by (rule fpath_pos(3))

lemma file_pos_mono: "N \<le> N' \<Longrightarrow> file_pos n N \<subseteq> file_pos n N'"
  by (auto simp: file_pos_def)

lemma fpath_notin: "N \<le> i \<Longrightarrow> i < max_blocks n \<Longrightarrow> fpath n i \<notin> file_pos n N"
  using fpath_pos(2) [of i n] by (simp add: file_pos_def)

lemma grow_blocks:
  assumes gr: "grow ct s a (file_pos n N) L s' a' (file_pos n (N + c)) L'" and t: "tree_ok ct s a (file_pos n N) L"
    and n: "n = per_block s" and m: "N + c \<le> max_blocks n"
  shows "map (file_block ct s' a') [0 ..< N + c]
    = map (file_block ct s a) [0 ..< N] @ replicate c (replicate (unat (v_blksize s)) 0)"
proof (rule nth_equalityI)
  show "length (map (file_block ct s' a') [0 ..< N + c])
    = length (map (file_block ct s a) [0 ..< N] @ replicate c (replicate (unat (v_blksize s)) 0))" by simp
next
  fix i assume "i < length (map (file_block ct s' a') [0 ..< N + c])"
  then have i: "i < N + c" "i < max_blocks n" using m by simp_all
  have pb: "per_block s' = n" using frest_geom(2) [OF growD(2) [OF gr]] n by simp
  have l: "leaf (fpath n i)" by (rule leaf_fpath [OF i(2)])
  have "file_block ct s' a' i = (if i < N then file_block ct s a i else replicate (unat (v_blksize s)) 0)"
  proof (cases "i < N")
    case True
    then have p: "fpath n i \<in> file_pos n N" using i(2) by (rule fpath_in)
    show ?thesis
      using True growD(5) [OF gr p] growD(7) [OF gr leaf_not_index [OF t p l]]
      by (simp add: file_block_def pb flip: n)
  next
    case False
    then have "fpath n i \<notin> file_pos n N" using i(2) by (intro fpath_notin) simp_all
    then show ?thesis
      using False growD(8) [OF gr fpath_in [OF i] _ l] by (simp add: file_block_def pb)
  qed
  then show "map (file_block ct s' a') [0 ..< N + c] ! i
      = (map (file_block ct s a) [0 ..< N] @ replicate c (replicate (unat (v_blksize s)) 0)) ! i"
    using i(1) by (simp add: nth_append del: upt_Suc)
qed


lemma file_okD:
  assumes "file_ok ct s m L"
  shows "tree_ok ct s (m_addr m) (m_pos s m) L" "inode_num s (mi_inode_number m)" "wf_dinode (mi_dinode m)"
    "unat (di_filesize (mi_dinode m)) \<le> 2 ^ 31"
    "blocks (unat (v_blksize s)) (unat (di_filesize (mi_dinode m))) \<le> max_blocks (per_block s)"
  using assms unfolding file_ok_def by simp_all

text \<open>The inode \<open>m\<close> with its addresses, its size, and its dirty flag cleared.\<close>

definition finished :: "minode \<Rightarrow> u32 list \<Rightarrow> u32 \<Rightarrow> minode" where
  "finished m a sz = (set_size sz (with_addr m a))\<lparr>mi_flags := mi_flags m AND NOT MINODE_FLAG_DIRTY\<rparr>"

lemma finished_simps [simp]:
  "m_addr (finished m a sz) = a" "di_filesize (mi_dinode (finished m a sz)) = sz"
  "mi_inode_number (finished m a sz) = mi_inode_number m"
  "mi_dinode (finished m a sz) = mi_dinode (set_size sz (with_addr m a))"
  by (simp_all add: finished_def set_size_def with_addr_def)

lemma set_size_simps [simp]:
  "m_addr (set_size z m) = m_addr m" "di_filesize (mi_dinode (set_size z m)) = z"
  "mi_inode_number (set_size z m) = mi_inode_number m" "mi_flags (set_size z m) = mi_flags m"
  "mi_flags (with_addr m a) = mi_flags m"
  by (simp_all add: set_size_def with_addr_def)

lemma wf_set_size: "wf_dinode (mi_dinode m) \<Longrightarrow> length a = 19 \<Longrightarrow> wf_dinode (mi_dinode (set_size z (with_addr m a)))"
  by (simp add: wf_dinode_def set_size_def with_addr_def)

lemma size_fits: "unat (x :: u32) \<le> 2 ^ 31 \<Longrightarrow> unat x + unat (b :: u16) \<le> 2 ^ 32"
proof -
  assume "unat x \<le> 2 ^ 31"
  moreover have "unat b < 2 ^ 16" using unsigned_less [of b] by simp
  ultimately show ?thesis by simp
qed

lemma blocks_mono: "a \<le> b \<Longrightarrow> blocks bs a \<le> blocks bs b"
  unfolding blocks_def by (rule div_le_mono) (rule diff_le_mono, simp)

lemma frest_inodes:
  assumes "frest s' = frest s"
  shows "inode_num s' = inode_num s" "inode_block s' = inode_block s" "inode_slot s' = inode_slot s"
  using frestD [OF assms]
  by (simp_all add: inode_num_def inode_block_def inode_slot_def max_inode_def ipb_def fun_eq_iff)

text \<open>Nothing that grows touches the inode table.\<close>

lemma grow_inodes:
  assumes gr: "grow ct s a S L s1 a1 S1 L1" and t: "tree_ok ct s a S L" and g: "bgood os ct k s L"
    and x: "inode_num s x"
  shows "inode_at ct s1 x = inode_at ct s x"
proof -
  have geo: "geom s" using g by (simp add: bgood_def)
  have "inode_block s x \<notin> set L" using inode_block_low [OF geo x] fgood_sane g unfolding bgood_def by metis
  moreover have "inode_block s x \<notin> node (vview ct s) a ` {p \<in> S. \<not> leaf p}"
    using inode_block_low [OF geo x tree_okD(5) [OF t]] by (metis (mono_tags, lifting) imageE mem_Collect_eq)
  ultimately have "vview ct s1 (inode_block s x) = vview ct s (inode_block s x)" by (rule growD(7) [OF gr])
  then show ?thesis by (simp add: inode_at_def frest_inodes [OF growD(2) [OF gr]])
qed

lemma finish_grown:
  assumes f: "file_ok ct s m L" and g: "bgood os ct j s L"
    and gr: "grow ct s (m_addr m) (m_pos s m) L s1 a1 (file_pos (per_block s) N1) L1"
    and g1: "bgood os ct (Suc k) s1 L1"
    and N1: "N1 = blocks (unat (v_blksize s)) (unat new)" "N1 \<le> max_blocks (per_block s)" "unat new \<le> 2 ^ 31"
    and c: "N1 = blocks (unat (v_blksize s)) (unat (di_filesize (mi_dinode m))) + c"
  obtains s' where "ufs_inode_writeback os s1 (set_size new (with_addr m a1)) = Some (RcOk, finished m a1 new, s')"
    "bgood os ct k s' L1" "frest s' = frest s" "grown_file ct s m L s' (finished m a1 new) L1 c"
proof -
  let ?m = "set_size new (with_addr m a1)" and ?m' = "finished m a1 new" and ?F = "file_pos (per_block s) N1"
  have fr: "frest s1 = frest s" and t1: "tree_ok ct s1 a1 ?F L1" using growD(1,2) [OF gr] by simp_all
  note t = file_okD(1) [OF f] and n = file_okD(2) [OF f]
  note fi = frest_inodes [OF fr]
  have wf: "wf_dinode (mi_dinode ?m)" by (rule wf_set_size [OF file_okD(3) [OF f] tree_okD(1) [OF t1]])
  obtain s' where w: "ufs_inode_writeback os s1 ?m = Some (RcOk, ?m\<lparr>mi_flags := mi_flags ?m AND NOT MINODE_FLAG_DIRTY\<rparr>, s')"
    "bgood os ct k s' L1" "vrest s' = vrest s1" "tree_ok ct s' a1 ?F L1"
    "\<And>x. x \<noteq> inode_block s (mi_inode_number m) \<Longrightarrow> vview ct s' x = vview ct s1 x"
    "\<And>p. p \<in> ?F \<Longrightarrow> node (vview ct s') a1 p = node (vview ct s1) a1 p"
    "\<And>x. inode_num s x \<Longrightarrow> inode_at ct s' x = (if x = mi_inode_number m then mi_dinode ?m else inode_at ct s1 x)"
    by (rule writeback_file [OF g1, of ?m ?F]) (use t1 n wf fi in auto)
  have fr': "frest s' = frest s" using frest_vrest [OF w(3)] fr by simp
  have geo: "per_block s' = per_block s" "v_blksize s' = v_blksize s" using frest_geom(2) [OF fr'] frestD(1) [OF fr'] by simp_all
  have pos: "m_pos s' ?m' = ?F" by (simp add: m_pos_def geo N1(1))
  have sub: "m_pos s m \<subseteq> ?F" using growD(4) [OF gr] .
  have nodes': "file_nodes ct s' ?m' = node (vview ct s1) a1 ` ?F" using w(6) by (simp add: file_nodes_def pos)
  have nodes: "file_nodes ct s m = node (vview ct s1) a1 ` m_pos s m" using growD(5) [OF gr] by (simp add: file_nodes_def)
  have "inj_on (node (vview ct s1) a1) ?F" using t1 by (simp add: tree_ok_def)
  then have "node (vview ct s1) a1 ` (?F - m_pos s m) = file_nodes ct s' ?m' - file_nodes ct s m"
    using sub unfolding nodes nodes' by (intro inj_on_image_set_diff) auto
  then have L: "set L = set L1 \<union> (file_nodes ct s' ?m' - file_nodes ct s m)" using growD(3) [OF gr] by simp
  have ok: "file_ok ct s' ?m' L1"
    using w(4) n N1 wf by (simp add: file_ok_def pos geo frest_inodes [OF fr'])
  have fb: "file_block ct s' a1 i = file_block ct s1 a1 i" if "i < N1" for i
  proof -
    have p: "fpath (per_block s) i \<in> ?F" using that N1(2) by (intro fpath_in) simp_all
    have "ufs_datablock_number_sanity s (node (vview ct s1) a1 (fpath (per_block s) i))"
      using tree_okD(5) [OF t1 p] sane_frest [OF fr] by simp
    moreover have "geom s" using g by (simp add: bgood_def)
    ultimately have "node (vview ct s1) a1 (fpath (per_block s) i) \<noteq> inode_block s (mi_inode_number m)"
      using inode_block_low [OF _ n] by blast
    then show ?thesis using w(5,6) p by (simp add: file_block_def geo frest_geom(2) [OF fr])
  qed
  have "file_blocks ct s' ?m' = map (file_block ct s1 a1) [0 ..< N1]"
    using fb by (simp add: file_blocks_def geo flip: N1(1))
  also have "\<dots> = file_blocks ct s m @ replicate c (replicate (unat (v_blksize s)) 0)"
    using grow_blocks [OF gr [unfolded m_pos_def c] t [unfolded m_pos_def] refl] N1(2) by (simp add: file_blocks_def c)
  finally have fbs: "file_blocks ct s' ?m' = file_blocks ct s m @ replicate c (replicate (unat (v_blksize s)) 0)" .
  have "grown_file ct s m L s' ?m' L1 c"
    unfolding grown_file_def
  proof (intro conjI allI ballI impI fbs ok L)
    show "file_nodes ct s m \<subseteq> file_nodes ct s' ?m'" unfolding nodes nodes' using sub by blast
  next
    fix p assume "p \<in> m_pos s m"
    then show "node (vview ct s') (m_addr ?m') p = node (vview ct s) (m_addr m) p"
      using w(6) [of p] growD(5) [OF gr] sub by auto
  next
    fix x assume "inode_num s x"
    then show "inode_at ct s' x = (if x = mi_inode_number m then mi_dinode ?m' else inode_at ct s x)"
      using w(7) grow_inodes [OF gr t g] by simp
  next
    fix x assume x: "x \<notin> set L" "x \<notin> file_nodes ct s m" "x \<noteq> inode_block s (mi_inode_number m)"
    have "x \<notin> node (vview ct s) (m_addr m) ` {p \<in> m_pos s m. \<not> leaf p}" using x(2) by (auto simp: file_nodes_def)
    then show "vview ct s' x = vview ct s x" using w(5) [OF x(3)] growD(7) [OF gr x(1)] by simp
  qed
  then show ?thesis using that w(1,2) fr' by (simp add: finished_def)
qed

lemma blocks_le: "0 < bs \<Longrightarrow> x \<le> q * bs \<Longrightarrow> blocks bs x \<le> q"
proof -
  assume bs: "0 < bs" and "x \<le> q * bs"
  then have "blocks bs x \<le> blocks bs (0 + q * bs)" by (intro blocks_mono) simp
  then show ?thesis using blocks_add [OF bs, of 0 q] blocks_0 [OF bs] by simp
qed

lemma le_blocks: "0 < bs \<Longrightarrow> x \<le> blocks bs x * bs"
proof (cases x)
  case (Suc y)
  assume bs: "0 < bs"
  have "y < (y div bs + 1) * bs" using dividend_less_div_times [OF bs, of y] by simp
  then show ?thesis using bs Suc by (simp add: blocks_Suc)
qed simp

text \<open>The last byte the loop computes an address for is in the last block of the file.\<close>

lemma grown_end:
  assumes g: "geom s" and b: "good_blksize s" and x: "x \<le> 2 ^ 31"
    and c: "blocks (unat (v_blksize s)) x = blocks (unat (v_blksize s)) old + c"
  shows "old + c * unat (v_blksize s) \<le> 2 ^ 31"
proof -
  let ?bs = "unat (v_blksize s)" and ?k = "unat (sb_blksize_shift (v_sb s))"
  have bs: "?bs = 2 ^ ?k" "0 < ?bs" using g by (simp_all add: geom_def)
  have "?k \<le> 31" using geom_shift_le [OF g b] by simp
  then have e: "(2 :: nat) ^ 31 = 2 ^ (31 - ?k) * ?bs" unfolding bs(1) by (simp flip: power_add)
  have "blocks ?bs x \<le> 2 ^ (31 - ?k)" using x e by (intro blocks_le [OF bs(2)]) simp
  then have "blocks ?bs x * ?bs \<le> 2 ^ 31" unfolding e by (rule mult_le_mono1)
  moreover have "old + c * ?bs \<le> blocks ?bs old * ?bs + c * ?bs" using le_blocks [OF bs(2)] by simp
  ultimately show ?thesis unfolding c by (simp add: add_mult_distrib)
qed

text \<open>\<open>ufs_datablock_expand\<close>: the file grows by zero blocks taken from the free list.\<close>

lemma expand_ok:
  assumes f: "file_ok ct s m L" and g: "bgood os ct (k + 7 * c + 1) s L" and b: "good_blksize s"
    and new: "unat (di_filesize (mi_dinode m)) + unat sz \<le> 2 ^ 31"
    and c: "blocks (unat (v_blksize s)) (unat (di_filesize (mi_dinode m)) + unat sz)
      = blocks (unat (v_blksize s)) (unat (di_filesize (mi_dinode m))) + c"
    and lim: "blocks (unat (v_blksize s)) (unat (di_filesize (mi_dinode m)) + unat sz) \<le> max_blocks (per_block s)"
    and L: "4 * c \<le> length L"
  obtains m' s' L' where "ufs_datablock_expand os s m sz = Some (RcOk, m', s')" "bgood os ct k s' L'"
    "frest s' = frest s" "grown_file ct s m L s' m' L' c" "m' = finished m (m_addr m') (di_filesize (mi_dinode m) + sz)"
proof -
  let ?old = "di_filesize (mi_dinode m)" and ?bs = "unat (v_blksize s)"
  let ?new = "?old + sz"
  have geo: "geom s" using g by (simp add: bgood_def)
  have "unat ?old + unat sz < 2 ^ 32" using new by simp
  then have un: "unat ?new = unat ?old + unat sz" by (simp only: unat_word_ariths) simp
  have n0: "unat (nblk s ?old) = blocks ?bs (unat ?old)"
    by (rule nblk_blocks [OF geo]) (rule size_fits, use new in simp)
  have n1: "unat (nblk s ?new) = blocks ?bs (unat ?old) + c"
    using nblk_blocks [OF geo, of ?new] size_fits [of ?new "v_blksize s"] new c un by simp
  have "nblk s ?old \<le> nblk s ?new" using n0 n1 by (simp add: word_le_nat_alt)
  then have diff: "unat (nblk s ?new - nblk s ?old) = c" using n0 n1 by (simp add: unat_sub)
  note t = file_okD(1) [OF f, unfolded m_pos_def]
  have "\<exists>s1 a1 L1. grow ct s (m_addr m) (m_pos s m) L s1 a1 (file_pos (per_block s) (blocks ?bs (unat ?old) + c)) L1
    \<and> bgood os ct (Suc k) s1 L1 \<and> ufs_datablock_expand os s m sz =
        map_option (\<lambda>(rc, m, s). (RcOk, m, s)) (ufs_inode_writeback os s1 (set_size ?new (with_addr m a1)))"
  proof (cases "nblk s ?old = nblk s ?new")
    case True
    then have "c = 0" using n0 n1 by simp
    have "ufs_datablock_expand os s m sz =
        map_option (\<lambda>(rc, m, s). (RcOk, m, s)) (ufs_inode_writeback os s (set_size ?new (with_addr m (m_addr m))))"
      using True by (cases "ufs_inode_writeback os s (set_size ?new m)") (auto simp: ufs_datablock_expand_def)
    then show ?thesis
      using grow_refl [OF file_okD(1) [OF f]] g \<open>c = 0\<close>
      by (intro exI [of _ s] exI [of _ "m_addr m"] exI [of _ L]) (auto simp: m_pos_def intro: bgood_mono)
  next
    case False
    have bs: "0 < ?bs" using geo by (simp add: geom_def)
    have "blocks ?bs (unat ?old + c * ?bs) = blocks ?bs (unat ?old + unat sz)" using blocks_add [OF bs] c by simp
    have old: "ufs_datablock_addr s ?old = Some (RcOk, adrm_of (fpath (per_block s) (blocks ?bs (unat ?old) - 1)))"
      using addr_blocks [OF geo b] new by simp
    have g': "bgood os ct (Suc k + 7 * c) s L" using g by simp
    have i0: "blocks ?bs (unat ?old) = blocks ?bs (unat ?old) + unat (0 :: u32)" by simp
    have "\<exists>m' s' L'. expand_loop os c s ?old 0 (adrm_of (fpath (per_block s) (blocks ?bs (unat ?old) - 1))) None m m
        = Some (RcOk, m', s') \<and> m' = with_addr m (m_addr m')
      \<and> grow ct s (m_addr m) (file_pos (per_block s) (blocks ?bs (unat ?old))) L s' (m_addr m')
          (file_pos (per_block s) (blocks ?bs (unat ?old) + c)) L'
      \<and> bgood os ct (Suc k) s' L' \<and> length L \<le> length L' + 4 * c"
    proof (rule expand_loop_ok [OF g' t refl b _ L i0 _ refl])
      show "blocks ?bs (unat ?old) + c \<le> max_blocks (per_block s)" using lim c by simp
      show "unat ?old + (unat (0 :: u32) + c) * ?bs \<le> 2 ^ 31" using grown_end [OF geo b] new c by simp
    qed
    then obtain m1 s1 L1 where l: "expand_loop os c s ?old 0 (adrm_of (fpath (per_block s) (blocks ?bs (unat ?old) - 1)))
        None m m = Some (RcOk, m1, s1)" "m1 = with_addr m (m_addr m1)"
      "grow ct s (m_addr m) (m_pos s m) L s1 (m_addr m1) (file_pos (per_block s) (blocks ?bs (unat ?old) + c)) L1"
      "bgood os ct (Suc k) s1 L1" unfolding m_pos_def by blast
    have "set_size (di_filesize (mi_dinode m1) + sz) m1 = set_size ?new (with_addr m (m_addr m1))"
      using l(2) by (metis with_addr_simps(5))
    then have "ufs_datablock_expand os s m sz =
        map_option (\<lambda>(rc, m, s). (RcOk, m, s)) (ufs_inode_writeback os s1 (set_size ?new (with_addr m (m_addr m1))))"
      using False old l(1) diff
      by (cases "ufs_inode_writeback os s1 (set_size ?new (with_addr m (m_addr m1)))")
         (auto simp: ufs_datablock_expand_def)
    then show ?thesis using l(3,4) by blast
  qed
  then obtain s1 a1 L1 where s1: "grow ct s (m_addr m) (m_pos s m) L s1 a1
      (file_pos (per_block s) (blocks ?bs (unat ?old) + c)) L1" "bgood os ct (Suc k) s1 L1"
    "ufs_datablock_expand os s m sz =
        map_option (\<lambda>(rc, m, s). (RcOk, m, s)) (ufs_inode_writeback os s1 (set_size ?new (with_addr m a1)))"
    by blast
  obtain s' where "ufs_inode_writeback os s1 (set_size ?new (with_addr m a1)) = Some (RcOk, finished m a1 ?new, s')"
    "bgood os ct k s' L1" "frest s' = frest s" "grown_file ct s m L s' (finished m a1 ?new) L1 c"
    by (rule finish_grown [OF f g s1(1,2) _ _ _ refl]) (use lim new un c in auto)
  then show thesis using that s1(3) by simp
qed


section \<open>Finding the block of a position\<close>

lemma fpath_cases:
  assumes "i < max_blocks n"
  obtains "i < 16" "fpath n i = (i, [])"
  | a where "a < n" "fpath n i = (16, [a])"
  | a b where "a < n" "b < n" "fpath n i = (17, [a, b])"
  | a b c where "a < n" "b < n" "c < n" "fpath n i = (18, [a, b, c])"
proof -
  have p: "pwf n (fpath n i)" "leaf (fpath n i)" "pfirst n (fpath n i) = i" using fpath_pos [OF assms] by auto
  show ?thesis
  proof (cases rule: pwf_cases [OF p(1)])
    case (1 r)
    then have "r < 16" using p(2) by (simp add: leaf_def)
    then show ?thesis using that(1) 1 p(3) by simp
  qed (use p(2) that in \<open>auto simp: leaf_def\<close>)
qed

text \<open>The volume after reading: the same files, the same free list.\<close>

lemma last_ok:
  assumes f: "file_ok ct s m L" and g: "bgood os ct k s L" and b: "good_blksize s"
    and off: "0 < unat off" "unat off \<le> 2 ^ 31"
    and i: "i = (unat off - 1) div unat (v_blksize s)"
      "i < blocks (unat (v_blksize s)) (unat (di_filesize (mi_dinode m)))"
  obtains s' where "ufs_datablock_last os s m off = Some (node (vview ct s) (m_addr m) (fpath (per_block s) i), s')"
    "bgood os ct k s' L" "vsame ct s s'"
proof -
  let ?n = "per_block s" and ?v = "vview ct s" and ?a = "m_addr m"
  have geo: "geom s" using g by (simp add: bgood_def)
  have im: "i < max_blocks ?n" using i(2) file_okD(5) [OF f] by simp
  note t = file_okD(1) [OF f]
  have len: "length ?a = 19" by (rule tree_okD(1) [OF t])
  have addr: "ufs_datablock_addr s off = Some (RcOk, adrm_of (fpath ?n i))"
    using addr_path [OF geo geom_shift_le [OF geo b] off] i(1) by simp
  have p: "fpath ?n i \<in> m_pos s m" unfolding m_pos_def using i(2) im by (rule fpath_in)
  have pre: "(r, take j ks) \<in> m_pos s m" if "fpath ?n i = (r, ks)" for r ks j
    using tree_prefix [OF t] p that by simp
  note nb = conjunct2 [OF per_block_bound [OF g]]
  note lt = less_trans [OF _ nb]
  show ?thesis
  proof (cases rule: fpath_cases [OF im])
    case 1
    then have "i < 2 ^ 14" by simp
    then have "ufs_datablock_last os s m off = Some (?a ! i, s)"
      using addr 1 len by (simp add: ufs_datablock_last_def idx_adrm small_index nth_opt_def)
    then show ?thesis using that g by (simp add: 1(2))
  next
    case (2 a)
    obtain s1 where l: "ufs_datablock_link os s (node ?v ?a (16, [])) a = Some (node ?v ?a (16, [a]), s1)"
      "bgood os ct k s1 L" "vsame ct s s1"
      by (rule tree_link [OF g t, of 16 "[]" a]) (use p 2 in auto)
    then have "ufs_datablock_last os s m off = Some (node ?v ?a (16, [a]), s1)"
      using addr 2 len small_index [OF lt [OF 2(1)]] by (simp add: ufs_datablock_last_def idx_adrm nth_opt_def)
    then show ?thesis using that l(2,3) by (simp add: 2(2))
  next
    case (3 a b)
    obtain s1 where l: "ufs_datablock_link os s (node ?v ?a (17, [])) a = Some (node ?v ?a (17, [a]), s1)"
      "bgood os ct k s1 L" "vsame ct s s1"
      by (rule tree_link [OF g t, of 17 "[]" a]) (use pre [OF 3(3), of 1] in auto)
    have t1: "tree_ok ct s1 ?a (m_pos s m) L" using t tree_vsame [OF l(3)] by simp
    obtain s2 where l2: "ufs_datablock_link os s1 (node ?v ?a (17, [a])) b = Some (node ?v ?a (17, [a, b]), s2)"
      "bgood os ct k s2 L" "vsame ct s1 s2"
      by (rule tree_link [OF l(2) t1, of 17 "[a]" b]) (use p 3 vsameD(1) [OF l(3)] in auto)
    have "ufs_datablock_last os s m off = Some (node ?v ?a (17, [a, b]), s2)"
      using addr 3(3) l(1) l2(1) len small_index [OF lt [OF 3(1)]] small_index [OF lt [OF 3(2)]]
      by (simp add: ufs_datablock_last_def idx_adrm nth_opt_def)
    then show ?thesis using that l2(2) vsame_trans [OF l(3) l2(3)] by (simp add: 3(3))
  next
    case (4 a b c)
    obtain s1 where l: "ufs_datablock_link os s (node ?v ?a (18, [])) a = Some (node ?v ?a (18, [a]), s1)"
      "bgood os ct k s1 L" "vsame ct s s1"
      by (rule tree_link [OF g t, of 18 "[]" a]) (use pre [OF 4(4), of 1] in auto)
    have t1: "tree_ok ct s1 ?a (m_pos s m) L" using t tree_vsame [OF l(3)] by simp
    obtain s2 where l2: "ufs_datablock_link os s1 (node ?v ?a (18, [a])) b = Some (node ?v ?a (18, [a, b]), s2)"
      "bgood os ct k s2 L" "vsame ct s1 s2"
      by (rule tree_link [OF l(2) t1, of 18 "[a]" b]) (use pre [OF 4(4), of 2] vsameD(1) [OF l(3)] in auto)
    have v2: "vsame ct s s2" by (rule vsame_trans [OF l(3) l2(3)])
    have t2: "tree_ok ct s2 ?a (m_pos s m) L" using t tree_vsame [OF v2] by simp
    obtain s3 where l3: "ufs_datablock_link os s2 (node ?v ?a (18, [a, b])) c = Some (node ?v ?a (18, [a, b, c]), s3)"
      "bgood os ct k s3 L" "vsame ct s2 s3"
      by (rule tree_link [OF l2(2) t2, of 18 "[a, b]" c]) (use p 4 vsameD(1) [OF v2] in auto)
    have "ufs_datablock_last os s m off = Some (node ?v ?a (18, [a, b, c]), s3)"
      using addr 4(4) l(1) l2(1) l3(1) len small_index [OF lt [OF 4(1)]] small_index [OF lt [OF 4(2)]]
        small_index [OF lt [OF 4(3)]]
      by (simp add: ufs_datablock_last_def idx_adrm nth_opt_def)
    then show ?thesis using that l3(2) vsame_trans [OF v2 l3(3)] by (simp add: 4(4))
  qed
qed

lemma file_vsame:
  assumes "vsame ct s s'"
  shows "file_ok ct s' m L \<longleftrightarrow> file_ok ct s m L" "file_blocks ct s' = file_blocks ct s"
    "file_nodes ct s' = file_nodes ct s" "good_blksize s' \<longleftrightarrow> good_blksize s" "m_pos s' = m_pos s"
proof -
  note r = vrest_frest_geom [OF vsameD(2) [OF assms]] and v = vsameD(1) [OF assms]
  show m: "m_pos s' = m_pos s" by (simp add: m_pos_def fun_eq_iff r)
  show "file_ok ct s' m L \<longleftrightarrow> file_ok ct s m L" by (simp add: file_ok_def m tree_vsame [OF assms] r)
  show "file_blocks ct s' = file_blocks ct s" "file_nodes ct s' = file_nodes ct s" "good_blksize s' \<longleftrightarrow> good_blksize s"
    by (simp_all add: file_blocks_def file_block_def [abs_def] file_nodes_def m fun_eq_iff r v)
qed

end
