(* ===== verification/Ram.thy ===== *)
theory Ram
  imports Blocktree
begin

text \<open>
  A concrete outside world on which the theorems are applied: a dataset in memory whose records
  read as zeros until written, locks always granted, storage always there, and a small volume on
  it, without and with a page cache.
\<close>

definition fit :: "nat \<Rightarrow> byte list \<Rightarrow> byte list" where
  "fit n x = take n (x @ replicate n 0)"

lemma length_fit [simp]: "length (fit n x) = n"
  by (simp add: fit_def)

lemma fit_id [simp]: "length x = n \<Longrightarrow> fit n x = x"
  by (simp add: fit_def)

definition ram_ct :: "u16 \<Rightarrow> (u32 \<Rightarrow> block) \<Rightarrow> u32 \<Rightarrow> block" where
  "ram_ct bs d b = fit (unat bs) (d b)"

definition ram :: "(u32 \<Rightarrow> block) os" where
  "ram = \<lparr> osdread = (\<lambda>d bs b. (0, fit (unat bs) (d b), d)),
           osdwrite = (\<lambda>d bs buf b. (0, d(b := buf))),
           os_lock = (\<lambda>d k. (0, d)), os_unlock = (\<lambda>d k. d), os_calloc = (\<lambda>d n. (True, d)),
           os_time = (\<lambda>d. (0, d)), os_time64 = (\<lambda>d. (0, d)), os_ddcb = (\<lambda>d n. (True, d)),
           os_dopen = (\<lambda>d. (0, d)), os_rdjfcb = (\<lambda>d. ([], True)), os_dcbblksi = (\<lambda>d. 512),
           os_dclose = (\<lambda>d. d) \<rparr>"

lemma ram_laws: "os_laws ram (ram_ct bs) bs"
  by (simp add: os_laws_def ram_def ram_ct_def)

lemma ram_live: "os_live ram bs n"
  by (simp add: os_live_def ram_def ecb_rc_def lock_held_def)

lemma ram_good:
  assumes "dk_buf (v_disk s) = []" "dk_readonly (v_disk s) = 0" "pr_pages (pgr s) = []" "k < 2 ^ 32"
  shows "vgood ram (ram_ct (v_blksize s)) lim k s"
  using assms by (simp add: vgood_def vinv_def vlive_def ram_laws ram_live pinv_def one_page_def uniq_def)

text \<open>
  The volume: 64 blocks of 512 bytes, inodes in blocks 2 and 3, the stack of free blocks 5, ...,
  10 in the super block and block 5 holding the next ones, 11 and 12.
\<close>

definition demo_sb :: sb where
  "demo_sb = \<lparr> sb_datablock_start_sector = 4, sb_volume_size = 64, sb_lock_freeblock = 0, sb_lock_freeinode = 0,
     sb_modified = 0, sb_readonly = 0, sb_update_time = 0, sb_total_freeblock = 8, sb_total_freeinode = 5,
     sb_create_time = 0, sb_nfreeblock = 6, sb_freeblock = [5, 6, 7, 8, 9, 10] @ replicate 45 0,
     sb_nfreeinode = 2, sb_freeinode = [4, 3] @ replicate 62 0, sb_inodes_per_block = 4, sb_blksize_shift = 9,
     sb_ilist_sector = 2, sb_unused3 = 0 \<rparr>"

definition demo_disk :: disk where
  "demo_disk = \<lparr> dk_blksize = 512, dk_readonly = 0, dk_buf = [], dk_ddname = [], dk_dsname = [],
     dk_boot = \<lparr> bt_type = 1, bt_check = 0xFFFE, bt_blksize = 512, bt_padding = 0 \<rparr>, dk_sb = demo_sb, dk_boote = None \<rparr>"

definition demo_data :: "u32 \<Rightarrow> block" where
  "demo_data = (\<lambda>b. if b = 5 then be32s [2, 11, 12] else [])"

definition demo :: "pager option \<Rightarrow> (u32 \<Rightarrow> block) vol" where
  "demo p = \<lparr> v_outer = demo_data, v_disk = demo_disk, v_pager = p, v_minodes = [],
     v_mstore = (\<lambda>_. None), v_mnext = 0 \<rparr>"

definition cache :: pager where
  "cache = \<lparr> pr_maxpages = 8, pr_pages = [], pr_cachehits = 0, pr_reads = 0, pr_writes = 0,
     pr_dreads = 0, pr_dwrites = 0 \<rparr>"

abbreviation demo_ct :: "(u32 \<Rightarrow> block) \<Rightarrow> u32 \<Rightarrow> block" where
  "demo_ct \<equiv> ram_ct 512"

lemmas demo_defs = demo_def demo_disk_def demo_sb_def

lemma demo_pages: "p = None \<or> p = Some cache \<Longrightarrow> pr_pages (pgr (demo p)) = []"
  by (auto simp: pgr_def demo_def cache_def)

lemma demo_good: "p = None \<or> p = Some cache \<Longrightarrow> k < 2 ^ 32 \<Longrightarrow> vgood ram demo_ct lim k (demo p)"
  using ram_good [of "demo p" k lim] demo_pages by (simp add: demo_defs)

lemma demo_geom: "geom (demo p)"
  by (simp add: geom_def demo_defs UFS_ILIST_SECTOR_def)

lemma demo_view: "p = None \<or> p = Some cache \<Longrightarrow> vview demo_ct (demo p) = demo_ct demo_data"
  by (simp add: vview_def demo_pages fun_eq_iff pv_def) (simp add: demo_def)

lemma fit_pad: "length x \<le> n \<Longrightarrow> fit n x = x @ replicate (n - length x) 0"
  by (simp add: fit_def)

lemma get32_zero_block: "n + 4 \<le> m \<Longrightarrow> get32 (replicate m 0) n = 0"
proof -
  assume "n + 4 \<le> m"
  then have "slice n 4 (replicate m 0) = replicate 4 (0 :: byte)" by (simp add: slice_def min_def)
  then show ?thesis by (simp add: get32_def un32_def numeral_eq_Suc)
qed

lemma demo_link:
  "get32 (demo_ct demo_data 5) 0 = 2" "words_at (demo_ct demo_data 5) 4 2 = [11, 12]"
  "get32 (demo_ct demo_data 11) 0 = 0"
proof -
  let ?x = "be32s [2, 11, 12 :: u32]"
  have f: "demo_ct demo_data 5 = ?x @ replicate 500 0" by (simp add: ram_ct_def demo_data_def fit_pad)
  have g: "get32 ?x 0 = 2" "get32 ?x 4 = 11" "get32 ?x 8 = 12"
    using get32_be32s [of 0 "[2, 11, 12]"] get32_be32s [of 1 "[2, 11, 12]"] get32_be32s [of 2 "[2, 11, 12]"] by simp_all
  show "get32 (demo_ct demo_data 5) 0 = 2" by (simp add: f get32_append_left g)
  have "words_at ?x 4 2 = [11, 12]" by (simp add: words_at_def upt_rec g)
  then show "words_at (demo_ct demo_data 5) 4 2 = [11, 12]" by (simp add: f words_at_append_left)
  show "get32 (demo_ct demo_data 11) 0 = 0" by (simp add: ram_ct_def demo_data_def fit_pad get32_zero_block)
qed

definition demo_free :: "u32 list" where
  "demo_free = [10, 9, 8, 7, 6, 5, 12, 11]"

lemma demo_chain: "free_chain (demo_ct demo_data) [5, 6, 7, 8, 9, 10] demo_free"
proof -
  note pop = fc_pop [of _ "demo_ct demo_data"]
  have a: "free_chain (demo_ct demo_data) [11] [11]"
    by (rule fc_link [OF refl]) (simp_all add: demo_link words_at_def fc_empty)
  have "free_chain (demo_ct demo_data) ([11] @ [12]) [12, 11]" by (rule fc_pop [OF _ a]) simp
  then have b: "free_chain (demo_ct demo_data) (words_at (demo_ct demo_data 5) 4 2) [12, 11]"
    by (simp add: demo_link)
  have "free_chain (demo_ct demo_data) [5] [5, 12, 11]"
    by (rule fc_link [OF _ _ b]) (simp_all add: demo_link UFS_MAX_FREEBLOCK_def)
  then have "free_chain (demo_ct demo_data) ([5] @ [6]) [6, 5, 12, 11]" by (rule fc_pop [rotated]) simp
  then have "free_chain (demo_ct demo_data) (([5] @ [6]) @ [7]) [7, 6, 5, 12, 11]" by (rule fc_pop [rotated]) simp
  then have "free_chain (demo_ct demo_data) ((([5] @ [6]) @ [7]) @ [8]) [8, 7, 6, 5, 12, 11]" by (rule fc_pop [rotated]) simp
  then have "free_chain (demo_ct demo_data) (((([5] @ [6]) @ [7]) @ [8]) @ [9]) [9, 8, 7, 6, 5, 12, 11]"
    by (rule fc_pop [rotated]) simp
  then have "free_chain (demo_ct demo_data) ((((([5] @ [6]) @ [7]) @ [8]) @ [9]) @ [10]) demo_free"
    unfolding demo_free_def by (rule fc_pop [rotated]) simp
  then show ?thesis by simp
qed

lemma demo_bgood: "p = None \<or> p = Some cache \<Longrightarrow> k < 2 ^ 32 \<Longrightarrow> bgood ram demo_ct k (demo p) demo_free"
proof -
  assume p: "p = None \<or> p = Some cache" and k: "k < 2 ^ 32"
  have "free_ok demo_ct (demo p) demo_free"
    unfolding free_ok_def demo_view [OF p] using demo_chain
    by (simp add: demo_defs demo_free_def UFS_MAX_FREEBLOCK_def ufs_datablock_number_sanity_def)
  then show ?thesis using demo_good [OF p k] demo_geom by (simp add: bgood_def fgood_def)
qed

lemma demo_simps [simp]:
  "v_blksize (demo p) = 512" "per_block (demo p) = 128" "good_blksize (demo p)" "v_lim (demo p) = 64"
  "v_pager (demo p) = p" "ipb (demo p) = 4" "max_inode (demo p) = 8"
  "dk_readonly (v_disk (demo p)) = 0"
  by (simp_all add: demo_defs per_block_def good_blksize_def ipb_def max_inode_def)

lemma demo_sane [simp]: "ufs_datablock_number_sanity (demo p) b \<longleftrightarrow> 4 \<le> b \<and> b < 64"
  by (simp add: ufs_datablock_number_sanity_def demo_defs)

lemma demo_fgood: "p = None \<or> p = Some cache \<Longrightarrow> k < 2 ^ 32 \<Longrightarrow> fgood ram demo_ct k (demo p) demo_free"
  using demo_bgood by (simp add: bgood_def)

lemma direct_pos: "0 < n \<Longrightarrow> N \<le> 16 \<Longrightarrow> file_pos n N = {(r, []) | r. r < N}"
proof (intro set_eqI iffI)
  fix p assume n: "0 < n" "N \<le> 16" and "p \<in> file_pos n N"
  then have w: "pwf n p" "pfirst n p < N" by (auto simp: file_pos_def)
  then have "fst p < 16" using pfirst_level [OF w(1) n(1)] n(2) by (auto split: if_splits)
  with w show "p \<in> {(r, []) | r. r < N}" by (cases rule: pwf_cases [OF w(1)]) auto
qed (auto simp: file_pos_def pwf_def)

lemma direct_tree:
  assumes "length addr = 19" "0 < n" "N \<le> 16" "distinct (take N addr)"
    and "\<forall>b \<in> set (take N addr). ufs_datablock_number_sanity s b \<and> b \<notin> set L"
  shows "tree_ok ct s addr (file_pos n N) L"
proof -
  have "addr ! r \<in> set (take N addr)" if "r < N" for r using that assms(1,3) by (auto simp: in_set_conv_nth)
  then have a: "ufs_datablock_number_sanity s (addr ! r)" "addr ! r \<notin> set L" if "r < N" for r
    using that assms(5) by blast+
  show ?thesis
  unfolding tree_ok_def direct_pos [OF assms(2,3)]
proof (intro conjI allI ballI impI)
  show "inj_on (node (vview ct s) addr) {(r, []) | r. r < N}"
    using assms(1,3,4) by (auto simp: inj_on_def distinct_conv_nth)
qed (use assms(1,3) a in auto)
qed

text \<open>A file of 16 blocks, inode 3: the next block needs the first index block.\<close>

definition demo_file :: minode where
  "demo_file = \<lparr> mi_inode_number = 3, mi_type = 0, mi_flags = 0, mi_usecount = 1, mi_mounted_vdisk = None,
     mi_dinode = \<lparr> di_mode = 0x8000, di_nlink = 1, di_filesize = 8192, di_ctime = 0, di_mtime = 0, di_atime = 0,
       di_owner = replicate 9 0, di_group = replicate 9 0, di_codepage = 0,
       di_addr = [20, 21, 22, 23, 24, 25, 26, 27, 28, 29, 30, 31, 32, 33, 34, 35, 0, 0, 0] \<rparr> \<rparr>"

lemma demo_file_simps [simp]:
  "mi_inode_number demo_file = 3" "di_filesize (mi_dinode demo_file) = 8192"
  "m_addr demo_file = [20, 21, 22, 23, 24, 25, 26, 27, 28, 29, 30, 31, 32, 33, 34, 35, 0, 0, 0]"
  by (simp_all add: demo_file_def)

lemma demo_file_ok: "file_ok ct (demo p) demo_file demo_free"
proof -
  have b: "blocks 512 8192 = 16" "max_blocks 128 = 16 + 128 + 16384 + 2097152" by (simp_all add: blocks_def max_blocks_def)
  have "tree_ok ct (demo p) (m_addr demo_file) (file_pos 128 16) demo_free"
    by (rule direct_tree) (simp_all add: demo_free_def)
  moreover have "wf_dinode (mi_dinode demo_file)" by (simp add: demo_file_def wf_dinode_def)
  ultimately show ?thesis by (simp add: file_ok_def m_pos_def b inode_num_def)
qed

text \<open>The volume with an exhausted free list, a stale block 20, and a dataset whose block 5 cannot be read.\<close>

definition demo_empty :: "(u32 \<Rightarrow> block) vol" where
  "demo_empty = (demo None)\<lparr>v_outer := (\<lambda>b. if b = 20 then be32 100 else []),
     v_disk := demo_disk\<lparr>dk_sb := demo_sb\<lparr>sb_nfreeblock := 0, sb_total_freeblock := 0\<rparr>\<rparr>\<rparr>"

lemma demo_empty_fgood: "k < 2 ^ 32 \<Longrightarrow> fgood ram demo_ct k demo_empty []"
proof -
  assume k: "k < 2 ^ 32"
  have "vgood ram demo_ct (v_lim demo_empty) k demo_empty"
    using ram_good [of demo_empty k] k by (simp add: demo_empty_def demo_defs pgr_def)
  moreover have "free_ok demo_ct demo_empty []"
    by (simp add: free_ok_def demo_empty_def demo_defs UFS_MAX_FREEBLOCK_def fc_empty)
  ultimately show ?thesis by (simp add: fgood_def)
qed

lemma demo_empty_stale: "get32 (vview demo_ct demo_empty 20) 0 = 100"
proof -
  have "vview demo_ct demo_empty 20 = be32 100 @ replicate 508 0"
    by (simp add: raw_view demo_empty_def demo_defs ram_ct_def fit_pad)
  then show ?thesis by (simp add: get32_append_left)
qed

definition bad_ram :: "(u32 \<Rightarrow> block) os" where
  "bad_ram = ram\<lparr>osdread := (\<lambda>d bs b. (0x100, [], d))\<rparr>"

definition demo_last :: "(u32 \<Rightarrow> block) vol" where
  "demo_last = (demo None)\<lparr>v_disk := demo_disk\<lparr>dk_sb := demo_sb\<lparr>sb_nfreeblock := 1, sb_total_freeblock := 3\<rparr>\<rparr>\<rparr>"

text \<open>Caches with a page not yet written back, and full.\<close>

definition dirty_page :: page where
  "dirty_page = \<lparr> pg_lru = 4, pg_dirty = 1, pg_used = 2, pg_block = 9, pg_buf = replicate 512 7 \<rparr>"

definition clean_page :: page where
  "clean_page = \<lparr> pg_lru = 3, pg_dirty = 0, pg_used = 2, pg_block = 11, pg_buf = replicate 512 0 \<rparr>"

definition full_cache :: pager where
  "full_cache = cache\<lparr>pr_maxpages := 2, pr_pages := [dirty_page, clean_page]\<rparr>"

lemma full_pages: "pr_pages (pgr (demo (Some full_cache))) = [dirty_page, clean_page]"
  by (simp add: pgr_def demo_def full_cache_def)

lemma full_vinv: "k < 2 ^ 31 \<Longrightarrow> vinv ram demo_ct 64 k (demo (Some full_cache))"
proof -
  assume k: "k < 2 ^ 31"
  have "demo_ct (v_outer (demo (Some full_cache))) 11 = replicate 512 0"
    by (simp add: demo_def ram_ct_def demo_data_def fit_pad)
  then have "pinv 512 64 k [dirty_page, clean_page] (demo_ct (v_outer (demo (Some full_cache))))"
    using k by (simp add: pinv_def page_ok_def dirty_page_def clean_page_def one_page_def uniq_def less_Suc_eq_0_disj)
  then show ?thesis using ram_laws [of 512] by (simp add: vinv_def full_pages)
qed

end
