(* ===== verification/Store.thy ===== *)
theory Store
  imports Blocktree
begin

text \<open>
  The store of cached inodes beside the blocks: a change of a cached inode leaves everything the
  block layers see as it is.
\<close>

lemma set_minode_simps [simp]:
  "v_disk (set_minode p m s) = v_disk s" "v_outer (set_minode p m s) = v_outer s"
  "v_pager (set_minode p m s) = v_pager s" "v_minodes (set_minode p m s) = v_minodes s"
  "v_mnext (set_minode p m s) = v_mnext s" "v_mstore (set_minode p m s) = (v_mstore s)(p := m)"
  by (simp_all add: set_minode_def)

lemma set_minode_view [simp]: "vview ct (set_minode p m s) = vview ct s"
  by (simp add: vview_def pgr_def fun_eq_iff)

lemma set_minode_geom [simp]:
  "geom (set_minode p m s) = geom s" "per_block (set_minode p m s) = per_block s"
  "good_blksize (set_minode p m s) = good_blksize s"
  "ufs_datablock_number_sanity (set_minode p m s) = ufs_datablock_number_sanity s"
  "inode_num (set_minode p m s) = inode_num s" "inode_block (set_minode p m s) = inode_block s"
  "inode_slot (set_minode p m s) = inode_slot s"
  by (simp_all add: geom_def per_block_def good_blksize_def ufs_datablock_number_sanity_def fun_eq_iff
      inode_num_def inode_block_def inode_slot_def max_inode_def ipb_def)

lemma set_minode_good [simp]: "vgood os ct lim k (set_minode p m s) = vgood os ct lim k s"
  by (simp add: vgood_def vinv_def vlive_def pgr_def)

lemma set_minode_bgood [simp]: "bgood os ct k (set_minode p m s) L = bgood os ct k s L"
  by (simp add: bgood_def fgood_def free_ok_def)

lemma set_minode_tree [simp]: "tree_ok ct (set_minode p m s) a S L = tree_ok ct s a S L"
  by (simp add: tree_ok_def)

lemma set_minode_file [simp]:
  "m_pos (set_minode p m s) = m_pos s" "file_ok ct (set_minode p m s) = file_ok ct s"
  "file_block ct (set_minode p m s) = file_block ct s" "file_blocks ct (set_minode p m s) = file_blocks ct s"
  "file_nodes ct (set_minode p m s) = file_nodes ct s" "inode_at ct (set_minode p m s) = inode_at ct s"
  by (simp_all add: fun_eq_iff m_pos_def file_ok_def file_block_def file_blocks_def file_nodes_def inode_at_def)

end
