(* ===== verification/Stream_Model.thy ===== *)
theory Stream_Model
  imports Store
begin

text \<open>
  Open files (\<^verbatim>\<open>include/ufs/file.h\<close>, \<^verbatim>\<open>src/ufsf*.c\<close> and the
  \<^verbatim>\<open>src/ufs#f*.c\<close> entry points): a position, one block of the file in a buffer, and
  indicators. The handle is passed by value and returned as the functions leave it; the inode is
  found through its address in the volume's store, as other handles may share it. \<^verbatim>\<open>errno\<close> is
  not modelled: the functions only copy \<^verbatim>\<open>fp->error\<close> or their return code to it.
\<close>

section \<open>The file handle\<close>

definition FILE_MODE_READ :: byte where "FILE_MODE_READ = 0x80"
definition FILE_MODE_WRITE :: byte where "FILE_MODE_WRITE = 0x40"
definition FILE_MODE_BINARY :: byte where "FILE_MODE_BINARY = 0x20"
definition FILE_MODE_APPEND :: byte where "FILE_MODE_APPEND = 0x08"
definition FILE_MODE_TRUNC :: byte where "FILE_MODE_TRUNC = 0x04"
definition FILE_MODE_CREATE :: byte where "FILE_MODE_CREATE = 0x02"
definition FILE_IND_EOF :: byte where "FILE_IND_EOF = 0x80"
definition FILE_IND_ERROR :: byte where "FILE_IND_ERROR = 0x40"
definition FILE_IND_DIRTY :: byte where "FILE_IND_DIRTY = 0x20"

text \<open>
  \<open>fl_error\<close> is the 16-bit field \<^verbatim>\<open>error\<close>; the codes stored in it are values of
  \<^verbatim>\<open>errno\<close>, which fit, so that the code itself is kept here.
\<close>

record ufile =
  fl_filepos :: u32
  fl_mode :: byte
  fl_ind :: byte
  fl_error :: rc
  fl_minode :: nat
  fl_blksize :: u32
  fl_blkno :: u32
  fl_blkpos :: u32
  fl_blkbuf :: block
  fl_name :: "byte list"

text \<open>Tests and settings of the bits of \<^verbatim>\<open>fp->ind\<close> and \<^verbatim>\<open>fp->mode\<close>.\<close>

definition has :: "byte \<Rightarrow> byte \<Rightarrow> bool" where
  "has flags b \<longleftrightarrow> flags AND b \<noteq> 0"

definition ind_on :: "byte \<Rightarrow> ufile \<Rightarrow> ufile" where
  "ind_on b fp = fp\<lparr>fl_ind := fl_ind fp OR b\<rparr>"

definition ind_off :: "byte \<Rightarrow> ufile \<Rightarrow> ufile" where
  "ind_off b fp = fp\<lparr>fl_ind := fl_ind fp AND NOT b\<rparr>"

definition file_fail :: "rc \<Rightarrow> ufile \<Rightarrow> ufile" where
  "file_fail rc fp = ind_on FILE_IND_ERROR (fp\<lparr>fl_error := rc\<rparr>)"

section \<open>The block buffer\<close>

text \<open>
  \<open>load_block\<close> is the passage shared by the functions below: the block for position \<open>pos\<close> of the
  file is read into the buffer and the buffer position is computed again.
\<close>

definition load_block :: "'d os \<Rightarrow> 'd vol \<Rightarrow> ufile \<Rightarrow> u32 \<Rightarrow> (rc \<times> ufile \<times> 'd vol) option" where
  "load_block os s fp pos =
     do { m \<leftarrow> v_mstore s (fl_minode fp);
          (newblk, s) \<leftarrow> ufs_datablock_last os s m pos;
          if newblk = 0 then Some (RcErr EIO, file_fail (RcErr EIO) fp, s) else
          let (rc, buf, s) = ufs_vdisk_read os s (fl_blkbuf fp) newblk;
              fp = fp\<lparr>fl_blkno := newblk, fl_blkbuf := buf\<rparr> in
          if rc \<noteq> RcOk then Some (rc, file_fail rc fp, s) else
          if fl_blksize fp = 0 then None else
          Some (RcOk, fp\<lparr>fl_blkpos := fl_filepos fp mod fl_blksize fp\<rparr>, s) }"

definition ufs_file_sync :: "'d os \<Rightarrow> 'd vol \<Rightarrow> ufile \<Rightarrow> (ufile \<times> 'd vol) option" where
  "ufs_file_sync os s fp =
     do { (fp, s) \<leftarrow>
            (if has (fl_ind fp) FILE_IND_DIRTY then
               do { (fp, s) \<leftarrow>
                      (if fl_blkno fp = 0
                       then do { m \<leftarrow> v_mstore s (fl_minode fp);
                                 (b, s) \<leftarrow> ufs_datablock_last os s m (fl_filepos fp);
                                 Some (fp\<lparr>fl_blkno := b\<rparr>, s) }
                       else Some (fp, s));
                    if fl_blkno fp = 0 then Some (fp, s)
                    else let (_, s) = ufs_vdisk_write os s (fl_blkbuf fp) (fl_blkno fp)
                         in Some (ind_off FILE_IND_DIRTY fp, s) }
             else Some (fp, s));
          m \<leftarrow> v_mstore s (fl_minode fp);
          if has (mi_flags m) MINODE_FLAG_DIRTY
          then do { (_, m, s) \<leftarrow> ufs_inode_writeback os s m;
                    Some (fp, set_minode (fl_minode fp)
                       (Some (m\<lparr>mi_flags := mi_flags m AND NOT MINODE_FLAG_DIRTY\<rparr>)) s) }
          else Some (fp, s) }"

section \<open>Reading\<close>

text \<open>The character read, or \<open>-1\<close>.\<close>

definition ufs_file_getc :: "'d os \<Rightarrow> 'd vol \<Rightarrow> ufile \<Rightarrow> (int \<times> ufile \<times> 'd vol) option" where
  "ufs_file_getc os s fp =
     (if has (fl_ind fp) FILE_IND_EOF then Some (- 1, fp, s) else
      if has (fl_ind fp) FILE_IND_ERROR then Some (- 1, fp, s) else
      if \<not> has (fl_mode fp) FILE_MODE_READ then Some (- 1, file_fail (RcErr EPERM) fp, s) else
      do { m \<leftarrow> v_mstore s (fl_minode fp);
           if fl_filepos fp \<ge> di_filesize (mi_dinode m) then Some (- 1, ind_on FILE_IND_EOF fp, s) else
           do { (rc, fp, s) \<leftarrow>
                  (if fl_blkpos fp \<ge> fl_blksize fp then load_block os s fp (fl_filepos fp + 1)
                   else Some (RcOk, fp, s));
                if rc \<noteq> RcOk then Some (- 1, fp, s) else
                do { c \<leftarrow> nth_opt (fl_blkbuf fp) (unat (fl_blkpos fp));
                     Some (uint c, fp\<lparr>fl_blkpos := fl_blkpos fp + 1, fl_filepos := fl_filepos fp + 1\<rparr>, s) } } })"

fun getc_loop :: "'d os \<Rightarrow> nat \<Rightarrow> 'd vol \<Rightarrow> ufile \<Rightarrow> (u32 \<times> byte list \<times> ufile \<times> 'd vol) option" where
  "getc_loop os 0 s fp = Some (0, [], fp, s)"
| "getc_loop os (Suc n) s fp =
     do { (c, fp, s) \<leftarrow> ufs_file_getc os s fp;
          if c < 0 then Some (0, [], fp, s) else
          do { (count, bs, fp, s) \<leftarrow> getc_loop os n s fp; Some (count + 1, of_int c # bs, fp, s) } }"

definition slice_opt :: "nat \<Rightarrow> nat \<Rightarrow> block \<Rightarrow> byte list option" where
  "slice_opt i n b = (if i + n \<le> length b then Some (slice i n b) else None)"

lemma load_block_pos:
  assumes "load_block os s fp pos = Some (RcOk, fp', s')"
  shows "fl_blkpos fp' < fl_blksize fp'" "fl_blksize fp' = fl_blksize fp"
  using assms unfolding load_block_def
  by (auto simp: Let_def bind_eq_Some_conv word_less_nat_alt unat_mod word_neq_0_conv [symmetric] unat_gt_0
      split: prod.splits if_splits)

text \<open>
  The number of bytes read and the bytes. The recursion ends because a call either copies at least one
  byte, or reloads the buffer once and copies in the next call.
\<close>

function ufs_file_getn :: "'d os \<Rightarrow> 'd vol \<Rightarrow> ufile \<Rightarrow> u32 \<Rightarrow> (u32 \<times> byte list \<times> ufile \<times> 'd vol) option" where
  "ufs_file_getn os s fp n =
     (if n = 0 then Some (0, [], fp, s) else
      if has (fl_ind fp) FILE_IND_EOF then Some (0, [], fp, s) else
      if has (fl_ind fp) FILE_IND_ERROR then Some (0, [], fp, s) else
      if \<not> has (fl_mode fp) FILE_MODE_READ then Some (0, [], file_fail (RcErr EPERM) fp, s) else
      do { m \<leftarrow> v_mstore s (fl_minode fp);
           let filesize = di_filesize (mi_dinode m) in
           if fl_filepos fp \<ge> filesize then Some (0, [], ind_on FILE_IND_EOF fp, s) else
           let favail = filesize - fl_filepos fp in
           if favail > 0 then
             let avail = fl_blksize fp - fl_blkpos fp;
                 avail = (if avail > favail then favail else avail);
                 pos = unat (fl_blkpos fp) in
             if avail \<ge> n
             then do { bs \<leftarrow> slice_opt pos (unat n) (fl_blkbuf fp);
                       Some (n, bs, fp\<lparr>fl_blkpos := fl_blkpos fp + n, fl_filepos := fl_filepos fp + n\<rparr>, s) }
             else
               do { bs \<leftarrow> slice_opt pos (unat avail) (fl_blkbuf fp);
                    let fp = fp\<lparr>fl_blkpos := fl_blkpos fp + avail, fl_filepos := fl_filepos fp + avail\<rparr> in
                    if fl_filepos fp \<ge> filesize then Some (avail, bs, ind_on FILE_IND_EOF fp, s) else
                    do { (rc, fp, s) \<leftarrow> load_block os s fp (fl_filepos fp + 1);
                         if rc \<noteq> RcOk then Some (avail, bs, fp, s) else
                         do { (count, bs', fp, s) \<leftarrow> ufs_file_getn os s fp (n - avail);
                              Some (avail + count, bs @ bs', fp, s) } } }
           else getc_loop os (unat n) s fp })"
  by pat_completeness auto


lemma sub_below: "a < n \<Longrightarrow> a \<noteq> 0 \<Longrightarrow> unat (n - a) < unat (n :: u32)"
  using unat_gt_0 [of a] by (simp add: unat_sub word_le_nat_alt word_less_nat_alt)

definition getn_measure :: "ufile \<Rightarrow> u32 \<Rightarrow> nat" where
  "getn_measure fp n = 2 * unat n + (if fl_blkpos fp < fl_blksize fp then 0 else 1)"

lemma getn_decreases:
  assumes "load_block os s fp' pos = Some (RcOk, fp'', s')" "fl_blksize fp' = fl_blksize fp"
    and "\<not> n \<le> a" "a = 0 \<Longrightarrow> \<not> fl_blkpos fp < fl_blksize fp"
  shows "getn_measure fp'' (n - a) < getn_measure fp n"
proof (cases "a = 0")
  case True
  then show ?thesis using load_block_pos [OF assms(1)] assms(2,4) by (simp add: getn_measure_def)
next
  case False
  then have "unat (n - a) < unat n" using assms(3) sub_below by simp
  then show ?thesis using load_block_pos [OF assms(1)] by (simp add: getn_measure_def)
qed

termination ufs_file_getn
proof (relation "measure (\<lambda>(os, s, fp, n). getn_measure fp n)", goal_cases)
  case 1
  then show ?case by simp
next
  case (2 os s fp n m filesize favail avail avail' pos bs fp' l rc lb fp'' s')
  then have l: "load_block os s fp' (fl_filepos fp' + 1) = Some (RcOk, fp'', s')" by simp
  have "getn_measure fp'' (n - avail') < getn_measure fp n"
    by (rule getn_decreases [OF l]) (use 2 in \<open>auto split: if_splits\<close>)
  then show ?case by simp
qed


declare ufs_file_getn.simps [simp del]

section \<open>Writing\<close>

definition ufs_file_putc :: "'d os \<Rightarrow> 'd vol \<Rightarrow> u32 \<Rightarrow> ufile \<Rightarrow> (int \<times> ufile \<times> 'd vol) option" where
  "ufs_file_putc os s c fp =
     (let quit = (\<lambda>rc fp s. Some (- 1, file_fail rc fp, s)) in
      if has (fl_ind fp) FILE_IND_ERROR then Some (- 1, fp, s) else
      if \<not> has (fl_mode fp) FILE_MODE_WRITE then quit (RcErr EPERM) fp s else
      do { m \<leftarrow> v_mstore s (fl_minode fp);
           (rc, s) \<leftarrow>
             (if fl_filepos fp \<ge> di_filesize (mi_dinode m)
              then at_minode (fl_minode fp) (\<lambda>s. ufs_datablock_size_change os s (fl_filepos fp + 1)) s
              else Some (RcOk, s));
           if rc \<noteq> RcOk then quit rc fp s else
           do { (rc, fp, s) \<leftarrow>
                  (if fl_blkpos fp \<ge> fl_blksize fp
                   then do { (fp, s) \<leftarrow> ufs_file_sync os s fp; load_block os s fp (fl_filepos fp) }
                   else Some (RcOk, fp, s));
                if rc \<noteq> RcOk then quit rc fp s else
                let i = unat (fl_blkpos fp) in
                if i \<ge> length (fl_blkbuf fp) then None else
                Some (0, ind_on FILE_IND_DIRTY (fp\<lparr>fl_blkbuf := (fl_blkbuf fp)[i := ucast c],
                  fl_blkpos := fl_blkpos fp + 1, fl_filepos := fl_filepos fp + 1\<rparr>), s) } })"

text \<open>\<open>memcpy\<close> of \<open>bs\<close> into the block buffer at the current position, and the advance.\<close>

definition fill_buf :: "byte list \<Rightarrow> ufile \<Rightarrow> ufile option" where
  "fill_buf bs fp =
     (let i = unat (fl_blkpos fp); n = of_nat (length bs) in
      if i + length bs > length (fl_blkbuf fp) then None else
      Some (ind_on FILE_IND_DIRTY (fp\<lparr>fl_blkbuf := blit i bs (fl_blkbuf fp),
        fl_filepos := fl_filepos fp + n, fl_blkpos := fl_blkpos fp + n\<rparr>)))"

lemma fill_buf_blksize: "fill_buf bs fp = Some fp' \<Longrightarrow> fl_blksize fp' = fl_blksize fp"
  by (auto simp: fill_buf_def ind_on_def Let_def split: if_splits)

lemma file_sync_blksize: "ufs_file_sync os s fp = Some (fp', s') \<Longrightarrow> fl_blksize fp' = fl_blksize fp"
  unfolding ufs_file_sync_def
  by (auto simp: ind_off_def Let_def bind_eq_Some_conv split: if_splits prod.splits)

definition putn_extend :: "'d os \<Rightarrow> 'd vol \<Rightarrow> ufile \<Rightarrow> u32 \<Rightarrow> (rc \<times> ufile \<times> 'd vol) option" where
  "putn_extend os s fp newsize =
     do { m \<leftarrow> v_mstore s (fl_minode fp);
          if newsize > di_filesize (mi_dinode m)
          then do { (rc, s) \<leftarrow> at_minode (fl_minode fp) (\<lambda>s. ufs_datablock_size_change os s newsize) s;
                    if rc \<noteq> RcOk then Some (rc, file_fail rc fp, s)
                    else Some (RcOk, ind_off FILE_IND_EOF fp, s) }
          else Some (RcOk, fp, s) }"

lemma putn_extend_pos:
  "putn_extend os s fp newsize = Some (rc, fp', s') \<Longrightarrow> fl_blksize fp' = fl_blksize fp \<and> fl_blkpos fp' = fl_blkpos fp"
  unfolding putn_extend_def
  by (auto simp: ind_off_def ind_on_def file_fail_def bind_eq_Some_conv split: if_splits prod.splits)

text \<open>The number of bytes written; \<open>buf\<close> is what the caller's pointer points to.\<close>

function ufs_file_putn :: "'d os \<Rightarrow> 'd vol \<Rightarrow> ufile \<Rightarrow> byte list \<Rightarrow> u32 \<Rightarrow> (u32 \<times> ufile \<times> 'd vol) option" where
  "ufs_file_putn os s fp buf n =
     (if n = 0 then Some (0, fp, s) else
      if has (fl_ind fp) FILE_IND_ERROR then Some (0, fp, s) else
      if \<not> has (fl_mode fp) FILE_MODE_WRITE then Some (0, file_fail (RcErr EPERM) fp, s) else
      do { (rc, fp1, s) \<leftarrow> putn_extend os s fp (fl_filepos fp + n);
           if rc \<noteq> RcOk then Some (0, fp1, s) else
           let avail = fl_blksize fp1 - fl_blkpos fp1 in
           if avail \<ge> n
           then do { bs \<leftarrow> slice_opt 0 (unat n) buf; fp2 \<leftarrow> fill_buf bs fp1; Some (n, fp2, s) }
           else
             do { fp2 \<leftarrow> (if avail > 0 then do { bs \<leftarrow> slice_opt 0 (unat avail) buf; fill_buf bs fp1 }
                           else Some fp1);
                  (fp3, s) \<leftarrow> ufs_file_sync os s fp2;
                  (rc, fp4, s) \<leftarrow> load_block os s fp3 (fl_filepos fp3 + 1);
                  if rc \<noteq> RcOk then Some (avail, fp4, s) else
                  do { (count, fp5, s) \<leftarrow> ufs_file_putn os s fp4 (drop (unat avail) buf) (n - avail);
                       Some (avail + count, fp5, s) } } })"
  by pat_completeness auto


termination ufs_file_putn
proof (relation "measure (\<lambda>(os, s, fp, buf, n). getn_measure fp n)", goal_cases)
  case 1
  then show ?case by simp
next
  case prems: (2 os s fp buf n x rc y fp1 s1 avail fp2 z fp3 s3 w rc' v fp4 s4)
  then have l: "load_block os s3 fp3 (fl_filepos fp3 + 1) = Some (RcOk, fp4, s4)" by simp
  have e: "fl_blksize fp1 = fl_blksize fp" "fl_blkpos fp1 = fl_blkpos fp"
    using prems putn_extend_pos by blast+
  have f2: "fl_blksize fp2 = fl_blksize fp1"
    using prems fill_buf_blksize by (auto simp: bind_eq_Some_conv split: if_splits)
  have sy: "ufs_file_sync os s1 fp2 = Some (fp3, s3)" using prems by simp
  have f3: "fl_blksize fp3 = fl_blksize fp" using file_sync_blksize [OF sy] f2 e(1) by simp
  have "getn_measure fp4 (n - avail) < getn_measure fp n"
    by (rule getn_decreases [OF l f3]) (use prems e in auto)
  then show ?case by simp
qed

declare ufs_file_putn.simps [simp del]


section \<open>Entry points\<close>

text \<open>
  The functions of \<^verbatim>\<open>ufs.h\<close> take the handle's lock; a handle or pointer that may be
  \<^verbatim>\<open>NULL\<close> is an option.
\<close>

definition file_locked :: "'d os \<Rightarrow> ('d vol \<Rightarrow> ('a \<times> 'd vol) option) \<Rightarrow> 'd vol \<Rightarrow> ('a \<times> 'd vol) option" where
  "file_locked os f s =
     (let (lockrc, s) = lock os LkFile s
      in do { (r, s) \<leftarrow> f s; Some (r, unlock os lockrc LkFile s) })"

definition regroup :: "('a \<times> 'b \<times> 'c) option \<Rightarrow> (('a \<times> 'b) \<times> 'c) option" where
  "regroup = map_option (\<lambda>(a, b, c). ((a, b), c))"

definition ufs_fgetc :: "'d os \<Rightarrow> 'd vol \<Rightarrow> ufile option \<Rightarrow> ((int \<times> ufile option) \<times> 'd vol) option" where
  "ufs_fgetc os s fp =
     (case fp of None \<Rightarrow> Some ((0, None), s)
      | Some fp \<Rightarrow> file_locked os (\<lambda>s. do { (c, fp, s) \<leftarrow> ufs_file_getc os s fp; Some ((c, Some fp), s) }) s)"

definition ufs_fputc :: "'d os \<Rightarrow> 'd vol \<Rightarrow> u32 \<Rightarrow> ufile option \<Rightarrow> ((int \<times> ufile option) \<times> 'd vol) option" where
  "ufs_fputc os s c fp =
     (case fp of None \<Rightarrow> Some ((- 1, None), s)
      | Some fp \<Rightarrow> file_locked os (\<lambda>s. do { (r, fp, s) \<leftarrow> ufs_file_putc os s c fp; Some ((r, Some fp), s) }) s)"

text \<open>
  \<open>ufs_fgets\<close> reads to a newline, EBCDIC \<open>nl\<close> or ASCII, at most \<open>num - 1\<close> characters. The result is
  the string, without its terminating zero, or \<^verbatim>\<open>NULL\<close>.
\<close>

fun gets_loop :: "'d os \<Rightarrow> byte \<Rightarrow> nat \<Rightarrow> 'd vol \<Rightarrow> ufile \<Rightarrow> (byte list \<times> ufile \<times> 'd vol) option" where
  "gets_loop os nl 0 s fp = Some ([], fp, s)"
| "gets_loop os nl (Suc n) s fp =
     do { (c, fp, s) \<leftarrow> ufs_file_getc os s fp;
          if c < 0 then Some ([], fp, s) else
          let b = of_int c in
          if b = nl \<or> b = 0x0A then Some ([b], fp, s) else
          do { (bs, fp, s) \<leftarrow> gets_loop os nl n s fp; Some (b # bs, fp, s) } }"

definition ufs_fgets :: "'d os \<Rightarrow> byte \<Rightarrow> 'd vol \<Rightarrow> int \<Rightarrow> ufile option \<Rightarrow>
    ((byte list option \<times> ufile option) \<times> 'd vol) option" where
  "ufs_fgets os nl s num fp =
     (if num = 0 then Some ((None, fp), s) else
      case fp of None \<Rightarrow> Some ((None, None), s)
      | Some fp \<Rightarrow>
          do { ((bs, fp), s) \<leftarrow> file_locked os
                 (\<lambda>s. if \<not> has (fl_mode fp) FILE_MODE_READ then Some (([], file_fail (RcErr EPERM) fp), s)
                      else regroup (gets_loop os nl (nat (num - 1)) s fp)) s;
               Some ((if bs = [] then None else Some bs, Some fp), s) })"

definition ufs_fputs :: "'d os \<Rightarrow> 'd vol \<Rightarrow> byte list \<Rightarrow> ufile option \<Rightarrow> ((int \<times> ufile option) \<times> 'd vol) option" where
  "ufs_fputs os s txt fp =
     (case fp of None \<Rightarrow> Some ((- 1, None), s)
      | Some fp \<Rightarrow>
          let num = of_nat (length (cstr txt)) in
          file_locked os (\<lambda>s.
            if num > 0
            then do { (n, fp, s) \<leftarrow> ufs_file_putn os s fp (cstr txt) num;
                      Some ((if n \<noteq> num then - 1 else 0, Some fp), s) }
            else Some ((0, Some fp), s)) s)"

text \<open>Items read and the bytes stored at the caller's pointer, a partial last item included.\<close>

fun fread_loop :: "'d os \<Rightarrow> nat \<Rightarrow> 'd vol \<Rightarrow> ufile \<Rightarrow> u32 \<Rightarrow> u32 \<Rightarrow> (u32 \<times> byte list \<times> ufile \<times> 'd vol) option" where
  "fread_loop os 0 s fp sz items = Some (items, [], fp, s)"
| "fread_loop os (Suc k) s fp sz items =
     do { (n, bs, fp, s) \<leftarrow> ufs_file_getn os s fp sz;
          if n < sz then Some (items, bs, fp, s) else
          do { (items, bs', fp, s) \<leftarrow> fread_loop os k s fp sz (items + 1); Some (items, bs @ bs', fp, s) } }"

definition ufs_fread :: "'d os \<Rightarrow> 'd vol \<Rightarrow> u32 \<Rightarrow> u32 \<Rightarrow> ufile option \<Rightarrow>
    ((u32 \<times> byte list \<times> ufile option) \<times> 'd vol) option" where
  "ufs_fread os s sz nitems fp =
     (if sz = 0 \<or> nitems = 0 then Some ((0, [], fp), s) else
      case fp of None \<Rightarrow> Some ((0, [], None), s)
      | Some fp \<Rightarrow> file_locked os (\<lambda>s.
          if sz = 1 \<or> nitems = 1
          then do { (items, bs, fp, s) \<leftarrow> ufs_file_getn os s fp (sz * nitems);
                    Some ((if items > 0 then items div sz else items, bs, Some fp), s) }
          else do { (items, bs, fp, s) \<leftarrow> fread_loop os (unat nitems) s fp sz 0;
                    Some ((items, bs, Some fp), s) }) s)"

fun fwrite_loop :: "'d os \<Rightarrow> nat \<Rightarrow> 'd vol \<Rightarrow> ufile \<Rightarrow> byte list \<Rightarrow> u32 \<Rightarrow> u32 \<Rightarrow> (u32 \<times> ufile \<times> 'd vol) option" where
  "fwrite_loop os 0 s fp ptr sz items = Some (items, fp, s)"
| "fwrite_loop os (Suc k) s fp ptr sz items =
     do { (n, fp, s) \<leftarrow> ufs_file_putn os s fp ptr sz;
          if n < sz then Some (items, fp, s)
          else fwrite_loop os k s fp (drop (unat sz) ptr) sz (items + 1) }"

definition ufs_fwrite :: "'d os \<Rightarrow> 'd vol \<Rightarrow> byte list \<Rightarrow> u32 \<Rightarrow> u32 \<Rightarrow> ufile option \<Rightarrow>
    ((u32 \<times> ufile option) \<times> 'd vol) option" where
  "ufs_fwrite os s ptr sz nitems fp =
     (if sz = 0 \<or> nitems = 0 then Some ((0, fp), s) else
      case fp of None \<Rightarrow> Some ((0, None), s)
      | Some fp \<Rightarrow> file_locked os (\<lambda>s.
          if sz = 1 \<or> nitems = 1
          then do { (items, fp, s) \<leftarrow> ufs_file_putn os s fp ptr (sz * nitems);
                    Some ((if items > 0 then items div sz else items, Some fp), s) }
          else do { (items, fp, s) \<leftarrow> fwrite_loop os (unat nitems) s fp ptr sz 0;
                    Some ((items, Some fp), s) }) s)"

definition ufs_feof :: "ufile option \<Rightarrow> int" where
  "ufs_feof fp = (case fp of None \<Rightarrow> 0 | Some fp \<Rightarrow> if has (fl_ind fp) FILE_IND_EOF then 1 else 0)"

definition ufs_ferror :: "ufile option \<Rightarrow> rc" where
  "ufs_ferror fp =
     (case fp of None \<Rightarrow> RcOk | Some fp \<Rightarrow> if has (fl_ind fp) FILE_IND_ERROR then fl_error fp else RcOk)"

definition ufs_clearerr :: "ufile option \<Rightarrow> ufile option" where
  "ufs_clearerr fp = map_option (\<lambda>fp. (ind_off FILE_IND_ERROR fp)\<lparr>fl_error := RcOk\<rparr>) fp"

definition ufs_fsync :: "'d os \<Rightarrow> 'd vol \<Rightarrow> ufile option \<Rightarrow> (ufile option \<times> 'd vol) option" where
  "ufs_fsync os s fp =
     (case fp of None \<Rightarrow> Some (None, s)
      | Some fp \<Rightarrow> file_locked os (\<lambda>s. do { (fp, s) \<leftarrow> ufs_file_sync os s fp; Some (Some fp, s) }) s)"

text \<open>\<^verbatim>\<open>ufs_file_mode\<close>: the mode string, or \<^verbatim>\<open>NULL\<close>, to mode bits.\<close>

definition mode_first :: "byte \<Rightarrow> byte" where
  "mode_first c =
     (if c = ch CHR ''r'' then FILE_MODE_READ
      else if c = ch CHR ''w'' then FILE_MODE_WRITE + FILE_MODE_CREATE + FILE_MODE_TRUNC
      else if c = ch CHR ''a'' then FILE_MODE_WRITE + FILE_MODE_CREATE + FILE_MODE_APPEND
      else 0)"

definition mode_next :: "byte \<Rightarrow> byte \<Rightarrow> byte" where
  "mode_next c flags =
     (if c = ch CHR ''b'' then flags OR FILE_MODE_BINARY
      else if c = ch CHR ''+'' then
        (if has flags FILE_MODE_READ then flags OR FILE_MODE_WRITE
         else if has flags FILE_MODE_WRITE then flags OR FILE_MODE_READ
         else flags)
      else if c = ch CHR ''r'' then flags OR FILE_MODE_READ
      else if c = ch CHR ''w'' then flags OR FILE_MODE_WRITE
      else flags)"

definition ufs_file_mode :: "byte list option \<Rightarrow> byte" where
  "ufs_file_mode mode =
     (case mode of None \<Rightarrow> 0
      | Some mode \<Rightarrow>
          (case cstr mode of [] \<Rightarrow> 0 | c # cs \<Rightarrow> fold mode_next cs (mode_first c)))"


section \<open>Seeking\<close>

datatype whence = UFS_SEEK_SET | UFS_SEEK_CUR | UFS_SEEK_END | UFS_SEEK_OTHER

text \<open>
  The new position, \<open>Inl\<close> for the \<^verbatim>\<open>EINVAL\<close> exits; negating the least
  \<^verbatim>\<open>INT32\<close> is undefined. Any other \<^verbatim>\<open>whence\<close> leaves \<^verbatim>\<open>newpos\<close> 0.
\<close>

definition seek_from :: "u32 \<Rightarrow> u32 \<Rightarrow> (rc + u32) option" where
  "seek_from base offset =
     (if sint offset < 0 then
        (if offset = 0x80000000 then None
         else if - offset > base then Some (Inl (RcErr EINVAL)) else Some (Inr (base - (- offset))))
      else let newpos = base + offset in
           if newpos < base then Some (Inl (RcErr EINVAL)) else Some (Inr newpos))"

definition seek_pos :: "ufile \<Rightarrow> u32 \<Rightarrow> u32 \<Rightarrow> whence \<Rightarrow> (rc + u32) option" where
  "seek_pos fp filesize offset whence =
     (case whence of
        UFS_SEEK_SET \<Rightarrow> Some (Inr (if sint offset \<ge> 0 then offset else 0))
      | UFS_SEEK_CUR \<Rightarrow> seek_from (fl_filepos fp) offset
      | UFS_SEEK_END \<Rightarrow> seek_from filesize offset
      | UFS_SEEK_OTHER \<Rightarrow> Some (Inr 0))"

text \<open>On a handle that can only write, seeking sets the size of the file to the position.\<close>

definition seek_resize :: "'d os \<Rightarrow> bool \<Rightarrow> 'd vol \<Rightarrow> ufile \<Rightarrow> u32 \<Rightarrow> (rc \<times> 'd vol) option" where
  "seek_resize os cond s fp newpos =
     (if cond \<and> \<not> has (fl_mode fp) FILE_MODE_READ
      then at_minode (fl_minode fp) (\<lambda>s. ufs_datablock_size_change os s newpos) s
      else Some (RcOk, s))"

definition file_size :: "'d vol \<Rightarrow> ufile \<Rightarrow> u32 option" where
  "file_size s fp = map_option (\<lambda>m. di_filesize (mi_dinode m)) (v_mstore s (fl_minode fp))"

definition seek_write :: "'d os \<Rightarrow> 'd vol \<Rightarrow> ufile \<Rightarrow> u32 \<Rightarrow> (rc \<times> ufile \<times> 'd vol) option" where
  "seek_write os s fp newpos =
     (if \<not> has (fl_mode fp) FILE_MODE_WRITE then Some (RcOk, fp, s) else
      do { sz \<leftarrow> file_size s fp;
           (rc, s) \<leftarrow> seek_resize os (newpos > sz) s fp newpos;
           if rc \<noteq> RcOk then Some (rc, fp, s) else
           do { (fp', s) \<leftarrow> ufs_fsync os s (Some fp);
                fp \<leftarrow> fp';
                sz \<leftarrow> file_size s fp;
                (rc, s) \<leftarrow> seek_resize os (newpos < sz) s fp newpos;
                Some (rc, fp, s) } })"

definition seek_load :: "'d os \<Rightarrow> 'd vol \<Rightarrow> ufile \<Rightarrow> u32 \<Rightarrow> (rc \<times> ufile \<times> 'd vol) option" where
  "seek_load os s fp newpos =
     (if fl_blksize fp = 0 then None else
      let fp = fp\<lparr>fl_filepos := newpos, fl_blkpos := newpos mod fl_blksize fp\<rparr> in
      do { m \<leftarrow> v_mstore s (fl_minode fp);
           (newblk, s) \<leftarrow> ufs_datablock_last os s m newpos;
           if newblk = 0
           then Some (RcOk, fp\<lparr>fl_blkbuf := replicate (unat (fl_blksize fp)) 0\<rparr>, s)
           else if newblk \<noteq> fl_blkno fp
           then let (rc, buf, s) = ufs_vdisk_read os s (fl_blkbuf fp) newblk
                in Some (rc, fp\<lparr>fl_blkno := newblk, fl_blkbuf := buf\<rparr>, s)
           else Some (RcOk, fp, s) })"

definition seek_file :: "'d os \<Rightarrow> 'd vol \<Rightarrow> ufile \<Rightarrow> u32 \<Rightarrow> whence \<Rightarrow> ((rc \<times> ufile option) \<times> 'd vol) option" where
  "seek_file os s fp offset whence =
     (let quit = (\<lambda>rc fp s. Some ((rc, Some (file_fail rc fp)), s)) in
     do { sz \<leftarrow> file_size s fp;
          target \<leftarrow> seek_pos fp sz offset whence;
          case target of
            Inl rc \<Rightarrow> quit rc fp s
          | Inr newpos \<Rightarrow>
              do { (rc, fp, s) \<leftarrow> seek_write os s fp newpos;
                   if rc \<noteq> RcOk then quit rc fp s else
                   do { (rc, fp, s) \<leftarrow> seek_load os s fp newpos;
                        if rc \<noteq> RcOk then quit rc fp s else
                        do { sz \<leftarrow> file_size s fp;
                             let fp = (if fl_filepos fp < sz then ind_off FILE_IND_EOF fp
                                       else ind_on FILE_IND_EOF fp);
                                 fp = (ind_off FILE_IND_ERROR fp)\<lparr>fl_error := RcOk\<rparr>
                             in Some ((RcOk, Some fp), s) } } } })"

definition ufs_fseek :: "'d os \<Rightarrow> 'd vol \<Rightarrow> ufile option \<Rightarrow> u32 \<Rightarrow> whence \<Rightarrow>
    ((rc \<times> ufile option) \<times> 'd vol) option" where
  "ufs_fseek os s fp offset whence = file_locked os (\<lambda>s.
     case fp of None \<Rightarrow> Some ((RcErr EINVAL, None), s)
     | Some fp \<Rightarrow> seek_file os s fp offset whence) s"

end
