(* ===== verification/Stream.thy ===== *)
theory Stream
  imports Stream_Model
begin

text \<open>
  What reading and writing through a handle does to the bytes of the file: the block buffer and the
  chain of blocks present one sequence of bytes.
\<close>

section \<open>Bytes of a file\<close>

definition file_bytes :: "('d \<Rightarrow> u32 \<Rightarrow> block) \<Rightarrow> 'd vol \<Rightarrow> minode \<Rightarrow> byte list" where
  "file_bytes ct s m = take (unat (di_filesize (mi_dinode m))) (concat (file_blocks ct s m))"

abbreviation nblks :: "'d vol \<Rightarrow> minode \<Rightarrow> nat" where
  "nblks s m \<equiv> blocks (unat (v_blksize s)) (unat (di_filesize (mi_dinode m)))"

abbreviation data_node :: "('d \<Rightarrow> u32 \<Rightarrow> block) \<Rightarrow> 'd vol \<Rightarrow> minode \<Rightarrow> nat \<Rightarrow> u32" where
  "data_node ct s m i \<equiv> node (vview ct s) (m_addr m) (fpath (per_block s) i)"

lemma slice_add: "slice i (a + b) xs = slice i a xs @ slice (i + a) b xs"
  by (simp add: slice_def take_add add.commute)

lemma slice_take: "i + n \<le> k \<Longrightarrow> slice i n (take k xs) = slice i n xs"
  by (simp add: slice_def take_drop [symmetric] drop_take min_def)

lemma slice_concat:
  assumes "\<forall>x \<in> set xss. length x = b" "i < length xss" "p + n \<le> b"
  shows "slice (i * b + p) n (concat xss) = slice p n (xss ! i)"
  using assms
proof (induction xss arbitrary: i)
  case (Cons x xss)
  show ?case
  proof (cases i)
    case 0
    then show ?thesis using Cons.prems by (simp add: slice_append_left)
  next
    case (Suc j)
    then show ?thesis using Cons.IH [of j] Cons.prems by (simp add: slice_append_right add.assoc)
  qed
qed simp

lemma length_concat_uniform: "\<forall>x \<in> set xss. length x = b \<Longrightarrow> length (concat xss) = length xss * b"
  by (induction xss) auto

lemma pos_block: "0 < bs \<Longrightarrow> p < sz \<Longrightarrow> p div bs < blocks bs sz"
proof -
  assume "0 < bs" "p < sz"
  then have "p < blocks bs sz * bs" using le_blocks [of bs sz] by simp
  then show ?thesis by (rule less_mult_imp_div_less)
qed

lemma length_file_blocks [simp]: "length (file_blocks ct s m) = nblks s m"
  by (simp add: file_blocks_def)

lemma nth_file_blocks [simp]: "i < nblks s m \<Longrightarrow> file_blocks ct s m ! i = file_block ct s (m_addr m) i"
  by (simp add: file_blocks_def)

lemma data_node_in:
  assumes "file_ok ct s m L" "i < nblks s m"
  shows "fpath (per_block s) i \<in> m_pos s m"
  unfolding m_pos_def using assms(2) file_okD(5) [OF assms(1)] by (intro fpath_in) simp_all

lemma data_node_sane:
  assumes "file_ok ct s m L" "i < nblks s m"
  shows "ufs_datablock_number_sanity s (data_node ct s m i)" "data_node ct s m i \<notin> set L"
  using tree_okD(5,6) [OF file_okD(1) [OF assms(1)] data_node_in [OF assms]] by blast+

lemma file_block_length:
  assumes "bgood os ct k s L" "file_ok ct s m L" "i < nblks s m"
  shows "length (file_block ct s (m_addr m) i) = unat (v_blksize s)"
  unfolding file_block_def by (rule block_length [OF assms(1) data_node_sane(1) [OF assms(2,3)]])

lemma file_blocks_lengths:
  assumes "bgood os ct k s L" "file_ok ct s m L"
  shows "\<forall>x \<in> set (file_blocks ct s m). length x = unat (v_blksize s)"
  using file_block_length [OF assms] by (auto simp: in_set_conv_nth)

lemma bgood_bs: "bgood os ct k s L \<Longrightarrow> 0 < unat (v_blksize s)"
  by (simp add: bgood_def geom_def)

lemma length_file_bytes:
  assumes "bgood os ct k s L" "file_ok ct s m L"
  shows "length (file_bytes ct s m) = unat (di_filesize (mi_dinode m))"
  using length_concat_uniform [OF file_blocks_lengths [OF assms]] le_blocks [OF bgood_bs [OF assms(1)]]
  by (simp add: file_bytes_def min_def not_le) (metis le_antisym)

lemma bytes_in_block:
  assumes g: "bgood os ct k s L" and f: "file_ok ct s m L" and i: "i < nblks s m"
    and p: "p + n \<le> unat (v_blksize s)" "i * unat (v_blksize s) + p + n \<le> unat (di_filesize (mi_dinode m))"
  shows "slice (i * unat (v_blksize s) + p) n (file_bytes ct s m) = slice p n (file_block ct s (m_addr m) i)"
  unfolding file_bytes_def slice_take [OF p(2)]
  using slice_concat [OF file_blocks_lengths [OF g f] _ p(1), of i] i by simp

section \<open>The handle on its file\<close>

text \<open>
  \<open>file_handle\<close>: the handle is open on inode \<open>m\<close> of a working volume. \<open>at_block i\<close>: its buffer is
  that of block \<open>i\<close> of the file; a block number in the handle is that of block \<open>i\<close>, and a buffer with
  nothing to write back has the content of the block, zeros beyond the last one.
\<close>

definition file_handle :: "'d os \<Rightarrow> ('d \<Rightarrow> u32 \<Rightarrow> block) \<Rightarrow> nat \<Rightarrow> 'd vol \<Rightarrow> ufile \<Rightarrow> minode \<Rightarrow> u32 list \<Rightarrow> bool" where
  "file_handle os ct k s fp m L \<longleftrightarrow> bgood os ct k s L \<and> file_ok ct s m L \<and> good_blksize s
     \<and> v_mstore s (fl_minode fp) = Some m \<and> \<not> has (mi_flags m) MINODE_FLAG_DIRTY
     \<and> fl_blksize fp = ucast (v_blksize s) \<and> length (fl_blkbuf fp) = unat (v_blksize s)"

definition at_block :: "('d \<Rightarrow> u32 \<Rightarrow> block) \<Rightarrow> 'd vol \<Rightarrow> ufile \<Rightarrow> minode \<Rightarrow> nat \<Rightarrow> bool" where
  "at_block ct s fp m i \<longleftrightarrow> unat (fl_blkpos fp) \<le> unat (v_blksize s)
     \<and> unat (fl_filepos fp) = i * unat (v_blksize s) + unat (fl_blkpos fp)
     \<and> (fl_blkno fp = 0 \<or> i < nblks s m \<and> fl_blkno fp = data_node ct s m i)
     \<and> (if has (fl_ind fp) FILE_IND_DIRTY then i < nblks s m \<and> 0 < unat (fl_blkpos fp)
        else fl_blkbuf fp = (if i < nblks s m then file_block ct s (m_addr m) i
                             else replicate (unat (v_blksize s)) 0))"

lemma file_handleD:
  assumes "file_handle os ct k s fp m L"
  shows "bgood os ct k s L" "file_ok ct s m L" "good_blksize s" "v_mstore s (fl_minode fp) = Some m"
    "\<not> has (mi_flags m) MINODE_FLAG_DIRTY"
    "fl_blksize fp = ucast (v_blksize s)" "length (fl_blkbuf fp) = unat (v_blksize s)"
  using assms by (simp_all add: file_handle_def)

lemma file_handle_mono: "file_handle os ct k s fp m L \<Longrightarrow> j \<le> k \<Longrightarrow> file_handle os ct j s fp m L"
  unfolding file_handle_def using bgood_mono by blast

lemma file_handle_vsame:
  assumes "file_handle os ct k s fp m L" "bgood os ct j s' L" "vsame ct s s'"
    and "fl_minode fp' = fl_minode fp" "fl_blksize fp' = fl_blksize fp" "length (fl_blkbuf fp') = unat (v_blksize s)"
  shows "file_handle os ct j s' fp' m L"
  using assms file_vsame [OF assms(3)] vsameD [OF assms(3)] by (simp add: file_handle_def)

lemma at_block_vsame:
  assumes "vsame ct s s'" shows "at_block ct s' fp m i = at_block ct s fp m i"
proof -
  note r = vrest_frest_geom [OF vsameD(2) [OF assms]] and v = vsameD [OF assms]
  show ?thesis by (simp add: at_block_def v r file_block_def)
qed

lemma load_block_at:
  assumes h: "file_handle os ct k s fp m L" and off: "0 < unat pos" "unat pos \<le> 2 ^ 31"
    and i: "i = (unat pos - 1) div unat (v_blksize s)" "i < nblks s m"
  obtains s' where "load_block os s fp pos = Some (RcOk,
      fp\<lparr>fl_blkno := data_node ct s m i, fl_blkbuf := file_block ct s (m_addr m) i,
         fl_blkpos := fl_filepos fp mod ucast (v_blksize s)\<rparr>, s')"
    "bgood os ct k s' L" "vsame ct s s'"
proof -
  note d = file_handleD [OF h]
  have bs: "0 < unat (v_blksize s)" by (rule bgood_bs [OF d(1)])
  obtain s1 where l: "ufs_datablock_last os s m pos = Some (data_node ct s m i, s1)"
    "bgood os ct k s1 L" "vsame ct s s1"
    by (rule last_ok [OF d(2,1,3) off i])
  note v1 = vsameD [OF l(3)]
  note sn = data_node_sane(1) [OF d(2) i(2)]
  have vg: "vgood os ct (v_lim s1) k s1" using l(2) by (simp add: bgood_def fgood_def)
  have lim: "data_node ct s m i < v_lim s1" using sane_lim [OF sn] v1(3) by simp
  have len: "length (fl_blkbuf fp) = unat (v_blksize s1)" using d(7) v1(4) by simp
  obtain s2 where r: "ufs_vdisk_read os s1 (fl_blkbuf fp) (data_node ct s m i)
      = (RcOk, vview ct s1 (data_node ct s m i), s2)" "vgood os ct (v_lim s1) k s2" "vsame ct s1 s2"
    using good_read [OF vg lim len] by metis
  have v: "vsame ct s s2" by (rule vsame_trans [OF l(3) r(3)])
  have "bgood os ct k s2 L" by (rule bgood_vsame [OF l(2) r(2,3)])
  moreover have "data_node ct s m i \<noteq> 0" by (rule bgood_nonzero [OF d(1) sn])
  moreover have "fl_blksize fp \<noteq> 0" using bs d(6) unat_ucast16 [of "v_blksize s"] by (metis less_irrefl unat_0)
  moreover have "vview ct s1 (data_node ct s m i) = file_block ct s (m_addr m) i" by (simp add: v1(1) file_block_def)
  ultimately show ?thesis
    using that l(1) r(1) d(4,6) v by (simp add: load_block_def)
qed

lemma load_block_ok:
  assumes h: "file_handle os ct k s fp m L" and p: "unat (fl_filepos fp) < unat (di_filesize (mi_dinode m))"
  obtains s' where "load_block os s fp (fl_filepos fp + 1) = Some (RcOk,
      fp\<lparr>fl_blkno := data_node ct s m (unat (fl_filepos fp) div unat (v_blksize s)),
         fl_blkbuf := file_block ct s (m_addr m) (unat (fl_filepos fp) div unat (v_blksize s)),
         fl_blkpos := fl_filepos fp mod ucast (v_blksize s)\<rparr>, s')"
    "bgood os ct k s' L" "vsame ct s s'"
proof -
  note d = file_handleD [OF h]
  let ?p = "unat (fl_filepos fp)"
  have le: "?p + 1 \<le> 2 ^ 31" using p file_okD(4) [OF d(2)] by simp
  then have "?p + 1 < 2 ^ 32" by simp
  then have u: "unat (fl_filepos fp + 1) = ?p + 1" by (simp only: unat_word_ariths unat_1) simp
  show ?thesis
    by (rule load_block_at [OF h, of "fl_filepos fp + 1" "?p div unat (v_blksize s)"])
       (use that u le pos_block [OF bgood_bs [OF d(1)] p] in simp_all)
qed

section \<open>Reading\<close>

lemma unat_add32: "unat (a :: u32) + unat b < 2 ^ 32 \<Longrightarrow> unat (a + b) = unat a + unat b"
  by (simp only: unat_word_ariths) simp

lemma unat_sub32: "unat b \<le> unat a \<Longrightarrow> unat (a - b :: u32) = unat a - unat b"
  by (simp add: unat_sub word_le_nat_alt)

lemma slice_0 [simp]: "slice i 0 xs = []"
  by (simp add: slice_def)

definition advance :: "u32 \<Rightarrow> ufile \<Rightarrow> ufile" where
  "advance n fp = fp\<lparr>fl_blkpos := fl_blkpos fp + n, fl_filepos := fl_filepos fp + n\<rparr>"

lemma advance_simps [simp]:
  "fl_minode (advance n fp) = fl_minode fp" "fl_blksize (advance n fp) = fl_blksize fp"
  "fl_blkbuf (advance n fp) = fl_blkbuf fp" "fl_mode (advance n fp) = fl_mode fp"
  "fl_ind (advance n fp) = fl_ind fp" "fl_blkno (advance n fp) = fl_blkno fp"
  "fl_filepos (advance n fp) = fl_filepos fp + n" "fl_blkpos (advance n fp) = fl_blkpos fp + n"
  "fl_name (advance n fp) = fl_name fp" "fl_error (advance n fp) = fl_error fp"
  by (simp_all add: advance_def)

lemma ind_on_simps [simp]:
  "fl_minode (ind_on b fp) = fl_minode fp" "fl_blksize (ind_on b fp) = fl_blksize fp"
  "fl_blkbuf (ind_on b fp) = fl_blkbuf fp" "fl_mode (ind_on b fp) = fl_mode fp"
  "fl_ind (ind_on b fp) = fl_ind fp OR b" "fl_blkno (ind_on b fp) = fl_blkno fp"
  "fl_filepos (ind_on b fp) = fl_filepos fp" "fl_blkpos (ind_on b fp) = fl_blkpos fp"
  "fl_minode (ind_off b fp) = fl_minode fp" "fl_blksize (ind_off b fp) = fl_blksize fp"
  "fl_blkbuf (ind_off b fp) = fl_blkbuf fp" "fl_mode (ind_off b fp) = fl_mode fp"
  "fl_ind (ind_off b fp) = fl_ind fp AND NOT b" "fl_blkno (ind_off b fp) = fl_blkno fp"
  "fl_filepos (ind_off b fp) = fl_filepos fp" "fl_blkpos (ind_off b fp) = fl_blkpos fp"
  by (simp_all add: ind_on_def ind_off_def)

lemma has_or [simp]: "has (a OR b) c \<longleftrightarrow> has a c \<or> has b c"
proof -
  have "(a OR b) AND c = (a AND c) OR (b AND c)" by (simp add: bit.conj_disj_distrib2)
  then show ?thesis unfolding has_def by (metis or_eq_0_iff)
qed

lemma has_andnot: "has (a AND NOT b) c \<longleftrightarrow> has a c" if "b AND c = 0"
proof -
  have "NOT b AND c = c" using that by (auto simp: bit_eq_iff bit_simps)
  then show ?thesis by (simp add: has_def and.assoc)
qed

lemma flag_bits [simp]:
  "has FILE_IND_EOF FILE_IND_DIRTY = False" "has FILE_IND_EOF FILE_IND_ERROR = False" "has FILE_IND_EOF FILE_IND_EOF"
  "has FILE_IND_DIRTY FILE_IND_EOF = False" "has FILE_IND_DIRTY FILE_IND_ERROR = False" "has FILE_IND_DIRTY FILE_IND_DIRTY"
  "has FILE_IND_ERROR FILE_IND_ERROR" "has FILE_IND_ERROR FILE_IND_DIRTY = False" "has FILE_IND_ERROR FILE_IND_EOF = False"
  "\<not> has 0 b"
  by (simp_all add: has_def FILE_IND_EOF_def FILE_IND_DIRTY_def FILE_IND_ERROR_def)

lemma avail_bytes:
  assumes h: "file_handle os ct k s fp m L" and b: "at_block ct s fp m i" and nd: "\<not> has (fl_ind fp) FILE_IND_DIRTY"
    and a: "unat (fl_blkpos fp) + a \<le> unat (v_blksize s)" "unat (fl_filepos fp) + a \<le> unat (di_filesize (mi_dinode m))"
  shows "slice_opt (unat (fl_blkpos fp)) a (fl_blkbuf fp) = Some (slice (unat (fl_filepos fp)) a (file_bytes ct s m))"
proof (cases "a = 0")
  case True
  then show ?thesis using a(1) file_handleD(7) [OF h] by (simp add: slice_opt_def)
next
  case False
  note d = file_handleD [OF h]
  have bs: "0 < unat (v_blksize s)" by (rule bgood_bs [OF d(1)])
  have p: "unat (fl_filepos fp) = i * unat (v_blksize s) + unat (fl_blkpos fp)" using b by (simp add: at_block_def)
  have "unat (fl_blkpos fp) < unat (v_blksize s)" using a(1) False by simp
  then have "unat (fl_filepos fp) div unat (v_blksize s) = i" using p bs by simp
  then have i: "i < nblks s m" using pos_block [OF bs, of "unat (fl_filepos fp)"] a(2) False by fastforce
  then have "fl_blkbuf fp = file_block ct s (m_addr m) i" using b nd by (simp add: at_block_def)
  then show ?thesis
    using bytes_in_block [OF d(1,2) i a(1)] a p d(7) by (simp add: slice_opt_def)
qed

lemma at_block_advance:
  assumes "at_block ct s fp m i" "\<not> has (fl_ind fp) FILE_IND_DIRTY"
    and "unat (fl_blkpos fp) + unat a \<le> unat (v_blksize s)" "unat (fl_filepos fp) + unat a < 2 ^ 32"
  shows "at_block ct s (advance a fp) m i"
proof -
  have "unat (v_blksize s) < 2 ^ 16" using unsigned_less [of "v_blksize s"] by simp
  then have "unat (fl_blkpos fp) + unat a < 2 ^ 32" using assms(3) by simp
  then show ?thesis
    using assms unat_add32 [of "fl_blkpos fp" a] unat_add32 [of "fl_filepos fp" a] by (simp add: at_block_def)
qed

lemma load_next:
  assumes h: "file_handle os ct k s fp m L" and nd: "\<not> has (fl_ind fp) FILE_IND_DIRTY"
    and p: "unat (fl_filepos fp) < unat (di_filesize (mi_dinode m))"
  obtains fp' s' where "load_block os s fp (fl_filepos fp + 1) = Some (RcOk, fp', s')"
    "file_handle os ct k s' fp' m L" "vsame ct s s'"
    "at_block ct s' fp' m (unat (fl_filepos fp) div unat (v_blksize s))"
    "fl_filepos fp' = fl_filepos fp" "fl_ind fp' = fl_ind fp" "fl_mode fp' = fl_mode fp"
    "unat (fl_blkpos fp') = unat (fl_filepos fp) mod unat (v_blksize s)"
proof -
  note d = file_handleD [OF h]
  let ?bs = "unat (v_blksize s)" and ?p = "unat (fl_filepos fp)"
  have bs: "0 < ?bs" by (rule bgood_bs [OF d(1)])
  have i: "?p div ?bs < nblks s m" by (rule pos_block [OF bs p])
  obtain s' where l: "load_block os s fp (fl_filepos fp + 1) = Some (RcOk,
      fp\<lparr>fl_blkno := data_node ct s m (?p div ?bs), fl_blkbuf := file_block ct s (m_addr m) (?p div ?bs),
         fl_blkpos := fl_filepos fp mod ucast (v_blksize s)\<rparr>, s')" (is "_ = Some (_, ?fp, _)")
    "bgood os ct k s' L" "vsame ct s s'" by (rule load_block_ok [OF h p])
  have q: "unat (fl_blkpos ?fp) = ?p mod ?bs" by (simp add: unat_mod)
  have "file_handle os ct k s' ?fp m L"
    by (rule file_handle_vsame [OF h l(2,3)]) (simp_all add: file_block_length [OF d(1,2) i])
  moreover have "at_block ct s' ?fp m (?p div ?bs)"
    unfolding at_block_vsame [OF l(3)] using nd i q bs by (simp add: at_block_def less_imp_le)
  ultimately show ?thesis using that [OF l(1) _ l(3)] q by simp
qed


lemma at_block_eof [simp]: "at_block ct s (ind_on FILE_IND_EOF fp) m i = at_block ct s fp m i"
  by (simp add: at_block_def cong: if_cong)

lemma file_handle_eof [simp]: "file_handle os ct k s (ind_on FILE_IND_EOF fp) m L = file_handle os ct k s fp m L"
  by (simp add: file_handle_def)

lemma past_end: "a < n \<Longrightarrow> p + a < z \<Longrightarrow> z - (p + a) < n - a \<longleftrightarrow> z - p < (n :: nat)"
  by arith

lemma getn_ok:
  assumes "file_handle os ct k s fp m L" "at_block ct s fp m i" "\<not> has (fl_ind fp) FILE_IND_DIRTY"
    and "has (fl_mode fp) FILE_MODE_READ" "\<not> has (fl_ind fp) FILE_IND_EOF" "\<not> has (fl_ind fp) FILE_IND_ERROR"
    and "unat (fl_filepos fp) \<le> unat (di_filesize (mi_dinode m))"
    and "c = min (unat n) (unat (di_filesize (mi_dinode m)) - unat (fl_filepos fp))"
  shows "\<exists>fp' s' i'. ufs_file_getn os s fp n = Some (of_nat c, slice (unat (fl_filepos fp)) c (file_bytes ct s m), fp', s')
    \<and> file_handle os ct k s' fp' m L \<and> at_block ct s' fp' m i' \<and> vsame ct s s'
    \<and> unat (fl_filepos fp') = unat (fl_filepos fp) + c \<and> fl_mode fp' = fl_mode fp
    \<and> fl_ind fp' = (if unat (di_filesize (mi_dinode m)) - unat (fl_filepos fp) < unat n
                    then fl_ind fp OR FILE_IND_EOF else fl_ind fp)"
  using assms
proof (induction "getn_measure fp n" arbitrary: s fp n c i rule: less_induct)
  case less
  note h = less.prems(1) and b = less.prems(2) and nd = less.prems(3) and fl = less.prems(4-6) and le = less.prems(7)
  note d = file_handleD [OF h]
  let ?bs = "unat (v_blksize s)" and ?p = "unat (fl_filepos fp)" and ?q = "unat (fl_blkpos fp)"
    and ?z = "unat (di_filesize (mi_dinode m))"
  have z: "?z \<le> 2 ^ 31" by (rule file_okD(4) [OF d(2)])
  have q: "?q \<le> ?bs" "?p = i * ?bs + ?q" using b by (simp_all add: at_block_def)
  have bs: "0 < ?bs" by (rule bgood_bs [OF d(1)])
  note st = ufs_file_getn.simps [of os s fp n]
  consider (zero) "n = 0" | (eof) "n \<noteq> 0" "?p = ?z" | (more) "n \<noteq> 0" "?p < ?z" using le by linarith
  then show ?case
  proof cases
    case zero
    then have "ufs_file_getn os s fp n = Some (0, [], fp, s)" by (subst st) simp
    moreover have "c = 0" "\<not> ?z - ?p < unat n" using zero less.prems(8) by simp_all
    ultimately show ?thesis using h b by (intro exI [of _ fp] exI [of _ s] exI [of _ i]) simp
  next
    case eof
    have "ufs_file_getn os s fp n = Some (0, [], ind_on FILE_IND_EOF fp, s)"
      using eof fl d(4) by (subst st) (simp add: Let_def word_le_nat_alt)
    moreover have "c = 0" "?z - ?p < unat n" using eof less.prems(8) by (simp_all add: unat_gt_0)
    ultimately show ?thesis using h b
      by (intro exI [of _ "ind_on FILE_IND_EOF fp"] exI [of _ s] exI [of _ i]) simp
  next
    case more
    define favail where "favail = di_filesize (mi_dinode m) - fl_filepos fp"
    define avail where "avail = (if fl_blksize fp - fl_blkpos fp > favail then favail else fl_blksize fp - fl_blkpos fp)"
    have fa: "unat favail = ?z - ?p" using more(2) by (simp add: favail_def unat_sub32)
    have un: "unat (fl_blksize fp - fl_blkpos fp) = ?bs - ?q" using q(1) d(6) by (simp add: unat_sub32)
    have av: "unat avail = min (?bs - ?q) (?z - ?p)" using fa un by (simp add: avail_def word_less_nat_alt min_def)
    have unfold: "ufs_file_getn os s fp n =
       (if avail \<ge> n
        then do { bs \<leftarrow> slice_opt ?q (unat n) (fl_blkbuf fp); Some (n, bs, advance n fp, s) }
        else do { bs \<leftarrow> slice_opt ?q (unat avail) (fl_blkbuf fp);
                  if fl_filepos (advance avail fp) \<ge> di_filesize (mi_dinode m)
                  then Some (avail, bs, ind_on FILE_IND_EOF (advance avail fp), s) else
                  do { (rc, fp, s) \<leftarrow> load_block os s (advance avail fp) (fl_filepos (advance avail fp) + 1);
                       if rc \<noteq> RcOk then Some (avail, bs, fp, s) else
                       do { (count, bs', fp, s) \<leftarrow> ufs_file_getn os s fp (n - avail);
                            Some (avail + count, bs @ bs', fp, s) } } })"
    proof -
      have "\<not> di_filesize (mi_dinode m) \<le> fl_filepos fp" using more(2) by (simp add: word_le_nat_alt)
      moreover have "0 < favail" using more(2) fa by (simp add: word_less_nat_alt)
      ultimately show ?thesis
        using more(1) fl d(4)
        by (subst st) (simp add: Let_def advance_def flip: favail_def avail_def split del: if_split cong: if_cong)
    qed
    have q16: "?bs < 2 ^ 16" using unsigned_less [of "v_blksize s"] by simp
    note hA = file_handle_vsame [OF h d(1) vsame_refl]
    show ?thesis
    proof (cases "avail \<ge> n")
      case True
      then have n: "unat n \<le> ?bs - ?q" "unat n \<le> ?z - ?p" using av by (simp_all add: word_le_nat_alt)
      have c: "c = unat n" using n less.prems(8) by simp
      have a: "?q + unat n \<le> ?bs" "?p + unat n \<le> ?z" "?p + unat n < 2 ^ 32" using n q(1) more(2) z by simp_all
      have "ufs_file_getn os s fp n = Some (n, slice ?p c (file_bytes ct s m), advance n fp, s)"
        using True avail_bytes [OF h b nd a(1,2)] c by (simp add: unfold)
      moreover have "file_handle os ct k s (advance n fp) m L" by (rule hA) (simp_all add: d(7))
      ultimately show ?thesis
        using at_block_advance [OF b nd a(1,3)] n c unat_add32 [OF a(3)]
        by (intro exI [of _ "advance n fp"] exI [of _ s] exI [of _ i]) simp
    next
      case False
      let ?fp = "advance avail fp"
      have a: "?q + unat avail \<le> ?bs" "?p + unat avail \<le> ?z" "?p + unat avail < 2 ^ 32"
        using av q(1) more(2) z by simp_all
      have p': "unat (fl_filepos ?fp) = ?p + unat avail" using unat_add32 [OF a(3)] by simp
      have an: "unat avail < unat n" using False by (simp add: word_le_nat_alt)
      have h': "file_handle os ct k s ?fp m L" by (rule hA) (simp_all add: d(7))
      have b': "at_block ct s ?fp m i" by (rule at_block_advance [OF b nd a(1,3)])
      note so = avail_bytes [OF h b nd a(1,2)]
      show ?thesis
      proof (cases "fl_filepos ?fp \<ge> di_filesize (mi_dinode m)")
        case True
        then have c: "unat avail = ?z - ?p" "c = unat avail" "?z - ?p < unat n"
          using p' a(2) an less.prems(8) by (simp_all add: word_le_nat_alt)
        have "ufs_file_getn os s fp n = Some (of_nat c, slice ?p c (file_bytes ct s m), ind_on FILE_IND_EOF ?fp, s)"
          using True False so by (simp add: unfold c(2))
        then show ?thesis
          using c p' h' b' by (intro exI [of _ "ind_on FILE_IND_EOF ?fp"] exI [of _ s] exI [of _ i]) simp
      next
        case nend: False
        then have lt: "unat (fl_filepos ?fp) < ?z" by (simp add: word_le_nat_alt)
        obtain fp2 s2 where l: "load_block os s ?fp (fl_filepos ?fp + 1) = Some (RcOk, fp2, s2)"
          "file_handle os ct k s2 fp2 m L" "vsame ct s s2"
          "at_block ct s2 fp2 m (unat (fl_filepos ?fp) div ?bs)"
          "fl_filepos fp2 = fl_filepos ?fp" "fl_ind fp2 = fl_ind ?fp" "fl_mode fp2 = fl_mode ?fp"
          by (rule load_next [OF h' _ lt]) (use nd in simp)
        have "avail = 0 \<Longrightarrow> \<not> fl_blkpos fp < fl_blksize fp"
          using av more(2) un d(6) by (simp add: word_less_nat_alt)
        then have dec: "getn_measure fp2 (n - avail) < getn_measure fp n"
          using getn_decreases [OF l(1)] False by simp
        have rem: "unat (n - avail) = unat n - unat avail" using an by (simp add: unat_sub32)
        define c2 where "c2 = min (unat (n - avail)) (?z - unat (fl_filepos fp2))"
        have cc: "c = unat avail + c2" using less.prems(8) l(5) p' rem an lt by (simp add: c2_def)
        have "?z - unat (fl_filepos fp2) < unat (n - avail) \<longleftrightarrow> ?z - ?p < unat n"
          using past_end [of "unat avail" "unat n" ?p ?z] l(5) p' rem an lt by simp
        then obtain fp3 s3 i3 where r: "ufs_file_getn os s2 fp2 (n - avail)
            = Some (of_nat c2, slice (?p + unat avail) c2 (file_bytes ct s2 m), fp3, s3)"
          "file_handle os ct k s3 fp3 m L" "at_block ct s3 fp3 m i3" "vsame ct s2 s3"
          "unat (fl_filepos fp3) = ?p + unat avail + c2" "fl_mode fp3 = fl_mode fp"
          "fl_ind fp3 = (if ?z - ?p < unat n then fl_ind fp OR FILE_IND_EOF else fl_ind fp)"
          using less.hyps [OF dec l(2,4) _ _ _ _ _ c2_def] l(5-7) p' nd fl lt by (auto simp: less_imp_le)
        have "file_bytes ct s2 m = file_bytes ct s m"
          using file_vsame(2) [OF l(3)] by (simp add: file_bytes_def)
        then have "ufs_file_getn os s fp n = Some (of_nat c, slice ?p c (file_bytes ct s m), fp3, s3)"
          using False nend so l(1) r(1) cc by (simp add: unfold slice_add)
        then show ?thesis
          using r(2,3) vsame_trans [OF l(3) r(4)] r(5-7) cc
          by (intro exI [of _ fp3] exI [of _ s3] exI [of _ i3]) simp
      qed
    qed
  qed
qed


section \<open>Writing a block of the file\<close>

lemma data_node_stable:
  assumes f: "file_ok ct s m L" and i: "i < nblks s m" and v: "vview ct s' = (vview ct s)(data_node ct s m i := x)"
    and p: "p \<in> m_pos s m"
  shows "node (vview ct s') (m_addr m) p = node (vview ct s) (m_addr m) p"
proof -
  note t = file_okD(1) [OF f]
  have im: "i < max_blocks (per_block s)" using i file_okD(5) [OF f] by simp
  obtain r ks where p1: "p = (r, ks)" by fastforce
  show ?thesis unfolding p1
  proof (rule node_stable [where S = "m_pos s m"])
    fix r' ks' k' assume q: "(r', ks' @ [k']) \<in> m_pos s m"
    then show up: "(r', ks') \<in> m_pos s m" by (rule tree_okD(2) [OF t])
    have "pwf (per_block s) (r', ks' @ [k'])" using q by (simp add: m_pos_def file_pos_def)
    then have "\<not> leaf (r', ks')" by (auto simp: pwf_def leaf_def)
    then have "(r', ks') \<noteq> fpath (per_block s) i" using leaf_fpath [OF im] by metis
    then have "node (vview ct s) (m_addr m) (r', ks') \<noteq> data_node ct s m i"
      using tree_okD(7) [OF t up data_node_in [OF f i]] by blast
    then show "get32 (vview ct s' (node (vview ct s) (m_addr m) (r', ks'))) (4 * k')
        = get32 (vview ct s (node (vview ct s) (m_addr m) (r', ks'))) (4 * k')" by (simp add: v)
  qed (use p p1 in auto)
qed

lemma tree_rest:
  assumes t: "tree_ok ct s a S L" and r: "vrest s' = vrest s"
    and n: "\<And>p. p \<in> S \<Longrightarrow> node (vview ct s') a p = node (vview ct s) a p"
  shows "tree_ok ct s' a S L"
proof -
  have "inj_on (node (vview ct s') a) S" using t n by (simp add: tree_ok_def inj_on_def)
  then show ?thesis using t n by (simp add: tree_ok_def vrest_frest_geom [OF r])
qed

lemma file_store:
  assumes g: "bgood os ct (Suc k) s L" and f: "file_ok ct s m L" and i: "i < nblks s m"
    and len: "length buf = unat (v_blksize s)"
  obtains s' where "ufs_vdisk_write os s buf (data_node ct s m i) = (RcOk, s')" "bgood os ct k s' L"
    "vrest s' = vrest s" "vview ct s' = (vview ct s)(data_node ct s m i := buf)" "file_ok ct s' m L"
    "file_blocks ct s' m = (file_blocks ct s m)[i := buf]"
    "\<And>p. p \<in> m_pos s m \<Longrightarrow> node (vview ct s') (m_addr m) p = node (vview ct s) (m_addr m) p"
proof -
  let ?b = "data_node ct s m i"
  note sn = data_node_sane [OF f i] and t = file_okD(1) [OF f]
  have vg: "vgood os ct (v_lim s) (Suc k) s" using g by (simp add: bgood_def fgood_def)
  obtain s' where w: "ufs_vdisk_write os s buf ?b = (RcOk, s')" "vgood os ct (v_lim s) k s'"
    "vview ct s' = (vview ct s)(?b := buf)" "vrest s' = vrest s"
    by (rule good_write [OF vg sane_lim [OF sn(1)] len])
  note r = vrest_frest_geom [OF w(4)]
  have n: "node (vview ct s') (m_addr m) p = node (vview ct s) (m_addr m) p" if "p \<in> m_pos s m" for p
    by (rule data_node_stable [OF f i w(3) that])
  have m: "m_pos s' m = m_pos s m" by (simp add: m_pos_def r)
  have "tree_ok ct s' (m_addr m) (m_pos s m) L"
    by (rule tree_rest [OF t w(4) n])
  then have ok: "file_ok ct s' m L" using f by (simp add: file_ok_def m r)
  have "file_blocks ct s' m = (file_blocks ct s m)[i := buf]"
  proof (rule nth_equalityI)
    fix j assume "j < length (file_blocks ct s' m)"
    then have j: "j < nblks s m" by (simp add: r)
    have "data_node ct s' m j = data_node ct s m j" using n [OF data_node_in [OF f j]] by (simp add: r)
    moreover have "data_node ct s m j = ?b \<longleftrightarrow> j = i"
    proof
      assume "data_node ct s m j = ?b"
      then have "fpath (per_block s) j = fpath (per_block s) i"
        by (rule tree_okD(7) [OF t data_node_in [OF f j] data_node_in [OF f i]])
      moreover have "j < max_blocks (per_block s)" "i < max_blocks (per_block s)"
        using i j file_okD(5) [OF f] by simp_all
      ultimately show "j = i" using fpath_pos(2) by metis
    qed simp
    ultimately show "file_blocks ct s' m ! j = (file_blocks ct s m)[i := buf] ! j"
      using j by (simp add: r file_block_def w(3) nth_list_update)
  qed (simp add: r)
  then show ?thesis using that w(1,3,4) bgood_store [OF g w(2,4,3) sn(2)] ok n by blast
qed


text \<open>\<open>wrote\<close>: since \<open>s\<close> nothing changed but the content of data blocks of the file \<open>m\<close>.\<close>

definition wrote :: "('d \<Rightarrow> u32 \<Rightarrow> block) \<Rightarrow> minode \<Rightarrow> 'd vol \<Rightarrow> 'd vol \<Rightarrow> bool" where
  "wrote ct m s s' \<longleftrightarrow> vrest s' = vrest s
     \<and> (\<forall>p \<in> m_pos s m. node (vview ct s') (m_addr m) p = node (vview ct s) (m_addr m) p)
     \<and> (\<forall>x. x \<notin> file_nodes ct s m \<longrightarrow> vview ct s' x = vview ct s x)"

lemma wroteD:
  assumes "wrote ct m s s'"
  shows "vrest s' = vrest s" "p \<in> m_pos s m \<Longrightarrow> node (vview ct s') (m_addr m) p = node (vview ct s) (m_addr m) p"
    "x \<notin> file_nodes ct s m \<Longrightarrow> vview ct s' x = vview ct s x" "file_nodes ct s' m = file_nodes ct s m"
    "m_pos s' m = m_pos s m"
proof -
  show r: "vrest s' = vrest s"
    and n: "p \<in> m_pos s m \<Longrightarrow> node (vview ct s') (m_addr m) p = node (vview ct s) (m_addr m) p" for p
    using assms unfolding wrote_def by blast+
  show "x \<notin> file_nodes ct s m \<Longrightarrow> vview ct s' x = vview ct s x" using assms unfolding wrote_def by blast
  show m: "m_pos s' m = m_pos s m" by (simp add: m_pos_def vrest_frest_geom [OF r])
  show "file_nodes ct s' m = file_nodes ct s m" unfolding file_nodes_def m using n by (rule image_cong [OF refl])
qed

lemma wrote_vsame: "vsame ct s s' \<Longrightarrow> wrote ct m s s'"
  by (simp add: wrote_def vsameD)

lemma wrote_trans: "wrote ct m s t \<Longrightarrow> wrote ct m t u \<Longrightarrow> wrote ct m s u"
proof -
  assume a: "wrote ct m s t" and b: "wrote ct m t u"
  note A = wroteD [OF a] and B = wroteD [OF b]
  show ?thesis unfolding wrote_def
  proof (intro conjI ballI allI impI)
    show "vrest u = vrest s" using A(1) B(1) by simp
    show "node (vview ct u) (m_addr m) p = node (vview ct s) (m_addr m) p" if "p \<in> m_pos s m" for p
      using A(2) [OF that] B(2) [of p] A(5) that by simp
    show "vview ct u x = vview ct s x" if "x \<notin> file_nodes ct s m" for x
      using A(3) [OF that] B(3) [of x] A(4) that by simp
  qed
qed

lemma wrote_store:
  assumes "file_ok ct s m L" "i < nblks s m" "vrest s' = vrest s" "vview ct s' = (vview ct s)(data_node ct s m i := x)"
  shows "wrote ct m s s'"
proof -
  have "data_node ct s m i \<in> file_nodes ct s m"
    unfolding file_nodes_def by (rule imageI [OF data_node_in [OF assms(1,2)]])
  then have "vview ct s' y = vview ct s y" if "y \<notin> file_nodes ct s m" for y
    using assms(4) that by auto
  then show ?thesis
    unfolding wrote_def using assms(3) data_node_stable [OF assms(1,2,4)] by blast
qed

text \<open>The blocks of the file as the handle sees them.\<close>

definition handle_blocks :: "('d \<Rightarrow> u32 \<Rightarrow> block) \<Rightarrow> 'd vol \<Rightarrow> ufile \<Rightarrow> minode \<Rightarrow> nat \<Rightarrow> block list" where
  "handle_blocks ct s fp m i =
     (if has (fl_ind fp) FILE_IND_DIRTY then (file_blocks ct s m)[i := fl_blkbuf fp] else file_blocks ct s m)"

definition handle_bytes :: "('d \<Rightarrow> u32 \<Rightarrow> block) \<Rightarrow> 'd vol \<Rightarrow> ufile \<Rightarrow> minode \<Rightarrow> nat \<Rightarrow> byte list" where
  "handle_bytes ct s fp m i = take (unat (di_filesize (mi_dinode m))) (concat (handle_blocks ct s fp m i))"

lemma handle_bytes_clean: "\<not> has (fl_ind fp) FILE_IND_DIRTY \<Longrightarrow> handle_bytes ct s fp m i = file_bytes ct s m"
  by (simp add: handle_bytes_def handle_blocks_def file_bytes_def)

lemma last_index: "0 < q \<Longrightarrow> q \<le> bs \<Longrightarrow> (i * bs + q - 1) div bs = (i :: nat)"
  by (cases q) simp_all

lemma sync_ok:
  assumes h: "file_handle os ct (Suc k) s fp m L" and b: "at_block ct s fp m i"
  obtains fp' s' where "ufs_file_sync os s fp = Some (fp', s')" "file_handle os ct k s' fp' m L"
    "at_block ct s' fp' m i" "fl_ind fp' = fl_ind fp AND NOT FILE_IND_DIRTY"
    "file_bytes ct s' m = handle_bytes ct s fp m i" "wrote ct m s s'"
    "fl_filepos fp' = fl_filepos fp" "fl_blkpos fp' = fl_blkpos fp" "fl_mode fp' = fl_mode fp"
proof (cases "has (fl_ind fp) FILE_IND_DIRTY")
  case False
  note d = file_handleD [OF h]
  have "fl_ind fp AND FILE_IND_DIRTY = 0" using False by (simp add: has_def)
  then have "fl_ind fp = fl_ind fp AND NOT FILE_IND_DIRTY" by (auto simp: bit_eq_iff bit_simps)
  moreover have "ufs_file_sync os s fp = Some (fp, s)" using False d(4,5) by (simp add: ufs_file_sync_def)
  moreover have "file_handle os ct k s fp m L" using file_handle_mono [OF h] by simp
  ultimately show ?thesis
    using that [of fp s] b handle_bytes_clean [OF False] wrote_vsame [OF vsame_refl] by metis
next
  case True
  note d = file_handleD [OF h]
  let ?bs = "unat (v_blksize s)"
  have bs: "0 < ?bs" by (rule bgood_bs [OF d(1)])
  have at: "i < nblks s m" "0 < unat (fl_blkpos fp)" "unat (fl_blkpos fp) \<le> ?bs"
    "unat (fl_filepos fp) = i * ?bs + unat (fl_blkpos fp)"
    "fl_blkno fp = 0 \<or> fl_blkno fp = data_node ct s m i" using b True by (auto simp: at_block_def)
  have last: "\<exists>s1. (if fl_blkno fp = 0
        then do { m \<leftarrow> v_mstore s (fl_minode fp);
                  (b, s) \<leftarrow> ufs_datablock_last os s m (fl_filepos fp);
                  Some (fp\<lparr>fl_blkno := b\<rparr>, s) }
        else Some (fp, s)) = Some (fp\<lparr>fl_blkno := data_node ct s m i\<rparr>, s1)
      \<and> bgood os ct (Suc k) s1 L \<and> vsame ct s s1"
  proof (cases "fl_blkno fp = 0")
    case no: True
    have ix: "i = (unat (fl_filepos fp) - 1) div ?bs" using last_index [OF at(2,3)] at(4) by simp
    have "unat (fl_filepos fp) \<le> 2 ^ 31"
    proof -
      have "Suc i * ?bs \<le> nblks s m * ?bs" using at(1) by (intro mult_le_mono1) simp
      moreover have "nblks s m * ?bs \<le> 2 ^ 31" using grown_end [of s "unat (di_filesize (mi_dinode m))" 0 "nblks s m"]
          d(1,3) file_okD(4) [OF d(2)] bs by (simp add: bgood_def)
      ultimately show ?thesis using at(3,4) by simp
    qed
    then obtain s1 where "ufs_datablock_last os s m (fl_filepos fp) = Some (data_node ct s m i, s1)"
      "bgood os ct (Suc k) s1 L" "vsame ct s s1"
      using last_ok [OF d(2,1,3) _ _ ix at(1)] at(2,4) by (metis add_gr_0)
    then show ?thesis using no d(4) by auto
  next
    case False
    then have "fp = fp\<lparr>fl_blkno := data_node ct s m i\<rparr>" using at(5) by simp
    then show ?thesis using False d(1) by auto
  qed
  let ?fp = "fp\<lparr>fl_blkno := data_node ct s m i\<rparr>"
  obtain s1 where s1: "(if fl_blkno fp = 0
        then do { m \<leftarrow> v_mstore s (fl_minode fp);
                  (b, s) \<leftarrow> ufs_datablock_last os s m (fl_filepos fp);
                  Some (fp\<lparr>fl_blkno := b\<rparr>, s) }
        else Some (fp, s)) = Some (?fp, s1)"
    "bgood os ct (Suc k) s1 L" "vsame ct s s1" using last by blast
  note v1 = vsameD [OF s1(3)] and f1 = file_vsame [OF s1(3)]
  have eq1: "nblks s1 m = nblks s m" "data_node ct s1 m i = data_node ct s m i"
    using v1 vrest_frest_geom [OF v1(2)] by simp_all
  obtain s2 where w: "ufs_vdisk_write os s1 (fl_blkbuf fp) (data_node ct s1 m i) = (RcOk, s2)" "bgood os ct k s2 L"
    "vrest s2 = vrest s1" "vview ct s2 = (vview ct s1)(data_node ct s1 m i := fl_blkbuf fp)" "file_ok ct s2 m L"
    "file_blocks ct s2 m = (file_blocks ct s1 m)[i := fl_blkbuf fp]"
    "\<And>p. p \<in> m_pos s1 m \<Longrightarrow> node (vview ct s2) (m_addr m) p = node (vview ct s1) (m_addr m) p"
    by (rule file_store [OF s1(2), of m i "fl_blkbuf fp"]) (use f1 d(2,7) at(1) eq1 v1(4) in auto)
  note r2 = vrest_frest_geom [OF w(3)]
  have nz: "data_node ct s m i \<noteq> 0" by (rule bgood_nonzero [OF d(1) data_node_sane(1) [OF d(2) at(1)]])
  have ms: "v_mstore s2 (fl_minode fp) = Some m" using vrestD [OF w(3)] v1(6) d(4) by simp
  have "ufs_file_sync os s fp = Some (ind_off FILE_IND_DIRTY ?fp, s2)"
    unfolding ufs_file_sync_def s1(1) using True w(1) eq1 nz ms d(5) by (simp add: ind_off_def)
  moreover have "file_handle os ct k s2 (ind_off FILE_IND_DIRTY ?fp) m L"
    using w(2,5) ms d f1 r2 v1(4) by (simp add: file_handle_def)
  moreover have "wrote ct m s s2"
    by (rule wrote_trans [OF wrote_vsame [OF s1(3)] wrote_store [OF _ _ w(3,4)]]) (use f1 d(2) at(1) eq1 in auto)
  moreover have "at_block ct s2 (ind_off FILE_IND_DIRTY ?fp) m i"
  proof -
    have "\<not> has (fl_ind fp AND NOT FILE_IND_DIRTY) FILE_IND_DIRTY" by (simp add: has_def and.assoc)
    moreover have "data_node ct s2 m i = data_node ct s m i"
      using w(7) data_node_in [OF d(2) at(1)] f1(5) r2 eq1 v1 vrest_frest_geom [OF v1(2)] by (simp add: fun_eq_iff)
    moreover have "file_block ct s2 (m_addr m) i = fl_blkbuf fp"
      using arg_cong [OF w(6), of "\<lambda>xs. xs ! i"] at(1) eq1 r2 v1(4) by simp
    ultimately show ?thesis using at r2 v1(4) by (simp add: at_block_def)
  qed
  moreover have "file_bytes ct s2 m = handle_bytes ct s fp m i"
    using w(6) True f1(2) by (simp add: file_bytes_def handle_bytes_def handle_blocks_def)
  ultimately show ?thesis using that by simp
qed


lemma sync_buf: "ufs_file_sync os s fp = Some (fp', s') \<Longrightarrow> fl_blkbuf fp' = fl_blkbuf fp"
  unfolding ufs_file_sync_def
  by (auto simp: ind_off_def Let_def bind_eq_Some_conv split: if_splits prod.splits)

section \<open>Writing\<close>

lemma blit_take: "i + length src \<le> z \<Longrightarrow> z \<le> length xs \<Longrightarrow> blit i src (take z xs) = take z (blit i src xs)"
proof -
  assume a: "i + length src \<le> z" "z \<le> length xs"
  then have i: "length (take i xs) = i" "min i z = i" by simp_all
  have "take z (blit i src xs) = take i xs @ take (z - i) (src @ drop (i + length src) xs)"
    unfolding blit_def take_append i(1) using a by simp
  also have "take (z - i) (src @ drop (i + length src) xs) = src @ take (z - (i + length src)) (drop (i + length src) xs)"
    unfolding take_append using a by simp
  finally show ?thesis using a i(2) by (simp add: blit_def drop_take)
qed

lemma blit_Nil [simp]: "blit i [] xs = xs"
  by (simp add: blit_def)

lemma blit_blit:
  "i + length a + length b \<le> length xs \<Longrightarrow> blit (i + length a) b (blit i a xs) = blit i (a @ b) xs"
  by (simp add: blit_def ac_simps)

lemma blit_append_left: "i + length src \<le> length xs \<Longrightarrow> blit i src (xs @ ys) = blit i src xs @ ys"
  by (simp add: blit_def)

lemma blit_append_right: "length xs \<le> i \<Longrightarrow> blit i src (xs @ ys) = xs @ blit (i - length xs) src ys"
  by (simp add: blit_def)

lemma blit_concat:
  assumes "\<forall>x \<in> set xss. length x = b" "i < length xss" "p + length src \<le> b"
  shows "blit (i * b + p) src (concat xss) = concat (xss[i := blit p src (xss ! i)])"
  using assms
proof (induction xss arbitrary: i)
  case (Cons x xss)
  show ?case
  proof (cases i)
    case 0
    then show ?thesis using Cons.prems by (simp add: blit_append_left)
  next
    case (Suc j)
    then show ?thesis using Cons.IH [of j] Cons.prems by (simp add: blit_append_right add.assoc)
  qed
qed simp

lemma length_handle_bytes:
  assumes "file_handle os ct k s fp m L" "at_block ct s fp m i"
  shows "length (handle_bytes ct s fp m i) = unat (di_filesize (mi_dinode m))"
proof -
  note d = file_handleD [OF assms(1)]
  have "\<forall>x \<in> set (handle_blocks ct s fp m i). length x = unat (v_blksize s)"
    using file_blocks_lengths [OF d(1,2)] d(7)
    by (auto simp: handle_blocks_def dest!: set_update_subset_insert [THEN subsetD])
  moreover have "length (handle_blocks ct s fp m i) = nblks s m" by (simp add: handle_blocks_def)
  ultimately show ?thesis
    using length_concat_uniform [of "handle_blocks ct s fp m i" "unat (v_blksize s)"] le_blocks [OF bgood_bs [OF d(1)]]
    by (simp add: handle_bytes_def min_absorb2)
qed

lemma handle_blocks_at:
  assumes "at_block ct s fp m i" "i < nblks s m"
  shows "handle_blocks ct s fp m i = (file_blocks ct s m)[i := fl_blkbuf fp]"
proof (cases "has (fl_ind fp) FILE_IND_DIRTY")
  case False
  then have "fl_blkbuf fp = file_blocks ct s m ! i" using assms by (simp add: at_block_def)
  then show ?thesis using False by (simp add: handle_blocks_def)
qed (simp add: handle_blocks_def)

lemma filled:
  assumes h: "file_handle os ct k s fp m L" and b: "at_block ct s fp m i"
    and n: "bs \<noteq> []" "unat (fl_blkpos fp) + length bs \<le> unat (v_blksize s)"
      "unat (fl_filepos fp) + length bs \<le> unat (di_filesize (mi_dinode m))"
  obtains fp' where "fill_buf bs fp = Some fp'" "file_handle os ct k s fp' m L" "at_block ct s fp' m i"
    "handle_bytes ct s fp' m i = blit (unat (fl_filepos fp)) bs (handle_bytes ct s fp m i)"
    "fl_ind fp' = fl_ind fp OR FILE_IND_DIRTY" "fl_mode fp' = fl_mode fp"
    "unat (fl_filepos fp') = unat (fl_filepos fp) + length bs" "unat (fl_blkpos fp') = unat (fl_blkpos fp) + length bs"
proof -
  note d = file_handleD [OF h]
  let ?bs = "unat (v_blksize s)" and ?p = "unat (fl_filepos fp)" and ?q = "unat (fl_blkpos fp)"
    and ?z = "unat (di_filesize (mi_dinode m))"
  have pos: "?p = i * ?bs + ?q" using b by (simp add: at_block_def)
  have l0: "0 < length bs" using n(1) by simp
  have q: "?q < ?bs" using n(2) l0 by linarith
  have bs0: "0 < ?bs" using q by simp
  have "?p div ?bs = i" using pos q by simp
  then have i: "i < nblks s m" using pos_block [OF bs0, of ?p ?z] n(3) l0 by simp
  have z: "?z \<le> 2 ^ 31" by (rule file_okD(4) [OF d(2)])
  have b16: "?bs < 2 ^ 16" using unsigned_less [of "v_blksize s"] by simp
  have lb: "length bs < 2 ^ 16" "length bs < 2 ^ 32" using n(2) b16 by simp_all
  note un = unat_of_nat32 [OF lb(2)]
  let ?fp = "ind_on FILE_IND_DIRTY (fp\<lparr>fl_blkbuf := blit ?q bs (fl_blkbuf fp),
    fl_filepos := fl_filepos fp + of_nat (length bs), fl_blkpos := fl_blkpos fp + of_nat (length bs)\<rparr>)"
  have fill: "fill_buf bs fp = Some ?fp" using n(2) d(7) by (simp add: fill_buf_def Let_def)
  have "?p + length bs < 2 ^ 32" "?q + length bs < 2 ^ 32" using n z b16 by simp_all
  then have u: "unat (fl_filepos ?fp) = ?p + length bs" "unat (fl_blkpos ?fp) = ?q + length bs"
    using unat_add32 [of "fl_filepos fp" "of_nat (length bs)"] unat_add32 [of "fl_blkpos fp" "of_nat (length bs)"] un
    by simp_all
  have h': "file_handle os ct k s ?fp m L"
    by (rule file_handle_vsame [OF h d(1) vsame_refl]) (use d(7) n(2) in simp_all)
  have b': "at_block ct s ?fp m i"
    using b i l0 n(2) pos unfolding at_block_def u by simp
  have uni: "\<forall>x \<in> set ((file_blocks ct s m)[i := fl_blkbuf fp]). length x = ?bs"
    using file_blocks_lengths [OF d(1,2)] d(7) by (auto dest!: set_update_subset_insert [THEN subsetD])
  have len: "?z \<le> length (concat ((file_blocks ct s m)[i := fl_blkbuf fp]))"
    using length_concat_uniform [OF uni] le_blocks [OF bs0, of ?z] by simp
  have "handle_bytes ct s ?fp m i = take ?z (concat ((file_blocks ct s m)[i := blit ?q bs (fl_blkbuf fp)]))"
    using handle_blocks_at [OF b' i] by (simp add: handle_bytes_def)
  also have "concat ((file_blocks ct s m)[i := blit ?q bs (fl_blkbuf fp)])
      = blit ?p bs (concat ((file_blocks ct s m)[i := fl_blkbuf fp]))"
    using blit_concat [OF uni _ n(2), of i] i pos by simp
  also have "take ?z \<dots> = blit ?p bs (handle_bytes ct s fp m i)"
    using blit_take [OF n(3) len] handle_blocks_at [OF b i] by (simp add: handle_bytes_def)
  finally show ?thesis using that [OF fill h' b'] u by simp
qed


text \<open>\<open>putn_rest\<close> is \<^verbatim>\<open>ufs_file_putn\<close> once the file is long enough.\<close>

definition putn_rest :: "'d os \<Rightarrow> 'd vol \<Rightarrow> ufile \<Rightarrow> byte list \<Rightarrow> u32 \<Rightarrow> (u32 \<times> ufile \<times> 'd vol) option" where
  "putn_rest os s fp buf n =
     (let avail = fl_blksize fp - fl_blkpos fp in
      if avail \<ge> n
      then do { bs \<leftarrow> slice_opt 0 (unat n) buf; fp2 \<leftarrow> fill_buf bs fp; Some (n, fp2, s) }
      else
        do { fp2 \<leftarrow> (if avail > 0 then do { bs \<leftarrow> slice_opt 0 (unat avail) buf; fill_buf bs fp } else Some fp);
             (fp3, s) \<leftarrow> ufs_file_sync os s fp2;
             (rc, fp4, s) \<leftarrow> load_block os s fp3 (fl_filepos fp3 + 1);
             if rc \<noteq> RcOk then Some (avail, fp4, s) else
             do { (count, fp5, s) \<leftarrow> ufs_file_putn os s fp4 (drop (unat avail) buf) (n - avail);
                  Some (avail + count, fp5, s) } })"

lemma putn_unfold:
  assumes "n \<noteq> 0" "\<not> has (fl_ind fp) FILE_IND_ERROR" "has (fl_mode fp) FILE_MODE_WRITE"
    and "putn_extend os s fp (fl_filepos fp + n) = Some (RcOk, fp1, s1)"
  shows "ufs_file_putn os s fp buf n = putn_rest os s1 fp1 buf n"
  using assms by (subst ufs_file_putn.simps) (simp add: putn_rest_def)

lemma putn_inside:
  assumes "v_mstore s (fl_minode fp) = Some m" "unat (fl_filepos fp) + unat n \<le> unat (di_filesize (mi_dinode m))"
    and "unat (di_filesize (mi_dinode m)) \<le> 2 ^ 31"
    and "n \<noteq> 0" "\<not> has (fl_ind fp) FILE_IND_ERROR" "has (fl_mode fp) FILE_MODE_WRITE"
  shows "ufs_file_putn os s fp buf n = putn_rest os s fp buf n"
proof -
  have "unat (fl_filepos fp + n) = unat (fl_filepos fp) + unat n" using assms(2,3) by (intro unat_add32) simp
  then have "\<not> fl_filepos fp + n > di_filesize (mi_dinode m)" using assms(2) by (simp add: word_less_nat_alt)
  then show ?thesis using assms by (intro putn_unfold) (simp_all add: putn_extend_def)
qed

lemma putn_rest_ok:
  assumes "file_handle os ct (k + getn_measure fp n) s fp m L" "at_block ct s fp m i"
    and "has (fl_mode fp) FILE_MODE_WRITE" "\<not> has (fl_ind fp) FILE_IND_ERROR"
    and "unat (fl_filepos fp) + unat n \<le> unat (di_filesize (mi_dinode m))" "n \<noteq> 0" "unat n \<le> length buf"
  shows "\<exists>fp' s' i'. putn_rest os s fp buf n = Some (n, fp', s') \<and> file_handle os ct k s' fp' m L
    \<and> at_block ct s' fp' m i' \<and> wrote ct m s s'
    \<and> handle_bytes ct s' fp' m i' = blit (unat (fl_filepos fp)) (take (unat n) buf) (handle_bytes ct s fp m i)
    \<and> unat (fl_filepos fp') = unat (fl_filepos fp) + unat n \<and> fl_mode fp' = fl_mode fp
    \<and> has (fl_ind fp') FILE_IND_DIRTY
    \<and> (\<forall>b. b AND FILE_IND_DIRTY = 0 \<longrightarrow> has (fl_ind fp') b = has (fl_ind fp) b)"
  using assms
proof (induction "getn_measure fp n" arbitrary: s fp n buf i rule: less_induct)
  case less
  note h = less.prems(1) and b = less.prems(2) and wr = less.prems(3) and er = less.prems(4)
    and sz = less.prems(5) and n0 = less.prems(6) and len = less.prems(7)
  note d = file_handleD [OF h]
  let ?bs = "unat (v_blksize s)" and ?p = "unat (fl_filepos fp)" and ?q = "unat (fl_blkpos fp)"
    and ?z = "unat (di_filesize (mi_dinode m))"
  define avail where "avail = fl_blksize fp - fl_blkpos fp"
  have n1: "0 < unat n" using n0 by (simp add: unat_gt_0)
  have q: "?q \<le> ?bs" using b by (simp add: at_block_def)
  have av: "unat avail = ?bs - ?q" unfolding avail_def using q d(6) by (simp add: unat_sub32)
  show ?case
  proof (cases "avail \<ge> n")
    case True
    then have le: "unat n \<le> ?bs - ?q" using av by (simp add: word_le_nat_alt)
    have pre: "take (unat n) buf \<noteq> []" "length (take (unat n) buf) = unat n" using n1 len by auto
    obtain fp' where f: "fill_buf (take (unat n) buf) fp = Some fp'" "file_handle os ct (k + getn_measure fp n) s fp' m L"
      "at_block ct s fp' m i"
      "handle_bytes ct s fp' m i = blit ?p (take (unat n) buf) (handle_bytes ct s fp m i)"
      "fl_ind fp' = fl_ind fp OR FILE_IND_DIRTY" "fl_mode fp' = fl_mode fp" "unat (fl_filepos fp') = ?p + unat n"
      by (rule filled [OF h b pre(1)]) (use pre(2) le q sz in auto)
    have "putn_rest os s fp buf n = Some (n, fp', s)"
      using True len f(1) by (simp add: putn_rest_def slice_opt_def slice_def flip: avail_def)
    moreover have "file_handle os ct k s fp' m L" using file_handle_mono [OF f(2)] by simp
    moreover have "has (fl_ind fp') b = has (fl_ind fp) b" if "b AND FILE_IND_DIRTY = 0" for b
      unfolding f(5) has_or using that by (simp add: has_def and.commute)
    ultimately show ?thesis using f(3-7) wrote_vsame [OF vsame_refl] by (intro exI [of _ fp'] exI [of _ s] exI [of _ i]) auto
  next
    case False
    let ?a = "unat avail"
    have an: "?a < unat n" using False by (simp add: word_le_nat_alt)
    have bn: "has ind b = has (fl_ind fp) b" if "ind = fl_ind fp \<or> ind = fl_ind fp OR FILE_IND_DIRTY" "b AND FILE_IND_DIRTY = 0" for ind b
    proof -
      have "\<not> has FILE_IND_DIRTY b" using that(2) by (simp add: has_def and.commute)
      then show ?thesis using that(1) by auto
    qed
    have "\<exists>fp2. (if avail > 0 then do { bs \<leftarrow> slice_opt 0 ?a buf; fill_buf bs fp } else Some fp) = Some fp2
      \<and> file_handle os ct (k + getn_measure fp n) s fp2 m L \<and> at_block ct s fp2 m i
      \<and> handle_bytes ct s fp2 m i = blit ?p (take ?a buf) (handle_bytes ct s fp m i)
      \<and> (fl_ind fp2 = fl_ind fp \<or> fl_ind fp2 = fl_ind fp OR FILE_IND_DIRTY) \<and> fl_mode fp2 = fl_mode fp
      \<and> unat (fl_filepos fp2) = ?p + ?a \<and> fl_blksize fp2 = fl_blksize fp"
    proof (cases "avail = 0")
      case True
      then show ?thesis using h b by auto
    next
      case pos: False
      have pre: "take ?a buf \<noteq> []" "length (take ?a buf) = ?a" using pos an len by (auto simp: unat_eq_zero)
      obtain fp2 where f: "fill_buf (take ?a buf) fp = Some fp2" "file_handle os ct (k + getn_measure fp n) s fp2 m L"
        "at_block ct s fp2 m i" "handle_bytes ct s fp2 m i = blit ?p (take ?a buf) (handle_bytes ct s fp m i)"
        "fl_ind fp2 = fl_ind fp OR FILE_IND_DIRTY" "fl_mode fp2 = fl_mode fp" "unat (fl_filepos fp2) = ?p + ?a"
        by (rule filled [OF h b pre(1)]) (use pre(2) av q sz an in auto)
      have "0 < avail" using pos by (simp add: word_neq_0_conv)
      moreover have "slice_opt 0 ?a buf = Some (take ?a buf)" using an len by (simp add: slice_opt_def slice_def)
      ultimately show ?thesis using f fill_buf_blksize [OF f(1)] by auto
    qed
    then obtain fp2 where f2: "(if avail > 0 then do { bs \<leftarrow> slice_opt 0 ?a buf; fill_buf bs fp } else Some fp) = Some fp2"
      "file_handle os ct (k + getn_measure fp n) s fp2 m L" "at_block ct s fp2 m i"
      "handle_bytes ct s fp2 m i = blit ?p (take ?a buf) (handle_bytes ct s fp m i)"
      "fl_ind fp2 = fl_ind fp \<or> fl_ind fp2 = fl_ind fp OR FILE_IND_DIRTY" "fl_mode fp2 = fl_mode fp"
      "unat (fl_filepos fp2) = ?p + ?a" "fl_blksize fp2 = fl_blksize fp" by blast
    obtain j where j: "getn_measure fp n = Suc j" using n1 by (cases "getn_measure fp n") (auto simp: getn_measure_def split: if_splits)
    have f2h: "file_handle os ct (Suc (k + j)) s fp2 m L" using f2(2) j by simp
    obtain fp3 s3 where sy: "ufs_file_sync os s fp2 = Some (fp3, s3)" "file_handle os ct (k + j) s3 fp3 m L"
      "at_block ct s3 fp3 m i" "fl_ind fp3 = fl_ind fp2 AND NOT FILE_IND_DIRTY"
      "file_bytes ct s3 m = handle_bytes ct s fp2 m i" "wrote ct m s s3"
      "fl_filepos fp3 = fl_filepos fp2" "fl_blkpos fp3 = fl_blkpos fp2" "fl_mode fp3 = fl_mode fp2"
      by (rule sync_ok [OF f2h f2(3)])
    have nd: "\<not> has (fl_ind fp3) FILE_IND_DIRTY" by (simp add: sy(4) has_def and.assoc)
    have lt: "unat (fl_filepos fp3) < ?z" using sy(7) f2(7) sz an by simp
    obtain fp4 s4 where ld: "load_block os s3 fp3 (fl_filepos fp3 + 1) = Some (RcOk, fp4, s4)"
      "file_handle os ct (k + j) s4 fp4 m L" "vsame ct s3 s4"
      "at_block ct s4 fp4 m (unat (fl_filepos fp3) div unat (v_blksize s3))"
      "fl_filepos fp4 = fl_filepos fp3" "fl_ind fp4 = fl_ind fp3" "fl_mode fp4 = fl_mode fp3"
      by (rule load_next [OF sy(2) nd lt])
    let ?i4 = "unat (fl_filepos fp3) div unat (v_blksize s3)"
    have b3: "fl_blksize fp3 = fl_blksize fp" using file_sync_blksize [OF sy(1)] f2(8) by simp
    have "avail = 0 \<Longrightarrow> \<not> fl_blkpos fp < fl_blksize fp" using av q d(6) by (simp add: word_less_nat_alt)
    then have dec: "getn_measure fp4 (n - avail) < getn_measure fp n"
      using getn_decreases [OF ld(1) b3] False by blast
    then have "k + getn_measure fp4 (n - avail) \<le> k + j" using j by simp
    then have h4: "file_handle os ct (k + getn_measure fp4 (n - avail)) s4 fp4 m L"
      by (rule file_handle_mono [OF ld(2)])
    have rem: "unat (n - avail) = unat n - ?a" using an by (simp add: unat_sub32)
    have ind4: "has (fl_ind fp4) b = has (fl_ind fp) b" if "b AND FILE_IND_DIRTY = 0" for b
    proof -
      have nb: "FILE_IND_DIRTY AND b = 0" using that by (simp add: and.commute)
      show ?thesis using bn [OF f2(5) that] by (simp add: ld(6) sy(4) has_andnot [OF nb])
    qed
    have er4: "\<not> has (fl_ind fp4) FILE_IND_ERROR"
      using ind4 [of FILE_IND_ERROR] er by (simp add: FILE_IND_ERROR_def FILE_IND_DIRTY_def)
    have wr4: "has (fl_mode fp4) FILE_MODE_WRITE" using wr ld(7) sy(9) f2(6) by simp
    have p4: "unat (fl_filepos fp4) = ?p + ?a" using ld(5) sy(7) f2(7) by simp
    have sz4: "unat (fl_filepos fp4) + unat (n - avail) \<le> ?z" using p4 rem an sz by simp
    have n4: "n - avail \<noteq> 0" using an rem by (metis unat_0 zero_less_diff less_irrefl)
    have len4: "unat (n - avail) \<le> length (drop ?a buf)" using rem len by simp
    have z31: "?z \<le> 2 ^ 31" by (rule file_okD(4) [OF d(2)])
    obtain fp5 s5 i5 where r: "putn_rest os s4 fp4 (drop ?a buf) (n - avail) = Some (n - avail, fp5, s5)"
      "file_handle os ct k s5 fp5 m L" "at_block ct s5 fp5 m i5" "wrote ct m s4 s5"
      "handle_bytes ct s5 fp5 m i5 = blit (unat (fl_filepos fp4)) (take (unat (n - avail)) (drop ?a buf))
         (handle_bytes ct s4 fp4 m ?i4)"
      "unat (fl_filepos fp5) = unat (fl_filepos fp4) + unat (n - avail)" "fl_mode fp5 = fl_mode fp4"
      "has (fl_ind fp5) FILE_IND_DIRTY" "\<And>b. b AND FILE_IND_DIRTY = 0 \<Longrightarrow> has (fl_ind fp5) b = has (fl_ind fp4) b"
      using less.hyps [OF dec h4 ld(4) wr4 er4 sz4 n4 len4] by blast
    have "ufs_file_putn os s4 fp4 (drop ?a buf) (n - avail) = Some (n - avail, fp5, s5)"
      using putn_inside [OF file_handleD(4) [OF ld(2)] sz4 z31 n4 er4 wr4] r(1) by simp
    then have "putn_rest os s fp buf n = Some (n, fp5, s5)"
      using False f2(1) sy(1) ld(1) by (simp add: putn_rest_def flip: avail_def)
    moreover have "handle_bytes ct s5 fp5 m i5 = blit ?p (take (unat n) buf) (handle_bytes ct s fp m i)"
    proof -
      have "handle_bytes ct s4 fp4 m ?i4 = file_bytes ct s3 m"
        using handle_bytes_clean [of fp4 ct s4 m] nd ld(6) file_vsame(2) [OF ld(3)] by (simp add: file_bytes_def)
      then have e: "handle_bytes ct s4 fp4 m ?i4 = blit ?p (take ?a buf) (handle_bytes ct s fp m i)"
        using sy(5) f2(4) by simp
      have "take (unat n) buf = take ?a buf @ take (unat (n - avail)) (drop ?a buf)"
        using take_add [of ?a "unat n - ?a" buf] an rem by simp
      moreover have "?p + ?a + (unat n - ?a) \<le> length (handle_bytes ct s fp m i)"
        using sz an length_handle_bytes [OF h b] by simp
      ultimately show ?thesis
        using r(5) blit_blit [of ?p "take ?a buf" "take (unat (n - avail)) (drop ?a buf)" "handle_bytes ct s fp m i"]
          p4 e an len rem by simp
    qed
    moreover have "wrote ct m s s5" by (rule wrote_trans [OF wrote_trans [OF sy(6) wrote_vsame [OF ld(3)]] r(4)])
    ultimately show ?thesis using r(2,3,6-9) ind4 p4 rem an wr4 ld(7) sy(9) f2(6)
      by (intro exI [of _ fp5] exI [of _ s5] exI [of _ i5]) auto
  qed
qed


section \<open>Extending the file for a write\<close>

text \<open>\<open>rewrote\<close>: what a write leaves alone, on a file that may have grown.\<close>

definition rewrote :: "('d \<Rightarrow> u32 \<Rightarrow> block) \<Rightarrow> minode \<Rightarrow> u32 list \<Rightarrow> nat \<Rightarrow> 'd vol \<Rightarrow> 'd vol \<Rightarrow> minode \<Rightarrow> u32 list \<Rightarrow> bool" where
  "rewrote ct m L p s s' m' L' \<longleftrightarrow> v_mstore s' = (v_mstore s)(p := Some m') \<and> v_minodes s' = v_minodes s
     \<and> v_blksize s' = v_blksize s \<and> mi_inode_number m' = mi_inode_number m
     \<and> inode_num s' = inode_num s \<and> inode_block s' = inode_block s
     \<and> file_nodes ct s m \<subseteq> file_nodes ct s' m' \<and> set L = set L' \<union> (file_nodes ct s' m' - file_nodes ct s m)
     \<and> (\<forall>x. x \<notin> set L \<longrightarrow> x \<notin> file_nodes ct s m \<longrightarrow> x \<noteq> inode_block s (mi_inode_number m) \<longrightarrow> vview ct s' x = vview ct s x)
     \<and> (\<forall>x. inode_num s x \<longrightarrow> x \<noteq> mi_inode_number m \<longrightarrow> inode_at ct s' x = inode_at ct s x)"

lemma rewroteD:
  assumes "rewrote ct m L p s s' m' L'"
  shows "v_mstore s' = (v_mstore s)(p := Some m')" "v_minodes s' = v_minodes s" "v_blksize s' = v_blksize s"
    "mi_inode_number m' = mi_inode_number m" "inode_num s' = inode_num s" "inode_block s' = inode_block s"
    "file_nodes ct s m \<subseteq> file_nodes ct s' m'" "set L = set L' \<union> (file_nodes ct s' m' - file_nodes ct s m)"
    "x \<notin> set L \<Longrightarrow> x \<notin> file_nodes ct s m \<Longrightarrow> x \<noteq> inode_block s (mi_inode_number m) \<Longrightarrow> vview ct s' x = vview ct s x"
    "inode_num s x \<Longrightarrow> x \<noteq> mi_inode_number m \<Longrightarrow> inode_at ct s' x = inode_at ct s x"
  using assms unfolding rewrote_def by simp_all

lemma sint_small: "unat (w :: u32) < 2 ^ 31 \<Longrightarrow> sint w = int (unat w)"
proof -
  assume "unat w < 2 ^ 31"
  then have u: "uint w < 2 ^ 31" by (metis of_nat_less_iff of_nat_numeral of_nat_power uint_nat)
  moreover have "- (2 ^ 31) \<le> uint w" by (rule order_trans [OF _ uint_ge_0]) simp
  ultimately have "sint w = uint w" unfolding sint_uint by (intro signed_take_bit_int_eq_self) simp_all
  then show ?thesis by simp
qed

lemma size_change_grow:
  "di_filesize (mi_dinode m) < new \<Longrightarrow> unat new < 2 ^ 31 \<Longrightarrow>
     ufs_datablock_size_change os s new m = ufs_datablock_expand os s m (new - di_filesize (mi_dinode m))"
proof -
  let ?old = "di_filesize (mi_dinode m)"
  assume lt: "?old < new" and le: "unat new < 2 ^ 31"
  have u: "unat (new - ?old) = unat new - unat ?old" using lt by (simp add: unat_sub32 word_less_nat_alt)
  have p: "0 < unat (new - ?old)" "unat (new - ?old) < 2 ^ 31" using u lt le by (simp_all add: word_less_nat_alt)
  have "sint (new - ?old) = int (unat (new - ?old))" by (rule sint_small [OF p(2)])
  then have "0 < sint (new - ?old)" using p(1) by linarith
  then show ?thesis by (simp add: ufs_datablock_size_change_def Let_def)
qed


lemma take_concat_append: "z \<le> length (concat xs) \<Longrightarrow> take z (concat (xs @ ys)) = take z (concat xs)"
  by simp

lemma grown_rewrote:
  assumes "grown_file ct s m L s1 m1 L1 c" "frest s1 = frest s" "mi_inode_number m1 = mi_inode_number m"
  shows "rewrote ct m L p s (set_minode p (Some m1) s1) m1 L1"
  unfolding rewrote_def
proof (intro conjI allI impI)
  note gf = grown_fileD [OF assms(1)] and fr = frestD [OF assms(2)]
  let ?s = "set_minode p (Some m1) s1"
  show "vview ct ?s x = vview ct s x"
    if "x \<notin> set L" "x \<notin> file_nodes ct s m" "x \<noteq> inode_block s (mi_inode_number m)" for x
    using gf(7) [OF that] by simp
  show "inode_at ct ?s x = inode_at ct s x" if "inode_num s x" "x \<noteq> mi_inode_number m" for x
    using gf(6) [OF that(1)] that(2) by simp
  show "set L = set L1 \<union> (file_nodes ct ?s m1 - file_nodes ct s m)" using gf(3) by simp
  show "file_nodes ct s m \<subseteq> file_nodes ct ?s m1" using gf(4) by simp
qed (use frestD [OF assms(2)] assms(3) frest_inodes [OF assms(2)] frest_geom(2) [OF assms(2)] in simp_all)

lemma extend_ok:
  assumes h: "file_handle os ct (k + 7 * c + 1) s fp m L" and b: "at_block ct s fp m i"
    and new: "unat new < 2 ^ 31"
    and c: "blocks (unat (v_blksize s)) (max (unat new) (unat (di_filesize (mi_dinode m)))) = nblks s m + c"
    and lim: "nblks s m + c \<le> max_blocks (per_block s)" and L: "4 * c \<le> length L"
  obtains fp1 m1 s1 L1 where "putn_extend os s fp new = Some (RcOk, fp1, s1)" "file_handle os ct k s1 fp1 m1 L1"
    "at_block ct s1 fp1 m1 i"
    "unat (di_filesize (mi_dinode m1)) = max (unat new) (unat (di_filesize (mi_dinode m)))"
    "take (unat (di_filesize (mi_dinode m))) (handle_bytes ct s1 fp1 m1 i) = handle_bytes ct s fp m i"
    "fl_filepos fp1 = fl_filepos fp" "fl_blkpos fp1 = fl_blkpos fp" "fl_mode fp1 = fl_mode fp"
    "fl_minode fp1 = fl_minode fp"
    "\<And>b. b AND FILE_IND_EOF = 0 \<Longrightarrow> has (fl_ind fp1) b = has (fl_ind fp) b"
    "rewrote ct m L (fl_minode fp) s s1 m1 L1"
proof (cases "di_filesize (mi_dinode m) < new")
  case False
  note d = file_handleD [OF h]
  have "max (unat new) (unat (di_filesize (mi_dinode m))) = unat (di_filesize (mi_dinode m))"
    using False by (simp add: word_less_nat_alt)
  moreover have "putn_extend os s fp new = Some (RcOk, fp, s)" using False d(4) by (simp add: putn_extend_def)
  moreover have "rewrote ct m L (fl_minode fp) s s m L" using d(4) by (auto simp: rewrote_def)
  moreover have "file_handle os ct k s fp m L" by (rule file_handle_mono [OF h]) simp
  moreover have "take (unat (di_filesize (mi_dinode m))) (handle_bytes ct s fp m i) = handle_bytes ct s fp m i"
    by (simp add: handle_bytes_def)
  ultimately show ?thesis using that b by metis
next
  case True
  note d = file_handleD [OF h]
  let ?old = "di_filesize (mi_dinode m)" and ?bs = "unat (v_blksize s)"
  have bs: "0 < ?bs" by (rule bgood_bs [OF d(1)])
  have lt: "unat ?old < unat new" using True by (simp add: word_less_nat_alt)
  have df: "unat (new - ?old) = unat new - unat ?old" using lt by (simp add: unat_sub32)
  have mx: "max (unat new) (unat ?old) = unat new" using lt by simp
  have c': "blocks ?bs (unat ?old + unat (new - ?old)) = nblks s m + c" using c df lt by (simp add: max_def)
  obtain m1 s1 L1 where e: "ufs_datablock_expand os s m (new - ?old) = Some (RcOk, m1, s1)" "bgood os ct k s1 L1"
    "frest s1 = frest s" "grown_file ct s m L s1 m1 L1 c" "m1 = finished m (m_addr m1) (?old + (new - ?old))"
    by (rule expand_ok [OF d(2,1,3) _ c']) (use new df lim c' L lt in simp_all)
  note gf = grown_fileD [OF e(4)] and fr = frestD [OF e(3)]
  have m1: "mi_inode_number m1 = mi_inode_number m" "di_filesize (mi_dinode m1) = new"
    using arg_cong [OF e(5), of mi_inode_number] arg_cong [OF e(5), of "\<lambda>m. di_filesize (mi_dinode m)"] by simp_all
  have fl: "\<not> has (mi_flags m1) MINODE_FLAG_DIRTY"
    using arg_cong [OF e(5), of mi_flags] by (simp add: finished_def has_def and.assoc)
  let ?fp = "ind_off FILE_IND_EOF fp" and ?s = "set_minode (fl_minode fp) (Some m1) s1"
  have x: "putn_extend os s fp new = Some (RcOk, ?fp, ?s)"
    using True d(4) e(1) size_change_grow [OF True new, of os s] by (simp add: putn_extend_def at_minode_def)
  have geo: "per_block s1 = per_block s" "v_blksize s1 = v_blksize s" "good_blksize s1 = good_blksize s"
    using frest_geom(2) [OF e(3)] fr(1) by (simp_all add: good_blksize_def)
  have nb: "nblks ?s m1 = nblks s m + c" using c mx geo m1 by simp
  have h': "file_handle os ct k ?s ?fp m1 L1"
    using e(2) gf(2) d geo fl by (simp add: file_handle_def)
  have node: "data_node ct s1 m1 j = data_node ct s m j" if "j < nblks s m" for j
    using gf(5) [OF data_node_in [OF d(2) that]] by (simp add: geo)
  have blk: "file_block ct s1 (m_addr m1) j = (if j < nblks s m then file_block ct s (m_addr m) j else replicate ?bs 0)"
    if "j < nblks s m + c" for j
    using arg_cong [OF gf(1), of "\<lambda>xs. xs ! j"] that nb geo by (simp add: nth_append)
  have ind: "has (fl_ind ?fp) b = has (fl_ind fp) b" if "b AND FILE_IND_EOF = 0" for b
  proof -
    have eb: "FILE_IND_EOF AND b = 0" using that by (simp add: and.commute)
    show ?thesis by (simp add: has_andnot [OF eb])
  qed
  have dirty: "has (fl_ind ?fp) FILE_IND_DIRTY = has (fl_ind fp) FILE_IND_DIRTY"
    by (rule ind) (simp add: FILE_IND_EOF_def FILE_IND_DIRTY_def)
  have b': "at_block ct ?s ?fp m1 i"
    using b node blk unfolding at_block_def dirty nb by (auto simp: geo)
  have hb: "take (unat ?old) (handle_bytes ct ?s ?fp m1 i) = handle_bytes ct s fp m i"
  proof -
    have "handle_blocks ct ?s ?fp m1 i = handle_blocks ct s fp m i @ replicate c (replicate ?bs 0)"
      using gf(1) b dirty by (auto simp: handle_blocks_def at_block_def list_update_append1)
    moreover have "unat ?old \<le> length (concat (handle_blocks ct s fp m i))"
      using length_handle_bytes [OF h b] by (simp add: handle_bytes_def)
    ultimately show ?thesis using lt m1 by (simp add: handle_bytes_def min_absorb1 min_absorb2)
  qed
  have rw: "rewrote ct m L (fl_minode fp) s ?s m1 L1" by (rule grown_rewrote [OF e(4,3) m1(1)])
  show ?thesis by (rule that [OF x h' b' _ hb _ _ _ _ ind rw]) (use mx m1 in simp_all)
qed


lemma rewrote_wrote:
  assumes r: "rewrote ct m L p s s1 m1 L1" and w: "wrote ct m1 s1 s2" and g: "geom s1" and f: "file_ok ct s1 m1 L1"
  shows "rewrote ct m L p s s2 m1 L1"
proof -
  note W = wroteD [OF w]
  note R = rewroteD [OF r]
  note n = R(5,6) and L = R(8)
  have out: "inode_block s x \<notin> file_nodes ct s1 m1" if "inode_num s x" for x
  proof
    assume "inode_block s x \<in> file_nodes ct s1 m1"
    then obtain p where q: "p \<in> m_pos s1 m1" "inode_block s1 x = node (vview ct s1) (m_addr m1) p"
      unfolding n(2) file_nodes_def by (rule imageE)
    have "inode_num s1 x" using that n(1) by simp
    from inode_block_low [OF g this tree_okD(5) [OF file_okD(1) [OF f] q(1)]] q(2) show False by simp
  qed
  show ?thesis unfolding rewrote_def W(4)
  proof (intro conjI allI impI)
    show "vview ct s2 x = vview ct s x"
      if "x \<notin> set L" "x \<notin> file_nodes ct s m" "x \<noteq> inode_block s (mi_inode_number m)" for x
    proof -
      have "x \<notin> file_nodes ct s1 m1" using that(1,2) L by blast
      then show ?thesis using W(3) [of x] R(9) [OF that] by simp
    qed
    show "inode_at ct s2 x = inode_at ct s x" if x: "inode_num s x" "x \<noteq> mi_inode_number m" for x
    proof -
      have "vview ct s2 (inode_block s x) = vview ct s1 (inode_block s x)" using W(3) out [OF x(1)] by blast
      moreover have "inode_block s2 = inode_block s" "inode_slot s2 = inode_slot s1"
        using vrestD [OF W(1)] n(2) by (auto simp: inode_block_def inode_slot_def ipb_def fun_eq_iff)
      ultimately have "inode_at ct s2 x = inode_at ct s1 x" using n(2) by (simp add: inode_at_def)
      then show ?thesis using R(10) [OF x] by simp
    qed
    show "inode_num s2 = inode_num s" "inode_block s2 = inode_block s"
      using vrestD [OF W(1)] n
      by (auto simp: fun_eq_iff inode_num_def inode_block_def max_inode_def ipb_def)
    show "set L = set L1 \<union> (file_nodes ct s1 m1 - file_nodes ct s m)" by (rule R(8))
  qed (use R(1-4,7) vrestD [OF W(1)] in simp_all)
qed

text \<open>Writing through a handle: the bytes are overwritten, and beyond their end extended.\<close>

lemma putn_ok:
  assumes h: "file_handle os ct (k + 7 * c + 1 + getn_measure fp n) s fp m L" and b: "at_block ct s fp m i"
    and wr: "has (fl_mode fp) FILE_MODE_WRITE" "\<not> has (fl_ind fp) FILE_IND_ERROR"
    and n: "n \<noteq> 0" "unat n \<le> length buf"
    and pos: "unat (fl_filepos fp) \<le> unat (di_filesize (mi_dinode m))" "unat (fl_filepos fp) + unat n < 2 ^ 31"
    and c: "blocks (unat (v_blksize s)) (max (unat (fl_filepos fp) + unat n) (unat (di_filesize (mi_dinode m)))) = nblks s m + c"
    and lim: "nblks s m + c \<le> max_blocks (per_block s)" and L: "4 * c \<le> length L"
  obtains fp' s' m' L' i' where "ufs_file_putn os s fp buf n = Some (n, fp', s')"
    "file_handle os ct k s' fp' m' L'" "at_block ct s' fp' m' i'"
    "handle_bytes ct s' fp' m' i' = blit (unat (fl_filepos fp)) (take (unat n) buf) (handle_bytes ct s fp m i)"
    "unat (fl_filepos fp') = unat (fl_filepos fp) + unat n" "fl_mode fp' = fl_mode fp"
    "has (fl_ind fp') FILE_IND_DIRTY" "\<not> has (fl_ind fp') FILE_IND_ERROR"
    "rewrote ct m L (fl_minode fp) s s' m' L'"
proof -
  let ?p = "unat (fl_filepos fp)" and ?z = "unat (di_filesize (mi_dinode m))" and ?bs = "unat (v_blksize s)"
  have u: "unat (fl_filepos fp + n) = ?p + unat n" using pos(2) by (intro unat_add32) simp
  have h0: "file_handle os ct (k + getn_measure fp n + 7 * c + 1) s fp m L" using h by (simp add: ac_simps)
  obtain fp1 m1 s1 L1 where x: "putn_extend os s fp (fl_filepos fp + n) = Some (RcOk, fp1, s1)"
    "file_handle os ct (k + getn_measure fp n) s1 fp1 m1 L1" "at_block ct s1 fp1 m1 i"
    "unat (di_filesize (mi_dinode m1)) = max (?p + unat n) ?z"
    "take ?z (handle_bytes ct s1 fp1 m1 i) = handle_bytes ct s fp m i"
    "fl_filepos fp1 = fl_filepos fp" "fl_blkpos fp1 = fl_blkpos fp" "fl_mode fp1 = fl_mode fp" "fl_minode fp1 = fl_minode fp"
    "\<And>b. b AND FILE_IND_EOF = 0 \<Longrightarrow> has (fl_ind fp1) b = has (fl_ind fp) b"
    "rewrote ct m L (fl_minode fp) s s1 m1 L1"
    using extend_ok [OF h0 b, of "fl_filepos fp + n"] c lim L pos(2) u by metis
  have "fl_blksize fp1 = fl_blksize fp"
    using file_handleD(6) [OF h] file_handleD(6) [OF x(2)] x(11) by (simp add: rewrote_def)
  then have "getn_measure fp1 n = getn_measure fp n" using x(7) by (simp add: getn_measure_def)
  then have h1: "file_handle os ct (k + getn_measure fp1 n) s1 fp1 m1 L1" using x(2) by simp
  have er: "\<not> has (fl_ind fp1) FILE_IND_ERROR"
    using x(10) [of FILE_IND_ERROR] wr(2) by (simp add: FILE_IND_ERROR_def FILE_IND_EOF_def)
  have sz1: "unat (fl_filepos fp1) + unat n \<le> unat (di_filesize (mi_dinode m1))" using x(4,6) by simp
  have wr1: "has (fl_mode fp1) FILE_MODE_WRITE" using wr(1) x(8) by simp
  obtain fp' s' i' where r: "putn_rest os s1 fp1 buf n = Some (n, fp', s')" "file_handle os ct k s' fp' m1 L1"
    "at_block ct s' fp' m1 i'" "wrote ct m1 s1 s'"
    "handle_bytes ct s' fp' m1 i' = blit (unat (fl_filepos fp1)) (take (unat n) buf) (handle_bytes ct s1 fp1 m1 i)"
    "unat (fl_filepos fp') = unat (fl_filepos fp1) + unat n" "fl_mode fp' = fl_mode fp1"
    "has (fl_ind fp') FILE_IND_DIRTY" "\<And>b. b AND FILE_IND_DIRTY = 0 \<Longrightarrow> has (fl_ind fp') b = has (fl_ind fp1) b"
    using putn_rest_ok [OF h1 x(3) wr1 er sz1 n] by blast
  have put: "ufs_file_putn os s fp buf n = Some (n, fp', s')" using putn_unfold [OF n(1) wr(2,1) x(1)] r(1) by simp
  have er': "\<not> has (fl_ind fp') FILE_IND_ERROR"
    using r(9) [of FILE_IND_ERROR] er by (simp add: FILE_IND_ERROR_def FILE_IND_DIRTY_def)
  let ?H = "handle_bytes ct s fp m i" and ?H1 = "handle_bytes ct s1 fp1 m1 i"
  have len: "length ?H = ?z" "length ?H1 = max (?p + unat n) ?z" "length (take (unat n) buf) = unat n"
    using length_handle_bytes [OF h b] length_handle_bytes [OF x(2,3)] x(4) n(2) by simp_all
  have "blit ?p (take (unat n) buf) ?H1 = blit ?p (take (unat n) buf) ?H"
  proof (cases "?p + unat n \<le> ?z")
    case True
    then have "?H1 = ?H" using x(5) len by simp
    then show ?thesis by simp
  next
    case False
    then show ?thesis using x(5) [symmetric] pos(1) len by (simp add: blit_def min_absorb1 min_absorb2)
  qed
  then have bytes: "handle_bytes ct s' fp' m1 i' = blit ?p (take (unat n) buf) ?H" using r(5) x(6) by simp
  have rw: "rewrote ct m L (fl_minode fp) s s' m1 L1"
  proof (rule rewrote_wrote [OF x(11) r(4)])
    show "geom s1" using x(2) by (simp add: file_handle_def bgood_def)
    show "file_ok ct s1 m1 L1" by (rule file_handleD(2) [OF x(2)])
  qed
  show ?thesis by (rule that [OF put r(2,3) bytes _ _ r(8) er' rw]) (use r(6,7) x(6,8) in simp_all)
qed


section \<open>Block boundaries\<close>

text \<open>
  \<^verbatim>\<open>ufs_file_putc\<close> with a full buffer asks for the block of \<^verbatim>\<open>filepos\<close> where it means
  that of \<^verbatim>\<open>filepos + 1\<close>: at a block boundary it gets the block it has just filled.
\<close>

lemma boundary_index: "0 < bs \<Longrightarrow> (Suc i * bs - 1) div bs = (i :: nat)"
  using last_index [of bs bs i] by (simp add: add.commute)

lemma putc_boundary:
  assumes h: "file_handle os ct (Suc (Suc k)) s fp m L" and b: "at_block ct s fp m i"
    and full: "unat (fl_blkpos fp) = unat (v_blksize s)"
    and wr: "has (fl_mode fp) FILE_MODE_WRITE" "\<not> has (fl_ind fp) FILE_IND_ERROR"
    and sz: "unat (fl_filepos fp) < unat (di_filesize (mi_dinode m))"
  obtains fp1 s1 fp2 s2 where "ufs_file_putc os s x fp = Some (0, fp1, s1)" "fl_filepos fp1 = fl_filepos fp + 1"
    "ufs_file_sync os s1 fp1 = Some (fp2, s2)"
    "file_blocks ct s2 m = (file_blocks ct s1 m)[i := (fl_blkbuf fp)[0 := ucast x]]"
    "file_bytes ct s1 m = handle_bytes ct s fp m i"
proof -
  note d = file_handleD [OF h]
  let ?bs = "unat (v_blksize s)" and ?p = "unat (fl_filepos fp)"
  have bs: "0 < ?bs" by (rule bgood_bs [OF d(1)])
  have p: "?p = Suc i * ?bs" using b full by (simp add: at_block_def)
  have i1: "Suc i < nblks s m" using pos_block [OF bs sz] p bs by simp
  then have i: "i < nblks s m" by simp
  obtain fpa sa where sy: "ufs_file_sync os s fp = Some (fpa, sa)" "file_handle os ct (Suc k) sa fpa m L"
    "at_block ct sa fpa m i" "fl_ind fpa = fl_ind fp AND NOT FILE_IND_DIRTY"
    "file_bytes ct sa m = handle_bytes ct s fp m i" "wrote ct m s sa"
    "fl_filepos fpa = fl_filepos fp" "fl_blkpos fpa = fl_blkpos fp" "fl_mode fpa = fl_mode fp"
    by (rule sync_ok [OF h b])
  note r = vrest_frest_geom [OF wroteD(1) [OF sy(6)]]
  have nb: "nblks sa m = nblks s m" by (simp add: r)
  have p31: "?p \<le> 2 ^ 31" using sz file_okD(4) [OF d(2)] by simp
  obtain sb where l: "load_block os sa fpa (fl_filepos fpa) = Some (RcOk,
      fpa\<lparr>fl_blkno := data_node ct sa m i, fl_blkbuf := file_block ct sa (m_addr m) i,
         fl_blkpos := fl_filepos fpa mod ucast (v_blksize sa)\<rparr>, sb)" "bgood os ct (Suc k) sb L" "vsame ct sa sb"
    by (rule load_block_at [OF sy(2), of "fl_filepos fpa" i])
       (use sy(7) p p31 bs i boundary_index [OF bs, of i] r in simp_all)
  have q0: "fl_filepos fpa mod ucast (v_blksize sa) = 0"
  proof -
    have "unat (fl_filepos fpa mod ucast (v_blksize sa)) = ?p mod ?bs" by (simp add: unat_mod sy(7) r)
    then show ?thesis using p by (simp add: unat_eq_zero)
  qed
  have buf: "file_block ct sa (m_addr m) i = fl_blkbuf fp"
  proof -
    have nd: "\<not> has (fl_ind fpa) FILE_IND_DIRTY" by (simp add: sy(4) has_def and.assoc)
    have "fl_blkbuf fpa = file_block ct sa (m_addr m) i" using sy(3) nd nb i by (simp add: at_block_def)
    moreover have "fl_blkbuf fpa = fl_blkbuf fp" by (rule sync_buf [OF sy(1)])
    ultimately show ?thesis by simp
  qed
  define fp1 where "fp1 = ind_on FILE_IND_DIRTY (fpa\<lparr>fl_blkno := data_node ct sa m i,
    fl_blkbuf := (fl_blkbuf fp)[0 := ucast x], fl_blkpos := 1, fl_filepos := fl_filepos fp + 1\<rparr>)"
  have lb: "length (fl_blkbuf fp) = ?bs" by (rule d(7))
  have full': "fl_blksize fp \<le> fl_blkpos fp" using full d(6) by (simp add: word_le_nat_alt)
  have put: "ufs_file_putc os s x fp = Some (0, fp1, sb)"
    using wr d(4) sz full' sy(1,7) l(1) bs lb
    by (simp add: ufs_file_putc_def word_le_nat_alt Let_def q0 [unfolded sy(7)] buf fp1_def)
  have eq: "data_node ct sb m i = data_node ct sa m i"
    using vsameD(1) [OF l(3)] vrest_frest_geom [OF vsameD(2) [OF l(3)]] by simp
  note f = file_vsame [OF l(3)]
  have fsb: "file_ok ct sb m L" using file_handleD(2) [OF sy(2)] f by simp
  have ib: "i < nblks sb m" using i nb vsameD(4) [OF l(3)] by simp
  have len: "length (fl_blkbuf fp1) = unat (v_blksize sb)"
    using lb r(3) vsameD(4) [OF l(3)] by (simp add: fp1_def)
  obtain s2 where w: "ufs_vdisk_write os sb (fl_blkbuf fp1) (data_node ct sb m i) = (RcOk, s2)"
    "vrest s2 = vrest sb" "file_blocks ct s2 m = (file_blocks ct sb m)[i := fl_blkbuf fp1]"
    by (rule file_store [OF l(2) fsb ib len])
  have nz: "fl_blkno fp1 \<noteq> 0" "fl_blkno fp1 = data_node ct sb m i"
    using bgood_nonzero [OF l(2) data_node_sane(1) [OF fsb ib]] eq by (simp_all add: fp1_def)
  have m: "v_mstore s2 (fl_minode fp1) = Some m"
    using vrestD [OF w(2)] vsameD(6) [OF l(3)] file_handleD(4) [OF sy(2)] by (simp add: fp1_def)
  have sync: "ufs_file_sync os sb fp1 = Some (ind_off FILE_IND_DIRTY fp1, s2)"
    using nz w(1) m d(5) by (simp add: ufs_file_sync_def) (simp add: fp1_def)
  show ?thesis
    by (rule that [OF put _ sync]) (use w(3) sy(5) f(2) in \<open>simp_all add: fp1_def file_bytes_def\<close>)
qed

end
