(* ===== verification/Seek.thy ===== *)
theory Seek
  imports Stream
begin

text \<open>
  The entry points of open files: \<^verbatim>\<open>ufs_fseek\<close> and the reads and writes that follow it, with
  the lock of the handle taken and released around them.
\<close>

section \<open>The lock of the handle\<close>

lemma file_locked_ok:
  assumes "bgood os ct k s L"
  obtains s0 r where "file_locked os f s = (do { (a, s1) \<leftarrow> f s0; Some (a, unlock os r LkFile s1) })"
    "bgood os ct k s0 L" "vsame ct s s0"
proof -
  have g: "vgood os ct (v_lim s) k s" using assms by (simp add: bgood_def fgood_def)
  obtain r s0 where l: "lock os LkFile s = (r, s0)" "vgood os ct (v_lim s) k s0" "vsame ct s s0"
    by (rule good_lock [OF g])
  show ?thesis
    by (rule that [of s0 r, OF _ bgood_vsame [OF assms l(2,3)] l(3)]) (simp add: file_locked_def l(1))
qed

lemma has_off_self [simp]: "has (a AND NOT b) b = False"
  by (simp add: has_def and.assoc)

lemma has_off_other [simp]:
  "has (a AND NOT FILE_IND_EOF) FILE_IND_ERROR = has a FILE_IND_ERROR"
  "has (a AND NOT FILE_IND_EOF) FILE_IND_DIRTY = has a FILE_IND_DIRTY"
  "has (a AND NOT FILE_IND_ERROR) FILE_IND_EOF = has a FILE_IND_EOF"
  "has (a AND NOT FILE_IND_ERROR) FILE_IND_DIRTY = has a FILE_IND_DIRTY"
  "has (a AND NOT FILE_IND_DIRTY) FILE_IND_EOF = has a FILE_IND_EOF"
  "has (a AND NOT FILE_IND_DIRTY) FILE_IND_ERROR = has a FILE_IND_ERROR"
  by (rule has_andnot, simp add: FILE_IND_EOF_def FILE_IND_DIRTY_def FILE_IND_ERROR_def)+

section \<open>Seeking in a file opened for reading\<close>

text \<open>
  After a seek the buffer holds the block with the byte before the position: with blocks of
  \<open>bs\<close> bytes, that is block \<open>(p - 1) div bs\<close>, while the byte at \<open>p\<close> is in \<open>p div bs\<close>.
\<close>

lemma seek_read_ok:
  assumes h: "file_handle os ct k s fp m L" and b: "at_block ct s fp m i" "\<not> has (fl_ind fp) FILE_IND_DIRTY"
    and md: "\<not> has (fl_mode fp) FILE_MODE_WRITE"
    and p: "0 < unat p" "unat p < unat (di_filesize (mi_dinode m))" "unat p < 2 ^ 31"
    and j: "j = (unat p - 1) div unat (v_blksize s)"
    and no: "fl_blkno fp \<noteq> 0"
  obtains fp' s' where "ufs_fseek os s (Some fp) p UFS_SEEK_SET = Some ((RcOk, Some fp'), s')"
    "file_handle os ct k s' fp' m L" "vsame ct s s'" "fl_filepos fp' = p"
    "unat (fl_blkpos fp') = unat p mod unat (v_blksize s)"
    "fl_blkno fp' = data_node ct s m j" "fl_blkbuf fp' = file_block ct s (m_addr m) j"
    "fl_mode fp' = fl_mode fp" "\<not> has (fl_ind fp') FILE_IND_EOF" "\<not> has (fl_ind fp') FILE_IND_ERROR"
    "\<not> has (fl_ind fp') FILE_IND_DIRTY"
proof -
  note d = file_handleD [OF h]
  let ?bs = "unat (v_blksize s)"
  have bs: "0 < ?bs" by (rule bgood_bs [OF d(1)])
  have j1: "j < nblks s m"
    using pos_block [OF bs, of "unat p - 1" "unat (di_filesize (mi_dinode m))"] p j by simp
  obtain s0 r where lk: "ufs_fseek os s (Some fp) p UFS_SEEK_SET
      = (do { (a, s1) \<leftarrow> seek_file os s0 fp p UFS_SEEK_SET; Some (a, unlock os r LkFile s1) })"
    "bgood os ct k s0 L" "vsame ct s s0"
    unfolding ufs_fseek_def option.case by (rule file_locked_ok [OF d(1)])
  note v0 = vsameD [OF lk(3)] and f0 = file_vsame [OF lk(3)]
  have m0: "v_mstore s0 (fl_minode fp) = Some m" using d(4) v0(6) by simp
  define fp1 where "fp1 = fp\<lparr>fl_filepos := p, fl_blkpos := p mod fl_blksize fp\<rparr>"
  have fo: "file_ok ct s0 m L" "good_blksize s0" using d(2,3) f0 v0 by (simp_all add: good_blksize_def)
  obtain s1 where la: "ufs_datablock_last os s0 m p = Some (data_node ct s0 m j, s1)"
    "bgood os ct k s1 L" "vsame ct s0 s1"
    by (rule last_ok [OF fo(1) lk(2) fo(2) p(1), of j]) (use p(3) j j1 v0 in simp_all)
  have vj: "vsame ct s s1" by (rule vsame_trans [OF lk(3) la(3)])
  note v1 = vsameD [OF vj] and f1 = file_vsame [OF vj]
  have dn: "data_node ct s0 m j = data_node ct s m j"
    using v0 vrest_frest_geom [OF v0(2)] by simp
  note sn = data_node_sane(1) [OF d(2) j1]
  have nz: "data_node ct s m j \<noteq> 0" by (rule bgood_nonzero [OF d(1) sn])
  have bz: "fl_blksize fp \<noteq> 0" using bs d(6) unat_ucast16 [of "v_blksize s"] by (metis less_irrefl unat_0)
  have "\<exists>s2. seek_load os s0 fp p = Some (RcOk, fp1\<lparr>fl_blkno := data_node ct s m j,
      fl_blkbuf := file_block ct s (m_addr m) j\<rparr>, s2) \<and> bgood os ct k s2 L \<and> vsame ct s s2"
  proof (cases "fl_blkno fp = data_node ct s m j")
    case True
    then have "i < nblks s m \<and> data_node ct s m i = data_node ct s m j" using b no by (simp add: at_block_def)
    then have "fl_blkbuf fp = file_block ct s (m_addr m) j" using b by (simp add: at_block_def file_block_def)
    then have "fp1 = fp1\<lparr>fl_blkno := data_node ct s m j, fl_blkbuf := file_block ct s (m_addr m) j\<rparr>"
      using True by (simp add: fp1_def)
    moreover have "seek_load os s0 fp p = Some (RcOk, fp1, s1)"
      using True nz bz m0 la(1) dn by (simp add: seek_load_def Let_def fp1_def)
    ultimately show ?thesis using la(2) vj by (intro exI [of _ s1]) simp
  next
    case False
    have vg: "vgood os ct (v_lim s1) k s1" using la(2) by (simp add: bgood_def fgood_def)
    have lim: "data_node ct s m j < v_lim s1" using sane_lim [OF sn] v1(3) by simp
    have len: "length (fl_blkbuf fp) = unat (v_blksize s1)" using d(7) v1(4) by simp
    obtain s2 where rd: "ufs_vdisk_read os s1 (fl_blkbuf fp) (data_node ct s m j)
        = (RcOk, vview ct s1 (data_node ct s m j), s2)" "vgood os ct (v_lim s1) k s2" "vsame ct s1 s2"
      by (rule good_read [OF vg lim len])
    have "seek_load os s0 fp p = Some (RcOk, fp1\<lparr>fl_blkno := data_node ct s m j,
        fl_blkbuf := file_block ct s (m_addr m) j\<rparr>, s2)"
      using False nz bz m0 la(1) dn rd(1) v1(1) by (simp add: seek_load_def Let_def fp1_def file_block_def)
    then show ?thesis using bgood_vsame [OF la(2) rd(2,3)] vsame_trans [OF vj rd(3)] by blast
  qed
  then obtain s2 where ld: "seek_load os s0 fp p = Some (RcOk, fp1\<lparr>fl_blkno := data_node ct s m j,
      fl_blkbuf := file_block ct s (m_addr m) j\<rparr>, s2)" "bgood os ct k s2 L" "vsame ct s s2" by blast
  define fp2 where "fp2 = (ind_off FILE_IND_ERROR (ind_off FILE_IND_EOF (fp1\<lparr>fl_blkno := data_node ct s m j,
      fl_blkbuf := file_block ct s (m_addr m) j\<rparr>)))\<lparr>fl_error := RcOk\<rparr>"
  let ?s3 = "unlock os r LkFile s2"
  have m2: "v_mstore s2 (fl_minode fp) = Some m" using d(4) vsameD(6) [OF ld(3)] by simp
  have si: "0 \<le> sint p" using p(3) by (simp add: sint_small)
  have pz: "p < di_filesize (mi_dinode m)" using p(2) by (simp add: word_less_nat_alt)
  have seek: "ufs_fseek os s (Some fp) p UFS_SEEK_SET = Some ((RcOk, Some fp2), ?s3)"
    unfolding lk(1) using m0 m2 si pz md ld(1)
    by (simp add: seek_file_def file_size_def seek_pos_def seek_write_def Let_def fp2_def)
       (simp add: fp1_def ind_off_def)
  have v3: "vsame ct s ?s3" by (rule vsame_trans [OF ld(3) bgood_unlock(2) [OF ld(2)]])
  have ln: "length (file_block ct s (m_addr m) j) = ?bs" by (rule file_block_length [OF d(1,2) j1])
  have h3: "file_handle os ct k ?s3 fp2 m L"
    by (rule file_handle_vsame [OF h bgood_unlock(1) [OF ld(2)] v3])
       (simp_all add: fp2_def fp1_def ind_off_def ln)
  show ?thesis
  proof (rule that [OF seek h3 v3])
    show "unat (fl_blkpos fp2) = unat p mod ?bs" using d(6) by (simp add: fp2_def fp1_def ind_off_def unat_mod)
  qed (use b(2) in \<open>simp_all add: fp2_def fp1_def\<close>)
qed

text \<open>At a position inside a block, the handle is at the block with that position.\<close>

lemma seek_inside:
  assumes "0 < bs" "p mod bs \<noteq> 0" shows "(p - 1) div bs = p div (bs :: nat)"
proof -
  have "p - 1 = p div bs * bs + (p mod bs - 1)" using assms div_mult_mod_eq [of p bs] by linarith
  moreover have "p mod bs - 1 < bs" using mod_less_divisor [OF assms(1), of p] by linarith
  ultimately show ?thesis by (metis add.commute add_0 div_less div_mult_self3 less_nat_zero_code assms(1) neq0_conv)
qed

lemma seek_at_block:
  assumes h: "file_handle os ct k s fp m L"
    and f: "fl_filepos fp = p" "unat (fl_blkpos fp) = unat p mod unat (v_blksize s)"
      "fl_blkno fp = data_node ct s m j" "fl_blkbuf fp = file_block ct s (m_addr m) j"
      "\<not> has (fl_ind fp) FILE_IND_DIRTY"
    and p: "unat p < unat (di_filesize (mi_dinode m))" "unat p mod unat (v_blksize s) \<noteq> 0"
    and j: "j = (unat p - 1) div unat (v_blksize s)"
  shows "at_block ct s fp m j"
proof -
  have bs: "0 < unat (v_blksize s)" by (rule bgood_bs [OF file_handleD(1) [OF h]])
  have "j = unat p div unat (v_blksize s)" using seek_inside [OF bs p(2)] j by simp
  then show ?thesis
    using f pos_block [OF bs p(1)] mod_less_divisor [OF bs, of "unat p"] div_mult_mod_eq [of "unat p" "unat (v_blksize s)"]
    by (simp add: at_block_def less_imp_le)
qed

text \<open>At the start of a block, the next read delivers the bytes of the block before.\<close>

lemma seek_boundary_read:
  assumes h: "file_handle os ct k s fp m L"
    and f: "fl_filepos fp = p" "unat (fl_blkpos fp) = 0" "fl_blkbuf fp = file_block ct s (m_addr m) j"
      "has (fl_mode fp) FILE_MODE_READ" "\<not> has (fl_ind fp) FILE_IND_EOF" "\<not> has (fl_ind fp) FILE_IND_ERROR"
    and p: "unat p = Suc j * unat (v_blksize s)" "unat p + unat n \<le> unat (di_filesize (mi_dinode m))"
    and n: "n \<noteq> 0" "unat n \<le> unat (v_blksize s)"
  obtains fp' where "ufs_file_getn os s fp n = Some (n, slice (j * unat (v_blksize s)) (unat n) (file_bytes ct s m), fp', s)"
proof -
  note d = file_handleD [OF h]
  let ?bs = "unat (v_blksize s)" and ?z = "unat (di_filesize (mi_dinode m))"
  have bs: "0 < ?bs" by (rule bgood_bs [OF d(1)])
  have n0: "0 < unat n" using n(1) by (simp add: unat_gt_0)
  have lt: "unat p < ?z" using p(2) n0 by simp
  have jb: "j < nblks s m" using pos_block [OF bs lt] p(1) bs by simp
  have len: "length (file_block ct s (m_addr m) j) = ?bs" by (rule file_block_length [OF d(1,2) jb])
  have pz: "fl_filepos fp < di_filesize (mi_dinode m)" using lt f(1) by (simp add: word_less_nat_alt)
  have fa: "unat (di_filesize (mi_dinode m) - fl_filepos fp) = ?z - unat p" using lt f(1) by (simp add: unat_sub32)
  have nz: "unat n \<le> ?z - unat p" using p(2) by simp
  have q0: "fl_blkpos fp = 0" using f(2) by (simp add: unat_eq_zero)
  let ?fp = "fp\<lparr>fl_blkpos := fl_blkpos fp + n, fl_filepos := fl_filepos fp + n\<rparr>"
  have "ufs_file_getn os s fp n = Some (n, slice 0 (unat n) (file_block ct s (m_addr m) j), ?fp, s)"
    using n n0 f pz fa d(4,6) q0 len nz
    by (subst ufs_file_getn.simps) (simp add: Let_def word_le_nat_alt word_less_nat_alt slice_opt_def)
  moreover have "slice 0 (unat n) (file_block ct s (m_addr m) j) = slice (j * ?bs) (unat n) (file_bytes ct s m)"
    using bytes_in_block [OF d(1,2) jb, of 0 "unat n"] n(2) p by simp
  ultimately show ?thesis using that by simp
qed

end
