(* ===== verification/Directory.thy ===== *)
theory Directory
  imports Store
begin

text \<open>
  Directories (\<^verbatim>\<open>include/ufs/dir.h\<close>, \<^verbatim>\<open>src/ufsdir*.c\<close>, \<^verbatim>\<open>ufsfilbn.c\<close>,
  \<^verbatim>\<open>ufsfilbz.c\<close>): files of 64-byte entries. A directory that a function changes is given
  by the address of its inode in the store, since it may be the inode the function itself looks up;
  one that is only read is given by value.
\<close>

section \<open>Entries\<close>

record dirent =
  de_inode_number :: u32
  de_name :: "byte list"

definition enc_dirent :: "dirent \<Rightarrow> byte list" where
  "enc_dirent e = be32 (de_inode_number e) @ de_name e"

definition dec_dirent :: "byte list \<Rightarrow> dirent" where
  "dec_dirent b = \<lparr>de_inode_number = get32 b 0, de_name = slice 4 60 b\<rparr>"

definition wf_dirent :: "dirent \<Rightarrow> bool" where
  "wf_dirent e \<longleftrightarrow> length (de_name e) = 60"

text \<open>\<open>dir[i]\<close> in a block buffer, \<open>None\<close> outside it.\<close>

definition entry_at :: "block \<Rightarrow> nat \<Rightarrow> dirent option" where
  "entry_at buf i = (if 64 * i + 64 \<le> length buf then Some (dec_dirent (slice (64 * i) 64 buf)) else None)"

definition set_entry :: "block \<Rightarrow> nat \<Rightarrow> dirent \<Rightarrow> block option" where
  "set_entry buf i e = (if 64 * i + 64 \<le> length buf then Some (blit (64 * i) (enc_dirent e) buf) else None)"

definition ufs_dirent_filename :: "byte list \<Rightarrow> byte list" where
  "ufs_dirent_filename src = strncpy_to UFS_NAME_MAX src @ [0]"

definition slash :: byte where "slash = ch CHR ''/''"

text \<open>The return value; the inode numbers are stored back as they are.\<close>

definition ufs_dirent_endian_convert :: "'d vol \<Rightarrow> dirent list \<Rightarrow> bool" where
  "ufs_dirent_endian_convert s ds \<longleftrightarrow> (\<forall>d \<in> set ds. \<not> \<not> ufs_inode_number_sanity s (de_inode_number d))"

section \<open>Searching a block\<close>

text \<open>
  The callbacks of the searches share their frame: a buffer is taken, the block is read, \<open>body\<close> runs
  on the buffer, and the buffer is given back. \<open>ioerr\<close> is the code for a failed read.
\<close>

definition on_block :: "'d os \<Rightarrow> rc \<Rightarrow> (u32 \<Rightarrow> u32 \<Rightarrow> block \<Rightarrow> 'c \<Rightarrow> 'd vol \<Rightarrow> (rc \<times> block \<times> 'c \<times> 'd vol) option) \<Rightarrow>
    ('d, 'c) blkfun" where
  "on_block os ioerr body s ctx blk sz =
     (let (buf, s) = ufs_disk_get_buf os s in
      case buf of
        None \<Rightarrow> Some (RcErr ENOMEM, ctx, s)
      | Some buf \<Rightarrow>
          let (rc, buf, s) = ufs_vdisk_read os s buf blk in
          if rc \<noteq> RcOk then Some (ioerr, ctx, ufs_disk_free_buf os s buf) else
          do { (ret, buf, ctx, s) \<leftarrow> body blk sz buf ctx s;
               Some (ret, ctx, ufs_disk_free_buf os s buf) })"

text \<open>The first of the entries \<open>i, \<dots>, i + n - 1\<close> that satisfies \<open>P\<close>.\<close>

fun dir_scan :: "(dirent \<Rightarrow> bool) \<Rightarrow> block \<Rightarrow> nat \<Rightarrow> nat \<Rightarrow> (nat \<times> dirent) option option" where
  "dir_scan P buf 0 i = Some None"
| "dir_scan P buf (Suc n) i =
     do { e \<leftarrow> entry_at buf i;
          if P e then Some (Some (i, e)) else dir_scan P buf n (Suc i) }"

definition same_name :: "byte list \<Rightarrow> dirent \<Rightarrow> bool" where
  "same_name name e \<longleftrightarrow> strncmp_eq UFS_NAME_MAX (de_name e) name"

section \<open>Lookup\<close>

definition lookup_subr :: "'d os \<Rightarrow> byte list \<Rightarrow> ('d, u32) blkfun" where
  "lookup_subr os name = on_block os (RcErr EIO) (\<lambda>blk sz buf ino s.
     do { r \<leftarrow> dir_scan (\<lambda>e. \<not> de_inode_number e < 1 \<and> same_name name e) buf (unat (sz div 64)) 0;
          case r of None \<Rightarrow> Some (RcOk, buf, ino, s)
          | Some (_, e) \<Rightarrow> Some (RcIter ITER_BREAK, buf, de_inode_number e, s) })"

text \<open>The name up to the first slash, cut at 59 characters.\<close>

definition lookup_name :: "byte list \<Rightarrow> byte list" where
  "lookup_name name =
     (if slash \<in> set (cstr name)
      then take UFS_NAME_MAX (takeWhile (\<lambda>c. c \<noteq> slash) (cstr name)) @ [0]
      else ufs_dirent_filename name)"

definition ufs_file_lookup_by_name :: "'d os \<Rightarrow> 'd vol \<Rightarrow> minode \<Rightarrow> byte list \<Rightarrow> u32 \<Rightarrow> (rc \<times> u32 \<times> 'd vol) option" where
  "ufs_file_lookup_by_name os s parent_dir name ino =
     (if \<not> ufs_inode_isdir (mi_dinode parent_dir) then Some (RcErr ENOTDIR, ino, s) else
      do { (error, found, s) \<leftarrow>
             ufs_datablock_foreach os (lookup_subr os (lookup_name name)) s parent_dir 0;
           Some (if error \<noteq> RcIter ITER_BREAK then (RcErr ENOENT, ino, s) else (RcOk, found, s)) })"

definition lookup_by_number_subr :: "'d os \<Rightarrow> u32 \<Rightarrow> ('d, byte list option) blkfun" where
  "lookup_by_number_subr os ino = on_block os (RcErr EIO) (\<lambda>blk sz buf p s.
     do { r \<leftarrow> dir_scan (\<lambda>e. de_inode_number e = ino) buf (unat (sz div 64)) 0;
          case r of None \<Rightarrow> Some (RcOk, buf, p, s)
          | Some (_, e) \<Rightarrow>
              Some (RcIter ITER_BREAK, buf, map_option (\<lambda>_. ufs_dirent_filename (de_name e)) p, s) })"

text \<open>\<open>buf\<close> is the caller's name buffer, or \<^verbatim>\<open>NULL\<close>.\<close>

definition ufs_file_lookup_by_number :: "'d os \<Rightarrow> 'd vol \<Rightarrow> minode \<Rightarrow> u32 \<Rightarrow> byte list option \<Rightarrow>
    (bool \<times> byte list option \<times> 'd vol) option" where
  "ufs_file_lookup_by_number os s parent_dir ino buf =
     do { (ret, buf, s) \<leftarrow> ufs_datablock_foreach os (lookup_by_number_subr os ino) s parent_dir buf;
          Some (ret = RcIter ITER_BREAK, buf, s) }"

section \<open>Adding an entry\<close>

definition ufs_residue :: "u32 \<Rightarrow> 'd vol \<Rightarrow> u32" where
  "ufs_residue x s =
     (let b = unat (sb_blksize_shift (v_sb s)) in x - push_bit b (drop_bit b (x - 1)))"

definition add_nlink :: "u16 \<Rightarrow> minode \<Rightarrow> minode" where
  "add_nlink d m = m\<lparr>mi_dinode := (mi_dinode m)\<lparr>di_nlink := di_nlink (mi_dinode m) + d\<rparr>\<rparr>"

text \<open>The link count of the parent follows a directory added or removed; a failed write back is ignored.\<close>

definition count_subdir :: "'d os \<Rightarrow> nat \<Rightarrow> nat \<Rightarrow> u16 \<Rightarrow> 'd vol \<Rightarrow> 'd vol option" where
  "count_subdir os parent_dir minode d s =
     do { m \<leftarrow> v_mstore s minode;
          if ufs_inode_isdir (mi_dinode m)
          then do { (_, s) \<leftarrow> at_minode parent_dir (\<lambda>s m. ufs_inode_writeback os s (add_nlink d m)) s; Some s }
          else Some s }"

text \<open>Bytes 0 to 58 of the name are copied: the last byte of the entry stays as it is.\<close>

definition put_dirent :: "block \<Rightarrow> nat \<Rightarrow> u32 \<Rightarrow> byte list \<Rightarrow> block option" where
  "put_dirent buf n ino filename =
     do { e \<leftarrow> entry_at buf n;
          set_entry buf n \<lparr>de_inode_number = ino, de_name = blit 0 (take UFS_NAME_MAX filename) (de_name e)\<rparr> }"

text \<open>\<open>add_dirent\<close> is the passage between the two lookups: its buffer is given back at the exit.\<close>

definition add_dirent :: "'d os \<Rightarrow> 'd vol \<Rightarrow> nat \<Rightarrow> u32 \<Rightarrow> byte list \<Rightarrow> (rc \<times> block option \<times> 'd vol) option" where
  "add_dirent os s parent_dir ino filename =
     do { (error, s) \<leftarrow> at_minode parent_dir (\<lambda>s m. ufs_datablock_expand os s m 64) s;
          if error \<noteq> RcOk then Some (error, None, s) else
          do { m \<leftarrow> v_mstore s parent_dir;
               let filesize = di_filesize (mi_dinode m) in
               do { (blk, s) \<leftarrow> ufs_datablock_last os s m filesize;
                    if blk = 0 then Some (RcErr EIO, None, s) else
                    let (buf, s) = ufs_disk_get_buf os s in
                    case buf of
                      None \<Rightarrow> Some (RcErr ENOMEM, None, s)
                    | Some buf \<Rightarrow>
                        let (rc, buf, s) = ufs_vdisk_read os s buf blk in
                        if rc \<noteq> RcOk then Some (RcErr EIO, Some buf, s) else
                        let n = unat (ufs_residue filesize s div 64 - 1) in
                        do { buf \<leftarrow> put_dirent buf n ino filename;
                             let (rc, s) = ufs_vdisk_write os s buf blk in
                             Some (if rc \<noteq> RcOk then RcErr EIO else RcOk, Some buf, s) } } } }"

definition free_buf_opt :: "'d os \<Rightarrow> block option \<Rightarrow> 'd vol \<Rightarrow> 'd vol" where
  "free_buf_opt os buf s = (case buf of None \<Rightarrow> s | Some buf \<Rightarrow> ufs_disk_free_buf os s buf)"

definition ufs_directory_add_entry :: "'d os \<Rightarrow> 'd vol \<Rightarrow> nat \<Rightarrow> u32 \<Rightarrow> byte list \<Rightarrow> (rc \<times> 'd vol) option" where
  "ufs_directory_add_entry os s parent_dir ino srcname =
     do { (minode, s) \<leftarrow> ufs_inode_get os s ino;
          case minode of
            None \<Rightarrow> Some (RcErr ENOENT, s)
          | Some minode \<Rightarrow>
              do { (error, buf, s) \<leftarrow> add_dirent os s parent_dir ino (ufs_dirent_filename srcname);
                   s \<leftarrow> (if error \<noteq> RcOk then Some s else count_subdir os parent_dir minode 1 s);
                   s \<leftarrow> ufs_inode_rel os (free_buf_opt os buf s) minode;
                   Some (error, s) } }"

section \<open>Removing and replacing an entry\<close>

text \<open>\<open>remove_subr\<close> overwrites the entry found and delivers its inode number.\<close>

definition remove_subr :: "'d os \<Rightarrow> byte list \<Rightarrow> dirent \<Rightarrow> ('d, u32) blkfun" where
  "remove_subr os name replace = on_block os (RcErr EIO) (\<lambda>blk sz buf ino s.
     do { r \<leftarrow> dir_scan (same_name name) buf (unat (sz div 64)) 0;
          case r of None \<Rightarrow> Some (RcOk, buf, ino, s)
          | Some (i, e) \<Rightarrow>
              do { buf \<leftarrow> set_entry buf i replace;
                   let (rc, s) = ufs_vdisk_write os s buf blk
                   in Some (if rc \<noteq> RcOk then RcErr EIO else RcIter ITER_BREAK, buf, de_inode_number e, s) } })"

definition dirent_at :: "block \<Rightarrow> u32 \<Rightarrow> dirent option" where
  "dirent_at buf pos =
     (if unat pos + 64 \<le> length buf then Some (dec_dirent (slice (unat pos) 64 buf)) else None)"

text \<open>The code does not look at the result of the contraction; \<open>m\<close> is read before the search.\<close>

definition remove_dirent :: "'d os \<Rightarrow> 'd vol \<Rightarrow> nat \<Rightarrow> byte list \<Rightarrow> ((rc \<times> u32) \<times> block option \<times> 'd vol) option" where
  "remove_dirent os s parent_dir name =
     do { m \<leftarrow> v_mstore s parent_dir;
          let sz = di_filesize (mi_dinode m) in
          do { (lastblk, s) \<leftarrow> ufs_datablock_last os s m sz;
               let pos = ufs_residue sz s - 64;
                   (buf, s) = ufs_disk_get_buf os s in
               case buf of
                 None \<Rightarrow> Some ((RcErr ENOMEM, 0), None, s)
               | Some buf \<Rightarrow>
                   let (rc, buf, s) = ufs_vdisk_read os s buf lastblk in
                   if rc \<noteq> RcOk then Some ((RcErr EIO, 0), Some buf, s) else
                   do { lastdirent \<leftarrow> dirent_at buf pos;
                        (error, ino, s) \<leftarrow>
                          ufs_datablock_foreach os (remove_subr os name lastdirent) s m 0;
                        if error \<noteq> RcIter ITER_BREAK then Some ((RcErr ENOENT, 0), Some buf, s) else
                        do { (_, s) \<leftarrow> at_minode parent_dir (\<lambda>s m. ufs_datablock_contract os s m 64) s;
                             Some ((RcOk, ino), Some buf, s) } } } }"

definition ufs_directory_remove_entry :: "'d os \<Rightarrow> 'd vol \<Rightarrow> nat \<Rightarrow> byte list \<Rightarrow> (rc \<times> 'd vol) option" where
  "ufs_directory_remove_entry os s parent_dir name =
     do { ((error, ino), buf, s) \<leftarrow> remove_dirent os s parent_dir name;
          if error \<noteq> RcOk then Some (error, free_buf_opt os buf s) else
          do { (minode, s) \<leftarrow> ufs_inode_get os s ino;
               case minode of
                 None \<Rightarrow> Some (RcErr ENOENT, free_buf_opt os buf s)
               | Some minode \<Rightarrow>
                   do { s \<leftarrow> count_subdir os parent_dir minode (- 1) s;
                        s \<leftarrow> ufs_inode_rel os s minode;
                        Some (RcOk, free_buf_opt os buf s) } } }"

definition replace_subr :: "'d os \<Rightarrow> byte list \<Rightarrow> u32 \<Rightarrow> ('d, unit) blkfun" where
  "replace_subr os name ino = on_block os (RcErr EIO) (\<lambda>blk sz buf _ s.
     do { r \<leftarrow> dir_scan (same_name name) buf (unat (sz div 64)) 0;
          case r of None \<Rightarrow> Some (RcOk, buf, (), s)
          | Some (i, e) \<Rightarrow>
              do { buf \<leftarrow> set_entry buf i (e\<lparr>de_inode_number := ino\<rparr>);
                   let (rc, s) = ufs_vdisk_write os s buf blk
                   in Some (if rc \<noteq> RcOk then RcErr EIO else RcIter ITER_BREAK, buf, (), s) } })"

definition ufs_directory_replace_entry :: "'d os \<Rightarrow> 'd vol \<Rightarrow> minode \<Rightarrow> byte list \<Rightarrow> u32 \<Rightarrow> (rc \<times> 'd vol) option" where
  "ufs_directory_replace_entry os s self_dir name ino =
     do { (error, _, s) \<leftarrow> ufs_datablock_foreach os (replace_subr os name ino) s self_dir ();
          Some (if error \<noteq> RcIter ITER_BREAK then RcErr ENOENT else RcOk, s) }"

end
