(* ===== verification/Iterate.thy ===== *)
theory Iterate
  imports Directory
begin

text \<open>
  What an iteration over the blocks of a file keeps: the interface of a relation between the states
  of a volume that buffers and block reads respect, and that \<^verbatim>\<open>ufs_datablock_foreach\<close> and the
  directory searches then respect too. The first instance: reading never touches the cache of inodes.
\<close>

section \<open>The interface\<close>

locale reading =
  fixes os :: "'d os" and R :: "'d vol \<Rightarrow> 'd vol \<Rightarrow> bool"
  assumes R_refl: "R s s"
    and R_trans: "R s t \<Longrightarrow> R t u \<Longrightarrow> R s u"
    and R_get_buf: "ufs_disk_get_buf os s = (b, s') \<Longrightarrow> R s s'"
    and R_free_buf: "R s (ufs_disk_free_buf os s buf)"
    and R_read: "ufs_vdisk_read os s buf blk = (rc, buf', s') \<Longrightarrow> R s s'"
begin

lemma R_link: "ufs_datablock_link os s l n = Some (blk, s') \<Longrightarrow> R s s'"
  by (auto simp: ufs_datablock_link_def Let_def bind_eq_Some_conv R_refl
      split: if_splits prod.splits option.splits dest!: R_get_buf R_read
      intro: R_trans [OF R_trans [OF _ _] R_free_buf])

definition callback :: "('d, 'c) blkfun \<Rightarrow> bool" where
  "callback f \<longleftrightarrow> (\<forall>s ctx blk sz r ctx' s'. f s ctx blk sz = Some (r, ctx', s') \<longrightarrow> R s s')"

lemma R_visit: "callback f \<Longrightarrow> visit f s blk fs ctx = Some (r, fs', ctx', s') \<Longrightarrow> R s s'"
  by (auto simp: visit_def callback_def Let_def bind_eq_Some_conv split: if_splits; blast)

lemma R_loop1:
  assumes "callback f"
  shows "loop1_from os f n s l k fs ctx = Some (r, fs', ctx', s') \<Longrightarrow> R s s'"
proof (induction n arbitrary: s k fs ctx)
  case (Suc n)
  then show ?case
    by (auto simp: bind_eq_Some_conv split: if_splits dest!: R_link R_visit [OF assms] Suc.IH)
      (meson R_trans)+
qed (simp add: R_refl)

lemma R_loop2:
  assumes "callback f"
  shows "loop2_from os f n s l k fs ctx = Some (r, fs', ctx', s') \<Longrightarrow> R s s'"
proof (induction n arbitrary: s k fs ctx)
  case (Suc n)
  then show ?case
    by (auto simp: bind_eq_Some_conv ufs_datablock_loop1_def split: if_splits dest!: R_link R_loop1 [OF assms] Suc.IH)
      (meson R_trans)+
qed (simp add: R_refl)

lemma R_loop3:
  assumes "callback f"
  shows "loop3_from os f n s l k fs ctx = Some (r, fs', ctx', s') \<Longrightarrow> R s s'"
proof (induction n arbitrary: s k fs ctx)
  case (Suc n)
  then show ?case
    by (auto simp: bind_eq_Some_conv ufs_datablock_loop2_def split: if_splits dest!: R_link R_loop2 [OF assms] Suc.IH)
      (meson R_trans)+
qed (simp add: R_refl)

lemma R_direct:
  assumes "callback f"
  shows "direct_from f n s m i fs ctx = Some (r, fs', ctx', s') \<Longrightarrow> R s s'"
proof (induction n arbitrary: s i fs ctx)
  case (Suc n)
  then show ?case
    by (auto simp: bind_eq_Some_conv R_refl split: if_splits dest!: R_visit [OF assms] Suc.IH)
      (meson R_trans)+
qed (simp add: R_refl)

text \<open>The phases of the iteration, one after the other: each runs from a state related to the first.\<close>

lemma wlp_phase:
  assumes "R s t" "\<And>r x c u. g = Some (r, x, c, u) \<Longrightarrow> R t u" "\<And>r x c u. R s u \<Longrightarrow> wlp (h r x c u) Q"
  shows "wlp (g \<bind> (\<lambda>(r, x, c, u). h r x c u)) Q"
proof (rule wlp_any)
  fix a assume a: "g = Some a"
  obtain r x c u where "a = (r, x, c, u)" by (metis prod_cases4)
  then show "wlp (case a of (r, x, c, u) \<Rightarrow> h r x c u) Q"
    using assms(3) [OF R_trans [OF assms(1) assms(2)]] a by simp
qed

lemma R_foreach:
  assumes f: "callback f" and run: "ufs_datablock_foreach os f s m ctx = Some (r, ctx', s')"
  shows "R s s'"
proof -
  note loops = R_direct [OF f] R_loop1 [OF f] R_loop2 [OF f] R_loop3 [OF f]
  have here: "R s t \<Longrightarrow> wlp (Some (r, c, t)) (\<lambda>(r, c, t). R s t)" for r t and c :: 'c by simp
  have "wlp (ufs_datablock_foreach os f s m ctx) (\<lambda>(r, c, t). R s t)"
    unfolding ufs_datablock_foreach_def ufs_datablock_loop1_def ufs_datablock_loop2_def Let_def
    by (assumption | rule R_refl here wlp_if
        | (rule wlp_phase, (assumption | rule R_refl), (erule loops(1) | erule loops(2) | erule loops(3) | erule loops(4)))
        | rule wlp_any)+
  from wlpD [OF this run] show ?thesis by simp
qed

text \<open>The frame of the directory searches: a body that does no more than read the buffer.\<close>

lemma R_on_block:
  assumes "\<And>blk sz buf ctx s r buf' ctx' s'. body blk sz buf ctx s = Some (r, buf', ctx', s') \<Longrightarrow> R s s'"
  shows "callback (on_block os e body)"
  unfolding callback_def
proof (intro allI impI)
  fix s ctx blk sz r ctx' s'
  assume "on_block os e body s ctx blk sz = Some (r, ctx', s')"
  then show "R s s'"
    by (auto simp: on_block_def Let_def bind_eq_Some_conv R_refl split: if_splits prod.splits option.splits
        dest!: R_get_buf R_read assms) (meson R_trans R_free_buf)+
qed

lemma R_lookup:
  assumes "ufs_file_lookup_by_name os s m name ino = Some (rc, ino', s')" shows "R s s'"
proof -
  have cb: "callback (lookup_subr os x)" for x
    unfolding lookup_subr_def
    by (rule R_on_block) (auto simp: bind_eq_Some_conv R_refl split: option.splits)
  show ?thesis
    using assms R_refl by (auto simp: ufs_file_lookup_by_name_def bind_eq_Some_conv split: if_splits
        dest!: R_foreach [OF cb])
qed

end

section \<open>Reading leaves the cache of inodes alone\<close>

definition mrest :: "'d vol \<Rightarrow> nat list \<times> (nat \<Rightarrow> minode option) \<times> nat" where
  "mrest s = (v_minodes s, v_mstore s, v_mnext s)"

lemma mrest_simps [simp]:
  "mrest (snd (lock os k s)) = mrest s" "mrest (unlock os r k s) = mrest s" "mrest (snd (calloc os n s)) = mrest s"
  "mrest (snd (clock64 os s)) = mrest s" "mrest (upd_pgr f s) = mrest s" "mrest (upd_page i g s) = mrest s"
  "mrest (s\<lparr>v_disk := d\<rparr>) = mrest s" "mrest (s\<lparr>v_outer := x\<rparr>) = mrest s"
  by (simp_all add: mrest_def lock_def unlock_def calloc_def clock64_def upd_pgr_def upd_page_def case_prod_beta Let_def)

lemma mrest_disk [simp]:
  "mrest (snd (ufs_disk_get_buf os s)) = mrest s" "mrest (ufs_disk_free_buf os s buf) = mrest s"
  "mrest (snd (snd (ufs_disk_read os s blk))) = mrest s" "mrest (snd (ufs_disk_write os s b blk)) = mrest s"
  by (simp_all add: ufs_disk_get_buf_def ufs_disk_free_buf_def ufs_disk_read_def ufs_disk_write_def case_prod_beta Let_def)

lemma mrest_pager [simp]:
  "mrest (snd (ufs_page_new os s)) = mrest s" "mrest (snd (ufs_pager_lru_page os s)) = mrest s"
  "mrest (snd (ufs_page_flush os s i)) = mrest s" "mrest (page_reset os s i buf blk) = mrest s"
  "mrest (page_hit os s i) = mrest s"
  by (simp_all add: ufs_page_new_def ufs_pager_lru_page_def ufs_page_flush_def page_reset_def page_hit_def
      case_prod_beta Let_def split: option.splits)

lemma mrest_read [simp]: "mrest (snd (snd (ufs_vdisk_read os s buf blk))) = mrest s"
  by (simp add: ufs_vdisk_read_def ufs_pager_read_def pager_read_miss_def case_prod_beta Let_def split: option.splits)

interpretation mcache: reading os "\<lambda>s s'. mrest s' = mrest s" for os
proof (unfold_locales, goal_cases)
  case (3 s b s') then show ?case by (metis mrest_disk(1) snd_conv)
next
  case (5 s buf blk rc buf' s') then show ?case by (metis mrest_read snd_conv)
qed auto

end
