(* ===== verification/Entries.thy ===== *)
theory Entries
  imports Stream Iterate
begin

text \<open>
  A directory as the list of its entries. \<^verbatim>\<open>ufs_datablock_foreach\<close> on a file in order hands
  its callback the bytes of the file, block after block, until the callback stops it: a fold over the
  blocks, whatever the depth of the index. The interface \<open>block_fold\<close> is a callback that
  computes a function of the bytes; the searches of a directory are its instances.
\<close>

section \<open>The parts of a file\<close>

definition file_part :: "('d \<Rightarrow> u32 \<Rightarrow> block) \<Rightarrow> 'd vol \<Rightarrow> minode \<Rightarrow> nat \<Rightarrow> byte list" where
  "file_part ct s m i = take (unat (di_filesize (mi_dinode m)) - i * unat (v_blksize s)) (file_block ct s (m_addr m) i)"

definition file_parts :: "('d \<Rightarrow> u32 \<Rightarrow> block) \<Rightarrow> 'd vol \<Rightarrow> minode \<Rightarrow> byte list list" where
  "file_parts ct s m = map (file_part ct s m) [0 ..< nblks s m]"

fun fold_parts :: "('e \<Rightarrow> 'c \<Rightarrow> rc \<times> 'c) \<Rightarrow> 'e list \<Rightarrow> 'c \<Rightarrow> rc \<times> 'c" where
  "fold_parts g [] c = (RcIter ITER_END, c)"
| "fold_parts g (b # bs) c = (case g b c of (r, c) \<Rightarrow> if r \<noteq> RcOk then (r, c) else fold_parts g bs c)"

lemma fold_parts_map: "fold_parts g (map h xs) c = fold_parts (\<lambda>x. g (h x)) xs c"
  by (induction xs arbitrary: c) (auto split: prod.split)

text \<open>The blocks of a file as the iteration hands them out: number, content, and the part that is in the file.\<close>

definition file_pieces :: "('d \<Rightarrow> u32 \<Rightarrow> block) \<Rightarrow> 'd vol \<Rightarrow> minode \<Rightarrow> (u32 \<times> block \<times> byte list) list" where
  "file_pieces ct s m = map (\<lambda>i. (data_node ct s m i, file_block ct s (m_addr m) i, file_part ct s m i)) [0 ..< nblks s m]"

lemma map_snd_pieces [simp]: "map (snd \<circ> snd) (file_pieces ct s m) = file_parts ct s m"
  by (simp add: file_pieces_def file_parts_def)

lemma drop_pieces: "i < nblks s m \<Longrightarrow>
    drop i (file_pieces ct s m) = (data_node ct s m i, file_block ct s (m_addr m) i, file_part ct s m i)
      # drop (Suc i) (file_pieces ct s m)"
  by (subst Cons_nth_drop_Suc [symmetric]) (simp_all add: file_pieces_def)

lemma take_concat:
  assumes "\<forall>x \<in> set xs. length x = b"
  shows "take n (concat xs) = concat (map (\<lambda>i. take (n - i * b) (xs ! i)) [0 ..< length xs])"
  using assms
proof (induction xs arbitrary: n)
  case (Cons x xs)
  let ?h = "\<lambda>i. take (n - i * b) ((x # xs) ! i)"
  have "map ?h [0 ..< length (x # xs)] = ?h 0 # map (\<lambda>i. ?h (Suc i)) [0 ..< length xs]"
    by (rule nth_equalityI) (auto simp: nth_Cons split: nat.splits simp del: upt_Suc)
  also have "(\<lambda>i. ?h (Suc i)) = (\<lambda>i. take (n - b - i * b) (xs ! i))"
    by (rule ext) (simp add: diff_diff_left)
  finally show ?case using Cons by simp
qed simp

lemma file_bytes_parts:
  assumes "bgood os ct k s L" "file_ok ct s m L"
  shows "file_bytes ct s m = concat (file_parts ct s m)"
proof -
  have "map (\<lambda>i. take (unat (di_filesize (mi_dinode m)) - i * unat (v_blksize s)) (file_blocks ct s m ! i))
      [0 ..< length (file_blocks ct s m)] = file_parts ct s m"
    by (simp add: file_parts_def file_part_def)
  then show ?thesis
    unfolding file_bytes_def using take_concat [OF file_blocks_lengths [OF assms]] by simp
qed

section \<open>The iteration is a fold\<close>

locale block_fold =
  fixes os :: "'d os" and ct :: "'d \<Rightarrow> u32 \<Rightarrow> block" and f :: "('d, 'c) blkfun"
    and g :: "u32 \<times> block \<times> byte list \<Rightarrow> 'c \<Rightarrow> rc \<times> 'c" and ok :: "'d vol \<Rightarrow> bool"
  assumes f_step: "bgood os ct k s L \<Longrightarrow> ok s \<Longrightarrow> ufs_datablock_number_sanity s b \<Longrightarrow>
    unat sz \<le> unat (v_blksize s) \<Longrightarrow>
    \<exists>s'. f s c b sz = Some (fst (g (b, vview ct s b, take (unat sz) (vview ct s b)) c),
        snd (g (b, vview ct s b, take (unat sz) (vview ct s b)) c), s')
      \<and> bgood os ct k s' L \<and> vsame ct s s'"
  and ok_same: "vsame ct s s' \<Longrightarrow> ok s \<Longrightarrow> ok s'"
begin

text \<open>
  A stage of the iteration over the file \<open>m\<close> of \<open>s0\<close>, from block \<open>i\<close> to block \<open>i'\<close>: it ends with the
  result of the fold, or goes on with the rest of it.
\<close>

definition stage_ok :: "nat \<Rightarrow> u32 list \<Rightarrow> 'd vol \<Rightarrow> minode \<Rightarrow> nat \<Rightarrow> 'c \<Rightarrow> nat \<Rightarrow> (rc \<times> u32 \<times> 'c \<times> 'd vol) option \<Rightarrow> bool" where
  "stage_ok k L s0 m i c i' res \<longleftrightarrow> (\<exists>r fs c' s'. res = Some (r, fs, c', s') \<and> bgood os ct k s' L \<and> vsame ct s0 s'
     \<and> (if r = RcOk
        then i' < nblks s0 m \<and> unat fs = unat (di_filesize (mi_dinode m)) - i' * unat (v_blksize s0)
          \<and> fold_parts g (drop i (file_pieces ct s0 m)) c = fold_parts g (drop i' (file_pieces ct s0 m)) c'
        else fold_parts g (drop i (file_pieces ct s0 m)) c = (r, c')))"

definition at_stage :: "nat \<Rightarrow> u32 list \<Rightarrow> 'd vol \<Rightarrow> minode \<Rightarrow> nat \<Rightarrow> u32 \<Rightarrow> 'd vol \<Rightarrow> bool" where
  "at_stage k L s0 m i fs s \<longleftrightarrow> bgood os ct k s L \<and> ok s0 \<and> vsame ct s0 s \<and> file_ok ct s0 m L
     \<and> i < nblks s0 m \<and> unat fs = unat (di_filesize (mi_dinode m)) - i * unat (v_blksize s0)"

lemma stage_bind:
  assumes "stage_ok k L s0 m i c i1 res" "file_ok ct s0 m L \<and> ok s0"
    "\<And>fs c' s'. at_stage k L s0 m i1 fs s' \<Longrightarrow> stage_ok k L s0 m i1 c' i2 (h fs c' s')"
  shows "stage_ok k L s0 m i c i2
    (res \<bind> (\<lambda>(ret, fs, c, s). if ret \<noteq> RcOk then Some (ret, fs, c, s) else h fs c s))"
proof -
  obtain r fs c' s' where res: "res = Some (r, fs, c', s')" "bgood os ct k s' L" "vsame ct s0 s'"
    and q: "if r = RcOk
        then i1 < nblks s0 m \<and> unat fs = unat (di_filesize (mi_dinode m)) - i1 * unat (v_blksize s0)
          \<and> fold_parts g (drop i (file_pieces ct s0 m)) c = fold_parts g (drop i1 (file_pieces ct s0 m)) c'
        else fold_parts g (drop i (file_pieces ct s0 m)) c = (r, c')"
    using assms(1) unfolding stage_ok_def by blast
  show ?thesis
  proof (cases "r = RcOk")
    case True
    then have "stage_ok k L s0 m i1 c' i2 (h fs c' s')" using assms(2,3) res q by (simp add: at_stage_def)
    moreover have "stage_ok k L s0 m i c i2 x = stage_ok k L s0 m i1 c' i2 x" for x
      using True q by (simp add: stage_ok_def)
    ultimately show ?thesis using True res(1) by simp
  next
    case False
    then show ?thesis using res q by (simp add: stage_ok_def)
  qed
qed

lemma stage_none: "at_stage k L s0 m i fs s \<Longrightarrow> stage_ok k L s0 m i c i (Some (RcOk, fs, c, s))"
  by (simp add: at_stage_def stage_ok_def)

lemma stage_visit:
  assumes "at_stage k L s0 m i fs s"
  shows "stage_ok k L s0 m i c (Suc i) (visit f s (data_node ct s0 m i) fs c)"
proof -
  let ?b = "data_node ct s0 m i" and ?F = "unat (di_filesize (mi_dinode m))" and ?B = "unat (v_blksize s0)"
  have g: "bgood os ct k s L" "vsame ct s0 s" "file_ok ct s0 m L" "i < nblks s0 m" "unat fs = ?F - i * ?B" "ok s0"
    using assms by (auto simp: at_stage_def)
  note v = vsameD [OF g(2)] and f = file_vsame [OF g(2)] and e = vrest_frest_geom [OF vsameD(2) [OF g(2)]]
  let ?z = "if fs \<le> ucast (v_blksize s) then fs else ucast (v_blksize s)"
  have bs: "unat (ucast (v_blksize s) :: u32) = ?B" using v(4) by simp
  have z: "unat ?z = min ?B (?F - i * ?B)" using g(5) bs by (simp add: word_le_nat_alt min_def)
  have "ufs_datablock_number_sanity s ?b" using data_node_sane(1) [OF g(3,4)] e(2) by simp
  then obtain s' where s': "f s c ?b ?z = Some (fst (g (?b, vview ct s ?b, take (unat ?z) (vview ct s ?b)) c),
      snd (g (?b, vview ct s ?b, take (unat ?z) (vview ct s ?b)) c), s')" "bgood os ct k s' L" "vsame ct s s'"
    using f_step [OF g(1) ok_same [OF g(2,6)], of ?b ?z c] z v(4) by auto
  have len: "length (file_block ct s0 (m_addr m) i) = ?B"
    using file_block_length [OF g(1), of m i] g(3,4) f(1) v(1,4) e(1) by (simp add: file_block_def)
  have part: "take (unat ?z) (vview ct s ?b) = file_part ct s0 m i"
    unfolding z file_part_def v(1) using len by (simp add: file_block_def min_def)
  have whole: "vview ct s ?b = file_block ct s0 (m_addr m) i" by (simp add: v(1) file_block_def)
  have same: "vsame ct s0 s'" by (rule vsame_trans [OF g(2) s'(3)])
  have v': "v_blksize s' = v_blksize s0" using vsameD(4) [OF same] .
  obtain r c1 where gp: "g (?b, file_block ct s0 (m_addr m) i, file_part ct s0 m i) c = (r, c1)" by (metis surj_pair)
  note dp = drop_pieces [OF g(4), of ct]
  have pos: "0 < ?B" using g(1) v(4) bgood_bs by metis
  consider "r \<noteq> RcOk" | "r = RcOk" "fs \<le> ucast (v_blksize s)" | "r = RcOk" "\<not> fs \<le> ucast (v_blksize s)" by blast
  then show ?thesis
  proof cases
    case 1
    then show ?thesis using s'(1,2) same gp unfolding part unfolding whole by (simp add: visit_def stage_ok_def dp Let_def)
  next
    case 2
    have "?F \<le> Suc i * ?B" using 2(2) g(5) bs by (simp add: word_le_nat_alt)
    then have "nblks s0 m \<le> Suc i" using blocks_le [OF pos] by simp
    then have "drop (Suc i) (file_pieces ct s0 m) = []" by (simp add: file_pieces_def)
    then show ?thesis using 2 s'(1,2) same gp unfolding part unfolding whole by (simp add: visit_def stage_ok_def dp Let_def)
  next
    case 3
    have lt: "Suc i * ?B < ?F" using 3(2) g(5) bs by (simp add: word_le_nat_alt)
    then have n: "Suc i < nblks s0 m" using pos_block [OF pos lt] pos by simp
    have "unat (fs - ucast (v_blksize s')) = ?F - Suc i * ?B"
      using 3(2) g(5) bs v' v(4) by (simp add: unat_sub word_le_nat_alt)
    then show ?thesis using 3 n s'(1,2) same gp unfolding part unfolding whole by (simp add: visit_def stage_ok_def dp Let_def)
  qed
qed

lemma stage_direct:
  assumes "at_stage k L s0 m i fs s" "i + n \<le> 16"
  shows "stage_ok k L s0 m i c (i + n) (direct_from f n s m i fs c)"
  using assms
proof (induction n arbitrary: i fs s c)
  case 0
  then show ?case by (simp add: stage_none)
next
  case (Suc n)
  have g: "file_ok ct s0 m L" "i < nblks s0 m" "vsame ct s0 s" "ok s0" using Suc.prems(1) by (auto simp: at_stage_def)
  note e = vrest_frest_geom [OF vsameD(2) [OF g(3)]]
  have fp: "fpath (per_block s0) i = (i, [])" using Suc.prems(2) by (simp add: fpath_def)
  have "length (m_addr m) = 19" by (rule tree_okD(1) [OF file_okD(1) [OF g(1)]])
  then have a: "get_addr m i = Some (data_node ct s0 m i)"
    using Suc.prems(2) fp by (simp add: get_addr_def nth_opt_def)
  have sane: "ufs_datablock_number_sanity s (data_node ct s0 m i)" using data_node_sane(1) [OF g(1,2)] e(2) by simp
  have "stage_ok k L s0 m i c (Suc i + n) (visit f s (data_node ct s0 m i) fs c \<bind>
      (\<lambda>(ret, fs, c, s). if ret \<noteq> RcOk then Some (ret, fs, c, s) else direct_from f n s m (Suc i) fs c))"
    by (rule stage_bind [OF stage_visit [OF Suc.prems(1)] conjI [OF g(1,4)] Suc.IH]) (use Suc.prems(2) in simp_all)
  then show ?case using a sane by simp
qed

lemma stage_loop1:
  assumes "at_stage k L s0 m i fs s" "\<And>j. j < n \<Longrightarrow> fpath (per_block s0) (i + j) = (r, ks @ [l + j])"
  shows "stage_ok k L s0 m i c (i + n) (loop1_from os f n s (node (vview ct s0) (m_addr m) (r, ks)) l fs c)"
  using assms
proof (induction n arbitrary: i fs s c l)
  case 0
  then show ?case by (simp add: stage_none)
next
  case (Suc n)
  have g: "bgood os ct k s L" "file_ok ct s0 m L" "i < nblks s0 m" "vsame ct s0 s"
    "unat fs = unat (di_filesize (mi_dinode m)) - i * unat (v_blksize s0)" "ok s0"
    using Suc.prems(1) by (auto simp: at_stage_def)
  note e = vrest_frest_geom [OF vsameD(2) [OF g(4)]] and v = vsameD [OF g(4)]
  have fp: "fpath (per_block s0) i = (r, ks @ [l])" using Suc.prems(2) [of 0] by simp
  have t: "tree_ok ct s (m_addr m) (m_pos s0 m) L" using file_okD(1) [OF g(2)] tree_vsame [OF g(4)] by simp
  have p: "(r, ks @ [l]) \<in> m_pos s0 m" using data_node_in [OF g(2,3)] fp by simp
  obtain s1 where l: "ufs_datablock_link os s (node (vview ct s0) (m_addr m) (r, ks)) l = Some (data_node ct s0 m i, s1)"
    "bgood os ct k s1 L" "vsame ct s s1"
    using tree_link [OF g(1) t p] v(1) fp by metis
  have vs: "vsame ct s0 s1" by (rule vsame_trans [OF g(4) l(3)])
  note e1 = vrest_frest_geom [OF vsameD(2) [OF vs]]
  have sane: "ufs_datablock_number_sanity s1 (data_node ct s0 m i)" using data_node_sane(1) [OF g(2,3)] e1(2) by simp
  have at: "at_stage k L s0 m i fs s1" using g l(2) vs by (simp add: at_stage_def)
  have "stage_ok k L s0 m i c (Suc i + n) (visit f s1 (data_node ct s0 m i) fs c \<bind>
      (\<lambda>(ret, fs, c, s). if ret \<noteq> RcOk then Some (ret, fs, c, s)
        else loop1_from os f n s (node (vview ct s0) (m_addr m) (r, ks)) (Suc l) fs c))"
    by (rule stage_bind [OF stage_visit [OF at] conjI [OF g(2,6)] Suc.IH]) (use Suc.prems(2) [of "Suc j" for j] in simp_all)
  then show ?case using l(1) sane by simp
qed

lemma inner_link:
  assumes "at_stage k L s0 m i fs s" "fpath (per_block s0) i = (r, ks @ l # ks')"
  obtains s1 where
    "ufs_datablock_link os s (node (vview ct s0) (m_addr m) (r, ks)) l = Some (node (vview ct s0) (m_addr m) (r, ks @ [l]), s1)"
    "ufs_datablock_number_sanity s1 (node (vview ct s0) (m_addr m) (r, ks @ [l]))" "at_stage k L s0 m i fs s1"
proof -
  have g: "bgood os ct k s L" "file_ok ct s0 m L" "i < nblks s0 m" "vsame ct s0 s" "ok s0"
    using assms(1) by (auto simp: at_stage_def)
  note v = vsameD [OF g(4)]
  note t0 = file_okD(1) [OF g(2)]
  have t: "tree_ok ct s (m_addr m) (m_pos s0 m) L" using t0 tree_vsame [OF g(4)] by simp
  have "(r, ks @ l # ks') \<in> m_pos s0 m" using data_node_in [OF g(2,3)] assms(2) by simp
  from tree_prefix [OF t this, of "length ks + 1"] have p: "(r, ks @ [l]) \<in> m_pos s0 m" by simp
  obtain s1 where l: "ufs_datablock_link os s (node (vview ct s0) (m_addr m) (r, ks)) l
      = Some (node (vview ct s0) (m_addr m) (r, ks @ [l]), s1)" "bgood os ct k s1 L" "vsame ct s s1"
    using tree_link [OF g(1) t p] v(1) by metis
  have vs: "vsame ct s0 s1" by (rule vsame_trans [OF g(4) l(3)])
  show ?thesis
    by (rule that [OF l(1)]) (use tree_okD(5) [OF t0 p] vrest_frest_geom(2) [OF vsameD(2) [OF vs]] assms(1) l(2) vs
      in \<open>simp_all add: at_stage_def\<close>)
qed

lemma at_stage_per_block: "at_stage k L s0 m i fs s \<Longrightarrow> per_block s = per_block s0"
  unfolding at_stage_def by (blast dest: vsameD(2) vrest_frest_geom(1))

lemma stage_loop2:
  assumes "at_stage k L s0 m i fs s" "0 < per_block s0"
    "\<And>j b. j < n \<Longrightarrow> b < per_block s0 \<Longrightarrow> fpath (per_block s0) (i + j * per_block s0 + b) = (r, ks @ [l + j, b])"
  shows "stage_ok k L s0 m i c (i + n * per_block s0) (loop2_from os f n s (node (vview ct s0) (m_addr m) (r, ks)) l fs c)"
  using assms
proof (induction n arbitrary: i fs s c l)
  case 0
  then show ?case by (simp add: stage_none)
next
  case (Suc n)
  let ?l = "node (vview ct s0) (m_addr m)"
  have m: "file_ok ct s0 m L \<and> ok s0" using Suc.prems(1) by (simp add: at_stage_def)
  have fp: "fpath (per_block s0) (i + b) = (r, (ks @ [l]) @ [b])" if "b < per_block s0" for b
    using Suc.prems(3) [of 0 b] that by simp
  obtain s1 where s1: "ufs_datablock_link os s (?l (r, ks)) l = Some (?l (r, ks @ [l]), s1)"
    "ufs_datablock_number_sanity s1 (?l (r, ks @ [l]))" "at_stage k L s0 m i fs s1"
    by (rule inner_link [OF Suc.prems(1), of r ks l "[0]"]) (use fp [of 0] Suc.prems(2) in auto)
  have one: "stage_ok k L s0 m i c (i + per_block s0) (ufs_datablock_loop1 os f s1 (?l (r, ks @ [l])) fs c)"
    unfolding ufs_datablock_loop1_def at_stage_per_block [OF s1(3)]
    by (rule stage_loop1 [OF s1(3)]) (use fp in simp)
  have "stage_ok k L s0 m i c (i + per_block s0 + n * per_block s0) (ufs_datablock_loop1 os f s1 (?l (r, ks @ [l])) fs c \<bind>
      (\<lambda>(ret, fs, c, s). if ret \<noteq> RcOk then Some (ret, fs, c, s) else loop2_from os f n s (?l (r, ks)) (Suc l) fs c))"
    by (rule stage_bind [OF one m Suc.IH]) (use Suc.prems(2) Suc.prems(3) [of "Suc j" for j] in \<open>simp_all add: ac_simps\<close>)
  then show ?case using s1(1,2) by (simp add: add.assoc)
qed

lemma stage_loop3:
  assumes "at_stage k L s0 m i fs s" "0 < per_block s0"
    "\<And>j a b. j < n \<Longrightarrow> a < per_block s0 \<Longrightarrow> b < per_block s0 \<Longrightarrow>
      fpath (per_block s0) (i + j * (per_block s0 * per_block s0) + a * per_block s0 + b) = (r, ks @ [l + j, a, b])"
  shows "stage_ok k L s0 m i c (i + n * (per_block s0 * per_block s0))
    (loop3_from os f n s (node (vview ct s0) (m_addr m) (r, ks)) l fs c)"
  using assms
proof (induction n arbitrary: i fs s c l)
  case 0
  then show ?case by (simp add: stage_none)
next
  case (Suc n)
  let ?l = "node (vview ct s0) (m_addr m)" and ?n = "per_block s0"
  have m: "file_ok ct s0 m L \<and> ok s0" using Suc.prems(1) by (simp add: at_stage_def)
  have fp: "fpath ?n (i + a * ?n + b) = (r, (ks @ [l]) @ [a, b])" if "a < ?n" "b < ?n" for a b
    using Suc.prems(3) [of 0 a b] that by simp
  obtain s1 where s1: "ufs_datablock_link os s (?l (r, ks)) l = Some (?l (r, ks @ [l]), s1)"
    "ufs_datablock_number_sanity s1 (?l (r, ks @ [l]))" "at_stage k L s0 m i fs s1"
    by (rule inner_link [OF Suc.prems(1), of r ks l "[0, 0]"]) (use fp [of 0 0] Suc.prems(2) in auto)
  have one: "stage_ok k L s0 m i c (i + ?n * ?n) (ufs_datablock_loop2 os f s1 (?l (r, ks @ [l])) fs c)"
    unfolding ufs_datablock_loop2_def at_stage_per_block [OF s1(3)]
    by (rule stage_loop2 [OF s1(3) Suc.prems(2)]) (use fp in simp)
  have "stage_ok k L s0 m i c (i + ?n * ?n + n * (?n * ?n)) (ufs_datablock_loop2 os f s1 (?l (r, ks @ [l])) fs c \<bind>
      (\<lambda>(ret, fs, c, s). if ret \<noteq> RcOk then Some (ret, fs, c, s) else loop3_from os f n s (?l (r, ks)) (Suc l) fs c))"
    by (rule stage_bind [OF one m Suc.IH]) (use Suc.prems(2) Suc.prems(3) [of "Suc j" for j] in \<open>simp_all add: algebra_simps\<close>)
  then show ?case using s1(1,2) by (simp add: add.assoc)
qed

text \<open>The end of the iteration: a stage that cannot go on has the result.\<close>

definition ends :: "nat \<Rightarrow> u32 list \<Rightarrow> 'd vol \<Rightarrow> minode \<Rightarrow> nat \<Rightarrow> 'c \<Rightarrow> (rc \<times> 'c \<times> 'd vol) option \<Rightarrow> bool" where
  "ends k L s0 m i c res \<longleftrightarrow> (\<exists>r c' s'. res = Some (r, c', s') \<and> bgood os ct k s' L \<and> vsame ct s0 s'
     \<and> fold_parts g (drop i (file_pieces ct s0 m)) c = (r, c'))"

lemma ends_bind:
  assumes "stage_ok k L s0 m i c i1 res" "file_ok ct s0 m L \<and> ok s0"
    "\<And>fs c' s'. at_stage k L s0 m i1 fs s' \<Longrightarrow> ends k L s0 m i1 c' (h fs c' s')"
  shows "ends k L s0 m i c (res \<bind> (\<lambda>(ret, fs, c, s). if ret \<noteq> RcOk then Some (ret, c, s) else h fs c s))"
proof -
  obtain r fs c' s' where res: "res = Some (r, fs, c', s')" "bgood os ct k s' L" "vsame ct s0 s'"
    and q: "if r = RcOk
        then i1 < nblks s0 m \<and> unat fs = unat (di_filesize (mi_dinode m)) - i1 * unat (v_blksize s0)
          \<and> fold_parts g (drop i (file_pieces ct s0 m)) c = fold_parts g (drop i1 (file_pieces ct s0 m)) c'
        else fold_parts g (drop i (file_pieces ct s0 m)) c = (r, c')"
    using assms(1) unfolding stage_ok_def by blast
  show ?thesis
  proof (cases "r = RcOk")
    case True
    then have "ends k L s0 m i1 c' (h fs c' s')" using assms(2,3) res q by (simp add: at_stage_def)
    moreover have "ends k L s0 m i c x = ends k L s0 m i1 c' x" for x using True q by (simp add: ends_def)
    ultimately show ?thesis using True res(1) by simp
  next
    case False
    then show ?thesis using res q by (simp add: ends_def)
  qed
qed

lemma foreach_fold:
  assumes g: "bgood os ct k s L" and m: "file_ok ct s m L" and b: "good_blksize s" and ok: "ok s"
  obtains s' where "ufs_datablock_foreach os f s m c
      = Some (fst (fold_parts g (file_pieces ct s m) c), snd (fold_parts g (file_pieces ct s m) c), s')"
    "bgood os ct k s' L" "vsame ct s s'"
proof -
  let ?n = "per_block s" and ?v = "node (vview ct s) (m_addr m)"
  have pb: "0 < ?n" using per_block_bound [OF g] by simp
  have len: "length (m_addr m) = 19" by (rule tree_okD(1) [OF file_okD(1) [OF m]])
  have a: "get_addr m i = Some (?v (i, []))" if "i < 19" for i using that len by (simp add: get_addr_def nth_opt_def)
  have sane: "ufs_datablock_number_sanity s' (?v (r, []))"
    if "at_stage k L s m i fs s'" "fpath ?n i = (r, ks)" for i fs s' r ks
  proof -
    have at: "file_ok ct s m L" "i < nblks s m" "vsame ct s s'" using that(1) by (auto simp: at_stage_def)
    have "(r, []) \<in> m_pos s m"
      using tree_prefix [OF file_okD(1) [OF m], of r ks 0] data_node_in [OF at(1,2)] that(2) by simp
    from tree_okD(5) [OF file_okD(1) [OF m] this] show ?thesis
      using vrest_frest_geom(2) [OF vsameD(2) [OF at(3)]] by simp
  qed
  have p1: "fpath ?n (16 + j) = (16, [] @ [0 + j])" if "j < ?n" for j using that fpath_1 by simp
  have p2: "fpath ?n (16 + ?n + j * ?n + b) = (17, [] @ [0 + j, b])" if "j < ?n" "b < ?n" for j b
  proof -
    have "Suc j * ?n \<le> ?n * ?n" using that(1) by (intro mult_le_mono1) simp
    then have "j * ?n + b < ?n * ?n" using that(2) by simp
    then show ?thesis using fpath_2 [of "j * ?n + b" ?n] that(2) pb by (simp add: add.assoc)
  qed
  have p3: "fpath ?n (16 + ?n + ?n * ?n + j * (?n * ?n) + a * ?n + b) = (18, [] @ [0 + j, a, b])"
    if "j < ?n" "a < ?n" "b < ?n" for j a b
  proof -
    let ?t = "j * (?n * ?n) + a * ?n + b"
    have "j = ?t div (?n * ?n) \<and> a = ?t div ?n mod ?n \<and> b = ?t mod ?n" using digits3 [OF that(2,3), of j ?t] by blast
    then show ?thesis using fpath_3 [of ?n ?t] by (simp only: add.assoc append_Nil add_0)
  qed
  show ?thesis
  proof (cases "di_filesize (mi_dinode m) = 0")
    case True
    then have "ufs_datablock_foreach os f s m c = Some (RcIter ITER_END, c, s)" "file_pieces ct s m = []"
      using bgood_bs [OF g] by (simp_all add: ufs_datablock_foreach_def file_pieces_def)
    then show ?thesis using that [of s] g by simp
  next
    case False
    have "0 < unat (di_filesize (mi_dinode m))" using False by (simp add: unat_gt_0)
    then have "at_stage k L s m 0 (di_filesize (mi_dinode m)) s"
      using g m ok bgood_bs [OF g] blocks_pos by (simp add: at_stage_def)
    note d = stage_direct [OF this, of 16 c, simplified]
    have "ends k L s m 0 c (ufs_datablock_foreach os f s m c)"
      unfolding ufs_datablock_foreach_def Let_def if_not_P [OF False]
    proof (rule ends_bind [OF d conjI [OF m ok]], goal_cases direct)
      case (direct fs1 c1 s1)
      have f1: "fpath ?n 16 = (16, [0])" using p1 [OF pb] by simp
      have st: "stage_ok k L s m 16 c1 (16 + ?n) (ufs_datablock_loop1 os f s1 (?v (16, [])) fs1 c1)"
        unfolding ufs_datablock_loop1_def at_stage_per_block [OF direct]
        by (rule stage_loop1 [OF direct]) (rule p1)
      have "ends k L s m 16 c1 (ufs_datablock_loop1 os f s1 (?v (16, [])) fs1 c1 \<bind>
          (\<lambda>(ret, fs, ctx, s). if ret \<noteq> RcOk then Some (ret, ctx, s) else
             get_addr m 17 \<bind> (\<lambda>blk. if \<not> ufs_datablock_number_sanity s blk then Some (RcErr EIO, ctx, s) else
               ufs_datablock_loop2 os f s blk fs ctx \<bind> (\<lambda>(ret, fs, ctx, s). if ret \<noteq> RcOk then Some (ret, ctx, s) else
                 get_addr m 18 \<bind> (\<lambda>blk. if \<not> ufs_datablock_number_sanity s blk then Some (RcErr EIO, ctx, s) else
                   loop3_from os f (per_block s) s blk 0 fs ctx \<bind>
                     (\<lambda>(ret, fs, ctx, s). if ret \<noteq> RcOk then Some (ret, ctx, s) else Some (RcErr EFBIG, ctx, s)))))))"
      proof (rule ends_bind [OF st conjI [OF m ok]], goal_cases single)
        case (single fs2 c2 s2)
        have f2: "fpath ?n (16 + ?n) = (17, [0, 0])" using p2 [OF pb pb] by simp
        have st: "stage_ok k L s m (16 + ?n) c2 (16 + ?n + ?n * ?n) (ufs_datablock_loop2 os f s2 (?v (17, [])) fs2 c2)"
          unfolding ufs_datablock_loop2_def at_stage_per_block [OF single]
          by (rule stage_loop2 [OF single pb]) (rule p2)
        have "ends k L s m (16 + ?n) c2 (ufs_datablock_loop2 os f s2 (?v (17, [])) fs2 c2 \<bind>
            (\<lambda>(ret, fs, ctx, s). if ret \<noteq> RcOk then Some (ret, ctx, s) else
              get_addr m 18 \<bind> (\<lambda>blk. if \<not> ufs_datablock_number_sanity s blk then Some (RcErr EIO, ctx, s) else
                loop3_from os f (per_block s) s blk 0 fs ctx \<bind>
                  (\<lambda>(ret, fs, ctx, s). if ret \<noteq> RcOk then Some (ret, ctx, s) else Some (RcErr EFBIG, ctx, s)))))"
        proof (rule ends_bind [OF st conjI [OF m ok]], goal_cases double)
          case (double fs3 c3 s3)
          have f3: "fpath ?n (16 + ?n + ?n * ?n) = (18, [0, 0, 0])" using p3 [OF pb pb pb] by simp
          have st: "stage_ok k L s m (16 + ?n + ?n * ?n) c3 (16 + ?n + ?n * ?n + ?n * (?n * ?n))
              (loop3_from os f (per_block s3) s3 (?v (18, [])) 0 fs3 c3)"
            unfolding at_stage_per_block [OF double]
            by (rule stage_loop3 [OF double pb]) (rule p3)
          have "ends k L s m (16 + ?n + ?n * ?n) c3 (loop3_from os f (per_block s3) s3 (?v (18, [])) 0 fs3 c3 \<bind>
              (\<lambda>(ret, fs, ctx, s). if ret \<noteq> RcOk then Some (ret, ctx, s) else Some (RcErr EFBIG, ctx, s)))"
            by (rule ends_bind [OF st conjI [OF m ok]])
              (use file_okD(5) [OF m] in \<open>simp add: at_stage_def max_blocks_def ac_simps\<close>)
          then show ?case using a [of 18] sane [OF double f3] by simp
        qed
        then show ?case using a [of 17] sane [OF single f2] by simp
      qed
      then show ?case using a [of 16] sane [OF direct f1] by simp
    qed
    then show ?thesis using that by (auto simp: ends_def)
  qed
qed

end

section \<open>The entries of a directory\<close>

definition dir_entries :: "byte list \<Rightarrow> dirent list" where
  "dir_entries b = map (\<lambda>i. dec_dirent (slice (64 * i) 64 b)) [0 ..< length b div 64]"

lemma dir_entries_Nil [simp]: "dir_entries [] = []"
  by (simp add: dir_entries_def)

lemma length_dir_entries [simp]: "length (dir_entries b) = length b div 64"
  by (simp add: dir_entries_def)

lemma dir_entries_append:
  assumes "length a = 64 * n"
  shows "dir_entries (a @ b) = dir_entries a @ dir_entries b"
proof (rule nth_equalityI)
  show l: "length (dir_entries (a @ b)) = length (dir_entries a @ dir_entries b)" using assms by simp
  fix i assume "i < length (dir_entries (a @ b))"
  then have i: "i < n + length b div 64" using assms by simp
  show "dir_entries (a @ b) ! i = (dir_entries a @ dir_entries b) ! i"
  proof (cases "i < n")
    case True
    then show ?thesis using assms i by (simp add: dir_entries_def nth_append slice_append_left)
  next
    case False
    then have "64 * i = length a + 64 * (i - n)" using assms by (simp add: algebra_simps)
    then have "slice (64 * i) 64 (a @ b) = slice (64 * (i - n)) 64 b" by (simp add: slice_append_right)
    then show ?thesis using False assms i by (simp add: dir_entries_def nth_append)
  qed
qed

lemma dir_entries_concat:
  assumes "\<forall>x \<in> set (butlast bs). 64 dvd length x"
  shows "dir_entries (concat bs) = concat (map dir_entries bs)"
  using assms
proof (induction bs)
  case (Cons b bs)
  show ?case
  proof (cases "bs = []")
    case False
    then obtain n where "length b = 64 * n" using Cons.prems by (auto simp: dvd_def)
    then show ?thesis using Cons False by (simp add: dir_entries_append)
  qed simp
qed simp

text \<open>The entries of the directory \<open>m\<close>.\<close>

definition entries_of :: "('d \<Rightarrow> u32 \<Rightarrow> block) \<Rightarrow> 'd vol \<Rightarrow> minode \<Rightarrow> dirent list" where
  "entries_of ct s m = dir_entries (file_bytes ct s m)"

lemma file_part_length:
  assumes "bgood os ct k s L" "file_ok ct s m L" "i < nblks s m"
  shows "length (file_part ct s m i) = min (unat (v_blksize s)) (unat (di_filesize (mi_dinode m)) - i * unat (v_blksize s))"
  using file_block_length [OF assms] by (simp add: file_part_def min.commute)

lemma blksize_entries: "bgood os ct k s L \<Longrightarrow> 64 dvd unat (v_blksize s)"
proof -
  assume "bgood os ct k s L"
  then have g: "unat (v_blksize s) = 2 ^ unat (sb_blksize_shift (v_sb s))" "6 \<le> unat (sb_blksize_shift (v_sb s))"
    by (auto simp: bgood_def geom_def)
  have "(2 :: nat) ^ 6 dvd 2 ^ unat (sb_blksize_shift (v_sb s))" using g(2) by (rule le_imp_power_dvd)
  then show ?thesis using g(1) by simp
qed

lemma entries_parts:
  assumes "bgood os ct k s L" "file_ok ct s m L"
  shows "entries_of ct s m = concat (map dir_entries (file_parts ct s m))"
  unfolding entries_of_def file_bytes_parts [OF assms]
proof (rule dir_entries_concat, rule ballI)
  fix x assume "x \<in> set (butlast (file_parts ct s m))"
  then obtain i where "i < nblks s m - 1" and x: "x = file_part ct s m i"
    by (auto simp: file_parts_def in_set_conv_nth nth_butlast)
  then have i: "Suc i < nblks s m" by simp
  have "\<not> unat (di_filesize (mi_dinode m)) \<le> Suc i * unat (v_blksize s)"
    using blocks_le [OF bgood_bs [OF assms(1)], of "unat (di_filesize (mi_dinode m))" "Suc i"] i(1) by auto
  then have "length x = unat (v_blksize s)" using file_part_length [OF assms, of i] i x by simp
  then show "64 dvd length x" using blksize_entries [OF assms(1)] by simp
qed

section \<open>Searching a directory\<close>

lemma dir_scan_find:
  assumes "64 * (i + n) \<le> length b"
  shows "\<exists>r. dir_scan P b n i = Some r
    \<and> map_option snd r = find P (map (\<lambda>i. dec_dirent (slice (64 * i) 64 b)) [i ..< i + n])"
  using assms
proof (induction n arbitrary: i)
  case (Suc n)
  then have "entry_at b i = Some (dec_dirent (slice (64 * i) 64 b))" by (simp add: entry_at_def)
  moreover have "[i ..< i + Suc n] = i # [Suc i ..< Suc i + n]" by (simp add: upt_conv_Cons)
  ultimately show ?case using Suc.IH [of "Suc i"] Suc.prems by (auto simp del: upt_Suc)
qed simp

lemma dir_scan_entries:
  assumes "unat (sz :: u32) \<le> length b"
  obtains r where "dir_scan P b (unat (sz div 64)) 0 = Some r"
    "find P (dir_entries (take (unat sz) b)) = map_option snd r"
proof -
  have n: "unat (sz div 64) = unat sz div 64" by (simp add: unat_div)
  have "64 * (0 + unat sz div 64) \<le> length b" using assms by simp
  moreover have "map (\<lambda>i. dec_dirent (slice (64 * i) 64 b)) [0 ..< 0 + unat sz div 64] = dir_entries (take (unat sz) b)"
    using assms by (auto simp: dir_entries_def slice_take)
  ultimately show ?thesis using dir_scan_find [of 0 "unat sz div 64" b P] that n by (metis add_0)
qed

definition search :: "(dirent \<Rightarrow> bool) \<Rightarrow> (dirent \<Rightarrow> 'c \<Rightarrow> 'c) \<Rightarrow> byte list \<Rightarrow> 'c \<Rightarrow> rc \<times> 'c" where
  "search P h b c = (case find P (dir_entries b) of None \<Rightarrow> (RcOk, c) | Some e \<Rightarrow> (RcIter ITER_BREAK, h e c))"

lemma find_append: "find P (xs @ ys) = (case find P xs of None \<Rightarrow> find P ys | Some x \<Rightarrow> Some x)"
  by (induction xs) auto

lemma fold_search:
  "fold_parts (\<lambda>p. search P h (snd (snd p))) ps c = (case find P (concat (map dir_entries (map (snd \<circ> snd) ps))) of
     None \<Rightarrow> (RcIter ITER_END, c) | Some e \<Rightarrow> (RcIter ITER_BREAK, h e c))"
  by (induction ps) (auto simp: search_def find_append split: option.splits)

lemma on_block_step:
  assumes "bgood os ct k s L" "ufs_datablock_number_sanity s b"
    "\<And>s'. vsame ct s s' \<Longrightarrow> body b sz (vview ct s b) c s' = Some (r, vview ct s b, c', s')"
  shows "\<exists>s'. on_block os e body s c b sz = Some (r, c', s') \<and> bgood os ct k s' L \<and> vsame ct s s'"
proof -
  have vg: "vgood os ct (v_lim s) k s" using assms(1) by (simp add: bgood_def fgood_def)
  obtain buf s1 s2 where f: "ufs_disk_get_buf os s = (Some buf, s1)"
    "ufs_vdisk_read os s1 buf b = (RcOk, vview ct s b, s2)" "vgood os ct (v_lim s) k s2" "vsame ct s s1" "vsame ct s s2"
    "length (vview ct s b) = unat (v_blksize s2)" by (rule good_fetch [OF vg sane_lim [OF assms(2)]])
  note fr = good_free_buf [OF f(3,6)]
  have v: "vsame ct s (ufs_disk_free_buf os s2 (vview ct s b))" by (rule vsame_trans [OF f(5) fr(2)])
  have "on_block os e body s c b sz = Some (r, c', ufs_disk_free_buf os s2 (vview ct s b))"
    using f(1,2) assms(3) [OF f(5)] by (simp add: on_block_def)
  then show ?thesis using bgood_vsame [OF assms(1) fr(1) v] v by blast
qed

interpretation by_name: block_fold os ct "lookup_subr os name"
    "\<lambda>p. search (\<lambda>e. \<not> de_inode_number e < 1 \<and> same_name name e) (\<lambda>e _. de_inode_number e) (snd (snd p))" "\<lambda>_. True"
    for os ct name
proof (unfold_locales, unfold lookup_subr_def snd_conv, rule on_block_step, assumption, assumption)
  fix k s L b sz c s'
  assume a: "bgood os ct k s L" "ufs_datablock_number_sanity s b" "unat (sz :: u32) \<le> unat (v_blksize s)"
  let ?P = "\<lambda>e. \<not> de_inode_number e < 1 \<and> same_name name e" and ?b = "vview ct s b"
  have "unat sz \<le> length ?b" using a(3) block_length [OF a(1,2)] by simp
  then obtain r where "dir_scan ?P ?b (unat (sz div 64)) 0 = Some r" "find ?P (dir_entries (take (unat sz) ?b)) = map_option snd r"
    by (rule dir_scan_entries)
  then show "dir_scan ?P ?b (unat (sz div 64)) 0 \<bind> (\<lambda>r. case r of None \<Rightarrow> Some (RcOk, ?b, c, s')
      | Some (_, e) \<Rightarrow> Some (RcIter ITER_BREAK, ?b, de_inode_number e, s'))
    = Some (fst (search ?P (\<lambda>e _. de_inode_number e) (take (unat sz) ?b) c), ?b,
        snd (search ?P (\<lambda>e _. de_inode_number e) (take (unat sz) ?b) c), s')"
    by (cases r) (auto simp: search_def)
qed

interpretation by_number: block_fold os ct "lookup_by_number_subr os ino"
    "\<lambda>p. search (\<lambda>e. de_inode_number e = ino) (\<lambda>e. map_option (\<lambda>_. ufs_dirent_filename (de_name e))) (snd (snd p))"
    "\<lambda>_. True" for os ct ino
proof (unfold_locales, unfold lookup_by_number_subr_def snd_conv, rule on_block_step, assumption, assumption)
  fix k s L b sz c s'
  assume a: "bgood os ct k s L" "ufs_datablock_number_sanity s b" "unat (sz :: u32) \<le> unat (v_blksize s)"
  let ?P = "\<lambda>e. de_inode_number e = ino" and ?b = "vview ct s b"
    and ?h = "\<lambda>e. map_option (\<lambda>_ :: byte list. ufs_dirent_filename (de_name e))"
  have "unat sz \<le> length ?b" using a(3) block_length [OF a(1,2)] by simp
  then obtain r where "dir_scan ?P ?b (unat (sz div 64)) 0 = Some r" "find ?P (dir_entries (take (unat sz) ?b)) = map_option snd r"
    by (rule dir_scan_entries)
  then show "dir_scan ?P ?b (unat (sz div 64)) 0 \<bind> (\<lambda>r. case r of None \<Rightarrow> Some (RcOk, ?b, c, s')
      | Some (_, e) \<Rightarrow> Some (RcIter ITER_BREAK, ?b, ?h e c, s'))
    = Some (fst (search ?P ?h (take (unat sz) ?b) c), ?b, snd (search ?P ?h (take (unat sz) ?b) c), s')"
    by (cases r) (auto simp: search_def)
qed

text \<open>What a directory says of a name and of an inode number.\<close>

definition named :: "byte list \<Rightarrow> dirent \<Rightarrow> bool" where
  "named name e \<longleftrightarrow> de_inode_number e \<noteq> 0 \<and> same_name (lookup_name name) e"

lemma lookup_by_name_ok:
  assumes "bgood os ct k s L" "file_ok ct s m L" "good_blksize s" "ufs_inode_isdir (mi_dinode m)"
  obtains s' where "ufs_file_lookup_by_name os s m name ino = Some (case find (named name) (entries_of ct s m) of
      None \<Rightarrow> (RcErr ENOENT, ino, s') | Some e \<Rightarrow> (RcOk, de_inode_number e, s'))"
    "bgood os ct k s' L" "vsame ct s s'"
proof -
  have p: "(\<lambda>e. \<not> de_inode_number e < 1 \<and> same_name (lookup_name name) e) = named name"
    by (simp add: named_def fun_eq_iff)
  obtain s' where s': "ufs_datablock_foreach os (lookup_subr os (lookup_name name)) s m 0
      = Some (fst (fold_parts (\<lambda>p. search (named name) (\<lambda>e _. de_inode_number e) (snd (snd p))) (file_pieces ct s m) 0),
          snd (fold_parts (\<lambda>p. search (named name) (\<lambda>e _. de_inode_number e) (snd (snd p))) (file_pieces ct s m) 0), s')"
    "bgood os ct k s' L" "vsame ct s s'"
    using by_name.foreach_fold [OF assms(1-3) TrueI, of "lookup_name name" 0] unfolding p by blast
  show ?thesis
    by (rule that [OF _ s'(2,3)])
      (use s'(1) assms(4) in \<open>simp add: ufs_file_lookup_by_name_def fold_search entries_parts [OF assms(1,2)] split: option.splits\<close>)
qed

lemma lookup_by_number_ok:
  assumes "bgood os ct k s L" "file_ok ct s m L" "good_blksize s"
  obtains s' where "ufs_file_lookup_by_number os s m ino buf
      = Some (case find (\<lambda>e. de_inode_number e = ino) (entries_of ct s m) of
          None \<Rightarrow> (False, buf, s') | Some e \<Rightarrow> (True, map_option (\<lambda>_. ufs_dirent_filename (de_name e)) buf, s'))"
    "bgood os ct k s' L" "vsame ct s s'"
proof -
  let ?g = "\<lambda>p :: u32 \<times> block \<times> byte list.
    search (\<lambda>e. de_inode_number e = ino) (\<lambda>e. map_option (\<lambda>_ :: byte list. ufs_dirent_filename (de_name e))) (snd (snd p))"
  obtain s' where s': "ufs_datablock_foreach os (lookup_by_number_subr os ino) s m buf
      = Some (fst (fold_parts ?g (file_pieces ct s m) buf), snd (fold_parts ?g (file_pieces ct s m) buf), s')"
    "bgood os ct k s' L" "vsame ct s s'"
    using by_number.foreach_fold [OF assms TrueI] by blast
  show ?thesis
    by (rule that [OF _ s'(2,3)])
      (use s'(1) in \<open>simp add: ufs_file_lookup_by_number_def fold_search entries_parts [OF assms(1,2)] split: option.splits\<close>)
qed

end
