(* ===== verification/Dir_Add.thy ===== *)
theory Dir_Add
  imports Entries
begin

text \<open>
  Adding an entry to a directory (\<^verbatim>\<open>src/ufsdradd.c\<close>): the list of entries grows by the new one
  at its end, and a lookup of its name then finds it unless an older entry has the name.
\<close>

lemma residue_unat:
  assumes "geom s" "0 < unat x"
  shows "unat (ufs_residue x s) = unat x - (unat x - 1) div unat (v_blksize s) * unat (v_blksize s)"
proof -
  let ?b = "unat (sb_blksize_shift (v_sb s))"
  have bs: "unat (v_blksize s) = 2 ^ ?b" "?b \<le> 15" using assms(1) by (simp_all add: geom_def)
  have p: "unat (x - 1) = unat x - 1" using unat_sub32 [of 1 x] assms(2) by simp
  have e: "unat (push_bit ?b (drop_bit ?b (x - 1))) = (unat x - 1) div 2 ^ ?b * 2 ^ ?b"
    using unat_drop_push [of ?b "x - 1"] bs(2) p by simp
  have "(unat x - 1) div 2 ^ ?b * 2 ^ ?b \<le> unat x" using div_times_less_eq_dividend [of "unat x - 1" "2 ^ ?b"] by linarith
  then have "unat (x - push_bit ?b (drop_bit ?b (x - 1))) = unat x - (unat x - 1) div 2 ^ ?b * 2 ^ ?b"
    using unat_sub32 [of "push_bit ?b (drop_bit ?b (x - 1))" x] unfolding e by simp
  then show ?thesis by (simp add: ufs_residue_def bs(1) Let_def)
qed

text \<open>The new entry: the name in bytes 0 to 58, its last byte as it was in the block.\<close>

definition new_entry :: "u32 \<Rightarrow> byte list \<Rightarrow> byte \<Rightarrow> dirent" where
  "new_entry ino filename x = \<lparr>de_inode_number = ino, de_name = take UFS_NAME_MAX filename @ [x]\<rparr>"

lemma enc_new_entry [simp]: "length filename = 60 \<Longrightarrow> length (enc_dirent (new_entry ino filename x)) = 64"
  by (simp add: enc_dirent_def new_entry_def UFS_NAME_MAX_def)

lemma dec_enc_dirent: "length (de_name e) = 60 \<Longrightarrow> dec_dirent (enc_dirent e) = e"
  by (simp add: dec_dirent_def enc_dirent_def get32_def slice_append_left slice_append_right slice_def)

lemma put_dirent_ok:
  assumes "64 * n + 64 \<le> length buf" "length filename = 60"
  obtains x where "put_dirent buf n ino filename = Some (blit (64 * n) (enc_dirent (new_entry ino filename x)) buf)"
proof -
  let ?e = "dec_dirent (slice (64 * n) 64 buf)"
  have l: "length (de_name ?e) = 60" using assms(1) by (simp add: dec_dirent_def slice_def)
  have "drop 59 (de_name ?e) = [de_name ?e ! 59]" using l by (simp add: list_eq_iff_nth_eq)
  then have "blit 0 (take UFS_NAME_MAX filename) (de_name ?e) = take UFS_NAME_MAX filename @ [de_name ?e ! 59]"
    using assms(2) by (simp add: blit_def UFS_NAME_MAX_def)
  then show ?thesis
    using that assms by (simp add: put_dirent_def entry_at_def set_entry_def new_entry_def)
qed

lemma entries_snoc:
  assumes "length b = 64 * n" "length (de_name e) = 60"
  shows "dir_entries (b @ enc_dirent e) = dir_entries b @ [e]"
proof -
  have "length (enc_dirent e) = 64" using assms(2) by (simp add: enc_dirent_def)
  then have "dir_entries (enc_dirent e) = [e]"
    using dec_enc_dirent [OF assms(2)] by (simp add: dir_entries_def slice_def)
  then show ?thesis using dir_entries_append [OF assms(1)] by simp
qed

lemma put_dirent_fits:
  assumes "64 dvd F" "64 dvd (B :: nat)" "0 < B"
  obtains n where "(F + 64 - 1) div B * B + 64 * n = F" "64 * n + 64 \<le> B"
proof -
  obtain a b where ab: "F = 64 * a" "B = 64 * b" using assms by (auto simp: dvd_def)
  have "(64 * a + 64 - 1) div (64 * b) = (64 * a + 63) div 64 div b" by (simp add: div_mult2_eq)
  also have "(64 * a + 63) div 64 = a" by simp
  finally have i: "(F + 64 - 1) div B = a div b" by (simp add: ab)
  have "a mod b < b" using ab(2) assms(3) by simp
  then have "64 * (a mod b) + 64 \<le> B" using ab(2) by simp
  moreover have "(F + 64 - 1) div B * B + 64 * (a mod b) = F"
  proof -
    have "a div b * (64 * b) + 64 * (a mod b) = 64 * (a div b * b + a mod b)" by (simp only: add_mult_distrib2 mult.left_commute)
    then have "a div b * B + 64 * (a mod b) = F" unfolding ab by simp
    then show ?thesis unfolding i .
  qed
  ultimately show ?thesis using that by blast
qed

lemma add_dirent_ok:
  assumes g: "bgood os ct (k + 9) s L" and m: "v_mstore s p = Some m" and f: "file_ok ct s m L" and b: "good_blksize s"
    and F: "64 dvd unat (di_filesize (mi_dinode m))" "unat (di_filesize (mi_dinode m)) + 64 \<le> 2 ^ 31"
    and lim: "nblks s m < max_blocks (per_block s)" and L: "4 \<le> length L" and fn: "length filename = 60"
  obtains buf s' m' L' x where "add_dirent os s p ino filename = Some (RcOk, Some buf, s')" "bgood os ct k s' L'"
    "rewrote ct m L p s s' m' L'" "file_ok ct s' m' L'" "length buf = unat (v_blksize s')"
    "di_filesize (mi_dinode m') = di_filesize (mi_dinode m) + 64" "di_mode (mi_dinode m') = di_mode (mi_dinode m)"
    "entries_of ct s' m' = entries_of ct s m @ [new_entry ino filename x]"
proof -
  let ?F = "unat (di_filesize (mi_dinode m))" and ?B = "unat (v_blksize s)"
  have B: "64 dvd ?B" "0 < ?B" using blksize_entries [OF g] bgood_bs [OF g] by simp_all
  then have B64: "64 \<le> ?B" by (rule dvd_imp_le)
  define c where "c = blocks ?B (?F + 64) - nblks s m"
  have c: "blocks ?B (?F + 64) = nblks s m + c" "c \<le> 1"
    using blocks_mono [of ?F "?F + 64" ?B] blocks_mono [of "?F + 64" "?F + 1 * ?B" ?B] blocks_add [OF B(2), of ?F 1] B64
    by (simp_all add: c_def)
  have g1: "bgood os ct (Suc k + 7 * c + 1) s L" using bgood_mono [OF g] c(2) by simp
  have s64: "unat (64 :: u32) = 64" by simp
  obtain m1 s1 L1 where e: "ufs_datablock_expand os s m 64 = Some (RcOk, m1, s1)" "bgood os ct (Suc k) s1 L1"
    "frest s1 = frest s" "grown_file ct s m L s1 m1 L1 c" "m1 = finished m (m_addr m1) (di_filesize (mi_dinode m) + 64)"
    by (rule expand_ok [where sz = 64, OF f g1 b, unfolded s64, OF F(2) c(1)]) (use c lim L in simp_all)
  note gf = grown_fileD [OF e(4)]
  have m1: "mi_inode_number m1 = mi_inode_number m" "di_filesize (mi_dinode m1) = di_filesize (mi_dinode m) + 64"
    using arg_cong [OF e(5), of mi_inode_number] arg_cong [OF e(5), of "\<lambda>m. di_filesize (mi_dinode m)"] by simp_all
  define G where "G = di_filesize (mi_dinode m) + 64"
  have sz: "unat G = ?F + 64"
    using F(2) unat_add32 [of "di_filesize (mi_dinode m)" 64] by (simp add: G_def)
  note m1 = m1 [folded G_def]
  have geo: "per_block s1 = per_block s" "v_blksize s1 = v_blksize s" "good_blksize s1 = good_blksize s"
    using frest_geom(2) [OF e(3)] frestD(1) [OF e(3)] by (simp_all add: good_blksize_def)
  let ?s = "set_minode p (Some m1) s1" and ?i = "(?F + 64 - 1) div ?B"
  have at: "at_minode p (\<lambda>s m. ufs_datablock_expand os s m 64) s = Some (RcOk, ?s)"
    using m e(1) by (simp add: at_minode_def)
  have fs: "file_ok ct ?s m1 L1" "bgood os ct (Suc k) ?s L1" "good_blksize ?s" using gf(2) e(2) geo(3) b by simp_all
  have nb: "nblks ?s m1 = nblks s m + c" using m1(2) sz c(1) geo by simp
  have i: "?i < nblks ?s m1" using pos_block [OF B(2), of "?F + 64 - 1" "?F + 64"] nb c(1) by simp
  have iG: "?i = (unat G - 1) div unat (v_blksize ?s)" by (simp add: sz geo)
  have iN: "?i < blocks (unat (v_blksize ?s)) (unat (di_filesize (mi_dinode m1)))" using i by simp
  obtain s2 where l: "ufs_datablock_last os ?s m1 G = Some (data_node ct ?s m1 ?i, s2)"
    "bgood os ct (Suc k) s2 L1" "vsame ct ?s s2"
    by (rule last_ok [OF fs _ _ iG iN]) (use F(2) sz in simp_all)
  note v2 = vsameD [OF l(3)]
  let ?b = "data_node ct ?s m1 ?i" and ?x = "file_block ct ?s (m_addr m1) ?i"
  have sane: "ufs_datablock_number_sanity ?s ?b" by (rule data_node_sane(1) [OF fs(1) i])
  have vg: "vgood os ct (v_lim s2) (Suc k) s2" using l(2) by (simp add: bgood_def fgood_def)
  have lim2: "?b < v_lim s2" using sane_lim [OF sane] v2(3) by simp
  obtain buf s3 s4 where ft: "ufs_disk_get_buf os s2 = (Some buf, s3)" "ufs_vdisk_read os s3 buf ?b = (RcOk, vview ct s2 ?b, s4)"
    "vgood os ct (v_lim s2) (Suc k) s4" "vsame ct s2 s3" "vsame ct s2 s4" "length (vview ct s2 ?b) = unat (v_blksize s4)"
    by (rule good_fetch [OF vg lim2])
  have vs: "vsame ct ?s s4" by (rule vsame_trans [OF l(3) ft(5)])
  note v4 = vsameD [OF vs] and f4 = file_vsame [OF vs] and r4 = vrest_frest_geom [OF vsameD(2) [OF vs]]
  have g4: "bgood os ct (Suc k) s4 L1" by (rule bgood_vsame [OF l(2) ft(3,5)])
  obtain n where n: "?i * ?B + 64 * n = ?F" "64 * n + 64 \<le> ?B" by (rule put_dirent_fits [OF F(1) B])
  have lx: "length ?x = ?B" using file_block_length [OF fs(2,1) i] geo by simp
  have ln: "64 * n + 64 \<le> length ?x" unfolding lx by (rule n(2))
  obtain x where pd: "put_dirent ?x n ino filename = Some (blit (64 * n) (enc_dirent (new_entry ino filename x)) ?x)"
    by (rule put_dirent_ok [OF ln fn])
  let ?e = "enc_dirent (new_entry ino filename x)"
  have le: "length ?e = 64" using fn by simp
  have f4': "file_ok ct s4 m1 L1" using f4(1) fs(1) by simp
  have i4: "?i < nblks s4 m1" using i r4(3) by simp
  have b4: "data_node ct s4 m1 ?i = ?b" using v4(1) r4(1) by simp
  have lb: "length (blit (64 * n) ?e ?x) = unat (v_blksize s4)" using lx n(2) le r4(3) geo by simp
  obtain s5 where w: "ufs_vdisk_write os s4 (blit (64 * n) ?e ?x) ?b = (RcOk, s5)" "bgood os ct k s5 L1" "vrest s5 = vrest s4"
    "vview ct s5 = (vview ct s4)(?b := blit (64 * n) ?e ?x)" "file_ok ct s5 m1 L1"
    "file_blocks ct s5 m1 = (file_blocks ct s4 m1)[?i := blit (64 * n) ?e ?x]"
    using file_store [OF g4 f4' i4 lb] unfolding b4 by metis
  show ?thesis
  proof (rule that [of "blit (64 * n) ?e ?x" s5 L1 m1 x])
    show "bgood os ct k s5 L1" "file_ok ct s5 m1 L1" by (rule w(2) w(5))+
    show "length (blit (64 * n) ?e ?x) = unat (v_blksize s5)" using lb vrest_frest_geom(3) [OF w(3)] by simp
    show "di_filesize (mi_dinode m1) = di_filesize (mi_dinode m) + 64" using m1(2) by (simp add: G_def)
    show "di_mode (mi_dinode m1) = di_mode (mi_dinode m)"
      using arg_cong [OF e(5), of "\<lambda>m. di_mode (mi_dinode m)"] by (simp add: set_size_def with_addr_def)
    have res: "unat (ufs_residue G s4) = 64 * n + 64"
    proof -
      have "geom s4" using g4 by (simp add: bgood_def)
      from residue_unat [OF this, of G] show ?thesis using sz r4(3) geo n(1) by simp
    qed
    have un: "unat (ufs_residue G s4 div 64 - 1) = n"
    proof -
      have "unat (ufs_residue G s4 div 64) = Suc n" by (simp add: unat_div res)
      then show ?thesis using unat_sub32 [of 1 "ufs_residue G s4 div 64"] by simp
    qed
    have "?b \<noteq> 0" by (rule bgood_nonzero [OF fs(2) sane])
    then show "add_dirent os s p ino filename = Some (RcOk, Some (blit (64 * n) ?e ?x), s5)"
      using at l(1) ft(1,2) w(1) un pd v2(1) m1(2) by (simp add: add_dirent_def file_block_def)
    have "wrote ct m1 s4 s5" by (rule wrote_store [OF f4' i4 w(3)]) (unfold b4, rule w(4))
    then have "wrote ct m1 ?s s5" by (rule wrote_trans [OF wrote_vsame [OF vs]])
    then show "rewrote ct m L p s s5 m1 L1"
      by (rule rewrote_wrote [OF grown_rewrote [OF e(4,3) m1(1)]]) (use fs in \<open>simp_all add: bgood_def\<close>)
    have uni: "\<forall>y \<in> set (file_blocks ct ?s m1). length y = ?B" using file_blocks_lengths [OF fs(2,1)] geo by simp
    have fb: "file_blocks ct ?s m1 = file_blocks ct s m @ replicate c (replicate ?B 0)" using gf(1) by simp
    have at_i: "file_blocks ct ?s m1 ! ?i = ?x" by (rule nth_file_blocks [OF i])
    have lF: "?F \<le> length (concat (file_blocks ct s m))"
      using length_file_bytes [OF g f] by (simp add: file_bytes_def min_def split: if_splits)
    have "file_bytes ct s5 m1 = take (?F + 64) (concat ((file_blocks ct ?s m1)[?i := blit (64 * n) ?e (file_blocks ct ?s m1 ! ?i)]))"
      unfolding file_bytes_def w(6) f4(2) at_i m1(2) sz ..
    also have "\<dots> = take (?F + 64) (blit ?F ?e (concat (file_blocks ct ?s m1)))"
      using blit_concat [OF uni, of ?i "64 * n" ?e] i n le by simp
    also have "\<dots> = take ?F (concat (file_blocks ct s m)) @ ?e"
      unfolding fb using lF le by (simp add: blit_def)
    finally have "file_bytes ct s5 m1 = file_bytes ct s m @ ?e" by (simp add: file_bytes_def)
    moreover obtain q where "?F = 64 * q" using F(1) by (auto simp: dvd_def)
    ultimately show "entries_of ct s5 m1 = entries_of ct s m @ [new_entry ino filename x]"
      using entries_snoc [of "file_bytes ct s m" q "new_entry ino filename x"] length_file_bytes [OF g f] fn
      by (simp add: entries_of_def new_entry_def UFS_NAME_MAX_def)
  qed
qed

section \<open>Taking and releasing a cached inode\<close>

lemma vsame_set_minode: "vsame ct s t \<Longrightarrow> vsame ct (set_minode p m s) (set_minode p m t)"
  by (simp add: vsame_def vrest_def)

definition used :: "minode \<Rightarrow> minode" where
  "used m = m\<lparr>mi_usecount := mi_usecount m + 1\<rparr>"

lemma get_cached:
  assumes g: "bgood os ct k s L" and f: "find_minode (v_mstore s) (v_minodes s) ino = Some (Some q)" and q: "v_mstore s q = Some m"
  obtains s' where "ufs_inode_get os s ino = Some (Some q, s')" "bgood os ct k s' L"
    "vsame ct (set_minode q (Some (used m)) s) s'"
proof -
  obtain r1 s1 where l1: "lock os LkVdisk s = (r1, s1)" "bgood os ct k s1 L" "vsame ct s s1" by (rule bgood_lock [OF g])
  obtain r2 s2 where l2: "lock os (LkMinode q) s1 = (r2, s2)" "bgood os ct k s2 L" "vsame ct s1 s2" by (rule bgood_lock [OF l1(2)])
  note v1 = vsameD [OF l1(3)] and v2 = vsameD [OF l2(3)]
  let ?s3 = "set_minode q (Some (used m)) s2"
  have g3: "bgood os ct k ?s3 L" using l2(2) by simp
  note u1 = bgood_unlock [OF g3, of r2 "LkMinode q"]
  note u2 = bgood_unlock [OF u1(1), of r1 LkVdisk]
  have "ufs_inode_get os s ino = Some (Some q, unlock os r1 LkVdisk (unlock os r2 (LkMinode q) ?s3))"
    using l1(1) l2(1) f q v1(5,6) v2(6) by (simp add: ufs_inode_get_def ufs_inode_use_def used_def)
  moreover have "vsame ct (set_minode q (Some (used m)) s) ?s3"
    by (rule vsame_set_minode [OF vsame_trans [OF l1(3) l2(3)]])
  ultimately show ?thesis using that u2 vsame_trans u1(2) by metis
qed

lemma rel_used:
  assumes g: "bgood os ct k s L" and q: "v_mstore s q = Some (used m)"
    and m: "0 < mi_usecount m" "unat (mi_usecount m) + 1 < 2 ^ 16"
  obtains s' where "ufs_inode_rel os s q = Some s'" "bgood os ct k s' L" "vsame ct (set_minode q (Some m) s) s'"
proof -
  obtain r1 s1 where l1: "lock os LkVdisk s = (r1, s1)" "bgood os ct k s1 L" "vsame ct s s1" by (rule bgood_lock [OF g])
  obtain r2 s2 where l2: "lock os (LkMinode q) s1 = (r2, s2)" "bgood os ct k s2 L" "vsame ct s1 s2" by (rule bgood_lock [OF l1(2)])
  note v1 = vsameD [OF l1(3)] and v2 = vsameD [OF l2(3)]
  let ?s3 = "set_minode q (Some m) s2"
  have g3: "bgood os ct k ?s3 L" using l2(2) by simp
  note u1 = bgood_unlock [OF g3, of r2 "LkMinode q"]
  note u2 = bgood_unlock [OF u1(1), of r1 LkVdisk]
  have "mi_usecount (used m) \<noteq> 0" "(used m)\<lparr>mi_usecount := mi_usecount (used m) - 1\<rparr> = m"
  proof -
    have "unat (mi_usecount m + 1) = unat (mi_usecount m) + 1" using m(2) by (simp add: unat_word_ariths)
    then show "mi_usecount (used m) \<noteq> 0" by (auto simp: used_def)
  qed (simp add: used_def)
  then have "ufs_inode_rel os s q = Some (unlock os r1 LkVdisk (unlock os r2 (LkMinode q) ?s3))"
    using l1(1) l2(1) q v1(6) v2(6) m(1) by (simp add: ufs_inode_rel_def word_greater_zero_iff Let_def)
  moreover have "vsame ct (set_minode q (Some m) s) ?s3"
    by (rule vsame_set_minode [OF vsame_trans [OF l1(3) l2(3)]])
  ultimately show ?thesis using that u2 vsame_trans u1(2) by metis
qed

section \<open>The whole operation\<close>

text \<open>For a regular file in the cache of inodes; the parent is another inode.\<close>

lemma add_entry_ok:
  assumes g: "bgood os ct (k + 9) s L" and m: "v_mstore s p = Some m" and f: "file_ok ct s m L" and b: "good_blksize s"
    and F: "64 dvd unat (di_filesize (mi_dinode m))" "unat (di_filesize (mi_dinode m)) + 64 \<le> 2 ^ 31"
    and lim: "nblks s m < max_blocks (per_block s)" and L: "4 \<le> length L"
    and q: "find_minode (v_mstore s) (v_minodes s) ino = Some (Some q)" "v_mstore s q = Some mq" "q \<noteq> p"
      "\<not> ufs_inode_isdir (mi_dinode mq)" "0 < mi_usecount mq" "unat (mi_usecount mq) + 1 < 2 ^ 16"
  obtains s' m' L' x where "ufs_directory_add_entry os s p ino name = Some (RcOk, s')" "bgood os ct k s' L'"
    "v_mstore s' = (v_mstore s)(p := Some m')" "file_ok ct s' m' L'"
    "di_filesize (mi_dinode m') = di_filesize (mi_dinode m) + 64" "di_mode (mi_dinode m') = di_mode (mi_dinode m)"
    "good_blksize s'"
    "entries_of ct s' m' = entries_of ct s m @ [new_entry ino (ufs_dirent_filename name) x]"
    "\<And>y. y \<notin> set L \<Longrightarrow> y \<notin> file_nodes ct s m \<Longrightarrow> y \<noteq> inode_block s (mi_inode_number m) \<Longrightarrow> vview ct s' y = vview ct s y"
proof -
  obtain s1 where s1: "ufs_inode_get os s ino = Some (Some q, s1)" "bgood os ct (k + 9) s1 L"
    "vsame ct (set_minode q (Some (used mq)) s) s1" by (rule get_cached [OF g q(1,2)])
  note v1 = vsameD [OF s1(3)] and f1 = file_vsame [OF s1(3)] and r1 = vrest_frest_geom [OF vsameD(2) [OF s1(3)]]
  have m1: "v_mstore s1 p = Some m" using v1(6) m q(3) by simp
  have fn: "length (ufs_dirent_filename name) = 60" by (simp add: ufs_dirent_filename_def UFS_NAME_MAX_def)
  obtain buf s2 m2 L2 x where a: "add_dirent os s1 p ino (ufs_dirent_filename name) = Some (RcOk, Some buf, s2)"
    "bgood os ct k s2 L2" "rewrote ct m L p s1 s2 m2 L2" "file_ok ct s2 m2 L2" "length buf = unat (v_blksize s2)"
    "di_filesize (mi_dinode m2) = di_filesize (mi_dinode m) + 64" "di_mode (mi_dinode m2) = di_mode (mi_dinode m)"
    "entries_of ct s2 m2 = entries_of ct s1 m @ [new_entry ino (ufs_dirent_filename name) x]"
    by (rule add_dirent_ok [OF s1(2) m1 _ _ F _ L fn]) (use f b lim f1 r1 in simp_all)
  note rw = rewroteD [OF a(3)]
  have mq2: "v_mstore s2 q = Some (used mq)" using rw(1) v1(6) q(3) by simp
  have cs: "count_subdir os p q 1 s2 = Some s2" using mq2 q(4) by (simp add: count_subdir_def used_def)
  note fb = bgood_free_buf [OF a(2,5)]
  let ?s3 = "ufs_disk_free_buf os s2 buf"
  have mq3: "v_mstore ?s3 q = Some (used mq)" using vsameD(6) [OF fb(2)] mq2 by simp
  obtain s4 where s4: "ufs_inode_rel os ?s3 q = Some s4" "bgood os ct k s4 L2" "vsame ct (set_minode q (Some mq) ?s3) s4"
    by (rule rel_used [OF fb(1) mq3 q(5,6)])
  have vs: "vsame ct (set_minode q (Some mq) s2) s4" by (rule vsame_trans [OF vsame_set_minode [OF fb(2)] s4(3)])
  note v4 = vsameD [OF vs] and f4 = file_vsame [OF vs]
  have es: "entries_of ct (set_minode q z t) y = entries_of ct t y" for t y z by (simp add: entries_of_def file_bytes_def)
  have ev: "entries_of ct t' y = entries_of ct t y" if "vsame ct t t'" for t t' y
    using file_vsame(2) [OF that] by (simp add: entries_of_def file_bytes_def)
  show ?thesis
  proof (rule that)
    show "ufs_directory_add_entry os s p ino name = Some (RcOk, s4)"
      using s1(1) a(1) cs s4(1) by (simp add: ufs_directory_add_entry_def free_buf_opt_def)
    show "bgood os ct k s4 L2" by (rule s4(2))
    show "v_mstore s4 = (v_mstore s)(p := Some m2)"
      using v4(6) rw(1) v1(6) q(2,3) by (auto simp: fun_eq_iff)
    show "file_ok ct s4 m2 L2" using f4(1) a(4) by simp
    show "di_filesize (mi_dinode m2) = di_filesize (mi_dinode m) + 64" "di_mode (mi_dinode m2) = di_mode (mi_dinode m)"
      by (rule a(6,7))+
    show "good_blksize s4" using b rw(3) v1(4) v4(4) by (simp add: good_blksize_def)
    show "entries_of ct s4 m2 = entries_of ct s m @ [new_entry ino (ufs_dirent_filename name) x]"
      unfolding ev [OF vs] es a(8) ev [OF s1(3)] es ..
    show "vview ct s4 y = vview ct s y"
      if "y \<notin> set L" "y \<notin> file_nodes ct s m" "y \<noteq> inode_block s (mi_inode_number m)" for y
    proof -
      have "file_nodes ct s1 m = file_nodes ct s m" "inode_block s1 = inode_block s"
        using f1(3) vrestD(1,2) [OF v1(2)] by (simp_all add: inode_block_def ipb_def fun_eq_iff)
      then show ?thesis using rw(9) [of y] that v4(1) v1(1) by simp
    qed
  qed
qed

text \<open>The name that was added is found, unless an entry before it has the name.\<close>

lemma take_cstr: "length xs = n \<Longrightarrow> take n (cstr (xs @ ys)) = cstr xs"
  using length_takeWhile_le [of "\<lambda>b. b \<noteq> 0" xs] by (auto simp: cstr_def takeWhile_append intro: takeWhile_eq_all_conv [THEN iffD2, symmetric])

lemma named_new:
  assumes "ino \<noteq> 0" "slash \<notin> set (cstr name)"
  shows "named name (new_entry ino (ufs_dirent_filename name) x)"
  using assms by (simp add: named_def new_entry_def same_name_def lookup_name_def strncmp_eq_iff
      ufs_dirent_filename_def UFS_NAME_MAX_def take_cstr)

end
