(* ===== verification/Ram_Files.thy ===== *)
theory Ram_Files
  imports Ram Seek Dir_Add
begin

text \<open>
  The small volume of \<^verbatim>\<open>Ram\<close> with its file of 16 blocks open: its inode at address 0 of the
  store, and handles on its first block.
\<close>

definition demo_open :: "pager option \<Rightarrow> (u32 \<Rightarrow> block) vol" where
  "demo_open p = set_minode 0 (Some demo_file) (demo p)"

definition demo_fp :: "byte \<Rightarrow> ufile" where
  "demo_fp mode = \<lparr> fl_filepos = 0, fl_mode = mode, fl_ind = 0, fl_error = RcOk, fl_minode = 0, fl_blksize = 512,
     fl_blkno = 20, fl_blkpos = 0, fl_blkbuf = replicate 512 0, fl_name = [] \<rparr>"

lemma demo_open_simps [simp]:
  "v_blksize (demo_open p) = 512" "per_block (demo_open p) = 128" "good_blksize (demo_open p)"
  "v_mstore (demo_open p) 0 = Some demo_file" "vview ct (demo_open p) = vview ct (demo p)"
  by (simp_all add: demo_open_def)

lemma demo_blocks [simp]: "blocks 512 8192 = 16"
  by (simp add: blocks_def)

lemma demo_addr: "i < 16 \<Longrightarrow> m_addr demo_file ! i = 20 + of_nat i"
proof -
  assume "i < 16"
  then have "i \<in> {..<16}" by simp
  then show ?thesis by (simp add: lessThan_nat_numeral lessThan_Suc, elim disjE; simp)
qed

lemma demo_block:
  assumes "p = None \<or> p = Some cache" "i < 16"
  shows "file_block demo_ct (demo_open p) (m_addr demo_file) i = replicate 512 0"
    "data_node demo_ct (demo_open p) demo_file i = 20 + of_nat i"
proof -
  have f: "fpath 128 i = (i, [])" using assms(2) by (simp add: fpath_def)
  show n: "data_node demo_ct (demo_open p) demo_file i = 20 + of_nat i"
    using demo_addr [OF assms(2)] by (simp add: f del: demo_file_simps)
  have "unat (20 + of_nat i :: u32) = 20 + i" using assms(2) by (simp add: unat_word_ariths unat_of_nat32)
  then have "unat (20 + of_nat i :: u32) \<noteq> unat (5 :: u32)" by simp
  then have "20 + of_nat i \<noteq> (5 :: u32)" by metis
  then have "demo_ct demo_data (20 + of_nat i) = replicate 512 0"
    by (simp add: ram_ct_def demo_data_def fit_pad)
  then show "file_block demo_ct (demo_open p) (m_addr demo_file) i = replicate 512 0"
    using n by (simp add: file_block_def demo_view [OF assms(1)])
qed

lemma demo_handle:
  assumes "p = None \<or> p = Some cache" "k < 2 ^ 32"
  shows "file_handle ram demo_ct k (demo_open p) (demo_fp mode) demo_file demo_free"
  using demo_bgood [OF assms] demo_file_ok
  by (simp add: file_handle_def demo_open_def demo_fp_def has_def) (simp add: demo_file_def)

lemma demo_at_block:
  assumes "p = None \<or> p = Some cache"
  shows "at_block demo_ct (demo_open p) (demo_fp mode) demo_file 0"
  using demo_block [OF assms, of 0] by (simp add: at_block_def demo_fp_def has_def)

text \<open>The handle with the first block filled and not written back.\<close>

definition demo_filled :: ufile where
  "demo_filled = (demo_fp 0x40)\<lparr>fl_filepos := 512, fl_blkpos := 512, fl_ind := FILE_IND_DIRTY, fl_blkbuf := replicate 512 9\<rparr>"

lemma demo_filled_handle:
  assumes "p = None \<or> p = Some cache" "k < 2 ^ 32"
  shows "file_handle ram demo_ct k (demo_open p) demo_filled demo_file demo_free"
  using demo_handle [OF assms, of "0x40"] by (simp add: file_handle_def demo_filled_def demo_fp_def)

lemma demo_filled_at_block:
  assumes "p = None \<or> p = Some cache"
  shows "at_block demo_ct (demo_open p) demo_filled demo_file 0"
  using demo_block [OF assms, of 0] by (simp add: at_block_def demo_filled_def demo_fp_def)

lemma demo_file_bytes:
  assumes "p = None \<or> p = Some cache"
  shows "file_bytes demo_ct (demo_open p) demo_file = replicate 8192 0"
proof -
  have "file_blocks demo_ct (demo_open p) demo_file = replicate 16 (replicate 512 0)"
    by (rule nth_equalityI) (simp_all add: demo_block [OF assms] del: demo_file_simps(3))
  moreover have "concat (replicate n (replicate 512 (0 :: byte))) = replicate (n * 512) 0" for n
    by (induction n) (simp_all add: replicate_add)
  ultimately show ?thesis by (simp add: file_bytes_def)
qed

text \<open>The same inode as a directory, at address 0, and a regular file in use, inode 5, at address 1.\<close>

definition demo_parent :: minode where
  "demo_parent = demo_file\<lparr>mi_dinode := (mi_dinode demo_file)\<lparr>di_mode := 0x41FF\<rparr>\<rparr>"

definition demo_child :: minode where
  "demo_child = zero_minode\<lparr>mi_inode_number := 5, mi_usecount := 1\<rparr>"

definition demo_tree :: "(u32 \<Rightarrow> block) vol" where
  "demo_tree = (set_minode 1 (Some demo_child) (set_minode 0 (Some demo_parent) (demo None)))\<lparr>v_minodes := [0, 1]\<rparr>"

lemma minodes_simps [simp]:
  "v_disk (s\<lparr>v_minodes := x\<rparr>) = v_disk s" "vview ct (s\<lparr>v_minodes := x\<rparr>) = vview ct s"
  "bgood os ct k (s\<lparr>v_minodes := x\<rparr>) L = bgood os ct k s L"
  "file_ok ct (s\<lparr>v_minodes := x\<rparr>) m L = file_ok ct s m L"
proof -
  let ?s = "s\<lparr>v_minodes := x\<rparr>"
  show "v_disk ?s = v_disk s" "vview ct ?s = vview ct s" by (simp_all add: vview_def pgr_def fun_eq_iff)
  then show "bgood os ct k ?s L = bgood os ct k s L"
    by (simp add: bgood_def fgood_def vgood_def vinv_def vlive_def pgr_def geom_def free_ok_def
        ufs_datablock_number_sanity_def)
  show "file_ok ct ?s m L = file_ok ct s m L"
    by (simp add: file_ok_def m_pos_def tree_ok_def per_block_def ufs_datablock_number_sanity_def inode_num_def max_inode_def
        ipb_def vview_def pgr_def)
qed

lemma demo_tree_ok:
  assumes "k < 2 ^ 32"
  shows "bgood ram demo_ct k demo_tree demo_free" "file_ok demo_ct demo_tree demo_parent demo_free"
    "v_mstore demo_tree 0 = Some demo_parent" "v_mstore demo_tree 1 = Some demo_child"
    "find_minode (v_mstore demo_tree) (v_minodes demo_tree) 5 = Some (Some 1)"
proof -
  show "bgood ram demo_ct k demo_tree demo_free" using demo_bgood [of None k] assms by (simp add: demo_tree_def)
  have "file_ok demo_ct (demo None) demo_parent demo_free"
    using demo_file_ok [where p = None and ct = demo_ct] by (simp add: file_ok_def m_pos_def demo_parent_def wf_dinode_def)
  then show "file_ok demo_ct demo_tree demo_parent demo_free" by (simp add: demo_tree_def)
qed (simp_all add: demo_tree_def set_minode_def demo_parent_def demo_child_def demo_file_def)

lemma demo_parent_simps:
  "di_filesize (mi_dinode demo_parent) = 8192" "ufs_inode_isdir (mi_dinode demo_parent)"
  "v_blksize demo_tree = 512" "per_block demo_tree = 128" "good_blksize demo_tree"
  by (simp_all add: demo_parent_def ufs_inode_isdir_def UFS_IFMT_def UFS_IFDIR_def demo_tree_def per_block_def good_blksize_def
      demo_defs)

lemma zero_mode: "di_mode zero_dinode = 0"
  by (simp add: zero_dinode_def dec_dinode_def slice_def un16_def numeral_2_eq_2)

lemma demo_child_ok:
  "\<not> ufs_inode_isdir (mi_dinode demo_child)" "0 < mi_usecount demo_child" "unat (mi_usecount demo_child) + 1 < 2 ^ 16"
  by (simp_all add: demo_child_def zero_minode_def zero_mode ufs_inode_isdir_def UFS_IFMT_def UFS_IFDIR_def)

lemma demo_room:
  "64 dvd unat (di_filesize (mi_dinode demo_parent))" "unat (di_filesize (mi_dinode demo_parent)) + 64 \<le> 2 ^ 31"
  "nblks demo_tree demo_parent < max_blocks (per_block demo_tree)" "4 \<le> length demo_free"
  by (simp_all add: demo_parent_simps max_blocks_def demo_free_def)

lemma demo_no_names: "find (named name) (entries_of demo_ct demo_tree demo_parent) = None"
proof -
  have "file_blocks demo_ct demo_tree demo_parent = file_blocks demo_ct (demo_open None) demo_file"
    by (simp add: file_blocks_def file_block_def [abs_def] demo_tree_def demo_open_def demo_parent_def per_block_def)
  then have b: "file_bytes demo_ct demo_tree demo_parent = replicate 8192 0"
    using demo_file_bytes [of None] by (simp add: file_bytes_def demo_parent_simps)
  have "de_inode_number e = 0" if "e \<in> set (entries_of demo_ct demo_tree demo_parent)" for e
  proof -
    note e = that
    obtain i where i: "i < 128" "e = dec_dirent (slice (64 * i) 64 (replicate 8192 0))"
      using e by (auto simp: entries_of_def dir_entries_def b)
    then have "slice (64 * i) 64 (replicate 8192 0) = replicate 64 (0 :: byte)" by (simp add: slice_def min_def)
    then show ?thesis using i(2) get32_zeros [of 64] by (simp add: dec_dirent_def)
  qed
  then show ?thesis by (auto simp: find_None_iff named_def)
qed

end
