(* ===== verification/Files.thy ===== *)
theory Files
  imports Directory
begin

text \<open>
  Files as entries of directories (\<^verbatim>\<open>src/ufsfialc.c\<close>, \<^verbatim>\<open>ufsfidal.c\<close>,
  \<^verbatim>\<open>ufsfilnk.c\<close>, \<^verbatim>\<open>ufsfisym.c\<close>, \<^verbatim>\<open>ufsfiren.c\<close>): creating,
  removing, linking and renaming them inside one volume.
\<close>

section \<open>Attributes and times\<close>

definition UFS_IFCHR :: u16 where "UFS_IFCHR = 0x2000"
definition UFS_IFBLK :: u16 where "UFS_IFBLK = 0x6000"
definition UFSBSD_IFLNK :: u16 where "UFSBSD_IFLNK = 0xA000"
definition UFSBSD_IFSOCK :: u16 where "UFSBSD_IFSOCK = 0xC000"
definition UFSBSD_IFFIFO :: u16 where "UFSBSD_IFFIFO = 0x1000"

text \<open>
  Routines of the C library the sources use and do not define: \<^verbatim>\<open>strcpyp\<close> and
  \<^verbatim>\<open>memcpyp\<close> (copy with a pad byte) and the pattern match of directory listings.
\<close>

record clib =
  cl_strcpyp :: "nat \<Rightarrow> byte list \<Rightarrow> byte \<Rightarrow> byte list"
  cl_memcpyp :: "nat \<Rightarrow> byte list \<Rightarrow> byte \<Rightarrow> byte list"
  cl_patmat :: "byte list \<Rightarrow> byte list \<Rightarrow> bool"

record fileattr =
  at_owner :: "byte list option"
  at_group :: "byte list option"
  at_mode :: u16
  at_codepage :: u16
  at_atime :: u64
  at_mtime :: u64
  at_ctime :: u64

text \<open>
  A \<^verbatim>\<open>UFSTIMEV\<close> is a union: seconds and microseconds in the high and the low word
  (version 1), or milliseconds in 64 bits (version 2).
\<close>

definition v1_seconds :: "u64 \<Rightarrow> u32" where
  "v1_seconds t = ucast (drop_bit 32 t)"

definition v1_useconds :: "u64 \<Rightarrow> u32" where
  "v1_useconds t = ucast t"

definition ufs_v1_to_v2 :: "u64 \<Rightarrow> u64" where
  "ufs_v1_to_v2 t = ucast (v1_seconds t) * 1000 + ucast (v1_useconds t div 1000)"

definition is_v1 :: "u64 \<Rightarrow> bool" where
  "is_v1 t \<longleftrightarrow> v1_seconds t > 0 \<and> v1_useconds t < 1000000"

text \<open>\<^verbatim>\<open>dinode->owner\<close> and \<^verbatim>\<open>dinode->group\<close>: eight characters and a zero.\<close>

definition put_name :: "clib \<Rightarrow> byte list option \<Rightarrow> byte list \<Rightarrow> byte list" where
  "put_name lib name old =
     (case name of
        None \<Rightarrow> old
      | Some name \<Rightarrow> if cstr name = [] then old else (blit 0 (cl_strcpyp lib 8 name 0) old)[8 := 0])"

definition set_attr :: "clib \<Rightarrow> fileattr \<Rightarrow> dinode \<Rightarrow> dinode" where
  "set_attr lib attr d = d\<lparr>di_mode := at_mode attr, di_codepage := at_codepage attr,
     di_owner := put_name lib (at_owner attr) (di_owner d),
     di_group := put_name lib (at_group attr) (di_group d)\<rparr>"

definition set_times :: "'d os \<Rightarrow> fileattr \<Rightarrow> dinode \<Rightarrow> 'd vol \<Rightarrow> dinode \<times> 'd vol" where
  "set_times os attr d s =
     (let (ctime, s) = (if is_v1 (at_ctime attr) then (ufs_v1_to_v2 (at_ctime attr), s) else clock64 os s);
          mtime = (if is_v1 (at_mtime attr) then ufs_v1_to_v2 (at_mtime attr) else ctime);
          atime = (if is_v1 (at_atime attr) then ufs_v1_to_v2 (at_atime attr) else ctime)
      in (d\<lparr>di_ctime := ctime, di_mtime := mtime, di_atime := atime\<rparr>, s))"

section \<open>Creating\<close>

definition set_nlink :: "u16 \<Rightarrow> minode \<Rightarrow> minode" where
  "set_nlink n m = m\<lparr>mi_dinode := (mi_dinode m)\<lparr>di_nlink := n\<rparr>\<rparr>"

definition upd_minode :: "nat \<Rightarrow> (minode \<Rightarrow> minode) \<Rightarrow> 'd vol \<Rightarrow> 'd vol option" where
  "upd_minode p f s = do { m \<leftarrow> v_mstore s p; Some (set_minode p (Some (f m)) s) }"

definition dot :: "byte list" where "dot = str ''.''"
definition dotdot :: "byte list" where "dotdot = str ''..''"

text \<open>\<open>dir[i].name\<close> is set with \<^verbatim>\<open>strcpy\<close>: the bytes after its zero stay.\<close>

definition name_entry :: "block \<Rightarrow> nat \<Rightarrow> u32 \<Rightarrow> byte list \<Rightarrow> block option" where
  "name_entry buf i ino name =
     do { e \<leftarrow> entry_at buf i;
          set_entry buf i \<lparr>de_inode_number = ino, de_name = blit 0 (name @ [0]) (de_name e)\<rparr> }"

text \<open>
  A new directory: two entries in a new block. The flag says whether the exit releases the new
  inode again.
\<close>

definition init_dir :: "'d os \<Rightarrow> 'd vol \<Rightarrow> nat \<Rightarrow> u32 \<Rightarrow> u32 \<Rightarrow> (rc \<times> bool \<times> 'd vol) option" where
  "init_dir os s minode ino parent_ino =
     do { s \<leftarrow> upd_minode minode (set_nlink 2) s;
          (error, s) \<leftarrow> at_minode minode (\<lambda>s m. ufs_datablock_expand os s m (64 * 2)) s;
          if error \<noteq> RcOk then Some (error, True, s) else
          do { m \<leftarrow> v_mstore s minode;
               blk \<leftarrow> get_addr m 0;
               let (buf, s) = ufs_disk_get_buf os s in
               case buf of
                 None \<Rightarrow> Some (RcErr ENOMEM, False, s)
               | Some buf \<Rightarrow>
                   let (rc, buf, s) = ufs_vdisk_read os s buf blk in
                   if rc \<noteq> RcOk then Some (RcErr EIO, True, ufs_disk_free_buf os s buf) else
                   do { buf \<leftarrow> name_entry buf 0 ino dot;
                        buf \<leftarrow> name_entry buf 1 parent_ino dotdot;
                        let (rc, s) = ufs_vdisk_write os s buf blk
                        in Some (if rc \<noteq> RcOk then RcErr EIO else RcOk, False, ufs_disk_free_buf os s buf) } } }"

definition link_types :: "u16 list" where
  "link_types = [UFS_IFCHR, UFS_IFBLK, UFSBSD_IFFIFO, UFSBSD_IFSOCK, UFSBSD_IFLNK, UFS_IFREG]"

definition init_inode :: "'d os \<Rightarrow> 'd vol \<Rightarrow> nat \<Rightarrow> u32 \<Rightarrow> u32 \<Rightarrow> u16 \<Rightarrow> (rc \<times> bool \<times> 'd vol) option" where
  "init_inode os s minode ino parent_ino mode =
     (let fmt = mode AND UFS_IFMT in
      if fmt \<in> set link_types
      then do { s \<leftarrow> upd_minode minode (set_nlink 1) s; Some (RcOk, False, s) }
      else if fmt = UFS_IFDIR then init_dir os s minode ino parent_ino
      else Some (RcErr EINVAL, True, s))"

text \<open>The part of the name after its last slash.\<close>

definition after_slash :: "byte list \<Rightarrow> byte list" where
  "after_slash name = rev (takeWhile (\<lambda>c. c \<noteq> slash) (rev (cstr name))) @ [0]"

definition ufs_file_allocate :: "'d os \<Rightarrow> clib \<Rightarrow> 'd vol \<Rightarrow> nat \<Rightarrow> byte list \<Rightarrow> fileattr \<Rightarrow> u32 \<Rightarrow>
    (rc \<times> u32 \<times> 'd vol) option" where
  "ufs_file_allocate os lib s parent_dir srcname attr ino =
     (let filename = ufs_dirent_filename srcname in
      do { parent \<leftarrow> v_mstore s parent_dir;
           (found, ino, s) \<leftarrow> ufs_file_lookup_by_name os s parent filename ino;
           if found = RcOk then Some (RcErr EEXIST, ino, s) else
           do { (error, ino, s) \<leftarrow> ufs_inode_allocate os s;
                if error \<noteq> RcOk then Some (error, ino, s) else
                do { (minode, s) \<leftarrow> ufs_inode_get os s ino;
                     case minode of
                       None \<Rightarrow> Some (RcErr ENOMEM, ino, s)
                     | Some minode \<Rightarrow>
                         do { m \<leftarrow> v_mstore s minode;
                              let (d, s) = set_times os attr (set_attr lib attr (mi_dinode m)) s;
                                  s = set_minode minode (Some (m\<lparr>mi_dinode := d\<rparr>)) s in
                              do { parent \<leftarrow> v_mstore s parent_dir;
                                   (error, undo, s) \<leftarrow>
                                     init_inode os s minode ino (mi_inode_number parent) (di_mode d);
                                   if error \<noteq> RcOk
                                   then do { s \<leftarrow> (if undo then ufs_inode_deallocate os s ino else Some s);
                                             Some (error, ino, s) }
                                   else
                                   do { (_, s) \<leftarrow> at_minode minode (ufs_inode_writeback os) s;
                                        s \<leftarrow> ufs_inode_rel os s minode;
                                        (error, s) \<leftarrow>
                                          ufs_directory_add_entry os s parent_dir ino (after_slash filename);
                                        Some (error, ino, s) } } } } } })"

section \<open>Removing\<close>

text \<open>What \<^verbatim>\<open>ufs_file_deallocate\<close> does to the inode before its entry is removed.\<close>

definition drop_inode :: "'d os \<Rightarrow> 'd vol \<Rightarrow> nat \<Rightarrow> byte list \<Rightarrow> (rc \<times> 'd vol) option" where
  "drop_inode os s minode name =
     do { m \<leftarrow> v_mstore s minode;
          if ufs_inode_isdir (mi_dinode m) then
            let filename = cstr (ufs_dirent_filename name);
                filesize = di_filesize (mi_dinode m) in
            if filename = dotdot then Some (RcErr EINVAL, s) else
            if filename = dot then Some (RcErr EINVAL, s) else
            if filesize > 0 \<and> filesize \<noteq> 64 * 2 then Some (RcErr ENOTEMPTY, s) else
            do { (error, s) \<leftarrow>
                   (if filesize > 0 then at_minode minode (\<lambda>s. ufs_datablock_size_change os s 0) s
                    else Some (RcOk, s));
                 if error \<noteq> RcOk then Some (error, s) else
                 do { s \<leftarrow> upd_minode minode (set_nlink 0) s; Some (RcOk, s) } }
          else
            do { s \<leftarrow> upd_minode minode (\<lambda>m.
                   if di_nlink (mi_dinode m) > 0 then set_nlink (di_nlink (mi_dinode m) - 1) m else m) s;
                 Some (RcOk, s) } }"

text \<open>
  For a mount point the C function goes on with the root inode of the mounted volume, but with the
  entry and the parent of this one; that branch is \<open>None\<close> here, it leaves the volume.
\<close>

definition ufs_file_deallocate :: "'d os \<Rightarrow> 'd vol \<Rightarrow> nat \<Rightarrow> byte list \<Rightarrow> (rc \<times> 'd vol) option" where
  "ufs_file_deallocate os s parent_dir name =
     do { parent \<leftarrow> v_mstore s parent_dir;
          (error, ino, s) \<leftarrow> ufs_file_lookup_by_name os s parent name 0;
          if error \<noteq> RcOk then Some (error, s) else
          do { (minode, s) \<leftarrow> ufs_inode_get os s ino;
               case minode of
                 None \<Rightarrow> Some (RcErr ENOENT, s)
               | Some minode \<Rightarrow>
                   do { m \<leftarrow> v_mstore s minode;
                        if mi_mounted_vdisk m \<noteq> None then None else
                        do { (error, s) \<leftarrow> drop_inode os s minode name;
                             (error, s) \<leftarrow>
                               (if error \<noteq> RcOk then Some (error, s) else
                                do { (_, s) \<leftarrow> at_minode minode (ufs_inode_writeback os) s;
                                     ufs_directory_remove_entry os s parent_dir name });
                             s \<leftarrow> ufs_inode_rel os s minode;
                             Some (error, s) } } } }"

section \<open>Links\<close>

definition ufs_file_link :: "'d os \<Rightarrow> 'd vol \<Rightarrow> nat \<Rightarrow> nat \<Rightarrow> byte list \<Rightarrow> (rc \<times> 'd vol) option" where
  "ufs_file_link os s parent_dir p name =
     do { m \<leftarrow> v_mstore s p;
          (error, s) \<leftarrow> ufs_directory_add_entry os s parent_dir (mi_inode_number m) name;
          if error \<noteq> RcOk then Some (error, s) else
          do { (_, s) \<leftarrow> at_minode p (\<lambda>s m. ufs_inode_writeback os s (add_nlink 1 m)) s; Some (RcOk, s) } }"

definition UFSBSD_MAXSYMLINKLEN :: u32 where "UFSBSD_MAXSYMLINKLEN = 4096"

definition ufs_file_symlink :: "'d os \<Rightarrow> 'd vol \<Rightarrow> nat \<Rightarrow> byte list \<Rightarrow> (rc \<times> 'd vol) option" where
  "ufs_file_symlink os s p target =
     (let len = of_nat (length (cstr target) + 1) in
      if len > UFSBSD_MAXSYMLINKLEN then Some (RcErr ENAMETOOLONG, s) else
      do { (error, s) \<leftarrow> at_minode p (\<lambda>s m. ufs_datablock_expand os s m len) s;
           if error \<noteq> RcOk then Some (error, s) else
           do { m \<leftarrow> v_mstore s p;
                blk \<leftarrow> get_addr m 0;
                let (buf, s) = ufs_disk_get_buf os s in
                case buf of
                  None \<Rightarrow> Some (RcErr ENOMEM, s)
                | Some buf \<Rightarrow>
                    let (rc, buf, s) = ufs_vdisk_read os s buf blk in
                    if rc \<noteq> RcOk then Some (RcErr EIO, ufs_disk_free_buf os s buf) else
                    if length buf < unat (v_blksize s) then None else
                    let buf = blit 0 (strncpy_to (unat (v_blksize s)) target) buf;
                        (rc, s) = ufs_vdisk_write os s buf blk in
                    if rc \<noteq> RcOk then Some (RcErr EIO, ufs_disk_free_buf os s buf) else
                    do { (error, s) \<leftarrow> at_minode p (ufs_inode_writeback os) s;
                         Some (error, ufs_disk_free_buf os s buf) } } })"

section \<open>Renaming\<close>

text \<open>A read error ends the callback with 0; invalid inode numbers with \<^verbatim>\<open>UFS_ITERATOR_ERROR\<close>.\<close>

definition entries :: "block \<Rightarrow> nat \<Rightarrow> dirent list option" where
  "entries buf n = (if 64 * n \<le> length buf
     then Some (map (\<lambda>i. dec_dirent (slice (64 * i) 64 buf)) [0..<n]) else None)"

definition lookup_parent_from_dir_subr :: "'d os \<Rightarrow> ('d, u32) blkfun" where
  "lookup_parent_from_dir_subr os = on_block os RcOk (\<lambda>blk sz buf parent_ino s.
     let n = unat (sz div 64) in
     do { ds \<leftarrow> entries buf n;
          if \<not> ufs_dirent_endian_convert s ds then Some (RcIter ITER_ERROR, buf, parent_ino, s) else
          do { r \<leftarrow> dir_scan (same_name dotdot) buf n 0;
               case r of None \<Rightarrow> Some (RcOk, buf, parent_ino, s)
               | Some (_, e) \<Rightarrow> Some (RcIter ITER_BREAK, buf, de_inode_number e, s) } })"

text \<open>
  The loop follows \<^verbatim>\<open>".."\<close> to the root. On a damaged volume the chain of parents may not
  reach it: then the loop does not end.
\<close>

partial_function (option) dirmove_loop :: "'d os \<Rightarrow> 'd vol \<Rightarrow> minode \<Rightarrow> u32 \<Rightarrow> (rc \<times> 'd vol) option" where
  "dirmove_loop os s minode from_ino =
     do { (_, parent, s) \<leftarrow> ufs_datablock_foreach os (lookup_parent_from_dir_subr os) s minode 0;
          if parent = 0 then Some (RcErr ENOENT, s) else
          do { (error, minode, s) \<leftarrow> ufs_inode_load os s minode parent;
               if error \<noteq> RcOk then Some (error, s) else
               if parent = from_ino then Some (RcErr EINVAL, s) else
               if parent \<noteq> UFS_ROOT_INODE then dirmove_loop os s minode from_ino else Some (RcOk, s) } }"

definition can_dirmove :: "'d os \<Rightarrow> 'd vol \<Rightarrow> u32 \<Rightarrow> u32 \<Rightarrow> (rc \<times> 'd vol) option" where
  "can_dirmove os s from_ino to_ino =
     do { (error, minode, s) \<leftarrow> ufs_inode_load os s zero_minode to_ino;
          if error \<noteq> RcOk then Some (error, s) else
          if \<not> ufs_inode_isdir (mi_dinode minode) then Some (RcErr ENOTDIR, s) else
          dirmove_loop os s minode from_ino }"

text \<open>The steps between the lookup of the source and the release of its inode.\<close>

definition rename_entry :: "'d os \<Rightarrow> 'd vol \<Rightarrow> nat \<Rightarrow> byte list \<Rightarrow> nat \<Rightarrow> byte list \<Rightarrow> u32 \<Rightarrow> nat \<Rightarrow>
    (rc \<times> 'd vol) option" where
  "rename_entry os s parent_from from_name parent_to to_name from_ino minode =
     do { m \<leftarrow> v_mstore s minode;
          to_dir \<leftarrow> v_mstore s parent_to;
          let dir_move = ufs_inode_isdir (mi_dinode m) in
          do { (found, _, s) \<leftarrow> ufs_file_lookup_by_name os s to_dir to_name 0;
               (error, s) \<leftarrow>
                 (if found = RcOk then ufs_file_deallocate os s parent_to to_name
                  else if found \<noteq> RcErr ENOENT then Some (found, s)
                  else Some (RcOk, s));
               if error \<noteq> RcOk then Some (error, s) else
               do { to_dir \<leftarrow> v_mstore s parent_to;
                    (error, s) \<leftarrow> (if dir_move then can_dirmove os s from_ino (mi_inode_number to_dir)
                                    else Some (RcOk, s));
                    if error \<noteq> RcOk then Some (error, s) else
                    do { (error, s) \<leftarrow> ufs_directory_add_entry os s parent_to from_ino to_name;
                         if error \<noteq> RcOk then Some (error, s) else
                         do { (error, s) \<leftarrow> ufs_directory_remove_entry os s parent_from from_name;
                              if error \<noteq> RcOk then Some (error, s) else
                              if dir_move \<and> parent_from \<noteq> parent_to then
                                do { m \<leftarrow> v_mstore s minode;
                                     to_dir \<leftarrow> v_mstore s parent_to;
                                     (error, s) \<leftarrow>
                                       ufs_directory_replace_entry os s m dotdot (mi_inode_number to_dir);
                                     if error \<noteq> RcOk then Some (error, s) else
                                     do { (_, s) \<leftarrow> at_minode minode (ufs_inode_writeback os) s;
                                          Some (RcOk, s) } }
                              else Some (RcOk, s) } } } } }"

definition ufs_file_rename :: "'d os \<Rightarrow> 'd vol \<Rightarrow> nat \<Rightarrow> byte list \<Rightarrow> nat \<Rightarrow> byte list \<Rightarrow> (rc \<times> 'd vol) option" where
  "ufs_file_rename os s parent_from from_name parent_to to_name =
     do { from_dir \<leftarrow> v_mstore s parent_from;
          (error, from_ino, s) \<leftarrow> ufs_file_lookup_by_name os s from_dir from_name 0;
          if error \<noteq> RcOk then Some (error, s) else
          do { (minode, s) \<leftarrow> ufs_inode_get os s from_ino;
               case minode of
                 None \<Rightarrow> Some (RcErr ENOENT, s)
               | Some minode \<Rightarrow>
                   do { (error, s) \<leftarrow>
                          rename_entry os s parent_from from_name parent_to to_name from_ino minode;
                        s \<leftarrow> ufs_inode_rel os s minode;
                        Some (error, s) } } }"

end
