(* ===== verification/Paths.thy ===== *)
theory Paths
  imports Files
begin

text \<open>
  Path names as strings: \<^verbatim>\<open>fix_path\<close> of \<^verbatim>\<open>src/ufs#lkup.c\<close>, which takes the empty,
  \<^verbatim>\<open>"."\<close> and \<^verbatim>\<open>".."\<close> components out of a path in place, the
  tokens the lookups read a path in, and the construction of the full path in
  \<^verbatim>\<open>src/ufs#lmin.c\<close>; and the reference: paths as lists of components.
\<close>

section \<open>\<open>fix_path\<close>\<close>

definition dot_byte :: byte where "dot_byte = ch CHR ''.''"

text \<open>\<open>p[i]\<close> of a C string without its terminating zero.\<close>

definition char_at :: "byte list \<Rightarrow> nat \<Rightarrow> byte" where
  "char_at s i = (if i < length s then s ! i else 0)"

text \<open>
  What the loop does at a slash in position \<open>i\<close>, when \<open>p2\<close> is the position of the one before: the
  string is done, or changed and to be gone through again (the flag), or the loop goes on (\<open>None\<close>).
\<close>

definition fix_slash :: "byte list \<Rightarrow> nat \<Rightarrow> nat option \<Rightarrow> (bool \<times> byte list) option" where
  "fix_slash s i p2 =
     (let c1 = char_at s (i + 1); c2 = char_at s (i + 2); c3 = char_at s (i + 3);
          p = (case p2 of Some j \<Rightarrow> j | None \<Rightarrow> i) in
      if c1 = 0 \<and> i > 0 then Some (False, take i s) else
      if c1 = slash then Some (True, take i s @ drop (i + 1) s) else
      if c1 = dot_byte \<and> c2 = slash then Some (True, take i s @ drop (i + 2) s) else
      if c1 = dot_byte \<and> c2 = 0 then Some (True, if p2 \<noteq> None then take i s else take (i + 1) s) else
      if c1 = dot_byte \<and> c2 = dot_byte \<and> c3 = slash then Some (True, take p s @ drop (i + 3) s) else
      if c1 = dot_byte \<and> c2 = dot_byte \<and> c3 = 0 then Some (True, take (p + 1) s) else None)"

text \<open>The \<^verbatim>\<open>for\<close> loop from position \<open>i\<close>, with \<open>n\<close> characters left.\<close>

fun fix_scan :: "byte list \<Rightarrow> nat \<Rightarrow> nat \<Rightarrow> nat option \<Rightarrow> bool \<times> byte list" where
  "fix_scan s 0 i p1 = (False, s)"
| "fix_scan s (Suc n) i p1 =
     (if char_at s i \<noteq> slash then fix_scan s n (Suc i) p1 else
      case fix_slash s i p1 of Some r \<Rightarrow> r | None \<Rightarrow> fix_scan s n (Suc i) (Some i))"

lemma char_at_nonzero: "char_at s i \<noteq> 0 \<Longrightarrow> i < length s"
  by (simp add: char_at_def split: if_splits)

lemma slash_dot [simp]: "slash \<noteq> 0" "dot_byte \<noteq> 0" "slash \<noteq> dot_byte" "dot_byte \<noteq> slash"
  by (simp_all add: slash_def dot_byte_def)

lemma fix_slash_shorter:
  assumes "fix_slash s i p2 = Some (True, s')" "char_at s i = slash" "\<forall>j. p2 = Some j \<longrightarrow> j < i"
  shows "length s' < length s"
proof -
  have c: "char_at s k = slash \<or> char_at s k = dot_byte \<Longrightarrow> k < length s" for k
    using char_at_nonzero [of s k] by auto
  have p: "(case p2 of Some j \<Rightarrow> j | None \<Rightarrow> i) \<le> i" using assms(3) by (cases p2) simp_all
  show ?thesis
    using assms(1,2) p c [of i] c [of "i + 1"] c [of "i + 2"] c [of "i + 3"]
    by (simp add: fix_slash_def Let_def split: if_splits) (auto simp: min_def split: if_splits)
qed

lemma fix_scan_shorter:
  "fix_scan s n i p1 = (True, s') \<Longrightarrow> \<forall>j. p1 = Some j \<longrightarrow> j < i \<Longrightarrow> length s' < length s"
proof (induction s n i p1 rule: fix_scan.induct)
  case (2 s n i p1)
  then show ?case
    using fix_slash_shorter [of s i p1 s'] by (simp add: less_Suc_eq split: if_splits option.splits)
qed simp

function fix_path :: "byte list \<Rightarrow> byte list" where
  "fix_path s = (let (again, s') = fix_scan s (length s) 0 None in if again then fix_path s' else s')"
  by pat_completeness auto
termination by (relation "measure length") (auto dest!: fix_scan_shorter [OF sym])

declare fix_path.simps [simp del]

section \<open>Tokens\<close>

text \<open>\<^verbatim>\<open>strtok(s, "/")\<close>: the token and the string it left, or \<open>None\<close> for \<^verbatim>\<open>NULL\<close>.\<close>

definition strtok :: "byte list \<Rightarrow> (byte list \<times> byte list) option" where
  "strtok s =
     (let t = dropWhile (\<lambda>c. c = slash) s in
      if t = [] then None
      else Some (takeWhile (\<lambda>c. c \<noteq> slash) t, drop 1 (dropWhile (\<lambda>c. c \<noteq> slash) t)))"

lemma strtok_shorter:
  assumes "strtok s = Some (t, r)" shows "length r < length s"
proof -
  let ?u = "dropWhile (\<lambda>c. c = slash) s"
  have u: "?u \<noteq> []" "r = drop 1 (dropWhile (\<lambda>c. c \<noteq> slash) ?u)"
    using assms by (auto simp: strtok_def Let_def split: if_splits)
  have "length r \<le> length ?u - 1" unfolding u(2) by (simp add: length_dropWhile_le diff_le_mono)
  moreover have "length ?u \<noteq> 0" using u(1) by simp
  moreover have "length ?u \<le> length s" by (rule length_dropWhile_le)
  ultimately show ?thesis by linarith
qed

function strtoks :: "byte list \<Rightarrow> byte list list" where
  "strtoks s = (case strtok s of None \<Rightarrow> [] | Some (t, r) \<Rightarrow> t # strtoks r)"
  by pat_completeness auto
termination by (relation "measure length") (auto dest: strtok_shorter)

declare strtoks.simps [simp del]

section \<open>The full path of a lookup\<close>

definition UFS_PATH_MAX :: nat where "UFS_PATH_MAX = 256"

definition strip_slashes :: "byte list \<Rightarrow> byte list" where
  "strip_slashes s =
     (if s = [] then [] else hd s # rev (dropWhile (\<lambda>c. c = slash) (rev (tl s))))"

text \<open>
  \<open>cwd\<close> is the path of the current directory, \<open>None\<close> without one. The outer \<open>None\<close> is the read before
  an empty string, and the zero stored behind the 257 bytes when the path fills its array to the last byte and
  a slash is put behind it; the inner \<open>Inl\<close> is the exit with an error.
\<close>

definition full_path :: "byte list option \<Rightarrow> byte list \<Rightarrow> (rc + byte list) option" where
  "full_path cwd path =
     (let temppath = take UFS_PATH_MAX (cstr path) in
      if char_at temppath 0 = slash then Some (Inr (strip_slashes temppath)) else
      case cwd of
        None \<Rightarrow> Some (Inl (RcErr EINVAL))
      | Some cwd \<Rightarrow>
          let temppath = take UFS_PATH_MAX (cstr cwd) in
          if temppath = [] then None else
          let temppath = (if last temppath \<noteq> slash then temppath @ [slash] else temppath) in
          if length temppath > UFS_PATH_MAX then None else
          let temppath = temppath @ take (UFS_PATH_MAX - length temppath) (cstr path) in
          if char_at temppath 0 \<noteq> slash then Some (Inl (RcErr EINVAL))
          else Some (Inr (strip_slashes temppath)))"


section \<open>Paths as lists of components\<close>

text \<open>
  \<open>spell cs\<close> spells the components \<open>cs\<close>, each after a slash; \<open>split_path\<close> is its inverse on strings
  that begin with a slash. \<open>resolve\<close> is the meaning of a path: the components from the root that are
  left when empty and \<open>dot\<close> components are dropped and \<open>dotdot\<close> takes one back.
\<close>

definition spell :: "byte list list \<Rightarrow> byte list" where
  "spell cs = concat (map (\<lambda>c. slash # c) cs)"

fun split_at :: "byte list \<Rightarrow> byte list list" where
  "split_at [] = [[]]"
| "split_at (x # xs) = (if x = slash then [] # split_at xs else (x # hd (split_at xs)) # tl (split_at xs))"

definition split_path :: "byte list \<Rightarrow> byte list list" where
  "split_path s = tl (split_at s)"

definition step_path :: "byte list list \<Rightarrow> byte list \<Rightarrow> byte list list" where
  "step_path cs c = (if c = [] \<or> c = dot then cs else if c = dotdot then butlast cs else cs @ [c])"

definition resolve :: "byte list list \<Rightarrow> byte list list" where
  "resolve cs = foldl step_path [] cs"

definition render :: "byte list list \<Rightarrow> byte list" where
  "render cs = (if cs = [] then [slash] else spell cs)"

text \<open>Components as a string without zeros has them, and those no step changes.\<close>

definition component :: "byte list \<Rightarrow> bool" where
  "component c \<longleftrightarrow> slash \<notin> set c \<and> 0 \<notin> set c"

definition plain :: "byte list \<Rightarrow> bool" where
  "plain c \<longleftrightarrow> component c \<and> c \<noteq> [] \<and> c \<noteq> dot \<and> c \<noteq> dotdot"

lemma path_simps [simp]:
  "spell [] = []" "spell (c # cs) = slash # c @ spell cs" "spell (cs @ ds) = spell cs @ spell ds"
  by (simp_all add: spell_def)

lemma dots [simp]: "dot = [dot_byte]" "dotdot = [dot_byte, dot_byte]"
  by (simp_all add: dot_def dotdot_def dot_byte_def str_def)

lemma char_at_simps [simp]:
  "char_at [] i = 0" "char_at (x # xs) 0 = x" "char_at (x # xs) (Suc i) = char_at xs i"
  by (simp_all add: char_at_def)

lemma char_at_append: "char_at (xs @ ys) (length xs + k) = char_at ys k"
  by (simp add: char_at_def nth_append)

text \<open>The loop walks over what is not a slash, and over plain components.\<close>

lemma scan_word:
  assumes "slash \<notin> set w" "length (pre @ w) \<le> length s" "take (length (pre @ w)) s = pre @ w"
  shows "fix_scan s (length w + n) (length pre) p1 = fix_scan s n (length pre + length w) p1"
  using assms
proof (induction w arbitrary: pre)
  case Nil
  then show ?case by simp
next
  case (Cons x w)
  have "s ! length pre = (pre @ x # w) ! length pre"
    using Cons.prems(2,3) by (metis length_append length_Cons nth_take add_Suc_right less_add_Suc1)
  then have "char_at s (length pre) = x" using Cons.prems(2) by (simp add: char_at_def)
  then have "fix_scan s (length (x # w) + n) (length pre) p1 = fix_scan s (length w + n) (Suc (length pre)) p1"
    using Cons.prems(1) by auto
  also have "\<dots> = fix_scan s n (Suc (length pre) + length w) p1"
    using Cons.IH [of "pre @ [x]"] Cons.prems by simp
  finally show ?case by simp
qed


lemma fix_slash_suffix:
  "fix_slash (u @ slash # t) (length u) p2 =
     (let c1 = char_at t 0; c2 = char_at t 1; c3 = char_at t 2;
          p = (case p2 of Some j \<Rightarrow> j | None \<Rightarrow> length u) in
      if c1 = 0 \<and> u \<noteq> [] then Some (False, u) else
      if c1 = slash then Some (True, u @ t) else
      if c1 = dot_byte \<and> c2 = slash then Some (True, u @ drop 1 t) else
      if c1 = dot_byte \<and> c2 = 0 then Some (True, if p2 \<noteq> None then u else u @ [slash]) else
      if c1 = dot_byte \<and> c2 = dot_byte \<and> c3 = slash then Some (True, take p (u @ slash # t) @ drop 2 t) else
      if c1 = dot_byte \<and> c2 = dot_byte \<and> c3 = 0 then Some (True, take (p + 1) (u @ slash # t)) else None)"
proof -
  have c: "char_at (u @ slash # t) (length u + Suc k) = char_at t k" for k by (simp only: char_at_append char_at_simps)
  have "char_at (u @ slash # t) (length u + 1) = char_at t 0" "char_at (u @ slash # t) (length u + 2) = char_at t 1"
    "char_at (u @ slash # t) (length u + 3) = char_at t 2"
    using c [of 0] c [of 1] c [of 2] by (simp_all add: numeral_eq_Suc)
  then show ?thesis unfolding fix_slash_def Let_def by (simp add: Suc_diff_le numeral_eq_Suc)
qed

definition prev :: "byte list list \<Rightarrow> nat option" where
  "prev gs = (if gs = [] then None else Some (length (spell (butlast gs))))"

lemma plain_no_fix:
  assumes "plain g" "t = [] \<or> hd t = slash"
  shows "fix_slash (u @ slash # g @ t) (length u) p2 = None"
proof -
  have g: "slash \<notin> set g" "0 \<notin> set g" "g \<noteq> []" "g \<noteq> [dot_byte]" "g \<noteq> [dot_byte, dot_byte]"
    using assms(1) by (simp_all add: plain_def component_def)
  have t: "char_at t 0 = slash \<or> char_at t 0 = 0" using assms(2) by (cases t) auto
  show ?thesis
    unfolding fix_slash_suffix
    using g t by (cases g; cases "tl g"; cases "tl (tl g)") (auto simp: numeral_2_eq_2)
qed

lemma path_head: "spell cs = [] \<or> hd (spell cs) = slash"
  by (cases cs) simp_all

lemma prev_snoc: "prev (hs @ [g]) = Some (length (spell hs))"
  by (simp add: prev_def)

lemma scan_plain:
  assumes "\<forall>g \<in> set gs. plain g"
  shows "fix_scan (spell (hs @ gs @ cs)) (length (spell (gs @ cs))) (length (spell hs)) (prev hs)
    = fix_scan (spell (hs @ gs @ cs)) (length (spell cs)) (length (spell (hs @ gs))) (prev (hs @ gs))"
  using assms
proof (induction gs arbitrary: hs)
  case Nil
  then show ?case by simp
next
  case (Cons g gs)
  let ?s = "spell (hs @ (g # gs) @ cs)" and ?t = "spell (gs @ cs)"
  have s: "?s = spell hs @ slash # g @ ?t" by simp
  have g: "plain g" "slash \<notin> set g" using Cons.prems by (simp_all add: plain_def component_def)
  have c: "char_at ?s (length (spell hs)) = slash" unfolding s using char_at_append [of "spell hs" _ 0] by simp
  have "fix_scan ?s (length (spell ((g # gs) @ cs))) (length (spell hs)) (prev hs)
      = fix_scan ?s (length g + length ?t) (Suc (length (spell hs))) (Some (length (spell hs)))"
    using c plain_no_fix [OF g(1) path_head [of "gs @ cs"], of "spell hs"] unfolding s by simp
  also have "\<dots> = fix_scan ?s (length ?t) (length (spell hs @ [slash]) + length g) (Some (length (spell hs)))"
    using scan_word [OF g(2), of "spell hs @ [slash]" ?s] by (simp add: s)
  also have "\<dots> = fix_scan (spell ((hs @ [g]) @ gs @ cs)) (length ?t) (length (spell (hs @ [g]))) (prev (hs @ [g]))"
    by (simp add: prev_snoc)
  also have "\<dots> = fix_scan ?s (length (spell cs)) (length (spell (hs @ g # gs))) (prev (hs @ g # gs))"
    using Cons.IH [of "hs @ [g]"] Cons.prems by simp
  finally show ?case by simp
qed

lemma take_prev: "take (case prev gs of Some j \<Rightarrow> j | None \<Rightarrow> length (spell gs)) (spell gs @ xs) = spell (butlast gs)"
proof (cases "gs = []")
  case False
  then have "spell gs = spell (butlast gs) @ slash # last gs"
    by (metis append_Nil2 append_butlast_last_id path_simps)
  then show ?thesis using False by (simp add: prev_def)
qed (simp add: prev_def)

lemma take_prev_Suc: "take ((case prev gs of Some j \<Rightarrow> j | None \<Rightarrow> length (spell gs)) + 1) (spell gs @ slash # xs)
    = spell (butlast gs) @ [slash]"
proof (cases "gs = []")
  case False
  then have "spell gs = spell (butlast gs) @ slash # last gs"
    by (metis append_Nil2 append_butlast_last_id path_simps)
  then show ?thesis using False by (simp add: prev_def)
qed (simp add: prev_def)

text \<open>The first component that is not plain, and what the loop makes of the path there.\<close>

lemma scan_special:
  assumes "\<forall>g \<in> set gs. plain g" "\<forall>d \<in> set cs. component d"
  shows "fix_scan (spell (gs @ [])) (length (spell (gs @ []))) 0 None = (False, spell gs)"
    "fix_scan (spell (gs @ [[]])) (length (spell (gs @ [[]]))) 0 None = (False, render gs)"
    "cs \<noteq> [] \<Longrightarrow> fix_scan (spell (gs @ [] # cs)) (length (spell (gs @ [] # cs))) 0 None = (True, spell (gs @ cs))"
    "fix_scan (spell (gs @ [dot])) (length (spell (gs @ [dot]))) 0 None = (True, render gs)"
    "cs \<noteq> [] \<Longrightarrow> fix_scan (spell (gs @ dot # cs)) (length (spell (gs @ dot # cs))) 0 None = (True, spell (gs @ cs))"
    "fix_scan (spell (gs @ [dotdot])) (length (spell (gs @ [dotdot]))) 0 None = (True, spell (butlast gs @ [[]]))"
    "cs \<noteq> [] \<Longrightarrow> fix_scan (spell (gs @ dotdot # cs)) (length (spell (gs @ dotdot # cs))) 0 None
      = (True, spell (butlast gs @ cs))"
proof -
  have sc: "fix_scan (spell (gs @ ds)) (length (spell (gs @ ds))) 0 None
      = fix_scan (spell (gs @ ds)) (length (spell ds)) (length (spell gs)) (prev gs)" for ds
    using scan_plain [OF assms(1), of "[]" ds] by (simp add: prev_def)
  have at: "fix_scan (spell (gs @ c # ds)) (length (spell (c # ds))) (length (spell gs)) (prev gs)
      = (case fix_slash (spell gs @ slash # c @ spell ds) (length (spell gs)) (prev gs) of Some r \<Rightarrow> r
         | None \<Rightarrow> fix_scan (spell (gs @ c # ds)) (length c + length (spell ds)) (Suc (length (spell gs))) (Some (length (spell gs))))"
    for c ds using char_at_append [of "spell gs" "slash # c @ spell ds" 0] by (simp cong: option.case_cong)
  have p: "prev gs = None \<longleftrightarrow> gs = []" "spell gs = [] \<longleftrightarrow> gs = []" by (auto simp: prev_def spell_def)
  have h: "cs \<noteq> [] \<Longrightarrow> \<exists>d ds. cs = d # ds \<and> spell cs = slash # d @ spell ds" by (cases cs) simp_all
  show "fix_scan (spell (gs @ [])) (length (spell (gs @ []))) 0 None = (False, spell gs)"
    using sc [of "[]"] by simp
  show "fix_scan (spell (gs @ [[]])) (length (spell (gs @ [[]]))) 0 None = (False, render gs)"
    unfolding sc at fix_slash_suffix using p by (auto simp: render_def)
  show "fix_scan (spell (gs @ [dot])) (length (spell (gs @ [dot]))) 0 None = (True, render gs)"
    unfolding sc at fix_slash_suffix using p by (auto simp: render_def)
  show "fix_scan (spell (gs @ [dotdot])) (length (spell (gs @ [dotdot]))) 0 None = (True, spell (butlast gs @ [[]]))"
    unfolding sc at fix_slash_suffix using take_prev_Suc [of gs "dotdot"] by (simp add: numeral_2_eq_2)
  {
    assume "cs \<noteq> []"
    then obtain d ds where d: "cs = d # ds" "spell cs = slash # d @ spell ds" using h by blast
    show "fix_scan (spell (gs @ [] # cs)) (length (spell (gs @ [] # cs))) 0 None = (True, spell (gs @ cs))"
      unfolding sc at fix_slash_suffix d(2) by (simp add: d(1))
    show "fix_scan (spell (gs @ dot # cs)) (length (spell (gs @ dot # cs))) 0 None = (True, spell (gs @ cs))"
      unfolding sc at fix_slash_suffix d(2) by (simp add: d(1))
    show "fix_scan (spell (gs @ dotdot # cs)) (length (spell (gs @ dotdot # cs))) 0 None = (True, spell (butlast gs @ cs))"
      unfolding sc at fix_slash_suffix d(2) Let_def take_prev by (simp add: d(1) numeral_2_eq_2)
  }
qed


section \<open>\<open>fix_path\<close> computes the meaning of a spell\<close>

lemma foldl_plain: "\<forall>g \<in> set gs. plain g \<Longrightarrow> foldl step_path hs gs = hs @ gs"
  by (induction gs arbitrary: hs) (auto simp: step_path_def plain_def simp del: dots)

lemma resolve_plain:
  assumes "\<forall>g \<in> set gs. plain g"
  shows "resolve gs = gs" "resolve (gs @ c # cs) = foldl step_path (step_path gs c) cs"
    "resolve (gs @ cs) = foldl step_path gs cs"
  using foldl_plain [OF assms] by (simp_all add: resolve_def)

lemma not_plain: "component c \<Longrightarrow> \<not> plain c \<Longrightarrow> c = [] \<or> c = dot \<or> c = dotdot"
  by (auto simp: plain_def)

lemma fix_path_step: "fix_scan s (length s) 0 None = (b, s') \<Longrightarrow> fix_path s = (if b then fix_path s' else s')"
  by (subst fix_path.simps) (simp add: Let_def)

lemma fix_render:
  assumes "\<forall>g \<in> set gs. plain g" shows "fix_path (render gs) = render gs"
proof (cases "gs = []")
  case True
  then show ?thesis using fix_path_step [OF scan_special(2) [of "[]" "[]"]] by (simp add: render_def)
next
  case False
  then show ?thesis using fix_path_step [OF scan_special(1) [OF assms, of "[]"]] by (simp add: render_def)
qed

lemma fix_path_components:
  "cs \<noteq> [] \<Longrightarrow> \<forall>c \<in> set cs. component c \<Longrightarrow> fix_path (spell cs) = render (resolve cs)"
proof (induction "length (spell cs)" arbitrary: cs rule: less_induct)
  case less
  define gs where "gs = takeWhile plain cs"
  define rest where "rest = dropWhile plain cs"
  have cs: "cs = gs @ rest" by (simp add: gs_def rest_def)
  have gs: "\<forall>g \<in> set gs. plain g" by (auto simp: gs_def dest: set_takeWhileD)
  have bl: "\<forall>g \<in> set (butlast gs). plain g" using gs by (auto dest: in_set_butlastD)
  have comp: "\<forall>d \<in> set rest. component d" using less.prems(2) cs by simp
  note ss = scan_special [OF gs]
  show ?case
  proof (cases rest)
    case Nil
    then have "fix_path (spell cs) = spell cs" using fix_path_step [OF ss(1) [of "[]"]] cs by simp
    then show ?thesis using less.prems(1) cs Nil resolve_plain(1) [OF gs] by (simp add: render_def)
  next
    case (Cons c ds)
    have np: "\<not> plain c" using Cons by (simp add: rest_def dropWhile_eq_Cons_conv)
    have ds: "\<forall>d \<in> set ds. component d" using comp Cons by simp
    have shorter: "length (spell (hs @ ds)) < length (spell cs)" if "length (spell hs) \<le> length (spell gs)" for hs
      using that cs Cons by simp
    have again: "fix_path (spell (hs @ ds)) = render (resolve (hs @ ds))"
      if "length (spell hs) \<le> length (spell gs)" "ds \<noteq> []" "\<forall>h \<in> set hs. plain h" for hs
      by (rule less.hyps [OF shorter [OF that(1)]]) (use that ds in \<open>auto simp: plain_def\<close>)
    have short: "length (spell (butlast gs)) \<le> length (spell gs)"
      by (cases gs rule: rev_cases) simp_all
    have r: "resolve cs = foldl step_path (step_path gs c) ds" using resolve_plain(2) [OF gs] cs Cons by simp
    consider "c = []" "ds = []" | "c = []" "ds \<noteq> []" | "c = dot" "ds = []" | "c = dot" "ds \<noteq> []"
      | "c = dotdot" "ds = []" | "c = dotdot" "ds \<noteq> []"
      using not_plain [OF _ np] comp Cons by fastforce
    then show ?thesis
    proof cases
      case 1
      have "fix_path (spell cs) = render gs" using fix_path_step [OF ss(2) [of "[]"]] 1 cs Cons by simp
      then show ?thesis using r 1 by (simp add: step_path_def)
    next
      case 2
      have "fix_path (spell cs) = fix_path (spell (gs @ ds))" using fix_path_step [OF ss(3) [OF ds 2(2)]] 2 cs Cons by simp
      then show ?thesis using again [OF order.refl 2(2) gs] r 2 resolve_plain(3) [OF gs] by (simp add: step_path_def)
    next
      case 3
      have "fix_path (spell cs) = render gs"
        using fix_path_step [OF ss(4) [of "[]"]] 3 cs Cons fix_render [OF gs] by (simp del: dots)
      then show ?thesis using r 3 by (simp add: step_path_def)
    next
      case 4
      have "fix_path (spell cs) = fix_path (spell (gs @ ds))"
        using fix_path_step [OF ss(5) [OF ds 4(2)]] 4 cs Cons by (simp del: dots)
      then show ?thesis using again [OF order.refl 4(2) gs] r 4 resolve_plain(3) [OF gs] by (simp add: step_path_def)
    next
      case 5
      have "fix_path (spell cs) = fix_path (spell (butlast gs @ [[]]))"
        using fix_path_step [OF ss(6) [of "[]"]] 5 cs Cons by (simp del: dots)
      also have "\<dots> = render (butlast gs)" using fix_path_step [OF scan_special(2) [OF bl, of "[]"]] by simp
      finally show ?thesis using r 5 by (simp add: step_path_def)
    next
      case 6
      have "fix_path (spell cs) = fix_path (spell (butlast gs @ ds))"
        using fix_path_step [OF ss(7) [OF ds 6(2)]] 6 cs Cons by (simp del: dots)
      then show ?thesis using again [OF short 6(2) bl] r 6 resolve_plain(3) [OF bl] by (simp add: step_path_def)
    qed
  qed
qed

lemma split_at_word: "slash \<notin> set w \<Longrightarrow> split_at (w @ xs) = (w @ hd (split_at xs)) # tl (split_at xs)"
proof (induction w)
  case Nil
  then show ?case by (cases xs) simp_all
qed auto

lemma split_at_ne [simp]: "split_at s \<noteq> []"
  by (cases s) simp_all

lemma split_at_path: "\<forall>c \<in> set cs. component c \<Longrightarrow> split_at (spell cs) = [] # cs"
  by (induction cs) (simp_all add: split_at_word component_def)

lemma path_split_at: "hd (split_at s) @ spell (tl (split_at s)) = s"
proof (induction s)
  case (Cons x s)
  then show ?case using split_at_ne [of s] by (cases "split_at s") auto
qed simp

lemma split_at_components: "c \<in> set (split_at s) \<Longrightarrow> 0 \<notin> set s \<Longrightarrow> component c"
proof (induction s arbitrary: c)
  case Nil
  then show ?case by (simp add: component_def)
next
  case (Cons x s)
  then show ?case using split_at_ne [of s] by (cases "split_at s") (auto simp: component_def split: if_splits)
qed

lemma path_split_path: "hd s = slash \<Longrightarrow> s \<noteq> [] \<Longrightarrow> spell (split_path s) = s"
  using path_split_at [of s] by (cases s) (auto simp: split_path_def)

lemma split_path_path: "\<forall>c \<in> set cs. component c \<Longrightarrow> split_path (spell cs) = cs"
  by (simp add: split_path_def split_at_path)

lemma fix_path_resolves:
  assumes "s \<noteq> []" "hd s = slash" "0 \<notin> set s"
  shows "fix_path s = render (resolve (split_path s))"
proof -
  have ne: "split_path s \<noteq> []" using path_split_path [OF assms(2,1)] assms(1) by auto
  have "\<forall>c \<in> set (split_path s). component c"
    using split_at_components [OF list.set_sel(2) [OF split_at_ne] assms(3)] by (simp add: split_path_def)
  from fix_path_components [OF ne this] show ?thesis using path_split_path [OF assms(2,1)] by simp
qed


section \<open>The tokens of a spell are its non-empty components\<close>

lemma strtok_slash: "strtok (slash # s) = strtok s"
  by (simp add: strtok_def)

lemma strtok_word:
  assumes "slash \<notin> set w" "w \<noteq> []" "r = [] \<or> hd r = slash"
  shows "strtok (w @ r) = Some (w, drop 1 r)"
proof -
  have h: "hd w \<noteq> slash" using assms(1) hd_in_set [OF assms(2)] by metis
  then have "dropWhile (\<lambda>c. c = slash) (w @ r) = w @ r" using assms(2) by (cases w) simp_all
  moreover have "\<forall>c \<in> set w. c \<noteq> slash" using assms(1) by blast
  moreover have "takeWhile (\<lambda>c. c \<noteq> slash) r = []" "dropWhile (\<lambda>c. c \<noteq> slash) r = r"
    using assms(3) by (cases r; simp)+
  ultimately show ?thesis using assms(2) by (simp add: strtok_def)
qed

lemma strtoks_split: "strtoks s = filter (\<lambda>c. c \<noteq> []) (split_at s)"
proof (induction "length s" arbitrary: s rule: less_induct)
  case less
  consider "s = []" | t where "s = slash # t" | "s \<noteq> []" "hd s \<noteq> slash" by (cases s) auto
  then show ?case
  proof cases
    case 1
    then show ?thesis by (subst strtoks.simps) (simp add: strtok_def)
  next
    case 2
    then have "strtoks s = strtoks t" by (subst (1 2) strtoks.simps) (simp add: strtok_slash)
    then show ?thesis using less [of t] 2 by simp
  next
    case 3
    obtain w r where s: "s = w @ r" and w: "slash \<notin> set w" "w \<noteq> []" and r: "r = [] \<or> hd r = slash"
    proof
      show "s = takeWhile (\<lambda>c. c \<noteq> slash) s @ dropWhile (\<lambda>c. c \<noteq> slash) s" by simp
      show "slash \<notin> set (takeWhile (\<lambda>c. c \<noteq> slash) s)" by (auto dest: set_takeWhileD)
      show "takeWhile (\<lambda>c. c \<noteq> slash) s \<noteq> []" using 3 by (cases s) simp_all
      show "dropWhile (\<lambda>c. c \<noteq> slash) s = [] \<or> hd (dropWhile (\<lambda>c. c \<noteq> slash) s) = slash"
        using hd_dropWhile by blast
    qed
    note tk = strtok_word [OF w r]
    have "strtoks (drop 1 r) = filter (\<lambda>c. c \<noteq> []) (split_at (drop 1 r))"
      by (rule less) (use strtok_shorter [OF tk] s in simp)
    then have "strtoks s = w # filter (\<lambda>c. c \<noteq> []) (split_at (drop 1 r))"
      unfolding s by (subst strtoks.simps) (simp add: tk)
    moreover have "filter (\<lambda>c. c \<noteq> []) (split_at s) = w # filter (\<lambda>c. c \<noteq> []) (split_at (drop 1 r))"
      using r w(2) split_at_word [OF w(1), of r] unfolding s by (cases r) simp_all
    ultimately show ?thesis by simp
  qed
qed

lemma strtoks_path: "\<forall>c \<in> set cs. component c \<Longrightarrow> strtoks (spell cs) = filter (\<lambda>c. c \<noteq> []) cs"
  by (simp add: strtoks_split split_at_path)

end
