(* ===== verification/System.thy ===== *)
theory System
  imports Paths
begin

text \<open>
  The file system as a whole (\<^verbatim>\<open>include/ufs/sys.h\<close>, \<^verbatim>\<open>include/ufs/cwd.h\<close>,
  \<^verbatim>\<open>src/ufscwd*.c\<close>, \<^verbatim>\<open>src/ufsnew.c\<close>, \<^verbatim>\<open>src/ufsfree.c\<close>): several
  volumes, the inodes they are mounted on, the current directories, and the sessions of the users.
\<close>

section \<open>State\<close>

text \<open>
  A cached inode of a volume is named by the number of the volume and its address in the store of
  the volume. The arrays of handles are lists of numbers; a disk, its pager, its I/O vector and its
  virtual disk have the same number, \<open>sy_mounted\<close> is their field \<^verbatim>\<open>mounted_minode\<close>.
  \<open>sy_eye\<close> tells whether the eye catcher of the handle is set. The handles the arrays hold are
  never \<^verbatim>\<open>NULL\<close>. All volumes see one outside state, which is kept in \<open>sy_outer\<close>.
\<close>

type_synonym mref = "nat \<times> nat"

record cwd =
  cw_cur_dir :: "mref option"
  cw_root_dir :: "mref option"
  cw_refcnt :: u32
  cw_path :: "byte list"

record 'd sys =
  sy_outer :: 'd
  sy_eye :: bool
  sy_disks :: "nat list"
  sy_pagers :: "nat list"
  sy_io :: "nat list"
  sy_vdisks :: "nat list"
  sy_vol :: "nat \<Rightarrow> 'd vol option"
  sy_mounted :: "nat \<Rightarrow> mref option"
  sy_fsroot :: "mref option"
  sy_cwds :: "nat list"
  sy_cwd :: "nat \<Rightarrow> cwd option"
  sy_files :: "nat list"
  sy_mountpoint :: "mref list"
  sy_next :: nat

text \<open>The handle of a user.\<close>

record ufs =
  us_cwd :: "nat option"
  us_acee :: "acee option"
  us_flags :: u32
  us_create_perm :: u32

definition UFS_ACEE_DEFAULT :: u32 where "UFS_ACEE_DEFAULT = 0x80000000"
definition UFS_ACEE_USER :: u32 where "UFS_ACEE_USER = 0x40000000"
definition UFS_ACEE_SIGNON :: u32 where "UFS_ACEE_SIGNON = 0x20000000"

text \<open>
  Code outside \<^verbatim>\<open>src/\<close>: the outside world as disk \<open>i\<close> sees it and as code that works on no
  disk does, the C library, the folding of letters, RACF, and the table of DD names.
\<close>

record 'd env =
  en_disk :: "nat \<Rightarrow> 'd os"
  en_os :: "'d os"
  en_lib :: clib
  en_fold :: "byte \<Rightarrow> byte"
  en_upper :: "byte \<Rightarrow> byte"
  en_space :: "byte \<Rightarrow> bool"
  racf_get_acee :: "'d \<Rightarrow> acee option \<times> 'd"
  racf_login :: "byte list \<Rightarrow> byte list \<Rightarrow> byte list \<Rightarrow> 'd \<Rightarrow> acee option \<times> int \<times> 'd"
  racf_logout :: "acee \<Rightarrow> 'd \<Rightarrow> acee option \<times> 'd"
  en_tiot :: "byte list list"

section \<open>Work on one volume\<close>

definition on_vol :: "nat \<Rightarrow> ('d vol \<Rightarrow> ('a \<times> 'd vol) option) \<Rightarrow> 'd sys \<Rightarrow> ('a \<times> 'd sys) option" where
  "on_vol v f S =
     do { s \<leftarrow> sy_vol S v;
          (a, s) \<leftarrow> f (s\<lparr>v_outer := sy_outer S\<rparr>);
          Some (a, S\<lparr>sy_outer := v_outer s, sy_vol := (sy_vol S)(v \<mapsto> s)\<rparr>) }"

definition on_vol' :: "nat \<Rightarrow> ('d vol \<Rightarrow> 'd vol option) \<Rightarrow> 'd sys \<Rightarrow> 'd sys option" where
  "on_vol' v f S = map_option snd (on_vol v (\<lambda>s. map_option (\<lambda>s. ((), s)) (f s)) S)"

definition m_at :: "'d sys \<Rightarrow> mref \<Rightarrow> minode option" where
  "m_at S p = do { s \<leftarrow> sy_vol S (fst p); v_mstore s (snd p) }"

definition m_use :: "'d env \<Rightarrow> 'd sys \<Rightarrow> mref \<Rightarrow> 'd sys option" where
  "m_use E S p = on_vol' (fst p) (\<lambda>s. ufs_inode_use (en_disk E (fst p)) s (snd p)) S"

definition m_rel :: "'d env \<Rightarrow> 'd sys \<Rightarrow> mref \<Rightarrow> 'd sys option" where
  "m_rel E S p = on_vol' (fst p) (\<lambda>s. ufs_inode_rel (en_disk E (fst p)) s (snd p)) S"

definition m_rel_opt :: "'d env \<Rightarrow> 'd sys \<Rightarrow> mref option \<Rightarrow> 'd sys option" where
  "m_rel_opt E S p = (case p of None \<Rightarrow> Some S | Some p \<Rightarrow> m_rel E S p)"

definition m_get :: "'d env \<Rightarrow> 'd sys \<Rightarrow> nat \<Rightarrow> u32 \<Rightarrow> (mref option \<times> 'd sys) option" where
  "m_get E S v ino =
     do { (p, S) \<leftarrow> on_vol v (\<lambda>s. ufs_inode_get (en_disk E v) s ino) S; Some (map_option (Pair v) p, S) }"

definition m_upd :: "mref \<Rightarrow> (minode \<Rightarrow> minode) \<Rightarrow> 'd sys \<Rightarrow> 'd sys option" where
  "m_upd p f S = on_vol' (fst p) (upd_minode (snd p) f) S"

definition read_only :: "'d sys \<Rightarrow> nat \<Rightarrow> bool option" where
  "read_only S v = map_option (\<lambda>s. dk_readonly (v_disk s) \<noteq> 0) (sy_vol S v)"

section \<open>Locks and storage of the system\<close>

definition sys_lock :: "'d env \<Rightarrow> lockword \<Rightarrow> 'd sys \<Rightarrow> int \<times> 'd sys" where
  "sys_lock E k S = (let (r, d) = os_lock (en_os E) (sy_outer S) k in (r, S\<lparr>sy_outer := d\<rparr>))"

definition sys_unlock :: "'d env \<Rightarrow> int \<Rightarrow> lockword \<Rightarrow> 'd sys \<Rightarrow> 'd sys" where
  "sys_unlock E lockrc k S =
     (if lockrc = 0 then S\<lparr>sy_outer := os_unlock (en_os E) (sy_outer S) k\<rparr> else S)"

definition sys_calloc :: "'d env \<Rightarrow> nat \<Rightarrow> 'd sys \<Rightarrow> bool \<times> 'd sys" where
  "sys_calloc E n S = (let (ok, d) = os_calloc (en_os E) (sy_outer S) n in (ok, S\<lparr>sy_outer := d\<rparr>))"

definition sys_clock64 :: "'d env \<Rightarrow> 'd sys \<Rightarrow> u64 \<times> 'd sys" where
  "sys_clock64 E S = (let (t, d) = os_time64 (en_os E) (sy_outer S) in (t, S\<lparr>sy_outer := d\<rparr>))"

section \<open>Current directories\<close>

definition ufs_cwd_new :: "'d env \<Rightarrow> 'd sys \<Rightarrow> (nat option \<times> 'd sys) option" where
  "ufs_cwd_new E S =
     (let (ok, S) = sys_calloc E 272 S;
          (lockrc, S) = sys_lock E LkSys S in
      if \<not> ok then Some (None, sys_unlock E lockrc LkSys S) else
      let c = sy_next S in
      do { (cwd, S) \<leftarrow>
             (case sy_fsroot S of
                None \<Rightarrow> Some (\<lparr>cw_cur_dir = None, cw_root_dir = None, cw_refcnt = 1, cw_path = []\<rparr>, S)
              | Some p \<Rightarrow>
                  do { S \<leftarrow> m_use E S p;
                       S \<leftarrow> m_use E S p;
                       Some (\<lparr>cw_cur_dir = Some p, cw_root_dir = Some p, cw_refcnt = 1, cw_path = [slash]\<rparr>, S) });
           let S = S\<lparr>sy_cwd := (sy_cwd S)(c \<mapsto> cwd), sy_cwds := sy_cwds S @ [c], sy_next := Suc c\<rparr>
           in Some (Some c, sys_unlock E lockrc LkSys S) })"

text \<open>The result tells whether the handle is gone, which clears the caller's pointer.\<close>

definition ufs_cwd_free :: "'d env \<Rightarrow> 'd sys \<Rightarrow> nat option \<Rightarrow> (bool \<times> 'd sys) option" where
  "ufs_cwd_free E S cwd =
     (case cwd of None \<Rightarrow> Some (False, S)
      | Some c \<Rightarrow>
          let (lockrc, S) = sys_lock E LkSys S;
              (lockc, S) = sys_lock E LkCwd S;
              quit = (\<lambda>b S. Some (b, sys_unlock E lockrc LkSys (sys_unlock E lockc LkCwd S))) in
          do { w \<leftarrow> sy_cwd S c;
               let w = (if cw_refcnt w > 0 then w\<lparr>cw_refcnt := cw_refcnt w - 1\<rparr> else w);
                   S = S\<lparr>sy_cwd := (sy_cwd S)(c \<mapsto> w)\<rparr> in
               if cw_refcnt w \<noteq> 0 then quit False S else
               let S = S\<lparr>sy_cwds := rev (remove1 c (rev (sy_cwds S)))\<rparr> in
               do { S \<leftarrow> m_rel_opt E S (cw_cur_dir w);
                    S \<leftarrow> m_rel_opt E S (cw_root_dir w);
                    quit True (S\<lparr>sy_cwd := (sy_cwd S)(c := None)\<rparr>) } })"

section \<open>User handles\<close>

definition ufsnew :: "'d env \<Rightarrow> 'd sys \<Rightarrow> (ufs option \<times> 'd sys) option" where
  "ufsnew E S =
     (let (ok, S) = sys_calloc E 32 S in
      if \<not> ok then Some (None, S) else
      do { (cwd, S) \<leftarrow> ufs_cwd_new E S;
           let (acee, d) = racf_get_acee E (sy_outer S)
           in Some (Some \<lparr>us_cwd = cwd, us_acee = acee,
                us_flags = (if acee \<noteq> None then UFS_ACEE_DEFAULT else 0), us_create_perm = 0x1ED\<rparr>,
              S\<lparr>sy_outer := d\<rparr>) })"

text \<open>\<^verbatim>\<open>racf_logout\<close> is given the address of the handle, and may change it.\<close>

definition logout :: "'d env \<Rightarrow> ufs \<Rightarrow> 'd sys \<Rightarrow> ufs \<times> 'd sys" where
  "logout E u S =
     (case us_acee u of
        Some a \<Rightarrow> if us_flags u AND UFS_ACEE_SIGNON \<noteq> 0
                   then let (a, d) = racf_logout E a (sy_outer S) in (u\<lparr>us_acee := a\<rparr>, S\<lparr>sy_outer := d\<rparr>)
                   else (u, S)
      | None \<Rightarrow> (u, S))"

definition ufsfree :: "'d env \<Rightarrow> 'd sys \<Rightarrow> ufs option \<Rightarrow> 'd sys option" where
  "ufsfree E S u =
     (case u of None \<Rightarrow> Some S
      | Some u \<Rightarrow> do { (_, S) \<leftarrow> ufs_cwd_free E S (us_cwd u); Some (snd (logout E u S)) })"

definition acee_flags :: "u32 \<Rightarrow> u32" where
  "acee_flags f = f AND NOT (UFS_ACEE_DEFAULT OR UFS_ACEE_SIGNON OR UFS_ACEE_USER)"

definition ufs_set_acee :: "'d env \<Rightarrow> ufs option \<Rightarrow> acee option \<Rightarrow> 'd sys \<Rightarrow> acee option \<times> ufs option \<times> 'd sys" where
  "ufs_set_acee E u acee S =
     (case u of None \<Rightarrow> (None, None, S)
      | Some u \<Rightarrow>
          let (u, S) = logout E u S;
              f = acee_flags (us_flags u)
          in (us_acee u, Some (u\<lparr>us_acee := acee,
                us_flags := (if acee \<noteq> None then f OR UFS_ACEE_USER else f)\<rparr>), S))"

definition ufs_get_acee :: "ufs option \<Rightarrow> acee option" where
  "ufs_get_acee u = (case u of None \<Rightarrow> None | Some u \<Rightarrow> us_acee u)"

definition ufs_signon :: "'d env \<Rightarrow> ufs option \<Rightarrow> byte list \<Rightarrow> byte list \<Rightarrow> byte list \<Rightarrow> 'd sys \<Rightarrow> int \<times> ufs option \<times> 'd sys" where
  "ufs_signon E u userid password grp S =
     (let (acee, rc, d) = racf_login E userid password grp (sy_outer S);
          S = S\<lparr>sy_outer := d\<rparr> in
      case (u, acee) of
        (Some u, Some a) \<Rightarrow>
          let (u, S) = logout E u S
          in (rc, Some (u\<lparr>us_acee := Some a, us_flags := acee_flags (us_flags u) OR UFS_ACEE_SIGNON\<rparr>), S)
      | _ \<Rightarrow> (rc, u, S))"

definition ufs_signoff :: "'d env \<Rightarrow> ufs option \<Rightarrow> 'd sys \<Rightarrow> ufs option \<times> 'd sys" where
  "ufs_signoff E u S =
     (case u of None \<Rightarrow> (None, S)
      | Some u \<Rightarrow>
          if us_acee u \<noteq> None \<and> us_flags u AND UFS_ACEE_SIGNON \<noteq> 0
          then let (u, S) = logout E u S
               in (Some (u\<lparr>us_flags := us_flags u AND NOT UFS_ACEE_SIGNON\<rparr>), S)
          else (Some u, S))"

definition ufs_get_create_perm :: "ufs option \<Rightarrow> u32" where
  "ufs_get_create_perm u = (case u of None \<Rightarrow> 0 | Some u \<Rightarrow> us_create_perm u)"

definition ufs_set_create_perm :: "ufs option \<Rightarrow> u32 \<Rightarrow> u32 \<times> ufs option" where
  "ufs_set_create_perm u perm =
     (case u of None \<Rightarrow> (0, None)
      | Some u \<Rightarrow> (us_create_perm u, Some (u\<lparr>us_create_perm := perm AND 0x1FF\<rparr>)))"

definition ufs_get_cwd :: "ufs option \<Rightarrow> nat option" where
  "ufs_get_cwd u = (case u of None \<Rightarrow> None | Some u \<Rightarrow> us_cwd u)"

definition ufs_set_cwd :: "ufs option \<Rightarrow> nat option \<Rightarrow> nat option \<times> ufs option" where
  "ufs_set_cwd u cwd = (case u of None \<Rightarrow> (None, None) | Some u \<Rightarrow> (us_cwd u, Some (u\<lparr>us_cwd := cwd\<rparr>)))"

end
