(* ===== verification/Lookup.thy ===== *)
theory Lookup
  imports System
begin

text \<open>
  Finding inodes by path: \<^verbatim>\<open>ufs_lookup\<close> (\<^verbatim>\<open>src/ufs#lkup.c\<close>) and
  \<^verbatim>\<open>ufs_lookup_minode\<close> (\<^verbatim>\<open>src/ufs#lmin.c\<close>). Both follow mount points, check the
  access of the user to every directory they search, and release the inodes they pass.
\<close>

definition dir_lookup :: "'d env \<Rightarrow> 'd sys \<Rightarrow> mref \<Rightarrow> byte list \<Rightarrow> u32 \<Rightarrow> (rc \<times> u32 \<times> 'd sys) option" where
  "dir_lookup E S p name ino =
     do { m \<leftarrow> m_at S p;
          ((rc, ino), S) \<leftarrow> on_vol (fst p)
            (\<lambda>s. do { (rc, ino, s) \<leftarrow> ufs_file_lookup_by_name (en_disk E (fst p)) s m name ino; Some ((rc, ino), s) }) S;
          Some (rc, ino, S) }"

section \<open>\<open>ufs_lookup\<close>\<close>

datatype ufslkop = UFS_LOOKUP | UFS_CREATE | UFS_DELETE | UFS_RENAME

text \<open>The caller's buffer for the full path, and the length of the path in it.\<close>

type_synonym fullpath = "(block \<times> nat) option"

definition set_byte :: "nat \<Rightarrow> byte \<Rightarrow> block \<Rightarrow> block option" where
  "set_byte i x b = (if i < length b then Some (b[i := x]) else None)"

definition add_name :: "byte list \<Rightarrow> fullpath \<Rightarrow> (rc \<times> fullpath) option" where
  "add_name name fp =
     (case fp of None \<Rightarrow> Some (RcOk, None)
      | Some (buf, len) \<Rightarrow>
          if len = 0 then None else
          do { c \<leftarrow> nth_opt buf (len - 1);
               (buf, len) \<leftarrow> (if c \<noteq> slash \<and> len < UFS_PATH_MAX
                              then do { buf \<leftarrow> set_byte len slash buf; Some (buf, len + 1) } else Some (buf, len));
               if len + length name < UFS_PATH_MAX
               then let len' = len + length name in
                    if len' > length buf then None else
                    do { buf \<leftarrow> set_byte len' 0 (blit len name buf); Some (RcOk, Some (buf, len')) }
               else Some (RcErr E2BIG, Some (buf, len)) })"

text \<open>
  The checks on the directory \<open>p\<close> before the name is looked up in it, \<open>RcOk\<close> when they pass.
\<close>

definition lookup_allowed :: "'d env \<Rightarrow> 'd sys \<Rightarrow> acee option \<Rightarrow> ufslkop \<Rightarrow> mref \<Rightarrow> byte list \<Rightarrow> bool \<Rightarrow> rc option" where
  "lookup_allowed E S acee op p name islast =
     do { m \<leftarrow> m_at S p;
          ro \<leftarrow> read_only S (fst p);
          Some (if \<not> ufs_inode_auth_exec (en_fold E) acee m then RcErr EPERM else
                if islast \<and> ro \<and> (op = UFS_DELETE \<or> op = UFS_RENAME) then RcErr EROFS else
                if islast \<and> name = dot \<and> op = UFS_RENAME then RcErr EISDIR else
                if di_nlink (mi_dinode m) = 0 then RcErr ENOENT else RcOk) }"

text \<open>The inode of a name that is not the last one, through a mount point on it.\<close>

definition follow_mount :: "'d env \<Rightarrow> 'd sys \<Rightarrow> mref \<Rightarrow> (rc \<times> mref option \<times> nat \<times> 'd sys) option" where
  "follow_mount E S p =
     do { m \<leftarrow> m_at S p;
          (p', v, S) \<leftarrow>
            (case (ufs_inode_isdir (mi_dinode m), mi_mounted_vdisk m) of
               (True, Some v) \<Rightarrow> do { S \<leftarrow> m_rel E S p; (p', S) \<leftarrow> m_get E S v UFS_ROOT_INODE; Some (p', v, S) }
             | _ \<Rightarrow> Some (Some p, fst p, S));
          case p' of None \<Rightarrow> Some (RcErr ENOENT, None, v, S)
          | Some p' \<Rightarrow>
              do { m \<leftarrow> m_at S p';
                   Some (if ufs_inode_isdir (mi_dinode m) then RcOk else RcErr ENOTDIR, Some p', v, S) } }"

text \<open>
  The \<^verbatim>\<open>while\<close> loop over the names, from the inode \<open>p\<close>: the return code, the inode the loop
  stops at, \<^verbatim>\<open>*vdisk\<close>, and the full path.
\<close>

fun lookup_loop :: "'d env \<Rightarrow> acee option \<Rightarrow> ufslkop \<Rightarrow> byte list list \<Rightarrow> 'd sys \<Rightarrow> mref \<Rightarrow> fullpath \<Rightarrow>
    (rc \<times> mref option \<times> nat \<times> fullpath \<times> 'd sys) option" where
  "lookup_loop E acee op [] S p fp = Some (RcOk, Some p, fst p, fp, S)"
| "lookup_loop E acee op (name # names) S p fp =
     (let islast = (names = []); quit = (\<lambda>rc fp S. Some (rc, Some p, fst p, fp, S)) in
      do { m \<leftarrow> m_at S p;
           rc \<leftarrow> lookup_allowed E S acee op p name islast;
           if rc \<noteq> RcOk then quit rc fp S else
           do { (rc, ino, S) \<leftarrow> dir_lookup E S p name 0;
                if rc \<noteq> RcOk
                then quit (if islast \<and> (op = UFS_CREATE \<or> op = UFS_RENAME)
                              \<and> \<not> ufs_inode_auth_write (en_fold E) acee m then RcErr EPERM else rc) fp S
                else
                do { (rc, fp) \<leftarrow> add_name name fp;
                     if rc \<noteq> RcOk then quit rc fp S else
                     if islast \<and> op = UFS_DELETE \<and> \<not> ufs_inode_auth_write (en_fold E) acee m
                     then quit (RcErr EPERM) fp S
                     else
                     do { S \<leftarrow> m_rel E S p;
                          (p', S) \<leftarrow> m_get E S (fst p) ino;
                          case p' of
                            None \<Rightarrow> Some (RcErr ENOENT, None, fst p, fp, S)
                          | Some p' \<Rightarrow>
                              if islast then Some (RcOk, Some p', fst p', fp, S) else
                              do { (rc, p', v, S) \<leftarrow> follow_mount E S p';
                                   case p' of None \<Rightarrow> Some (rc, None, v, fp, S)
                                   | Some p' \<Rightarrow> if rc \<noteq> RcOk then Some (rc, Some p', v, fp, S)
                                                else lookup_loop E acee op names S p' fp } } } } })"

definition put_string :: "'d env \<Rightarrow> byte list \<Rightarrow> block \<Rightarrow> block" where
  "put_string E x buf = blit 0 (cl_strcpyp (en_lib E) UFS_PATH_MAX x 0) buf"

text \<open>
  \<open>fullpath\<close> is the buffer of the caller, and the string left in it. The inode the search ends at is
  released again; \<open>result\<close> is its number, 0 when there is none.
\<close>

definition ufs_lookup :: "'d env \<Rightarrow> 'd sys \<Rightarrow> ufs \<Rightarrow> ufslkop \<Rightarrow> byte list option \<Rightarrow> block option \<Rightarrow>
    (rc \<times> nat \<times> u32 \<times> byte list option \<times> 'd sys) option" where
  "ufs_lookup E S u op path fullpath =
     do { c \<leftarrow> us_cwd u;
          cwd \<leftarrow> sy_cwd S c;
          let path = (case path of None \<Rightarrow> [slash] | Some path \<Rightarrow> cstr path);
              absolute = (char_at path 0 = slash);
              fp = map_option (put_string E [slash]) fullpath;
              fp = (if \<not> absolute \<and> cw_path cwd \<noteq> [] then map_option (put_string E (cw_path cwd)) fp else fp);
              len = (case fp of Some buf \<Rightarrow> if \<not> absolute \<and> cw_path cwd \<noteq> [] then length (cstr buf) else 1 | None \<Rightarrow> 0);
              path = (if absolute then dropWhile (\<lambda>c. c = slash) path else path);
              start = (if absolute then cw_root_dir cwd else cw_cur_dir cwd);
              inpath = take UFS_PATH_MAX (cl_strcpyp (en_lib E) UFS_PATH_MAX path 0) in
          do { p \<leftarrow> (case start of Some p \<Rightarrow> Some p | None \<Rightarrow> sy_fsroot S);
               S \<leftarrow> m_use E S p;
               (rc, p, v, fp, S) \<leftarrow>
                 lookup_loop E (us_acee u) op (strtoks (cstr inpath)) S p (map_option (\<lambda>b. (b, len)) fp);
               (v, ino, S) \<leftarrow>
                 (case p of None \<Rightarrow> Some (v, 0, S)
                  | Some p \<Rightarrow> do { m \<leftarrow> m_at S p; S \<leftarrow> m_rel E S p; Some (fst p, mi_inode_number m, S) });
               Some (rc, v, ino, map_option (\<lambda>(b, _). fix_path (cstr b)) fp, S) } }"

section \<open>\<open>ufs_lookup_minode\<close>\<close>

text \<open>
  Entering a directory: the user must be allowed to search it, and for a mount point the root
  directory of the mounted volume too. The result has the directory to search and its volume.
\<close>

definition search_allowed :: "'d env \<Rightarrow> acee option \<Rightarrow> minode \<Rightarrow> rc" where
  "search_allowed E acee m =
     (if \<not> ufs_inode_auth_exec (en_fold E) acee m then RcErr EACCES
      else if \<not> ufs_inode_isdir (mi_dinode m) then RcErr ENOTDIR else RcOk)"

definition enter_dir :: "'d env \<Rightarrow> 'd sys \<Rightarrow> acee option \<Rightarrow> mref \<Rightarrow> (rc \<times> mref option \<times> 'd sys) option" where
  "enter_dir E S acee p =
     do { m \<leftarrow> m_at S p;
          if search_allowed E acee m \<noteq> RcOk then Some (search_allowed E acee m, Some p, S) else
          case mi_mounted_vdisk m of
            None \<Rightarrow> Some (RcOk, Some p, S)
          | Some v \<Rightarrow>
              do { S \<leftarrow> m_rel E S p;
                   (p', S) \<leftarrow> m_get E S v UFS_ROOT_INODE;
                   case p' of None \<Rightarrow> Some (RcErr ENOENT, None, S)
                   | Some p' \<Rightarrow> do { m \<leftarrow> m_at S p'; Some (search_allowed E acee m, Some p', S) } } }"

text \<open>
  The \<^verbatim>\<open>for\<close> loop. \<open>p\<close> is \<^verbatim>\<open>dir_minode\<close>; \<open>dir\<close> the contents of the caller's
  \<^verbatim>\<open>*dir\<close>, \<open>None\<close> when the caller gave no address; \<open>want_last\<close> whether the caller wants the
  last inode; \<open>full\<close> the path names seen so far; \<open>rest\<close> is \<^verbatim>\<open>next\<close>, empty for
  \<^verbatim>\<open>NULL\<close>.
\<close>

function lmin_loop :: "'d env \<Rightarrow> acee option \<Rightarrow> bool \<Rightarrow> 'd sys \<Rightarrow> mref \<Rightarrow> mref option \<Rightarrow> byte list \<Rightarrow> byte list \<Rightarrow> byte list \<Rightarrow>
    (rc \<times> mref option \<times> mref option \<times> byte list \<times> 'd sys) option" where
  "lmin_loop E acee want_last S p dir full name rest =
     (let full = full @ slash # name in
      do { (rc, d, S) \<leftarrow> enter_dir E S acee p;
           case d of None \<Rightarrow> Some (rc, dir, None, full, S)
           | Some d \<Rightarrow>
               if rc \<noteq> RcOk then Some (rc, dir, None, full, S) else
               do { S \<leftarrow> m_rel_opt E S dir;
                    let dir = map_option (\<lambda>_. d) dir in
                    do { (rc, ino, S) \<leftarrow> dir_lookup E S d name 0;
                         if rc \<noteq> RcOk then Some (rc, dir, None, full, S) else
                         do { S \<leftarrow> m_rel E S d;
                              (q, S) \<leftarrow> m_get E S (fst d) ino;
                              case q of None \<Rightarrow> Some (RcErr ENOENT, dir, None, full, S)
                              | Some q \<Rightarrow>
                                  if rest \<noteq> [] then
                                    (case strtok rest of
                                       None \<Rightarrow> Some (RcOk, dir, None, full, S)
                                     | Some (name, rest') \<Rightarrow> lmin_loop E acee want_last S q dir full name rest')
                                  else if want_last then Some (RcOk, dir, Some q, full, S)
                                  else do { S \<leftarrow> m_rel E S q; Some (RcOk, dir, None, full, S) } } } } })"
  by pat_completeness auto
termination
  by (relation "measure (\<lambda>(E, acee, want_last, S, p, dir, full, name, rest). length rest)") (auto dest: strtok_shorter)

declare lmin_loop.simps [simp del]

text \<open>
  \<open>want_dir\<close>, \<open>want_last\<close>: whether the caller gave addresses for the two inodes. The full path is kept only when
  the caller wants it; \<^verbatim>\<open>"/"\<close> stands for the empty one after a search without error.
\<close>

definition ufs_lookup_minode :: "'d env \<Rightarrow> 'd sys \<Rightarrow> ufs \<Rightarrow> byte list \<Rightarrow> bool \<Rightarrow> bool \<Rightarrow>
    (rc \<times> mref option \<times> mref option \<times> byte list \<times> 'd sys) option" where
  "ufs_lookup_minode E S u path want_dir want_last =
     do { cwd \<leftarrow> (case us_cwd u of None \<Rightarrow> Some None
                  | Some c \<Rightarrow> map_option (\<lambda>w. Some (cw_path w)) (sy_cwd S c));
          full \<leftarrow> full_path cwd path;
          case full of
            Inl rc \<Rightarrow> Some (rc, None, None, [], S)
          | Inr temppath \<Rightarrow>
              do { root \<leftarrow> sy_fsroot S;
                   S \<leftarrow> m_use E S root;
                   let dir = (if want_dir then Some root else None) in
                   case strtok temppath of
                     None \<Rightarrow> Some (RcOk, dir, None, [slash], S)
                   | Some (name, rest) \<Rightarrow> lmin_loop E (us_acee u) want_last S root dir [] name rest } }"

end
