(* ===== verification/Open.thy ===== *)
theory Open
  imports Lookup Stream_Model
begin

text \<open>
  Opening and closing files: \<^verbatim>\<open>src/ufsfinew.c\<close>, \<^verbatim>\<open>ufsfifre.c\<close>,
  \<^verbatim>\<open>ufs#open.c\<close>, \<^verbatim>\<open>ufs#crte.c\<close>, \<^verbatim>\<open>ufs#fopn.c\<close>,
  \<^verbatim>\<open>ufs#fcls.c\<close>. A handle has the number the system's array knows it by, its volume and
  the access of the user who opened it beside the fields of \<^verbatim>\<open>Stream_Model\<close>.
\<close>

record ofile =
  of_id :: nat
  of_vdisk :: nat
  of_acee :: "acee option"
  of_file :: ufile

abbreviation of_minode :: "ofile \<Rightarrow> mref" where
  "of_minode f \<equiv> (of_vdisk f, fl_minode (of_file f))"

definition get_buf :: "'d env \<Rightarrow> 'd sys \<Rightarrow> nat \<Rightarrow> (block option \<times> 'd sys) option" where
  "get_buf E S v = on_vol v (\<lambda>s. Some (ufs_disk_get_buf (en_disk E v) s)) S"

definition free_buf :: "'d env \<Rightarrow> 'd sys \<Rightarrow> nat \<Rightarrow> block \<Rightarrow> 'd sys option" where
  "free_buf E S v buf = on_vol' v (\<lambda>s. Some (ufs_disk_free_buf (en_disk E v) s buf)) S"

text \<open>\<open>has_buf\<close> is false when \<^verbatim>\<open>f->blkbuf\<close> is \<^verbatim>\<open>NULL\<close>.\<close>

definition ufs_file_free :: "'d env \<Rightarrow> 'd sys \<Rightarrow> ofile \<Rightarrow> bool \<Rightarrow> 'd sys option" where
  "ufs_file_free E S f has_buf =
     (let (lockrc, S) = sys_lock E LkSys S;
          S = S\<lparr>sy_files := rev (remove1 (of_id f) (rev (sy_files S)))\<rparr>;
          S = sys_unlock E lockrc LkSys S in
      do { S \<leftarrow> (if has_buf then free_buf E S (of_vdisk f) (fl_blkbuf (of_file f)) else Some S);
           m_rel E S (of_minode f) })"

definition new_file :: "nat \<Rightarrow> acee option \<Rightarrow> mref \<Rightarrow> u32 \<Rightarrow> block \<Rightarrow> ofile" where
  "new_file i acee p blksize buf = \<lparr> of_id = i, of_vdisk = fst p, of_acee = acee,
     of_file = \<lparr> fl_filepos = 0, fl_mode = 0, fl_ind = 0, fl_error = RcOk, fl_minode = snd p, fl_blksize = blksize,
       fl_blkno = 0, fl_blkpos = 0, fl_blkbuf = buf, fl_name = replicate (UFS_NAME_MAX + 1) 0 \<rparr> \<rparr>"

definition ufs_file_new :: "'d env \<Rightarrow> 'd sys \<Rightarrow> acee option \<Rightarrow> mref \<Rightarrow> (ofile option \<times> 'd sys) option" where
  "ufs_file_new E S acee minode =
     (let (ok, S) = sys_calloc E 112 S in
      if \<not> ok then Some (None, S) else
      do { s \<leftarrow> sy_vol S (fst minode);
           (buf, S) \<leftarrow> get_buf E S (fst minode);
           let f = new_file (sy_next S) acee minode (ucast (v_blksize s)) (case buf of None \<Rightarrow> [] | Some b \<Rightarrow> b);
               S = S\<lparr>sy_next := Suc (sy_next S)\<rparr> in
           if buf = None then do { S \<leftarrow> ufs_file_free E S f False; Some (None, S) } else
           let (lockrc, S) = sys_lock E LkSys S;
               S = S\<lparr>sy_files := sy_files S @ [of_id f]\<rparr>
           in Some (Some f, sys_unlock E lockrc LkSys S) })"

section \<open>Opening\<close>

definition on_file :: "'d env \<Rightarrow> 'd sys \<Rightarrow> ofile \<Rightarrow> ('d os \<Rightarrow> 'd vol \<Rightarrow> ufile \<Rightarrow> ((rc \<times> ufile) \<times> 'd vol) option) \<Rightarrow>
    (rc \<times> ofile \<times> 'd sys) option" where
  "on_file E S f g =
     do { ((rc, fp), S) \<leftarrow> on_vol (of_vdisk f) (\<lambda>s. g (en_disk E (of_vdisk f)) s (of_file f)) S;
          Some (rc, f\<lparr>of_file := fp\<rparr>, S) }"

text \<open>\<^verbatim>\<open>ufs_fseek(fp, 0, whence)\<close> on a handle that is there.\<close>

definition seek_handle :: "'d os \<Rightarrow> 'd vol \<Rightarrow> ufile \<Rightarrow> whence \<Rightarrow> ((rc \<times> ufile) \<times> 'd vol) option" where
  "seek_handle os s fp whence =
     do { ((rc, fp), s) \<leftarrow> ufs_fseek os s (Some fp) 0 whence; fp \<leftarrow> fp; Some ((rc, fp), s) }"

definition on_minode :: "'d env \<Rightarrow> 'd sys \<Rightarrow> mref \<Rightarrow> ('d os \<Rightarrow> 'd vol \<Rightarrow> minode \<Rightarrow> (rc \<times> minode \<times> 'd vol) option) \<Rightarrow>
    (rc \<times> 'd sys) option" where
  "on_minode E S p g = on_vol (fst p) (at_minode (snd p) (g (en_disk E (fst p)))) S"

text \<open>The name field of a handle, from the name of at most 59 characters cut from a path.\<close>

definition handle_name :: "'d env \<Rightarrow> byte list \<Rightarrow> byte list" where
  "handle_name E x =
     cl_strcpyp (en_lib E) (UFS_NAME_MAX + 1) (take UFS_NAME_MAX (cl_strcpyp (en_lib E) UFS_NAME_MAX x 0) @ [0]) 0"

definition set_atime :: "bool \<Rightarrow> u64 \<Rightarrow> minode \<Rightarrow> minode" where
  "set_atime modified t m = m\<lparr>mi_dinode := (let d = (mi_dinode m)\<lparr>di_atime := t\<rparr>
     in if modified then d\<lparr>di_mtime := t\<rparr> else d)\<rparr>"

text \<open>
  \<open>open_handle\<close> is the part of \<^verbatim>\<open>ufs_open\<close> after the handle was allocated; the results of
  truncating, seeking and writing back are not looked at.
\<close>

definition open_handle :: "'d env \<Rightarrow> 'd sys \<Rightarrow> ofile \<Rightarrow> byte \<Rightarrow> byte list \<Rightarrow> (ofile \<times> 'd sys) option" where
  "open_handle E S f fm name =
     (let f = f\<lparr>of_file := (of_file f)\<lparr>fl_mode := fm, fl_name := handle_name E name\<rparr>\<rparr>;
          p = of_minode f;
          (t, S) = sys_clock64 E S in
      do { S \<leftarrow> m_upd p (set_atime (has fm FILE_MODE_WRITE) t) S;
           S \<leftarrow> (if has fm FILE_MODE_TRUNC
                  then map_option snd (on_minode E S p (\<lambda>os s. ufs_datablock_size_change os s 0)) else Some S);
           (_, f, S) \<leftarrow> on_file E S f (\<lambda>os s fp. seek_handle os s fp
              (if has fm FILE_MODE_APPEND then UFS_SEEK_END else UFS_SEEK_SET));
           (_, S) \<leftarrow> on_minode E S p ufs_inode_writeback;
           S \<leftarrow> m_upd p (\<lambda>m. m\<lparr>mi_flags := mi_flags m AND NOT MINODE_FLAG_DIRTY\<rparr>) S;
           Some (f, S) })"

text \<open>The checks of \<^verbatim>\<open>ufs_open\<close> on the inode found; looking at \<^verbatim>\<open>NULL\<close> is undefined.\<close>

definition open_allowed :: "'d env \<Rightarrow> 'd sys \<Rightarrow> acee option \<Rightarrow> byte \<Rightarrow> mref option \<Rightarrow> rc option" where
  "open_allowed E S acee fm last_minode =
     do { ro \<leftarrow> (if has fm FILE_MODE_WRITE then do { p \<leftarrow> last_minode; read_only S (fst p) } else Some False);
          if ro then Some (RcErr EROFS) else
          case last_minode of None \<Rightarrow> Some (RcErr ENOENT)
          | Some p \<Rightarrow>
              do { m \<leftarrow> m_at S p;
                   Some (if ufs_inode_isdir (mi_dinode m) then RcErr EISDIR else
                         if \<not> ufs_inode_isfile (mi_dinode m) then RcErr ENFILE else
                         if has fm FILE_MODE_READ \<and> \<not> ufs_inode_auth_read (en_fold E) acee m then RcErr EACCES else
                         if has fm FILE_MODE_WRITE \<and> \<not> ufs_inode_auth_write (en_fold E) acee m then RcErr EACCES
                         else RcOk) } }"

text \<open>A full path found begins with a slash, so \<^verbatim>\<open>strrchr\<close> finds one.\<close>

definition ufs_open :: "'d env \<Rightarrow> 'd sys \<Rightarrow> ufs \<Rightarrow> byte list \<Rightarrow> byte \<Rightarrow> (rc \<times> ofile option \<times> 'd sys) option" where
  "ufs_open E S u path fm =
     (let quit = (\<lambda>rc f dir_minode last_minode S.
            do { S \<leftarrow> m_rel_opt E S last_minode; S \<leftarrow> m_rel_opt E S dir_minode; Some (rc, f, S) }) in
      if \<not> has fm (FILE_MODE_READ + FILE_MODE_WRITE) then Some (RcErr EINVAL, None, S) else
      do { (rc, dir_minode, last_minode, fullpath, S) \<leftarrow> ufs_lookup_minode E S u path True True;
           if rc \<noteq> RcOk then quit rc None dir_minode last_minode S else
           do { rc \<leftarrow> open_allowed E S (us_acee u) fm last_minode;
                if rc \<noteq> RcOk then quit rc None dir_minode last_minode S else
                do { p \<leftarrow> last_minode;
                     (f, S) \<leftarrow> ufs_file_new E S (us_acee u) p;
                     case f of
                       None \<Rightarrow> quit (RcErr ENOMEM) None dir_minode last_minode S
                     | Some f \<Rightarrow>
                         do { (f, S) \<leftarrow> open_handle E S f fm (after_slash fullpath);
                              quit RcOk (Some f) dir_minode None S } } } })"

section \<open>Creating\<close>

definition is_acee :: "acee \<Rightarrow> bool" where
  "is_acee a \<longleftrightarrow> take 4 (aceeacee a) = str ''ACEE''"

text \<open>Owner and group of what the user creates, \<open>grp\<close> is the group without a valid ACEE.\<close>

definition pascal :: "'d env \<Rightarrow> byte list \<Rightarrow> byte list" where
  "pascal E p = cl_memcpyp (en_lib E) 9 (take (unat (hd p)) (tl p)) 0"

definition new_attr :: "'d env \<Rightarrow> ufs \<Rightarrow> byte list \<Rightarrow> u16 \<Rightarrow> 'd sys \<Rightarrow> fileattr \<times> 'd sys" where
  "new_attr E u grp fmt S =
     (let (owner, grp) = (case us_acee u of
            Some a \<Rightarrow> if is_acee a then (pascal E (aceeuser a), pascal E (aceegrp a)) else (str ''HERC01'', grp)
          | None \<Rightarrow> (str ''HERC01'', grp));
          (t, S) = sys_clock64 E S
      in (\<lparr> at_owner = Some owner, at_group = Some grp, at_mode = fmt OR ucast (us_create_perm u), at_codepage = 0,
            at_atime = t, at_mtime = t, at_ctime = t \<rparr>, S))"

definition file_allocate :: "'d env \<Rightarrow> 'd sys \<Rightarrow> mref \<Rightarrow> byte list \<Rightarrow> fileattr \<Rightarrow> u32 \<Rightarrow> (rc \<times> u32 \<times> 'd sys) option" where
  "file_allocate E S p name attr ino =
     do { ((rc, ino), S) \<leftarrow> on_vol (fst p) (\<lambda>s.
            do { (rc, ino, s) \<leftarrow> ufs_file_allocate (en_disk E (fst p)) (en_lib E) s (snd p) name attr ino;
                 Some ((rc, ino), s) }) S;
          Some (rc, ino, S) }"


text \<open>The steps of \<^verbatim>\<open>ufs_create\<close> from the inode of the new file on; the first buffer is not given back.\<close>

definition create_handle :: "'d env \<Rightarrow> 'd sys \<Rightarrow> ufs \<Rightarrow> byte list \<Rightarrow> byte \<Rightarrow> mref \<Rightarrow> (rc \<times> ofile option \<times> 'd sys) option" where
  "create_handle E S u name fm p =
     do { (f, S) \<leftarrow> ufs_file_new E S (us_acee u) p;
          case f of
            None \<Rightarrow> do { S \<leftarrow> m_rel E S p; Some (RcErr ENOMEM, None, S) }
          | Some f \<Rightarrow>
              let f = f\<lparr>of_file := (of_file f)\<lparr>fl_mode := fm, fl_name := handle_name E name\<rparr>\<rparr> in
              do { (buf, S) \<leftarrow> get_buf E S (of_vdisk f);
                   case buf of
                     None \<Rightarrow> do { S \<leftarrow> ufs_file_free E S f False; Some (RcErr ENOMEM, None, S) }
                   | Some buf \<Rightarrow>
                       do { (_, f, S) \<leftarrow> on_file E S (f\<lparr>of_file := (of_file f)\<lparr>fl_blkbuf := buf\<rparr>\<rparr>)
                              (\<lambda>os s fp. seek_handle os s fp UFS_SEEK_SET);
                            Some (RcOk, Some f, S) } } }"

definition ufs_create :: "'d env \<Rightarrow> 'd sys \<Rightarrow> ufs \<Rightarrow> byte list \<Rightarrow> byte \<Rightarrow> (rc \<times> ofile option \<times> 'd sys) option" where
  "ufs_create E S u path fm =
     (if \<not> has fm FILE_MODE_WRITE then Some (RcErr EINVAL, None, S) else
      do { (rc, v, ino, _, S) \<leftarrow> ufs_lookup E S u UFS_CREATE (Some path) (Some (replicate (UFS_PATH_MAX + 1) 0));
           if rc = RcOk then Some (RcErr EEXIST, None, S) else
           if rc \<noteq> RcErr ENOENT then Some (rc, None, S) else
           do { ro \<leftarrow> read_only S v;
                if ro then Some (RcErr EROFS, None, S) else
                do { (p, S) \<leftarrow> m_get E S v ino;
                     case p of None \<Rightarrow> Some (RcErr ENOENT, None, S)
                     | Some p \<Rightarrow>
                         do { m \<leftarrow> m_at S p;
                              if \<not> ufs_inode_isdir (mi_dinode m)
                              then do { S \<leftarrow> m_rel E S p; Some (RcErr ENOTDIR, None, S) } else
                              let (attr, S) = new_attr E u (str ''STGADMIN'') UFS_IFREG S in
                              do { (rc, ino, S) \<leftarrow> file_allocate E S p path attr ino;
                                   S \<leftarrow> m_rel E S p;
                                   if rc \<noteq> RcOk then Some (rc, None, S) else
                                   do { (q, S) \<leftarrow> m_get E S v ino;
                                        case q of None \<Rightarrow> Some (RcErr ENOENT, None, S)
                                        | Some q \<Rightarrow> create_handle E S u (after_slash path) fm q } } } } } })"

definition ufs_fopen :: "'d env \<Rightarrow> 'd sys \<Rightarrow> ufs \<Rightarrow> byte list \<Rightarrow> byte list option \<Rightarrow> (ofile option \<times> 'd sys) option" where
  "ufs_fopen E S u path mode =
     (let fm = ufs_file_mode mode in
      if \<not> has fm (FILE_MODE_READ + FILE_MODE_WRITE) then Some (None, S) else
      do { (rc, f, S) \<leftarrow> ufs_open E S u path fm;
           if rc = RcErr ENOENT \<and> has fm FILE_MODE_CREATE
           then do { (rc, f, S) \<leftarrow> ufs_create E S u path fm; Some (f, S) }
           else Some (f, S) })"

definition ufs_fclose :: "'d env \<Rightarrow> 'd sys \<Rightarrow> ofile option \<Rightarrow> 'd sys option" where
  "ufs_fclose E S f =
     (case f of None \<Rightarrow> Some S
      | Some f \<Rightarrow>
          do { (fp, S) \<leftarrow> on_vol (of_vdisk f) (\<lambda>s. ufs_fsync (en_disk E (of_vdisk f)) s (Some (of_file f))) S;
               fp \<leftarrow> fp;
               ufs_file_free E S (f\<lparr>of_file := fp\<rparr>) True })"

end
