(* ===== verification/Dirops.thy ===== *)
theory Dirops
  imports Open "HOL-Library.List_Lexorder"
begin

text \<open>
  Operations on directories by path: \<^verbatim>\<open>ufs#md.c\<close>, \<^verbatim>\<open>ufs#rd.c\<close>,
  \<^verbatim>\<open>ufs#rem.c\<close>, \<^verbatim>\<open>ufs#cd.c\<close>, and the listing of a directory,
  \<^verbatim>\<open>ufs#dopn.c\<close>, \<^verbatim>\<open>ufs#drd.c\<close>, \<^verbatim>\<open>ufs#dcls.c\<close>.
\<close>

section \<open>Making a directory\<close>

text \<open>The path \<^verbatim>\<open>ufs_mkdir\<close> expects the lookup to have walked.\<close>

definition mkdir_path :: "byte list option \<Rightarrow> byte list \<Rightarrow> byte list" where
  "mkdir_path cwd path =
     (let temppath =
            (if char_at (cstr path) 0 = slash then take UFS_PATH_MAX (cstr path)
             else case cwd of
               None \<Rightarrow> []
             | Some cwd \<Rightarrow> take (UFS_PATH_MAX - 1) (cstr cwd @ slash # cstr path))
      in if temppath = [] then [slash] else temppath)"

definition cwd_path :: "'d sys \<Rightarrow> ufs \<Rightarrow> byte list option option" where
  "cwd_path S u = (case us_cwd u of None \<Rightarrow> Some None
     | Some c \<Rightarrow> map_option (\<lambda>w. Some (cw_path w)) (sy_cwd S c))"

text \<open>Through a mount point to the root of the mounted volume, the result is \<open>None\<close> if that has none.\<close>

definition cross_mount :: "'d env \<Rightarrow> 'd sys \<Rightarrow> mref \<Rightarrow> (mref option \<times> 'd sys) option" where
  "cross_mount E S p =
     do { m \<leftarrow> m_at S p;
          case mi_mounted_vdisk m of
            None \<Rightarrow> Some (Some p, S)
          | Some v \<Rightarrow> do { S \<leftarrow> m_rel E S p; m_get E S v UFS_ROOT_INODE } }"

definition mkdir_in :: "'d env \<Rightarrow> 'd sys \<Rightarrow> ufs \<Rightarrow> mref \<Rightarrow> byte list \<Rightarrow> (rc \<times> mref option \<times> 'd sys) option" where
  "mkdir_in E S u p fullpath =
     do { (p, S) \<leftarrow> cross_mount E S p;
          case p of None \<Rightarrow> Some (RcErr ENOENT, None, S)
          | Some p \<Rightarrow>
              do { ro \<leftarrow> read_only S (fst p);
                   m \<leftarrow> m_at S p;
                   if ro then Some (RcErr EROFS, Some p, S) else
                   if \<not> ufs_inode_auth_write (en_fold E) (us_acee u) m then Some (RcErr EACCES, Some p, S) else
                   let (attr, S) = new_attr E u (str ''ADMIN'') UFS_IFDIR S in
                   do { (rc, ino, S) \<leftarrow> file_allocate E S p fullpath attr 0;
                        if rc \<noteq> RcOk then Some (rc, Some p, S) else
                        do { S \<leftarrow> m_rel E S p;
                             (q, S) \<leftarrow> m_get E S (fst p) ino;
                             Some (if q = None then RcErr ENOENT else RcOk, q, S) } } } }"

definition ufs_mkdir :: "'d env \<Rightarrow> 'd sys \<Rightarrow> ufs \<Rightarrow> byte list option \<Rightarrow> (rc \<times> 'd sys) option" where
  "ufs_mkdir E S u path =
     (case path of None \<Rightarrow> Some (RcErr EINVAL, S)
      | Some path \<Rightarrow>
          let quit = (\<lambda>rc minode dir_minode last_minode S.
                do { S \<leftarrow> m_rel_opt E S minode; S \<leftarrow> m_rel_opt E S dir_minode;
                     S \<leftarrow> m_rel_opt E S last_minode; Some (rc, S) }) in
          do { cwd \<leftarrow> cwd_path S u;
               let temppath = mkdir_path cwd path in
               do { (rc, dir_minode, last_minode, fullpath, S) \<leftarrow> ufs_lookup_minode E S u path True True;
                    if rc = RcOk then quit (RcErr EEXIST) None dir_minode last_minode S else
                    if rc \<noteq> RcErr ENOENT then quit rc None dir_minode last_minode S else
                    if fullpath \<noteq> temppath then quit (RcErr ENOENT) None dir_minode last_minode S else
                    do { p \<leftarrow> (case last_minode of Some p \<Rightarrow> Some p | None \<Rightarrow> dir_minode);
                         (rc, minode, S) \<leftarrow> mkdir_in E S u p fullpath;
                         quit rc minode (if last_minode = None then None else dir_minode) None S } } })"

section \<open>Removing\<close>

definition file_deallocate :: "'d env \<Rightarrow> 'd sys \<Rightarrow> mref \<Rightarrow> byte list \<Rightarrow> (rc \<times> 'd sys) option" where
  "file_deallocate E S p name = on_vol (fst p) (\<lambda>s. ufs_file_deallocate (en_disk E (fst p)) s (snd p) name) S"

definition rmdir_allowed :: "'d env \<Rightarrow> 'd sys \<Rightarrow> acee option \<Rightarrow> mref option \<Rightarrow> mref option \<Rightarrow> byte list \<Rightarrow> rc option" where
  "rmdir_allowed E S acee dir_minode last_minode fullpath =
     (case (dir_minode, last_minode) of
        (Some d, Some p) \<Rightarrow>
          do { dm \<leftarrow> m_at S d;
               m \<leftarrow> m_at S p;
               dir_ro \<leftarrow> read_only S (fst d);
               ro \<leftarrow> read_only S (fst p);
               Some (if slash \<notin> set fullpath then RcErr ENOENT else
                     if \<not> ufs_inode_isdir (mi_dinode m) then RcErr ENOTDIR else
                     if dir_ro \<or> ro then RcErr EROFS else
                     if \<not> ufs_inode_auth_write (en_fold E) acee dm then RcErr EACCES else
                     if \<not> ufs_inode_auth_write (en_fold E) acee m then RcErr EACCES else
                     if mi_mounted_vdisk m \<noteq> None then RcErr EPERM else RcOk) }
      | _ \<Rightarrow> Some (RcErr ENOENT))"

definition ufs_rmdir :: "'d env \<Rightarrow> 'd sys \<Rightarrow> ufs \<Rightarrow> byte list \<Rightarrow> (rc \<times> 'd sys) option" where
  "ufs_rmdir E S u path =
     do { (rc, dir_minode, last_minode, fullpath, S) \<leftarrow> ufs_lookup_minode E S u path True True;
          rc \<leftarrow> (if rc \<noteq> RcOk then Some rc else rmdir_allowed E S (us_acee u) dir_minode last_minode fullpath);
          (rc, S) \<leftarrow> (if rc \<noteq> RcOk then Some (rc, S)
                       else do { d \<leftarrow> dir_minode; file_deallocate E S d (after_slash fullpath) });
          S \<leftarrow> m_rel_opt E S dir_minode;
          S \<leftarrow> m_rel_opt E S last_minode;
          Some (rc, S) }"

definition remove_allowed :: "'d env \<Rightarrow> 'd sys \<Rightarrow> acee option \<Rightarrow> mref option \<Rightarrow> mref option \<Rightarrow> byte list \<Rightarrow> rc option" where
  "remove_allowed E S acee dir_minode last_minode fullpath =
     (case last_minode of
        None \<Rightarrow> Some (RcErr ENOENT)
      | Some p \<Rightarrow>
          do { m \<leftarrow> m_at S p;
               if ufs_inode_isdir (mi_dinode m) then Some (RcErr EISDIR) else
               if slash \<notin> set fullpath then Some (RcErr ENOENT) else
               do { d \<leftarrow> dir_minode;
                    dm \<leftarrow> m_at S d;
                    dir_ro \<leftarrow> read_only S (fst d);
                    ro \<leftarrow> read_only S (fst p);
                    Some (if dir_ro \<or> ro then RcErr EROFS else
                          if \<not> ufs_inode_auth_write (en_fold E) acee dm then RcErr EACCES else
                          if \<not> ufs_inode_auth_write (en_fold E) acee m then RcErr EPERM else RcOk) } })"

definition ufs_remove :: "'d env \<Rightarrow> 'd sys \<Rightarrow> ufs \<Rightarrow> byte list \<Rightarrow> (rc \<times> 'd sys) option" where
  "ufs_remove E S u path =
     do { (rc, dir_minode, last_minode, fullpath, S) \<leftarrow> ufs_lookup_minode E S u path True True;
          rc \<leftarrow> (if rc \<noteq> RcOk then Some rc else remove_allowed E S (us_acee u) dir_minode last_minode fullpath);
          if rc \<noteq> RcOk
          then do { S \<leftarrow> m_rel_opt E S dir_minode; S \<leftarrow> m_rel_opt E S last_minode; Some (rc, S) }
          else do { S \<leftarrow> m_rel_opt E S last_minode;
                    d \<leftarrow> dir_minode;
                    (rc, S) \<leftarrow> file_deallocate E S d (after_slash fullpath);
                    S \<leftarrow> m_rel_opt E S dir_minode;
                    Some (rc, S) } }"

section \<open>Changing the current directory\<close>

definition chgdir_to :: "'d env \<Rightarrow> 'd sys \<Rightarrow> nat \<Rightarrow> mref \<Rightarrow> byte list \<Rightarrow> (rc \<times> mref option \<times> 'd sys) option" where
  "chgdir_to E S c p fullpath =
     do { m \<leftarrow> m_at S p;
          if \<not> ufs_inode_isdir (mi_dinode m) then Some (RcErr ENOTDIR, Some p, S) else
          do { (p, S) \<leftarrow> cross_mount E S p;
               case p of None \<Rightarrow> Some (RcErr ENOENT, None, S)
               | Some p \<Rightarrow>
                   do { w \<leftarrow> sy_cwd S c;
                        S \<leftarrow> m_rel_opt E S (cw_cur_dir w);
                        let w = w\<lparr>cw_cur_dir := Some p, cw_path := cstr (cl_strcpyp (en_lib E) 256 fullpath 0)\<rparr>
                        in Some (RcOk, None, S\<lparr>sy_cwd := (sy_cwd S)(c \<mapsto> w)\<rparr>) } } }"

definition ufs_chgdir :: "'d env \<Rightarrow> 'd sys \<Rightarrow> ufs \<Rightarrow> byte list \<Rightarrow> (rc \<times> 'd sys) option" where
  "ufs_chgdir E S u path =
     do { (rc, dir_minode, last_minode, fullpath, S) \<leftarrow> ufs_lookup_minode E S u path True True;
          if rc \<noteq> RcOk
          then do { S \<leftarrow> m_rel_opt E S dir_minode; S \<leftarrow> m_rel_opt E S last_minode; Some (rc, S) }
          else do { c \<leftarrow> us_cwd u;
                    p \<leftarrow> (case last_minode of Some p \<Rightarrow> Some p | None \<Rightarrow> dir_minode);
                    (rc, minode, S) \<leftarrow> chgdir_to E S c p fullpath;
                    S \<leftarrow> m_rel_opt E S minode;
                    S \<leftarrow> m_rel_opt E S (if last_minode = None then None else dir_minode);
                    Some (rc, S) } }"

section \<open>Listing a directory\<close>

record dirlist =
  dl_inode_number :: u32
  dl_filesize :: u32
  dl_ctime :: u64
  dl_mtime :: u64
  dl_atime :: u64
  dl_nlink :: u16
  dl_codepage :: u16
  dl_name :: "byte list"
  dl_owner :: "byte list"
  dl_group :: "byte list"
  dl_attr :: "byte list"

record ddesc =
  dd_minode :: mref
  dd_rec :: u32
  dd_dlist :: "dirlist list"
  dd_path :: "byte list"

text \<open>\<^verbatim>\<open>ufs_inode_mounted_vdisk\<close>: the directory a volume is mounted on.\<close>

fun find_mount :: "'d sys \<Rightarrow> nat \<Rightarrow> mref list \<Rightarrow> mref option option" where
  "find_mount S v [] = Some None"
| "find_mount S v (p # ps) =
     do { m \<leftarrow> m_at S p; if mi_mounted_vdisk m = Some v then Some (Some p) else find_mount S v ps }"

definition ufs_inode_mounted_vdisk :: "'d env \<Rightarrow> 'd sys \<Rightarrow> nat \<Rightarrow> (mref option \<times> 'd sys) option" where
  "ufs_inode_mounted_vdisk E S v =
     (let (lockrc, S) = sys_lock E LkSys S in
      do { p \<leftarrow> find_mount S v (sy_mountpoint S);
           S \<leftarrow> (case p of None \<Rightarrow> Some S | Some p \<Rightarrow> m_use E S p);
           Some (p, sys_unlock E lockrc LkSys S) })"

definition ddname :: "'d sys \<Rightarrow> nat \<Rightarrow> byte list option" where
  "ddname S v = map_option (\<lambda>s. cstr (dk_ddname (v_disk s))) (sy_vol S v)"

text \<open>
  The DD name shown for an entry \<open>e\<close> with inode \<open>m\<close> of directory \<open>p\<close> on volume \<open>v\<close>, if any. For
  another name of a root directory nothing has set the pointer that \<^verbatim>\<open>sprintf\<close> is given.
\<close>

definition mounted_name :: "'d env \<Rightarrow> 'd sys \<Rightarrow> nat \<Rightarrow> mref \<Rightarrow> dirent \<Rightarrow> minode \<Rightarrow> (byte list option \<times> 'd sys) option" where
  "mounted_name E S v p e m =
     (if \<not> ufs_inode_isdir (mi_dinode m) then Some (None, S) else
      do { dd \<leftarrow> (case mi_mounted_vdisk m of None \<Rightarrow> Some None | Some w \<Rightarrow> map_option Some (ddname S w));
           pm \<leftarrow> m_at S p;
           if mi_inode_number pm = UFS_ROOT_INODE \<and> de_inode_number e = UFS_ROOT_INODE then
             (if cstr (de_name e) = dot then do { n \<leftarrow> ddname S v; Some (Some n, S) }
              else if cstr (de_name e) = dotdot then
                do { (q, S) \<leftarrow> ufs_inode_mounted_vdisk E S v;
                     n \<leftarrow> ddname S (case q of None \<Rightarrow> v | Some q \<Rightarrow> fst q);
                     S \<leftarrow> m_rel_opt E S q;
                     Some (Some n, S) }
              else if dd = None \<and> length (cstr (de_name e)) < 60 - 16 then None
              else Some (Some (case dd of None \<Rightarrow> [] | Some n \<Rightarrow> n), S))
           else Some (dd, S) })"

definition time_v2 :: "u64 \<Rightarrow> u64" where
  "time_v2 t = (if v1_useconds t < 1000000 then ufs_v1_to_v2 t else t)"

definition attr_chars :: "byte \<Rightarrow> u16 \<Rightarrow> byte list" where
  "attr_chars t mode = t # map (\<lambda>(b, c). if bit mode b then ch c else ch CHR ''-'')
     [(8, CHR ''r''), (7, CHR ''w''), (6, CHR ''x''), (5, CHR ''r''), (4, CHR ''w''), (3, CHR ''x''),
      (2, CHR ''r''), (1, CHR ''w''), (0, CHR ''x'')]"

definition list_entry :: "dirent \<Rightarrow> minode \<Rightarrow> byte list option \<Rightarrow> dirlist" where
  "list_entry e m dd =
     (let d = mi_dinode m; name = cstr (de_name e);
          kind = (if dd \<noteq> None then CHR ''m'' else if ufs_inode_isdir d then CHR ''d'' else CHR ''-'') in
      \<lparr> dl_inode_number = de_inode_number e, dl_filesize = di_filesize d,
        dl_ctime = time_v2 (di_ctime d), dl_mtime = time_v2 (di_mtime d), dl_atime = time_v2 (di_atime d),
        dl_nlink = di_nlink d, dl_codepage = di_codepage d,
        dl_name = (case dd of None \<Rightarrow> name
                   | Some n \<Rightarrow> if length name < 60 - 16 then name @ str '' -> DD:'' @ n else name),
        dl_owner = cstr (di_owner d), dl_group = cstr (di_group d), dl_attr = attr_chars (ch kind) (di_mode d) \<rparr>)"

text \<open>
  One entry of the block: the new list and return code. \<open>pattern\<close> is empty when the caller gave none.
\<close>

definition list_one :: "'d env \<Rightarrow> nat \<Rightarrow> mref \<Rightarrow> byte list \<Rightarrow> dirent \<Rightarrow> dirlist list \<Rightarrow> 'd sys \<Rightarrow>
    (rc \<times> dirlist list \<times> 'd sys) option" where
  "list_one E v p pattern e l S =
     do { s \<leftarrow> sy_vol S v;
          let maxinode = ufs_max_inode (ucast (v_blksize s)) (sb_datablock_start_sector (v_sb s));
              name = cstr (de_name e) in
          if length name > UFS_NAME_MAX \<or> ch CHR '' '' \<in> set name \<or> de_inode_number e > maxinode
          then Some (RcOk, l, S) else
          do { (q, S) \<leftarrow> m_get E S v (de_inode_number e);
               case q of None \<Rightarrow> Some (RcOk, l, S)
               | Some q \<Rightarrow>
                   if cstr pattern \<noteq> [] \<and> \<not> cl_patmat (en_lib E) name pattern
                   then do { S \<leftarrow> m_rel E S q; Some (RcOk, l, S) } else
                   let (ok, S) = sys_calloc E 128 S in
                   if \<not> ok then do { S \<leftarrow> m_rel E S q; Some (RcErr ENOMEM, l, S) } else
                   do { m \<leftarrow> m_at S q;
                        (dd, S) \<leftarrow> mounted_name E S v p e m;
                        S \<leftarrow> m_rel E S q;
                        Some (RcOk, l @ [list_entry e m dd], S) } } }"

fun list_all_in :: "'d env \<Rightarrow> nat \<Rightarrow> mref \<Rightarrow> byte list \<Rightarrow> block \<Rightarrow> nat \<Rightarrow> nat \<Rightarrow> dirlist list \<Rightarrow> 'd sys \<Rightarrow>
    (rc \<times> dirlist list \<times> 'd sys) option" where
  "list_all_in E v p pattern buf 0 i l S = Some (RcOk, l, S)"
| "list_all_in E v p pattern buf (Suc n) i l S =
     do { e \<leftarrow> entry_at buf i;
          (rc, l, S) \<leftarrow> list_one E v p pattern e l S;
          if rc \<noteq> RcOk then Some (rc, l, S) else list_all_in E v p pattern buf n (Suc i) l S }"

text \<open>
  The callback works on its volume inside the system: the context carries the list and the system,
  which gets the volume back before the entries are looked at.
\<close>

definition directory_list_subr :: "'d env \<Rightarrow> nat \<Rightarrow> mref \<Rightarrow> byte list \<Rightarrow> ('d, dirlist list \<times> 'd sys) blkfun" where
  "directory_list_subr E v p pattern = on_block (en_disk E v) (RcErr EIO) (\<lambda>blk sz buf (l, S) s.
     do { (rc, l, S) \<leftarrow> list_all_in E v p pattern buf (unat (sz div 64)) 0 l
            (S\<lparr>sy_outer := v_outer s, sy_vol := (sy_vol S)(v \<mapsto> s)\<rparr>);
          s \<leftarrow> sy_vol S v;
          Some (rc, buf, (l, S), s\<lparr>v_outer := sy_outer S\<rparr>) })"

definition list_dir :: "'d env \<Rightarrow> 'd sys \<Rightarrow> mref \<Rightarrow> byte list \<Rightarrow> (dirlist list \<times> 'd sys) option" where
  "list_dir E S p pattern =
     do { m \<leftarrow> m_at S p;
          s \<leftarrow> sy_vol S (fst p);
          (_, (l, S), s) \<leftarrow> ufs_datablock_foreach (en_disk E (fst p)) (directory_list_subr E (fst p) p pattern)
            (s\<lparr>v_outer := sy_outer S\<rparr>) m ([], S);
          Some (l, S\<lparr>sy_outer := v_outer s, sy_vol := (sy_vol S)(fst p \<mapsto> s)\<rparr>) }"

text \<open>
  Entries with the same name may come in any order from \<^verbatim>\<open>qsort\<close>; here they keep theirs.
  \<open>p\<close> is the directory found, \<open>q\<close> the directory to list.
\<close>

definition ufs_diropen :: "'d env \<Rightarrow> 'd sys \<Rightarrow> ufs \<Rightarrow> byte list option \<Rightarrow> byte list option \<Rightarrow>
    (ddesc option \<times> 'd sys) option" where
  "ufs_diropen E S u path pattern =
     do { path \<leftarrow> (case path of
            Some x \<Rightarrow> if cstr x = [] then do { c \<leftarrow> us_cwd u; map_option cw_path (sy_cwd S c) } else Some x
          | None \<Rightarrow> do { c \<leftarrow> us_cwd u; map_option cw_path (sy_cwd S c) });
          (rc, dir_minode, last_minode, fullpath, S) \<leftarrow> ufs_lookup_minode E S u path True True;
          let quit = (\<lambda>d S. do { S \<leftarrow> m_rel_opt E S last_minode; S \<leftarrow> m_rel_opt E S dir_minode; Some (d, S) }) in
          if rc \<noteq> RcOk then quit None S else
          case (case last_minode of Some p \<Rightarrow> Some p | None \<Rightarrow> dir_minode) of
            None \<Rightarrow> quit None S
          | Some p \<Rightarrow>
              do { m \<leftarrow> m_at S p;
                   (q, S) \<leftarrow> cross_mount E S p;
                   case q of None \<Rightarrow> quit None S
                   | Some q \<Rightarrow>
                       do { S \<leftarrow> (if mi_mounted_vdisk m \<noteq> None then m_use E S q else Some S);
                            qm \<leftarrow> m_at S q;
                            if \<not> ufs_inode_auth_read (en_fold E) (us_acee u) qm then quit None S else
                            let (ok, S) = sys_calloc E 280 S in
                            if \<not> ok then quit None S else
                            do { (l, S) \<leftarrow> list_dir E S q (case pattern of None \<Rightarrow> [] | Some x \<Rightarrow> x);
                                 quit (Some \<lparr> dd_minode = q, dd_rec = 0, dd_dlist = sort_key dl_name l,
                                   dd_path = cstr (cl_strcpyp (en_lib E) 257 fullpath 0) \<rparr>) S } } } }"

definition ufs_dirread :: "ddesc option \<Rightarrow> dirlist option \<times> ddesc option" where
  "ufs_dirread d =
     (case d of None \<Rightarrow> (None, None)
      | Some d \<Rightarrow>
          let i = dd_rec d + 1
          in (if i = 0 then None else nth_opt (dd_dlist d) (unat i - 1), Some (d\<lparr>dd_rec := i\<rparr>)))"

definition ufs_dirclose :: "'d env \<Rightarrow> 'd sys \<Rightarrow> ddesc option \<Rightarrow> 'd sys option" where
  "ufs_dirclose E S d = (case d of None \<Rightarrow> Some S | Some d \<Rightarrow> m_rel E S (dd_minode d))"

end
