(* ===== verification/Mount.thy ===== *)
theory Mount
  imports Dirops
begin

text \<open>
  Mounting volumes on directories and the life of the whole file system:
  \<^verbatim>\<open>src/ufsmount.c\<close>, \<^verbatim>\<open>ufsunm*.c\<close>, \<^verbatim>\<open>ufsfstab.c\<close>,
  \<^verbatim>\<open>ufs#sync.c\<close>, \<^verbatim>\<open>ufssynew.c\<close>, \<^verbatim>\<open>ufssytrm.c\<close>,
  \<^verbatim>\<open>ufsvdfre.c\<close>.
\<close>

section \<open>Mounting\<close>

text \<open>The first volume of a list with this DD name.\<close>

fun find_ddname :: "'d sys \<Rightarrow> byte list \<Rightarrow> nat list \<Rightarrow> nat option option" where
  "find_ddname S dd [] = Some None"
| "find_ddname S dd (v # vs) =
     do { n \<leftarrow> ddname S v; if n = cstr dd then Some (Some v) else find_ddname S dd vs }"

text \<open>
  The root directory of the volume to mount, when it has a usable one. The second result is
  \<^verbatim>\<open>minode\<close>, which the caller releases at its exit, \<open>None\<close> once it was released here.
\<close>

definition root_allowed :: "'d env \<Rightarrow> 'd sys \<Rightarrow> nat \<Rightarrow> (rc \<times> mref option \<times> 'd sys) option" where
  "root_allowed E S v =
     do { (p, S) \<leftarrow> m_get E S v UFS_ROOT_INODE;
          case p of None \<Rightarrow> Some (RcErr EIO, None, S)
          | Some p \<Rightarrow>
              do { m \<leftarrow> m_at S p;
                   if \<not> ufs_inode_isdir (mi_dinode m) then Some (RcErr ENOTDIR, Some p, S) else
                   if di_nlink (mi_dinode m) < 2 then Some (RcErr EINVAL, Some p, S) else
                   do { S \<leftarrow> m_rel E S p; Some (RcOk, None, S) } } }"

definition mount_on :: "'d env \<Rightarrow> 'd sys \<Rightarrow> nat \<Rightarrow> mref \<Rightarrow> 'd sys option" where
  "mount_on E S v p =
     do { S \<leftarrow> m_use E S p;
          S \<leftarrow> m_upd p (\<lambda>m. m\<lparr>mi_type := mi_type m OR MINODE_TYPE_MOUNTPOINT, mi_mounted_vdisk := Some v\<rparr>) S;
          Some (S\<lparr>sy_mounted := (sy_mounted S)(v \<mapsto> p), sy_mountpoint := sy_mountpoint S @ [p]\<rparr>) }"

text \<open>
  From the directory \<open>p\<close> the path led to; two of the checks end with the return code 0. The second
  result is \<^verbatim>\<open>minode\<close>.
\<close>

definition mount_checked :: "'d env \<Rightarrow> 'd sys \<Rightarrow> acee option \<Rightarrow> nat \<Rightarrow> mref \<Rightarrow> (rc \<times> mref option \<times> 'd sys) option" where
  "mount_checked E S acee v p =
     (if sy_mounted S v \<noteq> None then Some (RcOk, None, S) else
      if p \<in> set (sy_mountpoint S) then Some (RcOk, None, S) else
      do { S \<leftarrow> m_use E S p;
           m \<leftarrow> m_at S p;
           if \<not> ufs_inode_isdir (mi_dinode m) then Some (RcErr ENOTDIR, Some p, S) else
           if \<not> ufs_inode_auth_write (en_fold E) acee m then Some (RcErr EPERM, Some p, S) else
           if mi_mounted_vdisk m \<noteq> None then Some (RcErr EBUSY, Some p, S) else
           do { S \<leftarrow> mount_on E S v p; Some (RcOk, Some p, S) } })"

text \<open>The inodes the lookup delivers are not released.\<close>

definition ufs_mount :: "'d env \<Rightarrow> 'd sys \<Rightarrow> ufs \<Rightarrow> byte list option \<Rightarrow> byte list option \<Rightarrow> (rc \<times> 'd sys) option" where
  "ufs_mount E S u dd path =
     (case (dd, path) of
        (Some dd, Some path) \<Rightarrow>
          let (lockrc, S) = sys_lock E LkSys S;
              quit = (\<lambda>rc minode S. do { S \<leftarrow> m_rel_opt E (sys_unlock E lockrc LkSys S) minode; Some (rc, S) }) in
          do { v \<leftarrow> find_ddname S dd (sy_vdisks S);
               case v of None \<Rightarrow> quit (RcErr ENOENT) None S
               | Some v \<Rightarrow>
                   do { (rc, minode, S) \<leftarrow> root_allowed E S v;
                        if rc \<noteq> RcOk then quit rc minode S else
                        do { (rc, _, last_minode, _, S) \<leftarrow> ufs_lookup_minode E S u path True True;
                             if rc \<noteq> RcOk then quit rc None S else
                             case last_minode of None \<Rightarrow> quit (RcErr ENOENT) None S
                             | Some p \<Rightarrow> do { (rc, minode, S) \<leftarrow> mount_checked E S (us_acee u) v p; quit rc minode S } } } }
      | _ \<Rightarrow> Some (RcErr EINVAL, S))"

section \<open>Unmounting\<close>

definition ufs_unmount_inode :: "'d env \<Rightarrow> 'd sys \<Rightarrow> mref option \<Rightarrow> (rc \<times> 'd sys) option" where
  "ufs_unmount_inode E S p =
     (case p of None \<Rightarrow> Some (RcErr EINVAL, S)
      | Some p \<Rightarrow>
          do { m \<leftarrow> m_at S p;
               if \<not> ufs_inode_isdir (mi_dinode m) then Some (RcErr ENOTDIR, S) else
               case mi_mounted_vdisk m of None \<Rightarrow> Some (RcErr EPERM, S)
               | Some v \<Rightarrow>
                   if sy_mounted S v \<noteq> Some p then Some (RcErr EPERM, S) else
                   let (lockrc, S) = sys_lock E LkSys S;
                       S = S\<lparr>sy_mountpoint := rev (remove1 p (rev (sy_mountpoint S)))\<rparr> in
                   do { S \<leftarrow> m_upd p (\<lambda>m. m\<lparr>mi_mounted_vdisk := None\<rparr>) S;
                        S \<leftarrow> m_rel E (S\<lparr>sy_mounted := (sy_mounted S)(v := None)\<rparr>) p;
                        Some (RcOk, sys_unlock E lockrc LkSys S) } })"

text \<open>The use count the lookup took is not released.\<close>

definition ufs_unmount_path :: "'d env \<Rightarrow> 'd sys \<Rightarrow> ufs \<Rightarrow> byte list option \<Rightarrow> (rc \<times> 'd sys) option" where
  "ufs_unmount_path E S u path =
     (case path of None \<Rightarrow> Some (RcErr EINVAL, S)
      | Some path \<Rightarrow>
          if cstr path = [slash] then ufs_unmount_inode E S (sy_fsroot S) else
          do { (rc, _, minode, _, S) \<leftarrow> ufs_lookup_minode E S u path False True;
               if rc \<noteq> RcOk then Some (rc, S) else
               if minode = None then Some (RcErr ENOENT, S) else ufs_unmount_inode E S minode })"

definition ufs_unmount_vdisk :: "'d env \<Rightarrow> 'd sys \<Rightarrow> nat option \<Rightarrow> (rc \<times> 'd sys) option" where
  "ufs_unmount_vdisk E S v =
     (case v of None \<Rightarrow> Some (RcErr EINVAL, S)
      | Some v \<Rightarrow> if sy_mounted S v = None then Some (RcErr EPERM, S) else ufs_unmount_inode E S (sy_mounted S v))"

definition ufs_unmount_ddname :: "'d env \<Rightarrow> 'd sys \<Rightarrow> byte list option \<Rightarrow> (rc \<times> 'd sys) option" where
  "ufs_unmount_ddname E S dd =
     (case dd of None \<Rightarrow> Some (RcErr EINVAL, S)
      | Some dd \<Rightarrow>
          let upname = map (en_upper E) (take 11 (cstr dd));
              (lockrc, S) = sys_lock E LkSys S;
              quit = (\<lambda>rc S. Some (rc, sys_unlock E lockrc LkSys S)) in
          do { v \<leftarrow> find_ddname S upname (sy_vdisks S);
               case (case v of None \<Rightarrow> None | Some v \<Rightarrow> sy_mounted S v) of
                 None \<Rightarrow> quit (RcErr ENOENT) S
               | Some p \<Rightarrow> do { (rc, S) \<leftarrow> ufs_unmount_inode E S (Some p); quit rc S } })"

fun unmount_from :: "'d env \<Rightarrow> nat \<Rightarrow> rc \<Rightarrow> 'd sys \<Rightarrow> (rc \<times> 'd sys) option" where
  "unmount_from E 0 rc S = Some (rc, S)"
| "unmount_from E (Suc n) rc S =
     (case nth_opt (sy_mountpoint S) n of
        None \<Rightarrow> unmount_from E n rc S
      | Some p \<Rightarrow>
          do { m \<leftarrow> m_at S p;
               (rc, S) \<leftarrow> (if mi_mounted_vdisk m = None then Some (rc, S) else ufs_unmount_inode E S (Some p));
               unmount_from E n rc S })"

definition ufs_unmount_all :: "'d env \<Rightarrow> 'd sys \<Rightarrow> (rc \<times> 'd sys) option" where
  "ufs_unmount_all E S =
     do { (u, S) \<leftarrow> ufsnew E S;
          if u = None then Some (RcErr ENOMEM, S) else
          let (lockrc, S) = sys_lock E LkSys S in
          do { (rc, S) \<leftarrow> unmount_from E (length (sy_mountpoint S)) RcOk S;
               S \<leftarrow> ufsfree E (sys_unlock E lockrc LkSys S) u;
               Some (rc, S) } }"

section \<open>\<open>/etc/fstab\<close>\<close>

text \<open>\<^verbatim>\<open>strtok\<close> with the separators of a line, as \<open>strtok\<close> has it for the slash.\<close>

definition separator :: "byte \<Rightarrow> bool" where
  "separator c \<longleftrightarrow> c \<in> {ch CHR '' '', ch CHR '','', ch (CHR 0x09)}"

definition next_word :: "byte list \<Rightarrow> (byte list \<times> byte list) option" where
  "next_word s =
     (let t = dropWhile separator s in
      if t = [] then None
      else Some (takeWhile (\<lambda>c. \<not> separator c) t, drop 1 (dropWhile (\<lambda>c. \<not> separator c) t)))"

text \<open>The disk a line names: by DD name (\<open>Inl\<close>) or by dataset name (\<open>Inr\<close>).\<close>

definition fstab_disk :: "byte list \<Rightarrow> (byte list + byte list) option" where
  "fstab_disk p =
     (let value = dropWhile (\<lambda>c. c = ch CHR '' '') (drop 7 p) in
      if strncmp_eq 7 p (str ''ddname='') then Some (Inl value) else
      if strncmp_eq 7 p (str ''dsname='') then Some (Inr value) else
      if length p \<le> 8 \<and> dot_byte \<notin> set p then Some (Inl p) else
      if length p \<le> 44 \<and> dot_byte \<in> set p \<and> ch CHR ''('' \<notin> set p \<and> ch CHR '')'' \<notin> set p then Some (Inr p)
      else None)"

definition fstab_line :: "'d env \<Rightarrow> byte list \<Rightarrow> ((byte list + byte list) \<times> byte list) option" where
  "fstab_line E buf =
     (case next_word (rev (dropWhile (en_space E) (rev buf))) of
        None \<Rightarrow> None
      | Some (p, rest) \<Rightarrow>
          if hd p = ch CHR ''#'' then None else
          do { d \<leftarrow> fstab_disk p;
               (path, _) \<leftarrow> next_word rest;
               if path = [slash] then None else Some (d, path) })"

fun find_disk :: "'d sys \<Rightarrow> byte list + byte list \<Rightarrow> nat list \<Rightarrow> nat option option" where
  "find_disk S d [] = Some None"
| "find_disk S d (v # vs) =
     do { s \<leftarrow> sy_vol S v;
          if (case d of Inl n \<Rightarrow> cstr (dk_ddname (v_disk s)) = n | Inr n \<Rightarrow> cstr (dk_dsname (v_disk s)) = n)
          then Some (Some v) else find_disk S d vs }"

definition fstab_allowed :: "'d env \<Rightarrow> 'd sys \<Rightarrow> acee option \<Rightarrow> nat \<Rightarrow> mref \<Rightarrow> bool option" where
  "fstab_allowed E S acee v p =
     do { m \<leftarrow> m_at S p;
          Some (sy_mounted S v = None \<and> p \<notin> set (sy_mountpoint S) \<and> mi_mounted_vdisk m = None
            \<and> ufs_inode_isdir (mi_dinode m) \<and> ufs_inode_auth_write (en_fold E) acee m) }"

text \<open>One line: a problem is reported on the console, the return code is that of the lookup.\<close>

definition ufs_fstab_mount :: "'d env \<Rightarrow> 'd sys \<Rightarrow> ufs \<Rightarrow> byte list \<Rightarrow> (rc \<times> 'd sys) option" where
  "ufs_fstab_mount E S u buf =
     (let (lockrc, S) = sys_lock E LkSys S;
          quit = (\<lambda>rc last_minode dir_minode minode S.
            do { S \<leftarrow> m_rel_opt E (sys_unlock E lockrc LkSys S) last_minode;
                 S \<leftarrow> m_rel_opt E S dir_minode;
                 S \<leftarrow> m_rel_opt E S minode;
                 Some (rc, S) }) in
      case fstab_line E (cstr buf) of None \<Rightarrow> quit RcOk None None None S
      | Some (d, path) \<Rightarrow>
          do { v \<leftarrow> find_disk S d (drop 1 (sy_vdisks S));
               case v of None \<Rightarrow> quit RcOk None None None S
               | Some v \<Rightarrow>
                   do { (ok, minode, S) \<leftarrow> root_allowed E S v;
                        if ok \<noteq> RcOk then quit RcOk None None minode S else
                        do { (rc, dir_minode, last_minode, _, S) \<leftarrow> ufs_lookup_minode E S u path True True;
                             S \<leftarrow> (case last_minode of
                                      Some p \<Rightarrow>
                                        if rc \<noteq> RcOk then Some S else
                                        do { ok \<leftarrow> fstab_allowed E S (us_acee u) v p;
                                             if ok then mount_on E S v p else Some S }
                                    | None \<Rightarrow> Some S);
                             quit rc last_minode dir_minode None S } } })"

text \<open>The loop ends when \<^verbatim>\<open>ufs_fgets\<close> delivers no line any more.\<close>

partial_function (option) fstab_loop :: "'d env \<Rightarrow> ufs \<Rightarrow> ofile \<Rightarrow> rc \<Rightarrow> 'd sys \<Rightarrow> (rc \<times> ofile \<times> 'd sys) option" where
  "fstab_loop E u f rc S =
     do { ((line, fp), S) \<leftarrow> on_vol (of_vdisk f) (\<lambda>s. ufs_fgets (en_disk E (of_vdisk f)) (ch (CHR 0x0A)) s 256 (Some (of_file f))) S;
          fp \<leftarrow> fp;
          case line of
            None \<Rightarrow> Some (rc, f\<lparr>of_file := fp\<rparr>, S)
          | Some line \<Rightarrow>
              do { (rc, S) \<leftarrow> ufs_fstab_mount E S u line; fstab_loop E u (f\<lparr>of_file := fp\<rparr>) rc S } }"

definition ufs_fstab :: "'d env \<Rightarrow> 'd sys \<Rightarrow> ufs \<Rightarrow> byte list \<Rightarrow> (rc \<times> 'd sys) option" where
  "ufs_fstab E S u fn =
     do { (f, S) \<leftarrow> ufs_fopen E S u fn (Some (str ''r''));
          case f of None \<Rightarrow> Some (RcErr ENOENT, S)
          | Some f \<Rightarrow>
              do { (rc, f, S) \<leftarrow> fstab_loop E u f RcOk S;
                   S \<leftarrow> ufs_fclose E S (Some f);
                   Some (rc, S) } }"

section \<open>Synchronising\<close>

definition sync_volume :: "'d env \<Rightarrow> nat \<Rightarrow> 'd sys \<Rightarrow> 'd sys option" where
  "sync_volume E v S = on_vol' v (\<lambda>s.
     let os = en_disk E v; (lockdisk, s) = lock os LkDisk s in
     do { s \<leftarrow> (if sb_modified (v_sb s) \<noteq> 0
                  then do { (rc, s) \<leftarrow> ufs_disk_write_super os s;
                            Some (if rc \<noteq> RcOk then s else upd_sb (\<lambda>b. b\<lparr>sb_modified := 0\<rparr>) s) }
                  else Some s);
          let (_, s) = ufs_pager_flush os s in Some (unlock os lockdisk LkDisk s) }) S"

fun for_all :: "(nat \<Rightarrow> 'd sys \<Rightarrow> 'd sys option) \<Rightarrow> nat list \<Rightarrow> 'd sys \<Rightarrow> 'd sys option" where
  "for_all f [] S = Some S"
| "for_all f (v # vs) S = do { S \<leftarrow> f v S; for_all f vs S }"

definition ufs_sync :: "'d env \<Rightarrow> 'd sys \<Rightarrow> 'd sys option" where
  "ufs_sync E S =
     (let (lockrc, S) = sys_lock E LkSys S in
      if \<not> lock_held lockrc then Some S else
      do { S \<leftarrow> for_all (sync_volume E) (sy_pagers S) S; Some (sys_unlock E lockrc LkSys S) })"

section \<open>Starting and stopping the file system\<close>

text \<open>
  \<^verbatim>\<open>ufs_vdisk_free\<close> takes the inodes out of the cache from the last to the first, writes back
  those marked as changed and releases each.
\<close>

fun free_minodes :: "'d os \<Rightarrow> nat \<Rightarrow> 'd vol \<Rightarrow> 'd vol option" where
  "free_minodes os 0 s = Some s"
| "free_minodes os (Suc n) s =
     (case nth_opt (v_minodes s) n of
        None \<Rightarrow> free_minodes os n s
      | Some p \<Rightarrow>
          do { let s = s\<lparr>v_minodes := take n (v_minodes s) @ drop (Suc n) (v_minodes s)\<rparr> in
               do { m \<leftarrow> v_mstore s p;
                    s \<leftarrow> (if mi_flags m AND MINODE_FLAG_DIRTY \<noteq> 0
                            then map_option snd (at_minode p (ufs_inode_writeback os) s) else Some s);
                    s \<leftarrow> ufs_inode_rel os s p;
                    free_minodes os n s } })"

definition ufs_vdisk_free :: "'d env \<Rightarrow> nat \<Rightarrow> 'd sys \<Rightarrow> 'd sys option" where
  "ufs_vdisk_free E v S =
     on_vol' v (\<lambda>s. map_option (\<lambda>s. s\<lparr>v_minodes := []\<rparr>) (free_minodes (en_disk E v) (length (v_minodes s)) s)) S"

definition free_root :: "'d env \<Rightarrow> 'd sys \<Rightarrow> 'd sys option" where
  "free_root E S =
     (case sy_fsroot S of None \<Rightarrow> Some S
      | Some p \<Rightarrow>
          do { m \<leftarrow> m_at S p;
               S \<leftarrow> (if mi_flags m AND MINODE_FLAG_DIRTY \<noteq> 0
                       then map_option snd (on_minode E S p ufs_inode_writeback) else Some S);
               S \<leftarrow> m_rel E S p;
               Some (S\<lparr>sy_fsroot := None\<rparr>) })"

definition close_disk :: "'d env \<Rightarrow> nat \<Rightarrow> 'd sys \<Rightarrow> 'd sys option" where
  "close_disk E v S =
     do { s \<leftarrow> sy_vol S v;
          d \<leftarrow> ufs_disk_close (en_disk E v) (s\<lparr>v_outer := sy_outer S\<rparr>);
          Some (S\<lparr>sy_outer := d, sy_vol := (sy_vol S)(v := None)\<rparr>) }"

text \<open>
  The array of mount points exists once there is a root, which is its first element. The handle is
  cleared at the end; what remains is the outside state.
\<close>

definition empty_sys :: "'d \<Rightarrow> 'd sys" where
  "empty_sys d = \<lparr> sy_outer = d, sy_eye = False, sy_disks = [], sy_pagers = [], sy_io = [], sy_vdisks = [],
     sy_vol = (\<lambda>_. None), sy_mounted = (\<lambda>_. None), sy_fsroot = None, sy_cwds = [], sy_cwd = (\<lambda>_. None),
     sy_files = [], sy_mountpoint = [], sy_next = 0 \<rparr>"

definition ufs_sys_term :: "'d env \<Rightarrow> 'd sys \<Rightarrow> 'd sys option" where
  "ufs_sys_term E S =
     (if \<not> sy_eye S then Some S else
      do { S \<leftarrow> for_all (\<lambda>c S. map_option snd (ufs_cwd_free E S (Some c))) (rev (sy_cwds S)) (S\<lparr>sy_cwds := []\<rparr>);
           S \<leftarrow> (if sy_fsroot S \<noteq> None then map_option snd (ufs_unmount_all E S) else Some S);
           S \<leftarrow> free_root E S;
           S \<leftarrow> for_all (ufs_vdisk_free E) (rev (sy_vdisks S)) S;
           S \<leftarrow> for_all (\<lambda>v S. on_vol' v (\<lambda>s. Some (ufs_pager_free (en_disk E v) s True)) S) (rev (sy_pagers S)) S;
           S \<leftarrow> for_all (close_disk E) (rev (sy_disks S)) S;
           Some (empty_sys (sy_outer S)) })"

definition dd_of :: "nat \<Rightarrow> byte list" where
  "dd_of i = str ''UFSDISK'' @ [digit i]"

definition find_dd :: "'d env \<Rightarrow> byte list \<Rightarrow> bool" where
  "find_dd E dd \<longleftrightarrow> dd \<in> set (map (take 8) (en_tiot E))"

text \<open>
  The first disk becomes the root of the file system and is mounted on its own root directory. The
  flag is false when its root inode cannot be had, which ends \<^verbatim>\<open>ufs_sys_new\<close>.
\<close>

definition first_root :: "'d env \<Rightarrow> nat \<Rightarrow> 'd sys \<Rightarrow> (bool \<times> 'd sys) option" where
  "first_root E i S =
     (if sy_fsroot S \<noteq> None then Some (True, S) else
      do { (p, S) \<leftarrow> m_get E S i UFS_ROOT_INODE;
           case p of None \<Rightarrow> Some (False, S)
           | Some p \<Rightarrow>
               do { S \<leftarrow> m_upd p (\<lambda>m. m\<lparr>mi_mounted_vdisk := Some i\<rparr>) S;
                    Some (True, S\<lparr>sy_fsroot := Some p, sy_mounted := (sy_mounted S)(i \<mapsto> p),
                       sy_mountpoint := sy_mountpoint S @ [p]\<rparr>) } })"

text \<open>One of the disks 0 to 9, with 20 pages of cache. The flag is false when storage or the root fails.\<close>

definition add_disk :: "'d env \<Rightarrow> nat \<Rightarrow> 'd sys \<Rightarrow> (bool \<times> 'd sys) option" where
  "add_disk E i S =
     (if \<not> find_dd E (dd_of i) then Some (True, S) else
      do { (s, d) \<leftarrow> ufs_disk_open (en_disk E i) (sy_outer S) (cl_strcpyp (en_lib E) 9 (dd_of i) 0) True;
           let S = S\<lparr>sy_outer := d\<rparr> in
           case s of None \<Rightarrow> Some (True, S)
           | Some s \<Rightarrow>
               let S = S\<lparr>sy_disks := sy_disks S @ [i]\<rparr>;
                   (ok, S) = sys_calloc E 40 S;
                   S = (if ok then S\<lparr>sy_pagers := sy_pagers S @ [i]\<rparr> else S);
                   S = S\<lparr>sy_vol := (sy_vol S)(i \<mapsto> s\<lparr>v_pager := (if ok then Some (ufs_pager_new 20) else None)\<rparr>)\<rparr>;
                   (ok, S) = sys_calloc E 20 S in
               if \<not> ok then Some (False, S) else
               let (ok, S) = sys_calloc E 24 (S\<lparr>sy_io := sy_io S @ [i]\<rparr>) in
               if \<not> ok then Some (False, S) else
               first_root E i (S\<lparr>sy_vdisks := sy_vdisks S @ [i]\<rparr>) })"

fun add_disks :: "'d env \<Rightarrow> nat list \<Rightarrow> 'd sys \<Rightarrow> (bool \<times> 'd sys) option" where
  "add_disks E [] S = Some (True, S)"
| "add_disks E (i # is) S =
     do { (ok, S) \<leftarrow> add_disk E i S; if \<not> ok then Some (False, S) else add_disks E is S }"

text \<open>The result tells whether a handle is returned.\<close>

definition ufs_sys_new :: "'d env \<Rightarrow> 'd sys \<Rightarrow> (bool \<times> 'd sys) option" where
  "ufs_sys_new E S =
     (if sy_eye S then Some (True, S) else
      do { (ok, S) \<leftarrow> add_disks E [0..<10] (S\<lparr>sy_eye := True\<rparr>);
           if \<not> ok then do { S \<leftarrow> ufs_sys_term E S; Some (False, S) } else
           if length (sy_disks S) > 1
           then do { (u, S) \<leftarrow> ufsnew E S;
                     S \<leftarrow> (case u of None \<Rightarrow> Some S
                              | Some u \<Rightarrow> do { (_, S) \<leftarrow> ufs_fstab E S u (str ''/etc/fstab'');
                                                  ufsfree E S (Some u) });
                     Some (True, S) }
           else Some (True, S) })"

end
