(* ===== verification/Walk.thy ===== *)
theory Walk
  imports Mount
begin

text \<open>
  What the lookup by path does whatever the volumes hold: the full path it writes stays inside the
  caller's buffer and spells the names it looked up, and the checks of the operations that use it.
\<close>

section \<open>The full path of \<open>ufs_lookup_minode\<close>\<close>

text \<open>
  \<^verbatim>\<open>strcat\<close> appends a slash and a name for every step: what is appended is bounded by what is
  left of the string that \<^verbatim>\<open>strtok\<close> takes apart.
\<close>

definition room :: "byte list \<Rightarrow> nat" where
  "room rest = (if rest = [] then 0 else Suc (length rest))"

lemma strtok_room:
  assumes "strtok s = Some (name, rest)"
  shows "length name + room rest \<le> length s" "name \<noteq> []" "slash \<notin> set name"
proof -
  let ?t = "dropWhile (\<lambda>c. c = slash) s"
  have t: "?t \<noteq> []" "name = takeWhile (\<lambda>c. c \<noteq> slash) ?t" "rest = drop 1 (dropWhile (\<lambda>c. c \<noteq> slash) ?t)"
    using assms by (auto simp: strtok_def Let_def split: if_splits)
  have "length ?t = length name + length (dropWhile (\<lambda>c. c \<noteq> slash) ?t)"
    unfolding t(2) by (metis length_append takeWhile_dropWhile_id)
  moreover have "length ?t \<le> length s" by (rule length_dropWhile_le)
  ultimately show "length name + room rest \<le> length s" using t(3) by (auto simp: room_def)
  have "hd ?t \<noteq> slash" using hd_dropWhile [OF t(1)] by simp
  then show "name \<noteq> []" using t(1,2) by (cases ?t) simp_all
  show "slash \<notin> set name" unfolding t(2) by (auto dest: set_takeWhileD)
qed

lemma lmin_step:
  assumes "lmin_loop E acee w S p dir full name rest = Some (rc, dir', q, full', S')"
  shows "full' = full @ slash # name \<or>
    (\<exists>S2 p2 dir2 name2 rest2. strtok rest = Some (name2, rest2) \<and> rest \<noteq> [] \<and>
      lmin_loop E acee w S2 p2 dir2 (full @ slash # name) name2 rest2 = Some (rc, dir', q, full', S'))"
proof -
  obtain rc1 d S1 where enter: "enter_dir E S acee p = Some (rc1, d, S1)"
    using assms by (subst (asm) lmin_loop.simps) (auto simp: Let_def bind_eq_Some_conv)
  show ?thesis
  proof (cases "d = None \<or> rc1 \<noteq> RcOk")
    case True
    then show ?thesis using assms enter
      by (subst (asm) lmin_loop.simps) (auto simp: Let_def split: option.splits)
  next
    case False
    then obtain d1 where d: "d = Some d1" "rc1 = RcOk" by auto
    obtain S2 where S2: "m_rel_opt E S1 dir = Some S2"
      using assms enter d by (subst (asm) lmin_loop.simps) (auto simp: Let_def bind_eq_Some_conv)
    obtain rc2 ino S3 where look: "dir_lookup E S2 d1 name 0 = Some (rc2, ino, S3)"
      using assms enter d S2 by (subst (asm) lmin_loop.simps) (auto simp: Let_def bind_eq_Some_conv)
    show ?thesis
    proof (cases "rc2 = RcOk")
      case False
      then show ?thesis using assms enter d S2 look by (subst (asm) lmin_loop.simps) (simp add: Let_def)
    next
      case True
      obtain S4 where S4: "m_rel E S3 d1 = Some S4"
        using assms enter d S2 look True by (subst (asm) lmin_loop.simps) (auto simp: Let_def bind_eq_Some_conv)
      obtain g S5 where get: "m_get E S4 (fst d1) ino = Some (g, S5)"
        using assms enter d S2 look True S4 by (subst (asm) lmin_loop.simps) (auto simp: Let_def bind_eq_Some_conv)
      show ?thesis
        using assms enter d S2 look True S4 get
        by (subst (asm) lmin_loop.simps) (auto simp: Let_def bind_eq_Some_conv split: option.splits if_splits prod.splits)
    qed
  qed
qed

lemma lmin_full:
  "lmin_loop E acee w S p dir full name rest = Some (rc, dir', q, full', S') \<Longrightarrow>
   \<exists>t. full' = full @ slash # name @ t \<and> length (name @ t) \<le> length name + room rest"
proof (induction "length rest" arbitrary: S p dir full name rest rule: less_induct)
  case less
  from lmin_step [OF less.prems] show ?case
  proof (elim disjE exE conjE)
    assume "full' = full @ slash # name" then show ?thesis by simp
  next
    fix S2 p2 dir2 n2 r2
    assume tok: "strtok rest = Some (n2, r2)" and "rest \<noteq> []"
      and "lmin_loop E acee w S2 p2 dir2 (full @ slash # name) n2 r2 = Some (rc, dir', q, full', S')"
    from less.hyps [OF strtok_shorter [OF tok] this(3)] obtain t
      where "full' = (full @ slash # name) @ slash # n2 @ t" "length (n2 @ t) \<le> length n2 + room r2" by blast
    then show ?thesis using strtok_room(1) [OF tok] \<open>rest \<noteq> []\<close>
      by (intro exI [of _ "slash # n2 @ t"]) (simp add: room_def split: if_splits)
  qed
qed

lemma full_path_length:
  assumes "full_path cwd path = Some (Inr t)" "\<forall>c. cwd = Some c \<longrightarrow> length (cstr c) < UFS_PATH_MAX"
  shows "length t \<le> UFS_PATH_MAX" "t \<noteq> []" "hd t = slash"
proof -
  have strip: "length (strip_slashes x) \<le> length x" "x \<noteq> [] \<Longrightarrow> strip_slashes x \<noteq> []"
    "x \<noteq> [] \<Longrightarrow> hd (strip_slashes x) = hd x" for x
    using length_dropWhile_le [of "\<lambda>c. c = slash" "rev (tl x)"]
    by (cases x; simp add: strip_slashes_def)+
  have at: "char_at x 0 = slash \<Longrightarrow> x \<noteq> [] \<and> hd x = slash" for x by (cases x) (auto simp: slash_def)
  define ok where "ok x \<longleftrightarrow> length x \<le> UFS_PATH_MAX \<and> x \<noteq> [] \<and> hd x = slash" for x
  have c: "ok (strip_slashes x)" if "char_at x 0 = slash" "length x \<le> UFS_PATH_MAX" for x
    using strip [of x] at [of x] that by (simp add: ok_def)
  have "ok t"
    using assms
    by (auto intro!: c simp: full_path_def Let_def min_def UFS_PATH_MAX_def split: if_splits option.splits)
  then show "length t \<le> UFS_PATH_MAX" "t \<noteq> []" "hd t = slash" by (simp_all add: ok_def)
qed

text \<open>The path the caller gets fits the 257 bytes it gave, and begins with a slash and a name.\<close>

lemma lookup_minode_full:
  assumes "ufs_lookup_minode E S u path wd wl = Some (rc, d, q, full, S')"
    "\<And>c w. us_cwd u = Some c \<Longrightarrow> sy_cwd S c = Some w \<Longrightarrow> length (cstr (cw_path w)) < UFS_PATH_MAX"
  shows "length full \<le> UFS_PATH_MAX"
    "rc \<noteq> RcOk \<Longrightarrow> full = [] \<or> (\<exists>name t. full = slash # name @ t \<and> name \<noteq> [] \<and> slash \<notin> set name)"
proof -
  obtain cwd r where cwd: "(case us_cwd u of None \<Rightarrow> Some None | Some c \<Rightarrow> map_option (\<lambda>w. Some (cw_path w)) (sy_cwd S c)) = Some cwd"
    and r: "full_path cwd path = Some r"
    using assms(1) by (auto simp: ufs_lookup_minode_def bind_eq_Some_conv)
  have short: "\<forall>c. cwd = Some c \<longrightarrow> length (cstr c) < UFS_PATH_MAX"
    using cwd assms(2) by (auto split: option.splits)
  have "length full \<le> UFS_PATH_MAX \<and>
    (rc \<noteq> RcOk \<longrightarrow> full = [] \<or> (\<exists>name t. full = slash # name @ t \<and> name \<noteq> [] \<and> slash \<notin> set name))"
  proof (cases r)
    case (Inl e)
    then show ?thesis using assms(1) cwd r by (simp add: ufs_lookup_minode_def)
  next
    case (Inr x)
    note x = full_path_length [OF r [unfolded Inr] short]
    obtain root S1 where "sy_fsroot S = Some root" "m_use E S root = Some S1"
      using assms(1) cwd r Inr by (auto simp: ufs_lookup_minode_def bind_eq_Some_conv)
    note run = assms(1) cwd r Inr this
    show ?thesis
    proof (cases "strtok x")
      case None
      then show ?thesis using run by (auto simp: ufs_lookup_minode_def Let_def UFS_PATH_MAX_def)
    next
      case (Some nr)
      obtain name rest where nr: "nr = (name, rest)" by force
      have "lmin_loop E (us_acee u) wl S1 root (if wd then Some root else None) [] name rest = Some (rc, d, q, full, S')"
        using run Some nr by (simp add: ufs_lookup_minode_def Let_def)
      from lmin_full [OF this] obtain t where t: "full = slash # name @ t" "length (name @ t) \<le> length name + room rest" by auto
      obtain y where y: "x = slash # y" using x(2,3) by (cases x) auto
      from strtok_room [of y name rest] Some nr y t x(1) show ?thesis by (auto simp: strtok_slash)
    qed
  qed
  then show "length full \<le> UFS_PATH_MAX"
    "rc \<noteq> RcOk \<Longrightarrow> full = [] \<or> (\<exists>name t. full = slash # name @ t \<and> name \<noteq> [] \<and> slash \<notin> set name)" by blast+
qed

section \<open>Consequences for the operations\<close>

text \<open>
  \<^verbatim>\<open>ufs_mkdir\<close> compares the path the lookup walked with one it builds itself, which begins
  with two slashes when the current directory is the root.
\<close>

lemma mkdir_relative:
  assumes "us_cwd u = Some c" "sy_cwd S c = Some w" "cw_path w = [slash]" "char_at (cstr path) 0 \<noteq> slash"
    "ufs_mkdir E S u (Some path) = Some (rc, S')"
  shows "rc \<noteq> RcOk"
proof -
  have cwd: "cwd_path S u = Some (Some [slash])" using assms(1-3) by (simp add: cwd_path_def)
  have cs: "cstr [slash] = [slash]" by (simp add: cstr_def slash_def)
  obtain t where mk: "mkdir_path (Some [slash]) path = slash # slash # t"
    using assms(4) by (simp add: mkdir_path_def cs Let_def UFS_PATH_MAX_def)
  obtain rc1 d q full S1 where look: "ufs_lookup_minode E S u path True True = Some (rc1, d, q, full, S1)"
    using assms(5) cwd by (auto simp: ufs_mkdir_def Let_def bind_eq_Some_conv)
  have "full \<noteq> slash # slash # t" if e: "rc1 \<noteq> RcOk"
  proof -
    have "full = [] \<or> (\<exists>name t. full = slash # name @ t \<and> name \<noteq> [] \<and> slash \<notin> set name)"
      by (rule lookup_minode_full(2) [OF look _ e]) (use assms(1-3) cs in \<open>simp add: UFS_PATH_MAX_def\<close>)
    then show ?thesis by (auto simp: Cons_eq_append_conv)
  qed
  then show ?thesis
    using assms(5) cwd look mk by (auto simp: ufs_mkdir_def Let_def bind_eq_Some_conv split: if_splits)
qed

text \<open>The lookup of the root delivers no last inode, and \<^verbatim>\<open>ufs_open\<close> looks into it all the same.\<close>

lemma lookup_root:
  assumes "us_cwd u = Some c" "sy_cwd S c = Some w" "sy_fsroot S = Some p" "m_use E S p = Some S1"
  shows "ufs_lookup_minode E S u [slash] wd wl = Some (RcOk, if wd then Some p else None, None, [slash], S1)"
proof -
  have "cstr [slash] = [slash]" by (simp add: cstr_def slash_def)
  then show ?thesis
    using assms by (simp add: ufs_lookup_minode_def full_path_def strip_slashes_def strtok_def UFS_PATH_MAX_def)
qed

lemma open_root:
  assumes "us_cwd u = Some c" "sy_cwd S c = Some w" "sy_fsroot S = Some p" "m_use E S p = Some S1"
  shows "has fm FILE_MODE_WRITE \<Longrightarrow> ufs_open E S u [slash] fm = None"
    "\<not> has fm FILE_MODE_WRITE \<Longrightarrow> has fm FILE_MODE_READ \<Longrightarrow> m_rel E S1 p = Some S2 \<Longrightarrow>
      ufs_open E S u [slash] fm = Some (RcErr ENOENT, None, S2)"
proof -
  have rw: "has fm FILE_MODE_WRITE \<or> has fm FILE_MODE_READ \<Longrightarrow> has fm (FILE_MODE_READ + FILE_MODE_WRITE)"
  proof -
    have "fm AND 192 = 0 \<Longrightarrow> fm AND 64 = 0 \<and> fm AND 128 = 0"
      using and.assoc [of fm 192 64] and.assoc [of fm 192 128] by simp
    then show ?thesis if "has fm FILE_MODE_WRITE \<or> has fm FILE_MODE_READ"
      using that by (auto simp: has_def FILE_MODE_READ_def FILE_MODE_WRITE_def)
  qed
  show "has fm FILE_MODE_WRITE \<Longrightarrow> ufs_open E S u [slash] fm = None"
    using rw lookup_root [OF assms, of True True] by (simp add: ufs_open_def Let_def open_allowed_def)
  show "\<not> has fm FILE_MODE_WRITE \<Longrightarrow> has fm FILE_MODE_READ \<Longrightarrow> m_rel E S1 p = Some S2 \<Longrightarrow>
      ufs_open E S u [slash] fm = Some (RcErr ENOENT, None, S2)"
    using rw lookup_root [OF assms, of True True] by (simp add: ufs_open_def Let_def open_allowed_def m_rel_opt_def)
qed

end
