(* ===== verification/Mount_Table.thy ===== *)
theory Mount_Table
  imports Walk Iterate
begin

text \<open>
  The mount table: which volume is mounted on which directory is recorded three times, in the
  volume, in the cached inode of the directory, and in the list of mount points. The invariant says
  the three agree, and every way to mount, unmount and look up keeps it.
\<close>

section \<open>What reading and inode handling keep of a volume\<close>

text \<open>Addresses of the store are given out in order, so nothing is stored beyond the next one.\<close>

definition fresh :: "'d vol \<Rightarrow> bool" where
  "fresh s \<longleftrightarrow> (\<forall>a \<ge> v_mnext s. v_mstore s a = None)"

text \<open>Cached inodes keep what is mounted on them or are dropped; new ones have nothing mounted.\<close>

definition keeps :: "'d vol \<Rightarrow> 'd vol \<Rightarrow> bool" where
  "keeps s s' \<longleftrightarrow> (fresh s \<longrightarrow> fresh s' \<and> v_mnext s \<le> v_mnext s' \<and>
     (\<forall>a m'. v_mstore s' a = Some m' \<longrightarrow>
        (case v_mstore s a of Some m \<Rightarrow> mi_mounted_vdisk m' = mi_mounted_vdisk m
         | None \<Rightarrow> v_mnext s \<le> a \<and> mi_mounted_vdisk m' = None)))"

lemma keeps_mrest: "mrest s' = mrest s \<Longrightarrow> keeps s s'"
  by (simp add: keeps_def mrest_def fresh_def split: option.splits)

lemma keeps_refl [simp]: "keeps s s"
  by (rule keeps_mrest) simp

lemma keepsD:
  assumes "keeps s s'" "fresh s"
  shows "fresh s'" "v_mnext s \<le> v_mnext s'"
    "v_mstore s' a = Some m' \<Longrightarrow> v_mstore s a = Some m \<Longrightarrow> mi_mounted_vdisk m' = mi_mounted_vdisk m"
    "v_mstore s' a = Some m' \<Longrightarrow> v_mstore s a = None \<Longrightarrow> v_mnext s \<le> a \<and> mi_mounted_vdisk m' = None"
  using assms unfolding keeps_def by (fastforce split: option.splits)+

lemma keeps_trans:
  assumes "keeps s t" "keeps t u" shows "keeps s u"
  unfolding keeps_def
proof (intro impI conjI allI)
  assume f: "fresh s"
  then have t: "fresh t" "v_mnext s \<le> v_mnext t" using assms(1) by (simp_all add: keeps_def)
  then show "fresh u" "v_mnext s \<le> v_mnext u" using assms(2) by (auto simp: keeps_def)
  fix a m' assume m': "v_mstore u a = Some m'"
  note D1 = keepsD [OF assms(1) f] and D2 = keepsD [OF assms(2) t(1)]
  show "case v_mstore s a of Some m \<Rightarrow> mi_mounted_vdisk m' = mi_mounted_vdisk m
      | None \<Rightarrow> v_mnext s \<le> a \<and> mi_mounted_vdisk m' = None"
  proof (cases "v_mstore t a")
    case None
    then have "v_mnext s \<le> a" "mi_mounted_vdisk m' = None" using D2(4) [OF m'] t by auto
    then show ?thesis using f by (simp add: fresh_def)
  next
    case (Some m)
    then show ?thesis using D2(3) [OF m'] D1(3,4) [OF Some] by (simp split: option.splits)
  qed
qed

lemma keeps_set:
  "v_mstore s p = Some m \<Longrightarrow> mi_mounted_vdisk m' = mi_mounted_vdisk m \<Longrightarrow> keeps s (set_minode p (Some m') s)"
  "keeps s (set_minode p None (s\<lparr>v_minodes := ps\<rparr>))"
  by (auto simp: keeps_def fresh_def split: option.splits)

lemma mrestD:
  "lock os k s = (r, s') \<Longrightarrow> mrest s' = mrest s" "calloc os n s = (ok, s') \<Longrightarrow> mrest s' = mrest s"
  by (metis mrest_simps(1) snd_conv) (metis mrest_simps(3) snd_conv)

lemma keeps_use: "ufs_inode_use os s p = Some s' \<Longrightarrow> keeps s s'"
proof -
  obtain r s1 where l: "lock os (LkMinode p) s = (r, s1)" by force
  have m: "mrest s1 = mrest s" using mrest_simps(1) [of os "LkMinode p" s] l by simp
  assume "ufs_inode_use os s p = Some s'"
  with l obtain m0 where "v_mstore s1 p = Some m0"
    and s': "s' = unlock os r (LkMinode p) (set_minode p (Some (m0\<lparr>mi_usecount := mi_usecount m0 + 1\<rparr>)) s1)"
    by (auto simp: ufs_inode_use_def bind_eq_Some_conv)
  then show ?thesis
    by (intro keeps_trans [OF keeps_mrest [OF m] keeps_trans [OF keeps_set(1) keeps_mrest]]) simp_all
qed

lemma keeps_rel: "ufs_inode_rel os s p = Some s' \<Longrightarrow> keeps s s'"
proof -
  obtain rv s0 where l0: "lock os LkVdisk s = (rv, s0)" by force
  obtain r s1 where l: "lock os (LkMinode p) s0 = (r, s1)" by force
  have m: "mrest s1 = mrest s"
    using mrest_simps(1) [of os LkVdisk s] mrest_simps(1) [of os "LkMinode p" s0] l l0 by simp
  assume run: "ufs_inode_rel os s p = Some s'"
  then obtain m0 where m0: "v_mstore s1 p = Some m0"
    using l l0 by (auto simp: ufs_inode_rel_def Let_def bind_eq_Some_conv)
  define c where "c = (if mi_usecount m0 > 0 then mi_usecount m0 - 1 else mi_usecount m0)"
  define s2 where "s2 = set_minode p (Some (m0\<lparr>mi_usecount := c\<rparr>)) s1"
  have c: "(if mi_usecount m0 > 0 then m0\<lparr>mi_usecount := mi_usecount m0 - 1\<rparr> else m0) = m0\<lparr>mi_usecount := c\<rparr>"
    by (simp add: c_def)
  have s': "mrest s' = mrest s2 \<or> (\<exists>ps. mrest s' = mrest (set_minode p None (s2\<lparr>v_minodes := ps\<rparr>)))"
    using run l l0 m0 by (auto simp: ufs_inode_rel_def Let_def bind_eq_Some_conv c s2_def split: if_splits)
  have "keeps s s2" unfolding s2_def by (intro keeps_trans [OF keeps_mrest [OF m] keeps_set(1)]) (simp_all add: m0)
  from s' show ?thesis
  proof (elim disjE exE)
    assume "mrest s' = mrest s2"
    with \<open>keeps s s2\<close> show ?thesis by (rule keeps_trans [OF _ keeps_mrest])
  next
    fix ps assume "mrest s' = mrest (set_minode p None (s2\<lparr>v_minodes := ps\<rparr>))"
    with \<open>keeps s s2\<close> show ?thesis by (rule keeps_trans [OF _ keeps_trans [OF keeps_set(2) keeps_mrest]])
  qed
qed

lemma load_mrest:
  "ufs_inode_load os s zero_minode ino = Some (rc, m, s') \<Longrightarrow> mrest s' = mrest s \<and> mi_mounted_vdisk m = None"
  by (auto simp: ufs_inode_load_def Let_def zero_minode_def ufs_inode_setup_memory_image_def
      split: prod.splits if_splits option.splits dest!: mrestD mcache.R_get_buf mcache.R_read)

lemma keeps_get: "ufs_inode_get os s ino = Some (p, s') \<Longrightarrow> keeps s s'"
proof -
  obtain rv s0 where l0: "lock os LkVdisk s = (rv, s0)" by force
  obtain ok s1 where c: "calloc os 144 s0 = (ok, s1)" by force
  have m0: "mrest s0 = mrest s" using mrest_simps(1) [of os LkVdisk s] l0 by simp
  have m1: "mrest s1 = mrest s" using mrest_simps(3) [of os 144 s0] c m0 by simp
  assume get: "ufs_inode_get os s ino = Some (p, s')"
  then obtain found where f: "find_minode (v_mstore s0) (v_minodes s0) ino = Some found"
    using l0 by (auto simp: ufs_inode_get_def Let_def bind_eq_Some_conv)
  show ?thesis
  proof (cases found)
    case (Some q)
    then obtain s2 where "ufs_inode_use os s0 q = Some s2" "s' = unlock os rv LkVdisk s2"
      using get l0 f by (auto simp: ufs_inode_get_def bind_eq_Some_conv)
    then show ?thesis
      using keeps_trans [OF keeps_trans [OF keeps_mrest [OF m0] keeps_use] keeps_mrest] by simp
  next
    case None
    note run = get [unfolded ufs_inode_get_def, unfolded Let_def, simplified l0 prod.case f [unfolded None] c Option.bind.bind_lunit option.case]
    show ?thesis
    proof (cases "mrest s' = mrest s")
      case True
      then show ?thesis by (rule keeps_mrest)
    next
      case False
      then have ok using run m1 by (auto split: if_splits)
      with run obtain error m2 s2 where load1: "ufs_inode_load os s1 zero_minode ino = Some (error, m2, s2)"
        by (auto simp: bind_eq_Some_conv)
      with run False \<open>ok\<close> m1 load_mrest [OF load1] have "error = RcOk" by (auto split: if_splits)
      with run load1 \<open>ok\<close> obtain s3 where load: "ufs_inode_load os s1 zero_minode ino = Some (RcOk, m2, s2)"
        and use: "ufs_inode_use os (set_minode (v_mnext s2) (Some m2)
          (s2\<lparr>v_minodes := v_minodes s2 @ [v_mnext s2], v_mnext := Suc (v_mnext s2)\<rparr>)) (v_mnext s2) = Some s3"
        and s': "s' = unlock os rv LkVdisk s3"
        by (auto simp: bind_eq_Some_conv)
      note L = load_mrest [OF load]
      have "keeps s2 (set_minode (v_mnext s2) (Some m2)
          (s2\<lparr>v_minodes := v_minodes s2 @ [v_mnext s2], v_mnext := Suc (v_mnext s2)\<rparr>))"
        using L by (auto simp: keeps_def fresh_def split: option.splits)
      moreover have "keeps s s2" using L m1 by (intro keeps_mrest) simp
      ultimately show ?thesis
        using keeps_trans [OF keeps_trans [OF keeps_trans [of s s2] keeps_use [OF use]] keeps_mrest] s' by simp
    qed
  qed
qed

section \<open>What the lookup keeps of the system\<close>

definition skeeps :: "'d sys \<Rightarrow> 'd sys \<Rightarrow> bool" where
  "skeeps S S' \<longleftrightarrow> sy_mounted S' = sy_mounted S \<and> sy_mountpoint S' = sy_mountpoint S \<and>
     (\<forall>v. rel_option keeps (sy_vol S v) (sy_vol S' v))"

lemma skeeps_refl [simp]: "skeeps S S"
  by (simp add: skeeps_def option.rel_refl)

lemma skeeps_trans [trans]: "skeeps S T \<Longrightarrow> skeeps T U \<Longrightarrow> skeeps S U"
  unfolding skeeps_def rel_option_iff
  by (simp split: option.splits) (metis keeps_trans option.distinct(1) option.inject option.exhaust)

lemma skeeps_frame [simp]:
  "skeeps S (S\<lparr>sy_outer := d\<rparr>)" "skeeps S (S\<lparr>sy_cwd := w\<rparr>)" "skeeps S (S\<lparr>sy_cwds := ws\<rparr>)"
  "skeeps S (S\<lparr>sy_next := n\<rparr>)" "skeeps S (S\<lparr>sy_files := fs\<rparr>)"
  by (simp_all add: skeeps_def option.rel_refl)

lemma skeeps_services:
  "sys_lock E k S = (r, S') \<Longrightarrow> skeeps S S'" "skeeps S (sys_unlock E r k S)"
  "sys_calloc E n S = (ok, S') \<Longrightarrow> skeeps S S'"
  by (auto simp: sys_lock_def sys_unlock_def sys_calloc_def split: prod.splits)

lemma skeeps_on_vol:
  assumes "\<And>s a s'. f s = Some (a, s') \<Longrightarrow> keeps s s'"
  shows "wlp (on_vol v f S) (\<lambda>(a, S'). skeeps S S')"
proof (rule wlpI)
  fix x assume "on_vol v f S = Some x"
  then obtain s a s' where s: "sy_vol S v = Some s" "f (s\<lparr>v_outer := sy_outer S\<rparr>) = Some (a, s')"
    and x: "x = (a, S\<lparr>sy_outer := v_outer s', sy_vol := (sy_vol S)(v \<mapsto> s')\<rparr>)"
    by (auto simp: on_vol_def bind_eq_Some_conv)
  have "keeps s s'" by (rule keeps_trans [OF keeps_mrest assms [OF s(2)]]) simp
  then show "case x of (a, S') \<Rightarrow> skeeps S S'"
    using s(1) by (simp add: x skeeps_def option.rel_refl)
qed

lemma skeeps_on_vol':
  assumes "\<And>s s'. f s = Some s' \<Longrightarrow> keeps s s'"
  shows "wlp (on_vol' v f S) (skeeps S)"
proof -
  have "wlp (on_vol v (\<lambda>s. map_option (\<lambda>s. ((), s)) (f s)) S) (\<lambda>(a, S'). skeeps S S')"
    by (rule skeeps_on_vol) (use assms in auto)
  then show ?thesis by (cases "on_vol v (\<lambda>s. map_option (\<lambda>s. ((), s)) (f s)) S") (auto simp: on_vol'_def)
qed

lemma skeeps_inodes:
  "wlp (m_use E S p) (skeeps S)" "wlp (m_rel E S p) (skeeps S)" "wlp (m_rel_opt E S q) (skeeps S)"
  "wlp (m_get E S v ino) (\<lambda>(g, S'). skeeps S S')"
proof -
  show "wlp (m_use E S p) (skeeps S)" unfolding m_use_def by (rule skeeps_on_vol' [OF keeps_use])
  have rel: "wlp (m_rel E S p) (skeeps S)" for p unfolding m_rel_def by (rule skeeps_on_vol' [OF keeps_rel])
  then show "wlp (m_rel E S p) (skeeps S)" .
  show "wlp (m_rel_opt E S q) (skeeps S)" unfolding m_rel_opt_def by (rule wlp_option) (simp_all add: rel)
  show "wlp (m_get E S v ino) (\<lambda>(g, S'). skeeps S S')"
    unfolding m_get_def by (rule wlp_bind [OF skeeps_on_vol [OF keeps_get]]) auto
qed

lemma skeeps_dir_lookup: "wlp (dir_lookup E S p name ino) (\<lambda>(rc, ino, S'). skeeps S S')"
proof -
  have l: "wlp (on_vol (fst p) (\<lambda>s. do { (rc, ino, s) \<leftarrow> ufs_file_lookup_by_name (en_disk E (fst p)) s m name ino; Some ((rc, ino), s) }) S)
      (\<lambda>(a, S'). skeeps S S')" for m
    by (rule skeeps_on_vol) (auto simp: bind_eq_Some_conv dest!: mcache.R_lookup intro: keeps_mrest)
  show ?thesis unfolding dir_lookup_def by (rule wlp_any, rule wlp_bind [OF l]) auto
qed

text \<open>Steps one after the other, each from a state the ones before led to.\<close>

lemma then_state:
  assumes "wlp m (skeeps T)" "skeeps S T" "\<And>U. skeeps S U \<Longrightarrow> wlp (f U) Q"
  shows "wlp (m \<bind> f) Q"
  by (rule wlp_bind [OF assms(1)], rule assms(3), rule skeeps_trans [OF assms(2)])

lemma then_pair:
  assumes "wlp m (\<lambda>(a, U). skeeps T U)" "skeeps S T" "\<And>a U. skeeps S U \<Longrightarrow> wlp (f a U) Q"
  shows "wlp (m \<bind> (\<lambda>(a, U). f a U)) Q"
  by (rule wlp_bind [OF assms(1)], rule wlp_prod, rule assms(3), rule skeeps_trans [OF assms(2)]) simp

lemma then_triple:
  assumes "wlp m (\<lambda>(a, b, U). skeeps T U)" "skeeps S T" "\<And>a b U. skeeps S U \<Longrightarrow> wlp (f a b U) Q"
  shows "wlp (m \<bind> (\<lambda>(a, b, U). f a b U)) Q"
  by (rule wlp_bind [OF assms(1)], rule wlp_prod, rule wlp_prod, rule assms(3), rule skeeps_trans [OF assms(2)]) simp

lemma skeeps_enter: "wlp (enter_dir E S acee p) (\<lambda>(rc, d, S'). skeeps S S')"
  unfolding enter_dir_def
  by (assumption | rule skeeps_refl wlp_intros
      | (rule then_state, rule skeeps_inodes, (assumption | rule skeeps_refl))
      | (rule then_pair, rule skeeps_inodes, (assumption | rule skeeps_refl))
      | (simp; fail) | rule wlp_any)+

lemma skeeps_lmin: "wlp (lmin_loop E acee w S p dir full name rest) (\<lambda>(rc, d, q, full, S'). skeeps S S')"
proof (induction "length rest" arbitrary: S p dir full name rest rule: less_induct)
  case less
  have IH: "wlp (lmin_loop E acee w T q d2 f2 n2 r2) (\<lambda>(rc, d, q, full, S'). skeeps S S')"
    if "skeeps S T" "strtok rest = Some (n2, r2)" for T q d2 f2 n2 r2
    by (rule wlp_mono [OF less.hyps [OF strtok_shorter [OF that(2)]]]) (use that(1) skeeps_trans in auto)
  show ?case
    by (subst lmin_loop.simps)
      (assumption | rule skeeps_refl wlp_intros IH
      | (rule then_triple, rule skeeps_enter skeeps_dir_lookup, (assumption | rule skeeps_refl))
      | (rule then_state, rule skeeps_inodes, (assumption | rule skeeps_refl))
      | (rule then_pair, rule skeeps_inodes, (assumption | rule skeeps_refl))
      | (simp; fail) | rule wlp_any)+
qed

lemma skeeps_lookup: "wlp (ufs_lookup_minode E S u path wd wl) (\<lambda>(rc, d, q, full, S'). skeeps S S')"
proof -
  have lmin: "wlp (lmin_loop E acee w T p dir full name rest) (\<lambda>(rc, d, q, full, S'). skeeps S S')"
    if "skeeps S T" for acee w T p dir full name rest
    by (rule wlp_mono [OF skeeps_lmin]) (use that skeeps_trans in auto)
  show ?thesis unfolding ufs_lookup_minode_def sum.case_eq_if
    by (assumption | rule skeeps_refl wlp_intros lmin
      | (rule then_state, rule skeeps_inodes, (assumption | rule skeeps_refl))
      | (simp; fail) | rule wlp_any)+
qed

section \<open>The invariant\<close>

definition mount_ok :: "'d sys \<Rightarrow> bool" where
  "mount_ok S \<longleftrightarrow> distinct (sy_mountpoint S)
     \<and> (\<forall>p. p \<in> set (sy_mountpoint S) \<longleftrightarrow> (\<exists>v. sy_mounted S v = Some p))
     \<and> (\<forall>v w p. sy_mounted S v = Some p \<longrightarrow> sy_mounted S w = Some p \<longrightarrow> v = w)
     \<and> (\<forall>p m v. m_at S p = Some m \<longrightarrow> (mi_mounted_vdisk m = Some v \<longleftrightarrow> sy_mounted S v = Some p))
     \<and> (\<forall>v s. sy_vol S v = Some s \<longrightarrow> fresh s)
     \<and> (\<forall>p \<in> set (sy_mountpoint S). \<exists>s. sy_vol S (fst p) = Some s \<and> snd p < v_mnext s)"

lemma mount_okD:
  assumes "mount_ok S"
  shows "distinct (sy_mountpoint S)" "p \<in> set (sy_mountpoint S) \<longleftrightarrow> (\<exists>v. sy_mounted S v = Some p)"
    "sy_mounted S v = Some p \<Longrightarrow> sy_mounted S w = Some p \<Longrightarrow> v = w"
    "m_at S p = Some m \<Longrightarrow> mi_mounted_vdisk m = Some v \<longleftrightarrow> sy_mounted S v = Some p"
    "sy_vol S v = Some s \<Longrightarrow> fresh s"
    "p \<in> set (sy_mountpoint S) \<Longrightarrow> \<exists>s. sy_vol S (fst p) = Some s \<and> snd p < v_mnext s"
  using assms unfolding mount_ok_def by blast+

lemma mount_ok_skeeps:
  assumes ok: "mount_ok S" and k: "skeeps S S'"
  shows "mount_ok S'"
proof -
  have tab: "sy_mounted S' = sy_mounted S" "sy_mountpoint S' = sy_mountpoint S" using k by (simp_all add: skeeps_def)
  have vol: "rel_option keeps (sy_vol S v) (sy_vol S' v)" for v using k by (simp add: skeeps_def)
  note D = mount_okD [OF ok]
  have fresh: "fresh s'" if "sy_vol S' v = Some s'" for v s'
    using vol [of v] that D(5) keepsD(1) by (fastforce simp: rel_option_iff split: option.splits)
  have next_up: "\<exists>s'. sy_vol S' (fst p) = Some s' \<and> snd p < v_mnext s'" if p: "p \<in> set (sy_mountpoint S)" for p
  proof -
    obtain s where s: "sy_vol S (fst p) = Some s" "snd p < v_mnext s" using D(6) [OF p] by blast
    obtain s' where s': "sy_vol S' (fst p) = Some s'" "keeps s s'"
      using vol [of "fst p"] s(1) by (auto simp: rel_option_iff split: option.splits)
    then show ?thesis using keepsD(2) [OF s'(2) D(5) [OF s(1)]] s(2) by auto
  qed
  have point: "mi_mounted_vdisk m' = Some v \<longleftrightarrow> sy_mounted S v = Some p" if m': "m_at S' p = Some m'" for p m' v
  proof -
    obtain s' where s': "sy_vol S' (fst p) = Some s'" "v_mstore s' (snd p) = Some m'"
      using m' by (auto simp: m_at_def bind_eq_Some_conv)
    obtain s where s: "sy_vol S (fst p) = Some s" "keeps s s'"
      using vol [of "fst p"] s'(1) by (auto simp: rel_option_iff split: option.splits)
    note K = keepsD [OF s(2) D(5) [OF s(1)]]
    show ?thesis
    proof (cases "v_mstore s (snd p)")
      case (Some m)
      then have "m_at S p = Some m" using s(1) by (simp add: m_at_def)
      from D(4) [OF this] K(3) [OF s'(2) Some] show ?thesis by simp
    next
      case None
      from K(4) [OF s'(2) this] have "v_mnext s \<le> snd p" "mi_mounted_vdisk m' = None" by auto
      moreover have "sy_mounted S v \<noteq> Some p"
      proof
        assume "sy_mounted S v = Some p"
        then have "p \<in> set (sy_mountpoint S)" using D(2) by blast
        then show False using D(6) [of p] s(1) \<open>v_mnext s \<le> snd p\<close> by auto
      qed
      ultimately show ?thesis by simp
    qed
  qed
  show ?thesis unfolding mount_ok_def tab using D(1-3) fresh next_up point by blast
qed

section \<open>Mounting and unmounting keep it\<close>

lemma m_updE:
  assumes "m_upd p f S = Some S'"
  obtains s s' m where "sy_vol S (fst p) = Some s" "v_mstore s (snd p) = Some m"
    "sy_vol S' = (sy_vol S)(fst p \<mapsto> s')" "v_mstore s' = (v_mstore s)(snd p \<mapsto> f m)" "v_mnext s' = v_mnext s"
    "sy_mounted S' = sy_mounted S" "sy_mountpoint S' = sy_mountpoint S"
proof -
  obtain s m where s: "sy_vol S (fst p) = Some s" "v_mstore s (snd p) = Some m"
    using assms by (auto simp: m_upd_def on_vol'_def on_vol_def upd_minode_def bind_eq_Some_conv)
  then have S': "S' = S\<lparr>sy_outer := sy_outer S,
      sy_vol := (sy_vol S)(fst p \<mapsto> set_minode (snd p) (Some (f m)) (s\<lparr>v_outer := sy_outer S\<rparr>))\<rparr>"
    using assms by (auto simp: m_upd_def on_vol'_def on_vol_def upd_minode_def)
  show ?thesis by (rule that [OF s, of "set_minode (snd p) (Some (f m)) (s\<lparr>v_outer := sy_outer S\<rparr>)"]) (simp_all add: S')
qed

text \<open>After a change of what is mounted on the inode at \<open>p\<close>, with a table that agrees with it.\<close>

lemma mount_ok_change:
  assumes ok: "mount_ok S" and upd: "m_upd p f S1 = Some S2" "sy_vol S1 = sy_vol S"
    and eq: "sy_vol S3 = sy_vol S2" "\<And>m. mi_mounted_vdisk (f m) = new"
    and here: "\<And>v. sy_mounted S3 v = Some p \<longleftrightarrow> new = Some v"
    and there: "\<And>q v. q \<noteq> p \<Longrightarrow> sy_mounted S3 v = Some q \<longleftrightarrow> sy_mounted S v = Some q"
    and list: "distinct (sy_mountpoint S3)" "\<And>q. q \<in> set (sy_mountpoint S3) \<longleftrightarrow> (\<exists>v. sy_mounted S3 v = Some q)"
  shows "mount_ok S3"
proof -
  note D = mount_okD [OF ok]
  obtain s s' m where U: "sy_vol S (fst p) = Some s" "v_mstore s (snd p) = Some m"
    "sy_vol S3 = (sy_vol S)(fst p \<mapsto> s')" "v_mstore s' = (v_mstore s)(snd p \<mapsto> f m)" "v_mnext s' = v_mnext s"
    by (rule m_updE [OF upd(1)]) (use upd(2) eq(1) in auto)
  have old: "snd p < v_mnext s"
    using D(5) [OF U(1)] U(2) by (metis fresh_def leI option.distinct(1))
  have at: "m_at S3 q = (if q = p then Some (f m) else m_at S q)" for q
    using U by (cases q; cases p) (auto simp: m_at_def)
  have point: "mi_mounted_vdisk m' = Some v \<longleftrightarrow> sy_mounted S3 v = Some q" if "m_at S3 q = Some m'" for q m' v
  proof (cases "q = p")
    case True
    then show ?thesis using that at [of q] eq(2) here by auto
  next
    case False
    then show ?thesis using that at [of q] there D(4) by simp
  qed
  have one: "v = w" if "sy_mounted S3 v = Some q" "sy_mounted S3 w = Some q" for v w q
    using that here there D(3) by (cases "q = p") auto
  have fresh: "fresh t" if "sy_vol S3 v = Some t" for v t
    using that U(3-5) D(5) [of v t] D(5) [OF U(1)] old by (auto simp: fresh_def split: if_splits)
  have next_up: "\<exists>t. sy_vol S3 (fst q) = Some t \<and> snd q < v_mnext t" if "q \<in> set (sy_mountpoint S3)" for q
  proof (cases "q = p")
    case True
    then show ?thesis using U(3,5) old by simp
  next
    case False
    then have "q \<in> set (sy_mountpoint S)" using that list(2) there D(2) by blast
    then show ?thesis using D(6) [of q] U(1,3,5) by auto
  qed
  show ?thesis unfolding mount_ok_def using list one point fresh next_up by blast
qed

lemma mount_on_ok:
  assumes ok: "mount_ok S" and v: "sy_mounted S v = None" and p: "p \<notin> set (sy_mountpoint S)"
    and run: "mount_on E S v p = Some S'"
  shows "mount_ok S'" "sy_mounted S' = (sy_mounted S)(v \<mapsto> p)" "sy_mountpoint S' = sy_mountpoint S @ [p]"
proof -
  let ?f = "\<lambda>m. m\<lparr>mi_type := mi_type m OR MINODE_TYPE_MOUNTPOINT, mi_mounted_vdisk := Some v\<rparr>"
  obtain S1 S2 where use: "m_use E S p = Some S1" and upd: "m_upd p ?f S1 = Some S2"
    and S': "S' = S2\<lparr>sy_mounted := (sy_mounted S2)(v \<mapsto> p), sy_mountpoint := sy_mountpoint S2 @ [p]\<rparr>"
    using run by (auto simp: mount_on_def bind_eq_Some_conv)
  have k: "skeeps S S1" using wlpD [OF skeeps_inodes(1) use] .
  note ok1 = mount_ok_skeeps [OF ok k] and tab = k [unfolded skeeps_def]
  have tab2: "sy_mounted S2 = sy_mounted S" "sy_mountpoint S2 = sy_mountpoint S"
    using m_updE [OF upd] tab by metis+
  show "sy_mounted S' = (sy_mounted S)(v \<mapsto> p)" "sy_mountpoint S' = sy_mountpoint S @ [p]"
    by (simp_all add: S' tab2)
  have np: "sy_mounted S w \<noteq> Some p" for w using p mount_okD(2) [OF ok, of p] by blast
  have list: "q \<in> set (sy_mountpoint S @ [p]) \<longleftrightarrow> (\<exists>w. ((sy_mounted S)(v \<mapsto> p)) w = Some q)" for q
  proof
    assume "q \<in> set (sy_mountpoint S @ [p])"
    then consider "q = p" | w where "sy_mounted S w = Some q" using mount_okD(2) [OF ok, of q] by auto
    then show "\<exists>w. ((sy_mounted S)(v \<mapsto> p)) w = Some q"
    proof cases
      case 1
      then show ?thesis by (intro exI [of _ v]) simp
    next
      case 2
      with v have "w \<noteq> v" by auto
      with 2 show ?thesis by (intro exI [of _ w]) simp
    qed
  qed (use mount_okD(2) [OF ok, of q] in \<open>auto split: if_splits\<close>)
  show "mount_ok S'"
    by (rule mount_ok_change [OF ok1 upd refl, of _ "Some v"])
      (use tab tab2 np v p mount_okD(1) [OF ok] list in \<open>auto simp: S' simp del: set_append split: if_splits\<close>)
qed

lemma skeeps_sys_lock: "sys_lock E k S = (r, S') \<Longrightarrow> mount_ok S \<Longrightarrow> mount_ok S'"
  by (rule mount_ok_skeeps [OF _ skeeps_services(1)])

text \<open>Unmounting takes out exactly the volume that was mounted on the inode.\<close>

lemma unmount_inode_ok:
  assumes ok: "mount_ok S" and run: "ufs_unmount_inode E S p = Some (rc, S')"
  shows "mount_ok S'"
    "rc = RcOk \<Longrightarrow> \<exists>v q. p = Some q \<and> sy_mounted S v = p \<and> sy_mounted S' = (sy_mounted S)(v := None)"
    "rc \<noteq> RcOk \<Longrightarrow> S' = S"
proof -
  have "mount_ok S' \<and> (rc = RcOk \<longrightarrow> (\<exists>v q. p = Some q \<and> sy_mounted S v = p \<and> sy_mounted S' = (sy_mounted S)(v := None)))
    \<and> (rc \<noteq> RcOk \<longrightarrow> S' = S)"
  proof (cases "rc = RcOk")
    case False
    then show ?thesis using run ok
      by (auto simp: ufs_unmount_inode_def Let_def bind_eq_Some_conv split: option.splits if_splits prod.splits)
  next
    case True
    then obtain q m v where q: "p = Some q" "m_at S q = Some m" "mi_mounted_vdisk m = Some v" "sy_mounted S v = Some q"
      using run by (auto simp: ufs_unmount_inode_def bind_eq_Some_conv split: option.splits if_splits)
    obtain r S1 where lock: "sys_lock E LkSys S = (r, S1)" by force
    note k1 = skeeps_services(1) [OF lock] and tab1 = skeeps_services(1) [OF lock, unfolded skeeps_def]
    have vol1: "sy_vol S1 = sy_vol S" using lock by (auto simp: sys_lock_def split: prod.splits)
    let ?mp = "rev (remove1 q (rev (sy_mountpoint S1)))"
    obtain S2 S3 where upd: "m_upd q (\<lambda>m. m\<lparr>mi_mounted_vdisk := None\<rparr>) (S1\<lparr>sy_mountpoint := ?mp\<rparr>) = Some S2"
      and rel: "m_rel E (S2\<lparr>sy_mounted := (sy_mounted S2)(v := None)\<rparr>) q = Some S3"
      and S': "S' = sys_unlock E r LkSys S3"
      using run q lock True
      by (auto simp: ufs_unmount_inode_def Let_def bind_eq_Some_conv split: if_splits)
    have tab2: "sy_mounted S2 = sy_mounted S" "sy_mountpoint S2 = ?mp"
      by (rule m_updE [OF upd]; use tab1 in simp)+
    let ?S = "S2\<lparr>sy_mounted := (sy_mounted S2)(v := None)\<rparr>"
    have mp: "set ?mp = set (sy_mountpoint S) - {q}" "distinct ?mp"
      using mount_okD(1) [OF ok] tab1 by simp_all
    note D = mount_okD [OF ok]
    have only: "sy_mounted S w = Some q \<Longrightarrow> w = v" for w using D(3) q(4) by blast
    have "mount_ok ?S"
    proof (rule mount_ok_change [OF ok upd, of _ None], goal_cases)
      case (4 w)
      then show ?case using only [of w] by (auto simp: tab2)
    next
      case (5 q' w)
      then show ?case using q(4) by (auto simp: tab2)
    next
      case (7 q')
      have "(\<exists>w. ((sy_mounted S)(v := None)) w = Some q') \<longleftrightarrow> q' \<noteq> q \<and> (\<exists>w. sy_mounted S w = Some q')"
      proof safe
        fix w assume "sy_mounted S w = Some q'" "q' \<noteq> q"
        then show "\<exists>w. ((sy_mounted S)(v := None)) w = Some q'" using q(4) by (intro exI [of _ w]) auto
      qed (use only in \<open>auto split: if_splits\<close>)
      then show ?case using D(2) [of q'] mp(1) by (auto simp: tab2)
    qed (use vol1 tab2 mp(2) in simp_all)
    then have "mount_ok S'" unfolding S'
      by (rule mount_ok_skeeps [OF _ skeeps_trans [OF wlpD [OF skeeps_inodes(2) rel] skeeps_services(2)]])
    moreover have "sy_mounted S' = (sy_mounted S)(v := None)"
      using wlpD [OF skeeps_inodes(2) rel] skeeps_services(2) [of S3 E r LkSys] tab2 by (simp add: S' skeeps_def)
    ultimately show ?thesis using q True by auto
  qed
  then show "mount_ok S'"
    "rc = RcOk \<Longrightarrow> \<exists>v q. p = Some q \<and> sy_mounted S v = p \<and> sy_mounted S' = (sy_mounted S)(v := None)"
    "rc \<noteq> RcOk \<Longrightarrow> S' = S" by blast+
qed

lemma skeeps_root_allowed: "wlp (root_allowed E S v) (\<lambda>(rc, q, S'). skeeps S S')"
  unfolding root_allowed_def
  by (assumption | rule skeeps_refl wlp_intros
      | (rule then_state, rule skeeps_inodes, (assumption | rule skeeps_refl))
      | (rule then_pair, rule skeeps_inodes, (assumption | rule skeeps_refl))
      | (simp; fail) | rule wlp_any)+

text \<open>
  Mounting: without an inode to release nothing was mounted; with one, the volume is mounted on the
  directory exactly when the return code is 0.
\<close>

lemma mount_checked_ok:
  assumes ok: "mount_ok S" and run: "mount_checked E S acee v p = Some (rc, q, S')"
  shows "mount_ok S'" "sy_mounted S' = (if q \<noteq> None \<and> rc = RcOk then (sy_mounted S)(v \<mapsto> p) else sy_mounted S)"
    "q \<noteq> None \<and> rc = RcOk \<Longrightarrow> sy_mounted S v = None"
proof -
  have "mount_ok S' \<and> sy_mounted S' = (if q \<noteq> None \<and> rc = RcOk then (sy_mounted S)(v \<mapsto> p) else sy_mounted S)
    \<and> (q \<noteq> None \<and> rc = RcOk \<longrightarrow> sy_mounted S v = None)"
  proof (cases "sy_mounted S v = None \<and> p \<notin> set (sy_mountpoint S)")
    case False
    then show ?thesis using run ok by (auto simp: mount_checked_def split: if_splits)
  next
    case True
    then obtain S1 m where use: "m_use E S p = Some S1" and m: "m_at S1 p = Some m"
      using run by (auto simp: mount_checked_def bind_eq_Some_conv)
    have k: "skeeps S S1" using wlpD [OF skeeps_inodes(1) use] .
    note ok1 = mount_ok_skeeps [OF ok k] and tab = k [unfolded skeeps_def]
    show ?thesis
    proof (cases "rc = RcOk")
      case False
      then show ?thesis using run use m True ok1 tab
        by (auto simp: mount_checked_def bind_eq_Some_conv split: if_splits)
    next
      case rc: True
      then have on: "mount_on E S1 v p = Some S'" "q = Some p"
        using run use m True by (auto simp: mount_checked_def bind_eq_Some_conv split: if_splits)
      have "sy_mounted S1 v = None" "p \<notin> set (sy_mountpoint S1)" using True tab by simp_all
      from mount_on_ok [OF ok1 this on(1)] show ?thesis using on(2) tab True rc by simp
    qed
  qed
  then show "mount_ok S'" "sy_mounted S' = (if q \<noteq> None \<and> rc = RcOk then (sy_mounted S)(v \<mapsto> p) else sy_mounted S)"
    "q \<noteq> None \<and> rc = RcOk \<Longrightarrow> sy_mounted S v = None" by blast+
qed

lemma then_lock:
  "skeeps S T \<Longrightarrow> (\<And>r U. skeeps S U \<Longrightarrow> wlp (f r U) Q) \<Longrightarrow> wlp (case sys_lock E k T of (r, U) \<Rightarrow> f r U) Q"
  by (rule wlp_prod) (use skeeps_services(1) skeeps_trans in blast)

lemma then_lookup:
  assumes "skeeps S T" "\<And>rc d q full U. skeeps S U \<Longrightarrow> wlp (f rc d q full U) Q"
  shows "wlp (ufs_lookup_minode E T u path wd wl \<bind> (\<lambda>(rc, d, q, full, U). f rc d q full U)) Q"
  by (rule wlp_bind [OF skeeps_lookup], (rule wlp_prod)+, rule assms(2), rule skeeps_trans [OF assms(1)]) simp

text \<open>The table after an operation: unchanged, one volume more, or volumes less.\<close>

lemma mount_ok:
  assumes ok: "mount_ok S" and run: "ufs_mount E S u dd path = Some (rc, S')"
  shows "mount_ok S'"
    "sy_mounted S' = sy_mounted S \<or> rc = RcOk \<and> (\<exists>v p. sy_mounted S v = None \<and> sy_mounted S' = (sy_mounted S)(v \<mapsto> p))"
proof -
  define good where "good rc' S'' \<longleftrightarrow> mount_ok S'' \<and> (sy_mounted S'' = sy_mounted S \<or>
    rc' = RcOk \<and> (\<exists>v p. sy_mounted S v = None \<and> sy_mounted S'' = (sy_mounted S)(v \<mapsto> p)))" for rc' and S'' :: "'a sys"
  have quit: "wlp (do { S \<leftarrow> m_rel_opt E (sys_unlock E r LkSys T) minode; Some (rc', S) }) (\<lambda>(rc, S). good rc S)"
    if g: "good rc' T" for r T minode rc'
  proof (rule wlp_bind [OF skeeps_inodes(3)])
    fix U assume "skeeps (sys_unlock E r LkSys T) U"
    then have k: "skeeps T U" by (rule skeeps_trans [OF skeeps_services(2)])
    have "mount_ok U" "sy_mounted U = sy_mounted T"
      using mount_ok_skeeps [OF _ k] g k by (simp_all add: good_def skeeps_def)
    then show "wlp (Some (rc', U)) (\<lambda>(rc, S). good rc S)" using g by (simp add: good_def)
  qed
  have still: "good rc' T" if "skeeps S T" for rc' T
    using that mount_ok_skeeps [OF ok that] by (simp add: good_def skeeps_def)
  have checked: "wlp (mount_checked E T acee v p) (\<lambda>(rc, minode, U). good rc U)" if k: "skeeps S T" for acee v p T
  proof (rule wlpI, clarify)
    fix rc' minode U assume c: "mount_checked E T acee v p = Some (rc', minode, U)"
    note C = mount_checked_ok [OF mount_ok_skeeps [OF ok k] c]
    have "sy_mounted T = sy_mounted S" using k by (simp add: skeeps_def)
    show "good rc' U"
    proof (cases "minode \<noteq> None \<and> rc' = RcOk")
      case True
      then show ?thesis using C \<open>sy_mounted T = sy_mounted S\<close> unfolding good_def by metis
    next
      case False
      then have "sy_mounted U = sy_mounted T" using C(2) by metis
      then show ?thesis using C(1) \<open>sy_mounted T = sy_mounted S\<close> by (simp add: good_def)
    qed
  qed
  have checked': "wlp (mount_checked E T acee v p \<bind> (\<lambda>(rc, m, U). f rc m U)) Q"
    if "skeeps S T" "\<And>rc m U. good rc U \<Longrightarrow> wlp (f rc m U) Q" for acee v p T f and Q :: "rc \<times> 'a sys \<Rightarrow> bool"
    by (rule wlp_bind [OF checked [OF that(1)]]) (use that(2) in auto)
  have "wlp (ufs_mount E S u dd path) (\<lambda>(rc, S). good rc S)"
    unfolding ufs_mount_def Let_def
    by (assumption | rule skeeps_refl wlp_option then_lock then_lookup checked' wlp_if
      | (rule quit, (assumption | (rule still, assumption)))
      | (rule then_triple, rule skeeps_root_allowed, (assumption | rule skeeps_refl))
      | (simp add: still; fail)
      | rule wlp_any wlp_prod)+
  from wlpD [OF this run] show "mount_ok S'"
    "sy_mounted S' = sy_mounted S \<or> rc = RcOk \<and> (\<exists>v p. sy_mounted S v = None \<and> sy_mounted S' = (sy_mounted S)(v \<mapsto> p))"
    by (simp_all add: good_def)
qed

section \<open>Unmounting by path, by volume, by name, and everything\<close>

definition unmounts :: "'d sys \<Rightarrow> 'd sys \<Rightarrow> bool" where
  "unmounts S T \<longleftrightarrow> mount_ok T \<and> sy_mounted T \<subseteq>\<^sub>m sy_mounted S"

lemma unmounts_refl: "mount_ok S \<Longrightarrow> unmounts S S"
  by (simp add: unmounts_def)

lemma unmounts_skeeps: "unmounts S T \<Longrightarrow> skeeps T U \<Longrightarrow> unmounts S U"
  using mount_ok_skeeps [of T U] by (simp add: unmounts_def skeeps_def)

lemma unmounts_inode:
  assumes "unmounts S T" "\<And>rc U. unmounts S U \<Longrightarrow> wlp (f rc U) Q"
  shows "wlp (ufs_unmount_inode E T p \<bind> (\<lambda>(rc, U). f rc U)) Q"
proof (rule wlp_any, rule wlp_prod, rule assms(2))
  fix x rc U assume "ufs_unmount_inode E T p = Some x" "x = (rc, U)"
  then have run: "ufs_unmount_inode E T p = Some (rc, U)" by simp
  have ok: "mount_ok T" using assms(1) by (simp add: unmounts_def)
  note I = unmount_inode_ok [OF ok run]
  have "sy_mounted U \<subseteq>\<^sub>m sy_mounted T"
  proof (cases "rc = RcOk")
    case True
    then show ?thesis using I(2) by (auto simp: map_le_def split: if_splits)
  qed (use I(3) in simp)
  then show "unmounts S U" using assms(1) I(1) map_le_trans unfolding unmounts_def by blast
qed

lemma unmounts_inode': "unmounts S T \<Longrightarrow> wlp (ufs_unmount_inode E T p) (\<lambda>(rc, U). unmounts S U)"
  using unmounts_inode [of S T "\<lambda>rc U. Some (rc, U)" "\<lambda>(rc, U). unmounts S U" E p] by simp

lemma unmounts_then:
  "unmounts S T \<Longrightarrow> (\<And>r U. unmounts S U \<Longrightarrow> wlp (f r U) Q) \<Longrightarrow> wlp (case sys_lock E k T of (r, U) \<Rightarrow> f r U) Q"
  "unmounts S T \<Longrightarrow> unmounts S (sys_unlock E r k T)"
  by (rule wlp_prod) (use unmounts_skeeps skeeps_services(1,2) in blast)+

lemma unmount_path_ok:
  assumes "mount_ok S"
  shows "wlp (ufs_unmount_path E S u path) (\<lambda>(rc, S'). unmounts S S')"
proof -
  have inode: "skeeps S T \<Longrightarrow> wlp (ufs_unmount_inode E T p) (\<lambda>(rc, U). unmounts S U)" for T p
    by (rule unmounts_inode' [OF unmounts_skeeps [OF unmounts_refl [OF assms]]])
  have stop: "skeeps S T \<Longrightarrow> unmounts S T" for T by (rule unmounts_skeeps [OF unmounts_refl [OF assms]])
  show ?thesis unfolding ufs_unmount_path_def
    by (assumption | rule skeeps_refl wlp_option wlp_if then_lookup inode | (simp add: stop; fail))+
qed

lemma unmount_vdisk_ok: "mount_ok S \<Longrightarrow> wlp (ufs_unmount_vdisk E S v) (\<lambda>(rc, S'). unmounts S S')"
  unfolding ufs_unmount_vdisk_def
  by (intro wlp_intros unmounts_inode') (simp_all add: unmounts_refl)

lemma unmount_ddname_ok:
  assumes "mount_ok S"
  shows "wlp (ufs_unmount_ddname E S dd) (\<lambda>(rc, S'). unmounts S S')"
proof -
  note start = unmounts_refl [OF assms]
  show ?thesis unfolding ufs_unmount_ddname_def Let_def
    by (assumption | rule start wlp_option unmounts_then(1) unmounts_inode
        | (simp add: unmounts_then(2) start; fail) | rule wlp_any)+
qed

lemma unmount_from_ok:
  "unmounts S T \<Longrightarrow> wlp (unmount_from E n rc T) (\<lambda>(rc, U). unmounts S U)"
proof (induction n arbitrary: rc T)
  case (Suc n)
  have "wlp ((if b then Some (rc, T) else ufs_unmount_inode E T p) \<bind> (\<lambda>(rc, U). unmount_from E n rc U))
      (\<lambda>(rc, U). unmounts S U)" for b p
    using Suc.IH [OF Suc.prems] unmounts_inode [OF Suc.prems Suc.IH] by (cases b) simp_all
  then show ?case
    unfolding unmount_from.simps by (rule wlp_option [OF Suc.IH [OF Suc.prems] wlp_any])
qed simp

lemma skeeps_session:
  "wlp (ufs_cwd_new E S) (\<lambda>(c, S'). skeeps S S')" "wlp (ufs_cwd_free E S cwd) (\<lambda>(b, S'). skeeps S S')"
  "wlp (ufsnew E S) (\<lambda>(u, S'). skeeps S S')" "wlp (ufsfree E S uo) (skeeps S)"
proof -
  have end_lock: "skeeps S T \<Longrightarrow> skeeps S (sys_unlock E r k T)" for S T :: "'a sys" and E r k
    by (rule skeeps_trans [OF _ skeeps_services(2)])
  have end_cwd: "skeeps S T \<Longrightarrow> skeeps S (T\<lparr>sy_cwd := w, sy_cwds := ws, sy_next := n\<rparr>)" for S T :: "'a sys" and w ws n
    by (simp add: skeeps_def)
  have fr: "skeeps S T \<Longrightarrow> skeeps S (T\<lparr>sy_cwd := w\<rparr>)" "skeeps S T \<Longrightarrow> skeeps S (T\<lparr>sy_cwds := ws\<rparr>)"
    "skeeps S T \<Longrightarrow> skeeps S (T\<lparr>sy_outer := d\<rparr>)" for S T :: "'a sys" and w ws d
    by (simp_all add: skeeps_def)
  have calloc: "skeeps S T \<Longrightarrow> (\<And>r U. skeeps S U \<Longrightarrow> wlp (f r U) Q) \<Longrightarrow> wlp (case sys_calloc E n T of (r, U) \<Rightarrow> f r U) Q"
    for S T :: "'a sys" and f E n and Q :: "'b \<Rightarrow> bool"
    by (rule wlp_prod) (use skeeps_services(3) skeeps_trans in blast)
  have assoc: "wlp (m \<bind> (\<lambda>x. g x \<bind> f)) Q \<Longrightarrow> wlp ((m \<bind> g) \<bind> f) Q" for m :: "'a sys option" and g f and Q :: "'b \<Rightarrow> bool"
    by (cases m) simp_all
  have root: "wlp (f a) Q \<Longrightarrow> (\<And>p. wlp (g p \<bind> f) Q) \<Longrightarrow> wlp ((case x of None \<Rightarrow> Some a | Some p \<Rightarrow> g p) \<bind> f) Q"
    for x f a g and Q :: "'b \<Rightarrow> bool" by (cases x) simp_all
  show new: "wlp (ufs_cwd_new E S) (\<lambda>(c, S'). skeeps S S')" for S
    unfolding ufs_cwd_new_def Let_def
    by (assumption | rule skeeps_refl calloc then_lock wlp_if
      | ((subst Option.bind_assoc | rule root)) | (rule then_state, rule skeeps_inodes, assumption)
      | (simp add: end_lock; fail) | (simp, rule end_lock, rule end_cwd, assumption))+
  show free: "wlp (ufs_cwd_free E S cwd) (\<lambda>(b, S'). skeeps S S')" for S cwd
    unfolding ufs_cwd_free_def Let_def
    by (assumption | rule skeeps_refl wlp_option calloc then_lock wlp_if
      | (rule then_state, rule skeeps_inodes, (assumption | (rule fr, rule fr, assumption)))
      | (simp add: end_lock fr; fail) | rule wlp_any)+
  show "wlp (ufsnew E S) (\<lambda>(u, S'). skeeps S S')"
    unfolding ufsnew_def Let_def
    by (assumption | rule skeeps_refl calloc wlp_if
      | (rule then_pair, rule new, assumption)
      | (simp add: fr split: prod.splits; fail))+
  have out: "skeeps S T \<Longrightarrow> skeeps S (snd (logout E u T))" for S T :: "'a sys" and E u
    by (auto simp: logout_def fr split: option.splits prod.splits)
  show "wlp (ufsfree E S uo) (skeeps S)"
    unfolding ufsfree_def
    by (assumption | rule skeeps_refl wlp_option | (rule then_pair, rule free, rule skeeps_refl) | (simp add: out; fail))+
qed

lemma unmount_all_ok:
  assumes "mount_ok S"
  shows "wlp (ufs_unmount_all E S) (\<lambda>(rc, S'). unmounts S S')"
proof -
  note start = unmounts_refl [OF assms]
  have stop: "skeeps S T \<Longrightarrow> unmounts S T" for T by (rule unmounts_skeeps [OF start])
  have from': "unmounts S T \<Longrightarrow> (\<And>rc U. unmounts S U \<Longrightarrow> wlp (f rc U) Q) \<Longrightarrow>
      wlp (unmount_from E n rc T \<bind> (\<lambda>(rc, U). f rc U)) Q" for T n rc f and Q :: "rc \<times> 'a sys \<Rightarrow> bool"
    by (rule wlp_bind [OF unmount_from_ok]) auto
  have free: "unmounts S T \<Longrightarrow> wlp (ufsfree E (sys_unlock E r k T) u \<bind> (\<lambda>S. Some (rc, S))) (\<lambda>(rc, U). unmounts S U)" for T r k u rc
    by (rule wlp_bind [OF skeeps_session(4)]) (simp add: unmounts_skeeps [OF unmounts_then(2)])
  show ?thesis unfolding ufs_unmount_all_def Let_def
    by (assumption | rule start wlp_if from' free
        | (rule then_pair, rule skeeps_session(3), rule skeeps_refl)
        | (rule unmounts_then(1), rule stop, assumption)
        | (simp add: stop; fail))+
qed

section \<open>The system as a state machine\<close>

text \<open>
  What changes the mount table or may touch the inodes it names: mounting and unmounting, and what
  every other operation is made of where it works on the cache of inodes.
\<close>

inductive mount_step :: "'d env \<Rightarrow> 'd sys \<Rightarrow> 'd sys \<Rightarrow> bool" for E where
  mount: "ufs_mount E S u dd path = Some (rc, S') \<Longrightarrow> mount_step E S S'"
| by_path: "ufs_unmount_path E S u path = Some (rc, S') \<Longrightarrow> mount_step E S S'"
| by_volume: "ufs_unmount_vdisk E S v = Some (rc, S') \<Longrightarrow> mount_step E S S'"
| by_name: "ufs_unmount_ddname E S dd = Some (rc, S') \<Longrightarrow> mount_step E S S'"
| all: "ufs_unmount_all E S = Some (rc, S') \<Longrightarrow> mount_step E S S'"
| lookup: "ufs_lookup_minode E S u path wd wl = Some (rc, d, q, full, S') \<Longrightarrow> mount_step E S S'"
| get: "m_get E S v ino = Some (q, S') \<Longrightarrow> mount_step E S S'"
| take_use: "m_use E S p = Some S' \<Longrightarrow> mount_step E S S'"
| release: "m_rel E S p = Some S' \<Longrightarrow> mount_step E S S'"

lemma mount_step_ok: "mount_step E S S' \<Longrightarrow> mount_ok S \<Longrightarrow> mount_ok S'"
proof (induction rule: mount_step.induct)
  case (mount S u dd path rc S')
  then show ?case by (blast intro: mount_ok(1))
next
  case (by_path S u path rc S')
  then show ?case using wlpD [OF unmount_path_ok by_path(1)] by (simp add: unmounts_def)
next
  case (by_volume S v rc S')
  then show ?case using wlpD [OF unmount_vdisk_ok by_volume(1)] by (simp add: unmounts_def)
next
  case (by_name S dd rc S')
  then show ?case using wlpD [OF unmount_ddname_ok by_name(1)] by (simp add: unmounts_def)
next
  case (all S rc S')
  then show ?case using wlpD [OF unmount_all_ok all(1)] by (simp add: unmounts_def)
next
  case (lookup S u path wd wl rc d q full S')
  then show ?case using wlpD [OF skeeps_lookup lookup(1)] by (auto intro: mount_ok_skeeps)
next
  case (get S v ino q S')
  then show ?case using wlpD [OF skeeps_inodes(4) get(1)] by (auto intro: mount_ok_skeeps)
next
  case (take_use S p S')
  then show ?case using wlpD [OF skeeps_inodes(1) take_use(1)] by (auto intro: mount_ok_skeeps)
next
  case (release S p S')
  then show ?case using wlpD [OF skeeps_inodes(2) release(1)] by (auto intro: mount_ok_skeeps)
qed

lemma mount_steps_ok: "(mount_step E)\<^sup>*\<^sup>* S S' \<Longrightarrow> mount_ok S \<Longrightarrow> mount_ok S'"
  by (induction rule: rtranclp_induct) (auto intro: mount_step_ok)

lemma mount_unmount_ok:
  assumes "mount_ok S" "ufs_mount E S u dd path = Some (RcOk, S1)" "sy_mounted S v = None" "sy_mounted S1 v \<noteq> None"
    "ufs_unmount_vdisk E S1 (Some v) = Some (RcOk, S2)"
  shows "sy_mounted S2 = sy_mounted S \<and> set (sy_mountpoint S2) = set (sy_mountpoint S)"
proof -
  note M = mount_ok [OF assms(1,2)]
  obtain p where p: "sy_mounted S1 = (sy_mounted S)(v \<mapsto> p)"
    using M(2) assms(3,4) by (auto split: if_splits)
  have "ufs_unmount_inode E S1 (sy_mounted S1 v) = Some (RcOk, S2)"
    using assms(4,5) by (auto simp: ufs_unmount_vdisk_def split: if_splits)
  note U = unmount_inode_ok [OF M(1) this]
  obtain w where w: "sy_mounted S1 w = sy_mounted S1 v" "sy_mounted S2 = (sy_mounted S1)(w := None)"
    using U(2) by blast
  have "sy_mounted S1 v = Some p" using p by simp
  with w(1) have "w = v" by (intro mount_okD(3) [OF M(1)]) simp_all
  with w p assms(3) have "sy_mounted S2 = sy_mounted S" by auto
  moreover have set_eq: "set (sy_mountpoint T) = {q. \<exists>v. sy_mounted T v = Some q}" if "mount_ok T" for T
    using mount_okD(2) [OF that] by blast
  ultimately show ?thesis using set_eq [OF assms(1)] set_eq [OF U(1)] by simp
qed

lemma mount_again:
  assumes "sys_lock E LkSys S = (r, S1)" "find_ddname S1 dd (sy_vdisks S1) = Some (Some v)" "sy_mounted S v \<noteq> None"
    "root_allowed E S1 v = Some (RcOk, None, S2)" "ufs_lookup_minode E S2 u path True True = Some (RcOk, d, Some p, full, S3)"
  shows "\<exists>S'. ufs_mount E S u (Some dd) (Some path) = Some (RcOk, S') \<and> sy_mounted S' = sy_mounted S"
proof -
  have k: "skeeps S S3"
    using skeeps_trans [OF skeeps_services(1) [OF assms(1)]] skeeps_trans wlpD [OF skeeps_root_allowed assms(4)]
      wlpD [OF skeeps_lookup assms(5)] by auto
  then have m: "sy_mounted S3 = sy_mounted S" by (simp add: skeeps_def)
  have "ufs_mount E S u (Some dd) (Some path) = Some (RcOk, sys_unlock E r LkSys S3)"
    using assms m by (auto simp: ufs_mount_def mount_checked_def m_rel_opt_def)
  moreover have "sy_mounted (sys_unlock E r LkSys S3) = sy_mounted S"
    using m by (simp add: sys_unlock_def)
  ultimately show ?thesis by simp
qed

end
