(* ===== verification/Session.thy ===== *)
theory Session
  imports System "HOL-Library.Multiset"
begin

text \<open>
  Sessions as a state machine: the operations of a user on his handle from
  \<^verbatim>\<open>ufsnew\<close> to \<^verbatim>\<open>ufsfree\<close>, and who is logged on to RACF on his behalf.
\<close>

section \<open>What RACF promises\<close>

text \<open>
  \<open>live d\<close> is the multiset of the ACEEs that \<^verbatim>\<open>racf_login\<close> has handed out and
  \<^verbatim>\<open>racf_logout\<close> has not taken back. Logging out clears the caller's pointer. Locks, storage
  and the lookup of the address space's own ACEE leave it alone.
\<close>

definition owned :: "acee option \<Rightarrow> acee multiset" where
  "owned a = (case a of None \<Rightarrow> {#} | Some a \<Rightarrow> {#a#})"

definition logs_nobody :: "('d \<Rightarrow> acee multiset) \<Rightarrow> 'd os \<Rightarrow> bool" where
  "logs_nobody live os \<longleftrightarrow> (\<forall>d k. live (snd (os_lock os d k)) = live d) \<and>
     (\<forall>d k. live (os_unlock os d k) = live d) \<and> (\<forall>d n. live (snd (os_calloc os d n)) = live d)"

definition racf_laws :: "'d env \<Rightarrow> ('d \<Rightarrow> acee multiset) \<Rightarrow> bool" where
  "racf_laws E live \<longleftrightarrow> logs_nobody live (en_os E) \<and> (\<forall>i. logs_nobody live (en_disk E i)) \<and>
     (\<forall>d. live (snd (racf_get_acee E d)) = live d) \<and>
     (\<forall>x p g d. live (snd (snd (racf_login E x p g d))) = live d + owned (fst (racf_login E x p g d))) \<and>
     (\<forall>a d. a \<in># live d \<longrightarrow> fst (racf_logout E a d) = None \<and> live (snd (racf_logout E a d)) = live d - {#a#})"

lemma racfD:
  assumes "racf_laws E live"
  shows "logs_nobody live (en_os E)" "logs_nobody live (en_disk E i)" "live (snd (racf_get_acee E d)) = live d"
    "live (snd (snd (racf_login E x p g d))) = live d + owned (fst (racf_login E x p g d))"
    "a \<in># live d \<Longrightarrow> fst (racf_logout E a d) = None"
    "a \<in># live d \<Longrightarrow> live (snd (racf_logout E a d)) = live d - {#a#}"
  using assms unfolding racf_laws_def by blast+

section \<open>The steps of a session\<close>

text \<open>
  A session is its handle and the system. Between its own steps the rest of the program may change
  the system in any way that logs nobody on or off.
\<close>

inductive session_step :: "'d env \<Rightarrow> ('d \<Rightarrow> acee multiset) \<Rightarrow> ufs \<times> 'd sys \<Rightarrow> ufs \<times> 'd sys \<Rightarrow> bool" for E live where
  signon: "ufs_signon E (Some u) userid password grp S = (rc, Some u', S') \<Longrightarrow> session_step E live (u, S) (u', S')"
| signoff: "ufs_signoff E (Some u) S = (Some u', S') \<Longrightarrow> session_step E live (u, S) (u', S')"
| set_acee: "ufs_set_acee E (Some u) a S = (r, Some u', S') \<Longrightarrow> session_step E live (u, S) (u', S')"
| set_perm: "ufs_set_create_perm (Some u) perm = (r, Some u') \<Longrightarrow> session_step E live (u, S) (u', S)"
| set_cwd: "ufs_set_cwd (Some u) cwd = (r, Some u') \<Longrightarrow> session_step E live (u, S) (u', S)"
| other: "live (sy_outer S') = live (sy_outer S) \<Longrightarrow> session_step E live (u, S) (u, S')"

text \<open>What belongs to a session: the ACEE of its own logon, when the flag says there is one.\<close>

definition session_own :: "ufs \<Rightarrow> acee multiset" where
  "session_own u = (if us_flags u AND UFS_ACEE_SIGNON \<noteq> 0 then owned (us_acee u) else {#})"

definition session_inv :: "('d \<Rightarrow> acee multiset) \<Rightarrow> acee multiset \<Rightarrow> ufs \<times> 'd sys \<Rightarrow> bool" where
  "session_inv live base c \<longleftrightarrow> live (sy_outer (snd c)) = base + session_own (fst c) \<and>
     (us_flags (fst c) AND UFS_ACEE_SIGNON \<noteq> 0 \<longrightarrow> us_acee (fst c) \<noteq> None)"

lemma signon_flag [simp]:
  "acee_flags f AND UFS_ACEE_SIGNON = 0" "(acee_flags f OR UFS_ACEE_USER) AND UFS_ACEE_SIGNON = 0"
  "(f OR UFS_ACEE_SIGNON) AND UFS_ACEE_SIGNON \<noteq> 0" "(f AND NOT UFS_ACEE_SIGNON) AND UFS_ACEE_SIGNON = 0"
  "UFS_ACEE_DEFAULT AND UFS_ACEE_SIGNON = 0" "UFS_ACEE_SIGNON \<noteq> 0"
  by (simp_all add: acee_flags_def UFS_ACEE_DEFAULT_def UFS_ACEE_USER_def UFS_ACEE_SIGNON_def and.assoc
      bit.conj_disj_distrib bit.conj_disj_distrib2)

text \<open>Logging out takes back what the session owns, and nothing else.\<close>

lemma logout_ok:
  assumes "racf_laws E live" "session_inv live base (u, S)" "logout E u S = (u', S')"
  shows "live (sy_outer S') = base" "us_flags u' = us_flags u"
    "us_flags u AND UFS_ACEE_SIGNON \<noteq> 0 \<Longrightarrow> us_acee u' = None"
    "us_flags u AND UFS_ACEE_SIGNON = 0 \<Longrightarrow> u' = u" "us_cwd u' = us_cwd u"
  using assms(2,3) racfD(5,6) [OF assms(1), of "the (us_acee u)" "sy_outer S"]
  by (auto simp: logout_def session_inv_def session_own_def owned_def split: option.splits if_splits prod.splits)

lemma session_step_inv:
  assumes "racf_laws E live" "session_step E live c c'" "session_inv live base c"
  shows "session_inv live base c'"
  using assms(2,3)
proof cases
  case (signon u userid password grp S rc u' S')
  note inv = assms(3) [unfolded signon(1)]
  let ?login = "racf_login E userid password grp (sy_outer S)"
  obtain a r d where l: "?login = (a, r, d)" by (metis prod_cases3)
  have live: "live d = live (sy_outer S) + owned a" using racfD(4) [OF assms(1), of userid password grp "sy_outer S"] l by simp
  show ?thesis
  proof (cases a)
    case None
    then show ?thesis using signon l live inv by (auto simp: ufs_signon_def session_inv_def owned_def)
  next
    case (Some b)
    have inv': "session_inv live (base + {#b#}) (u, S\<lparr>sy_outer := d\<rparr>)"
      using inv live Some by (simp add: session_inv_def owned_def)
    obtain u1 S1 where lo: "logout E u (S\<lparr>sy_outer := d\<rparr>) = (u1, S1)" by force
    note L = logout_ok [OF assms(1) inv' lo]
    show ?thesis using signon l lo Some L
      by (auto simp: ufs_signon_def session_inv_def session_own_def owned_def)
  qed
next
  case (signoff u S u' S')
  obtain u1 S1 where lo: "logout E u S = (u1, S1)" by force
  note L = logout_ok [OF assms(1) assms(3) [unfolded signoff(1)] lo]
  show ?thesis using signoff assms(3) lo L
    by (auto simp: ufs_signoff_def session_inv_def session_own_def split: if_splits)
next
  case (set_acee u a S r u' S')
  obtain u1 S1 where lo: "logout E u S = (u1, S1)" by force
  note L = logout_ok [OF assms(1) assms(3) [unfolded set_acee(1)] lo]
  show ?thesis using set_acee lo L
    by (auto simp: ufs_set_acee_def Let_def session_inv_def session_own_def split: if_splits)
next
  case (set_perm u perm r u' S)
  then show ?thesis using assms(3) by (auto simp: ufs_set_create_perm_def session_inv_def session_own_def)
next
  case (set_cwd u cwd r u' S)
  then show ?thesis using assms(3) by (auto simp: ufs_set_cwd_def session_inv_def session_own_def)
next
  case (other S' S u)
  then show ?thesis using assms(3) by (simp add: session_inv_def)
qed

lemma session_steps_inv:
  assumes "racf_laws E live" "(session_step E live)\<^sup>*\<^sup>* c c'" "session_inv live base c"
  shows "session_inv live base c'"
  using assms(2,3) by (induction rule: rtranclp_induct) (auto intro: session_step_inv [OF assms(1)])

section \<open>The start and the end of a session\<close>

lemma logs_nobody_locks:
  assumes "logs_nobody live os"
  shows "live (v_outer (snd (lock os k s))) = live (v_outer s)" "live (v_outer (unlock os r k s)) = live (v_outer s)"
  using assms by (simp_all add: logs_nobody_def lock_def unlock_def case_prod_beta)

lemma use_rel_live:
  assumes "logs_nobody live os"
  shows "ufs_inode_use os s p = Some s' \<Longrightarrow> live (v_outer s') = live (v_outer s)"
    "ufs_inode_rel os s p = Some s' \<Longrightarrow> live (v_outer s') = live (v_outer s)"
proof -
  have l: "lock os k s = (r, s') \<Longrightarrow> live (v_outer s') = live (v_outer s)" for k s r s'
    using logs_nobody_locks(1) [OF assms, of k s] by simp
  note q = l logs_nobody_locks(2) [OF assms]
  have sm: "v_outer (set_minode p m s) = v_outer s" for p m s by (simp add: set_minode_def)
  show "ufs_inode_use os s p = Some s' \<Longrightarrow> live (v_outer s') = live (v_outer s)"
    by (auto simp: ufs_inode_use_def Let_def bind_eq_Some_conv q sm split: prod.splits dest!: l)
  show "ufs_inode_rel os s p = Some s' \<Longrightarrow> live (v_outer s') = live (v_outer s)"
    by (auto simp: ufs_inode_rel_def Let_def bind_eq_Some_conv q sm split: prod.splits if_splits dest!: l)
qed

lemma sys_locks_live:
  assumes "racf_laws E live"
  shows "sys_lock E k S = (r, S') \<Longrightarrow> live (sy_outer S') = live (sy_outer S)"
    "live (sy_outer (sys_unlock E r k S)) = live (sy_outer S)"
    "sys_calloc E n S = (ok, S') \<Longrightarrow> live (sy_outer S') = live (sy_outer S)"
  using racfD(1) [OF assms]
  by (auto simp: logs_nobody_def sys_lock_def sys_unlock_def sys_calloc_def case_prod_beta)

lemma m_live:
  assumes "racf_laws E live"
  shows "m_use E S p = Some S' \<Longrightarrow> live (sy_outer S') = live (sy_outer S)"
    "m_rel E S p = Some S' \<Longrightarrow> live (sy_outer S') = live (sy_outer S)"
    "m_rel_opt E S q = Some S' \<Longrightarrow> live (sy_outer S') = live (sy_outer S)"
proof -
  note ur = use_rel_live [OF racfD(2) [OF assms, of "fst p"]]
  show u: "m_use E S p = Some S' \<Longrightarrow> live (sy_outer S') = live (sy_outer S)"
    by (auto simp: m_use_def on_vol'_def on_vol_def bind_eq_Some_conv dest!: ur(1))
  have r: "live (sy_outer S') = live (sy_outer S)" if "m_rel E S p = Some S'" for p
    using that use_rel_live(2) [OF racfD(2) [OF assms, of "fst p"]]
    by (fastforce simp: m_rel_def on_vol'_def on_vol_def bind_eq_Some_conv)
  then show "m_rel E S p = Some S' \<Longrightarrow> live (sy_outer S') = live (sy_outer S)" by blast
  show "m_rel_opt E S q = Some S' \<Longrightarrow> live (sy_outer S') = live (sy_outer S)"
    using r by (auto simp: m_rel_opt_def split: option.splits)
qed

lemma cwd_live:
  assumes "racf_laws E live"
  shows "ufs_cwd_new E S = Some (c, S') \<Longrightarrow> live (sy_outer S') = live (sy_outer S)"
    "ufs_cwd_free E S cwd = Some (b, S') \<Longrightarrow> live (sy_outer S') = live (sy_outer S)"
proof -
  note l = sys_locks_live [OF assms] and m = m_live [OF assms]
  show "ufs_cwd_new E S = Some (c, S') \<Longrightarrow> live (sy_outer S') = live (sy_outer S)"
    by (auto simp: ufs_cwd_new_def Let_def bind_eq_Some_conv l(2)
        split: prod.splits if_splits option.splits dest!: l(1,3) m(1))
  show "ufs_cwd_free E S cwd = Some (b, S') \<Longrightarrow> live (sy_outer S') = live (sy_outer S)"
    by (auto simp: ufs_cwd_free_def Let_def bind_eq_Some_conv l(2)
        split: prod.splits if_splits option.splits dest!: l(1,3) m(3))
qed

lemma session_start:
  assumes "racf_laws E live" "ufsnew E S = Some (Some u, S')"
  shows "session_inv live (live (sy_outer S)) (u, S')"
proof -
  obtain ok S1 where c: "sys_calloc E 32 S = (ok, S1)" by force
  have "ok" using assms(2) c by (auto simp: ufsnew_def split: if_splits)
  then obtain cwd S2 where w: "ok" "ufs_cwd_new E S1 = Some (cwd, S2)"
    using assms(2) c by (cases "ufs_cwd_new E S1") (auto simp: ufsnew_def)
  show ?thesis
    using assms(2) c w sys_locks_live(3) [OF assms(1) c] cwd_live(1) [OF assms(1) w(2)] racfD(3) [OF assms(1), of "sy_outer S2"]
    by (auto simp: ufsnew_def Let_def session_inv_def session_own_def split: prod.splits if_splits)
qed

lemma session_end:
  assumes "racf_laws E live" "session_inv live base (u, S)" "ufsfree E S (Some u) = Some S'"
  shows "live (sy_outer S') = base"
proof -
  obtain b S1 where f: "ufs_cwd_free E S (us_cwd u) = Some (b, S1)"
    and e: "S' = snd (logout E u S1)" using assms(3) by (auto simp: ufsfree_def bind_eq_Some_conv)
  have "session_inv live base (u, S1)"
    using assms(2) cwd_live(2) [OF assms(1) f] by (simp add: session_inv_def)
  from logout_ok(1) [OF assms(1) this, of "fst (logout E u S1)" S'] e show ?thesis by simp
qed

end
