(* ===== verification/Ram_System.thy ===== *)
theory Ram_System
  imports Ram_Files Mount_Table Session
begin

text \<open>
  A small system on \<^verbatim>\<open>Ram\<close>: two volumes without page cache. On volume 0 a root directory
  with one entry, the directory \<open>d\<close>, both inodes in the cache; on volume 1 a root directory. Volume 0
  is mounted on its own root.
\<close>

definition demo_lib :: clib where
  "demo_lib = \<lparr> cl_strcpyp = (\<lambda>n x pad. take n (cstr x @ replicate n pad)),
     cl_memcpyp = (\<lambda>n x pad. take n (x @ replicate n pad)), cl_patmat = (\<lambda>x p. x = p) \<rparr>"

definition demo_env :: "(u32 \<Rightarrow> block) env" where
  "demo_env = \<lparr> en_disk = (\<lambda>_. ram), en_os = ram, en_lib = demo_lib, en_fold = id, en_upper = id,
     en_space = (\<lambda>c. c = 0x20), racf_get_acee = (\<lambda>d. (None, d)), racf_login = (\<lambda>x p g d. (None, 8, d)),
     racf_logout = (\<lambda>a d. (None, d)), en_tiot = [] \<rparr>"

definition demo_dir :: "u32 \<Rightarrow> u32 \<Rightarrow> u32 \<Rightarrow> nat option \<Rightarrow> minode" where
  "demo_dir ino fs blk v = zero_minode\<lparr>mi_inode_number := ino, mi_usecount := 1, mi_mounted_vdisk := v,
     mi_dinode := zero_dinode\<lparr>di_mode := 0x41FF, di_nlink := 2, di_filesize := fs,
       di_addr := blk # replicate 18 0\<rparr>\<rparr>"

definition demo_root :: "(u32 \<Rightarrow> block) vol" where
  "demo_root = (demo None)\<lparr>v_minodes := [0, 1],
     v_mstore := (\<lambda>_. None)(0 \<mapsto> demo_dir 2 64 20 (Some 0), 1 \<mapsto> demo_dir 5 0 0 None), v_mnext := 2\<rparr>"

definition demo_second :: "(u32 \<Rightarrow> block) vol" where
  "demo_second = (demo None)\<lparr>v_minodes := [0], v_mstore := (\<lambda>_. None)(0 \<mapsto> demo_dir 2 0 0 None), v_mnext := 1,
     v_disk := demo_disk\<lparr>dk_ddname := [1]\<rparr>\<rparr>"

definition demo_blocks_of :: "u32 \<Rightarrow> block" where
  "demo_blocks_of = demo_data(20 := enc_dirent \<lparr>de_inode_number = 5, de_name = 0x64 # replicate 59 0\<rparr>)"

definition demo_sys :: "(u32 \<Rightarrow> block) sys" where
  "demo_sys = \<lparr> sy_outer = demo_blocks_of, sy_eye = True, sy_disks = [0, 1], sy_pagers = [], sy_io = [0, 1],
     sy_vdisks = [0, 1], sy_vol = (\<lambda>_. None)(0 \<mapsto> demo_root, 1 \<mapsto> demo_second),
     sy_mounted = (\<lambda>_. None)(0 \<mapsto> (0, 0)), sy_fsroot = Some (0, 0), sy_cwds = [0],
     sy_cwd = (\<lambda>_. None)(0 \<mapsto> \<lparr>cw_cur_dir = Some (0, 0), cw_root_dir = Some (0, 0), cw_refcnt = 1, cw_path = [slash]\<rparr>),
     sy_files = [], sy_mountpoint = [(0, 0)], sy_next = 1 \<rparr>"

definition demo_user :: ufs where
  "demo_user = \<lparr> us_cwd = Some 0, us_acee = None, us_flags = 0, us_create_perm = 0x1ED \<rparr>"

lemmas demo_sys_defs = demo_sys_def demo_env_def demo_user_def demo_root_def demo_second_def

lemma demo_use_rel:
  obtains S1 S2 where "m_use demo_env demo_sys (0, 0) = Some S1" "m_rel demo_env S1 (0, 0) = Some S2"
proof -
  have "\<exists>S1. m_use demo_env demo_sys (0, 0) = Some S1 \<and> (\<exists>S2. m_rel demo_env S1 (0, 0) = Some S2)"
    by (simp add: m_use_def m_rel_def on_vol'_def on_vol_def ufs_inode_use_def ufs_inode_rel_def lock_def unlock_def
      set_minode_def ram_def demo_sys_defs demo_dir_def zero_minode_def ufs_inode_isdir_def UFS_IFMT_def UFS_IFDIR_def)
  then show ?thesis using that by blast
qed

lemma demo_session:
  "us_cwd demo_user = Some 0" "sy_fsroot demo_sys = Some (0, 0)" "us_acee demo_user = None"
  "sy_cwd demo_sys 0 = Some \<lparr>cw_cur_dir = Some (0, 0), cw_root_dir = Some (0, 0), cw_refcnt = 1, cw_path = [slash]\<rparr>"
  by (simp_all add: demo_sys_defs)

section \<open>A lookup on the small system\<close>

lemma foreach_first:
  assumes "di_filesize (mi_dinode m) \<noteq> 0" "di_filesize (mi_dinode m) \<le> ucast (v_blksize s)" "get_addr m 0 = Some b"
    "ufs_datablock_number_sanity s b" "f s c b (di_filesize (mi_dinode m)) = Some (RcIter ITER_BREAK, c', s')"
  shows "ufs_datablock_foreach os f s m c = Some (RcIter ITER_BREAK, c', s')"
  using assms by (simp add: ufs_datablock_foreach_def visit_def numeral_eq_Suc)

lemma demo_entry:
  "entry_at (fit 512 (demo_blocks_of 20)) 0 = Some \<lparr>de_inode_number = 5, de_name = 0x64 # replicate 59 0\<rparr>"
proof -
  let ?e = "\<lparr>de_inode_number = 5, de_name = 0x64 # replicate 59 0\<rparr>"
  have "fit 512 (demo_blocks_of 20) = enc_dirent ?e @ replicate 448 0"
    by (simp add: demo_blocks_of_def fit_pad enc_dirent_def)
  moreover have "dec_dirent (enc_dirent ?e) = ?e" by (rule dec_enc_dirent) simp
  ultimately show ?thesis by (simp add: entry_at_def slice_def enc_dirent_def)
qed

lemma demo_find:
  assumes "v_disk s = demo_disk" "v_pager s = None" "v_outer s = demo_blocks_of" "di_filesize (mi_dinode m) = 64" "m_addr m = 20 # a"
    "ufs_inode_isdir (mi_dinode m)"
  shows "ufs_file_lookup_by_name ram s m [0x64] ino
    = Some (RcOk, 5, s\<lparr>v_disk := (v_disk s)\<lparr>dk_buf := [fit 512 (demo_blocks_of 20)]\<rparr>\<rparr>)"
proof -
  let ?s = "s\<lparr>v_disk := (v_disk s)\<lparr>dk_buf := [fit 512 (demo_blocks_of 20)]\<rparr>\<rparr>"
  have n: "lookup_name [0x64] = 0x64 # replicate 59 0"
  proof -
    have "replicate 58 0 @ [0] = replicate (Suc 58) (0 :: byte)" unfolding replicate_Suc replicate_append_same ..
    then show ?thesis
      by (simp add: lookup_name_def slash_def cstr_def ufs_dirent_filename_def UFS_NAME_MAX_def strncpy_to_def)
  qed
  have l: "lock ram k t = (0, t)" "unlock ram r k t = t" "calloc ram i t = (True, t)" for r k t i
    by (simp_all add: lock_def unlock_def calloc_def ram_def)
  have b: "ufs_disk_get_buf ram s = (Some (replicate 512 0), s)"
    using assms(1) by (simp add: ufs_disk_get_buf_def l lock_held_def demo_disk_def)
  have r: "ufs_vdisk_read ram s x 20 = (RcOk, fit 512 (demo_blocks_of 20), s)" for x
    using assms(1-3) by (simp add: ufs_vdisk_read_def ufs_disk_read_def ram_def ecb_rc_def demo_disk_def)
  have f: "ufs_disk_free_buf ram s (fit 512 (demo_blocks_of 20)) = ?s"
    using assms(1) by (simp add: ufs_disk_free_buf_def l lock_held_def demo_disk_def)
  have "lookup_subr ram (lookup_name [0x64]) s 0 20 64 = Some (RcIter ITER_BREAK, 5, ?s)"
    by (simp add: lookup_subr_def on_block_def b r f n demo_entry same_name_def strncmp_eq_iff)
  then have "ufs_datablock_foreach ram (lookup_subr ram (lookup_name [0x64])) s m 0 = Some (RcIter ITER_BREAK, 5, ?s)"
    using assms(1,4,5) by (intro foreach_first [where b = 20])
      (simp_all add: get_addr_def nth_opt_def demo_defs ufs_datablock_number_sanity_def)
  then show ?thesis
    using assms(6) by (simp add: ufs_file_lookup_by_name_def)
qed

definition demo_d :: "byte list" where
  "demo_d = [0x2F, 0x64]"

lemma demo_path:
  "full_path (Some [slash]) demo_d = Some (Inr [0x2F, 0x64])" "strtok [0x2F, 0x64] = Some ([0x64], [])"
  by (simp_all add: full_path_def demo_d_def char_at_def cstr_def slash_def UFS_PATH_MAX_def strip_slashes_def strtok_def)

lemmas run_defs = on_vol_def on_vol'_def m_use_def m_rel_def m_rel_opt_def m_get_def m_at_def m_upd_def
  ufs_inode_use_def ufs_inode_rel_def ufs_inode_get_def lock_def unlock_def set_minode_def demo_dir_def zero_minode_def
  sys_lock_def sys_unlock_def ufs_inode_isdir_def UFS_IFMT_def UFS_IFDIR_def

lemma os_ram [simp]:
  "os_lock ram = (\<lambda>d k. (0, d))" "os_unlock ram = (\<lambda>d k. d)" "os_calloc ram = (\<lambda>d n. (True, d))"
  by (simp_all add: ram_def)

lemma demo_auth:
  assumes "di_mode (mi_dinode m) = 0x41FF"
  shows "ufs_inode_auth_exec id None m" "ufs_inode_auth_write id None m"
  using assms by (simp_all add: ufs_inode_auth_exec_def ufs_inode_auth_write_def ufs_inode_auth_def access_allowed_def
      UFSACC_EXEC_def UFSACC_WRITE_def)

lemma demo_v: "v_outer (demo p) = demo_data" "v_disk (demo p) = demo_disk"
  by (simp_all add: demo_def)

lemmas look_defs = ufs_lookup_minode_def demo_path run_defs lmin_loop.simps enter_dir_def search_allowed_def dir_lookup_def
  UFS_ROOT_INODE_def demo_auth demo_find Let_def demo_v

text \<open>Volume 1 can be mounted on \<open>/d\<close> and unmounted; mounting volume 0 again gets to the directory.\<close>

lemma demo_mount_ok: "mount_ok demo_sys"
  by (simp add: mount_ok_def demo_sys_defs fresh_def m_at_def demo_dir_def zero_minode_def)

lemma demo_mounts:
  obtains S1 S2 where "ufs_mount demo_env demo_sys demo_user (Some [1]) (Some demo_d) = Some (RcOk, S1)"
    "sy_mounted S1 1 = Some (0, 1)" "ufs_unmount_vdisk demo_env S1 (Some 1) = Some (RcOk, S2)"
proof -
  have "\<exists>S1 S2. ufs_mount demo_env demo_sys demo_user (Some [1]) (Some demo_d) = Some (RcOk, S1)
      \<and> sy_mounted S1 1 = Some (0, 1) \<and> ufs_unmount_vdisk demo_env S1 (Some 1) = Some (RcOk, S2)"
    by (simp add: ufs_mount_def demo_sys_defs root_allowed_def look_defs mount_checked_def mount_on_def ddname_def
        demo_disk_def cstr_def ufs_unmount_vdisk_def ufs_unmount_inode_def upd_minode_def)
  then show ?thesis using that by blast
qed

lemma demo_again:
  obtains r S1 S2 d full S3 where "sys_lock demo_env LkSys demo_sys = (r, S1)"
    "find_ddname S1 [0] (sy_vdisks S1) = Some (Some 0)" "root_allowed demo_env S1 0 = Some (RcOk, None, S2)"
    "ufs_lookup_minode demo_env S2 demo_user demo_d True True = Some (RcOk, d, Some (0, 1), full, S3)"
proof -
  have "\<exists>r S1 S2 d full S3. sys_lock demo_env LkSys demo_sys = (r, S1)
      \<and> find_ddname S1 [0] (sy_vdisks S1) = Some (Some 0) \<and> root_allowed demo_env S1 0 = Some (RcOk, None, S2)
      \<and> ufs_lookup_minode demo_env S2 demo_user demo_d True True = Some (RcOk, d, Some (0, 1), full, S3)"
    by (simp add: demo_sys_defs root_allowed_def look_defs ddname_def demo_disk_def cstr_def)
  then show ?thesis using that by blast
qed

section \<open>A session on a system without disks\<close>

text \<open>The outside state is the multiset of the ACEEs logged on; every logon succeeds.\<close>

definition still :: "acee multiset os" where
  "still = \<lparr> osdread = (\<lambda>d bs b. (0, [], d)), osdwrite = (\<lambda>d bs buf b. (0, d)),
     os_lock = (\<lambda>d k. (0, d)), os_unlock = (\<lambda>d k. d), os_calloc = (\<lambda>d n. (True, d)),
     os_time = (\<lambda>d. (0, d)), os_time64 = (\<lambda>d. (0, d)), os_ddcb = (\<lambda>d n. (True, d)),
     os_dopen = (\<lambda>d. (0, d)), os_rdjfcb = (\<lambda>d. ([], True)), os_dcbblksi = (\<lambda>d. 512), os_dclose = (\<lambda>d. d) \<rparr>"

definition demo_acee :: "byte list \<Rightarrow> acee" where
  "demo_acee x = \<lparr> aceeacee = [], aceeuser = x, aceegrp = [], aceecgrp = [] \<rparr>"

definition demo_racf :: "acee multiset env" where
  "demo_racf = \<lparr> en_disk = (\<lambda>_. still), en_os = still, en_lib = demo_lib, en_fold = id, en_upper = id,
     en_space = (\<lambda>c. c = 0x20), racf_get_acee = (\<lambda>d. (None, d)),
     racf_login = (\<lambda>x p g d. (Some (demo_acee x), 0, add_mset (demo_acee x) d)),
     racf_logout = (\<lambda>a d. (None, d - {#a#})), en_tiot = [] \<rparr>"

lemma demo_racf_laws: "racf_laws demo_racf id"
  by (simp add: racf_laws_def logs_nobody_def demo_racf_def still_def owned_def)

lemma demo_logon:
  obtains u S u1 S1 S2 where "ufsnew demo_racf (empty_sys {#}) = Some (Some u, S)"
    "ufs_signon demo_racf (Some u) x p g S = (0, Some u1, S1)" "ufsfree demo_racf S1 (Some u1) = Some S2"
    "sy_outer S1 = {#demo_acee x#}"
proof -
  have "\<exists>u S u1 S1 S2. ufsnew demo_racf (empty_sys {#}) = Some (Some u, S)
      \<and> ufs_signon demo_racf (Some u) x p g S = (0, Some u1, S1) \<and> ufsfree demo_racf S1 (Some u1) = Some S2
      \<and> sy_outer S1 = {#demo_acee x#}"
    by (simp add: ufsnew_def ufs_cwd_new_def sys_calloc_def sys_lock_def sys_unlock_def empty_sys_def demo_racf_def still_def
        ufs_signon_def logout_def ufsfree_def ufs_cwd_free_def m_rel_opt_def Let_def)
  then show ?thesis using that by blast
qed

end
