(* ===== verification/Layout.thy ===== *)
theory Layout
  imports Inode
begin

text \<open>
  What a super block and a disk inode look like on the dataset: the C code copies the structures of
  \<^verbatim>\<open>include/ufs/disk.h\<close> and \<^verbatim>\<open>include/ufs/inode.h\<close> as they are in storage, big-endian words at
  the offsets of their fields. The lemmas name the offsets by themselves, apart from the
  encoders the operations use.
\<close>

section \<open>Fields and offsets\<close>

lemma sb_fields:
  assumes "wf_sb b" "blk = enc_sb b @ rest"
  shows "get32 blk 0x00 = sb_datablock_start_sector b" "get32 blk 0x04 = sb_volume_size b"
    "blk ! 0x08 = sb_lock_freeblock b" "blk ! 0x09 = sb_lock_freeinode b" "blk ! 0x0A = sb_modified b" "blk ! 0x0B = sb_readonly b"
    "get32 blk 0x0C = sb_update_time b" "get32 blk 0x10 = sb_total_freeblock b" "get32 blk 0x14 = sb_total_freeinode b"
    "get32 blk 0x18 = sb_create_time b" "get32 blk 0x1C = sb_nfreeblock b" "words_at blk 0x20 51 = sb_freeblock b"
    "get32 blk 0xEC = sb_nfreeinode b" "words_at blk 0xF0 64 = sb_freeinode b" "get32 blk 0x1F0 = sb_inodes_per_block b"
    "get32 blk 0x1F4 = sb_blksize_shift b" "get32 blk 0x1F8 = sb_ilist_sector b" "get32 blk 0x1FC = sb_unused3 b"
  using assms(1) unfolding assms(2)
  by (simp_all add: enc_sb_def wf_sb_def buf_simps nth_append UFS_MAX_FREEBLOCK_def UFS_MAX_FREEINODE_def)

lemma dinode_fields:
  assumes "wf_dinode d" "blk = enc_dinode d @ rest"
  shows "slice 0x00 2 blk = be16 (di_mode d)" "slice 0x02 2 blk = be16 (di_nlink d)" "get32 blk 0x04 = di_filesize d"
    "slice 0x08 8 blk = be64 (di_ctime d)" "slice 0x10 8 blk = be64 (di_mtime d)" "slice 0x18 8 blk = be64 (di_atime d)"
    "slice 0x20 9 blk = di_owner d" "slice 0x29 9 blk = di_group d" "slice 0x32 2 blk = be16 (di_codepage d)"
    "words_at blk 0x34 19 = di_addr d"
  using assms(1) unfolding assms(2) by (simp_all add: enc_dinode_def wf_dinode_def buf_simps)

section \<open>Writing the super block\<close>

lemma blit_front: "length xs \<le> n \<Longrightarrow> blit 0 xs (replicate n 0) = xs @ replicate (n - length xs) 0"
  by (simp add: blit_def)

lemma write_boot_ok:
  assumes "os_laws os ct (v_blksize s)" "\<And>b. dk_boote (v_disk s) = Some b \<Longrightarrow> wf_boote b"
    and "ufs_disk_write_boot os s = Some (rc, s')"
  shows "ct (v_outer s') 1 = ct (v_outer s) 1" "v_sb s' = v_sb s" "v_blksize s' = v_blksize s"
proof -
  have "ct (v_outer s') 1 = ct (v_outer s) 1 \<and> v_sb s' = v_sb s \<and> v_blksize s' = v_blksize s"
  proof (cases "sb_readonly (v_sb s) = 0")
    case False
    then show ?thesis using assms(3) by (simp add: ufs_disk_write_boot_def)
  next
    case True
    obtain ok s1 where c: "calloc os (unat (v_blksize s)) s = (ok, s1)" by force
    note q1 = quietD [OF quiet_calloc [OF assms(1) c]]
    have L1: "os_laws os ct (v_blksize s1)" using assms(1) q1 by simp
    note run = assms(3) [unfolded ufs_disk_write_boot_def c]
    show ?thesis
    proof (cases "ok \<and> \<not> unat (v_blksize s) < 256")
      case False
      then show ?thesis using run q1 True by (auto split: if_splits)
    next
      case live: True
      let ?buf = "blit 0 (enc_boot (dk_boot (v_disk s))) (replicate (unat (v_blksize s)) 0)"
      show ?thesis
      proof (cases "dk_boote (v_disk s)")
        case None
        then have w: "ufs_disk_write os s1 ?buf UFS_BOOTBLOCK_SECTOR = (rc, s')" using run live True by (simp add: q1 Let_def)
        have "length ?buf = unat (v_blksize s1)" using live q1 by (subst length_blit) simp_all
        with disk_write_laws [OF L1 w] obtain d where "s' = s1\<lparr>v_outer := d\<rparr>" "\<forall>b. b \<noteq> UFS_BOOTBLOCK_SECTOR \<longrightarrow> ct d b = ct (v_outer s1) b" by blast
        then show ?thesis by (simp add: q1 UFS_BOOTBLOCK_SECTOR_def)
      next
        case (Some b)
        obtain t s2 where t: "clock64 os s1 = (t, s2)" by force
        note q2 = quietD [OF quiet_clock64 [OF assms(1) t]]
        let ?b = "b\<lparr>be_update_time := t\<rparr>"
        let ?s = "s2\<lparr>v_disk := (v_disk s2)\<lparr>dk_boote := Some ?b\<rparr>\<rparr>"
        have w: "ufs_disk_write os ?s (blit 8 (enc_boote ?b) ?buf) UFS_BOOTBLOCK_SECTOR = (rc, s')"
          using run live Some True t by (simp add: q1 Let_def)
        have "wf_boote ?b" using assms(2) [OF Some] by (simp add: wf_boote_def)
        then have "length (blit 8 (enc_boote ?b) ?buf) = unat (v_blksize ?s)" using live q1 q2 by simp
        moreover have "os_laws os ct (v_blksize ?s)" using L1 q2 by simp
        ultimately obtain d where "s' = ?s\<lparr>v_outer := d\<rparr>" "\<forall>b. b \<noteq> UFS_BOOTBLOCK_SECTOR \<longrightarrow> ct d b = ct (v_outer ?s) b"
          using disk_write_laws [OF _ w] by blast
        then show ?thesis by (simp add: q1 q2 UFS_BOOTBLOCK_SECTOR_def)
      qed
    qed
  qed
  then show "ct (v_outer s') 1 = ct (v_outer s) 1" "v_sb s' = v_sb s" "v_blksize s' = v_blksize s" by simp_all
qed

lemma write_super_ok:
  assumes L: "os_laws os ct (v_blksize s)" and b: "\<And>b. dk_boote (v_disk s) = Some b \<Longrightarrow> wf_boote b" and wf: "wf_sb (v_sb s)"
    and w: "ufs_disk_write_super os s = Some (RcOk, s')"
  shows "ct (v_outer s') 1 = enc_sb (v_sb s') @ replicate (unat (v_blksize s) - 512) 0" "v_blksize s' = v_blksize s"
    "512 \<le> unat (v_blksize s)"
    "v_sb s' = (v_sb s)\<lparr>sb_modified := 0, sb_update_time := sb_update_time (v_sb s')\<rparr>"
    "\<not> boot_is_old (v_disk s) \<Longrightarrow> sb_update_time (v_sb s') = sb_update_time (v_sb s)"
proof -
  let ?P = "ct (v_outer s') 1 = enc_sb (v_sb s') @ replicate (unat (v_blksize s) - 512) 0 \<and> v_blksize s' = v_blksize s
    \<and> 512 \<le> unat (v_blksize s) \<and> v_sb s' = (v_sb s)\<lparr>sb_modified := 0, sb_update_time := sb_update_time (v_sb s')\<rparr>
    \<and> (\<not> boot_is_old (v_disk s) \<longrightarrow> sb_update_time (v_sb s') = sb_update_time (v_sb s))"
  obtain ok s1 where c: "calloc os (unat (v_blksize s)) s = (ok, s1)" by force
  note q1 = quietD [OF quiet_calloc [OF L c]]
  have old1: "boot_is_old (v_disk s1) = boot_is_old (v_disk s)" by (simp add: boot_is_old_def q1)
  have pre: "sb_readonly (v_sb s) = 0" "ok" "512 \<le> unat (v_blksize s)"
    using w c q1 by (auto simp: ufs_disk_write_super_def not_less split: if_splits)
  obtain sbu s2 where u: "(if boot_is_old (v_disk s1) then let (t, s) = clock32 os s1
      in ((v_sb s1)\<lparr>sb_modified := 0, sb_update_time := t\<rparr>, s) else ((v_sb s1)\<lparr>sb_modified := 0\<rparr>, s1)) = (sbu, s2)" by force
  have u2: "quiet ct s1 s2" "sbu = (v_sb s)\<lparr>sb_modified := 0, sb_update_time := sb_update_time sbu\<rparr>"
    "\<not> boot_is_old (v_disk s) \<longrightarrow> sb_update_time sbu = sb_update_time (v_sb s)"
    using u quiet_clock32 [OF L, of s1] q1 old1 by (auto split: if_splits prod.splits)
  note q2 = quietD [OF u2(1)]
  have wfu: "wf_sb sbu" using wf arg_cong [OF u2(2), of wf_sb] by (simp add: wf_sb_def)
  let ?buf = "blit 0 (enc_sb sbu) (replicate (unat (v_blksize s)) 0)"
  have bl: "?buf = enc_sb sbu @ replicate (unat (v_blksize s) - 512) 0" using pre(3) wfu by (simp add: blit_front)
  obtain rc s3 where d: "ufs_disk_write os s2 ?buf UFS_SUPERBLOCK_SECTOR = (rc, s3)" by force
  have "length ?buf = unat (v_blksize s2)" using pre(3) wfu q1 q2 unfolding bl by simp
  moreover have "os_laws os ct (v_blksize s2)" using L q1 q2 by simp
  ultimately obtain x where x: "s3 = s2\<lparr>v_outer := x\<rparr>" "rc = RcOk \<longrightarrow> ct x 1 = ?buf"
    using disk_write_laws [OF _ d] unfolding UFS_SUPERBLOCK_SECTOR_def by blast
  let ?s4 = "upd_sb (\<lambda>_. sbu) s3"
  have r: "rc = RcOk" "(if \<not> boot_is_old (v_disk ?s4) then ufs_disk_write_boot os ?s4 else Some (RcOk, ?s4)) = Some (RcOk, s')"
    using w c pre u d q1 q2 by (auto simp: ufs_disk_write_super_def Let_def split: if_splits prod.splits)
  have "ct (v_outer s') 1 = ct x 1 \<and> v_sb s' = sbu \<and> v_blksize s' = v_blksize s"
  proof (cases "boot_is_old (v_disk ?s4)")
    case True
    then show ?thesis using r(2) x(1) q1 q2 by auto
  next
    case False
    have s4: "v_blksize ?s4 = v_blksize s" "dk_boote (v_disk ?s4) = dk_boote (v_disk s)" "v_sb ?s4 = sbu" "v_outer ?s4 = x"
      using x(1) q1 q2 by simp_all
    have run: "ufs_disk_write_boot os ?s4 = Some (RcOk, s')" using False r(2) by simp
    have "ct (v_outer s') 1 = ct (v_outer ?s4) 1" "v_sb s' = v_sb ?s4" "v_blksize s' = v_blksize ?s4"
      by (rule write_boot_ok [OF _ _ run]; use L b s4 in simp)+
    then show ?thesis using s4 by simp
  qed
  then have ?P using x(2) r(1) u2(2,3) bl pre(3) by simp
  then show "ct (v_outer s') 1 = enc_sb (v_sb s') @ replicate (unat (v_blksize s) - 512) 0" "v_blksize s' = v_blksize s"
    "512 \<le> unat (v_blksize s)"
    "v_sb s' = (v_sb s)\<lparr>sb_modified := 0, sb_update_time := sb_update_time (v_sb s')\<rparr>"
    "\<not> boot_is_old (v_disk s) \<Longrightarrow> sb_update_time (v_sb s') = sb_update_time (v_sb s)" by blast+
qed

lemma read_super_ok:
  assumes "os_laws os ct (v_blksize s)" "512 \<le> unat (v_blksize s)" "ct (v_outer s) 1 = enc_sb b @ rest" "wf_sb b"
  obtains rc b' s' where "ufs_disk_read_super os s = Some (rc, b', s')" "rc = RcOk \<Longrightarrow> b' = b\<lparr>sb_modified := 0\<rparr>"
proof -
  obtain ok s1 where c: "calloc os (unat (v_blksize s)) s = (ok, s1)" by force
  note q1 = quietD [OF quiet_calloc [OF assms(1) c]]
  have L1: "os_laws os ct (v_blksize s1)" using assms(1) q1 by simp
  obtain rc buf s2 where r: "ufs_disk_read os s1 1 = (rc, buf, s2)" by (cases "ufs_disk_read os s1 1")
  have "rc = RcOk \<Longrightarrow> buf = enc_sb b @ rest" "\<not> length buf < 512"
    using disk_read_laws(2,3) [OF L1 r] assms(2,3) q1 by simp_all
  then have e: "ufs_disk_read_super os s = Some (if \<not> ok then (RcErr ENOMEM, dec_sb (replicate 512 0), s1)
      else if rc = RcOk then (RcOk, b\<lparr>sb_modified := 0\<rparr>, s2) else (rc, dec_sb (replicate 512 0), s2))"
    using assms(4) c r by (simp add: ufs_disk_read_super_def Let_def UFS_SUPERBLOCK_SECTOR_def dec_enc_sb)
  consider "\<not> ok" | "ok" "rc = RcOk" | "ok" "rc \<noteq> RcOk" by blast
  then show ?thesis by cases (use e that in auto)
qed

end
