(* ===== verification/Access.thy ===== *)
theory Access
  imports Inode
begin

text \<open>
  What the check of the access bits decides (\<^verbatim>\<open>src/ufsinacc.c\<close>), over the names themselves
  instead of their length-prefixed fields.
\<close>

unbundle bit_operations_syntax

text \<open>The name in a field of the ACEE: a length and that many characters, none of them zero.\<close>

definition field_name :: "byte list \<Rightarrow> byte list" where
  "field_name p = take (unat (hd p)) (tl p)"

definition name_field :: "byte list \<Rightarrow> bool" where
  "name_field p \<longleftrightarrow> unat (hd p) \<le> length (tl p) \<and> 0 \<notin> set (field_name p)"

lemma cstr_map: "(\<And>c. fc c = 0 \<longleftrightarrow> c = 0) \<Longrightarrow> cstr (map fc s) = map fc (cstr s)"
  by (induction s) (simp_all add: cstr_def)

lemma field_cstr:
  assumes "name_field p"
  shows "take (unat (hd p)) (cstr (tl p)) = field_name p"
proof -
  have "tl p = field_name p @ drop (unat (hd p)) (tl p)" by (simp add: field_name_def)
  then have "cstr (tl p) = field_name p @ cstr (drop (unat (hd p)) (tl p))"
    using cstr_append_nonzero [of "field_name p"] assms by (metis name_field_def)
  then show ?thesis using assms by (simp add: field_name_def name_field_def)
qed

lemma pascal_match_names:
  assumes f: "\<And>c. fc c = 0 \<longleftrightarrow> c = 0" and p: "name_field p"
  shows "pascal_match fc name p \<longleftrightarrow> map fc (cstr name) = map fc (field_name p)"
proof (cases "length (cstr name) = unat (hd p)")
  case True
  then have "take (unat (hd p)) (map fc (cstr name)) = map fc (cstr name)" by simp
  then show ?thesis
    using True field_cstr [OF p] by (simp add: pascal_match_def Let_def strncmp_eq_iff cstr_map [OF f] take_map)
next
  case False
  have "length (field_name p) = unat (hd p)" using p by (simp add: field_name_def name_field_def)
  then have "map fc (cstr name) \<noteq> map fc (field_name p)" using False by (metis length_map)
  then show ?thesis using False by (simp add: pascal_match_def Let_def)
qed

lemma allowed_bit: "access_allowed acc (drop_bit n (ucast (mode :: u16)) AND 7) \<longleftrightarrow> (\<exists>b < 3. bit acc b \<and> bit mode (n + b))"
proof -
  let ?w = "drop_bit n (ucast mode) :: u32"
  have "access_allowed acc (?w AND 7) \<longleftrightarrow> (\<exists>b. bit (acc AND (?w AND mask 3)) b)"
    using bit_imp_le_length [of "acc AND (?w AND 7)"]
    by (auto simp: access_allowed_def bit_eq_iff [of "_ AND _"] mask_eq_exp_minus_1)
  moreover have "bit (acc AND (?w AND mask 3)) b \<longleftrightarrow> b < 3 \<and> bit acc b \<and> bit ?w b" for b
    by (auto simp: bit_and_iff bit_mask_iff)
  moreover have "bit ?w b \<longleftrightarrow> bit mode (n + b)" for b
    using bit_imp_le_length [of mode "n + b"] by (auto simp: bit_drop_bit_eq bit_ucast_iff)
  ultimately show ?thesis by blast
qed

text \<open>The right \<open>b\<close> - execute, write, read - of the owner, the group and everybody.\<close>

definition has_right :: "(byte \<Rightarrow> byte) \<Rightarrow> acee option \<Rightarrow> dinode \<Rightarrow> nat \<Rightarrow> bool" where
  "has_right fc acee d b \<longleftrightarrow> bit (di_mode d) b \<or> (\<exists>a. acee = Some a
     \<and> (bit (di_mode d) (6 + b) \<and> map fc (cstr (di_owner d)) = map fc (field_name (aceeuser a))
      \<or> bit (di_mode d) (3 + b) \<and> (\<exists>g \<in> set (aceegrp a # aceecgrp a). map fc (cstr (di_group d)) = map fc (field_name g))))"

definition acee_names :: "acee \<Rightarrow> bool" where
  "acee_names a \<longleftrightarrow> name_field (aceeuser a) \<and> (\<forall>g \<in> set (aceegrp a # aceecgrp a). name_field g)"

lemma auth_rights:
  assumes f: "\<And>c. fc c = 0 \<longleftrightarrow> c = 0" and a: "\<And>a. acee = Some a \<Longrightarrow> acee_names a"
  shows "ufs_inode_auth fc acee m acc \<longleftrightarrow> (\<exists>b < 3. bit acc b \<and> has_right fc acee (mi_dinode m) b)"
proof (cases acee)
  case None
  then show ?thesis using allowed_bit [of acc 0 "di_mode (mi_dinode m)"]
    by (auto simp: ufs_inode_auth_def Let_def has_right_def)
next
  case (Some x)
  note pm = pascal_match_names [OF f]
  have n: "name_field (aceeuser x)" "name_field (aceegrp x)" "g \<in> set (aceecgrp x) \<Longrightarrow> name_field g" for g
    using a [OF Some] by (auto simp: acee_names_def)
  have c: "list_ex (\<lambda>g. pascal_match fc o' g \<and> Q) (aceecgrp x)
      \<longleftrightarrow> Q \<and> (\<exists>g \<in> set (aceecgrp x). map fc (cstr o') = map fc (field_name g))" for o' Q
    using n(3) pm by (auto simp: list_ex_iff)
  show ?thesis using allowed_bit [of acc 0 "di_mode (mi_dinode m)"]
    by (auto simp: ufs_inode_auth_def Let_def has_right_def Some pm [OF n(1)] pm [OF n(2)] c allowed_bit)
qed

lemma ex_less_3: "(\<exists>b < 3 :: nat. P b) \<longleftrightarrow> P 0 \<or> P 1 \<or> P 2"
  by (auto simp: less_Suc_eq numeral_eq_Suc)

lemma auth_one_right:
  assumes f: "\<And>c. fc c = 0 \<longleftrightarrow> c = 0" and a: "\<And>a. acee = Some a \<Longrightarrow> acee_names a"
  shows "ufs_inode_auth_read fc acee m \<longleftrightarrow> has_right fc acee (mi_dinode m) 2"
    "ufs_inode_auth_write fc acee m \<longleftrightarrow> has_right fc acee (mi_dinode m) 1"
    "ufs_inode_auth_exec fc acee m \<longleftrightarrow> has_right fc acee (mi_dinode m) 0"
  by (simp_all add: auth_rights [OF f a] ufs_inode_auth_read_def ufs_inode_auth_write_def ufs_inode_auth_exec_def ex_less_3
      UFSACC_READ_def UFSACC_WRITE_def UFSACC_EXEC_def)

end
