(* ===== verification/Shrink.thy ===== *)
theory Shrink
  imports Blocktree
begin

text \<open>
  Shrinking a file (\<^verbatim>\<open>ufs_datablock_contract\<close>): the blocks of the tree go back to the free
  list leaf first inside a level, index block first when a level goes away; what is left of the
  tree keeps its blocks and their content.
\<close>

section \<open>Freeing blocks that no longer hang from the tree\<close>

text \<open>\<open>held\<close>: the blocks \<open>D\<close> are neither free nor in the tree.\<close>

definition held :: "('d \<Rightarrow> u32 \<Rightarrow> block) \<Rightarrow> 'd vol \<Rightarrow> u32 list \<Rightarrow> pos set \<Rightarrow> u32 list \<Rightarrow> u32 list \<Rightarrow> bool" where
  "held ct s a S L D \<longleftrightarrow> tree_ok ct s a S L \<and> distinct D
     \<and> (\<forall>d \<in> set D. ufs_datablock_number_sanity s d \<and> d \<notin> set L \<and> d \<notin> node (vview ct s) a ` S)"

lemma heldD:
  assumes "held ct s a S L D"
  shows "tree_ok ct s a S L" "distinct D" "d \<in> set D \<Longrightarrow> ufs_datablock_number_sanity s d" "d \<in> set D \<Longrightarrow> d \<notin> set L"
    "d \<in> set D \<Longrightarrow> d \<notin> node (vview ct s) a ` S"
  using assms unfolding held_def by blast+

lemma node_same:
  assumes t: "tree_ok ct s a S L" and v: "\<And>x. x \<in> node (vview ct s) a ` S \<Longrightarrow> v' x = vview ct s x" and p: "p \<in> S"
  shows "node v' a p = node (vview ct s) a p"
proof -
  obtain r ks where p1: "p = (r, ks)" by fastforce
  show ?thesis unfolding p1
  proof (rule node_stable)
    fix r' ks' k' assume "(r', ks' @ [k']) \<in> S"
    then show q: "(r', ks') \<in> S" by (rule tree_okD(2) [OF t])
    then show "get32 (v' (node (vview ct s) a (r', ks'))) (4 * k') = get32 (vview ct s (node (vview ct s) a (r', ks'))) (4 * k')"
      using v by (metis imageI)
  qed (use p p1 in auto)
qed

text \<open>The tree on a volume whose free list has the blocks \<open>set L' - set L\<close> more.\<close>

lemma tree_transfer:
  assumes t: "tree_ok ct s a S L" and fr: "frest s' = frest s" and S: "S' \<subseteq> S" "\<And>r ks k. (r, ks @ [k]) \<in> S' \<Longrightarrow> (r, ks) \<in> S'"
    and n: "\<And>p. p \<in> S' \<Longrightarrow> node (vview ct s') a' p = node (vview ct s) a p"
    and L': "\<And>p. p \<in> S' \<Longrightarrow> node (vview ct s) a p \<notin> set L'" and a': "length a' = 19"
  shows "tree_ok ct s' a' S' L'"
  unfolding tree_ok_def
proof (intro conjI allI ballI impI)
  fix r ks k assume p: "(r, ks @ [k]) \<in> S'"
  show "(r, ks) \<in> S'" using S(2) p .
  show "k < per_block s'" using tree_okD(3) [OF t] p S(1) frest_geom(2) [OF fr] by auto
next
  fix p assume p: "p \<in> S'"
  then have pS: "p \<in> S" using S(1) by auto
  show "fst p < 19" using tree_okD(4) [OF t pS] .
  show "ufs_datablock_number_sanity s' (node (vview ct s') a' p)"
    using tree_okD(5) [OF t pS] n [OF p] sane_frest [OF fr] by simp
  show "node (vview ct s') a' p \<notin> set L'" using n [OF p] L' [OF p] by simp
next
  have "inj_on (node (vview ct s) a) S'" using t S(1) by (auto simp: tree_ok_def intro: inj_on_subset)
  then show "inj_on (node (vview ct s') a') S'" using n by (simp add: inj_on_def)
qed (rule a')

lemma held_free:
  assumes g: "bgood os ct (Suc k) s L" and h: "held ct s a S L (d # D)" and L: "L \<noteq> []"
  obtains s' where "ufs_datablock_deallocate os s d = Some (RcOk, s')" "bgood os ct k s' (d # L)"
    "held ct s' a S (d # L) D" "\<And>x. x \<noteq> d \<Longrightarrow> vview ct s' x = vview ct s x" "frest s' = frest s"
    "\<And>p. p \<in> S \<Longrightarrow> node (vview ct s') a p = node (vview ct s) a p"
proof -
  note hd = heldD [OF h]
  note t = hd(1)
  have d: "d \<notin> set L" "ufs_datablock_number_sanity s d" "d \<notin> node (vview ct s) a ` S" using hd(3-5) [of d] by simp_all
  obtain s' where a: "ufs_datablock_deallocate os s d = Some (RcOk, s')" "bgood os ct k s' (d # L)"
    "\<And>x. x \<noteq> d \<Longrightarrow> vview ct s' x = vview ct s x" "frest s' = frest s"
    by (rule good_deallocate [OF g d(1,2) L]) blast
  have n: "node (vview ct s') a p = node (vview ct s) a p" if "p \<in> S" for p
    by (rule node_same [OF t _ that]) (use a(3) d(3) in metis)
  have "tree_ok ct s' a S (d # L)"
    by (rule tree_transfer [OF t a(4) subset_refl tree_okD(2) [OF t] n _ tree_okD(1) [OF t]])
       (use tree_okD(6) [OF t] d(3) in auto)
  moreover have "node (vview ct s') a ` S = node (vview ct s) a ` S" using n by simp
  ultimately have "held ct s' a S (d # L) D"
    using hd(2-5) sane_frest [OF a(4)] by (auto simp: held_def)
  then show ?thesis using that a n by blast
qed

lemma view_after_unlink:
  assumes "vview ct s' = (vview ct s)(b := x)" "b \<notin> node (vview ct s) a ` S" "tree_ok ct s a S L" "p \<in> S"
  shows "node (vview ct s') a p = node (vview ct s) a p"
  by (rule node_same [OF assms(3) _ assms(4)]) (use assms(1,2) in auto)

lemma held_self:
  assumes g: "bgood os ct (Suc (Suc k)) s L" and h: "held ct s a S L (d # D)" and L: "L \<noteq> []"
  obtains s' where "ufs_datablock_remove_self os s d = Some (get32 (vview ct s d) 0, s')" "bgood os ct k s' (d # L)"
    "held ct s' a S (d # L) D" "\<And>x. x \<noteq> d \<Longrightarrow> vview ct s' x = vview ct s x" "frest s' = frest s"
    "\<And>p. p \<in> S \<Longrightarrow> node (vview ct s') a p = node (vview ct s) a p"
proof -
  note hd = heldD [OF h]
  have d: "d \<notin> set L" "ufs_datablock_number_sanity s d" "d \<notin> node (vview ct s) a ` S" using hd(3-5) [of d] by simp_all
  have pb: "0 < per_block s" using per_block_bound [OF g] by simp
  obtain s1 where u: "ufs_datablock_unlink os s d 0 = Some (get32 (vview ct s d) (4 * 0), s1)"
    "bgood os ct (Suc k) s1 L" "vrest s1 = vrest s" "vview ct s1 = (vview ct s)(d := put32 (4 * 0) 0 (vview ct s d))"
    by (rule good_unlink [OF g d(2,1) pb])
  have n: "node (vview ct s1) a p = node (vview ct s) a p" if "p \<in> S" for p
    by (rule view_after_unlink [OF u(4) d(3) hd(1) that])
  note fr = frest_vrest [OF u(3)]
  have "tree_ok ct s1 a S L"
    by (rule tree_transfer [OF hd(1) fr subset_refl tree_okD(2) [OF hd(1)] n tree_okD(6) [OF hd(1)] tree_okD(1) [OF hd(1)]])
  moreover have "node (vview ct s1) a ` S = node (vview ct s) a ` S" using n by simp
  ultimately have h1: "held ct s1 a S L (d # D)"
    using hd(2-5) sane_frest [OF fr] unfolding held_def by simp
  obtain s2 where f: "ufs_datablock_deallocate os s1 d = Some (RcOk, s2)" "bgood os ct k s2 (d # L)"
    "held ct s2 a S (d # L) D" "\<And>x. x \<noteq> d \<Longrightarrow> vview ct s2 x = vview ct s1 x" "frest s2 = frest s1"
    "\<And>p. p \<in> S \<Longrightarrow> node (vview ct s2) a p = node (vview ct s1) a p"
    by (rule held_free [OF u(2) h1 L]) blast
  have "ufs_datablock_remove_self os s d = Some (get32 (vview ct s d) 0, s2)"
    using d(2) u(1) f(1) by (simp add: ufs_datablock_remove_self_def)
  then show ?thesis
  proof (rule that [OF _ f(2,3)])
    show "vview ct s2 x = vview ct s x" if "x \<noteq> d" for x using f(4) [OF that] u(4) that by simp
    show "frest s2 = frest s" using f(5) fr by simp
    show "node (vview ct s2) a p = node (vview ct s) a p" if "p \<in> S" for p using f(6) [OF that] n [OF that] by simp
  qed
qed

section \<open>Removing a leaf\<close>

lemma put32_other_entry:
  "j \<noteq> (i :: nat) \<Longrightarrow> i < n \<Longrightarrow> length b = 4 * n \<Longrightarrow> get32 (put32 (4 * i) w b) (4 * j) = get32 b (4 * j)"
proof -
  assume "j \<noteq> i" and i: "i < n" "length b = 4 * n"
  then have "4 * j + 4 \<le> 4 * i \<or> 4 * i + 4 \<le> 4 * j" by auto
  then show ?thesis using i get32_put32_other [of "4 * i" b "4 * j" w] by simp
qed

text \<open>\<open>top p S\<close>: no position of \<open>S\<close> is below \<open>p\<close>.\<close>

definition top_pos :: "pos \<Rightarrow> pos set \<Rightarrow> bool" where
  "top_pos p S \<longleftrightarrow> (\<forall>k. (fst p, snd p @ [k]) \<notin> S)"

lemma tree_remove_leaf:
  assumes g: "bgood os ct (Suc (Suc k)) s L" and t: "tree_ok ct s a S L" and p: "(r, ks @ [i]) \<in> S"
    and top: "top_pos (r, ks @ [i]) S" and L: "L \<noteq> []"
  obtains s' where "ufs_datablock_remove_leaf os s (node (vview ct s) a (r, ks)) i = Some (node (vview ct s) a (r, ks @ [i]), s')"
    "bgood os ct k s' (node (vview ct s) a (r, ks @ [i]) # L)"
    "tree_ok ct s' a (S - {(r, ks @ [i])}) (node (vview ct s) a (r, ks @ [i]) # L)"
    "\<And>q. q \<in> S - {(r, ks @ [i])} \<Longrightarrow> node (vview ct s') a q = node (vview ct s) a q"
    "\<And>x. x \<noteq> node (vview ct s) a (r, ks) \<Longrightarrow> x \<noteq> node (vview ct s) a (r, ks @ [i]) \<Longrightarrow> vview ct s' x = vview ct s x"
    "frest s' = frest s"
proof -
  let ?v = "vview ct s" and ?S = "S - {(r, ks @ [i])}"
  let ?up = "node ?v a (r, ks)" and ?d = "node ?v a (r, ks @ [i])"
  have up: "(r, ks) \<in> S" using tree_okD(2) [OF t p] .
  have i: "i < per_block s" using tree_okD(3) [OF t p] .
  have a: "ufs_datablock_number_sanity s ?up" "?up \<notin> set L" using tree_okD(5,6) [OF t up] by simp_all
  have len: "length (?v ?up) = 4 * per_block s" using block_length [OF g a(1)] per_block_size [OF g] by simp
  obtain s1 where u: "ufs_datablock_unlink os s ?up i = Some (get32 (?v ?up) (4 * i), s1)"
    "bgood os ct (Suc k) s1 L" "vrest s1 = vrest s" "vview ct s1 = ?v(?up := put32 (4 * i) 0 (?v ?up))"
    by (rule good_unlink [OF g a i])
  note fr = frest_vrest [OF u(3)]
  have closed: "(r', ks' @ [k']) \<in> ?S \<Longrightarrow> (r', ks') \<in> ?S" for r' ks' k'
    using tree_okD(2) [OF t] top by (auto simp: top_pos_def)
  have n: "node (vview ct s1) a q = node ?v a q" if "q \<in> ?S" for q
  proof -
    obtain r1 ks1 where q1: "q = (r1, ks1)" by fastforce
    show ?thesis unfolding q1
    proof (rule node_stable [where S = ?S])
      fix r' ks' k' assume in_S: "(r', ks' @ [k']) \<in> ?S"
      then show q: "(r', ks') \<in> ?S" by (rule closed)
      show "get32 (vview ct s1 (node ?v a (r', ks'))) (4 * k') = get32 (?v (node ?v a (r', ks'))) (4 * k')"
      proof (cases "node ?v a (r', ks') = ?up")
        case True
        then have "(r', ks') = (r, ks)" using tree_okD(7) [OF t _ up] q by blast
        then have "k' \<noteq> i" using in_S by auto
        then show ?thesis using put32_other_entry [OF _ i len] True u(4) by simp
      qed (simp add: u(4))
    qed (use that q1 in auto)
  qed
  have dn: "?d \<notin> node ?v a ` ?S"
  proof
    assume "?d \<in> node ?v a ` ?S"
    then obtain q where q: "q \<in> ?S" "?d = node ?v a q" by (rule imageE)
    then have "(r, ks @ [i]) = q" using tree_okD(7) [OF t p] by blast
    then show False using q(1) by blast
  qed
  have t1: "tree_ok ct s1 a ?S L"
  proof (rule tree_transfer [OF t fr _ closed n _ tree_okD(1) [OF t]])
    show "?S \<subseteq> S" by blast
    show "node ?v a q \<notin> set L" if "q \<in> ?S" for q using tree_okD(6) [OF t] that by blast
  qed
  moreover have "node (vview ct s1) a ` ?S = node ?v a ` ?S" by (rule image_cong [OF refl n])
  ultimately have h: "held ct s1 a ?S L [?d]"
    using dn tree_okD(5,6) [OF t p] sane_frest [OF fr] by (simp add: held_def)
  obtain s2 where f: "ufs_datablock_deallocate os s1 ?d = Some (RcOk, s2)" "bgood os ct k s2 (?d # L)"
    "held ct s2 a ?S (?d # L) []" "\<And>x. x \<noteq> ?d \<Longrightarrow> vview ct s2 x = vview ct s1 x" "frest s2 = frest s1"
    "\<And>p. p \<in> ?S \<Longrightarrow> node (vview ct s2) a p = node (vview ct s1) a p"
    by (rule held_free [OF u(2) h L]) blast
  have "ufs_datablock_remove_leaf os s ?up i = Some (?d, s2)"
    using a(1) u(1) f(1) by (simp add: ufs_datablock_remove_leaf_def node_snoc)
  then show ?thesis
  proof (rule that [OF _ f(2) heldD(1) [OF f(3)]])
    show "vview ct s2 x = ?v x" if "x \<noteq> ?up" "x \<noteq> ?d" for x using f(4) [OF that(2)] u(4) that(1) by simp
    show "frest s2 = frest s" using f(5) fr by simp
    show "node (vview ct s2) a q = node ?v a q" if "q \<in> ?S" for q using f(6) [OF that] n [OF that] by simp
  qed
qed


section \<open>What shrinking does\<close>

text \<open>
  Since \<open>s0\<close> the tree has lost the positions \<open>S0 - S\<close>; their blocks are free, the other
  positions keep theirs, and no block changed but those freed and the index blocks.
\<close>

definition shrunk :: "'d os \<Rightarrow> ('d \<Rightarrow> u32 \<Rightarrow> block) \<Rightarrow> 'd vol \<Rightarrow> u32 list \<Rightarrow> pos set \<Rightarrow> u32 list \<Rightarrow>
    nat \<Rightarrow> 'd vol \<Rightarrow> u32 list \<Rightarrow> pos set \<Rightarrow> u32 list \<Rightarrow> bool" where
  "shrunk os ct s0 a0 S0 L0 k s a S L \<longleftrightarrow> tree_ok ct s a S L \<and> bgood os ct k s L \<and> L \<noteq> [] \<and> frest s = frest s0
     \<and> S \<subseteq> S0 \<and> (\<forall>p \<in> S. node (vview ct s) a p = node (vview ct s0) a0 p)
     \<and> set L = set L0 \<union> node (vview ct s0) a0 ` (S0 - S)
     \<and> (\<forall>x. x \<notin> set L \<longrightarrow> x \<notin> node (vview ct s0) a0 ` {p \<in> S0. \<not> leaf p} \<longrightarrow> vview ct s x = vview ct s0 x)"

lemma shrunkD:
  assumes "shrunk os ct s0 a0 S0 L0 k s a S L"
  shows "tree_ok ct s a S L" "bgood os ct k s L" "L \<noteq> []" "frest s = frest s0" "S \<subseteq> S0"
    "p \<in> S \<Longrightarrow> node (vview ct s) a p = node (vview ct s0) a0 p"
    "set L = set L0 \<union> node (vview ct s0) a0 ` (S0 - S)"
    "x \<notin> set L \<Longrightarrow> x \<notin> node (vview ct s0) a0 ` {p \<in> S0. \<not> leaf p} \<Longrightarrow> vview ct s x = vview ct s0 x"
proof -
  note a = assms [unfolded shrunk_def]
  note a1 = conjunct2 [OF a] note a2 = conjunct2 [OF a1] note a3 = conjunct2 [OF a2] note a4 = conjunct2 [OF a3]
  note a5 = conjunct2 [OF a4] note a6 = conjunct2 [OF a5]
  show "tree_ok ct s a S L" "bgood os ct k s L" "L \<noteq> []" "frest s = frest s0" "S \<subseteq> S0"
    by (rule conjunct1 [OF a], rule conjunct1 [OF a1], rule conjunct1 [OF a2], rule conjunct1 [OF a3], rule conjunct1 [OF a4])
  show "p \<in> S \<Longrightarrow> node (vview ct s) a p = node (vview ct s0) a0 p" using conjunct1 [OF a5] by blast
  show "set L = set L0 \<union> node (vview ct s0) a0 ` (S0 - S)" by (rule conjunct1 [OF a6])
  show "x \<notin> set L \<Longrightarrow> x \<notin> node (vview ct s0) a0 ` {p \<in> S0. \<not> leaf p} \<Longrightarrow> vview ct s x = vview ct s0 x"
    using conjunct2 [OF a6] by blast
qed

lemma shrunk_refl: "bgood os ct k s L \<Longrightarrow> tree_ok ct s a S L \<Longrightarrow> L \<noteq> [] \<Longrightarrow> shrunk os ct s a S L k s a S L"
  by (simp add: shrunk_def)

lemma shrunk_mono: "shrunk os ct s0 a0 S0 L0 k s a S L \<Longrightarrow> j \<le> k \<Longrightarrow> shrunk os ct s0 a0 S0 L0 j s a S L"
  by (auto simp: shrunk_def intro: bgood_mono)

lemma shrunk_step:
  assumes sh: "shrunk os ct s0 a0 S0 L0 K s a S L" and t: "tree_ok ct s' a' S' L'" and g: "bgood os ct k s' L'"
    and fr: "frest s' = frest s" and S: "S' \<subseteq> S"
    and n: "\<And>p. p \<in> S' \<Longrightarrow> node (vview ct s') a' p = node (vview ct s) a p"
    and L: "set L' = set L \<union> node (vview ct s) a ` (S - S')"
    and v: "\<And>x. x \<notin> set L' \<Longrightarrow> x \<notin> node (vview ct s) a ` {p \<in> S. \<not> leaf p} \<Longrightarrow> vview ct s' x = vview ct s x"
  shows "shrunk os ct s0 a0 S0 L0 k s' a' S' L'"
proof -
  note h = shrunkD [OF sh]
  have "node (vview ct s) a ` (S - S') = node (vview ct s0) a0 ` (S - S')" using h(6) by (intro image_cong) auto
  moreover have "S0 - S' = (S0 - S) \<union> (S - S')" using h(5) S by blast
  ultimately have L2: "set L' = set L0 \<union> node (vview ct s0) a0 ` (S0 - S')"
    unfolding L h(7) by (simp add: image_Un Un_assoc)
  have v2: "vview ct s' x = vview ct s0 x"
    if x: "x \<notin> set L'" "x \<notin> node (vview ct s0) a0 ` {p \<in> S0. \<not> leaf p}" for x
  proof -
    have "x \<notin> node (vview ct s) a ` {p \<in> S. \<not> leaf p}"
    proof
      assume "x \<in> node (vview ct s) a ` {p \<in> S. \<not> leaf p}"
      then obtain p where p: "p \<in> S" "\<not> leaf p" "x = node (vview ct s) a p" by blast
      then have "x = node (vview ct s0) a0 p" "p \<in> S0" using h(5,6) by auto
      then show False using x(2) p(2) by blast
    qed
    moreover have "x \<notin> set L" using x(1) L by blast
    ultimately show ?thesis using v [OF x(1)] h(8) [OF _ x(2)] by simp
  qed
  have n2: "node (vview ct s') a' p = node (vview ct s0) a0 p" if "p \<in> S'" for p
    using n [OF that] h(6) [of p] S that by auto
  have "L' \<noteq> []" using h(3) L by auto
  then show ?thesis
    unfolding shrunk_def using t g fr h(4) S h(5) L2 v2 n2 by simp
qed

lemma shrunk_leaf:
  assumes sh: "shrunk os ct s0 a0 S0 L0 K s a S L" and K: "Suc (Suc k) \<le> K"
    and p: "(r, ks @ [i]) \<in> S" "top_pos (r, ks @ [i]) S" "\<not> leaf (r, ks)"
  obtains s' where "ufs_datablock_remove_leaf os s (node (vview ct s) a (r, ks)) i = Some (node (vview ct s) a (r, ks @ [i]), s')"
    "shrunk os ct s0 a0 S0 L0 k s' a (S - {(r, ks @ [i])}) (node (vview ct s) a (r, ks @ [i]) # L)"
    "\<And>q. q \<in> S - {(r, ks @ [i])} \<Longrightarrow> node (vview ct s') a q = node (vview ct s) a q"
proof -
  note h = shrunkD [OF sh]
  let ?d = "node (vview ct s) a (r, ks @ [i])" and ?S = "S - {(r, ks @ [i])}"
  obtain s' where l: "ufs_datablock_remove_leaf os s (node (vview ct s) a (r, ks)) i = Some (?d, s')"
    "bgood os ct k s' (?d # L)" "tree_ok ct s' a ?S (?d # L)"
    "\<And>q. q \<in> ?S \<Longrightarrow> node (vview ct s') a q = node (vview ct s) a q"
    "\<And>x. x \<noteq> node (vview ct s) a (r, ks) \<Longrightarrow> x \<noteq> ?d \<Longrightarrow> vview ct s' x = vview ct s x" "frest s' = frest s"
    by (rule tree_remove_leaf [OF bgood_mono [OF h(2) K] h(1) p(1,2) h(3)]) blast
  have "(r, ks) \<in> S" using tree_okD(2) [OF h(1) p(1)] .
  then have up: "node (vview ct s) a (r, ks) \<in> node (vview ct s) a ` {p \<in> S. \<not> leaf p}" using p(3) by blast
  have "S - ?S = {(r, ks @ [i])}" using p(1) by blast
  then have sL: "set (?d # L) = set L \<union> node (vview ct s) a ` (S - ?S)" by simp
  have "shrunk os ct s0 a0 S0 L0 k s' a ?S (?d # L)"
  proof (rule shrunk_step [OF sh l(3,2,6) _ l(4) sL])
    show "?S \<subseteq> S" by blast
    show "vview ct s' x = vview ct s x" if "x \<notin> set (?d # L)" "x \<notin> node (vview ct s) a ` {p \<in> S. \<not> leaf p}" for x
      by (rule l(5)) (use that up in auto)
  qed
  then show ?thesis using that l(1,4) by blast
qed

lemma shrunk_link:
  assumes sh: "shrunk os ct s0 a0 S0 L0 k s a S L" and p: "(r, ks @ [i]) \<in> S"
  obtains s' where
    "ufs_datablock_link os s (node (vview ct s) a (r, ks)) i = Some (node (vview ct s) a (r, ks @ [i]), s')"
    "shrunk os ct s0 a0 S0 L0 k s' a S L" "vview ct s' = vview ct s"
proof -
  note h = shrunkD [OF sh]
  obtain s' where l:
    "ufs_datablock_link os s (node (vview ct s) a (r, ks)) i = Some (node (vview ct s) a (r, ks @ [i]), s')"
    "bgood os ct k s' L" "vsame ct s s'" by (rule tree_link [OF h(2,1) p])
  have "shrunk os ct s0 a0 S0 L0 k s' a S L"
    using sh l(2) tree_vsame [OF l(3)] frest_vrest [OF vsameD(2) [OF l(3)]] vsameD(1) [OF l(3)] by (simp add: shrunk_def)
  then show ?thesis using that l(1) vsameD(1) [OF l(3)] by blast
qed

section \<open>Cutting off a root\<close>

text \<open>Positions \<open>Q\<close> are taken out of the tree, with the addresses that lead to them.\<close>

lemma detach:
  assumes t: "tree_ok ct s a S L" and Q: "distinct Q" "set Q \<subseteq> S"
    and closed: "\<And>r ks k. (r, ks @ [k]) \<in> S - set Q \<Longrightarrow> (r, ks) \<in> S - set Q"
    and a': "length a' = 19" "\<And>r. (r, []) \<in> S - set Q \<Longrightarrow> a' ! r = a ! r"
  shows "held ct s a' (S - set Q) L (map (node (vview ct s) a) Q)"
    and "\<And>p. p \<in> S - set Q \<Longrightarrow> node (vview ct s) a' p = node (vview ct s) a p"
proof -
  let ?v = "vview ct s"
  have n: "node ?v a' p = node ?v a p" if p: "p \<in> S - set Q" for p
  proof -
    obtain r ks where q: "p = (r, ks)" by fastforce
    show ?thesis unfolding q by (rule node_stable [OF closed refl a'(2) p [unfolded q]])
  qed
  have L: "node ?v a p \<notin> set L" if "p \<in> S - set Q" for p using tree_okD(6) [OF t] that by blast
  have t': "tree_ok ct s a' (S - set Q) L"
    by (rule tree_transfer [OF t refl Diff_subset closed n L a'(1)])
  have inj: "inj_on (node ?v a) S" using t by (simp add: tree_ok_def)
  have dist: "distinct (map (node ?v a) Q)"
    unfolding distinct_map using Q(1) inj_on_subset [OF inj Q(2)] by (rule conjI)
  have out: "node ?v a q \<notin> node ?v a' ` (S - set Q)" if "q \<in> set Q" for q
  proof
    assume "node ?v a q \<in> node ?v a' ` (S - set Q)"
    then obtain p where p: "p \<in> S - set Q" "node ?v a q = node ?v a' p" by (elim imageE)
    moreover have "node ?v a' p = node ?v a p" "p \<in> S" "q \<in> S" using n [OF p(1)] p(1) Q(2) that by blast+
    ultimately have "q = p" using tree_okD(7) [OF t, of q p] by simp
    then show False using p(1) that by blast
  qed
  have "ufs_datablock_number_sanity s d \<and> d \<notin> set L \<and> d \<notin> node ?v a' ` (S - set Q)"
    if d: "d \<in> set (map (node ?v a) Q)" for d
  proof -
    obtain q where q: "d = node ?v a q" "q \<in> set Q" using d by auto
    then have "q \<in> S" using Q(2) by blast
    then show ?thesis unfolding q(1) using tree_okD(5,6) [OF t] out [OF q(2)] by blast
  qed
  then show "held ct s a' (S - set Q) L (map (node ?v a) Q)"
    unfolding held_def using t' dist by blast
  show "\<And>p. p \<in> S - set Q \<Longrightarrow> node ?v a' p = node ?v a p" by (rule n)
qed

text \<open>\<open>d\<close> and the blocks its first entry leads to: each but the last removes itself, the last is freed.\<close>

fun first_chain :: "(u32 \<Rightarrow> block) \<Rightarrow> u32 \<Rightarrow> u32 list \<Rightarrow> bool" where
  "first_chain v d [] = True"
| "first_chain v d (e # D) = (e = get32 (v d) 0 \<and> first_chain v e D)"

lemma first_chain_cong: "(\<And>x. x \<in> set (d # D) \<Longrightarrow> v x = w x) \<Longrightarrow> first_chain v d D = first_chain w d D"
  by (induction D arbitrary: d) auto

fun cut_chain :: "'d os \<Rightarrow> nat \<Rightarrow> 'd vol \<Rightarrow> u32 \<Rightarrow> (rc \<times> 'd vol) option" where
  "cut_chain os 0 s d = ufs_datablock_deallocate os s d"
| "cut_chain os (Suc j) s d = do { (d, s) \<leftarrow> ufs_datablock_remove_self os s d; cut_chain os j s d }"

lemma cut_chain_ok:
  assumes "bgood os ct (k + 2 * length D + 1) s L" "held ct s a S L (d # D)" "L \<noteq> []" "first_chain (vview ct s) d D"
  obtains s' L' where "cut_chain os (length D) s d = Some (RcOk, s')" "bgood os ct k s' L'"
    "set L' = set L \<union> set (d # D)" "tree_ok ct s' a S L'"
    "\<And>x. x \<notin> set (d # D) \<Longrightarrow> vview ct s' x = vview ct s x" "frest s' = frest s"
    "\<And>p. p \<in> S \<Longrightarrow> node (vview ct s') a p = node (vview ct s) a p"
  using assms
proof (induction D arbitrary: s L d thesis)
  case Nil
  have g: "bgood os ct (Suc k) s L" using Nil.prems(2) by simp
  obtain s' where f: "ufs_datablock_deallocate os s d = Some (RcOk, s')" "bgood os ct k s' (d # L)"
    "held ct s' a S (d # L) []" "\<And>x. x \<noteq> d \<Longrightarrow> vview ct s' x = vview ct s x" "frest s' = frest s"
    "\<And>p. p \<in> S \<Longrightarrow> node (vview ct s') a p = node (vview ct s) a p"
    by (rule held_free [OF g Nil.prems(3,4)]) blast
  show ?case by (rule Nil.prems(1) [OF _ f(2) _ heldD(1) [OF f(3)] _ f(5,6)]) (use f(1,4) in auto)
next
  case (Cons e D)
  have g: "bgood os ct (Suc (Suc (k + 2 * length D + 1))) s L" using Cons.prems(2) by simp
  obtain s1 where r: "ufs_datablock_remove_self os s d = Some (get32 (vview ct s d) 0, s1)"
    "bgood os ct (k + 2 * length D + 1) s1 (d # L)" "held ct s1 a S (d # L) (e # D)"
    "\<And>x. x \<noteq> d \<Longrightarrow> vview ct s1 x = vview ct s x" "frest s1 = frest s"
    "\<And>p. p \<in> S \<Longrightarrow> node (vview ct s1) a p = node (vview ct s) a p"
    by (rule held_self [OF g Cons.prems(3,4)]) blast
  have e: "e = get32 (vview ct s d) 0" and c: "first_chain (vview ct s) e D"
    using Cons.prems(5) [unfolded first_chain.simps] by (rule conjunct1, rule conjunct2)
  have "d \<notin> set (e # D)" using heldD(2) [OF Cons.prems(3)] by simp
  then have c1: "first_chain (vview ct s1) e D" using c r(4) first_chain_cong [of e D "vview ct s1" "vview ct s"] by metis
  obtain s' L' where f: "cut_chain os (length D) s1 e = Some (RcOk, s')" "bgood os ct k s' L'"
    "set L' = set (d # L) \<union> set (e # D)" "tree_ok ct s' a S L'"
    "\<And>x. x \<notin> set (e # D) \<Longrightarrow> vview ct s' x = vview ct s1 x" "frest s' = frest s1"
    "\<And>p. p \<in> S \<Longrightarrow> node (vview ct s') a p = node (vview ct s1) a p"
    by (rule Cons.IH [OF _ r(2,3) list.distinct(2) c1]) (rule that)
  show ?case
    by (rule Cons.prems(1) [OF _ f(2) _ f(4)]) (use r(1,4,5,6) f(1,3,5,6,7) e in auto)
qed

text \<open>What the level changes and the direct addresses free: a chain of positions from a root.\<close>

lemma shrunk_chain:
  assumes sh: "shrunk os ct s0 a0 S0 L0 K s a S L" and K: "k + 2 * length Q + 1 \<le> K"
    and Q: "distinct (q # Q)" "set (q # Q) \<subseteq> S"
    and closed: "\<And>r ks k. (r, ks @ [k]) \<in> S - set (q # Q) \<Longrightarrow> (r, ks) \<in> S - set (q # Q)"
    and a': "length a' = 19" "\<And>r. (r, []) \<in> S - set (q # Q) \<Longrightarrow> a' ! r = a ! r"
    and c: "first_chain (vview ct s) (node (vview ct s) a q) (map (node (vview ct s) a) Q)"
  obtains s' L' where "cut_chain os (length Q) s (node (vview ct s) a q) = Some (RcOk, s')"
    "shrunk os ct s0 a0 S0 L0 k s' a' (S - set (q # Q)) L'"
proof -
  note h = shrunkD [OF sh]
  let ?D = "map (node (vview ct s) a) Q" and ?S = "S - set (q # Q)"
  have d1: "held ct s a' ?S L (node (vview ct s) a q # ?D)"
    using detach(1) [OF h(1) Q closed a'] by simp
  have d2: "node (vview ct s) a' p = node (vview ct s) a p" if "p \<in> ?S" for p
    by (rule detach(2) [OF h(1) Q closed a' that])
  have g: "bgood os ct (k + 2 * length ?D + 1) s L" using bgood_mono [OF h(2), of "k + 2 * length ?D + 1"] K by simp
  obtain s' L' where f: "cut_chain os (length ?D) s (node (vview ct s) a q) = Some (RcOk, s')" "bgood os ct k s' L'"
    "set L' = set L \<union> set (node (vview ct s) a q # ?D)" "tree_ok ct s' a' ?S L'"
    "\<And>x. x \<notin> set (node (vview ct s) a q # ?D) \<Longrightarrow> vview ct s' x = vview ct s x" "frest s' = frest s"
    "\<And>p. p \<in> ?S \<Longrightarrow> node (vview ct s') a' p = node (vview ct s) a' p"
    by (rule cut_chain_ok [OF g d1 h(3) c]) (rule that)
  have S: "S - ?S = set (q # Q)" using Q(2) by blast
  have "shrunk os ct s0 a0 S0 L0 k s' a' ?S L'"
  proof (rule shrunk_step [OF sh f(4,2,6)])
    show "set L' = set L \<union> node (vview ct s) a ` (S - ?S)" unfolding S f(3) by simp
    show "node (vview ct s') a' p = node (vview ct s) a p" if "p \<in> ?S" for p using f(7) d2 that by simp
    show "vview ct s' x = vview ct s x" if "x \<notin> set L'" for x using f(3,5) that by simp
  qed blast
  then show ?thesis using that f(1) by simp
qed

section \<open>One step of shrinking\<close>

definition contract_step :: "'d os \<Rightarrow> 'd vol \<Rightarrow> minode \<Rightarrow> adrm \<Rightarrow> adrm \<Rightarrow> rc \<Rightarrow> (rc \<times> minode \<times> 'd vol) option" where
  "contract_step os s m oldmap newmap error =
     (if am_level oldmap \<noteq> am_level newmap then contract_level os s m newmap error
      else do { (error, s) \<leftarrow> contract_same os s m oldmap newmap error; Some (error, m, s) })"

definition cut_to :: "'d os \<Rightarrow> ('d \<Rightarrow> u32 \<Rightarrow> block) \<Rightarrow> 'd vol \<Rightarrow> u32 list \<Rightarrow> pos set \<Rightarrow> u32 list \<Rightarrow>
    nat \<Rightarrow> minode \<Rightarrow> pos set \<Rightarrow> (rc \<times> minode \<times> 'd vol) option \<Rightarrow> bool" where
  "cut_to os ct s0 a0 S0 L0 k m S' res \<longleftrightarrow>
     (\<exists>a' s' L'. res = Some (RcOk, with_addr m a', s') \<and> shrunk os ct s0 a0 S0 L0 k s' a' S' L')"

lemma cut_toI: "res = Some (RcOk, with_addr m a', s') \<Longrightarrow> shrunk os ct s0 a0 S0 L0 k s' a' S' L' \<Longrightarrow>
    cut_to os ct s0 a0 S0 L0 k m S' res"
  unfolding cut_to_def by blast

lemma file_pos_pred: "file_pos n N = file_pos n (Suc N) - new_pos n N"
  by (auto simp: file_pos_def new_pos_def)

lemma file_pos_closed:
  assumes "tree_ok ct s a (file_pos n (Suc N)) L" "(r, ks @ [k]) \<in> file_pos n N"
  shows "(r, ks) \<in> file_pos n N"
proof -
  have "(r, ks @ [k]) \<in> file_pos n (Suc N)" using assms(2) by (simp add: file_pos_step)
  then have up: "(r, ks) \<in> file_pos n (Suc N)" by (rule tree_okD(2) [OF assms(1)])
  have w: "pwf n (r, ks @ [k])" "pfirst n (r, ks @ [k]) < N" using assms(2) by (simp_all add: file_pos_def)
  have "pfirst n (r, ks) \<le> pfirst n (r, ks @ [k])"
    using w(1) by (cases rule: pwf_cases) (auto simp: append_eq_Cons_conv Cons_eq_append_conv)
  then show ?thesis using up w(2) by (simp add: file_pos_def)
qed

text \<open>A direct address; the address stays in the inode.\<close>

lemma cut_direct:
  assumes sh: "shrunk os ct s0 a0 S0 L0 (k + 7) s (m_addr m) (file_pos n (Suc N)) L"
    and n: "n = per_block s" and N: "N < 16" and new: "am_level newmap = 0"
  shows "cut_to os ct s0 a0 S0 L0 k m (file_pos n N) (contract_step os s m (adrm_of (fpath n N)) newmap RcOk)"
proof -
  note h = shrunkD [OF sh]
  let ?F = "file_pos n (Suc N)" and ?a = "m_addr m"
  have nb: "0 < n" using per_block_bound [OF h(2)] n by simp
  have S: "?F - set [(N, [])] = file_pos n N" using file_pos_pred [of n N] new_pos_0 [OF nb N] by simp
  have "(N, []) \<in> ?F" using N by (simp add: file_pos_def pwf_def)
  then have Q: "distinct [(N, [] :: nat list)]" "set [(N, [])] \<subseteq> ?F" by simp_all
  obtain s' L' where f: "cut_chain os (length ([] :: pos list)) s (node (vview ct s) ?a (N, [])) = Some (RcOk, s')"
    "shrunk os ct s0 a0 S0 L0 k s' ?a (?F - set [(N, [])]) L'"
    by (rule shrunk_chain [OF sh _ Q, of k ?a])
       (use tree_okD(1) [OF h(1)] file_pos_closed [OF h(1)] in \<open>auto simp only: S length_Cons list.size first_chain.simps list.map\<close>)
  have len: "N < length ?a" using tree_okD(1) [OF h(1)] N by simp
  have "fpath n N = (N, [])" using N by (simp add: fpath_def)
  then have "contract_step os s m (adrm_of (fpath n N)) newmap RcOk = Some (RcOk, with_addr m ?a, s')"
    using f(1) new len N by (simp add: contract_step_def contract_same_def idx_adrm small_index get_addr_eq)
  then show ?thesis by (rule cut_toI) (use f(2) S in simp)
qed

text \<open>The only block of a level: its index blocks go with it.\<close>

definition level_chain :: "nat \<Rightarrow> pos list" where
  "level_chain l = map (\<lambda>j. (16 + l, replicate j 0)) [0 ..< l + 2]"

lemma level_chains:
  "level_chain 0 = [(16, []), (16, [0])]" "level_chain (Suc 0) = [(17, []), (17, [0]), (17, [0, 0])]"
  "level_chain 2 = [(18, []), (18, [0]), (18, [0, 0]), (18, [0, 0, 0])]"
  by (simp_all add: level_chain_def upt_rec numeral_2_eq_2 numeral_3_eq_3)

definition level_start :: "nat \<Rightarrow> nat \<Rightarrow> nat" where
  "level_start n l = (if l = 0 then 16 else if l = 1 then 16 + n else 16 + n + n * n)"

lemma contract_level_chain:
  assumes "l < 3" "length (m_addr m) = 19" "am_level newmap = l"
    and "cut_chain os (l + 1) s (m_addr m ! (16 + l)) = Some (RcOk, s')"
  shows "contract_level os s m newmap error = Some (RcOk, with_addr m ((m_addr m)[16 + l := 0]), s')"
proof -
  consider "l = 0" | "l = 1" | "l = 2" using assms(1) by linarith
  then show ?thesis
    by cases (use assms(2-4) in \<open>auto simp: contract_level_def get_addr_eq set_addr_eq numeral_2_eq_2 split: bind_splits\<close>)
qed

lemma new_pos_level:
  assumes "0 < n" "l < 3"
  shows "new_pos n (level_start n l) = set (level_chain l)"
proof -
  consider "l = 0" | "l = Suc 0" | "l = 2" using assms(2) by linarith
  then show ?thesis
  proof cases
    case 1
    then show ?thesis using new_pos_1 [of 0 n] assms(1) by (simp add: level_chains level_start_def)
  next
    case 2
    then show ?thesis using new_pos_2 [of 0 n] assms(1) by (simp add: level_chains level_start_def)
  next
    case 3
    then show ?thesis using new_pos_3 [of 0 n] assms(1) by (simp add: level_chains level_start_def)
  qed
qed

lemma level_chain_nodes:
  assumes "l < 3"
  obtains Q where "level_chain l = (16 + l, []) # Q" "length Q = l + 1" "distinct (level_chain l)"
    "first_chain v (node v a (16 + l, [])) (map (node v a) Q)"
proof -
  consider "l = 0" | "l = Suc 0" | "l = 2" using assms by linarith
  then show ?thesis by cases (use that in \<open>simp_all add: level_chains node_def\<close>)
qed

lemma cut_level:
  assumes sh: "shrunk os ct s0 a0 S0 L0 (k + 7) s (m_addr m) (file_pos n (Suc N)) L"
    and n: "n = per_block s" and l: "l < 3" and N: "N = level_start n l"
  shows "cut_to os ct s0 a0 S0 L0 k m (file_pos n N)
    (contract_step os s m (adrm_of (fpath n N)) (adrm_of (fpath n (N - 1))) RcOk)"
proof -
  note h = shrunkD [OF sh]
  let ?F = "file_pos n (Suc N)" and ?a = "m_addr m"
  have nb: "128 \<le> n" using per_block_bound [OF h(2)] n by simp
  then have n0: "0 < n" by simp
  have len: "length ?a = 19" using tree_okD(1) [OF h(1)] .
  obtain Q where Q: "level_chain l = (16 + l, []) # Q" "length Q = l + 1" "distinct (level_chain l)"
    "first_chain (vview ct s) (node (vview ct s) ?a (16 + l, [])) (map (node (vview ct s) ?a) Q)"
    by (rule level_chain_nodes [OF l])
  have np: "new_pos n N = set ((16 + l, []) # Q)" using new_pos_level [OF n0 l] N Q(1) by simp
  then have S: "?F - set ((16 + l, []) # Q) = file_pos n N" using file_pos_pred [of n N] by simp
  have sub: "set ((16 + l, []) # Q) \<subseteq> ?F" using np by (auto simp: file_pos_step)
  have closed: "(r, ks) \<in> ?F - set ((16 + l, []) # Q)" if "(r, ks @ [i]) \<in> ?F - set ((16 + l, []) # Q)" for r ks i
    using that unfolding S by (rule file_pos_closed [OF h(1)])
  have roots: "?a[16 + l := 0] ! r = ?a ! r" if "(r, []) \<in> ?F - set ((16 + l, []) # Q)" for r
    using that by auto
  have K: "k + 2 * length Q + 1 \<le> k + 7" using Q(2) l by simp
  obtain s' L' where f: "cut_chain os (length Q) s (node (vview ct s) ?a (16 + l, [])) = Some (RcOk, s')"
    "shrunk os ct s0 a0 S0 L0 k s' (?a[16 + l := 0]) (?F - set ((16 + l, []) # Q)) L'"
    by (rule shrunk_chain [OF sh K Q(3) [unfolded Q(1)] sub closed _ roots Q(4)]) (use len in auto)
  have lv: "length (snd (fpath n N)) = l + 1" "length (snd (fpath n (N - 1))) = l"
    using l nb unfolding N fpath_level by (auto simp: level_start_def)
  have "contract_step os s m (adrm_of (fpath n N)) (adrm_of (fpath n (N - 1))) RcOk
      = contract_level os s m (adrm_of (fpath n (N - 1))) RcOk"
    using lv by (simp add: contract_step_def)
  also have "\<dots> = Some (RcOk, with_addr m (?a[16 + l := 0]), s')"
    by (rule contract_level_chain [OF l len]) (use lv(2) f(1) Q(2) in auto)
  finally show ?thesis by (rule cut_toI) (use f(2) S in simp)
qed

text \<open>One more entry of the single index block.\<close>

lemma cut_1:
  assumes sh: "shrunk os ct s0 a0 S0 L0 (k + 7) s (m_addr m) (file_pos n (Suc N)) L"
    and n: "n = per_block s" and N: "N = 16 + i" "0 < i" "i < n"
  shows "cut_to os ct s0 a0 S0 L0 k m (file_pos n N)
    (contract_step os s m (adrm_of (fpath n N)) (adrm_of (fpath n (N - 1))) RcOk)"
proof -
  note h = shrunkD [OF sh]
  let ?F = "file_pos n (Suc N)" and ?a = "m_addr m"
  have nb: "128 \<le> n" "n < 2 ^ 14" using per_block_bound [OF h(2)] n by simp_all
  have len: "length ?a = 19" using tree_okD(1) [OF h(1)] .
  have np: "new_pos n N = {(16, [i])}" using new_pos_1 [OF N(3)] N by simp
  have S: "?F - {(16, [] @ [i])} = file_pos n N" using file_pos_pred [of n N] np by simp
  have p: "(16, [] @ [i]) \<in> ?F" using np by (simp add: file_pos_step)
  have top: "top_pos (16, [] @ [i]) ?F" by (auto simp: top_pos_def file_pos_def pwf_def)
  obtain s' where f: "ufs_datablock_remove_leaf os s (node (vview ct s) ?a (16, [])) i = Some (node (vview ct s) ?a (16, [] @ [i]), s')"
    "shrunk os ct s0 a0 S0 L0 k s' ?a (?F - {(16, [] @ [i])}) (node (vview ct s) ?a (16, [] @ [i]) # L)"
    by (rule shrunk_leaf [OF sh _ p top, of k]) (auto simp: leaf_def)
  have path: "fpath n N = (16, [i])" "fpath n (N - 1) = (16, [i - 1])" using N by (auto simp: fpath_def)
  have "contract_step os s m (adrm_of (fpath n N)) (adrm_of (fpath n (N - 1))) RcOk = Some (RcOk, with_addr m ?a, s')"
    unfolding path using f(1) len N(3) nb
    by (simp add: contract_step_def contract_same_def idx_adrm small_index get_addr_eq)
  then show ?thesis by (rule cut_toI) (use f(2) S in simp)
qed

text \<open>A leaf below two index blocks, and the second of them when it has no other.\<close>

lemma file_pos_parts: "p \<in> new_pos n N \<Longrightarrow> p \<in> file_pos n (Suc N)"
  by (simp add: file_pos_step)

lemma cut_2:
  assumes sh: "shrunk os ct s0 a0 S0 L0 (k + 7) s (m_addr m) (file_pos n (Suc N)) L"
    and n: "n = per_block s" and N: "N = 16 + n + j" "0 < j" "j < n * n"
  shows "cut_to os ct s0 a0 S0 L0 k m (file_pos n N)
    (contract_step os s m (adrm_of (fpath n N)) (adrm_of (fpath n (N - 1))) RcOk)"
proof -
  note h = shrunkD [OF sh]
  let ?F = "file_pos n (Suc N)" and ?a = "m_addr m"
  have nb: "128 \<le> n" "n < 2 ^ 14" "0 < n" using per_block_bound [OF h(2)] n by simp_all
  have len: "length ?a = 19" using tree_okD(1) [OF h(1)] .
  define a b oa ob where ab: "a = j div n" "b = j mod n" "oa = (j - 1) div n" "ob = (j - 1) mod n"
  have "j - 1 < n * n" using N(3) by simp
  then have lt: "a < n" "b < n" "oa < n" "ob < n"
    using N(3) nb(3) by (simp_all add: ab less_mult_imp_div_less)
  have step: "a \<noteq> oa \<longleftrightarrow> b = 0" using div_step [OF nb(3) N(2)] unfolding ab by auto
  have path: "fpath n N = (17, [a, b])" "fpath n (N - 1) = (17, [oa, ob])"
    using fpath_2 [OF N(3)] fpath_2 [OF \<open>j - 1 < n * n\<close>] N(1,2) by (simp_all add: ab)
  have np: "new_pos n N = (if b = 0 then {(17, [a]), (17, [a, 0])} else {(17, [a, b])})"
    using new_pos_2 [OF N(3)] N(1,2) by (auto simp: ab)
  have leaf: "(17, [a] @ [b]) \<in> ?F" by (rule file_pos_parts) (simp add: np)
  have top: "top_pos (17, [a] @ [b]) ?F" by (auto simp: top_pos_def file_pos_def pwf_def)
  obtain s1 where s1: "ufs_datablock_link os s (node (vview ct s) ?a (17, [])) a = Some (node (vview ct s) ?a (17, [] @ [a]), s1)"
    "shrunk os ct s0 a0 S0 L0 (k + 7) s1 ?a ?F L" "vview ct s1 = vview ct s"
    by (rule shrunk_link [OF sh, of 17 "[]" a]) (use tree_okD(2) [OF h(1) leaf] in auto)
  let ?d = "node (vview ct s1) ?a (17, [a] @ [b])"
  obtain s2 where s2: "ufs_datablock_remove_leaf os s1 (node (vview ct s1) ?a (17, [a])) b = Some (?d, s2)"
    "shrunk os ct s0 a0 S0 L0 (k + 5) s2 ?a (?F - {(17, [a] @ [b])}) (?d # L)"
    "\<And>q. q \<in> ?F - {(17, [a] @ [b])} \<Longrightarrow> node (vview ct s2) ?a q = node (vview ct s1) ?a q"
    by (rule shrunk_leaf [OF s1(2) _ leaf top, of "k + 5"]) (auto simp: leaf_def)
  have root: "(17, []) \<in> ?F - {(17, [a] @ [b])}" using N by (auto simp: file_pos_def pwf_def)
  note ix = small_index [OF less_trans [OF lt(1) nb(2)]] small_index [OF less_trans [OF lt(2) nb(2)]]
    small_index [OF less_trans [OF lt(3) nb(2)]]
  have eq: "contract_step os s m (adrm_of (fpath n N)) (adrm_of (fpath n (N - 1))) RcOk =
    (do { (_, s) \<leftarrow> (if a \<noteq> oa then ufs_datablock_remove_leaf os s2 (?a ! 17) a else Some (0, s2));
          Some (RcOk, m, s) })"
    unfolding path using s1(1,3) s2(1) len
    by (simp add: contract_step_def contract_same_def idx_adrm ix get_addr_eq split_def)
  show ?thesis
  proof (cases "b = 0")
    case False
    then have S: "?F - {(17, [a] @ [b])} = file_pos n N" using file_pos_pred [of n N] np by simp
    have "contract_step os s m (adrm_of (fpath n N)) (adrm_of (fpath n (N - 1))) RcOk = Some (RcOk, with_addr m ?a, s2)"
      unfolding eq using step False by simp
    then show ?thesis by (rule cut_toI) (use shrunk_mono [OF s2(2), of k] S in simp)
  next
    case True
    let ?G = "?F - {(17, [a] @ [b])}"
    have idx: "(17, [] @ [a]) \<in> ?G" using np True by (simp add: file_pos_step)
    have "(17, [a, i]) \<notin> ?G" for i
    proof (cases "i = 0")
      case False
      have "j = a * n" using True ab by auto
      then have "(17, [a, i]) \<notin> ?F" using N(1) False by (simp add: file_pos_def)
      then show ?thesis by blast
    qed (simp add: True)
    then have top2: "top_pos (17, [] @ [a]) ?G" by (simp add: top_pos_def)
    obtain s3 where s3: "ufs_datablock_remove_leaf os s2 (node (vview ct s2) ?a (17, [])) a = Some (node (vview ct s2) ?a (17, [] @ [a]), s3)"
      "shrunk os ct s0 a0 S0 L0 k s3 ?a (?G - {(17, [] @ [a])}) (node (vview ct s2) ?a (17, [] @ [a]) # ?d # L)"
      by (rule shrunk_leaf [OF s2(2) _ idx top2, of k]) (auto simp: leaf_def)
    have S: "?G - {(17, [] @ [a])} = file_pos n N" using file_pos_pred [of n N] np True by auto
    have "contract_step os s m (adrm_of (fpath n N)) (adrm_of (fpath n (N - 1))) RcOk = Some (RcOk, with_addr m ?a, s3)"
      unfolding eq using step True s3(1) by simp
    then show ?thesis by (rule cut_toI) (use s3(2) S in simp)
  qed
qed

text \<open>A leaf below three index blocks, and the index blocks that have no other.\<close>

lemma l3_bound: "l3 n N j a b c \<Longrightarrow> 0 < n \<Longrightarrow> j = a * (n * n) + b * n + c"
  using digits3 [of b n c a j] by (simp add: l3_def)

lemma cut_3_leaf:
  assumes sh: "shrunk os ct s0 a0 S0 L0 (k + 7) s (m_addr m) (file_pos n (Suc N)) L"
    and n: "n = per_block s" and l: "l3 n N j a b c"
  obtains s2 L2 where "shrunk os ct s0 a0 S0 L0 (k + 5) s2 (m_addr m) (file_pos n (Suc N) - {(18, [a, b, c])}) L2"
    "contract_step os s m (adrm_of (fpath n N)) (adrm_of (fpath n (N - 1))) RcOk =
      (do { s \<leftarrow> (if c = 0 then do { (x, s) \<leftarrow> ufs_datablock_link os s2 (m_addr m ! 18) a;
                                       (_, s) \<leftarrow> ufs_datablock_remove_leaf os s x b; Some s }
                 else Some s2);
            (_, s) \<leftarrow> (if b = 0 \<and> c = 0 then ufs_datablock_remove_leaf os s (m_addr m ! 18) a else Some (0, s));
            Some (RcOk, m, s) })"
proof -
  note h = shrunkD [OF sh]
  let ?F = "file_pos n (Suc N)" and ?a = "m_addr m"
  have nb: "128 \<le> n" "n < 2 ^ 14" "2 \<le> n" using per_block_bound [OF h(2)] n by simp_all
  have len: "length ?a = 19" using tree_okD(1) [OF h(1)] .
  obtain oa ob oc where path: "fpath n N = (18, [a, b, c])" "fpath n (N - 1) = (18, [oa, ob, oc])"
    and lt: "oa < n" "ob < n" "oc < n" "a < n" "b < n" "c < n" and step: "oa \<noteq> a \<longleftrightarrow> b = 0 \<and> c = 0" "ob \<noteq> b \<longleftrightarrow> c = 0"
    and j: "j = a * (n * n) + b * n + c" by (rule l3_paths [OF l nb(3)])
  have leaf: "(18, [a, b] @ [c]) \<in> ?F" by (rule file_pos_parts) (simp add: new_pos_l3 [OF l])
  have up: "(18, [a] @ [b]) \<in> ?F" "(18, [] @ [a]) \<in> ?F"
    using tree_okD(2) [OF h(1), of 18 "[a, b]" c] tree_okD(2) [OF h(1), of 18 "[a]" b] leaf by simp_all
  have top: "top_pos (18, [a, b] @ [c]) ?F" by (auto simp: top_pos_def file_pos_def pwf_def)
  obtain s0' where s0': "ufs_datablock_link os s (node (vview ct s) ?a (18, [])) a = Some (node (vview ct s) ?a (18, [] @ [a]), s0')"
    "shrunk os ct s0 a0 S0 L0 (k + 7) s0' ?a ?F L" "vview ct s0' = vview ct s"
    by (rule shrunk_link [OF sh up(2)])
  obtain s1 where s1: "ufs_datablock_link os s0' (node (vview ct s0') ?a (18, [a])) b = Some (node (vview ct s0') ?a (18, [a] @ [b]), s1)"
    "shrunk os ct s0 a0 S0 L0 (k + 7) s1 ?a ?F L" "vview ct s1 = vview ct s0'"
    by (rule shrunk_link [OF s0'(2) up(1)])
  let ?d = "node (vview ct s1) ?a (18, [a, b] @ [c])"
  obtain s2 where s2: "ufs_datablock_remove_leaf os s1 (node (vview ct s1) ?a (18, [a, b])) c = Some (?d, s2)"
    "shrunk os ct s0 a0 S0 L0 (k + 5) s2 ?a (?F - {(18, [a, b] @ [c])}) (?d # L)"
    by (rule shrunk_leaf [OF s1(2) _ leaf top, of "k + 5"]) (auto simp: leaf_def)
  note ix = lt [THEN less_trans, OF nb(2), THEN small_index]
  show ?thesis
  proof (rule that [of s2])
    show "shrunk os ct s0 a0 S0 L0 (k + 5) s2 ?a (?F - {(18, [a, b, c])}) (?d # L)" using s2(2) by simp
    have ne: "b \<noteq> ob \<longleftrightarrow> c = 0" "a \<noteq> oa \<longleftrightarrow> b = 0 \<and> c = 0" using step by auto
    show "contract_step os s m (adrm_of (fpath n N)) (adrm_of (fpath n (N - 1))) RcOk =
      (do { s \<leftarrow> (if c = 0 then do { (x, s) \<leftarrow> ufs_datablock_link os s2 (?a ! 18) a;
                                       (_, s) \<leftarrow> ufs_datablock_remove_leaf os s x b; Some s } else Some s2);
            (_, s) \<leftarrow> (if b = 0 \<and> c = 0 then ufs_datablock_remove_leaf os s (?a ! 18) a else Some (0, s));
            Some (RcOk, m, s) })"
      unfolding path using s0'(1,3) s1(1,3) s2(1) len
      by (simp add: contract_step_def contract_same_def idx_adrm ix get_addr_eq split_def ne)
  qed
qed

text \<open>The index block at \<open>(18, [a, b])\<close> once its only leaf is gone.\<close>

lemma cut_3_index:
  assumes sh: "shrunk os ct s0 a0 S0 L0 (k + 5) s a (file_pos n (Suc N) - {(18, [x, y, 0])}) L"
    and l: "l3 n N j x y 0" and n: "0 < n" and np: "(18, [x, y]) \<in> new_pos n N" and up: "(18, [x]) \<in> file_pos n (Suc N)"
  obtains s2 L2 where
    "do { (b, s) \<leftarrow> ufs_datablock_link os s (a ! 18) x; (_, s) \<leftarrow> ufs_datablock_remove_leaf os s b y; Some s } = Some s2"
    "shrunk os ct s0 a0 S0 L0 (k + 3) s2 a (file_pos n (Suc N) - {(18, [x, y, 0])} - {(18, [x, y])}) L2"
proof -
  let ?G = "file_pos n (Suc N) - {(18, [x, y, 0])}"
  have N: "N = 16 + n + n * n + (x * (n * n) + y * n)" using l l3_bound [OF l n] by (simp add: l3_def)
  have i: "(18, [x] @ [y]) \<in> ?G" using file_pos_parts [OF np] by simp
  have u: "(18, [] @ [x]) \<in> ?G" using up by simp
  have "(18, [x, y, z]) \<notin> ?G" for z
  proof (cases "z = 0")
    case False
    then have "(18, [x, y, z]) \<notin> file_pos n (Suc N)" using N by (simp add: file_pos_def)
    then show ?thesis by blast
  qed simp
  then have top: "top_pos (18, [x] @ [y]) ?G" by (simp add: top_pos_def)
  obtain s1 where s1: "ufs_datablock_link os s (node (vview ct s) a (18, [])) x = Some (node (vview ct s) a (18, [] @ [x]), s1)"
    "shrunk os ct s0 a0 S0 L0 (k + 5) s1 a ?G L" "vview ct s1 = vview ct s"
    by (rule shrunk_link [OF sh u])
  obtain s2 where s2: "ufs_datablock_remove_leaf os s1 (node (vview ct s1) a (18, [x])) y = Some (node (vview ct s1) a (18, [x] @ [y]), s2)"
    "shrunk os ct s0 a0 S0 L0 (k + 3) s2 a (?G - {(18, [x] @ [y])}) (node (vview ct s1) a (18, [x] @ [y]) # L)"
    by (rule shrunk_leaf [OF s1(2) _ i top, of "k + 3"]) (auto simp: leaf_def)
  show ?thesis by (rule that [OF _ s2(2) [simplified]]) (use s1(1,3) s2(1) in simp)
qed

lemma cut_3:
  assumes sh: "shrunk os ct s0 a0 S0 L0 (k + 7) s (m_addr m) (file_pos n (Suc N)) L"
    and n: "n = per_block s" and l: "l3 n N j a b c"
  shows "cut_to os ct s0 a0 S0 L0 k m (file_pos n N)
    (contract_step os s m (adrm_of (fpath n N)) (adrm_of (fpath n (N - 1))) RcOk)"
proof -
  note h = shrunkD [OF sh]
  let ?F = "file_pos n (Suc N)" and ?a = "m_addr m"
  have n0: "0 < n" using per_block_bound [OF h(2)] n by simp
  note np = new_pos_l3 [OF l] and pred = file_pos_pred [of n N]
  have all: "?F - new_pos n N = file_pos n N" using pred by simp
  have "a < n" using l by (simp add: l3_def less_mult_imp_div_less mult.commute)
  moreover have "16 + n + n * n + a * (n * n) < Suc N" using l3_bound [OF l n0] l by (simp add: l3_def)
  ultimately have up: "(18, [a]) \<in> ?F" by (simp add: file_pos_def pwf_def)
  obtain s2 L2 where s2: "shrunk os ct s0 a0 S0 L0 (k + 5) s2 ?a (?F - {(18, [a, b, c])}) L2"
    and eq: "contract_step os s m (adrm_of (fpath n N)) (adrm_of (fpath n (N - 1))) RcOk =
      (do { s \<leftarrow> (if c = 0 then do { (x, s) \<leftarrow> ufs_datablock_link os s2 (?a ! 18) a;
                                       (_, s) \<leftarrow> ufs_datablock_remove_leaf os s x b; Some s } else Some s2);
            (_, s) \<leftarrow> (if b = 0 \<and> c = 0 then ufs_datablock_remove_leaf os s (?a ! 18) a else Some (0, s));
            Some (RcOk, m, s) })"
    by (rule cut_3_leaf [OF sh n l])
  show ?thesis
  proof (cases "c = 0")
    case False
    then have "contract_step os s m (adrm_of (fpath n N)) (adrm_of (fpath n (N - 1))) RcOk = Some (RcOk, with_addr m ?a, s2)"
      unfolding eq by simp
    then show ?thesis by (rule cut_toI) (use shrunk_mono [OF s2, of k] all np False in simp)
  next
    case c: True
    have "(18, [a, b]) \<in> new_pos n N" using np c by simp
    then obtain s3 L3 where s3:
      "do { (x, s) \<leftarrow> ufs_datablock_link os s2 (?a ! 18) a; (_, s) \<leftarrow> ufs_datablock_remove_leaf os s x b; Some s } = Some s3"
      "shrunk os ct s0 a0 S0 L0 (k + 3) s3 ?a (?F - {(18, [a, b, 0])} - {(18, [a, b])}) L3"
      by (rule cut_3_index [OF s2 [unfolded c] l [unfolded c] n0 _ up])
    show ?thesis
    proof (cases "b = 0")
      case False
      then have "new_pos n N = {(18, [a, b]), (18, [a, b, 0])}" using np c by simp
      then have S: "?F - {(18, [a, b, 0])} - {(18, [a, b])} = file_pos n N" unfolding all [symmetric] by blast
      have "contract_step os s m (adrm_of (fpath n N)) (adrm_of (fpath n (N - 1))) RcOk = Some (RcOk, with_addr m ?a, s3)"
        unfolding eq using s3(1) c False by simp
      then show ?thesis by (rule cut_toI) (use shrunk_mono [OF s3(2), of k] S in simp)
    next
      case b: True
      let ?G = "?F - {(18, [a, b, 0])} - {(18, [a, b])}"
      have i: "(18, [] @ [a]) \<in> ?G" using up by simp
      have N: "N = 16 + n + n * n + a * (n * n)" using l l3_bound [OF l n0] b c by (simp add: l3_def)
      have "(18, [a, y]) \<notin> ?G" for y
      proof (cases "y = 0")
        case False
        then have "(18, [a, y]) \<notin> ?F" using N n0 by (simp add: file_pos_def)
        then show ?thesis by blast
      qed (simp add: b)
      then have top: "top_pos (18, [] @ [a]) ?G" by (simp add: top_pos_def)
      obtain s4 where s4: "ufs_datablock_remove_leaf os s3 (node (vview ct s3) ?a (18, [])) a = Some (node (vview ct s3) ?a (18, [] @ [a]), s4)"
        "shrunk os ct s0 a0 S0 L0 (k + 1) s4 ?a (?G - {(18, [] @ [a])}) (node (vview ct s3) ?a (18, [] @ [a]) # L3)"
        by (rule shrunk_leaf [OF s3(2) _ i top, of "k + 1"]) (auto simp: leaf_def)
      have "new_pos n N = {(18, [a]), (18, [a, b]), (18, [a, b, 0])}" using np b c by simp
      then have S: "?G - {(18, [] @ [a])} = file_pos n N" unfolding all [symmetric] append_Nil by blast
      have "contract_step os s m (adrm_of (fpath n N)) (adrm_of (fpath n (N - 1))) RcOk = Some (RcOk, with_addr m ?a, s4)"
        unfolding eq using s3(1) s4(1) b c by simp
      then show ?thesis by (rule cut_toI) (use shrunk_mono [OF s4(2), of k] S in simp)
    qed
  qed
qed

lemma contract_step_ok:
  assumes sh: "shrunk os ct s0 a0 S0 L0 (k + 7) s (m_addr m) (file_pos n (Suc N)) L"
    and n: "n = per_block s" and N: "N < max_blocks n"
    and new: "if N = 0 then am_level newmap = 0 else newmap = adrm_of (fpath n (N - 1))"
  shows "cut_to os ct s0 a0 S0 L0 k m (file_pos n N) (contract_step os s m (adrm_of (fpath n N)) newmap RcOk)"
proof -
  consider "N < 16" | l where "l < 3" "N = level_start n l" | i where "N = 16 + i" "0 < i" "i < n"
    | j where "N = 16 + n + j" "0 < j" "j < n * n" | j where "N = 16 + n + n * n + j" "0 < j" "j < n * n * n"
  proof -
    have "16 \<le> N \<Longrightarrow> N = 16 + (N - 16)" "16 + n \<le> N \<Longrightarrow> N = 16 + n + (N - 16 - n)"
      "16 + n + n * n \<le> N \<Longrightarrow> N = 16 + n + n * n + (N - 16 - n - n * n)" by simp_all
    moreover have "N = level_start n 0 \<longleftrightarrow> N = 16" "N = level_start n 1 \<longleftrightarrow> N = 16 + n"
      "N = level_start n 2 \<longleftrightarrow> N = 16 + n + n * n" by (simp_all add: level_start_def)
    moreover have "16 + n + n * n \<le> N \<Longrightarrow> N - 16 - n - n * n < n * n * n" using N by (simp add: max_blocks_def)
    moreover have "N < 16 + n + n * n \<Longrightarrow> 16 + n \<le> N \<Longrightarrow> N - 16 - n < n * n" by linarith
    moreover have "N < 16 + n \<Longrightarrow> 16 \<le> N \<Longrightarrow> N - 16 < n" by linarith
    moreover have "16 + n + n * n < N \<Longrightarrow> 0 < N - 16 - n - n * n" "16 + n < N \<Longrightarrow> 0 < N - 16 - n" "16 < N \<Longrightarrow> 0 < N - 16"
      by linarith+
    moreover have "(0 :: nat) < 3" "(1 :: nat) < 3" "(2 :: nat) < 3" by simp_all
    ultimately show ?thesis using that by (metis linorder_neqE_nat not_less)
  qed
  then show ?thesis
  proof cases
    case 1
    then have "am_level newmap = 0" using new by (auto simp: fpath_def adrm_of_def split: if_splits)
    with 1 show ?thesis by (rule cut_direct [OF sh n])
  next
    case (2 l)
    then have "0 < N" by (simp add: level_start_def)
    then show ?thesis using cut_level [OF sh n 2] new by simp
  next
    case (3 i)
    then show ?thesis using cut_1 [OF sh n 3] new by simp
  next
    case (4 j)
    then show ?thesis using cut_2 [OF sh n 4] new by simp
  next
    case (5 j)
    then have "l3 n N j (j div (n * n)) (j div n mod n) (j mod n)" by (simp add: l3_def)
    from cut_3 [OF sh n this] show ?thesis using new 5 by simp
  qed
qed

section \<open>Shrinking a file\<close>

lemma push_drop_small: "unat (y :: u32) < 2 ^ k \<Longrightarrow> k < 32 \<Longrightarrow> push_bit k (drop_bit k y) = 0"
  using unat_drop_push [of k y] by (simp add: unat_eq_zero [symmetric] del: unat_eq_zero)

text \<open>Below zero by less than a block, a size wraps around and rounds up to 0.\<close>

lemma addr_wrapped:
  assumes g: "geom s" "good_blksize s" and x: "unat (x + (ucast (v_blksize s) - 1)) < unat (v_blksize s)"
  shows "\<exists>i. ufs_datablock_addr s x = Some (RcOk, \<lparr>am_level = 0, am_index = [i]\<rparr>)"
proof -
  let ?k = "unat (sb_blksize_shift (v_sb s))" and ?a = "ucast (v_blksize s) :: u32"
  have bs: "unat (v_blksize s) = 2 ^ ?k" using g(1) by (simp add: geom_def)
  have k: "?k < 32" using geom_shift_le [OF g] by simp
  have "?a = 2 ^ ?k" using bs unat_exp32 [OF k] by (simp add: word_unat_eq_iff)
  then have "ufs_round x ?a = 0" using push_drop_small [OF x [unfolded bs] k] by (simp add: ufs_round_def and_not_mask_eq)
  then show ?thesis by (cases "x = 0") (simp_all add: ufs_datablock_addr_def Let_def)
qed

lemma size_word:
  assumes old: "unat (old :: u32) \<le> 2 ^ 31" and b: "unat (b :: u16) \<le> 2048" "0 < unat b"
    and i: "unat i + 1 \<le> blocks (unat b) (unat old)"
  shows "unat i + 1 < blocks (unat b) (unat old) \<Longrightarrow>
      blocks (unat b) (unat (old - (i + 1) * ucast b)) = blocks (unat b) (unat old) - (unat i + 1)
      \<and> unat (old - (i + 1) * ucast b) \<le> unat old"
    and "unat i + 1 = blocks (unat b) (unat old) \<Longrightarrow> unat (old - (i + 1) * ucast b + (ucast b - 1)) < unat b"
    and "unat (i + 1) = unat i + 1"
proof -
  let ?b = "unat b" and ?o = "unat old"
  have "?o > 0" using i b(2) by (cases "?o = 0") auto
  then have N: "blocks ?b ?o = (?o - 1) div ?b + 1" using blocks_pos [OF b(2)] by simp
  have "blocks ?b ?o \<le> (?o - 1) + 1" unfolding N by (simp add: div_le_dividend)
  then have "unat i + 1 \<le> 2 ^ 31" using i old \<open>?o > 0\<close> by linarith
  then have iw: "unat (i + 1) = unat i + 1" by (simp add: unat_word_ariths)
  show "unat (i + 1) = unat i + 1" by (rule iw)
  have "unat i * ?b \<le> (?o - 1) div ?b * ?b" using i N by (intro mult_le_mono1) simp
  also have "\<dots> \<le> ?o - 1" by simp
  finally have low: "unat i * ?b + 1 \<le> ?o" using \<open>?o > 0\<close> by linarith
  have m: "unat ((i + 1) * ucast b) = (unat i + 1) * ?b"
    using unat_mult32 [of "i + 1" "ucast b"] iw low old b(1) by (simp add: add_mult_distrib)
  show "blocks ?b (unat (old - (i + 1) * ucast b)) = blocks ?b ?o - (unat i + 1) \<and> unat (old - (i + 1) * ucast b) \<le> ?o"
    if lt: "unat i + 1 < blocks ?b ?o"
  proof -
    have "(unat i + 1) * ?b \<le> (?o - 1) div ?b * ?b" using lt N by (intro mult_le_mono1) simp
    also have "\<dots> \<le> ?o - 1" by simp
    finally have le: "(unat i + 1) * ?b \<le> ?o" by linarith
    then have u: "unat (old - (i + 1) * ucast b) = ?o - (unat i + 1) * ?b"
      using m unat_sub [of "(i + 1) * ucast b" old] by (simp add: word_le_nat_alt)
    have "blocks ?b ?o = blocks ?b (?o - (unat i + 1) * ?b) + (unat i + 1)"
      using blocks_add [OF b(2), of "?o - (unat i + 1) * ?b" "unat i + 1"] le by simp
    then show ?thesis unfolding u by simp
  qed
  show "unat (old - (i + 1) * ucast b + (ucast b - 1)) < ?b" if eq: "unat i + 1 = blocks ?b ?o"
  proof -
    have w: "old - (i + 1) * ucast b + (ucast b - 1) = old - (i * ucast b + 1)" by (simp add: algebra_simps)
    have "unat (i * ucast b) = unat i * ?b" using unat_mult32 [of i "ucast b"] low old by simp
    then have u: "unat (i * ucast b + 1) = unat i * ?b + 1" using low old by (simp add: unat_word_ariths)
    have "unat i = (?o - 1) div ?b" using eq N by simp
    then have "?o - 1 < (unat i + 1) * ?b" using dividend_less_div_times [OF b(2), of "?o - 1"] by simp
    then show ?thesis unfolding w using unat_sub [of "i * ucast b + 1" old] u low by (simp add: word_le_nat_alt add_mult_distrib)
  qed
qed

lemma contract_loop_step:
  "contract_loop os (Suc c) s old i oldmap error m =
    do { (_, newmap) \<leftarrow> ufs_datablock_addr s (old - (i + 1) * ucast (v_blksize s));
         (error, m, s) \<leftarrow> contract_step os s m oldmap newmap error;
         contract_loop os c s old (i + 1) newmap error m }"
  by (simp add: contract_step_def)

lemma contract_loop_ok:
  assumes "shrunk os ct s0 a0 S0 L0 (k + 7 * c) s (m_addr m) (file_pos n (N + c)) L" "n = per_block s" "good_blksize s"
    and "unat old \<le> 2 ^ 31" "blocks (unat (v_blksize s)) (unat old) = N + c + unat i"
      "blocks (unat (v_blksize s)) (unat old) \<le> max_blocks n"
    and "0 < c \<Longrightarrow> oldmap = adrm_of (fpath n (N + c - 1))"
  shows "cut_to os ct s0 a0 S0 L0 k m (file_pos n N) (contract_loop os c s old i oldmap RcOk m)"
  using assms
proof (induction c arbitrary: s L m i oldmap)
  case 0
  show ?case by (rule cut_toI [of _ m "m_addr m" s]) (use 0(1) in simp_all)
next
  case (Suc c)
  note h = shrunkD [OF Suc.prems(1)]
  let ?bs = "unat (v_blksize s)" and ?M = "N + c"
  let ?x = "old - (i + 1) * ucast (v_blksize s)"
  have g: "geom s" using h(2) by (simp add: bgood_def)
  have bs: "0 < ?bs" "?bs \<le> 2048" using g Suc.prems(3) by (simp_all add: geom_def good_blksize_def)
  have le: "unat i + 1 \<le> blocks ?bs (unat old)" using Suc.prems(5) by simp
  note w = size_word [OF Suc.prems(4) bs(2,1) le]
  have "\<exists>newmap. ufs_datablock_addr s ?x = Some (RcOk, newmap)
    \<and> (if ?M = 0 then am_level newmap = 0 else newmap = adrm_of (fpath n (?M - 1)))"
  proof (cases "?M = 0")
    case True
    then have "unat i + 1 = blocks ?bs (unat old)" using Suc.prems(5) by simp
    then show ?thesis using addr_wrapped [OF g Suc.prems(3) w(2)] True by auto
  next
    case False
    then have lt: "unat i + 1 < blocks ?bs (unat old)" using Suc.prems(5) by simp
    have "unat ?x \<le> 2 ^ 31" "blocks ?bs (unat ?x) = ?M" using w(1) [OF lt] Suc.prems(4,5) by auto
    then have "ufs_datablock_addr s ?x = Some (RcOk, adrm_of (fpath n (?M - 1)))"
      using addr_blocks [OF g Suc.prems(3), of ?x] Suc.prems(2) by simp
    then show ?thesis using False by (simp only: if_False) blast
  qed
  then obtain newmap where new: "ufs_datablock_addr s ?x = Some (RcOk, newmap)"
    "if ?M = 0 then am_level newmap = 0 else newmap = adrm_of (fpath n (?M - 1))" by blast
  have sh: "shrunk os ct s0 a0 S0 L0 (k + 7 * c + 7) s (m_addr m) (file_pos n (Suc ?M)) L"
    using Suc.prems(1) by (simp add: add_ac)
  have M: "?M < max_blocks n" using Suc.prems(5,6) by simp
  obtain a1 s1 L1 where s1: "contract_step os s m (adrm_of (fpath n ?M)) newmap RcOk = Some (RcOk, with_addr m a1, s1)"
    "shrunk os ct s0 a0 S0 L0 (k + 7 * c) s1 a1 (file_pos n ?M) L1"
    using contract_step_ok [OF sh Suc.prems(2) M new(2)] unfolding cut_to_def by blast
  have fr: "frest s1 = frest s" using shrunkD(4) [OF s1(2)] h(4) by simp
  have bs1: "v_blksize s1 = v_blksize s" "per_block s1 = per_block s" using frestD(1) [OF fr] frest_geom(2) [OF fr] by simp_all
  have om: "oldmap = adrm_of (fpath n ?M)" using Suc.prems(7) by simp
  have "cut_to os ct s0 a0 S0 L0 k (with_addr m a1) (file_pos n N) (contract_loop os c s1 old (i + 1) newmap RcOk (with_addr m a1))"
  proof (rule Suc.IH)
    show "shrunk os ct s0 a0 S0 L0 (k + 7 * c) s1 (m_addr (with_addr m a1)) (file_pos n ?M) L1" using s1(2) by simp
    show "blocks (unat (v_blksize s1)) (unat old) = ?M + unat (i + 1)" using Suc.prems(5) bs1 w(3) by simp
    show "newmap = adrm_of (fpath n (?M - 1))" if "0 < c" using new(2) that by simp
  qed (use Suc.prems bs1 in \<open>simp_all add: good_blksize_def\<close>)
  then obtain a' s' L' where "contract_loop os c s1 old (i + 1) newmap RcOk (with_addr m a1) = Some (RcOk, with_addr m a', s')"
    "shrunk os ct s0 a0 S0 L0 k s' a' (file_pos n N) L'" unfolding cut_to_def by auto
  then show ?case unfolding contract_loop_step cut_to_def using new(1) s1(1) om by simp blast
qed

text \<open>
  The file \<open>m\<close> of \<open>s\<close> has become \<open>m'\<close> of \<open>s'\<close>: a prefix of its blocks is left, the others are free, and
  nothing changed but the freed blocks, the index blocks and the inode.
\<close>

definition shrunk_file :: "('d \<Rightarrow> u32 \<Rightarrow> block) \<Rightarrow> 'd vol \<Rightarrow> minode \<Rightarrow> u32 list \<Rightarrow> 'd vol \<Rightarrow> minode \<Rightarrow> u32 list \<Rightarrow> nat \<Rightarrow> bool" where
  "shrunk_file ct s m L s' m' L' N \<longleftrightarrow> file_ok ct s' m' L'
     \<and> file_blocks ct s' m' = take N (file_blocks ct s m)
     \<and> file_nodes ct s' m' \<subseteq> file_nodes ct s m
     \<and> set L' = set L \<union> (file_nodes ct s m - file_nodes ct s' m')
     \<and> (\<forall>x. inode_num s x \<longrightarrow> inode_at ct s' x = (if x = mi_inode_number m then mi_dinode m' else inode_at ct s x))
     \<and> (\<forall>x. x \<notin> set L' \<longrightarrow> x \<notin> file_nodes ct s m \<longrightarrow> x \<noteq> inode_block s (mi_inode_number m) \<longrightarrow>
          vview ct s' x = vview ct s x)"

lemma shrunk_inodes:
  assumes sh: "shrunk os ct s a S L k s1 a1 S1 L1" and g: "geom s" and t: "tree_ok ct s a S L" and x: "inode_num s x"
  shows "inode_at ct s1 x = inode_at ct s x"
proof -
  note h = shrunkD [OF sh]
  have "\<forall>b \<in> set L1. ufs_datablock_number_sanity s1 b" using h(2) fgood_sane unfolding bgood_def by blast
  then have "inode_block s x \<notin> set L1" using inode_block_low [OF g x] sane_frest [OF h(4)] by metis
  moreover have "inode_block s x \<notin> node (vview ct s) a ` {p \<in> S. \<not> leaf p}"
    using inode_block_low [OF g x tree_okD(5) [OF t]] by (metis (mono_tags, lifting) imageE mem_Collect_eq)
  ultimately have "vview ct s1 (inode_block s x) = vview ct s (inode_block s x)" by (rule h(8))
  then show ?thesis by (simp add: inode_at_def frest_inodes [OF h(4)])
qed

lemma contract_tree:
  assumes f: "file_ok ct s m L" and g: "bgood os ct (k + 7 * c + 1) s L" and b: "good_blksize s" and L: "L \<noteq> []"
    and sz: "unat sz \<le> unat (di_filesize (mi_dinode m))"
    and c: "blocks (unat (v_blksize s)) (unat (di_filesize (mi_dinode m)))
      = blocks (unat (v_blksize s)) (unat (di_filesize (mi_dinode m) - sz)) + c"
  obtains s1 a1 L1 where "shrunk os ct s (m_addr m) (m_pos s m) L (Suc k) s1 a1
      (file_pos (per_block s) (blocks (unat (v_blksize s)) (unat (di_filesize (mi_dinode m) - sz)))) L1"
    "ufs_datablock_contract os s m sz = map_option (\<lambda>(rc, m, s). (RcOk, m, s))
      (ufs_inode_writeback os s1 (set_size (di_filesize (mi_dinode m) - sz) (with_addr m a1)))"
proof -
  let ?old = "di_filesize (mi_dinode m)" and ?bs = "unat (v_blksize s)" and ?n = "per_block s"
  let ?new = "?old - sz"
  let ?N = "blocks ?bs (unat ?new)"
  have geo: "geom s" using g by (simp add: bgood_def)
  note fo = file_okD [OF f]
  have t: "tree_ok ct s (m_addr m) (file_pos ?n (?N + c)) L" using fo(1) c by (simp add: m_pos_def)
  have "unat ?new \<le> unat ?old" using unat_sub [of sz ?old] sz by (simp add: word_le_nat_alt)
  then have new: "unat ?new \<le> 2 ^ 31" using fo(4) by simp
  have n0: "unat (nblk s ?old) = ?N + c" using nblk_blocks [OF geo size_fits [OF fo(4)]] c by simp
  have n1: "unat (nblk s ?new) = ?N" using nblk_blocks [OF geo size_fits [OF new]] by simp
  have sh: "shrunk os ct s (m_addr m) (m_pos s m) L (Suc k + 7 * c) s (m_addr m) (file_pos ?n (?N + c)) L"
    using shrunk_refl [OF bgood_mono [OF g] t L, of "Suc k + 7 * c"] c by (simp add: m_pos_def)
  show thesis
  proof (cases "nblk s ?old = nblk s ?new")
    case True
    then have "c = 0" using n0 n1 by simp
    moreover have "ufs_datablock_contract os s m sz = map_option (\<lambda>(rc, m, s). (RcOk, m, s))
        (ufs_inode_writeback os s (set_size ?new (with_addr m (m_addr m))))"
      using True by (cases "ufs_inode_writeback os s (set_size ?new m)") (auto simp: ufs_datablock_contract_def)
    ultimately show ?thesis using that [of s "m_addr m" L] sh by simp
  next
    case False
    have "nblk s ?new \<le> nblk s ?old" using n0 n1 by (simp add: word_le_nat_alt)
    then have diff: "unat (nblk s ?old - nblk s ?new) = c" using n0 n1 by (simp add: unat_sub)
    have old: "ufs_datablock_addr s ?old = Some (RcOk, adrm_of (fpath ?n (?N + c - 1)))"
      using addr_blocks [OF geo b fo(4)] c by simp
    have "cut_to os ct s (m_addr m) (m_pos s m) L (Suc k) m (file_pos ?n ?N)
        (contract_loop os c s ?old 0 (adrm_of (fpath ?n (?N + c - 1))) RcOk m)"
      by (rule contract_loop_ok [OF sh refl b fo(4)]) (use c fo(5) in simp_all)
    then obtain a1 s1 L1 where l: "contract_loop os c s ?old 0 (adrm_of (fpath ?n (?N + c - 1))) RcOk m = Some (RcOk, with_addr m a1, s1)"
      "shrunk os ct s (m_addr m) (m_pos s m) L (Suc k) s1 a1 (file_pos ?n ?N) L1" unfolding cut_to_def by blast
    have "ufs_datablock_contract os s m sz = map_option (\<lambda>(rc, m, s). (RcOk, m, s))
        (ufs_inode_writeback os s1 (set_size ?new (with_addr m a1)))"
      using False old l(1) diff
      by (cases "ufs_inode_writeback os s1 (set_size ?new (with_addr m a1))") (auto simp: ufs_datablock_contract_def)
    then show ?thesis using that l(2) by blast
  qed
qed

text \<open>\<open>ufs_datablock_contract\<close>: the file keeps a prefix of its blocks, the others are free.\<close>

lemma contract_ok:
  assumes f: "file_ok ct s m L" and g: "bgood os ct (k + 7 * c + 1) s L" and b: "good_blksize s" and L: "L \<noteq> []"
    and sz: "unat sz \<le> unat (di_filesize (mi_dinode m))"
    and c: "blocks (unat (v_blksize s)) (unat (di_filesize (mi_dinode m)))
      = blocks (unat (v_blksize s)) (unat (di_filesize (mi_dinode m) - sz)) + c"
  obtains m' s' L' where "ufs_datablock_contract os s m sz = Some (RcOk, m', s')" "bgood os ct k s' L'"
    "shrunk_file ct s m L s' m' L' (blocks (unat (v_blksize s)) (unat (di_filesize (mi_dinode m) - sz)))"
    "m' = finished m (m_addr m') (di_filesize (mi_dinode m) - sz)" "frest s' = frest s"
proof -
  let ?old = "di_filesize (mi_dinode m)" and ?bs = "unat (v_blksize s)" and ?n = "per_block s"
  let ?new = "?old - sz"
  let ?N = "blocks ?bs (unat ?new)" and ?S = "m_pos s m"
  let ?F = "file_pos ?n ?N"
  note fo = file_okD [OF f]
  have geo: "geom s" using g by (simp add: bgood_def)
  obtain s1 a1 L1 where sh: "shrunk os ct s (m_addr m) ?S L (Suc k) s1 a1 ?F L1"
    and e: "ufs_datablock_contract os s m sz = map_option (\<lambda>(rc, m, s). (RcOk, m, s))
      (ufs_inode_writeback os s1 (set_size ?new (with_addr m a1)))"
    by (rule contract_tree [OF f g b L sz c])
  note h = shrunkD [OF sh]
  let ?m = "set_size ?new (with_addr m a1)" and ?m' = "finished m a1 ?new"
  note fi = frest_inodes [OF h(4)]
  have wf: "wf_dinode (mi_dinode ?m)" by (rule wf_set_size [OF fo(3) tree_okD(1) [OF h(1)]])
  obtain s' where w: "ufs_inode_writeback os s1 ?m = Some (RcOk, ?m\<lparr>mi_flags := mi_flags ?m AND NOT MINODE_FLAG_DIRTY\<rparr>, s')"
    "bgood os ct k s' L1" "vrest s' = vrest s1" "tree_ok ct s' a1 ?F L1"
    "\<And>x. x \<noteq> inode_block s (mi_inode_number m) \<Longrightarrow> vview ct s' x = vview ct s1 x"
    "\<And>p. p \<in> ?F \<Longrightarrow> node (vview ct s') a1 p = node (vview ct s1) a1 p"
    "\<And>x. inode_num s x \<Longrightarrow> inode_at ct s' x = (if x = mi_inode_number m then mi_dinode ?m else inode_at ct s1 x)"
    by (rule writeback_file [OF h(2), of ?m ?F]) (use h(1) fo(2) wf fi in auto)
  have fr': "frest s' = frest s" using frest_vrest [OF w(3)] h(4) by simp
  have ge: "per_block s' = ?n" "v_blksize s' = v_blksize s" using frest_geom(2) [OF fr'] frestD(1) [OF fr'] by simp_all
  have pos: "m_pos s' ?m' = ?F" by (simp add: m_pos_def ge)
  have le: "unat ?new \<le> unat ?old" using unat_sub [of sz ?old] sz by (simp add: word_le_nat_alt)
  have node': "node (vview ct s') a1 p = node (vview ct s) (m_addr m) p" if "p \<in> ?F" for p
    using w(6) [OF that] h(6) [OF that] by simp
  have nodes': "file_nodes ct s' ?m' = node (vview ct s) (m_addr m) ` ?F" using node' by (simp add: file_nodes_def pos)
  have "inj_on (node (vview ct s) (m_addr m)) ?S" using fo(1) by (simp add: tree_ok_def)
  then have "node (vview ct s) (m_addr m) ` (?S - ?F) = file_nodes ct s m - file_nodes ct s' ?m'"
    using inj_on_image_set_diff [of "node (vview ct s) (m_addr m)" ?S ?S ?F] h(5) unfolding nodes' by (simp add: file_nodes_def)
  then have L': "set L1 = set L \<union> (file_nodes ct s m - file_nodes ct s' ?m')" using h(7) by simp
  have Nle: "?N \<le> max_blocks ?n" "unat ?new \<le> 2 ^ 31" using fo(4,5) c le by simp_all
  have ok: "file_ok ct s' ?m' L1" using w(4) fo(2) Nle wf by (simp add: file_ok_def pos ge frest_inodes [OF fr'])
  have fb: "file_block ct s' a1 i = file_block ct s (m_addr m) i" if "i < ?N" for i
  proof -
    let ?p = "fpath ?n i"
    have p: "?p \<in> ?F" "leaf ?p" using that Nle(1) by (auto intro: fpath_in fpath_pos(3))
    have S: "?p \<in> ?S" using h(5) p(1) by blast
    have "node (vview ct s) (m_addr m) ?p \<notin> set L1" using tree_okD(6) [OF h(1) p(1)] h(6) [OF p(1)] by simp
    then have "vview ct s1 (node (vview ct s) (m_addr m) ?p) = vview ct s (node (vview ct s) (m_addr m) ?p)"
      using h(8) leaf_not_index(2) [OF fo(1) S p(2)] by blast
    moreover have "node (vview ct s) (m_addr m) ?p \<noteq> inode_block s (mi_inode_number m)"
      using inode_block_low [OF geo fo(2) tree_okD(5) [OF fo(1) S]] .
    ultimately show ?thesis using w(5) node' [OF p(1)] by (simp add: file_block_def ge)
  qed
  have "file_blocks ct s' ?m' = map (file_block ct s (m_addr m)) [0 ..< ?N]" using fb by (simp add: file_blocks_def ge)
  then have fbs: "file_blocks ct s' ?m' = take ?N (file_blocks ct s m)" using c by (simp add: file_blocks_def take_map)
  have "shrunk_file ct s m L s' ?m' L1 ?N"
    unfolding shrunk_file_def
  proof (intro conjI allI impI fbs ok L')
    show "file_nodes ct s' ?m' \<subseteq> file_nodes ct s m" unfolding nodes' unfolding file_nodes_def using h(5) by blast
  next
    fix x assume "inode_num s x"
    then show "inode_at ct s' x = (if x = mi_inode_number m then mi_dinode ?m' else inode_at ct s x)"
      using w(7) shrunk_inodes [OF sh geo fo(1)] by simp
  next
    fix x assume x: "x \<notin> set L1" "x \<notin> file_nodes ct s m" "x \<noteq> inode_block s (mi_inode_number m)"
    have "x \<notin> node (vview ct s) (m_addr m) ` {p \<in> ?S. \<not> leaf p}" using x(2) by (auto simp: file_nodes_def)
    then show "vview ct s' x = vview ct s x" using w(5) [OF x(3)] h(8) [OF x(1)] by simp
  qed
  then show thesis using that [of ?m' s' L1] e w(1,2) fr' by (simp add: finished_def)
qed

end
