(* ===== verification/Names.thy ===== *)
theory Names
  imports Ufs_Types "HOL-Library.Multiset"
begin

text \<open>
  The table of names (\<^verbatim>\<open>include/ufs/name.h\<close>, \<^verbatim>\<open>src/ufsnm*.c\<close>): prefixes with a
  replacement and a virtual disk, kept sorted. Lemmas: for names the search accepts, the table is a
  finite map, mounting a name is its update and finding one its lookup.
\<close>

section \<open>The table\<close>

definition NM_MAXLEN :: nat where "NM_MAXLEN = 256"

record ufsname =
  nm_prefix :: "byte list option"
  nm_rep :: "byte list option"
  nm_vdisk :: "nat option"

text \<open>
  The part of \<^verbatim>\<open>UFSSYS\<close> these functions use: \<^verbatim>\<open>sys->names\<close> (an element may be
  null), and the outside world. An entry is known by its place in the array.
\<close>

record 'd names =
  ns_outer :: 'd
  ns_names :: "ufsname option list"

definition ns_lock :: "'d os \<Rightarrow> 'd names \<Rightarrow> int \<times> 'd names" where
  "ns_lock os s = (let (r, d) = os_lock os (ns_outer s) LkSys in (r, s\<lparr>ns_outer := d\<rparr>))"

definition ns_unlock :: "'d os \<Rightarrow> int \<Rightarrow> 'd names \<Rightarrow> 'd names" where
  "ns_unlock os lockrc s = (if lockrc = 0 then s\<lparr>ns_outer := os_unlock os (ns_outer s) LkSys\<rparr> else s)"

definition ns_calloc :: "'d os \<Rightarrow> nat \<Rightarrow> 'd names \<Rightarrow> bool \<times> 'd names" where
  "ns_calloc os n s = (let (ok, d) = os_calloc os (ns_outer s) n in (ok, s\<lparr>ns_outer := d\<rparr>))"

text \<open>\<^verbatim>\<open>strdup\<close>: undefined on a null pointer, null when there is no storage.\<close>

definition ns_strdup :: "'d os \<Rightarrow> byte list option \<Rightarrow> 'd names \<Rightarrow> (byte list option \<times> 'd names) option" where
  "ns_strdup os x s =
     do { x \<leftarrow> x;
          let (ok, s) = ns_calloc os (length (cstr x) + 1) s in
          Some (if ok then Some (cstr x) else None, s) }"

section \<open>Finding\<close>

text \<open>A null prefix, which an entry has when \<^verbatim>\<open>strdup\<close> had no storage, is undefined in \<^verbatim>\<open>strcmp\<close>.\<close>

fun find_name :: "ufsname option list \<Rightarrow> nat \<Rightarrow> byte list \<Rightarrow> nat option option" where
  "find_name [] n name = Some None"
| "find_name (None # ps) n name = find_name ps (Suc n) name"
| "find_name (Some p # ps) n name =
     do { x \<leftarrow> nm_prefix p; if x = name then Some (Some n) else find_name ps (Suc n) name }"

definition ufs_name_find :: "'d os \<Rightarrow> byte list option \<Rightarrow> 'd names \<Rightarrow> (nat option \<times> 'd names) option" where
  "ufs_name_find os name s =
     (let name = (case name of None \<Rightarrow> [] | Some x \<Rightarrow> cstr x) in
      if length name \<ge> NM_MAXLEN then Some (None, s) else
      let (lockrc, s) = ns_lock os s in
      if \<not> lock_held lockrc then Some (None, s) else
      do { found \<leftarrow> find_name (ns_names s) 0 name; Some (found, ns_unlock os lockrc s) })"

section \<open>Sorting\<close>

fun strcmp :: "byte list \<Rightarrow> byte list \<Rightarrow> int" where
  "strcmp [] [] = 0"
| "strcmp [] (y # ys) = - 1"
| "strcmp (x # xs) [] = 1"
| "strcmp (x # xs) (y # ys) = (if x = y then strcmp xs ys else if x < y then - 1 else 1)"

definition name_key :: "ufsname option \<Rightarrow> byte list" where
  "name_key p = (case p of None \<Rightarrow> [] | Some p \<Rightarrow> (case nm_prefix p of None \<Rightarrow> [] | Some x \<Rightarrow> x))"

definition name_sort :: "ufsname option \<Rightarrow> ufsname option \<Rightarrow> int" where
  "name_sort p1 p2 =
     (let s1 = name_key p1; s2 = name_key p2;
          diff = int (length s1) - int (length s2);
          diff = (if diff = 0 then strcmp s2 s1 else diff)
      in diff * - 1)"

text \<open>The C library's \<^verbatim>\<open>qsort\<close> with a comparison function; elements that compare equal keep their order here.\<close>

fun insert_by :: "('a \<Rightarrow> 'a \<Rightarrow> int) \<Rightarrow> 'a \<Rightarrow> 'a list \<Rightarrow> 'a list" where
  "insert_by cmp x [] = [x]"
| "insert_by cmp x (y # ys) = (if cmp x y \<le> 0 then x # y # ys else y # insert_by cmp x ys)"

definition qsort :: "('a \<Rightarrow> 'a \<Rightarrow> int) \<Rightarrow> 'a list \<Rightarrow> 'a list" where
  "qsort cmp xs = foldr (insert_by cmp) xs []"

definition ufs_name_sort :: "'d os \<Rightarrow> 'd names \<Rightarrow> rc \<times> 'd names" where
  "ufs_name_sort os s =
     (let (lockrc, s) = ns_lock os s in
      if \<not> lock_held lockrc then (RcErr EPERM, s) else
      let s = (if length (ns_names s) > 1 then s\<lparr>ns_names := qsort name_sort (ns_names s)\<rparr> else s)
      in (RcOk, ns_unlock os lockrc s))"

section \<open>Mounting a name\<close>

definition upd_name :: "nat \<Rightarrow> (ufsname \<Rightarrow> ufsname) \<Rightarrow> 'd names \<Rightarrow> 'd names" where
  "upd_name n f s = s\<lparr>ns_names := (ns_names s)[n := map_option f (ns_names s ! n)]\<rparr>"

text \<open>The result of the sort is dropped.\<close>

definition ufs_name_mount ::
  "'d os \<Rightarrow> byte list option \<Rightarrow> byte list option \<Rightarrow> nat option \<Rightarrow> 'd names \<Rightarrow> (rc \<times> 'd names) option" where
  "ufs_name_mount os prefix rep vdisk s =
     (let (lockrc, s) = ns_lock os s in
      if \<not> lock_held lockrc then Some (RcErr EPERM, s) else
      do { (name, s) \<leftarrow> ufs_name_find os prefix s;
           let (name, s) =
             (case name of Some n \<Rightarrow> (Some n, s)
              | None \<Rightarrow>
                  let (ok, s) = ns_calloc os 12 s in
                  if \<not> ok then (None, s) else
                  (Some (length (ns_names s)),
                   s\<lparr>ns_names := ns_names s @ [Some \<lparr>nm_prefix = None, nm_rep = None, nm_vdisk = None\<rparr>]\<rparr>)) in
           case name of None \<Rightarrow> Some (RcErr ENOMEM, ns_unlock os lockrc s)
           | Some n \<Rightarrow>
               do { (x, s) \<leftarrow> ns_strdup os prefix s;
                    let s = upd_name n (nm_prefix_update (\<lambda>_. x)) s in
                    do { (x, s) \<leftarrow> ns_strdup os rep s;
                         let s = upd_name n (nm_rep_update (\<lambda>_. x)) s;
                             s = upd_name n (nm_vdisk_update (\<lambda>_. vdisk)) s;
                             (_, s) = ufs_name_sort os s in
                         Some (RcOk, ns_unlock os lockrc s) } } })"

section \<open>The order of the table\<close>

lemma strcmp_refl [simp]: "strcmp x x = 0"
  by (induction x) auto

lemma strcmp_flip: "strcmp y x = - strcmp x y"
  by (induction x y rule: strcmp.induct) auto

lemma strcmp_trans: "strcmp x y \<le> 0 \<Longrightarrow> strcmp y z \<le> 0 \<Longrightarrow> strcmp x z \<le> 0"
proof (induction x y arbitrary: z rule: strcmp.induct)
  case (2 y ys)
  then show ?case by (cases z) auto
next
  case (4 x xs y ys)
  then show ?case by (cases z) (auto split: if_splits)
qed (auto split: if_splits)

text \<open>
  The order the comments of \<^verbatim>\<open>ufsnmsrt.c\<close> ask for, without the comparison function: "longest names
  first, then ascending", bytes compared as unsigned numbers.
\<close>

definition longest_first :: "byte list \<Rightarrow> byte list \<Rightarrow> bool" where
  "longest_first x y \<longleftrightarrow> length y < length x \<or> length y = length x \<and> (x = y \<or> (x, y) \<in> lexord {(a, b). a < b})"

lemma strcmp_lexord: "strcmp x y \<le> 0 \<longleftrightarrow> x = y \<or> (x, y) \<in> lexord {(a, b). a < b}"
  by (induction x y rule: strcmp.induct) auto

lemma name_sort_alt:
  "name_sort p q \<le> 0 \<longleftrightarrow> length (name_key q) < length (name_key p)
     \<or> length (name_key q) = length (name_key p) \<and> strcmp (name_key p) (name_key q) \<le> 0"
  using strcmp_flip [of "name_key p" "name_key q"] by (auto simp: name_sort_def Let_def)

lemma name_sort_order: "name_sort p q \<le> 0 \<longleftrightarrow> longest_first (name_key p) (name_key q)"
  by (simp add: name_sort_alt strcmp_lexord longest_first_def)

lemma name_sort_total: "name_sort p q \<le> 0 \<or> name_sort q p \<le> 0"
  using strcmp_flip [of "name_key p" "name_key q"] by (auto simp: name_sort_alt)

lemma name_sort_trans: "name_sort p q \<le> 0 \<Longrightarrow> name_sort q r \<le> 0 \<Longrightarrow> name_sort p r \<le> 0"
  by (auto simp: name_sort_alt dest: strcmp_trans)

lemma mset_insert_by [simp]: "mset (insert_by cmp x ys) = add_mset x (mset ys)"
  by (induction ys) auto

lemma mset_qsort: "mset (qsort cmp xs) = mset xs"
  unfolding qsort_def by (induction xs) auto

lemma set_insert_by [simp]: "set (insert_by cmp x ys) = insert x (set ys)"
  by (induction ys) auto

lemma qsort_sorted:
  assumes total: "\<And>x y. cmp x y \<le> 0 \<or> cmp y x \<le> 0"
    and trans: "\<And>x y z. cmp x y \<le> 0 \<Longrightarrow> cmp y z \<le> 0 \<Longrightarrow> cmp x z \<le> (0::int)"
  shows "sorted_wrt (\<lambda>x y. cmp x y \<le> 0) (qsort cmp xs)"
proof -
  have ins: "sorted_wrt (\<lambda>x y. cmp x y \<le> 0) (insert_by cmp x ys)"
    if "sorted_wrt (\<lambda>x y. cmp x y \<le> 0) ys" for x ys
    using that by (induction ys) (use total trans in \<open>auto intro: trans\<close>)
  show ?thesis unfolding qsort_def by (induction xs) (simp_all add: ins)
qed

section \<open>The table as a map\<close>

definition named_entry :: "ufsname option \<Rightarrow> bool" where
  "named_entry p \<longleftrightarrow> (\<exists>e x. p = Some e \<and> nm_prefix e = Some x \<and> length x < NM_MAXLEN \<and> 0 \<notin> set x)"

definition names_sorted :: "ufsname option list \<Rightarrow> bool" where
  "names_sorted l \<longleftrightarrow> sorted_wrt longest_first (map name_key l)"

lemma names_sorted_qsort: "names_sorted (qsort name_sort l)"
proof -
  have "sorted_wrt (\<lambda>p q. name_sort p q \<le> 0) (qsort name_sort l)"
    by (rule qsort_sorted [OF name_sort_total name_sort_trans])
  then show ?thesis by (simp add: names_sorted_def sorted_wrt_map name_sort_order)
qed

definition names_ok :: "ufsname option list \<Rightarrow> bool" where
  "names_ok l \<longleftrightarrow> (\<forall>p\<in>set l. named_entry p) \<and> distinct (map name_key l)"

fun name_map :: "ufsname option list \<Rightarrow> byte list \<Rightarrow> (byte list option \<times> nat option) option" where
  "name_map [] x = None"
| "name_map (p # ps) x =
     (case p of None \<Rightarrow> name_map ps x
      | Some e \<Rightarrow> if nm_prefix e = Some x then Some (nm_rep e, nm_vdisk e) else name_map ps x)"

lemma name_key_entry: "Some f \<in> set l \<Longrightarrow> nm_prefix f = Some x \<Longrightarrow> x \<in> name_key ` set l"
  by (intro image_eqI [where x = "Some f"]) (simp_all add: name_key_def)

lemma named_entry_key: "named_entry p \<Longrightarrow> \<exists>e. p = Some e \<and> nm_prefix e = Some (name_key p)"
  by (auto simp: named_entry_def name_key_def)

lemma name_map_Some:
  assumes "names_ok l"
  shows "name_map l x = Some v \<longleftrightarrow> (\<exists>e. Some e \<in> set l \<and> nm_prefix e = Some x \<and> v = (nm_rep e, nm_vdisk e))"
  using assms
proof (induction l)
  case (Cons p l)
  then have ok: "names_ok l" "named_entry p" "name_key p \<notin> name_key ` set l" by (auto simp: names_ok_def)
  obtain e where e: "p = Some e" "nm_prefix e = Some (name_key p)" using named_entry_key [OF ok(2)] by blast
  have "nm_prefix f \<noteq> nm_prefix e" if "Some f \<in> set l" for f
    using ok(3) name_key_entry [OF that] e(2) by auto
  then show ?case using e Cons.IH [OF ok(1)] by auto
qed simp

lemma name_map_perm:
  assumes "names_ok l" "mset l' = mset l"
  shows "names_ok l'" "name_map l' = name_map l"
proof -
  have "set l' = set l" using assms(2) by (rule mset_eq_setD)
  moreover have "mset (map name_key l') = mset (map name_key l)" using assms(2) by simp
  then have "distinct (map name_key l')"
    using assms(1) mset_eq_imp_distinct_iff names_ok_def by blast
  ultimately show ok: "names_ok l'" using assms(1) by (simp add: names_ok_def)
  show "name_map l' = name_map l"
  proof
    fix x
    have "name_map l' x = Some v \<longleftrightarrow> name_map l x = Some v" for v
      by (simp add: name_map_Some [OF ok] name_map_Some [OF assms(1)] \<open>set l' = set l\<close>)
    then show "name_map l' x = name_map l x" by (metis option.exhaust)
  qed
qed

lemma find_name_ok:
  assumes "\<forall>p\<in>set l. named_entry p"
  shows "(\<exists>i e. find_name l n x = Some (Some (n + i)) \<and> i < length l \<and> l ! i = Some e \<and> nm_prefix e = Some x
      \<and> name_map l x = Some (nm_rep e, nm_vdisk e))
    \<or> find_name l n x = Some None \<and> x \<notin> name_key ` set l \<and> name_map l x = None"
  using assms
proof (induction l arbitrary: n)
  case (Cons p l)
  obtain e where e: "p = Some e" "nm_prefix e = Some (name_key p)"
    using named_entry_key Cons.prems by (metis list.set_intros(1))
  show ?case
  proof (cases "name_key p = x")
    case True
    then show ?thesis using e by (intro disjI1 exI [of _ 0] exI [of _ e]) simp
  next
    case False
    have "(\<exists>i e. find_name l (Suc n) x = Some (Some (Suc n + i)) \<and> i < length l \<and> l ! i = Some e
        \<and> nm_prefix e = Some x \<and> name_map l x = Some (nm_rep e, nm_vdisk e))
      \<or> find_name l (Suc n) x = Some None \<and> x \<notin> name_key ` set l \<and> name_map l x = None"
      using Cons.prems by (intro Cons.IH) simp
    then show ?thesis
    proof (elim disjE exE conjE)
      fix i f assume "find_name l (Suc n) x = Some (Some (Suc n + i))" "i < length l" "l ! i = Some f"
        "nm_prefix f = Some x" "name_map l x = Some (nm_rep f, nm_vdisk f)"
      then show ?thesis using e False by (intro disjI1 exI [of _ "Suc i"] exI [of _ f]) auto
    next
      assume "find_name l (Suc n) x = Some None" "x \<notin> name_key ` set l" "name_map l x = None"
      then show ?thesis using e False by (intro disjI2) auto
    qed
  qed
qed simp

lemma names_ok_update:
  assumes "names_ok l" "i < length l" "named_entry (Some e)" "name_key (Some e) = name_key (l ! i)"
  shows "names_ok (l[i := Some e])"
proof -
  have "map name_key (l[i := Some e]) = map name_key l"
    using assms(2,4) by (simp add: map_update list_update_same_conv)
  then show ?thesis using assms set_update_subset_insert [of l i "Some e"]
    by (auto simp: names_ok_def)
qed

lemma name_map_update:
  assumes "names_ok l" "i < length l" "l ! i = Some f" "nm_prefix f = Some x" "nm_prefix e = Some x"
  shows "name_map (l[i := Some e]) = (name_map l)(x \<mapsto> (nm_rep e, nm_vdisk e))"
  using assms(1-3)
proof (induction l arbitrary: i)
  case (Cons p l)
  show ?case
  proof (cases i)
    case 0
    then show ?thesis using Cons.prems assms(4,5) by (auto simp: fun_eq_iff)
  next
    case (Suc j)
    have ok: "names_ok l" "named_entry p" "name_key p \<notin> name_key ` set l"
      using Cons.prems by (auto simp: names_ok_def)
    have "Some f \<in> set l" using Cons.prems Suc by (metis Suc_less_eq length_Cons nth_Cons_Suc nth_mem)
    then have "name_key p \<noteq> x" using ok(3) name_key_entry assms(4) by blast
    then show ?thesis using Suc Cons named_entry_key [OF ok(2)] ok(1) by (auto simp: fun_eq_iff)
  qed
qed simp

lemma name_map_snoc:
  assumes "x \<notin> name_key ` set l" "\<forall>p\<in>set l. named_entry p" "nm_prefix e = Some x"
  shows "name_map (l @ [Some e]) = (name_map l)(x \<mapsto> (nm_rep e, nm_vdisk e))"
  using assms
proof (induction l)
  case (Cons p l)
  then show ?case using named_entry_key [of p] by (auto simp: fun_eq_iff)
qed (simp add: fun_eq_iff)

lemma names_ok_snoc:
  assumes "names_ok l" "named_entry (Some e)" "name_key (Some e) \<notin> name_key ` set l"
  shows "names_ok (l @ [Some e])"
  using assms by (auto simp: names_ok_def)

section \<open>The operations on the map\<close>

definition ns_live :: "'d os \<Rightarrow> bool" where
  "ns_live os \<longleftrightarrow> (\<forall>d k. lock_held (fst (os_lock os d k))) \<and> (\<forall>d n. fst (os_calloc os d n))"

lemma ns_unlock_names [simp]: "ns_names (ns_unlock os r s) = ns_names s"
  by (simp add: ns_unlock_def)

lemma ns_lock_ok:
  assumes "ns_live os"
  obtains r s' where "ns_lock os s = (r, s')" "lock_held r" "ns_names s' = ns_names s"
proof -
  obtain r d where "os_lock os (ns_outer s) LkSys = (r, d)" by (cases "os_lock os (ns_outer s) LkSys")
  then show ?thesis using assms that unfolding ns_lock_def ns_live_def by (metis (no_types, lifting)
    case_prod_conv fst_conv names.simps(2,6) names.surjective names.update_convs(1))
qed

lemma ns_calloc_ok:
  assumes "ns_live os"
  obtains s' where "ns_calloc os n s = (True, s')" "ns_names s' = ns_names s"
proof -
  obtain ok d where c: "os_calloc os (ns_outer s) n = (ok, d)" by (cases "os_calloc os (ns_outer s) n")
  then have ok using assms unfolding ns_live_def by (metis fst_conv)
  then show ?thesis using c that [of "s\<lparr>ns_outer := d\<rparr>"] by (simp add: ns_calloc_def)
qed

lemma ns_strdup_ok:
  assumes "ns_live os"
  obtains s' where "ns_strdup os (Some x) s = Some (Some (cstr x), s')" "ns_names s' = ns_names s"
  by (rule ns_calloc_ok [OF assms, of "length (cstr x) + 1" s]) (auto simp: ns_strdup_def)

lemma ufs_name_find_ok:
  assumes "ns_live os" "\<forall>p\<in>set (ns_names s). named_entry p" "0 \<notin> set x" "length x < NM_MAXLEN"
  obtains (found) i e s' where "ufs_name_find os (Some x) s = Some (Some i, s')" "ns_names s' = ns_names s"
      "i < length (ns_names s)" "ns_names s ! i = Some e" "nm_prefix e = Some x"
      "name_map (ns_names s) x = Some (nm_rep e, nm_vdisk e)"
    | (absent) s' where "ufs_name_find os (Some x) s = Some (None, s')" "ns_names s' = ns_names s"
      "x \<notin> name_key ` set (ns_names s)" "name_map (ns_names s) x = None"
proof -
  obtain r s1 where l: "ns_lock os s = (r, s1)" "lock_held r" "ns_names s1 = ns_names s"
    by (rule ns_lock_ok [OF assms(1)])
  have e: "ufs_name_find os (Some x) s =
      (do { found \<leftarrow> find_name (ns_names s) 0 x; Some (found, ns_unlock os r s1) })"
    using assms(3,4) l by (simp add: ufs_name_find_def)
  show ?thesis using find_name_ok [OF assms(2), of 0 x] e l(3) found absent by auto
qed

lemma ufs_name_sort_ok:
  assumes "ns_live os"
  obtains s' where "ufs_name_sort os s = (RcOk, s')" "mset (ns_names s') = mset (ns_names s)"
    "names_sorted (ns_names s')"
proof -
  obtain r s1 where l: "ns_lock os s = (r, s1)" "lock_held r" "ns_names s1 = ns_names s"
    by (rule ns_lock_ok [OF assms])
  have "names_sorted (ns_names s)" if "\<not> 1 < length (ns_names s)"
    using that unfolding names_sorted_def by (cases "ns_names s") auto
  then show ?thesis using l that
    by (simp add: ufs_name_sort_def mset_qsort names_sorted_qsort split: if_splits)
qed

text \<open>The second half of \<^verbatim>\<open>ufs_name_mount\<close>: the entry at \<open>n\<close> is filled in and the table sorted.\<close>

definition fill_name :: "'d os \<Rightarrow> int \<Rightarrow> byte list \<Rightarrow> byte list \<Rightarrow> nat option \<Rightarrow> nat \<Rightarrow> 'd names \<Rightarrow> (rc \<times> 'd names) option" where
  "fill_name os lockrc p r v n s =
     do { (x, s) \<leftarrow> ns_strdup os (Some p) s;
          let s = upd_name n (nm_prefix_update (\<lambda>_. x)) s in
          do { (x, s) \<leftarrow> ns_strdup os (Some r) s;
               let s = upd_name n (nm_rep_update (\<lambda>_. x)) s;
                   s = upd_name n (nm_vdisk_update (\<lambda>_. v)) s;
                   (_, s) = ufs_name_sort os s in
               Some (RcOk, ns_unlock os lockrc s) } }"

lemma fill_name_ok:
  assumes "ns_live os" "n < length (ns_names s)" "ns_names s ! n = Some e"
  obtains s' where "fill_name os lockrc p r v n s = Some (RcOk, s')" "names_sorted (ns_names s')"
    "mset (ns_names s') = mset ((ns_names s)[n := Some \<lparr>nm_prefix = Some (cstr p), nm_rep = Some (cstr r), nm_vdisk = v\<rparr>])"
proof -
  obtain s1 where 1: "ns_strdup os (Some p) s = Some (Some (cstr p), s1)" "ns_names s1 = ns_names s"
    by (rule ns_strdup_ok [OF assms(1)])
  let ?s1 = "upd_name n (nm_prefix_update (\<lambda>_. Some (cstr p))) s1"
  obtain s2 where 2: "ns_strdup os (Some r) ?s1 = Some (Some (cstr r), s2)" "ns_names s2 = ns_names ?s1"
    by (rule ns_strdup_ok [OF assms(1)])
  let ?s2 = "upd_name n (nm_vdisk_update (\<lambda>_. v)) (upd_name n (nm_rep_update (\<lambda>_. Some (cstr r))) s2)"
  obtain s3 where 3: "ufs_name_sort os ?s2 = (RcOk, s3)" "mset (ns_names s3) = mset (ns_names ?s2)"
    "names_sorted (ns_names s3)"
    by (rule ufs_name_sort_ok [OF assms(1)])
  have "ns_names ?s2 = (ns_names s)[n := Some \<lparr>nm_prefix = Some (cstr p), nm_rep = Some (cstr r), nm_vdisk = v\<rparr>]"
    using assms(2,3) 1(2) 2(2) by (cases e) (simp add: upd_name_def)
  then show ?thesis using that [of "ns_unlock os lockrc s3"] 1(1) 2(1) 3
    by (simp add: fill_name_def Let_def)
qed

lemma ufs_name_mount_alt:
  assumes "ns_lock os s = (lockrc, s1)" "lock_held lockrc" "ufs_name_find os (Some p) s1 = Some (name, s2)"
  shows "ufs_name_mount os (Some p) (Some r) v s =
    (case name of Some n \<Rightarrow> fill_name os lockrc p r v n s2
     | None \<Rightarrow> let (ok, s) = ns_calloc os 12 s2 in
         if ok then fill_name os lockrc p r v (length (ns_names s))
           (s\<lparr>ns_names := ns_names s @ [Some \<lparr>nm_prefix = None, nm_rep = None, nm_vdisk = None\<rparr>]\<rparr>)
         else Some (RcErr ENOMEM, ns_unlock os lockrc s))"
  using assms by (auto simp: ufs_name_mount_def fill_name_def split: option.splits prod.splits)

lemma name_mount_map:
  assumes "ns_live os" "names_ok (ns_names s)" "0 \<notin> set p" "length p < NM_MAXLEN"
  obtains s' where "ufs_name_mount os (Some p) (Some r) v s = Some (RcOk, s')" "names_ok (ns_names s')"
    "names_sorted (ns_names s')" "name_map (ns_names s') = (name_map (ns_names s))(p \<mapsto> (Some (cstr r), v))"
proof -
  let ?e = "\<lparr>nm_prefix = Some (cstr p), nm_rep = Some (cstr r), nm_vdisk = v\<rparr>"
  have e: "named_entry (Some ?e)" "name_key (Some ?e) = p" "nm_prefix ?e = Some p"
    using assms(3,4) by (simp_all add: named_entry_def name_key_def)
  obtain lockrc s1 where l: "ns_lock os s = (lockrc, s1)" "lock_held lockrc" "ns_names s1 = ns_names s"
    by (rule ns_lock_ok [OF assms(1)])
  note alt = ufs_name_mount_alt [OF l(1,2)]
  have n: "\<forall>p\<in>set (ns_names s1). named_entry p" using assms(2) l(3) by (simp add: names_ok_def)
  show ?thesis
  proof (cases rule: ufs_name_find_ok [OF assms(1) n assms(3,4), case_names found absent])
    case (found i f s2)
    obtain s' where s': "fill_name os lockrc p r v i s2 = Some (RcOk, s')" "names_sorted (ns_names s')"
      "mset (ns_names s') = mset ((ns_names s2)[i := Some ?e])"
      by (rule fill_name_ok [OF assms(1), where n = i and s = s2 and e = f]) (use found in simp_all)
    have names: "ns_names s2 = ns_names s" using found(2) l(3) by simp
    have ok: "names_ok ((ns_names s2)[i := Some ?e])"
      using assms(2) found e names l(3) by (intro names_ok_update) (simp_all add: name_key_def)
    have m: "name_map ((ns_names s2)[i := Some ?e]) = (name_map (ns_names s))(p \<mapsto> (Some (cstr r), v))"
      using name_map_update [OF assms(2), of i f p ?e] found e names l(3) by simp
    show ?thesis using that [of s'] s' name_map_perm [OF ok s'(3)] m alt [OF found(1)] by simp
  next
    case (absent s2)
    obtain s3 where s3: "ns_calloc os 12 s2 = (True, s3)" "ns_names s3 = ns_names s2"
      by (rule ns_calloc_ok [OF assms(1)])
    let ?s = "s3\<lparr>ns_names := ns_names s3 @ [Some \<lparr>nm_prefix = None, nm_rep = None, nm_vdisk = None\<rparr>]\<rparr>"
    obtain s' where s': "fill_name os lockrc p r v (length (ns_names s3)) ?s = Some (RcOk, s')"
      "names_sorted (ns_names s')" "mset (ns_names s') = mset ((ns_names ?s)[length (ns_names s3) := Some ?e])"
      by (rule fill_name_ok [OF assms(1), where n = "length (ns_names s3)" and s = ?s]) simp_all
    have names: "ns_names s3 = ns_names s" using absent(2) s3(2) l(3) by simp
    have l': "(ns_names ?s)[length (ns_names s3) := Some ?e] = ns_names s @ [Some ?e]" by (simp add: names)
    have new: "p \<notin> name_key ` set (ns_names s)" using absent(3) l(3) by simp
    have ok: "names_ok (ns_names s @ [Some ?e])"
      using new e by (intro names_ok_snoc [OF assms(2)]) simp_all
    have m: "name_map (ns_names s @ [Some ?e]) = (name_map (ns_names s))(p \<mapsto> (Some (cstr r), v))"
      using name_map_snoc [OF new _ e(3)] assms(2) by (simp add: names_ok_def)
    show ?thesis using that [of s'] s' name_map_perm [OF ok s'(3) [unfolded l']] m alt [OF absent(1)] s3(1)
      by simp
  qed
qed

text \<open>A name of 256 characters or more is entered each time it is mounted and never found.\<close>

lemma long_name_not_found:
  assumes "length (cstr x) \<ge> NM_MAXLEN"
  shows "ufs_name_find os (Some x) s = Some (None, s)"
  using assms by (simp add: ufs_name_find_def)

lemma long_name_mounts:
  assumes "ns_live os" "length (cstr p) \<ge> NM_MAXLEN"
  obtains s' where "ufs_name_mount os (Some p) (Some r) v s = Some (RcOk, s')"
    "mset (ns_names s') = add_mset (Some \<lparr>nm_prefix = Some (cstr p), nm_rep = Some (cstr r), nm_vdisk = v\<rparr>) (mset (ns_names s))"
proof -
  let ?e = "\<lparr>nm_prefix = Some (cstr p), nm_rep = Some (cstr r), nm_vdisk = v\<rparr>"
  obtain lockrc s1 where l: "ns_lock os s = (lockrc, s1)" "lock_held lockrc" "ns_names s1 = ns_names s"
    by (rule ns_lock_ok [OF assms(1)])
  obtain s3 where s3: "ns_calloc os 12 s1 = (True, s3)" "ns_names s3 = ns_names s1"
    by (rule ns_calloc_ok [OF assms(1)])
  let ?s = "s3\<lparr>ns_names := ns_names s3 @ [Some \<lparr>nm_prefix = None, nm_rep = None, nm_vdisk = None\<rparr>]\<rparr>"
  obtain s' where s': "fill_name os lockrc p r v (length (ns_names s3)) ?s = Some (RcOk, s')"
    "mset (ns_names s') = mset ((ns_names ?s)[length (ns_names s3) := Some ?e])"
    by (rule fill_name_ok [OF assms(1), where n = "length (ns_names s3)" and s = ?s]) simp_all
  then show ?thesis using that [of s'] ufs_name_mount_alt [OF l(1,2) long_name_not_found [OF assms(2)]] s3 l(3)
    by simp
qed

end
