(* ===== verification/Devices.thy ===== *)
theory Devices
  imports Names Files
begin

text \<open>
  Device handles (\<^verbatim>\<open>include/ufs/dev.h\<close>, \<^verbatim>\<open>src/ufsdv*.c\<close>, \<^verbatim>\<open>src/ufsnmini.c\<close>):
  a forest of devices, each with a vector of optional driver routines. The drivers are a parameter.
  Lemmas: the search for a name ends on a forest and visits every device.
\<close>

section \<open>State\<close>

text \<open>\<open>'h\<close> are the addresses of driver routines.\<close>

record 'h devio =
  io_init :: "'h option"
  io_open :: "'h option"
  io_close :: "'h option"
  io_read :: "'h option"
  io_write :: "'h option"
  io_seek :: "'h option"
  io_getc :: "'h option"
  io_putc :: "'h option"
  io_cntl :: "'h option"
  io_term :: "'h option"

definition UFSDEV_MAX_NAME :: nat where "UFSDEV_MAX_NAME = 15"

text \<open>
  \<open>dv_name\<close> is the array of 16 characters. The contexts are addresses. \<open>dv_children\<close> is empty where
  the pointer to the array is null.
\<close>

record 'h dev =
  dv_num :: u32
  dv_minor :: u32
  dv_name :: "byte list"
  dv_parent :: "nat option"
  dv_ctx1 :: "nat option"
  dv_ctx2 :: "nat option"
  dv_children :: "nat option list"
  dv_io :: "'h devio"

text \<open>The part of \<^verbatim>\<open>UFSSYS\<close> used here, with the storage of the devices and the next free address.\<close>

record ('h, 'd) devsys =
  ds_outer :: 'd
  ds_devs :: "nat option list"
  ds_dev :: "nat \<Rightarrow> 'h dev option"
  ds_next_dvnum :: u32
  ds_next :: nat

text \<open>
  What a routine is asked for: the arguments after the device. The routine delivers a return code,
  the content it leaves in the buffer of a read or write, and the state.
\<close>

datatype devreq = RqInit | RqOpen "byte list" "byte list" | RqClose | RqRead "byte list" u32
  | RqWrite "byte list" u32 | RqSeek u32 | RqGetc | RqPutc u32 | RqCntl u32 u32 u32 | RqTerm

type_synonym ('h, 'd) driver = "'h \<Rightarrow> nat \<Rightarrow> devreq \<Rightarrow> ('h, 'd) devsys \<Rightarrow> (rc \<times> byte list \<times> ('h, 'd) devsys) option"

definition ds_lock :: "'d os \<Rightarrow> ('h, 'd) devsys \<Rightarrow> int \<times> ('h, 'd) devsys" where
  "ds_lock os S = (let (r, d) = os_lock os (ds_outer S) LkDevs in (r, S\<lparr>ds_outer := d\<rparr>))"

definition ds_unlock :: "'d os \<Rightarrow> int \<Rightarrow> ('h, 'd) devsys \<Rightarrow> ('h, 'd) devsys" where
  "ds_unlock os lockrc S = (if lockrc = 0 then S\<lparr>ds_outer := os_unlock os (ds_outer S) LkDevs\<rparr> else S)"

definition ds_calloc :: "'d os \<Rightarrow> nat \<Rightarrow> ('h, 'd) devsys \<Rightarrow> bool \<times> ('h, 'd) devsys" where
  "ds_calloc os n S = (let (ok, d) = os_calloc os (ds_outer S) n in (ok, S\<lparr>ds_outer := d\<rparr>))"

section \<open>The routines of a device\<close>

text \<open>A call where the routine has no buffer to leave anything in.\<close>

definition dev_call ::
  "('h, 'd) driver \<Rightarrow> 'h option \<Rightarrow> rc \<Rightarrow> nat \<Rightarrow> devreq \<Rightarrow> ('h, 'd) devsys \<Rightarrow> (rc \<times> ('h, 'd) devsys) option" where
  "dev_call call h none p rq S =
     (case h of None \<Rightarrow> Some (none, S) | Some h \<Rightarrow> map_option (\<lambda>(r, _, S). (r, S)) (call h p rq S))"

definition ufs_dev_init :: "('h, 'd) driver \<Rightarrow> nat \<Rightarrow> ('h, 'd) devsys \<Rightarrow> (rc \<times> ('h, 'd) devsys) option" where
  "ufs_dev_init call p S = do { d \<leftarrow> ds_dev S p; dev_call call (io_init (dv_io d)) RcOk p RqInit S }"

definition ufs_dev_term :: "('h, 'd) driver \<Rightarrow> nat \<Rightarrow> ('h, 'd) devsys \<Rightarrow> (rc \<times> ('h, 'd) devsys) option" where
  "ufs_dev_term call p S = do { d \<leftarrow> ds_dev S p; dev_call call (io_term (dv_io d)) RcOk p RqTerm S }"

definition ufs_dev_open ::
  "('h, 'd) driver \<Rightarrow> nat \<Rightarrow> byte list \<Rightarrow> byte list \<Rightarrow> ('h, 'd) devsys \<Rightarrow> (rc \<times> ('h, 'd) devsys) option" where
  "ufs_dev_open call p filename mode S =
     do { d \<leftarrow> ds_dev S p; dev_call call (io_open (dv_io d)) (RcErr EPERM) p (RqOpen filename mode) S }"

definition ufs_dev_close :: "('h, 'd) driver \<Rightarrow> nat \<Rightarrow> ('h, 'd) devsys \<Rightarrow> (rc \<times> ('h, 'd) devsys) option" where
  "ufs_dev_close call p S = do { d \<leftarrow> ds_dev S p; dev_call call (io_close (dv_io d)) (RcErr EPERM) p RqClose S }"

definition ufs_dev_read ::
  "('h, 'd) driver \<Rightarrow> nat \<Rightarrow> byte list \<Rightarrow> u32 \<Rightarrow> ('h, 'd) devsys \<Rightarrow> (rc \<times> byte list \<times> ('h, 'd) devsys) option" where
  "ufs_dev_read call p buf sz S =
     do { d \<leftarrow> ds_dev S p;
          case io_read (dv_io d) of None \<Rightarrow> Some (RcErr EPERM, buf, S) | Some h \<Rightarrow> call h p (RqRead buf sz) S }"

definition ufs_dev_write ::
  "('h, 'd) driver \<Rightarrow> nat \<Rightarrow> byte list \<Rightarrow> u32 \<Rightarrow> ('h, 'd) devsys \<Rightarrow> (rc \<times> byte list \<times> ('h, 'd) devsys) option" where
  "ufs_dev_write call p buf sz S =
     do { d \<leftarrow> ds_dev S p;
          case io_write (dv_io d) of None \<Rightarrow> Some (RcErr EPERM, buf, S) | Some h \<Rightarrow> call h p (RqWrite buf sz) S }"

definition ufs_dev_seek :: "('h, 'd) driver \<Rightarrow> nat \<Rightarrow> u32 \<Rightarrow> ('h, 'd) devsys \<Rightarrow> (rc \<times> ('h, 'd) devsys) option" where
  "ufs_dev_seek call p whence S =
     do { d \<leftarrow> ds_dev S p; dev_call call (io_seek (dv_io d)) (RcErr EPERM) p (RqSeek whence) S }"

definition ufs_dev_getc :: "('h, 'd) driver \<Rightarrow> nat \<Rightarrow> ('h, 'd) devsys \<Rightarrow> (rc \<times> ('h, 'd) devsys) option" where
  "ufs_dev_getc call p S = do { d \<leftarrow> ds_dev S p; dev_call call (io_getc (dv_io d)) (RcNum (- 1)) p RqGetc S }"

definition ufs_dev_putc :: "('h, 'd) driver \<Rightarrow> nat \<Rightarrow> u32 \<Rightarrow> ('h, 'd) devsys \<Rightarrow> (rc \<times> ('h, 'd) devsys) option" where
  "ufs_dev_putc call p c S =
     do { d \<leftarrow> ds_dev S p; dev_call call (io_putc (dv_io d)) (RcErr EPERM) p (RqPutc c) S }"

definition ufs_dev_cntl ::
  "('h, 'd) driver \<Rightarrow> nat \<Rightarrow> u32 \<Rightarrow> u32 \<Rightarrow> u32 \<Rightarrow> ('h, 'd) devsys \<Rightarrow> (rc \<times> ('h, 'd) devsys) option" where
  "ufs_dev_cntl call p a b c S =
     do { d \<leftarrow> ds_dev S p; dev_call call (io_cntl (dv_io d)) (RcErr EPERM) p (RqCntl a b c) S }"

definition ufs_dev_null :: "nat \<Rightarrow> rc" where "ufs_dev_null p = RcOk"

definition ufs_dev_ioerr :: "nat \<Rightarrow> rc" where "ufs_dev_ioerr p = RcErr EIO"

section \<open>Finding a device by its name\<close>

text \<open>
  \<^verbatim>\<open>strcmp\<close> runs beyond a name that fills its array. The search descends through pointers,
  which nothing in the code keeps from being cyclic: it is a partial function.
\<close>

definition dev_name :: "'h dev \<Rightarrow> byte list option" where
  "dev_name d = (if 0 \<in> set (dv_name d) then Some (cstr (dv_name d)) else None)"

partial_function (option) dev_find :: "('h, 'd) devsys \<Rightarrow> byte list \<Rightarrow> nat option list \<Rightarrow> nat option option" where
  "dev_find S name devs =
     (case devs of [] \<Rightarrow> Some None
      | None # ds \<Rightarrow> dev_find S name ds
      | Some p # ds \<Rightarrow>
          do { d \<leftarrow> ds_dev S p;
               x \<leftarrow> dev_name d;
               if x = cstr name then Some (Some p) else
               do { r \<leftarrow> dev_find S name (dv_children d);
                    case r of Some q \<Rightarrow> Some (Some q) | None \<Rightarrow> dev_find S name ds } })"

definition ufs_dev_find :: "'d os \<Rightarrow> byte list \<Rightarrow> ('h, 'd) devsys \<Rightarrow> (nat option \<times> ('h, 'd) devsys) option" where
  "ufs_dev_find os name S =
     (let (lockrc, S) = ds_lock os S in
      if \<not> lock_held lockrc then Some (None, S) else
      do { dev \<leftarrow> dev_find S name (ds_devs S); Some (dev, ds_unlock os lockrc S) })"

section \<open>Freeing a device\<close>

text \<open>
  \<^verbatim>\<open>ufs_dev_free\<close> for each child from \<open>n\<close> on: it is asked to terminate, its children are
  freed, its storage is released and the pointer to it cleared. The count is taken once.
\<close>

definition upd_dev :: "nat \<Rightarrow> ('h dev \<Rightarrow> 'h dev) \<Rightarrow> ('h, 'd) devsys \<Rightarrow> ('h, 'd) devsys option" where
  "upd_dev p f S = map_option (\<lambda>d. S\<lparr>ds_dev := (ds_dev S)(p \<mapsto> f d)\<rparr>) (ds_dev S p)"

partial_function (option) free_children ::
  "('h, 'd) driver \<Rightarrow> nat \<Rightarrow> nat \<Rightarrow> nat \<Rightarrow> ('h, 'd) devsys \<Rightarrow> ('h, 'd) devsys option" where
  "free_children call p n cnt S =
     (if n \<ge> cnt then upd_dev p (dv_children_update (\<lambda>_. [])) S else
      do { d \<leftarrow> ds_dev S p;
           c \<leftarrow> nth_opt (dv_children d) n;
           S \<leftarrow> (case c of None \<Rightarrow> Some S
                | Some c \<Rightarrow>
                    do { (_, S) \<leftarrow> ufs_dev_term call c S;
                         e \<leftarrow> ds_dev S c;
                         S \<leftarrow> (if dv_children e = [] then Some S else free_children call c 0 (length (dv_children e)) S);
                         upd_dev p (dv_children_update (\<lambda>l. l[n := None])) (S\<lparr>ds_dev := (ds_dev S)(c := None)\<rparr>) });
           free_children call p (Suc n) cnt S })"

definition ufs_dev_free :: "('h, 'd) driver \<Rightarrow> nat \<Rightarrow> ('h, 'd) devsys \<Rightarrow> ('h, 'd) devsys option" where
  "ufs_dev_free call p S =
     do { (_, S) \<leftarrow> ufs_dev_term call p S;
          d \<leftarrow> ds_dev S p;
          S \<leftarrow> (if dv_children d = [] then Some S else free_children call p 0 (length (dv_children d)) S);
          Some (S\<lparr>ds_dev := (ds_dev S)(p := None)\<rparr>) }"

section \<open>Making a device\<close>

text \<open>\<^verbatim>\<open>"dev%04u"\<close>, which has at most 13 characters.\<close>

fun udec :: "nat \<Rightarrow> byte list" where
  "udec n = (if n < 10 then [digit n] else udec (n div 10) @ [digit (n mod 10)])"

declare udec.simps [simp del]

definition dev_default_name :: "u32 \<Rightarrow> byte list" where
  "dev_default_name num =
     (let ds = udec (unat num) in str ''dev'' @ replicate (4 - length ds) (ch CHR ''0'') @ ds)"

text \<open>
  The handle is known before its storage is asked for: \<open>ds_next\<close>. The numbers of devices come from
  a counter that is advanced for every device.
\<close>

definition ufs_dev_new ::
  "'d os \<Rightarrow> clib \<Rightarrow> ('h, 'd) driver \<Rightarrow> u32 \<Rightarrow> u32 \<Rightarrow> byte list option \<Rightarrow> nat option \<Rightarrow> nat option \<Rightarrow> nat option
    \<Rightarrow> 'h devio option \<Rightarrow> ('h, 'd) devsys \<Rightarrow> (nat option \<times> ('h, 'd) devsys) option" where
  "ufs_dev_new os lib call num minor name parent ctx1 ctx2 devio S =
     (let (lockrc, S) = ds_lock os S in
      if \<not> lock_held lockrc then Some (None, S) else
      let (ok, S) = ds_calloc os 88 S in
      if \<not> ok then Some (None, ds_unlock os lockrc S) else
      let nx = ds_next_dvnum S + 1;
          num = (if num = 0 then nx else num);
          name = (case name of None \<Rightarrow> dev_default_name num | Some x \<Rightarrow> x);
          p = ds_next S;
          d = \<lparr> dv_num = num, dv_minor = minor, dv_name = cl_strcpyp lib (UFSDEV_MAX_NAME + 1) name 0,
                dv_parent = parent, dv_ctx1 = ctx1, dv_ctx2 = ctx2, dv_children = [],
                dv_io = (case devio of Some io \<Rightarrow> io
                  | None \<Rightarrow> \<lparr> io_init = None, io_open = None, io_close = None, io_read = None, io_write = None,
                      io_seek = None, io_getc = None, io_putc = None, io_cntl = None, io_term = None \<rparr>) \<rparr>;
          S = S\<lparr>ds_next_dvnum := nx, ds_next := Suc p, ds_dev := (ds_dev S)(p \<mapsto> d)\<rparr> in
      do { (r, S) \<leftarrow> ufs_dev_init call p S;
           if r \<noteq> RcOk then do { S \<leftarrow> ufs_dev_free call p S; Some (None, ds_unlock os lockrc S) }
           else
           do { S \<leftarrow> (case parent of
                       Some q \<Rightarrow> upd_dev q (dv_children_update (\<lambda>l. l @ [Some p])) S
                     | None \<Rightarrow> Some (S\<lparr>ds_devs := ds_devs S @ [Some p]\<rparr>));
                Some (Some p, ds_unlock os lockrc S) } })"

section \<open>The device of the table of names\<close>

text \<open>
  \<^verbatim>\<open>ufs_name_init\<close>: the loop over the devices puts a path together and drops it, since the
  call that would mount it is compiled out. The lock is that of the system.
\<close>

definition NM_NAME :: "byte list" where "NM_NAME = str ''namespace''"

definition ufs_name_init :: "'d os \<Rightarrow> nat \<Rightarrow> ('h, 'd) devsys \<Rightarrow> (rc \<times> ('h, 'd) devsys) option" where
  "ufs_name_init os p S =
     do { S \<leftarrow> upd_dev p (\<lambda>d. d\<lparr>dv_name := blit 0 (NM_NAME @ [0]) (dv_name d)\<rparr>) S;
          d \<leftarrow> ds_dev S p;
          let (ok, S) =
            (if dv_ctx1 d \<noteq> None then (True, S) else
             let (ok, S) = ds_calloc os 20 S in
             (ok, if ok then S\<lparr>ds_dev := (ds_dev S)(p \<mapsto> d\<lparr>dv_ctx1 := Some (ds_next S)\<rparr>), ds_next := Suc (ds_next S)\<rparr>
                  else S)) in
          if \<not> ok then Some (RcErr ENOMEM, S) else
          let (lockrc, o1) = os_lock os (ds_outer S) LkSys; S = S\<lparr>ds_outer := o1\<rparr> in
          if \<not> lock_held lockrc then Some (RcErr EPERM, S) else
          if \<not> list_all (\<lambda>x. case x of None \<Rightarrow> True | Some q \<Rightarrow> ds_dev S q \<noteq> None) (ds_devs S) then None else
          Some (RcOk, if lockrc = 0 then S\<lparr>ds_outer := os_unlock os (ds_outer S) LkSys\<rparr> else S) }"

section \<open>The search visits the forest\<close>

text \<open>The devices that hang from a list of pointers.\<close>

inductive hangs :: "('h, 'd) devsys \<Rightarrow> nat option list \<Rightarrow> nat \<Rightarrow> bool" for S where
  here: "Some p \<in> set ps \<Longrightarrow> hangs S ps p"
| child: "hangs S ps p \<Longrightarrow> ds_dev S p = Some d \<Longrightarrow> Some c \<in> set (dv_children d) \<Longrightarrow> hangs S ps c"

text \<open>
  A child is made after its parent, so that its address is the larger one; all pointers are to
  devices, and every name ends inside its array.
\<close>

definition devs_ok :: "('h, 'd) devsys \<Rightarrow> bool" where
  "devs_ok S \<longleftrightarrow> (\<forall>p. Some p \<in> set (ds_devs S) \<longrightarrow> ds_dev S p \<noteq> None)
     \<and> (\<forall>p d. ds_dev S p = Some d \<longrightarrow> p < ds_next S \<and> 0 \<in> set (dv_name d)
          \<and> (\<forall>c. Some c \<in> set (dv_children d) \<longrightarrow> p < c \<and> ds_dev S c \<noteq> None))"

definition is_named :: "('h, 'd) devsys \<Rightarrow> nat \<Rightarrow> byte list \<Rightarrow> bool" where
  "is_named S p name \<longleftrightarrow> (\<exists>d. ds_dev S p = Some d \<and> dev_name d = Some (cstr name))"

definition found_in :: "('h, 'd) devsys \<Rightarrow> byte list \<Rightarrow> nat option list \<Rightarrow> nat option \<Rightarrow> bool" where
  "found_in S name ps r \<longleftrightarrow> (case r of None \<Rightarrow> \<forall>p. hangs S ps p \<longrightarrow> \<not> is_named S p name
     | Some p \<Rightarrow> hangs S ps p \<and> is_named S p name)"

lemma hangs_mono: "hangs S ps p \<Longrightarrow> set ps \<subseteq> set qs \<Longrightarrow> hangs S qs p"
  by (induction rule: hangs.induct) (auto intro: hangs.intros)

lemma hangs_below:
  assumes "hangs S (dv_children d) c" "ds_dev S p = Some d" "Some p \<in> set ps"
  shows "hangs S ps c"
  using assms(1) by (induction "dv_children d" c rule: hangs.induct) (use assms(2,3) in \<open>auto intro: hangs.intros\<close>)

lemma hangs_Nil: "\<not> hangs S [] p"
proof
  assume "hangs S [] p" then show False by (induction "[] :: nat option list" p rule: hangs.induct) auto
qed

lemma hangs_Cons:
  assumes "hangs S (x # ps) p"
  shows "x = Some p \<or> hangs S ps p \<or> (\<exists>q d. x = Some q \<and> ds_dev S q = Some d \<and> hangs S (dv_children d) p)"
  using assms by (induction "x # ps" p rule: hangs.induct) (auto intro: hangs.intros)

lemma dev_find_visits:
  assumes "devs_ok S" "\<forall>p. Some p \<in> set ps \<longrightarrow> ds_dev S p \<noteq> None \<and> b \<le> p"
  shows "\<exists>r. dev_find S name ps = Some r \<and> found_in S name ps r"
  using assms(2)
proof (induction "ds_next S - b" arbitrary: b ps rule: less_induct)
  case less
  note deeper = less.hyps
  from less.prems show ?case
  proof (induction ps)
    case Nil
    show ?case by (simp add: dev_find.simps found_in_def hangs_Nil)
  next
    case (Cons x ps)
    obtain r where r: "dev_find S name ps = Some r" "found_in S name ps r" using Cons by auto
    show ?case
    proof (cases x)
      case None
      have "hangs S (x # ps) p \<longleftrightarrow> hangs S ps p" for p
        using hangs_Cons [of S x ps p] None by (auto intro: hangs_mono)
      then have "found_in S name (x # ps) r" using r(2) by (simp add: found_in_def split: option.splits)
      then show ?thesis using r(1) None by (simp add: dev_find.simps [of S name "None # ps"])
    next
      case (Some p)
      obtain d where d: "ds_dev S p = Some d" "b \<le> p" using Cons.prems Some by auto
      then have p: "p < ds_next S" "0 \<in> set (dv_name d)"
        "\<forall>c. Some c \<in> set (dv_children d) \<longrightarrow> ds_dev S c \<noteq> None \<and> Suc p \<le> c"
        using assms(1) by (auto simp: devs_ok_def Suc_le_eq)
      have n: "dev_name d = Some (cstr (dv_name d))" using p(2) by (simp add: dev_name_def)
      obtain q where q: "dev_find S name (dv_children d) = Some q" "found_in S name (dv_children d) q"
        using deeper [OF diff_less_mono2 p(3)] d(2) p(1) by (metis le_imp_less_Suc le_less_trans)
      have h: "hangs S (x # ps) c \<longleftrightarrow> c = p \<or> hangs S ps c \<or> hangs S (dv_children d) c" for c
        using hangs_Cons [of S x ps c] hangs_below [of S d c p "x # ps"] Some d
        by (auto intro: hangs.here hangs_mono)
      show ?thesis
      proof (cases "cstr (dv_name d) = cstr name")
        case True
        then show ?thesis using Some d n h by (simp add: dev_find.simps [of S name "Some p # ps"] found_in_def is_named_def)
      next
        case False
        then have "\<not> is_named S p name" using d n by (simp add: is_named_def)
        then show ?thesis using False Some d n h q r
          by (cases q) (auto simp: dev_find.simps [of S name "Some p # ps"] found_in_def split: option.splits)
      qed
    qed
  qed
qed

lemma ufs_dev_find_ok:
  assumes "devs_ok S" "\<And>d k. lock_held (fst (os_lock os d k))"
  obtains r d where "ufs_dev_find os name S = Some (r, S\<lparr>ds_outer := d\<rparr>)" "found_in S name (ds_devs S) r"
proof -
  obtain l e where l: "os_lock os (ds_outer S) LkDevs = (l, e)" by (cases "os_lock os (ds_outer S) LkDevs")
  then have h: "lock_held l" using assms(2) by (metis fst_conv)
  have "devs_ok (S\<lparr>ds_outer := e\<rparr>)" using assms(1) by (simp add: devs_ok_def)
  then obtain r where r: "dev_find (S\<lparr>ds_outer := e\<rparr>) name (ds_devs S) = Some r"
    "found_in (S\<lparr>ds_outer := e\<rparr>) name (ds_devs S) r"
    using dev_find_visits [of "S\<lparr>ds_outer := e\<rparr>" "ds_devs S" 0 name] by (auto simp: devs_ok_def)
  have "hangs (S\<lparr>ds_outer := e\<rparr>) ps p = hangs S ps p" for ps p
  proof
    show "hangs (S\<lparr>ds_outer := e\<rparr>) ps p \<Longrightarrow> hangs S ps p"
      by (induction rule: hangs.induct) (auto intro: hangs.intros)
    show "hangs S ps p \<Longrightarrow> hangs (S\<lparr>ds_outer := e\<rparr>) ps p"
      by (induction rule: hangs.induct) (auto intro: hangs.intros)
  qed
  then have f: "found_in S name (ds_devs S) r"
    using r(2) by (auto simp: found_in_def is_named_def split: option.splits)
  show ?thesis using that [of r "ds_outer (ds_unlock os l (S\<lparr>ds_outer := e\<rparr>))"] l h r(1) f
    by (simp add: ufs_dev_find_def ds_lock_def ds_unlock_def)
qed

section \<open>A device is made where the search finds it\<close>

lemma devs_ok_dev: "devs_ok S \<Longrightarrow> ds_dev S p = Some d \<Longrightarrow> p < ds_next S"
  by (simp add: devs_ok_def)

text \<open>The state after a device \<open>d\<close> without initialisation has been entered.\<close>

definition entered :: "nat option \<Rightarrow> 'h dev \<Rightarrow> ('h, 'd) devsys \<Rightarrow> ('h, 'd) devsys \<Rightarrow> bool" where
  "entered parent d S S' \<longleftrightarrow> ds_next S' = Suc (ds_next S) \<and>
     (case parent of
        None \<Rightarrow> ds_devs S' = ds_devs S @ [Some (ds_next S)] \<and> ds_dev S' = (ds_dev S)(ds_next S \<mapsto> d)
      | Some q \<Rightarrow> ds_devs S' = ds_devs S \<and> (\<exists>e. ds_dev S q = Some e \<and>
          ds_dev S' = (ds_dev S)(ds_next S \<mapsto> d, q \<mapsto> e\<lparr>dv_children := dv_children e @ [Some (ds_next S)]\<rparr>)))"

lemma entered_ok:
  assumes "devs_ok S" "entered parent d S S'" "0 \<in> set (dv_name d)" "dv_children d = []"
  shows "devs_ok S'"
proof (cases parent)
  case None
  then show ?thesis using assms devs_ok_dev [OF assms(1)] unfolding devs_ok_def entered_def
    by (auto split: if_splits) (metis less_SucI)+
next
  case (Some q)
  then obtain e where e: "ds_dev S q = Some e" "ds_devs S' = ds_devs S" "ds_next S' = Suc (ds_next S)"
    "ds_dev S' = (ds_dev S)(ds_next S \<mapsto> d, q \<mapsto> e\<lparr>dv_children := dv_children e @ [Some (ds_next S)]\<rparr>)"
    using assms(2) by (auto simp: entered_def)
  show ?thesis using assms(1,3,4) e devs_ok_dev [OF assms(1) e(1)] unfolding devs_ok_def
    by (auto split: if_splits) (metis less_SucI)+
qed

lemma ufs_dev_new_ok:
  assumes "devs_ok S" "\<And>d k. lock_held (fst (os_lock os d k))" "\<And>d n. fst (os_calloc os d n)"
    and "case devio of None \<Rightarrow> True | Some io \<Rightarrow> io_init io = None"
    and "case parent of None \<Rightarrow> True | Some q \<Rightarrow> ds_dev S q \<noteq> None"
    and "cl_strcpyp lib (UFSDEV_MAX_NAME + 1) name 0 = name @ replicate (16 - length name) 0"
      "length name \<le> UFSDEV_MAX_NAME"
  obtains S' d where "ufs_dev_new os lib call num minor (Some name) parent ctx1 ctx2 devio S = Some (Some (ds_next S), S')"
    "entered parent d S S'" "devs_ok S'" "dev_name d = Some (cstr name)"
proof -
  obtain l o1 where l: "os_lock os (ds_outer S) LkDevs = (l, o1)" by (cases "os_lock os (ds_outer S) LkDevs")
  obtain ok o2 where c: "os_calloc os o1 88 = (ok, o2)" by (cases "os_calloc os o1 88")
  have h: "lock_held l" "ok" using l c assms(2) [of "ds_outer S" LkDevs] assms(3) [of o1 88] by simp_all
  let ?nx = "ds_next_dvnum S + 1"
  let ?d = "\<lparr> dv_num = if num = 0 then ?nx else num, dv_minor = minor,
    dv_name = name @ replicate (16 - length name) 0, dv_parent = parent, dv_ctx1 = ctx1, dv_ctx2 = ctx2, dv_children = [],
    dv_io = (case devio of Some io \<Rightarrow> io | None \<Rightarrow> \<lparr> io_init = None, io_open = None, io_close = None, io_read = None,
      io_write = None, io_seek = None, io_getc = None, io_putc = None, io_cntl = None, io_term = None \<rparr>) \<rparr>"
  let ?S = "S\<lparr>ds_outer := o2, ds_next_dvnum := ?nx, ds_next := Suc (ds_next S), ds_dev := (ds_dev S)(ds_next S \<mapsto> ?d)\<rparr>"
  have z: "0 \<in> set (dv_name ?d)" using assms(7) by (simp add: UFSDEV_MAX_NAME_def)
  have n: "dev_name ?d = Some (cstr name)" using z by (simp add: dev_name_def)
  have i: "ufs_dev_init call (ds_next S) ?S = Some (RcOk, ?S)"
    using assms(4) by (simp add: ufs_dev_init_def dev_call_def split: option.splits)
  have st: "S\<lparr>ds_outer := o1, ds_outer := o2\<rparr> = S\<lparr>ds_outer := o2\<rparr>" by simp
  have new: "ufs_dev_new os lib call num minor (Some name) parent ctx1 ctx2 devio S =
    (do { T \<leftarrow> (case parent of Some q \<Rightarrow> upd_dev q (dv_children_update (\<lambda>l. l @ [Some (ds_next S)])) ?S
             | None \<Rightarrow> Some (?S\<lparr>ds_devs := ds_devs ?S @ [Some (ds_next S)]\<rparr>));
          Some (Some (ds_next S), ds_unlock os l T) })"
    using i h assms(6) 
    by (cases parent) (simp_all add: ufs_dev_new_def ds_lock_def ds_calloc_def l c Let_def cong: if_cong split del: if_split)
  show ?thesis
  proof (cases parent)
    case None
    have e: "entered parent ?d S (ds_unlock os l (?S\<lparr>ds_devs := ds_devs ?S @ [Some (ds_next S)]\<rparr>))"
      using None by (simp add: entered_def ds_unlock_def)
    show ?thesis by (rule that [OF _ e entered_ok [OF assms(1) e z] n]) (simp_all add: new [unfolded None] None split del: if_split)
  next
    case (Some q)
    then obtain x where x: "ds_dev S q = Some x" "q < ds_next S" using assms(5) devs_ok_dev [OF assms(1)] by auto
    have e: "entered parent ?d S (ds_unlock os l (?S\<lparr>ds_dev := (ds_dev ?S)(q \<mapsto> x\<lparr>dv_children := dv_children x @ [Some (ds_next S)]\<rparr>)\<rparr>))"
      using Some x by (simp add: entered_def ds_unlock_def)
    show ?thesis by (rule that [OF _ e entered_ok [OF assms(1) e z] n]) (use x in \<open>(cases x, simp_all add: new [unfolded Some] Some upd_dev_def split del: if_split)\<close>)
  qed
qed

end
