(* ===== verification/Devtab.thy ===== *)
theory Devtab
  imports Ufs_Prelude
begin

text \<open>
  The device switch kept from XINU (\<^verbatim>\<open>include/conf.h\<close>, \<^verbatim>\<open>include/device.h\<close>,
  \<^verbatim>\<open>src/devtab.c\<close>, \<^verbatim>\<open>src/x*.c\<close>): a table of 11 devices with their driver
  routines, and the calls that pick the routine by the number of the device. The drivers themselves are
  not in the repository.
\<close>

definition OK :: int where "OK = 1"

definition SYSERR :: int where "SYSERR = - 1"

definition NDEVS :: int where "NDEVS = 11"

text \<open>The routines the table names.\<close>

datatype driver_fun = ioerr | ionull | lfsInit | lfsOpen | lflInit | lflClose | lflRead | lflWrite | lflSeek
  | lflGetc | lflPutc | lflControl | ramInit | ramOpen | ramClose | ramRead | ramWrite | namInit | namOpen
  | dflInit | dflClose | dflRead | dflWrite | dflSeek | dflControl

record dentry =
  dvnum :: int
  dvminor :: int
  dvname :: string
  dvinit :: driver_fun
  dvopen :: driver_fun
  dvclose :: driver_fun
  dvread :: driver_fun
  dvwrite :: driver_fun
  dvseek :: driver_fun
  dvgetc :: driver_fun
  dvputc :: driver_fun
  dvcntl :: driver_fun
  dvcsr :: nat
  dvintr :: driver_fun
  dvirq :: byte

text \<open>The six local file systems differ in number and name.\<close>

definition lfs_entry :: "int \<Rightarrow> string \<Rightarrow> dentry" where
  "lfs_entry n name = \<lparr> dvnum = n, dvminor = 0, dvname = name,
     dvinit = lfsInit, dvopen = lfsOpen, dvclose = ioerr, dvread = ioerr, dvwrite = ioerr, dvseek = ioerr,
     dvgetc = ioerr, dvputc = ioerr, dvcntl = ioerr, dvcsr = 0, dvintr = ionull, dvirq = 0 \<rparr>"

definition devtab :: "dentry list" where
  "devtab =
    [lfs_entry 0 ''LFILESYS'', lfs_entry 1 ''LFILESYS1'', lfs_entry 2 ''LFILESYS2'', lfs_entry 3 ''LFILESYS3'',
     lfs_entry 4 ''LFILESYS4'', lfs_entry 5 ''LFILESYS5'',
     \<lparr> dvnum = 6, dvminor = 0, dvname = ''LFILE'',
       dvinit = lflInit, dvopen = ioerr, dvclose = lflClose, dvread = lflRead, dvwrite = lflWrite, dvseek = lflSeek,
       dvgetc = lflGetc, dvputc = lflPutc, dvcntl = lflControl, dvcsr = 0, dvintr = ionull, dvirq = 0 \<rparr>,
     \<lparr> dvnum = 7, dvminor = 0, dvname = ''TESTDISK'',
       dvinit = ramInit, dvopen = ramOpen, dvclose = ramClose, dvread = ramRead, dvwrite = ramWrite, dvseek = ioerr,
       dvgetc = ioerr, dvputc = ioerr, dvcntl = ioerr, dvcsr = 0, dvintr = ionull, dvirq = 0 \<rparr>,
     \<lparr> dvnum = 8, dvminor = 0, dvname = ''NAMESPACE'',
       dvinit = namInit, dvopen = namOpen, dvclose = ioerr, dvread = ioerr, dvwrite = ioerr, dvseek = ioerr,
       dvgetc = ioerr, dvputc = ioerr, dvcntl = ioerr, dvcsr = 0, dvintr = ioerr, dvirq = 0 \<rparr>,
     \<lparr> dvnum = 9, dvminor = 0, dvname = ''NULLDEV'',
       dvinit = ionull, dvopen = ionull, dvclose = ionull, dvread = ionull, dvwrite = ionull, dvseek = ioerr,
       dvgetc = ionull, dvputc = ionull, dvcntl = ioerr, dvcsr = 0, dvintr = ioerr, dvirq = 0 \<rparr>,
     \<lparr> dvnum = 10, dvminor = 0, dvname = ''LDIR'',
       dvinit = dflInit, dvopen = ioerr, dvclose = dflClose, dvread = dflRead, dvwrite = dflWrite, dvseek = dflSeek,
       dvgetc = ioerr, dvputc = ioerr, dvcntl = dflControl, dvcsr = 0, dvintr = ionull, dvirq = 0 \<rparr>]"

text \<open>
  A call of the routine \<open>f\<close> for the device with the given entry: \<open>ext\<close> stands for the routines outside
  the repository, which get the request with its arguments and deliver a result, what they leave in the
  buffer, and the state.
\<close>

datatype call_args = Close | Control int int int | Getc | Putc byte | Read "byte list" u32 | Write "byte list" u32

type_synonym 'd drivers = "driver_fun \<Rightarrow> dentry \<Rightarrow> call_args \<Rightarrow> 'd \<Rightarrow> int \<times> byte list \<times> 'd"

definition devcall :: "'d drivers \<Rightarrow> driver_fun \<Rightarrow> dentry \<Rightarrow> call_args \<Rightarrow> byte list \<Rightarrow> 'd \<Rightarrow> int \<times> byte list \<times> 'd" where
  "devcall ext f e args buf d =
     (if f = ioerr then (SYSERR, buf, d) else if f = ionull then (OK, buf, d) else ext f e args d)"

definition isbaddev :: "int \<Rightarrow> bool" where
  "isbaddev f \<longleftrightarrow> f < 0 \<or> f \<ge> NDEVS"

text \<open>The descriptor is an \<^verbatim>\<open>int32\<close>; the entry of one that is not bad is in the table.\<close>

definition xclose :: "'d drivers \<Rightarrow> int \<Rightarrow> 'd \<Rightarrow> int \<times> 'd" where
  "xclose ext descrp d =
     (if isbaddev descrp then (SYSERR, d) else
      let devptr = devtab ! nat descrp; (r, _, d) = devcall ext (dvclose devptr) devptr Close [] d in (r, d))"

definition xcontrol :: "'d drivers \<Rightarrow> int \<Rightarrow> int \<Rightarrow> int \<Rightarrow> int \<Rightarrow> 'd \<Rightarrow> int \<times> 'd" where
  "xcontrol ext descrp func arg1 arg2 d =
     (if isbaddev descrp then (SYSERR, d) else
      let devptr = devtab ! nat descrp; (r, _, d) = devcall ext (dvcntl devptr) devptr (Control func arg1 arg2) [] d in (r, d))"

definition xgetc :: "'d drivers \<Rightarrow> int \<Rightarrow> 'd \<Rightarrow> int \<times> 'd" where
  "xgetc ext descrp d =
     (if isbaddev descrp then (SYSERR, d) else
      let devptr = devtab ! nat descrp; (r, _, d) = devcall ext (dvgetc devptr) devptr Getc [] d in (r, d))"

definition xputc :: "'d drivers \<Rightarrow> int \<Rightarrow> byte \<Rightarrow> 'd \<Rightarrow> int \<times> 'd" where
  "xputc ext descrp c d =
     (if isbaddev descrp then (SYSERR, d) else
      let devptr = devtab ! nat descrp; (r, _, d) = devcall ext (dvputc devptr) devptr (Putc c) [] d in (r, d))"

definition xread :: "'d drivers \<Rightarrow> int \<Rightarrow> byte list \<Rightarrow> u32 \<Rightarrow> 'd \<Rightarrow> int \<times> byte list \<times> 'd" where
  "xread ext descrp buffer count d =
     (if isbaddev descrp then (SYSERR, buffer, d) else
      let devptr = devtab ! nat descrp in devcall ext (dvread devptr) devptr (Read buffer count) buffer d)"

definition xwrite :: "'d drivers \<Rightarrow> int \<Rightarrow> byte list \<Rightarrow> u32 \<Rightarrow> 'd \<Rightarrow> int \<times> byte list \<times> 'd" where
  "xwrite ext descrp buffer count d =
     (if isbaddev descrp then (SYSERR, buffer, d) else
      let devptr = devtab ! nat descrp in devcall ext (dvwrite devptr) devptr (Write buffer count) buffer d)"

lemma length_devtab: "length devtab = 11"
  by (simp add: devtab_def)

lemma devtab_index: "\<not> isbaddev f \<Longrightarrow> nat f < length devtab"
  unfolding length_devtab by (auto simp: isbaddev_def NDEVS_def)

text \<open>The entries are where their numbers say.\<close>

lemma devtab_numbers: "map dvnum devtab = map int [0..<length devtab]"
  by (simp add: devtab_def lfs_entry_def upt_rec)

text \<open>The null device accepts everything but seeking and control, and calls no driver.\<close>

lemma null_device:
  "xread ext 9 buf n d = (OK, buf, d)" "xwrite ext 9 buf n d = (OK, buf, d)" "xputc ext 9 c d = (OK, d)"
  "xgetc ext 9 d = (OK, d)" "xclose ext 9 d = (OK, d)" "xcontrol ext 9 f a b d = (SYSERR, d)"
  by (simp_all add: xread_def xwrite_def xputc_def xgetc_def xclose_def xcontrol_def isbaddev_def NDEVS_def
      devtab_def devcall_def)

end
