(* ===== verification/Dir_Remove.thy ===== *)
theory Dir_Remove
  imports Dir_Add Shrink "HOL-Library.Multiset"
begin

text \<open>
  Removing an entry from a directory (\<^verbatim>\<open>src/ufsdirrm.c\<close>) and putting another inode number
  into one (\<^verbatim>\<open>src/ufsdirrp.c\<close>). Their callbacks change the block in which they find the name
  and then stop the iteration. The interface \<open>deferred\<close> splits such an iteration into a search that
  changes nothing and the change, made once when the search is over.
\<close>

section \<open>An iteration that ends with its only change\<close>

text \<open>
  \<open>f1\<close> only searches: as long as it goes on it leaves its context \<open>None\<close>, and what it finds is its
  context at the end. \<open>f2\<close> does the same and then \<open>k\<close>, which stops the iteration.
\<close>

locale deferred =
  fixes f1 :: "('d, 'x option) blkfun" and f2 :: "('d, 'c) blkfun"
    and k :: "'x \<Rightarrow> 'c \<Rightarrow> 'd vol \<Rightarrow> (rc \<times> 'c \<times> 'd vol) option"
  assumes f2_f1: "f2 s c b sz = do { (r, x, s) \<leftarrow> f1 s None b sz;
      case x of None \<Rightarrow> Some (r, c, s) | Some y \<Rightarrow> k y c s }"
  and f1_ok: "f1 s None b sz = Some (RcOk, x, s') \<Longrightarrow> x = None"
  and k_stops: "k y c s = Some (r, c', s') \<Longrightarrow> r \<noteq> RcOk"
begin

definition then_k :: "'c \<Rightarrow> (rc \<times> u32 \<times> 'x option \<times> 'd vol) option \<Rightarrow> (rc \<times> u32 \<times> 'c \<times> 'd vol) option" where
  "then_k c res = do { (r, fs, x, s) \<leftarrow> res;
     case x of None \<Rightarrow> Some (r, fs, c, s) | Some y \<Rightarrow> do { (r, c, s) \<leftarrow> k y c s; Some (r, fs, c, s) } }"

definition splits :: "'c \<Rightarrow> (rc \<times> u32 \<times> 'c \<times> 'd vol) option \<Rightarrow> (rc \<times> u32 \<times> 'x option \<times> 'd vol) option \<Rightarrow> bool" where
  "splits c r2 r1 \<longleftrightarrow> r2 = then_k c r1 \<and> (\<forall>fs x s. r1 = Some (RcOk, fs, x, s) \<longrightarrow> x = None)"

lemma splits_ret: "splits c (Some (r, fs, c, s)) (Some (r, fs, None, s))"
  by (simp add: splits_def then_k_def)

lemma splits_bind:
  assumes "splits c r2 r1" "\<And>fs s. splits c (h2 fs c s) (h1 fs None s)"
  shows "splits c (r2 \<bind> (\<lambda>(r, fs, c, s). if r \<noteq> RcOk then Some (r, fs, c, s) else h2 fs c s))
    (r1 \<bind> (\<lambda>(r, fs, x, s). if r \<noteq> RcOk then Some (r, fs, x, s) else h1 fs x s))"
proof (cases r1)
  case None
  then show ?thesis using assms(1) by (simp add: splits_def then_k_def)
next
  case (Some a)
  obtain r fs x s where a: "a = (r, fs, x, s)" by (metis prod_cases4)
  show ?thesis
  proof (cases x)
    case None
    then have "r2 = Some (r, fs, c, s)" using assms(1) Some a by (simp add: splits_def then_k_def)
    then show ?thesis using Some a None assms(2) [of fs s] by (auto simp: splits_ret)
  next
    case (Some y)
    then have r: "r \<noteq> RcOk" "r2 = do { (r, c, s) \<leftarrow> k y c s; Some (r, fs, c, s) }"
      using assms(1) \<open>r1 = Some a\<close> a by (auto simp: splits_def then_k_def)
    have "r2 \<bind> (\<lambda>(r, fs, c, s). if r \<noteq> RcOk then Some (r, fs, c, s) else h2 fs c s) = r2"
      using k_stops unfolding r(2) by (cases "k y c s") auto
    then show ?thesis using r Some \<open>r1 = Some a\<close> a by (simp add: splits_def then_k_def)
  qed
qed

lemma splits_prefix: "(\<And>a. splits c (h2 a) (h1 a)) \<Longrightarrow> splits c (p \<bind> h2) (p \<bind> h1)"
  by (cases p) (simp_all add: splits_def then_k_def)

lemma splits_visit: "splits c (visit f2 s b fs c) (visit f1 s b fs None)"
proof -
  let ?z = "if fs \<le> ucast (v_blksize s) then fs else ucast (v_blksize s)"
  show ?thesis
  proof (cases "f1 s None b ?z")
    case None
    then show ?thesis by (simp add: visit_def f2_f1 splits_def then_k_def Let_def)
  next
    case (Some a)
    obtain r x s' where a: "a = (r, x, s')" by (metis prod_cases3)
    show ?thesis
    proof (cases x)
      case None
      then show ?thesis using Some a by (auto simp: visit_def f2_f1 splits_ret Let_def)
    next
      case x: (Some y)
      then have r: "r \<noteq> RcOk" using f1_ok Some a by fastforce
      show ?thesis
      proof (cases "k y c s'")
        case None
        then show ?thesis using Some a x r by (simp add: visit_def f2_f1 splits_def then_k_def Let_def)
      next
        case (Some z)
        obtain r' c' s'' where z: "z = (r', c', s'')" by (metis prod_cases3)
        then have "r' \<noteq> RcOk" using k_stops Some by blast
        then show ?thesis using \<open>f1 s None b ?z = Some a\<close> Some a z x r
          by (simp add: visit_def f2_f1 splits_def then_k_def Let_def)
      qed
    qed
  qed
qed

lemma splits_direct: "splits c (direct_from f2 n s m i fs c) (direct_from f1 n s m i fs None)"
proof (induction n arbitrary: s i fs)
  case (Suc n)
  then show ?case by (auto intro!: splits_prefix splits_ret splits_bind splits_visit)
qed (simp add: splits_ret)

lemma splits_loop1: "splits c (loop1_from os f2 n s l i fs c) (loop1_from os f1 n s l i fs None)"
proof (induction n arbitrary: s i fs)
  case (Suc n)
  then show ?case by (auto intro!: splits_prefix splits_ret splits_bind splits_visit)
qed (simp add: splits_ret)

lemma splits_loop2: "splits c (loop2_from os f2 n s l i fs c) (loop2_from os f1 n s l i fs None)"
proof (induction n arbitrary: s i fs)
  case (Suc n)
  then show ?case by (auto simp: ufs_datablock_loop1_def intro!: splits_prefix splits_ret splits_bind splits_loop1)
qed (simp add: splits_ret)

lemma splits_loop3: "splits c (loop3_from os f2 n s l i fs c) (loop3_from os f1 n s l i fs None)"
proof (induction n arbitrary: s i fs)
  case (Suc n)
  then show ?case by (auto simp: ufs_datablock_loop2_def intro!: splits_prefix splits_ret splits_bind splits_loop2)
qed (simp add: splits_ret)

text \<open>The phases of \<^verbatim>\<open>ufs_datablock_foreach\<close>, which no longer hand on the count of bytes.\<close>

definition splits3 :: "'c \<Rightarrow> (rc \<times> 'c \<times> 'd vol) option \<Rightarrow> (rc \<times> 'x option \<times> 'd vol) option \<Rightarrow> bool" where
  "splits3 c r2 r1 \<longleftrightarrow> r2 = do { (r, x, s) \<leftarrow> r1; case x of None \<Rightarrow> Some (r, c, s) | Some y \<Rightarrow> k y c s }"

lemma splits3_ret: "splits3 c (Some (r, c, s)) (Some (r, None, s))"
  by (simp add: splits3_def)

lemma splits3_prefix: "(\<And>a. splits3 c (h2 a) (h1 a)) \<Longrightarrow> splits3 c (p \<bind> h2) (p \<bind> h1)"
  by (cases p) (simp_all add: splits3_def)

lemma splits3_bind:
  assumes "splits c r2 r1" "\<And>fs s. splits3 c (h2 fs c s) (h1 fs None s)"
  shows "splits3 c (r2 \<bind> (\<lambda>(r, fs, c, s). if r \<noteq> RcOk then Some (r, c, s) else h2 fs c s))
    (r1 \<bind> (\<lambda>(r, fs, x, s). if r \<noteq> RcOk then Some (r, x, s) else h1 fs x s))"
proof (cases r1)
  case None
  then show ?thesis using assms(1) by (simp add: splits_def then_k_def splits3_def)
next
  case (Some a)
  obtain r fs x s where a: "a = (r, fs, x, s)" by (metis prod_cases4)
  show ?thesis
  proof (cases x)
    case None
    then have "r2 = Some (r, fs, c, s)" using assms(1) Some a by (simp add: splits_def then_k_def)
    then show ?thesis using Some a None assms(2) [of fs s] by (auto simp: splits3_ret)
  next
    case (Some y)
    then have r: "r \<noteq> RcOk" "r2 = do { (r, c, s) \<leftarrow> k y c s; Some (r, fs, c, s) }"
      using assms(1) \<open>r1 = Some a\<close> a by (auto simp: splits_def then_k_def)
    have "r2 \<bind> (\<lambda>(r, fs, c, s). if r \<noteq> RcOk then Some (r, c, s) else h2 fs c s) = k y c s"
      using k_stops unfolding r(2) by (cases "k y c s") auto
    then show ?thesis using r Some \<open>r1 = Some a\<close> a by (simp add: splits3_def)
  qed
qed

lemma foreach_splits:
  "ufs_datablock_foreach os f2 s m c = do { (r, x, s) \<leftarrow> ufs_datablock_foreach os f1 s m None;
     case x of None \<Rightarrow> Some (r, c, s) | Some y \<Rightarrow> k y c s }"
proof -
  have "splits3 c (ufs_datablock_foreach os f2 s m c) (ufs_datablock_foreach os f1 s m None)"
    unfolding ufs_datablock_foreach_def ufs_datablock_loop1_def ufs_datablock_loop2_def Let_def
    by (auto intro!: splits3_prefix splits3_ret splits3_bind splits_direct splits_loop1 splits_loop2 splits_loop3)
  then show ?thesis by (simp add: splits3_def)
qed

end


section \<open>The search\<close>

text \<open>Position and content of the first entry with a property.\<close>

fun first :: "('e \<Rightarrow> bool) \<Rightarrow> 'e list \<Rightarrow> (nat \<times> 'e) option" where
  "first P [] = None"
| "first P (x # xs) = (if P x then Some (0, x) else map_option (\<lambda>(i, e). (Suc i, e)) (first P xs))"

lemma first_append:
  "first P (xs @ ys) = (case first P xs of Some r \<Rightarrow> Some r
     | None \<Rightarrow> map_option (\<lambda>(i, e). (length xs + i, e)) (first P ys))"
  by (induction xs) (auto simp: option.map_comp o_def case_prod_unfold option.map_ident split: option.splits)

lemma first_Some:
  "first P xs = Some (i, e) \<Longrightarrow> i < length xs \<and> e = xs ! i \<and> P e \<and> (\<forall>j < i. \<not> P (xs ! j))"
proof (induction xs arbitrary: i)
  case (Cons x xs)
  show ?case
  proof (cases "P x")
    case False
    then obtain j where "first P xs = Some (j, e)" "i = Suc j" using Cons.prems by auto
    then show ?thesis using Cons.IH [of j] False by (auto simp: nth_Cons split: nat.split)
  qed (use Cons.prems in auto)
qed simp

lemma first_None: "first P xs = None \<longleftrightarrow> (\<forall>x \<in> set xs. \<not> P x)"
  by (induction xs) auto

lemma dir_scan_first:
  "64 * (i + n) \<le> length b \<Longrightarrow> dir_scan P b n i
    = Some (map_option (\<lambda>(j, e). (i + j, e)) (first P (map (\<lambda>i. dec_dirent (slice (64 * i) 64 b)) [i ..< i + n])))"
proof (induction n arbitrary: i)
  case (Suc n)
  then have "entry_at b i = Some (dec_dirent (slice (64 * i) 64 b))" by (simp add: entry_at_def)
  moreover have "[i ..< i + Suc n] = i # [Suc i ..< Suc i + n]" by (simp add: upt_conv_Cons)
  ultimately show ?case using Suc.IH [of "Suc i"] Suc.prems
    by (simp del: upt_Suc add: option.map_comp o_def case_prod_unfold)
qed simp

lemma dir_scan_first_entries:
  assumes "unat (sz :: u32) \<le> length b"
  shows "dir_scan P b (unat (sz div 64)) 0 = Some (first P (dir_entries (take (unat sz) b)))"
proof -
  have n: "unat (sz div 64) = unat sz div 64" by (simp add: unat_div)
  have "64 * (0 + unat sz div 64) \<le> length b" using assms by simp
  moreover have "map (\<lambda>i. dec_dirent (slice (64 * i) 64 b)) [0 ..< 0 + unat sz div 64] = dir_entries (take (unat sz) b)"
    using assms by (auto simp: dir_entries_def slice_take)
  ultimately show ?thesis using dir_scan_first [of 0 "unat sz div 64" b P] n by (simp add: option.map_ident option.map_id)
qed

text \<open>The search hands over the block in its buffer, which it keeps.\<close>

definition find_subr :: "'d os \<Rightarrow> byte list \<Rightarrow> ('d, (u32 \<times> block \<times> nat \<times> dirent) option) blkfun" where
  "find_subr os name s ctx blk sz =
     (let (buf, s) = ufs_disk_get_buf os s in
      case buf of
        None \<Rightarrow> Some (RcErr ENOMEM, ctx, s)
      | Some buf \<Rightarrow>
          let (rc, buf, s) = ufs_vdisk_read os s buf blk in
          if rc \<noteq> RcOk then Some (RcErr EIO, ctx, ufs_disk_free_buf os s buf) else
          do { r \<leftarrow> dir_scan (same_name name) buf (unat (sz div 64)) 0;
               case r of None \<Rightarrow> Some (RcOk, ctx, ufs_disk_free_buf os s buf)
               | Some (i, e) \<Rightarrow> Some (RcIter ITER_BREAK, Some (blk, buf, i, e), s) })"

definition put_entry :: "'d os \<Rightarrow> (dirent \<Rightarrow> dirent) \<Rightarrow> (dirent \<Rightarrow> 'c) \<Rightarrow> u32 \<times> block \<times> nat \<times> dirent \<Rightarrow> 'c \<Rightarrow> 'd vol \<Rightarrow>
    (rc \<times> 'c \<times> 'd vol) option" where
  "put_entry os new out hit c s = (case hit of (blk, buf, i, e) \<Rightarrow>
     do { buf \<leftarrow> set_entry buf i (new e);
          let (rc, s) = ufs_vdisk_write os s buf blk
          in Some (if rc \<noteq> RcOk then RcErr EIO else RcIter ITER_BREAK, out e, ufs_disk_free_buf os s buf) })"

lemma find_subr_ok: "find_subr os name s None b sz = Some (RcOk, x, s') \<Longrightarrow> x = None"
  by (auto simp: find_subr_def Let_def bind_eq_Some_conv split: prod.splits option.splits if_splits)

lemma put_entry_stops: "put_entry os new out y c s = Some (r, c', s') \<Longrightarrow> r \<noteq> RcOk"
  by (cases y, cases "ufs_vdisk_write os s (the (set_entry (fst (snd y)) (fst (snd (snd y))) (new (snd (snd (snd y)))))) (fst y)")
    (auto simp: put_entry_def Let_def bind_eq_Some_conv split: if_splits)

interpretation removing: deferred "find_subr os name" "remove_subr os name new" "put_entry os (\<lambda>_. new) de_inode_number"
  for os name new
proof
  fix s c b sz
  show "remove_subr os name new s c b sz = do { (r, x, s) \<leftarrow> find_subr os name s None b sz;
      case x of None \<Rightarrow> Some (r, c, s) | Some y \<Rightarrow> put_entry os (\<lambda>_. new) de_inode_number y c s }"
    by (auto simp: remove_subr_def on_block_def find_subr_def put_entry_def Let_def bind_assoc
        split: prod.splits option.splits Option.bind_splits)
qed (simp_all add: find_subr_ok put_entry_stops)

interpretation replacing: deferred "find_subr os name" "replace_subr os name ino"
    "put_entry os (\<lambda>e. e\<lparr>de_inode_number := ino\<rparr>) (\<lambda>_. ())"
  for os name ino
proof
  fix s c b sz
  show "replace_subr os name ino s c b sz = do { (r, x, s) \<leftarrow> find_subr os name s None b sz;
      case x of None \<Rightarrow> Some (r, c, s) | Some y \<Rightarrow> put_entry os (\<lambda>e. e\<lparr>de_inode_number := ino\<rparr>) (\<lambda>_. ()) y c s }"
    by (auto simp: replace_subr_def on_block_def find_subr_def put_entry_def Let_def bind_assoc
        split: prod.splits option.splits Option.bind_splits)
qed (simp_all add: find_subr_ok put_entry_stops)


fun scan :: "(dirent \<Rightarrow> bool) \<Rightarrow> u32 \<times> block \<times> byte list \<Rightarrow> (u32 \<times> block \<times> nat \<times> dirent) option \<Rightarrow>
    rc \<times> (u32 \<times> block \<times> nat \<times> dirent) option" where
  "scan P (b, x, part) c = (case first P (dir_entries part) of
     None \<Rightarrow> (RcOk, c) | Some (i, e) \<Rightarrow> (RcIter ITER_BREAK, Some (b, x, i, e)))"

interpretation finding: block_fold os ct "find_subr os name" "scan (same_name name)" "\<lambda>_. True" for os ct name
proof
  fix k s L b and sz :: u32 and c :: "(u32 \<times> block \<times> nat \<times> dirent) option"
  let ?P = "same_name name" and ?x = "vview ct s b"
  assume a: "bgood os ct k s L" "ufs_datablock_number_sanity s b" "unat sz \<le> unat (v_blksize s)"
  have vg: "vgood os ct (v_lim s) k s" using a(1) by (simp add: bgood_def fgood_def)
  obtain buf s1 s2 where f: "ufs_disk_get_buf os s = (Some buf, s1)"
    "ufs_vdisk_read os s1 buf b = (RcOk, ?x, s2)" "vgood os ct (v_lim s) k s2" "vsame ct s s1" "vsame ct s s2"
    "length ?x = unat (v_blksize s2)" by (rule good_fetch [OF vg sane_lim [OF a(2)]])
  note fr = good_free_buf [OF f(3,6)]
  have v: "vsame ct s (ufs_disk_free_buf os s2 ?x)" by (rule vsame_trans [OF f(5) fr(2)])
  have ds: "dir_scan ?P ?x (unat (sz div 64)) 0 = Some (first ?P (dir_entries (take (unat sz) ?x)))"
    using a(3) block_length [OF a(1,2)] by (intro dir_scan_first_entries) simp
  show "\<exists>s'. find_subr os name s c b sz = Some (fst (scan ?P (b, ?x, take (unat sz) ?x) c),
      snd (scan ?P (b, ?x, take (unat sz) ?x) c), s') \<and> bgood os ct k s' L \<and> vsame ct s s'"
    using f(1,2) ds bgood_vsame [OF a(1) f(3,5)] bgood_vsame [OF a(1) fr(1) v] f(5) v
    by (auto simp: find_subr_def split: option.splits)
qed simp

text \<open>Where the fold finds the first entry: blocks but the last hold \<open>q\<close> entries each.\<close>

lemma fold_scan:
  assumes "\<forall>p \<in> set (butlast ps). length (dir_entries (snd (snd p))) = q"
    "\<forall>p \<in> set ps. length (dir_entries (snd (snd p))) \<le> q" "0 < q"
  shows "case first P (concat (map (\<lambda>p. dir_entries (snd (snd p))) ps)) of
      None \<Rightarrow> fold_parts (scan P) ps c = (RcIter ITER_END, c)
    | Some (n, e) \<Rightarrow> n div q < length ps
        \<and> fold_parts (scan P) ps c = (RcIter ITER_BREAK, Some (fst (ps ! (n div q)), fst (snd (ps ! (n div q))), n mod q, e))"
  using assms(1,2)
proof (induction ps)
  case (Cons p ps)
  obtain b x part where p: "p = (b, x, part)" by (metis prod_cases3)
  let ?es = "dir_entries part" and ?tl = "concat (map (\<lambda>p. dir_entries (snd (snd p))) ps)"
  show ?case
  proof (cases "first P ?es")
    case (Some r)
    obtain i e where r: "r = (i, e)" by (metis surj_pair)
    have "i < q" using first_Some [of P ?es i e] Some r Cons.prems(2) p by auto
    then show ?thesis using Some r p by (simp add: first_append)
  next
    case None
    show ?thesis
    proof (cases "ps = []")
      case False
      then have l: "length ?es = q" using Cons.prems(1) p by simp
      have IH: "case first P ?tl of None \<Rightarrow> fold_parts (scan P) ps c = (RcIter ITER_END, c)
          | Some (n, e) \<Rightarrow> n div q < length ps
            \<and> fold_parts (scan P) ps c = (RcIter ITER_BREAK, Some (fst (ps ! (n div q)), fst (snd (ps ! (n div q))), n mod q, e))"
        using Cons False by simp
      have "(q + n) div q = Suc (n div q)" "(q + n) mod q = n mod q" for n
        using assms(3) div_add_self1 [of q n] by simp_all
      then show ?thesis using IH None l p by (auto simp: first_append simp del: length_dir_entries split: option.splits)
    qed (use None p in \<open>simp add: first_append\<close>)
  qed
qed simp

lemma entries_pieces: "map (\<lambda>p. dir_entries (snd (snd p))) (file_pieces ct s m) = map dir_entries (file_parts ct s m)"
  by (simp add: map_snd_pieces [symmetric] del: map_snd_pieces)

lemma part_entries:
  assumes "bgood os ct k s L" "file_ok ct s m L" "i < nblks s m"
  shows "length (dir_entries (file_part ct s m i)) \<le> unat (v_blksize s) div 64"
    and "Suc i < nblks s m \<Longrightarrow> length (dir_entries (file_part ct s m i)) = unat (v_blksize s) div 64"
proof -
  let ?F = "unat (di_filesize (mi_dinode m))" and ?B = "unat (v_blksize s)"
  note l = file_part_length [OF assms]
  show "length (dir_entries (file_part ct s m i)) \<le> ?B div 64" by (simp add: l div_le_mono)
  assume "Suc i < nblks s m"
  then have "\<not> ?F \<le> Suc i * ?B" using blocks_le [OF bgood_bs [OF assms(1)], of ?F "Suc i"] by auto
  then show "length (dir_entries (file_part ct s m i)) = ?B div 64" by (simp add: l)
qed

lemma find_ok:
  assumes g: "bgood os ct k s L" and f: "file_ok ct s m L" and b: "good_blksize s"
  obtains s' where "bgood os ct k s' L" "vsame ct s s'"
    "ufs_datablock_foreach os (find_subr os name) s m None
      = (let q = unat (v_blksize s) div 64 in case first (same_name name) (entries_of ct s m) of
           None \<Rightarrow> Some (RcIter ITER_END, None, s')
         | Some (n, e) \<Rightarrow> Some (RcIter ITER_BREAK,
             Some (data_node ct s m (n div q), file_block ct s (m_addr m) (n div q), n mod q, e), s'))"
    "\<And>n e. first (same_name name) (entries_of ct s m) = Some (n, e) \<Longrightarrow> n div (unat (v_blksize s) div 64) < nblks s m"
proof -
  let ?q = "unat (v_blksize s) div 64" and ?ps = "file_pieces ct s m" and ?P = "same_name name"
  have q: "0 < ?q" using blksize_entries [OF g] bgood_bs [OF g] by (auto simp: dvd_def)
  have 1: "\<forall>p \<in> set (butlast ?ps). length (dir_entries (snd (snd p))) = ?q"
  proof
    fix p assume "p \<in> set (butlast ?ps)"
    then obtain i where "i < nblks s m - 1" "snd (snd p) = file_part ct s m i"
      by (auto simp: file_pieces_def in_set_conv_nth nth_butlast)
    then show "length (dir_entries (snd (snd p))) = ?q" using part_entries(2) [OF g f, of i] by simp
  qed
  have 2: "\<forall>p \<in> set ?ps. length (dir_entries (snd (snd p))) \<le> ?q"
    using part_entries(1) [OF g f] by (auto simp: file_pieces_def simp del: length_dir_entries)
  have es: "concat (map (\<lambda>p. dir_entries (snd (snd p))) ?ps) = entries_of ct s m"
    by (simp add: entries_pieces entries_parts [OF g f])
  note fs = fold_scan [OF 1 2 q, of ?P None, unfolded es]
  obtain s' where s': "ufs_datablock_foreach os (find_subr os name) s m None
      = Some (fst (fold_parts (scan ?P) ?ps None), snd (fold_parts (scan ?P) ?ps None), s')"
    "bgood os ct k s' L" "vsame ct s s'"
    using finding.foreach_fold [OF g f b TrueI] by blast
  show ?thesis
  proof (rule that [OF s'(2,3)])
    show lt: "n div ?q < nblks s m" if "first ?P (entries_of ct s m) = Some (n, e)" for n e
      using fs that by (simp add: file_pieces_def)
    show "ufs_datablock_foreach os (find_subr os name) s m None
      = (let q = ?q in case first ?P (entries_of ct s m) of
           None \<Rightarrow> Some (RcIter ITER_END, None, s')
         | Some (n, e) \<Rightarrow> Some (RcIter ITER_BREAK,
             Some (data_node ct s m (n div q), file_block ct s (m_addr m) (n div q), n mod q, e), s'))"
    proof (cases "first ?P (entries_of ct s m)")
      case (Some r)
      obtain n e where r: "r = (n, e)" by (metis surj_pair)
      have "n div ?q < nblks s m" using lt Some r by simp
      then have "?ps ! (n div ?q) = (data_node ct s m (n div ?q), file_block ct s (m_addr m) (n div ?q), file_part ct s m (n div ?q))"
        by (simp add: file_pieces_def)
      then show ?thesis using s'(1) fs Some r by (simp add: Let_def)
    qed (use s'(1) fs in \<open>simp add: Let_def\<close>)
  qed
qed


section \<open>One entry in its block\<close>

text \<open>Entry \<open>n\<close> of a directory lies in block \<open>n div q\<close>, at \<open>n mod q\<close>.\<close>

lemma entry_place:
  assumes g: "bgood os ct k s L" and f: "file_ok ct s m L" and n: "n < length (entries_of ct s m)"
  defines "q \<equiv> unat (v_blksize s) div 64"
  shows "n div q < nblks s m" "64 * (n mod q) + 64 \<le> unat (v_blksize s)"
    "n div q * unat (v_blksize s) + 64 * (n mod q) = 64 * n" "64 * n + 64 \<le> unat (di_filesize (mi_dinode m))"
    "entries_of ct s m ! n = dec_dirent (slice (64 * (n mod q)) 64 (file_block ct s (m_addr m) (n div q)))"
proof -
  let ?B = "unat (v_blksize s)" and ?F = "unat (di_filesize (mi_dinode m))"
  have B: "?B = 64 * q" "0 < ?B" using blksize_entries [OF g] bgood_bs [OF g] by (auto simp: q_def)
  then have q0: "0 < q" by simp
  have "n < ?F div 64" using n length_file_bytes [OF g f] by (simp add: entries_of_def)
  then show le: "64 * n + 64 \<le> ?F" by linarith
  show e: "n div q * ?B + 64 * (n mod q) = 64 * n"
  proof -
    have "n div q * (64 * q) + 64 * (n mod q) = 64 * (n div q * q + n mod q)" by (simp only: add_mult_distrib2 mult.left_commute)
    then show ?thesis unfolding B(1) by simp
  qed
  have "n mod q < q" using q0 by simp
  then show m: "64 * (n mod q) + 64 \<le> ?B" unfolding B(1) by linarith
  have "n div q = 64 * n div ?B" unfolding B(1) by simp
  then show i: "n div q < nblks s m" using pos_block [OF B(2), of "64 * n" ?F] le by simp
  have "entries_of ct s m ! n = dec_dirent (slice (64 * n) 64 (file_bytes ct s m))"
    using n by (simp add: entries_of_def dir_entries_def)
  also have "slice (64 * n) 64 (file_bytes ct s m) = slice (64 * n) 64 (concat (file_blocks ct s m))"
    unfolding file_bytes_def by (rule slice_take [OF le])
  also have "\<dots> = slice (64 * (n mod q)) 64 (file_block ct s (m_addr m) (n div q))"
    using slice_concat [OF file_blocks_lengths [OF g f], of "n div q" "64 * (n mod q)" 64] i m e by simp
  finally show "entries_of ct s m ! n = dec_dirent (slice (64 * (n mod q)) 64 (file_block ct s (m_addr m) (n div q)))" .
qed

lemma dir_entries_blit:
  assumes "64 * n + 64 \<le> length b" "length x = 64"
  shows "dir_entries (blit (64 * n) x b) = (dir_entries b)[n := dec_dirent x]"
proof (rule nth_equalityI)
  show l: "length (dir_entries (blit (64 * n) x b)) = length ((dir_entries b)[n := dec_dirent x])" using assms by simp
  fix i assume "i < length (dir_entries (blit (64 * n) x b))"
  then have i: "i < length b div 64" using assms by simp
  then have le: "64 * i + 64 \<le> length b" by linarith
  have "slice (64 * i) 64 (blit (64 * n) x b) = (if i = n then x else slice (64 * i) 64 b)"
  proof (cases "i = n")
    case False
    then have "64 * i + 64 \<le> 64 * n \<or> 64 * n + 64 \<le> 64 * i" by linarith
    then show ?thesis using False assms le by (simp add: slice_blit_other)
  qed (use assms in \<open>simp add: slice_blit_same\<close>)
  then show "dir_entries (blit (64 * n) x b) ! i = (dir_entries b)[n := dec_dirent x] ! i"
    using i assms by (simp add: dir_entries_def nth_list_update)
qed

lemma put_entry_at:
  assumes g: "bgood os ct (Suc k) s L" and f: "file_ok ct s m L" and n: "n < length (entries_of ct s m)"
    and new: "length (de_name (new e)) = 60"
  defines "q \<equiv> unat (v_blksize s) div 64"
  obtains s' where
    "put_entry os new out (data_node ct s m (n div q), file_block ct s (m_addr m) (n div q), n mod q, e) c s
      = Some (RcIter ITER_BREAK, out e, s')"
    "bgood os ct k s' L" "file_ok ct s' m L" "entries_of ct s' m = (entries_of ct s m)[n := new e]"
    "wrote ct m s s'" "length (file_bytes ct s' m) = length (file_bytes ct s m)"
proof -
  let ?B = "unat (v_blksize s)" and ?F = "unat (di_filesize (mi_dinode m))" and ?i = "n div q"
  let ?x = "file_block ct s (m_addr m) ?i" and ?e = "enc_dirent (new e)"
  note at = entry_place [OF g f n, folded q_def]
  have le: "length ?e = 64" using new by (simp add: enc_dirent_def)
  have lx: "length ?x = ?B" by (rule file_block_length [OF g f at(1)])
  have se: "set_entry ?x (n mod q) (new e) = Some (blit (64 * (n mod q)) ?e ?x)" using at(2) lx by (simp add: set_entry_def)
  have lb: "length (blit (64 * (n mod q)) ?e ?x) = ?B" using lx le at(2) by simp
  obtain s1 where w: "ufs_vdisk_write os s (blit (64 * (n mod q)) ?e ?x) (data_node ct s m ?i) = (RcOk, s1)"
    "bgood os ct k s1 L" "vrest s1 = vrest s" "vview ct s1 = (vview ct s)(data_node ct s m ?i := blit (64 * (n mod q)) ?e ?x)"
    "file_ok ct s1 m L" "file_blocks ct s1 m = (file_blocks ct s m)[?i := blit (64 * (n mod q)) ?e ?x]"
    using file_store [OF g f at(1) lb] by metis
  note r = vrest_frest_geom [OF w(3)]
  have lb1: "length (blit (64 * (n mod q)) ?e ?x) = unat (v_blksize s1)" using lb r(3) by simp
  note fb = bgood_free_buf [OF w(2) lb1]
  let ?s = "ufs_disk_free_buf os s1 (blit (64 * (n mod q)) ?e ?x)"
  note fv = file_vsame [OF fb(2)]
  have "file_bytes ct s1 m = take ?F (concat ((file_blocks ct s m)[?i := blit (64 * (n mod q)) ?e (file_blocks ct s m ! ?i)]))"
    using at(1) by (simp add: file_bytes_def w(6))
  also have "\<dots> = take ?F (blit (64 * n) ?e (concat (file_blocks ct s m)))"
    using blit_concat [OF file_blocks_lengths [OF g f], of ?i "64 * (n mod q)" ?e] at(1-3) le by simp
  also have "\<dots> = blit (64 * n) ?e (file_bytes ct s m)"
    unfolding file_bytes_def
    using blit_take [of "64 * n" ?e ?F "concat (file_blocks ct s m)"] at(4) le length_file_bytes [OF g f]
    by (simp add: file_bytes_def min_def split: if_splits)
  finally have b: "file_bytes ct s1 m = blit (64 * n) ?e (file_bytes ct s m)" .
  have fbs: "file_bytes ct ?s m = file_bytes ct s1 m" using fv(2) by (simp add: file_bytes_def)
  have "entries_of ct ?s m = (entries_of ct s m)[n := new e]"
    using dir_entries_blit [OF _ le, of n "file_bytes ct s m"] at(4) length_file_bytes [OF g f] dec_enc_dirent [OF new]
    by (simp add: entries_of_def fbs b)
  moreover have "length (file_bytes ct ?s m) = length (file_bytes ct s m)"
    using at(4) length_file_bytes [OF g f] le by (simp add: fbs b)
  moreover have "wrote ct m s ?s"
    by (rule wrote_trans [OF wrote_store [OF f at(1) w(3,4)] wrote_vsame [OF fb(2)]])
  ultimately show ?thesis
    using that [of ?s] se w(1) fb(1) fv(1) w(5) by (simp add: put_entry_def)
qed


section \<open>Removing an entry\<close>

text \<open>\<open>shrank\<close>: what removing leaves alone, on a directory that has shrunk.\<close>

definition shrank :: "('d \<Rightarrow> u32 \<Rightarrow> block) \<Rightarrow> minode \<Rightarrow> u32 list \<Rightarrow> nat \<Rightarrow> 'd vol \<Rightarrow> 'd vol \<Rightarrow> minode \<Rightarrow> u32 list \<Rightarrow> bool" where
  "shrank ct m L p s s' m' L' \<longleftrightarrow> v_mstore s' = (v_mstore s)(p := Some m') \<and> v_minodes s' = v_minodes s
     \<and> v_blksize s' = v_blksize s \<and> inode_num s' = inode_num s \<and> inode_block s' = inode_block s
     \<and> file_nodes ct s' m' \<subseteq> file_nodes ct s m \<and> set L' = set L \<union> (file_nodes ct s m - file_nodes ct s' m')
     \<and> (\<forall>x. x \<notin> set L \<longrightarrow> x \<notin> file_nodes ct s m \<longrightarrow> x \<noteq> inode_block s (mi_inode_number m) \<longrightarrow> vview ct s' x = vview ct s x)"

lemma shrankD:
  assumes "shrank ct m L p s s' m' L'"
  shows "v_mstore s' = (v_mstore s)(p := Some m')" "v_minodes s' = v_minodes s" "v_blksize s' = v_blksize s"
    "file_nodes ct s' m' \<subseteq> file_nodes ct s m" "set L' = set L \<union> (file_nodes ct s m - file_nodes ct s' m')"
    "x \<notin> set L \<Longrightarrow> x \<notin> file_nodes ct s m \<Longrightarrow> x \<noteq> inode_block s (mi_inode_number m) \<Longrightarrow> vview ct s' x = vview ct s x"
    "inode_num s' = inode_num s" "inode_block s' = inode_block s"
  using assms unfolding shrank_def by simp_all

lemma shrunk_shrank:
  assumes sf: "shrunk_file ct s1 m L s2 m2 L2 N" and fr: "frest s2 = frest s1" and w: "wrote ct m s s1"
  shows "shrank ct m L p s (set_minode p (Some m2) s2) m2 L2"
proof -
  note W = wroteD [OF w] and F = frestD [OF fr] and V = vrestD [OF wroteD(1) [OF w]] and r = vrest_frest_geom [OF wroteD(1) [OF w]]
  let ?s = "set_minode p (Some m2) s2"
  have fr1: "frest s1 = frest s" by (rule frest_vrest [OF W(1)])
  have fn: "file_nodes ct ?s m2 = file_nodes ct s2 m2" by simp
  have i: "inode_num s2 = inode_num s" "inode_block s2 = inode_block s"
    using frest_inodes [OF fr] frest_inodes [OF fr1] by simp_all
  show ?thesis
    unfolding shrank_def
  proof (intro conjI allI impI)
    show "v_mstore ?s = (v_mstore s)(p := Some m2)" "v_minodes ?s = v_minodes s" "v_blksize ?s = v_blksize s"
      using frestD [OF fr] frestD [OF fr1] by simp_all
    show "inode_num ?s = inode_num s" "inode_block ?s = inode_block s" using i by simp_all
    show "file_nodes ct ?s m2 \<subseteq> file_nodes ct s m" "set L2 = set L \<union> (file_nodes ct s m - file_nodes ct ?s m2)"
      using sf unfolding fn W(4) [symmetric] shrunk_file_def by blast+
    fix x assume x: "x \<notin> set L" "x \<notin> file_nodes ct s m" "x \<noteq> inode_block s (mi_inode_number m)"
    have "x \<notin> set L2" using sf x(1,2) unfolding W(4) [symmetric] shrunk_file_def by blast
    then have "vview ct s2 x = vview ct s1 x"
      using sf x i frest_inodes [OF fr1] unfolding W(4) [symmetric] shrunk_file_def by metis
    then show "vview ct ?s x = vview ct s x" using W(3) [OF x(2)] by simp
  qed
qed

lemma entries_shrunk:
  assumes sf: "shrunk_file ct s m L s' m' L' (blocks (unat (v_blksize s)) (unat (di_filesize (mi_dinode m'))))"
    and F: "unat (di_filesize (mi_dinode m)) = 64 * Suc n" "unat (di_filesize (mi_dinode m')) = 64 * n"
    and g: "bgood os ct k s L" and f: "file_ok ct s m L"
  shows "entries_of ct s' m' = butlast (entries_of ct s m)"
proof -
  let ?N = "blocks (unat (v_blksize s)) (unat (di_filesize (mi_dinode m')))" and ?fb = "file_blocks ct s m"
  have fb: "file_blocks ct s' m' = take ?N ?fb" using sf by (simp add: shrunk_file_def)
  have Nl: "?N \<le> length ?fb" using F by (simp add: blocks_mono)
  have "\<forall>x \<in> set (take ?N ?fb). length x = unat (v_blksize s)" using file_blocks_lengths [OF g f] set_take_subset by fastforce
  then have "length (concat (take ?N ?fb)) = ?N * unat (v_blksize s)" using length_concat_uniform Nl by fastforce
  then have le: "64 * n \<le> length (concat (take ?N ?fb))" using le_blocks [OF bgood_bs [OF g], of "64 * n"] F(2) by simp
  have "take (64 * n) (concat (take ?N ?fb)) = take (64 * n) (concat (take ?N ?fb @ drop ?N ?fb))"
    using le by (simp only: concat_append take_append) simp
  then have tb: "file_bytes ct s' m' = take (64 * n) (file_bytes ct s m)"
    using F by (simp add: file_bytes_def fb min_def)
  show ?thesis
  proof (rule nth_equalityI)
    have l: "length (file_bytes ct s m) = 64 * Suc n" using length_file_bytes [OF g f] F(1) by simp
    show "length (entries_of ct s' m') = length (butlast (entries_of ct s m))" by (simp add: entries_of_def tb l)
    fix i assume "i < length (entries_of ct s' m')"
    then have i: "i < n" by (simp add: entries_of_def tb l)
    then show "entries_of ct s' m' ! i = butlast (entries_of ct s m) ! i"
      using slice_take [of "64 * i" 64 "64 * n" "file_bytes ct s m"] by (simp add: entries_of_def dir_entries_def tb l nth_butlast)
  qed
qed

lemma remove_dirent_ok:
  assumes g: "bgood os ct (k + 9) s L" and m: "v_mstore s p = Some m" and f: "file_ok ct s m L" and b: "good_blksize s"
    and F: "64 dvd unat (di_filesize (mi_dinode m))" and L: "L \<noteq> []"
    and hit: "first (same_name name) (entries_of ct s m) = Some (n, e)"
  obtains buf s' m' L' where "remove_dirent os s p name = Some ((RcOk, de_inode_number e), Some buf, s')" "bgood os ct k s' L'"
    "shrank ct m L p s s' m' L'" "file_ok ct s' m' L'" "length buf = unat (v_blksize s')"
    "di_filesize (mi_dinode m') = di_filesize (mi_dinode m) - 64" "di_mode (mi_dinode m') = di_mode (mi_dinode m)"
    "mi_inode_number m' = mi_inode_number m"
    "entries_of ct s' m' = butlast ((entries_of ct s m)[n := last (entries_of ct s m)])"
proof -
  define Fs where "Fs = di_filesize (mi_dinode m)"
  let ?F = "unat Fs" and ?B = "unat (v_blksize s)" and ?es = "entries_of ct s m"
  define q where "q = ?B div 64"
  have n: "n < length ?es" "e = ?es ! n" using first_Some [OF hit] by simp_all
  have "length ?es = ?F div 64" using length_file_bytes [OF g f] by (simp add: entries_of_def Fs_def)
  then obtain l where l: "length ?es = Suc l" "?F = 64 * Suc l" using n(1) F by (cases "length ?es") (auto simp: dvd_def Fs_def)
  have F31: "?F \<le> 2 ^ 31" using f by (simp add: file_ok_def Fs_def)
  have bs: "0 < ?B" by (rule bgood_bs [OF g])
  note at = entry_place [OF g f, of l, folded q_def Fs_def, unfolded l(1), OF lessI]
  have li: "(?F - 1) div ?B = l div q"
  proof -
    have "?F - 1 = (64 * (l mod q) + 63) + l div q * ?B" using at(3) l(2) by simp
    moreover have "64 * (l mod q) + 63 < ?B" using at(2) by simp
    ultimately show ?thesis using bs by simp
  qed
  have iN: "l div q < blocks ?B (unat (di_filesize (mi_dinode m)))" using at(1) by (simp add: Fs_def)
  have Fpos: "0 < ?F" using l(2) by simp
  obtain s1 where s1: "ufs_datablock_last os s m Fs = Some (data_node ct s m (l div q), s1)"
    "bgood os ct (k + 9) s1 L" "vsame ct s s1"
    by (rule last_ok [OF f g b Fpos F31 li [symmetric] iN])
  note v1 = vsameD [OF s1(3)]
  let ?b = "data_node ct s m (l div q)" and ?x = "file_block ct s (m_addr m) (l div q)"
  have sane: "ufs_datablock_number_sanity s ?b" by (rule data_node_sane(1) [OF f at(1) [folded q_def Fs_def, unfolded Fs_def]])
  have vg: "vgood os ct (v_lim s1) (k + 9) s1" using s1(2) by (simp add: bgood_def fgood_def)
  have lim: "?b < v_lim s1" using sane_lim [OF sane] v1(3) by simp
  obtain buf s2 s3 where ft: "ufs_disk_get_buf os s1 = (Some buf, s2)" "ufs_vdisk_read os s2 buf ?b = (RcOk, vview ct s1 ?b, s3)"
    "vgood os ct (v_lim s1) (k + 9) s3" "vsame ct s1 s2" "vsame ct s1 s3" "length (vview ct s1 ?b) = unat (v_blksize s3)"
    by (rule good_fetch [OF vg lim])
  have vs: "vsame ct s s3" by (rule vsame_trans [OF s1(3) ft(5)])
  have g3: "bgood os ct (k + 9) s3 L" by (rule bgood_vsame [OF s1(2) ft(3,5)])
  note v3 = vsameD [OF vs] and f3 = file_vsame [OF vs] and r3 = vrest_frest_geom [OF vsameD(2) [OF vs]]
  have x: "vview ct s1 ?b = ?x" by (simp add: v1(1) file_block_def)
  have pos: "unat (ufs_residue Fs s1 - 64) = 64 * (l mod q)"
  proof -
    have "geom s1" using s1(2) by (simp add: bgood_def)
    from residue_unat [OF this Fpos] have "unat (ufs_residue Fs s1) = ?F - l div q * ?B" using v1(4) li by simp
    then have "unat (ufs_residue Fs s1) = 64 * (l mod q) + 64" using at(3) l(2) by simp
    then show ?thesis using unat_sub32 [of 64 "ufs_residue Fs s1"] by simp
  qed
  have pos2: "unat (ufs_residue Fs s2 - 64) = 64 * (l mod q)"
    using pos vsameD(3) [OF ft(4)] by (simp add: ufs_residue_def)
  have lx: "length ?x = ?B" using file_block_length [OF g f, of "l div q"] at(1) by (simp add: Fs_def)
  define nw where "nw = last ?es"
  have nw: "nw = dec_dirent (slice (64 * (l mod q)) 64 ?x)"
  proof -
    have "?es \<noteq> []" using l(1) by auto
    then have "nw = ?es ! l" using l(1) by (simp add: nw_def last_conv_nth)
    then show ?thesis using at(5) by simp
  qed
  then have da: "dirent_at ?x (ufs_residue Fs s1 - 64) = Some nw"
    using at(2) lx pos by (simp add: dirent_at_def)
  have lnw: "length (de_name nw) = 60" using at(2) lx by (simp add: nw dec_dirent_def)
  have f3': "file_ok ct s3 m L" "good_blksize s3" using f3 f b v3(4) by (simp_all add: good_blksize_def)
  have es3: "entries_of ct s3 m = ?es" using f3(2) by (simp add: entries_of_def file_bytes_def)
  have q3: "unat (v_blksize s3) div 64 = q" using v3(4) by (simp add: q_def)
  obtain s4 where s4: "bgood os ct (k + 9) s4 L" "vsame ct s3 s4"
    "ufs_datablock_foreach os (find_subr os name) s3 m None = Some (RcIter ITER_BREAK,
        Some (data_node ct s3 m (n div q), file_block ct s3 (m_addr m) (n div q), n mod q, e), s4)"
    using find_ok [OF g3 f3', of name] hit unfolding es3 q3 by (metis (no_types, lifting) case_prod_conv option.simps(5))
  note f4 = file_vsame [OF s4(2)] and v4 = vsameD [OF s4(2)] and r4 = vrest_frest_geom [OF vsameD(2) [OF s4(2)]]
  have f4': "file_ok ct s4 m L" using f4(1) f3'(1) by simp
  have es4: "entries_of ct s4 m = ?es" using f4(2) es3 by (simp add: entries_of_def file_bytes_def)
  have g4: "bgood os ct (Suc (k + 8)) s4 L" by (rule bgood_mono [OF s4(1)]) simp
  have n4: "n < length (entries_of ct s4 m)" using n(1) es4 by simp
  obtain s5 where s5: "put_entry os (\<lambda>_. nw) de_inode_number
      (data_node ct s4 m (n div q), file_block ct s4 (m_addr m) (n div q), n mod q, e) 0 s4
        = Some (RcIter ITER_BREAK, de_inode_number e, s5)"
    "bgood os ct (k + 8) s5 L" "file_ok ct s5 m L" "entries_of ct s5 m = ?es[n := nw]" "wrote ct m s4 s5"
    using put_entry_at [OF g4 f4' n4, of "\<lambda>_. nw" e de_inode_number 0] lnw q3 v4(4) es4 by metis
  have same: "data_node ct s4 m i = data_node ct s3 m i" "file_block ct s4 (m_addr m) i = file_block ct s3 (m_addr m) i" for i
    using v4(1) r4(1) by (simp_all add: file_block_def)
  have fe: "ufs_datablock_foreach os (remove_subr os name nw) s3 m 0 = Some (RcIter ITER_BREAK, de_inode_number e, s5)"
    by (simp add: removing.foreach_splits s4(3) s5(1) [unfolded same])
  have w5: "wrote ct m s s5"
    by (rule wrote_trans [OF wrote_trans [OF wrote_vsame [OF vs] wrote_vsame [OF s4(2)]] s5(5)])
  note r5 = vrest_frest_geom [OF wroteD(1) [OF w5]] and V5 = vrestD [OF wroteD(1) [OF w5]]
  define c where "c = blocks ?B ?F - blocks ?B (?F - 64)"
  have B64: "64 \<le> ?B" using blksize_entries [OF g] bs by (rule dvd_imp_le)
  have "?F \<le> ?F - 64 + ?B" using B64 by linarith
  then have "blocks ?B ?F \<le> blocks ?B (?F - 64 + 1 * ?B)" by (intro blocks_mono) simp
  also have "\<dots> = blocks ?B (?F - 64) + 1" by (rule blocks_add [OF bs])
  finally have c: "blocks ?B ?F = blocks ?B (?F - 64) + c" "c \<le> 1"
    using blocks_mono [of "?F - 64" ?F ?B] by (simp_all add: c_def)
  have uF: "unat (Fs - 64) = ?F - 64" using unat_sub32 [of 64 Fs] l(2) by simp
  have g5: "bgood os ct (k + 7 * c + 1) s5 L" using bgood_mono [OF s5(2)] c(2) by simp
  have b5: "good_blksize s5" using b r5 by (simp add: good_blksize_def)
  obtain m6 s6 L6 where s6: "ufs_datablock_contract os s5 m 64 = Some (RcOk, m6, s6)" "bgood os ct k s6 L6"
    "shrunk_file ct s5 m L s6 m6 L6 (blocks (unat (v_blksize s5)) (unat (Fs - 64)))"
    "m6 = finished m (m_addr m6) (Fs - 64)" "frest s6 = frest s5"
    by (rule contract_ok [OF s5(3) g5 b5 L, of 64, folded Fs_def]) (use l(2) c(1) uF r5 in simp_all)
  have m6: "di_filesize (mi_dinode m6) = Fs - 64" "di_mode (mi_dinode m6) = di_mode (mi_dinode m)"
    "mi_inode_number m6 = mi_inode_number m"
    using arg_cong [OF s6(4), of mi_inode_number] arg_cong [OF s6(4), of "\<lambda>m. di_filesize (mi_dinode m)"] arg_cong [OF s6(4), of "\<lambda>m. di_mode (mi_dinode m)"]
    by (simp_all add: set_size_def with_addr_def)
  let ?s = "set_minode p (Some m6) s6"
  have m5: "v_mstore s5 p = Some m" using m V5 by simp
  have at6: "at_minode p (\<lambda>s m. ufs_datablock_contract os s m 64) s5 = Some (RcOk, ?s)"
    using m5 s6(1) by (simp add: at_minode_def)
  have sh: "shrank ct m L p s ?s m6 L6" by (rule shrunk_shrank [OF s6(3,5) w5])
  show ?thesis
  proof (rule that [of ?x ?s L6 m6])
    show "remove_dirent os s p name = Some ((RcOk, de_inode_number e), Some ?x, ?s)"
      using m s1(1) ft(1,2) x da pos pos2 fe at6 by (simp add: remove_dirent_def Fs_def Let_def dirent_at_def)
    show "bgood os ct k ?s L6" using s6(2) by simp
    show "shrank ct m L p s ?s m6 L6" by (rule sh)
    show "file_ok ct ?s m6 L6" using s6(3) by (simp add: shrunk_file_def)
    show "length ?x = unat (v_blksize ?s)" using lx shrankD(3) [OF sh] by simp
    show "di_filesize (mi_dinode m6) = di_filesize (mi_dinode m) - 64" using m6(1) by (simp add: Fs_def)
    show "di_mode (mi_dinode m6) = di_mode (mi_dinode m)" "mi_inode_number m6 = mi_inode_number m" by (rule m6(2,3))+
    have "entries_of ct s6 m6 = butlast (entries_of ct s5 m)"
      by (rule entries_shrunk [OF s6(3) [folded m6(1)] _ _ s5(2,3), of l]) (use l(2) uF m6(1) in \<open>simp_all add: Fs_def\<close>)
    then show "entries_of ct ?s m6 = butlast (?es[n := last ?es])"
      using s5(4) by (simp add: nw_def entries_of_def file_bytes_def)
  qed
qed


lemma find_minode_upd:
  assumes "st p = Some m" "mi_inode_number m' = mi_inode_number m"
  shows "find_minode (st(p := Some m')) l ino = find_minode st l ino"
  by (induction l) (use assms in \<open>auto simp: fun_upd_def split: option.split\<close>)

text \<open>For a regular file in the cache of inodes; the parent is another inode.\<close>

lemma remove_entry_ok:
  assumes g: "bgood os ct (k + 9) s L" and m: "v_mstore s p = Some m" and f: "file_ok ct s m L" and b: "good_blksize s"
    and F: "64 dvd unat (di_filesize (mi_dinode m))" and L: "L \<noteq> []"
    and hit: "first (same_name name) (entries_of ct s m) = Some (n, e)"
    and q: "find_minode (v_mstore s) (v_minodes s) (de_inode_number e) = Some (Some q)" "v_mstore s q = Some mq" "q \<noteq> p"
      "\<not> ufs_inode_isdir (mi_dinode mq)" "0 < mi_usecount mq" "unat (mi_usecount mq) + 1 < 2 ^ 16"
  obtains s' m' L' where "ufs_directory_remove_entry os s p name = Some (RcOk, s')" "bgood os ct k s' L'"
    "v_mstore s' = (v_mstore s)(p := Some m')" "v_minodes s' = v_minodes s" "file_ok ct s' m' L'" "good_blksize s'"
    "di_filesize (mi_dinode m') = di_filesize (mi_dinode m) - 64" "di_mode (mi_dinode m') = di_mode (mi_dinode m)"
    "entries_of ct s' m' = butlast ((entries_of ct s m)[n := last (entries_of ct s m)])"
    "set L' = set L \<union> (file_nodes ct s m - file_nodes ct s' m')"
    "\<And>y. y \<notin> set L \<Longrightarrow> y \<notin> file_nodes ct s m \<Longrightarrow> y \<noteq> inode_block s (mi_inode_number m) \<Longrightarrow> vview ct s' y = vview ct s y"
proof -
  obtain buf s1 m1 L1 where a: "remove_dirent os s p name = Some ((RcOk, de_inode_number e), Some buf, s1)"
    "bgood os ct k s1 L1" "shrank ct m L p s s1 m1 L1" "file_ok ct s1 m1 L1" "length buf = unat (v_blksize s1)"
    "di_filesize (mi_dinode m1) = di_filesize (mi_dinode m) - 64" "di_mode (mi_dinode m1) = di_mode (mi_dinode m)"
    "mi_inode_number m1 = mi_inode_number m"
    "entries_of ct s1 m1 = butlast ((entries_of ct s m)[n := last (entries_of ct s m)])"
    by (rule remove_dirent_ok [OF g m f b F L hit])
  note sh = shrankD [OF a(3)]
  have fq: "find_minode (v_mstore s1) (v_minodes s1) (de_inode_number e) = Some (Some q)"
    unfolding sh(1,2) using find_minode_upd [where st = "v_mstore s", OF m a(8)] q(1) by simp
  have mq: "v_mstore s1 q = Some mq" using sh(1) q(2,3) by simp
  obtain s2 where s2: "ufs_inode_get os s1 (de_inode_number e) = Some (Some q, s2)" "bgood os ct k s2 L1"
    "vsame ct (set_minode q (Some (used mq)) s1) s2" by (rule get_cached [OF a(2) fq mq])
  have mq2: "v_mstore s2 q = Some (used mq)" using vsameD(6) [OF s2(3)] by simp
  have cs: "count_subdir os p q (- 1) s2 = Some s2" using mq2 q(4) by (simp add: count_subdir_def used_def)
  obtain s3 where s3: "ufs_inode_rel os s2 q = Some s3" "bgood os ct k s3 L1" "vsame ct (set_minode q (Some mq) s2) s3"
    by (rule rel_used [OF s2(2) mq2 q(5,6)])
  have "vsame ct (set_minode q (Some mq) (set_minode q (Some (used mq)) s1)) s3"
    by (rule vsame_trans [OF vsame_set_minode [OF s2(3)] s3(3)])
  moreover have "set_minode q (Some mq) (set_minode q (Some (used mq)) s1) = s1"
    using mq by (simp add: set_minode_def fun_upd_idem)
  ultimately have v3: "vsame ct s1 s3" by simp
  have lb: "length buf = unat (v_blksize s3)" using a(5) vsameD(4) [OF v3] by simp
  note fb = bgood_free_buf [OF s3(2) lb]
  let ?s = "ufs_disk_free_buf os s3 buf"
  have vs: "vsame ct s1 ?s" by (rule vsame_trans [OF v3 fb(2)])
  note v = vsameD [OF vs] and fv = file_vsame [OF vs]
  show ?thesis
  proof (rule that)
    show "ufs_directory_remove_entry os s p name = Some (RcOk, ?s)"
      using a(1) s2(1) cs s3(1) by (simp add: ufs_directory_remove_entry_def free_buf_opt_def)
    show "bgood os ct k ?s L1" by (rule fb(1))
    show "v_mstore ?s = (v_mstore s)(p := Some m1)" "v_minodes ?s = v_minodes s" using v(5,6) sh(1,2) by simp_all
    show "file_ok ct ?s m1 L1" using fv(1) a(4) by simp
    show "good_blksize ?s" using b sh(3) v(4) by (simp add: good_blksize_def)
    show "di_filesize (mi_dinode m1) = di_filesize (mi_dinode m) - 64" "di_mode (mi_dinode m1) = di_mode (mi_dinode m)"
      by (rule a(6,7))+
    show "entries_of ct ?s m1 = butlast ((entries_of ct s m)[n := last (entries_of ct s m)])"
      using fv(2) a(9) by (simp add: entries_of_def file_bytes_def)
    show "set L1 = set L \<union> (file_nodes ct s m - file_nodes ct ?s m1)" using sh(5) fv(3) by simp
    show "vview ct ?s y = vview ct s y"
      if "y \<notin> set L" "y \<notin> file_nodes ct s m" "y \<noteq> inode_block s (mi_inode_number m)" for y
      using sh(6) [OF that] v(1) by simp
  qed
qed


text \<open>Without an entry of the name nothing changes; with one, its inode number does.\<close>

lemma replace_entry_ok:
  assumes g: "bgood os ct (Suc k) s L" and f: "file_ok ct s m L" and b: "good_blksize s"
  obtains s' where "ufs_directory_replace_entry os s m name ino
      = Some (if first (same_name name) (entries_of ct s m) = None then RcErr ENOENT else RcOk, s')"
    "bgood os ct k s' L" "file_ok ct s' m L" "wrote ct m s s'"
    "entries_of ct s' m = (case first (same_name name) (entries_of ct s m) of
       None \<Rightarrow> entries_of ct s m | Some (n, e) \<Rightarrow> (entries_of ct s m)[n := e\<lparr>de_inode_number := ino\<rparr>])"
proof -
  let ?es = "entries_of ct s m" and ?q = "unat (v_blksize s) div 64"
  obtain s1 where s1: "bgood os ct (Suc k) s1 L" "vsame ct s s1"
    "ufs_datablock_foreach os (find_subr os name) s m None
      = (let q = ?q in case first (same_name name) ?es of
           None \<Rightarrow> Some (RcIter ITER_END, None, s1)
         | Some (n, e) \<Rightarrow> Some (RcIter ITER_BREAK,
             Some (data_node ct s m (n div q), file_block ct s (m_addr m) (n div q), n mod q, e), s1))"
    by (rule find_ok [OF g f b, of name])
  note v = vsameD [OF s1(2)] and fv = file_vsame [OF s1(2)] and r = vrest_frest_geom [OF vsameD(2) [OF s1(2)]]
  have f1: "file_ok ct s1 m L" using fv(1) f by simp
  have es: "entries_of ct s1 m = ?es" using fv(2) by (simp add: entries_of_def file_bytes_def)
  show ?thesis
  proof (cases "first (same_name name) ?es")
    case None
    then have "ufs_directory_replace_entry os s m name ino = Some (RcErr ENOENT, s1)"
      using s1(3) by (simp add: ufs_directory_replace_entry_def replacing.foreach_splits Let_def)
    then show ?thesis using that [of s1] None f1 es bgood_mono [OF s1(1)] wrote_vsame [OF s1(2)] by simp
  next
    case (Some a)
    obtain n e where a: "a = (n, e)" by (metis surj_pair)
    have n: "n < length (entries_of ct s1 m)" "e = ?es ! n" using first_Some [of "same_name name" ?es n e] Some a es by simp_all
    have q: "unat (v_blksize s1) div 64 = ?q" using v(4) by simp
    have l: "length (de_name e) = 60"
      using entry_place(2,5) [OF s1(1) f1 n(1)] file_block_length [OF s1(1) f1 entry_place(1) [OF s1(1) f1 n(1)]] n(2) es
      by (simp add: dec_dirent_def)
    let ?new = "\<lambda>e. e\<lparr>de_inode_number := ino\<rparr>"
    obtain s2 where s2: "put_entry os ?new (\<lambda>_. ())
        (data_node ct s1 m (n div ?q), file_block ct s1 (m_addr m) (n div ?q), n mod ?q, e) () s1
          = Some (RcIter ITER_BREAK, (), s2)"
      "bgood os ct k s2 L" "file_ok ct s2 m L" "entries_of ct s2 m = ?es[n := e\<lparr>de_inode_number := ino\<rparr>]" "wrote ct m s1 s2"
      by (rule put_entry_at [where new = ?new and out = "\<lambda>_. ()" and e = e and c = "()", OF s1(1) f1 n(1), unfolded q es])
        (use l in simp_all)
    have same: "data_node ct s1 m i = data_node ct s m i" "file_block ct s1 (m_addr m) i = file_block ct s (m_addr m) i" for i
      using v(1) r(1) by (simp_all add: file_block_def)
    have "ufs_directory_replace_entry os s m name ino = Some (RcOk, s2)"
      using s1(3) Some a s2(1) [unfolded same]
      by (simp add: ufs_directory_replace_entry_def replacing.foreach_splits Let_def)
    then show ?thesis
      using that [of s2] Some a s2(2-4) wrote_trans [OF wrote_vsame [OF s1(2)] s2(5)] by simp
  qed
qed


section \<open>Names after a removal\<close>

text \<open>The entries lose exactly the one removed; the last one takes its place.\<close>

lemma mset_fill_gap: "n < length xs \<Longrightarrow> mset (butlast (xs[n := last xs])) = mset xs - {#xs ! n#}"
proof (induction xs rule: rev_induct)
  case (snoc x xs)
  show ?case
  proof (cases "n < length xs")
    case True
    then show ?thesis by (simp add: list_update_append mset_update nth_append)
  next
    case False
    then have "n = length xs" using snoc.prems by simp
    then show ?thesis by (simp add: list_update_append)
  qed
qed simp

definition distinct_names :: "dirent list \<Rightarrow> bool" where
  "distinct_names es \<longleftrightarrow> (\<forall>name. length (filter (named name) es) \<le> 1)"

lemma find_filter: "find P xs = (case filter P xs of [] \<Rightarrow> None | x # _ \<Rightarrow> Some x)"
  by (induction xs) auto

lemma mset_short: "mset xs = mset ys \<Longrightarrow> length ys \<le> 1 \<Longrightarrow> xs = ys"
  by (cases ys) (auto simp: mset_single_iff)

lemma find_removed:
  assumes m: "mset es' = mset es - {#e#}" and e: "e \<in> set es" and d: "length (filter P es) \<le> 1"
  shows "find P es' = (if P e then None else find P es)"
proof -
  have f: "mset (filter P es') = filter_mset P (mset es - {#e#})" using m by simp
  show ?thesis
  proof (cases "P e")
    case True
    have "e \<in> set (filter P es)" using e True by simp
    then have "filter P es = [e]" using d by (cases "filter P es") auto
    then have "mset (filter P es') = {#}" using f True by (simp add: filter_diff_mset mset_filter [symmetric] del: mset_filter)
    then show ?thesis using True by (simp add: find_filter del: mset_filter)
  next
    case False
    then have "mset (filter P es') = mset (filter P es)" using f by (simp add: filter_diff_mset)
    then have "filter P es' = filter P es" by (rule mset_short [OF _ d])
    then show ?thesis using False by (simp add: find_filter)
  qed
qed

lemma distinct_removed:
  assumes "mset es' = mset es - {#e#}" "distinct_names es"
  shows "distinct_names es'"
proof -
  have "length (filter P es') \<le> length (filter P es)" for P
  proof -
    have "mset es' \<subseteq># mset es" using assms(1) by simp
    from size_mset_mono [OF multiset_filter_mono [OF this, of P]] show ?thesis by (simp flip: mset_filter)
  qed
  then show ?thesis using assms(2) unfolding distinct_names_def by (meson order_trans)
qed

lemma same_filename: "same_name (ufs_dirent_filename name) e \<longleftrightarrow> same_name name e"
  by (simp add: same_name_def strncmp_eq_iff ufs_dirent_filename_def UFS_NAME_MAX_def take_cstr cstr_strncpy_to)

end
