(* ===== verification/Dir_Move.thy ===== *)
theory Dir_Move
  imports Entries Files
begin

text \<open>
  The check before a directory is moved (\<^verbatim>\<open>can_dirmove\<close> of \<^verbatim>\<open>src/ufsfiren.c\<close>): the climb from
  the new parent over the \<^verbatim>\<open>".."\<close> entries to the root. On a volume whose directories form a tree it
  ends, and it refuses the move exactly when the directory to be moved is met on the way.
\<close>

section \<open>The parent of a directory\<close>

definition dir_image :: "('d \<Rightarrow> u32 \<Rightarrow> block) \<Rightarrow> 'd vol \<Rightarrow> u32 \<Rightarrow> minode" where
  "dir_image ct s i = inode_image i (inode_at ct s i)"

definition parent_of :: "('d \<Rightarrow> u32 \<Rightarrow> block) \<Rightarrow> 'd vol \<Rightarrow> u32 \<Rightarrow> u32" where
  "parent_of ct s i = (case find (same_name dotdot) (entries_of ct s (dir_image ct s i)) of
     None \<Rightarrow> 0 | Some e \<Rightarrow> de_inode_number e)"

text \<open>The directories on the way from a directory up to the root, itself not among them.\<close>

inductive_set ancestors :: "(u32 \<Rightarrow> u32) \<Rightarrow> u32 \<Rightarrow> u32 set" for p i where
  parent: "p i \<in> ancestors p i"
| up: "j \<in> ancestors p i \<Longrightarrow> j \<noteq> UFS_ROOT_INODE \<Longrightarrow> p j \<in> ancestors p i"

lemma ancestors_step:
  "ancestors p i = insert (p i) (if p i = UFS_ROOT_INODE then {} else ancestors p (p i))" (is "_ = ?R")
proof (rule set_eqI)
  have 1: "p i \<noteq> UFS_ROOT_INODE \<Longrightarrow> x \<in> ancestors p (p i) \<Longrightarrow> x \<in> ancestors p i" for x
    by (erule ancestors.induct) (auto intro: ancestors.intros)
  have 2: "x \<in> ancestors p i \<Longrightarrow> x \<in> ?R" for x
    by (induction rule: ancestors.induct) (auto intro: ancestors.intros split: if_splits)
  fix x show "x \<in> ancestors p i \<longleftrightarrow> x \<in> ?R"
    using 1 [of x] 2 [of x] ancestors.parent [of p i] by (auto split: if_splits)
qed

text \<open>
  A set of directories that is closed under parents: their files are in order, their entries have
  valid inode numbers, and \<open>d\<close> is their depth.
\<close>

definition dir_tree :: "('d \<Rightarrow> u32 \<Rightarrow> block) \<Rightarrow> 'd vol \<Rightarrow> u32 list \<Rightarrow> u32 set \<Rightarrow> (u32 \<Rightarrow> nat) \<Rightarrow> bool" where
  "dir_tree ct s L D d \<longleftrightarrow> (\<forall>i \<in> D. inode_num s i \<and> file_ok ct s (dir_image ct s i) L
     \<and> (\<forall>e \<in> set (entries_of ct s (dir_image ct s i)). ufs_inode_number_sanity s (de_inode_number e))
     \<and> parent_of ct s i \<in> D \<and> parent_of ct s i \<noteq> 0 \<and> (parent_of ct s i \<noteq> UFS_ROOT_INODE \<longrightarrow> d (parent_of ct s i) < d i))"

lemma dir_treeD:
  assumes "dir_tree ct s L D d" "i \<in> D"
  shows "inode_num s i" "file_ok ct s (dir_image ct s i) L"
    "\<forall>e \<in> set (entries_of ct s (dir_image ct s i)). ufs_inode_number_sanity s (de_inode_number e)"
    "parent_of ct s i \<in> D" "parent_of ct s i \<noteq> 0" "parent_of ct s i \<noteq> UFS_ROOT_INODE \<Longrightarrow> d (parent_of ct s i) < d i"
  using assms unfolding dir_tree_def by blast+

lemma dir_tree_vsame:
  assumes "vsame ct s s'"
  shows "dir_image ct s' = dir_image ct s" "parent_of ct s' = parent_of ct s"
    "dir_tree ct s' L D d \<longleftrightarrow> dir_tree ct s L D d"
proof -
  note v = vsameD [OF assms] and f = file_vsame [OF assms] and r = vrestD [OF vsameD(2) [OF assms]]
  have ib: "inode_block s' = inode_block s" "inode_slot s' = inode_slot s" "inode_num s' = inode_num s"
    "ufs_inode_number_sanity s' = ufs_inode_number_sanity s"
    using r(1,2) by (simp_all add: inode_block_def inode_slot_def ipb_def inode_num_def max_inode_def
        ufs_inode_number_sanity_def fun_eq_iff)
  show di: "dir_image ct s' = dir_image ct s" by (simp add: dir_image_def inode_at_def ib v(1) fun_eq_iff)
  have es: "entries_of ct s' m = entries_of ct s m" for m using f(2) by (simp add: entries_of_def file_bytes_def)
  show pa: "parent_of ct s' = parent_of ct s" by (simp add: parent_of_def es di fun_eq_iff)
  show "dir_tree ct s' L D d \<longleftrightarrow> dir_tree ct s L D d" by (simp add: dir_tree_def di pa es ib f(1))
qed

section \<open>The search for the parent\<close>

definition parent_scan :: "(u32 \<Rightarrow> bool) \<Rightarrow> u32 \<times> block \<times> byte list \<Rightarrow> u32 \<Rightarrow> rc \<times> u32" where
  "parent_scan valid p c = (let ds = dir_entries (snd (snd p)) in
     if \<forall>e \<in> set ds. valid (de_inode_number e)
     then search (same_name dotdot) (\<lambda>e _. de_inode_number e) (snd (snd p)) c else (RcIter ITER_ERROR, c))"

interpretation climbing: block_fold os ct "lookup_parent_from_dir_subr os" "parent_scan valid"
    "\<lambda>s. ufs_inode_number_sanity s = valid" for os ct valid
proof
  fix k s L b c and sz :: u32
  assume a: "bgood os ct k s L" "ufs_inode_number_sanity s = valid" "ufs_datablock_number_sanity s b"
    "unat sz \<le> unat (v_blksize s)"
  let ?b = "vview ct s b" and ?P = "same_name dotdot"
  let ?g = "parent_scan valid (b, ?b, take (unat sz) ?b) c"
  have len: "unat sz \<le> length ?b" using a(4) block_length [OF a(1,3)] by simp
  then obtain r where r: "dir_scan ?P ?b (unat (sz div 64)) 0 = Some r"
    "find ?P (dir_entries (take (unat sz) ?b)) = map_option snd r" by (rule dir_scan_entries)
  have n: "unat (sz div 64) = unat sz div 64" by (simp add: unat_div)
  have es: "entries ?b (unat (sz div 64)) = Some (dir_entries (take (unat sz) ?b))"
    using len by (auto simp: entries_def n dir_entries_def slice_take)
  show "\<exists>s'. lookup_parent_from_dir_subr os s c b sz = Some (fst ?g, snd ?g, s') \<and> bgood os ct k s' L \<and> vsame ct s s'"
    unfolding lookup_parent_from_dir_subr_def
  proof (rule on_block_step [OF a(1,3)])
    fix s' assume v: "vsame ct s s'"
    have "ufs_inode_number_sanity s' = valid"
      using vrestD(1,2) [OF vsameD(2) [OF v]] a(2) by (simp add: ufs_inode_number_sanity_def fun_eq_iff)
    then show "(let n = unat (sz div 64) in do { ds \<leftarrow> entries ?b n;
          if \<not> ufs_dirent_endian_convert s' ds then Some (RcIter ITER_ERROR, ?b, c, s') else
          do { r \<leftarrow> dir_scan ?P ?b n 0;
               case r of None \<Rightarrow> Some (RcOk, ?b, c, s')
               | Some (_, e) \<Rightarrow> Some (RcIter ITER_BREAK, ?b, de_inode_number e, s') } })
        = Some (fst ?g, ?b, snd ?g, s')"
      using es r by (cases r) (auto simp: ufs_dirent_endian_convert_def parent_scan_def search_def Let_def)
  qed
next
  fix s s' assume a: "vsame ct s s'" "ufs_inode_number_sanity s = valid"
  then show "ufs_inode_number_sanity s' = valid"
    using vrestD(1,2) [OF vsameD(2) [OF a(1)]] by (simp add: ufs_inode_number_sanity_def fun_eq_iff)
qed

lemma fold_parent_scan:
  assumes "\<forall>e \<in> set (concat (map dir_entries (map (snd \<circ> snd) ps))). valid (de_inode_number e)"
  shows "fold_parts (parent_scan valid) ps c
    = fold_parts (\<lambda>p. search (same_name dotdot) (\<lambda>e _. de_inode_number e) (snd (snd p))) ps c"
  using assms by (induction ps arbitrary: c) (auto simp: parent_scan_def Let_def split: prod.split)

lemma find_parent:
  assumes g: "bgood os ct k s L" and b: "good_blksize s" and t: "dir_tree ct s L D d" "i \<in> D"
  obtains r s' where
    "ufs_datablock_foreach os (lookup_parent_from_dir_subr os) s (dir_image ct s i) 0 = Some (r, parent_of ct s i, s')"
    "bgood os ct k s' L" "vsame ct s s'"
proof -
  let ?m = "dir_image ct s i" and ?g = "\<lambda>p :: u32 \<times> block \<times> byte list.
    search (same_name dotdot) (\<lambda>e _. de_inode_number e) (snd (snd p))"
  note d = dir_treeD [OF t]
  obtain s' where s': "ufs_datablock_foreach os (lookup_parent_from_dir_subr os) s ?m 0
      = Some (fst (fold_parts (parent_scan (ufs_inode_number_sanity s)) (file_pieces ct s ?m) 0),
          snd (fold_parts (parent_scan (ufs_inode_number_sanity s)) (file_pieces ct s ?m) 0), s')"
    "bgood os ct k s' L" "vsame ct s s'"
    using climbing.foreach_fold [OF g d(2) b refl] by blast
  have "fold_parts (parent_scan (ufs_inode_number_sanity s)) (file_pieces ct s ?m) 0 = fold_parts ?g (file_pieces ct s ?m) 0"
    using d(3) by (intro fold_parent_scan) (simp add: entries_parts [OF g d(2)])
  then have "snd (fold_parts (parent_scan (ufs_inode_number_sanity s)) (file_pieces ct s ?m) 0) = parent_of ct s i"
    by (simp add: fold_search parent_of_def entries_parts [OF g d(2)] split: option.split)
  then show ?thesis using that s' by metis
qed

section \<open>The climb\<close>

lemma climb_ok:
  assumes "bgood os ct k s L" "good_blksize s" "dir_tree ct s L D d" "i \<in> D"
  shows "\<exists>s'. dirmove_loop os s (dir_image ct s i) from_ino
      = Some (if from_ino \<in> ancestors (parent_of ct s) i then RcErr EINVAL else RcOk, s') \<and> bgood os ct k s' L \<and> vsame ct s s'"
  using assms
proof (induction "d i" arbitrary: i s rule: less_induct)
  case less
  note t = dir_treeD [OF less.prems(3,4)]
  let ?p = "parent_of ct s i"
  obtain r s1 where s1: "ufs_datablock_foreach os (lookup_parent_from_dir_subr os) s (dir_image ct s i) 0 = Some (r, ?p, s1)"
    "bgood os ct k s1 L" "vsame ct s s1" by (rule find_parent [OF less.prems])
  note tv = dir_tree_vsame [OF s1(3)]
  have p: "inode_num s1 ?p"
    using dir_treeD(1) [of ct s1 L D d ?p] tv(3) less.prems(3) t(4) by simp
  have ig: "igood os ct k s1" using s1(2) by (simp add: bgood_def fgood_def igood_def)
  obtain s2 where s2: "ufs_inode_load os s1 (dir_image ct s i) ?p = Some (RcOk, dir_image ct s1 ?p, s2)"
    "vgood os ct (v_lim s1) k s2" "vsame ct s1 s2"
    unfolding dir_image_def by (rule good_load [OF ig p])
  have g2: "bgood os ct k s2 L" by (rule bgood_vsame [OF s1(2) s2(2,3)])
  have vs: "vsame ct s s2" by (rule vsame_trans [OF s1(3) s2(3)])
  note tv2 = dir_tree_vsame [OF vs]
  have im: "dir_image ct s1 ?p = dir_image ct s2 ?p" using tv(1) tv2(1) by simp
  show ?case
  proof (cases "?p = from_ino \<or> ?p = UFS_ROOT_INODE")
    case True
    then have "from_ino \<in> ancestors (parent_of ct s) i \<longleftrightarrow> ?p = from_ino" by (subst ancestors_step) auto
    then show ?thesis using True s1(1) s2(1) t(5) g2 vs
      by (subst dirmove_loop.simps) (auto simp: UFS_ROOT_INODE_def)
  next
    case False
    have b2: "good_blksize s2" using less.prems(2) vsameD(4) [OF vs] by (simp add: good_blksize_def)
    have "d ?p < d i" using t(6) False by blast
    then obtain s' where s': "dirmove_loop os s2 (dir_image ct s2 ?p) from_ino
        = Some (if from_ino \<in> ancestors (parent_of ct s2) ?p then RcErr EINVAL else RcOk, s')" "bgood os ct k s' L" "vsame ct s2 s'"
      using less.hyps [OF _ g2 b2, of ?p] tv2(3) less.prems(3) t(4) by auto
    have "from_ino \<in> ancestors (parent_of ct s) i \<longleftrightarrow> from_ino \<in> ancestors (parent_of ct s2) ?p"
      using False by (subst ancestors_step) (auto simp: tv2(2))
    moreover have "dirmove_loop os s (dir_image ct s i) from_ino = dirmove_loop os s2 (dir_image ct s2 ?p) from_ino"
      using s1(1) s2(1) t(5) False im by (subst dirmove_loop.simps) simp
    ultimately show ?thesis using s' vsame_trans [OF vs s'(3)] by auto
  qed
qed

lemma can_dirmove_ok:
  assumes g: "bgood os ct k s L" and b: "good_blksize s" and t: "dir_tree ct s L D d" "to_ino \<in> D"
    and dir: "ufs_inode_isdir (inode_at ct s to_ino)"
  obtains s' where "can_dirmove os s from_ino to_ino
      = Some (if from_ino \<in> ancestors (parent_of ct s) to_ino then RcErr EINVAL else RcOk, s')"
    "bgood os ct k s' L" "vsame ct s s'"
proof -
  have ig: "igood os ct k s" using g by (simp add: bgood_def fgood_def igood_def)
  obtain s1 where s1: "ufs_inode_load os s zero_minode to_ino = Some (RcOk, dir_image ct s to_ino, s1)"
    "vgood os ct (v_lim s) k s1" "vsame ct s s1"
    unfolding dir_image_def by (rule good_load [OF ig dir_treeD(1) [OF t]])
  have g1: "bgood os ct k s1 L" by (rule bgood_vsame [OF g s1(2,3)])
  have b1: "good_blksize s1" using b vsameD(4) [OF s1(3)] by (simp add: good_blksize_def)
  note tv = dir_tree_vsame [OF s1(3)]
  have d: "ufs_inode_isdir (mi_dinode (dir_image ct s to_ino))"
    using dir by (simp add: dir_image_def inode_image_def ufs_inode_setup_memory_image_def ufs_inode_isdir_def)
  obtain s' where s': "dirmove_loop os s1 (dir_image ct s1 to_ino) from_ino
      = Some (if from_ino \<in> ancestors (parent_of ct s1) to_ino then RcErr EINVAL else RcOk, s')" "bgood os ct k s' L" "vsame ct s1 s'"
    using climb_ok [OF g1 b1, of D d to_ino] tv(3) t by blast
  show ?thesis
    by (rule that [OF _ s'(2) vsame_trans [OF s1(3) s'(3)]])
      (use s1(1) s'(1) d tv in \<open>simp add: can_dirmove_def\<close>)
qed

end
