(* ===== verification/Ram_Dirs.thy ===== *)
theory Ram_Dirs
  imports Ram_Files Dir_Move
begin

text \<open>
  The small volume of \<^verbatim>\<open>Ram\<close> with three directories on it: the root, inode 2, in it inode 3, and
  in that inode 4. Each has one block with the entry \<^verbatim>\<open>".."\<close>, and inode 4 the file
  \<^verbatim>\<open>"a"\<close> besides, inode 5.
\<close>

definition dir_node :: "u32 \<Rightarrow> u32 \<Rightarrow> dinode" where
  "dir_node b z = \<lparr> di_mode = 0x41FF, di_nlink = 2, di_filesize = z, di_ctime = 0, di_mtime = 0, di_atime = 0,
     di_owner = replicate 9 0, di_group = replicate 9 0, di_codepage = 0, di_addr = b # replicate 18 0 \<rparr>"

definition up_entry :: "u32 \<Rightarrow> dirent" where
  "up_entry i = \<lparr>de_inode_number = i, de_name = dotdot @ replicate 58 0\<rparr>"

definition a_entry :: dirent where
  "a_entry = \<lparr>de_inode_number = 5, de_name = str ''a'' @ replicate 59 0\<rparr>"

definition dirs_data :: "u32 \<Rightarrow> block" where
  "dirs_data = demo_data(2 := replicate 128 0 @ enc_dinode (dir_node 20 64) @ enc_dinode (dir_node 21 64) @ enc_dinode (dir_node 22 128),
     20 := enc_dirent (up_entry 2), 21 := enc_dirent (up_entry 2), 22 := enc_dirent (up_entry 3) @ enc_dirent a_entry)"

definition demo_dirs :: "(u32 \<Rightarrow> block) vol" where
  "demo_dirs = (demo None)\<lparr>v_outer := dirs_data\<rparr>"

lemma demo_dirs_simps [simp]:
  "v_disk demo_dirs = demo_disk" "dk_blksize demo_disk = 512" "per_block demo_dirs = 128" "good_blksize demo_dirs"
  "ipb demo_dirs = 4" "max_inode demo_dirs = 8" "vview demo_ct demo_dirs = demo_ct dirs_data"
  "ufs_datablock_number_sanity demo_dirs b \<longleftrightarrow> 4 \<le> b \<and> b < 64"
  by (simp_all add: demo_dirs_def demo_def per_block_def good_blksize_def ipb_def max_inode_def ufs_datablock_number_sanity_def
      raw_view fun_eq_iff) (simp_all add: demo_disk_def demo_sb_def)

lemma demo_dirs_bgood: "k < 2 ^ 32 \<Longrightarrow> bgood ram demo_ct k demo_dirs demo_free"
proof -
  assume k: "k < 2 ^ 32"
  have "vgood ram demo_ct (v_lim demo_dirs) k demo_dirs"
    using ram_good [of demo_dirs k "v_lim demo_dirs"] k by (simp add: demo_dirs_def demo_defs pgr_def)
  moreover have "free_chain (demo_ct dirs_data) [5, 6, 7, 8, 9, 10] demo_free"
    by (rule free_chain_cong [OF demo_chain]) (auto simp: demo_free_def ram_ct_def dirs_data_def)
  then have "free_ok demo_ct demo_dirs demo_free"
    by (simp add: free_ok_def demo_free_def UFS_MAX_FREEBLOCK_def) (simp add: demo_disk_def demo_sb_def)
  moreover have "geom demo_dirs" by (simp add: geom_def demo_disk_def demo_sb_def UFS_ILIST_SECTOR_def)
  ultimately show ?thesis by (simp add: bgood_def fgood_def)
qed

lemma dir_node_wf: "wf_dinode (dir_node b z)"
  by (simp add: wf_dinode_def dir_node_def)

lemma dirs_inode:
  "inode_at demo_ct demo_dirs 2 = dir_node 20 64" "inode_at demo_ct demo_dirs 3 = dir_node 21 64"
  "inode_at demo_ct demo_dirs 4 = dir_node 22 128"
proof -
  have l: "length (enc_dinode (dir_node b z)) = 128" for b z by (rule length_enc_dinode [OF dir_node_wf])
  have d: "dec_dinode (enc_dinode (dir_node b z)) = dir_node b z" for b z
    using dec_enc_dinode [OF dir_node_wf, of b z "[]"] by simp
  have v: "demo_ct dirs_data 2 = replicate 128 0 @ enc_dinode (dir_node 20 64) @ enc_dinode (dir_node 21 64) @ enc_dinode (dir_node 22 128)"
    by (simp add: ram_ct_def dirs_data_def l)
  show "inode_at demo_ct demo_dirs 2 = dir_node 20 64" "inode_at demo_ct demo_dirs 3 = dir_node 21 64"
    "inode_at demo_ct demo_dirs 4 = dir_node 22 128"
    by (simp_all add: inode_at_def inode_slot_def inode_block_def v slice_append_left slice_append_right l d)
qed

lemma dir_image_node:
  "mi_inode_number (inode_image i (dir_node b z)) = i" "mi_dinode (inode_image i (dir_node b z)) = dir_node b z"
  "di_filesize (dir_node b z) = z" "di_addr (dir_node b z) = b # replicate 18 0" "ufs_inode_isdir (dir_node b z)"
  by (simp_all add: inode_image_def ufs_inode_setup_memory_image_def dir_node_def ufs_inode_isdir_def UFS_IFMT_def UFS_IFDIR_def)

lemma dirs_file:
  assumes "20 \<le> b" "b \<le> 22" "inode_num demo_dirs i" "0 < unat z" "unat z \<le> 512"
  shows "file_ok demo_ct demo_dirs (inode_image i (dir_node b z)) demo_free"
proof -
  let ?m = "inode_image i (dir_node b z)"
  have "(unat z + 511) div 512 = 1" using assms(4,5) by (intro div_nat_eqI) simp_all
  then have b: "blocks 512 (unat z) = 1" "1 \<le> max_blocks 128" by (simp_all add: blocks_def max_blocks_def)
  have z: "unat z \<le> 2147483648" using assms(5) by simp
  have "b < 64" "4 \<le> b" "b \<notin> set demo_free" using assms(1,2) by (auto simp: demo_free_def word_le_nat_alt word_less_nat_alt)
  then have "tree_ok demo_ct demo_dirs (b # replicate 18 0) (file_pos 128 1) demo_free"
    by (intro direct_tree) simp_all
  then show ?thesis using assms(3) dir_node_wf [of b z] b z by (simp add: file_ok_def m_pos_def dir_image_node)
qed

lemma dirs_bytes:
  assumes "(b, bs) \<in> {(20, enc_dirent (up_entry 2)), (21, enc_dirent (up_entry 2)), (22, enc_dirent (up_entry 3) @ enc_dirent a_entry)}"
    "unat z = length bs"
  shows "file_bytes demo_ct demo_dirs (inode_image i (dir_node b z)) = bs"
proof -
  have l: "length (enc_dirent (up_entry j)) = 64" "length (enc_dirent a_entry) = 64" for j
    by (simp_all add: enc_dirent_def up_entry_def a_entry_def dotdot_def str_def)
  have n: "length bs = 64 \<or> length bs = 128" using assms(1) l by auto
  have v: "take (length bs) (demo_ct dirs_data b) = bs"
    using assms(1) l by (auto simp: ram_ct_def dirs_data_def fit_def)
  have "blocks 512 (length bs) = 1" using n by (auto simp: blocks_def)
  then show ?thesis
    using v assms(2) by (simp add: file_bytes_def file_blocks_def file_block_def dir_image_node fpath_def)
qed

lemma dirs_entries:
  "entries_of demo_ct demo_dirs (inode_image i (dir_node 20 64)) = [up_entry 2]"
  "entries_of demo_ct demo_dirs (inode_image i (dir_node 21 64)) = [up_entry 2]"
  "entries_of demo_ct demo_dirs (inode_image i (dir_node 22 128)) = [up_entry 3, a_entry]"
proof -
  have e: "length (de_name (up_entry j)) = 60" "length (de_name a_entry) = 60" for j
    by (simp_all add: up_entry_def a_entry_def dotdot_def str_def)
  have l: "length (enc_dirent (up_entry j)) = 64" "length (enc_dirent a_entry) = 64" for j
    using e by (simp_all add: enc_dirent_def)
  note d = dec_enc_dirent [OF e(1)] dec_enc_dirent [OF e(2)]
  have u: "[0..<2] = [0, Suc 0]" by (simp add: upt_rec)
  show "entries_of demo_ct demo_dirs (inode_image i (dir_node 20 64)) = [up_entry 2]"
    "entries_of demo_ct demo_dirs (inode_image i (dir_node 21 64)) = [up_entry 2]"
    "entries_of demo_ct demo_dirs (inode_image i (dir_node 22 128)) = [up_entry 3, a_entry]"
    by (simp_all add: entries_of_def dirs_bytes l dir_entries_def slice_full d u slice_append_left slice_append_right)
qed

lemma dirs_names:
  "same_name dotdot (up_entry j)" "de_inode_number (up_entry j) = j" "same_name (str ''a'') a_entry"
  "\<not> same_name (str ''a'') (up_entry j)" "de_inode_number a_entry = 5"
  by (simp_all add: same_name_def up_entry_def a_entry_def strncmp_eq_iff cstr_def dotdot_def str_def UFS_NAME_MAX_def)

lemma dirs_parent:
  "parent_of demo_ct demo_dirs 2 = 2" "parent_of demo_ct demo_dirs 3 = 2" "parent_of demo_ct demo_dirs 4 = 3"
  by (simp_all add: parent_of_def dir_image_def dirs_inode dirs_entries dirs_names)

lemma dirs_tree: "dir_tree demo_ct demo_dirs demo_free {2, 3, 4} unat"
proof -
  have "inode_num demo_dirs 2" "inode_num demo_dirs 3" "inode_num demo_dirs 4" by (simp_all add: inode_num_def)
  moreover have "ufs_inode_number_sanity demo_dirs 2" "ufs_inode_number_sanity demo_dirs 3" "ufs_inode_number_sanity demo_dirs 5"
    by (simp_all add: ufs_inode_number_sanity_def ufs_max_inode_def UFS_ROOT_INODE_def UFS_ILIST_SECTOR_def
        ufs_inode_per_block_def demo_disk_def demo_sb_def Let_def)
  ultimately show ?thesis
    using dirs_file by (simp add: dir_tree_def dir_image_def dirs_inode dirs_parent dirs_entries dirs_names UFS_ROOT_INODE_def)
qed

text \<open>Directory 4 in the cache of inodes, at address 0, and the file at address 1.\<close>

definition demo_listed :: "(u32 \<Rightarrow> block) vol" where
  "demo_listed = (set_minode 1 (Some demo_child) (set_minode 0 (Some (inode_image 4 (dir_node 22 128))) demo_dirs))\<lparr>v_minodes := [0, 1]\<rparr>"

lemma demo_listed_ok:
  shows "k < 2 ^ 32 \<Longrightarrow> bgood ram demo_ct k demo_listed demo_free" "v_mstore demo_listed 0 = Some (inode_image 4 (dir_node 22 128))"
    "file_ok demo_ct demo_listed (inode_image 4 (dir_node 22 128)) demo_free" "good_blksize demo_listed"
    "entries_of demo_ct demo_listed (inode_image 4 (dir_node 22 128)) = [up_entry 3, a_entry]"
    "find_minode (v_mstore demo_listed) (v_minodes demo_listed) 5 = Some (Some 1)" "v_mstore demo_listed 1 = Some demo_child"
proof -
  have s: "file_blocks ct (s\<lparr>v_minodes := x\<rparr>) m = file_blocks ct s m" "good_blksize (s\<lparr>v_minodes := x\<rparr>) = good_blksize s" for ct s x m
    by (simp_all add: file_blocks_def file_block_def [abs_def] per_block_def good_blksize_def)
  show "k < 2 ^ 32 \<Longrightarrow> bgood ram demo_ct k demo_listed demo_free" "good_blksize demo_listed"
    using demo_dirs_bgood by (simp_all add: demo_listed_def s)
  have "inode_num demo_dirs 4" by (simp add: inode_num_def)
  then show "file_ok demo_ct demo_listed (inode_image 4 (dir_node 22 128)) demo_free"
    using dirs_file by (simp add: demo_listed_def)
  show "entries_of demo_ct demo_listed (inode_image 4 (dir_node 22 128)) = [up_entry 3, a_entry]"
    using dirs_entries(3) [of 4] by (simp add: demo_listed_def entries_of_def file_bytes_def s)
qed (simp_all add: demo_listed_def set_minode_def demo_child_def dir_image_node)

end
