(* ===== verification/Times.thy ===== *)
theory Times
  imports Dirops
begin

text \<open>
  Time stamps (\<^verbatim>\<open>include/ufs/time.h\<close>, \<^verbatim>\<open>src/ufsdstv.c\<close>, \<^verbatim>\<open>src/ufs1to2.c\<close>). A field of
  eight bytes holds either seconds and microseconds (version 1) or milliseconds in 64 bits (version 2), and
  whoever reads it tells them apart by its low half being below 1000000.
\<close>

section \<open>The deprecated clock\<close>

text \<open>
  \<open>tod\<close> is what the instruction \<^verbatim>\<open>STCK\<close> stores: bit 51 counts microseconds since 1900. The
  instruction \<^verbatim>\<open>D\<close> divides the register pair and abends when the quotient has no room in a signed word.
\<close>

definition STCK_1970 :: u64 where
  "STCK_1970 = 0x7D91048BCA000000"

definition divide_pair :: "u64 \<Rightarrow> u32 \<Rightarrow> (u32 \<times> u32) option" where
  "divide_pair x y =
     (let q = sint x div sint y; r = sint x mod sint y in
      if q < 2 ^ 31 then Some (of_int q, of_int r) else None)"

definition ufs_timeval :: "u64 \<Rightarrow> u64 option" where
  "ufs_timeval stck =
     (let tod = stck - STCK_1970;
          tod = drop_bit 12 tod in
      do { (seconds, useconds) \<leftarrow> divide_pair tod 1000000;
           Some (push_bit 32 (ucast seconds) OR ucast useconds) })"

lemma halves: "v1_seconds (push_bit 32 (ucast a) OR ucast (b :: u32)) = a" "v1_useconds (push_bit 32 (ucast (a :: u32)) OR ucast b) = b"
  by (auto simp: v1_seconds_def v1_useconds_def bit_eq_iff bit_simps dest: bit_imp_le_length)

lemma sint_pos64: "unat (x :: u64) < 2 ^ 63 \<Longrightarrow> sint x = int (unat x)"
proof -
  assume "unat x < 2 ^ 63"
  then have u: "uint x < 2 ^ 63" by (metis of_nat_less_iff of_nat_numeral of_nat_power uint_nat)
  moreover have "- (2 ^ 63) \<le> uint x" by (rule order_trans [OF _ uint_ge_0]) simp
  ultimately have "sint x = uint x" unfolding sint_uint by (intro signed_take_bit_int_eq_self) simp_all
  then show ?thesis by simp
qed

text \<open>The clock stands for \<open>u\<close> microseconds since 1970; the divide overflows in January 2038.\<close>

lemma timeval_value:
  assumes "unat stck = unat STCK_1970 + 4096 * u + f" "f < 4096"
  shows "u < 2 ^ 31 * 1000000 \<Longrightarrow> \<exists>t. ufs_timeval stck = Some t \<and> unat (v1_seconds t) = u div 1000000
      \<and> unat (v1_useconds t) = u mod 1000000"
    and "2 ^ 31 * 1000000 \<le> u \<Longrightarrow> ufs_timeval stck = None"
proof -
  let ?t = "drop_bit 12 (stck - STCK_1970)"
  have "STCK_1970 \<le> stck" using assms(1) by (simp add: word_le_nat_alt)
  then have "unat (stck - STCK_1970) = 4096 * u + f" using assms(1) by (simp add: unat_sub)
  moreover have "(4096 * u + f) div 4096 = u" using assms(2) by (intro div_nat_eqI) simp_all
  ultimately have t: "unat ?t = u" by (simp add: drop_bit_eq_div unat_div)
  have "unat ?t < 2 ^ 63"
  proof -
    have "unat stck < 2 ^ 64" using unsigned_less [where w = stck] by simp
    then show ?thesis using assms(1) t by simp
  qed
  then have s: "sint ?t = int u" using sint_pos64 [of ?t] unfolding t by simp
  have d: "divide_pair ?t 1000000 = (if u div 1000000 < 2 ^ 31
      then Some (of_nat (u div 1000000), of_nat (u mod 1000000)) else None)"
  proof -
    have m: "sint (1000000 :: u32) = int 1000000" by simp
    have q: "sint ?t div sint (1000000 :: u32) = int (u div 1000000)" "sint ?t mod sint (1000000 :: u32) = int (u mod 1000000)"
      unfolding s m by (rule zdiv_int [symmetric] zmod_int [symmetric])+
    have "int (u div 1000000) < 2 ^ 31 \<longleftrightarrow> u div 1000000 < 2 ^ 31"
      by (metis of_nat_less_iff of_nat_numeral of_nat_power)
    then show ?thesis unfolding divide_pair_def q Let_def of_int_of_nat_eq by simp
  qed
  have "u div 1000000 < 2 ^ 31 \<longleftrightarrow> u < 2 ^ 31 * 1000000" by (simp add: div_less_iff_less_mult)
  then show "u < 2 ^ 31 * 1000000 \<Longrightarrow> \<exists>t. ufs_timeval stck = Some t \<and> unat (v1_seconds t) = u div 1000000
      \<and> unat (v1_useconds t) = u mod 1000000"
    and "2 ^ 31 * 1000000 \<le> u \<Longrightarrow> ufs_timeval stck = None"
    by (simp_all add: ufs_timeval_def Let_def d halves unat_of_nat32)
qed

section \<open>The times of a file\<close>

lemma unat_v1: "unat (v1_seconds t) = unat t div 2 ^ 32" "unat (v1_useconds t) = unat t mod 2 ^ 32"
proof -
  have "unat t div 2 ^ 32 < 2 ^ 32" using unsigned_less [where w = t] by (simp add: div_less_iff_less_mult)
  then show "unat (v1_seconds t) = unat t div 2 ^ 32"
    by (simp add: v1_seconds_def unsigned_ucast_eq take_bit_nat_def unsigned_drop_bit_eq drop_bit_nat_def)
  show "unat (v1_useconds t) = unat t mod 2 ^ 32"
    by (simp add: v1_useconds_def unsigned_ucast_eq take_bit_nat_def)
qed


lemma unat_up64: "unat (ucast (x :: u32) :: u64) = unat x"
proof -
  have "unat x < 2 ^ 64" using unat_lt32 [of x] by simp
  then show ?thesis by (simp add: unsigned_ucast_eq take_bit_nat_eq_self)
qed

lemma unat_v1_to_v2: "unat (ufs_v1_to_v2 t) = unat t div 2 ^ 32 * 1000 + unat t mod 2 ^ 32 div 1000"
proof -
  have d: "unat (v1_useconds t div 1000) = unat t mod 2 ^ 32 div 1000" by (simp add: unat_div unat_v1)
  have lt: "unat t div 2 ^ 32 < 2 ^ 32" "unat t mod 2 ^ 32 div 1000 < 2 ^ 32"
    using unat_lt32 [of "v1_seconds t"] unat_lt32 [of "v1_useconds t div 1000"] unfolding unat_v1 d by simp_all
  have m: "unat (ucast (v1_seconds t) * 1000 :: u64) = unat t div 2 ^ 32 * 1000"
    using lt(1) by (simp add: unat_word_ariths unat_up64 unat_v1)
  show ?thesis using lt by (simp add: ufs_v1_to_v2_def unat_word_ariths(1) m unat_up64 d)
qed

lemma time_v2_unat:
  "unat (time_v2 t) = (if unat t mod 2 ^ 32 < 1000000 then unat t div 2 ^ 32 * 1000 + unat t mod 2 ^ 32 div 1000 else unat t)"
  by (simp add: time_v2_def word_less_nat_alt unat_v1 unat_v1_to_v2)

text \<open>A version 1 time survives its way to the disk and into a listing, as long as its milliseconds do not look like one.\<close>

lemma v1_time_listed:
  assumes "unat t mod 2 ^ 32 < 1000000" "1000 \<le> unat t div 2 ^ 32"
    "1000000 \<le> (unat t div 2 ^ 32 * 1000 + unat t mod 2 ^ 32 div 1000) mod 2 ^ 32"
  shows "unat (time_v2 (ufs_v1_to_v2 t)) = unat t div 2 ^ 32 * 1000 + unat t mod 2 ^ 32 div 1000"
  using assms(3) by (simp add: time_v2_unat unat_v1_to_v2)

lemma times_of_new_file:
  assumes a: "at_ctime attr = t" "at_mtime attr = t" "at_atime attr = t"
    and t: "2 ^ 32 \<le> unat t" "unat t < 1000 * 2 ^ 32" "unat t mod 2 ^ 32 < 1000000"
    and d: "set_times os attr d s = (d', s')"
  shows "unat (time_v2 (di_ctime d')) = unat t div 2 ^ 32" "unat (time_v2 (di_mtime d')) = unat t div 2 ^ 32"
    "unat (time_v2 (di_atime d')) = unat t div 2 ^ 32" "s' = s"
proof -
  have "1 \<le> unat t div 2 ^ 32" using t(1) by (simp add: div_greater_zero_iff Suc_le_eq)
  then have "is_v1 t" using t(3) by (simp add: is_v1_def word_less_nat_alt unat_v1)
  then have d': "d' = d\<lparr>di_ctime := ufs_v1_to_v2 t, di_mtime := ufs_v1_to_v2 t, di_atime := ufs_v1_to_v2 t\<rparr>" and s: "s' = s"
    using d a by (simp_all add: set_times_def)
  have "unat t div 2 ^ 32 < 1000" using t(2) by (simp add: div_less_iff_less_mult)
  moreover have r: "unat t mod 2 ^ 32 div 1000 < 1000" using t(3) by (simp add: div_less_iff_less_mult)
  ultimately have "unat t div 2 ^ 32 * 1000 + unat t mod 2 ^ 32 div 1000 < 1000000" by linarith
  moreover have "(unat t div 2 ^ 32 * 1000 + unat t mod 2 ^ 32 div 1000) div 1000 = unat t div 2 ^ 32"
    using r by (intro div_nat_eqI) simp_all
  ultimately have "unat (time_v2 (ufs_v1_to_v2 t)) = unat t div 2 ^ 32" by (simp add: time_v2_unat unat_v1_to_v2)
  then show "unat (time_v2 (di_ctime d')) = unat t div 2 ^ 32" "unat (time_v2 (di_mtime d')) = unat t div 2 ^ 32"
    "unat (time_v2 (di_atime d')) = unat t div 2 ^ 32" by (simp_all add: d')
  show "s' = s" by (rule s)
qed

end
