(* ===== verification/Dumps.thy ===== *)
theory Dumps
  imports Times
begin

text \<open>
  Dumps to the console (\<^verbatim>\<open>src/ufsindmp.c\<close>, \<^verbatim>\<open>ufsdmpin.c\<close>, \<^verbatim>\<open>ufsdadmp.c\<close>,
  \<^verbatim>\<open>kprintf.c\<close>, \<^verbatim>\<open>ufspanic.c\<close>). What a function writes is the list of its calls of
  \<^verbatim>\<open>wtof\<close>, each a format with its arguments; formatting them, the name of the caller and the text
  of a time are the C library's.
\<close>

datatype warg = Num u64 | Text "byte list"

type_synonym line = "string \<times> warg list"

record dumplib =
  wl_caller :: "byte list"
  wl_ctime :: "u32 \<Rightarrow> byte list"
  wl_uctime64 :: "u64 \<Rightarrow> byte list"

definition wtof :: "string \<Rightarrow> warg list \<Rightarrow> line" where
  "wtof fmt args = (fmt, args)"

definition kprintf :: "string \<Rightarrow> warg list \<Rightarrow> int \<times> line list" where
  "kprintf fmt args = (1, [wtof fmt args])"

text \<open>\<open>traceback\<close> is what the C library writes of the call stack.\<close>

definition ufs_panic :: "line list \<Rightarrow> string \<Rightarrow> warg list \<Rightarrow> line list" where
  "ufs_panic traceback fmt args = wtof fmt args # traceback"

section \<open>Inodes\<close>

definition dump_type :: "minode \<Rightarrow> string" where
  "dump_type m =
     (let has_bit = (\<lambda>b. mi_type m AND b \<noteq> 0) in
      if has_bit MINODE_TYPE_FILE then ''FILE''
      else if has_bit MINODE_TYPE_FSROOT then ''FSROOT''
      else if has_bit MINODE_TYPE_MOUNTPOINT then ''MOUNTPOINT''
      else if has_bit MINODE_TYPE_DIR then ''DIR''
      else if ufs_inode_isdir (mi_dinode m) then ''DIR''
      else if ufs_inode_isfile (mi_dinode m) then ''FILE''
      else ''????'')"

definition dump_time :: "dumplib \<Rightarrow> string \<Rightarrow> u64 \<Rightarrow> u64 \<Rightarrow> line" where
  "dump_time lib fmt tested t =
     wtof fmt [Text (if v1_useconds tested < 1000000 then wl_ctime lib (v1_seconds t) else wl_uctime64 lib t)]"

text \<open>The version of the access time is told from the creation time, as in the code.\<close>

definition ufs_inode_dump :: "dumplib \<Rightarrow> minode \<Rightarrow> line list" where
  "ufs_inode_dump lib m =
     (let d = mi_dinode m in
      [ wtof ''%s for caller %s'' [Text (str ''ufs_inode_dump''), Text (wl_caller lib)],
        wtof ''inode %u, usecount=%u, flags=%02X, type=%s''
          [Num (ucast (mi_inode_number m)), Num (ucast (mi_usecount m)), Num (ucast (mi_flags m)), Text (str (dump_type m))],
        wtof ''   nlink:%u mode:%06o'' [Num (ucast (di_nlink d)), Num (ucast (di_mode d))],
        wtof ''   uid:%s gid:%s filesize:%u bytes''
          [Text (cstr (di_owner d)), Text (cstr (di_group d)), Num (ucast (di_filesize d))],
        (if v1_useconds (di_ctime d) < 1000000
         then wtof ''   atime %d mtime %d ctime %d''
           [Num (ucast (v1_seconds (di_atime d))), Num (ucast (v1_seconds (di_mtime d))), Num (ucast (v1_seconds (di_ctime d)))]
         else wtof ''   atime %lld mtime %lld ctime %lld'' [Num (di_atime d), Num (di_mtime d), Num (di_ctime d)]),
        dump_time lib ''    atime %s'' (di_ctime d) (di_atime d),
        dump_time lib ''    mtime %s'' (di_mtime d) (di_mtime d),
        dump_time lib ''    ctime %s'' (di_ctime d) (di_ctime d),
        wtof '' '' [] ])"

text \<open>All inodes of the cache; a stale pointer in it is \<open>None\<close>.\<close>

fun dump_all :: "dumplib \<Rightarrow> (nat \<Rightarrow> minode option) \<Rightarrow> nat list \<Rightarrow> line list option" where
  "dump_all lib store [] = Some []"
| "dump_all lib store (p # ps) =
     do { m \<leftarrow> store p; rest \<leftarrow> dump_all lib store ps; Some (ufs_inode_dump lib m @ rest) }"

definition ufs_dump_inodes :: "dumplib \<Rightarrow> 'd vol option \<Rightarrow> line list option" where
  "ufs_dump_inodes lib vdisk =
     do { lines \<leftarrow> (case vdisk of None \<Rightarrow> Some [] | Some s \<Rightarrow> dump_all lib (v_mstore s) (v_minodes s));
          Some (wtof ''%s for caller %s'' [Text (str ''ufs_dump_inodes''), Text (wl_caller lib)] # lines) }"

section \<open>Address maps\<close>

definition ufs_daddr_map_dump :: "adrm \<Rightarrow> line list option" where
  "ufs_daddr_map_dump amap =
     (let n = (if am_level amap = 0 then 1 else am_level amap) in
      if length (am_index amap) < n then None else
      Some (wtof ''%s level %d '' [Text (str ''ufs_daddr_map_dump''), Num (of_nat (am_level amap))]
        # map (\<lambda>i. wtof '' [%d]'' [Num (ucast i)]) (take n (am_index amap)) @ [wtof '' '' []]))"

section \<open>What the dumps show\<close>

text \<open>Every inode of the cache is shown, in the order of the cache, with nine lines each.\<close>

lemma dump_inode_lines: "length (ufs_inode_dump lib m) = 9"
  by (simp add: ufs_inode_dump_def Let_def)

lemma dump_all_lines: "dump_all lib store ps = Some lines \<Longrightarrow> length lines = 9 * length ps"
  by (induction ps arbitrary: lines) (auto simp: bind_eq_Some_conv dump_inode_lines)

lemma dump_all_order:
  "dump_all lib store ps = Some lines \<Longrightarrow> lines = concat (map (\<lambda>p. ufs_inode_dump lib (the (store p))) ps)"
  by (induction ps arbitrary: lines) (auto simp: bind_eq_Some_conv)

lemma map_dump_defined:
  "length (am_index amap) = (if am_level amap = 0 then 1 else am_level amap) \<Longrightarrow>
     \<exists>lines. ufs_daddr_map_dump amap = Some lines \<and> length lines = length (am_index amap) + 2"
  by (simp add: ufs_daddr_map_dump_def Let_def)

text \<open>A path of the block tree is such a amap.\<close>

lemma path_dump_defined: "\<exists>lines. ufs_daddr_map_dump (adrm_of (fpath n i)) = Some lines"
  using map_dump_defined [of "adrm_of (fpath n i)"] by (auto simp: fpath_def adrm_of_def Let_def split: if_splits)

end
