(* ===== verification/Lines.thy ===== *)
theory Lines
  imports Stream
begin

text \<open>
  Reading character by character and line by line (\<^verbatim>\<open>src/ufsfgetc.c\<close>,
  \<^verbatim>\<open>ufs#fgts.c\<close>): \<^verbatim>\<open>ufs_fgets\<close> hands out the lines of a file one after the other, and a
  program that calls it until it returns \<^verbatim>\<open>NULL\<close>, as \<^verbatim>\<open>ufs_fstab\<close> does, gets
  through the file.
\<close>

text \<open>A handle that reads, at position \<open>p\<close>; \<open>e\<close> is its end-of-file indicator.\<close>

definition reader :: "'d os \<Rightarrow> ('d \<Rightarrow> u32 \<Rightarrow> block) \<Rightarrow> nat \<Rightarrow> minode \<Rightarrow> u32 list \<Rightarrow> nat \<Rightarrow> bool \<Rightarrow> ufile \<Rightarrow> 'd vol \<Rightarrow> bool" where
  "reader os ct k m L p e fp s \<longleftrightarrow> file_handle os ct k s fp m L \<and> (\<exists>i. at_block ct s fp m i)
     \<and> \<not> has (fl_ind fp) FILE_IND_DIRTY \<and> has (fl_mode fp) FILE_MODE_READ \<and> \<not> has (fl_ind fp) FILE_IND_ERROR
     \<and> has (fl_ind fp) FILE_IND_EOF = e \<and> unat (fl_filepos fp) = p
     \<and> p \<le> unat (di_filesize (mi_dinode m)) \<and> (e \<longrightarrow> p = unat (di_filesize (mi_dinode m)))"

lemma reader_vsame:
  assumes "reader os ct k m L p e fp s" "bgood os ct k s' L" "vsame ct s s'"
  shows "reader os ct k m L p e fp s'"
proof -
  have h: "file_handle os ct k s fp m L" using assms(1) by (simp add: reader_def)
  have "file_handle os ct k s' fp m L"
    by (rule file_handle_vsame [OF h assms(2,3)]) (simp_all add: file_handleD(7) [OF h])
  then show ?thesis using assms(1) at_block_vsame [OF assms(3)] by (simp add: reader_def)
qed

lemma getc_ok:
  assumes "reader os ct k m L p e fp s"
  obtains fp' s' where
    "ufs_file_getc os s fp = (if p < unat (di_filesize (mi_dinode m))
       then Some (uint (file_bytes ct s m ! p), fp', s') else Some (- 1, fp', s'))"
    "reader os ct k m L (if p < unat (di_filesize (mi_dinode m)) then Suc p else p)
       (\<not> p < unat (di_filesize (mi_dinode m))) fp' s'" "vsame ct s s'"
proof -
  let ?z = "unat (di_filesize (mi_dinode m))" and ?bs = "unat (v_blksize s)"
  have h: "file_handle os ct k s fp m L" and nd: "\<not> has (fl_ind fp) FILE_IND_DIRTY" and rd: "has (fl_mode fp) FILE_MODE_READ"
    and ne: "\<not> has (fl_ind fp) FILE_IND_ERROR" and p: "unat (fl_filepos fp) = p" "p \<le> ?z"
    and e: "has (fl_ind fp) FILE_IND_EOF \<longleftrightarrow> e" "e \<Longrightarrow> p = ?z"
    using assms by (auto simp: reader_def)
  obtain i where b: "at_block ct s fp m i" using assms by (auto simp: reader_def)
  note d = file_handleD [OF h]
  consider "e" | "\<not> e" "p = ?z" | "p < ?z" "\<not> e" using p(2) e(2) by fastforce
  then show ?thesis
  proof cases
    case 1
    then have "ufs_file_getc os s fp = Some (- 1, fp, s)" using e(1) by (simp add: ufs_file_getc_def)
    then show ?thesis using that [of fp s] assms 1 e(2) by simp
  next
    case 2
    then have "ufs_file_getc os s fp = Some (- 1, ind_on FILE_IND_EOF fp, s)"
      using rd ne e(1) p d(4) by (simp add: ufs_file_getc_def word_le_nat_alt)
    moreover have "reader os ct k m L p True (ind_on FILE_IND_EOF fp) s"
      using h nd rd ne p 2 b by (auto simp: reader_def)
    ultimately show ?thesis using that [of "ind_on FILE_IND_EOF fp" s] 2(2) by simp
  next
    case 3
    have z: "?z \<le> 2 ^ 31" by (rule file_okD(4) [OF d(2)])
    have "\<exists>fp1 s1 i1. (if fl_blkpos fp \<ge> fl_blksize fp then load_block os s fp (fl_filepos fp + 1) else Some (RcOk, fp, s))
        = Some (RcOk, fp1, s1) \<and> file_handle os ct k s1 fp1 m L \<and> vsame ct s s1 \<and> at_block ct s1 fp1 m i1
        \<and> fl_filepos fp1 = fl_filepos fp \<and> fl_ind fp1 = fl_ind fp \<and> fl_mode fp1 = fl_mode fp \<and> unat (fl_blkpos fp1) < ?bs"
    proof (cases "fl_blkpos fp \<ge> fl_blksize fp")
      case True
      obtain fp1 s1 where l: "load_block os s fp (fl_filepos fp + 1) = Some (RcOk, fp1, s1)"
        "file_handle os ct k s1 fp1 m L" "vsame ct s s1" "at_block ct s1 fp1 m (unat (fl_filepos fp) div ?bs)"
        "fl_filepos fp1 = fl_filepos fp" "fl_ind fp1 = fl_ind fp" "fl_mode fp1 = fl_mode fp"
        "unat (fl_blkpos fp1) = unat (fl_filepos fp) mod ?bs"
        by (rule load_next [OF h nd]) (use p 3(1) in simp)
      then show ?thesis using True bgood_bs [OF d(1)] by (auto simp: mod_less_divisor)
    next
      case False
      then have "unat (fl_blkpos fp) < ?bs" using d(6) by (simp add: word_le_nat_alt)
      then show ?thesis using False h b vsame_refl by auto
    qed
    then obtain fp1 s1 i1 where l: "(if fl_blkpos fp \<ge> fl_blksize fp then load_block os s fp (fl_filepos fp + 1)
        else Some (RcOk, fp, s)) = Some (RcOk, fp1, s1)" "file_handle os ct k s1 fp1 m L" "vsame ct s s1"
      "at_block ct s1 fp1 m i1" "fl_filepos fp1 = fl_filepos fp" "fl_ind fp1 = fl_ind fp" "fl_mode fp1 = fl_mode fp"
      "unat (fl_blkpos fp1) < ?bs" by blast
    have bs1: "v_blksize s1 = v_blksize s" by (rule vsameD(4) [OF l(3)])
    have fb: "file_bytes ct s1 m = file_bytes ct s m" using file_vsame(2) [OF l(3)] by (simp add: file_bytes_def)
    have a: "unat (fl_blkpos fp1) + 1 \<le> unat (v_blksize s1)" "unat (fl_filepos fp1) + 1 \<le> ?z"
      using l(5,8) p 3(1) bs1 by simp_all
    have "slice_opt (unat (fl_blkpos fp1)) 1 (fl_blkbuf fp1) = Some (slice p 1 (file_bytes ct s m))"
      using avail_bytes [OF l(2,4) _ a] nd l(5,6) p fb by simp
    then have c: "nth_opt (fl_blkbuf fp1) (unat (fl_blkpos fp1)) = Some (file_bytes ct s m ! p)"
      using a(1) 3(1) length_file_bytes [OF d(1,2)]
      by (auto simp: slice_opt_def slice_def nth_opt_def take_Suc hd_drop_conv_nth split: if_splits)
    have "ufs_file_getc os s fp = Some (uint (file_bytes ct s m ! p), advance 1 fp1, s1)"
      using rd ne e(1) 3 p d(4) l(1) c by (simp add: ufs_file_getc_def word_le_nat_alt advance_def)
    moreover have "reader os ct k m L (Suc p) False (advance 1 fp1) s1"
    proof -
      have "unat (fl_filepos fp1 + 1) = Suc p" using unat_add32 [of "fl_filepos fp1" 1] l(5) p 3(1) z by simp
      moreover have "file_handle os ct k s1 (advance 1 fp1) m L"
        by (rule file_handle_vsame [OF l(2) file_handleD(1) [OF l(2)] vsame_refl]) (simp_all add: file_handleD(7) [OF l(2)])
      moreover have "at_block ct s1 (advance 1 fp1) m i1"
        by (rule at_block_advance [OF l(4)]) (use nd l(5,6) a p 3(1) z in simp_all)
      ultimately show ?thesis using nd rd ne e(1) 3 l(6,7) by (auto simp: reader_def)
    qed
    ultimately show ?thesis using that [of "advance 1 fp1" s1] l(3) 3(1) by simp
  qed
qed

section \<open>Lines\<close>

text \<open>A line ends behind its newline, or after \<open>n\<close> characters.\<close>

fun first_line :: "byte \<Rightarrow> nat \<Rightarrow> byte list \<Rightarrow> byte list" where
  "first_line nl 0 bs = []"
| "first_line nl (Suc n) [] = []"
| "first_line nl (Suc n) (b # bs) = (if b = nl \<or> b = 0x0A then [b] else b # first_line nl n bs)"

lemma first_line_prefix: "first_line nl n bs @ drop (length (first_line nl n bs)) bs = bs"
  by (induction nl n bs rule: first_line.induct) auto

lemma length_first_line: "length (first_line nl n bs) \<le> length bs"
  by (induction nl n bs rule: first_line.induct) auto

lemma first_line_empty: "0 < n \<Longrightarrow> first_line nl n bs = [] \<longleftrightarrow> bs = []"
  by (cases n; cases bs) auto

function lines :: "byte \<Rightarrow> nat \<Rightarrow> byte list \<Rightarrow> byte list list" where
  "lines nl n bs = (if n = 0 \<or> bs = [] then []
     else first_line nl n bs # lines nl n (drop (length (first_line nl n bs)) bs))"
  by pat_completeness auto
termination
  by (relation "measure (\<lambda>(nl, n, bs). length bs)") (auto simp: first_line_empty)

declare lines.simps [simp del]

lemma concat_lines: "0 < n \<Longrightarrow> concat (lines nl n bs) = bs"
proof (induction nl n bs rule: lines.induct)
  case (1 nl n bs)
  then show ?case by (cases "bs = []") (simp_all add: lines.simps [of nl n] first_line_prefix)
qed

lemma gets_loop_ok:
  assumes "reader os ct k m L p e fp s"
  obtains fp' s' e' where "gets_loop os nl n s fp = Some (first_line nl n (drop p (file_bytes ct s m)), fp', s')"
    "reader os ct k m L (p + length (first_line nl n (drop p (file_bytes ct s m)))) e' fp' s'" "vsame ct s s'"
  using assms
proof (induction n arbitrary: p e fp s thesis)
  case 0
  show ?case by (rule 0(1) [of fp s e]) (use 0(2) in simp_all)
next
  case (Suc n)
  let ?z = "unat (di_filesize (mi_dinode m))" and ?b = "file_bytes ct s m"
  have fh: "file_handle os ct k s fp m L" using Suc.prems(2) by (simp add: reader_def)
  have len: "length ?b = ?z" by (rule length_file_bytes [OF file_handleD(1,2) [OF fh]])
  obtain fp1 s1 where c: "ufs_file_getc os s fp = (if p < ?z then Some (uint (?b ! p), fp1, s1) else Some (- 1, fp1, s1))"
    "reader os ct k m L (if p < ?z then Suc p else p) (\<not> p < ?z) fp1 s1" "vsame ct s s1"
    by (rule getc_ok [OF Suc.prems(2)])
  show ?case
  proof (cases "p < ?z")
    case False
    then have "drop p ?b = []" using len by simp
    then show ?thesis using Suc.prems(1) [of fp1 s1 True] c False by simp
  next
    case True
    then have dr: "drop p ?b = ?b ! p # drop (Suc p) ?b" using len by (simp add: Cons_nth_drop_Suc)
    have u: "\<not> uint (?b ! p) < 0" by simp
    show ?thesis
    proof (cases "?b ! p = nl \<or> ?b ! p = 0x0A")
      case nl: True
      then have "gets_loop os nl (Suc n) s fp = Some ([?b ! p], fp1, s1)" using c(1) True u by simp
      then show ?thesis using Suc.prems(1) [of fp1 s1 False] c(2,3) True nl unfolding dr by simp
    next
      case no: False
      have r1: "reader os ct k m L (Suc p) False fp1 s1" using c(2) True by simp
      have fb: "file_bytes ct s1 m = ?b" using file_vsame(2) [OF c(3)] by (simp add: file_bytes_def)
      obtain fp2 s2 e2 where g: "gets_loop os nl n s1 fp1 = Some (first_line nl n (drop (Suc p) ?b), fp2, s2)"
        "reader os ct k m L (Suc p + length (first_line nl n (drop (Suc p) ?b))) e2 fp2 s2" "vsame ct s1 s2"
        using Suc.IH [OF _ r1] unfolding fb by blast
      have "gets_loop os nl (Suc n) s fp = Some (?b ! p # first_line nl n (drop (Suc p) ?b), fp2, s2)"
        using c(1) True u no g(1) by simp
      then show ?thesis using Suc.prems(1) [of fp2 s2 e2] g(2) vsame_trans [OF c(3) g(3)] no unfolding dr by simp
    qed
  qed
qed

lemma gets_ok:
  assumes r: "reader os ct k m L p e fp s" and num: "2 \<le> num"
    and l: "l = first_line nl (nat (num - 1)) (drop p (file_bytes ct s m))"
  obtains fp' s' e' where "ufs_fgets os nl s num (Some fp) = Some ((if l = [] then None else Some l, Some fp'), s')"
    "reader os ct k m L (p + length l) e' fp' s'" "vsame ct s s'"
proof -
  have g: "bgood os ct k s L" and rd: "has (fl_mode fp) FILE_MODE_READ" using r by (simp_all add: reader_def file_handle_def)
  obtain lr s1 where s1: "lock os LkFile s = (lr, s1)" "bgood os ct k s1 L" "vsame ct s s1" by (rule bgood_lock [OF g])
  have fb: "file_bytes ct s1 m = file_bytes ct s m" using file_vsame(2) [OF s1(3)] by (simp add: file_bytes_def)
  obtain fp2 s2 e2 where s2: "gets_loop os nl (nat (num - 1)) s1 fp = Some (l, fp2, s2)"
    "reader os ct k m L (p + length l) e2 fp2 s2" "vsame ct s1 s2"
    using gets_loop_ok [OF reader_vsame [OF r s1(2,3)], of nl "nat (num - 1)"] unfolding fb l by blast
  have g2: "bgood os ct k s2 L" using s2(2) by (simp add: reader_def file_handle_def)
  note u = bgood_unlock [OF g2, of lr LkFile]
  show ?thesis
    by (rule that [OF _ reader_vsame [OF s2(2) u] vsame_trans [OF vsame_trans [OF s1(3) s2(3)] u(2)]])
      (use num s1(1) s2(1) rd in \<open>simp add: ufs_fgets_def file_locked_def regroup_def\<close>)
qed

text \<open>What a program gets from \<open>n\<close> calls.\<close>

fun fgets_times :: "'d os \<Rightarrow> byte \<Rightarrow> int \<Rightarrow> nat \<Rightarrow> 'd vol \<Rightarrow> ufile option \<Rightarrow>
    (byte list option list \<times> ufile option \<times> 'd vol) option" where
  "fgets_times os nl num 0 s fp = Some ([], fp, s)"
| "fgets_times os nl num (Suc n) s fp =
     do { ((l, fp), s) \<leftarrow> ufs_fgets os nl s num fp;
          (ls, fp, s) \<leftarrow> fgets_times os nl num n s fp;
          Some (l # ls, fp, s) }"

lemma fgets_times_ok:
  assumes "reader os ct k m L p e fp s" "2 \<le> num" "drop p (file_bytes ct s m) = bs"
  obtains fp' s' where "fgets_times os nl num (Suc (length (lines nl (nat (num - 1)) bs))) s (Some fp)
      = Some (map Some (lines nl (nat (num - 1)) bs) @ [None], Some fp', s')" "vsame ct s s'"
    "reader os ct k m L (unat (di_filesize (mi_dinode m))) True fp' s'"
  using assms
proof (induction "length bs" arbitrary: bs p e fp s thesis rule: less_induct)
  case less
  let ?n = "nat (num - 1)" and ?z = "unat (di_filesize (mi_dinode m))"
  let ?l = "first_line nl ?n bs"
  have n: "0 < ?n" using less.prems(3) by simp
  obtain fp1 s1 e1 where g: "ufs_fgets os nl s num (Some fp) = Some ((if ?l = [] then None else Some ?l, Some fp1), s1)"
    "reader os ct k m L (p + length ?l) e1 fp1 s1" "vsame ct s s1"
    using gets_ok [OF less.prems(2,3) refl, of nl] unfolding less.prems(4) by blast
  show ?case
  proof (cases "bs = []")
    case True
    have fh: "file_handle os ct k s fp m L" and le: "p \<le> ?z" using less.prems(2) by (simp_all add: reader_def)
    have "length (file_bytes ct s m) = ?z" by (rule length_file_bytes [OF file_handleD(1,2) [OF fh]])
    then have pz: "p = ?z" using less.prems(4) True le by simp
    have "?l = []" using True by (cases ?n) simp_all
    then have "fgets_times os nl num (Suc 0) s (Some fp) = Some ([None], Some fp1, s1)" using g(1) by simp
    moreover have "reader os ct k m L ?z True fp1 s1"
    proof -
      obtain lr s' where s': "lock os LkFile s = (lr, s')" "bgood os ct k s' L" "vsame ct s s'"
        by (rule bgood_lock [OF file_handleD(1) [OF fh]])
      obtain fp2 s2 where c: "ufs_file_getc os s' fp = (if p < ?z then Some (uint (file_bytes ct s' m ! p), fp2, s2) else Some (- 1, fp2, s2))"
        "reader os ct k m L (if p < ?z then Suc p else p) (\<not> p < ?z) fp2 s2" "vsame ct s' s2"
        by (rule getc_ok [OF reader_vsame [OF less.prems(2) s'(2,3)]])
      obtain i where "?n = Suc i" using n by (cases ?n) auto
      then have "gets_loop os nl ?n s' fp = Some ([], fp2, s2)" using c(1) pz by simp
      then have "fp1 = fp2"
        using g(1) s'(1) less.prems(2,3) by (simp add: ufs_fgets_def file_locked_def regroup_def reader_def)
      then have "has (fl_ind fp1) FILE_IND_EOF" using c(2) pz by (simp add: reader_def)
      then show ?thesis using g(2) \<open>?l = []\<close> pz by (simp add: reader_def)
    qed
    ultimately show ?thesis using less.prems(1) [of fp1 s1] g(3) True by (simp add: lines.simps)
  next
    case False
    then have l: "?l \<noteq> []" using first_line_empty [OF n] by simp
    let ?bs = "drop (length ?l) bs"
    have fb: "file_bytes ct s1 m = file_bytes ct s m" using file_vsame(2) [OF g(3)] by (simp add: file_bytes_def)
    have dr: "drop (p + length ?l) (file_bytes ct s1 m) = ?bs"
    proof -
      have "drop (p + n) xs = drop n (drop p xs)" for n and xs :: "byte list" by (simp add: add.commute)
      then show ?thesis unfolding fb less.prems(4) [symmetric] .
    qed
    have lt: "length ?bs < length bs" using l False by simp
    obtain fp2 s2 where r: "fgets_times os nl num (Suc (length (lines nl ?n ?bs))) s1 (Some fp1)
        = Some (map Some (lines nl ?n ?bs) @ [None], Some fp2, s2)" "vsame ct s1 s2"
      "reader os ct k m L ?z True fp2 s2"
      by (rule less.hyps [OF lt _ g(2) less.prems(3) dr])
    have ls: "lines nl ?n bs = ?l # lines nl ?n ?bs" using n False by (subst lines.simps) simp
    have "fgets_times os nl num (Suc (length (lines nl ?n bs))) s (Some fp)
        = Some (map Some (lines nl ?n bs) @ [None], Some fp2, s2)"
      unfolding ls length_Cons fgets_times.simps(2) [of _ _ _ "Suc (length (lines nl ?n ?bs))"]
      by (simp add: g(1) l r(1) del: fgets_times.simps)
    then show ?thesis by (rule less.prems(1) [OF _ vsame_trans [OF g(3) r(2)] r(3)])
  qed
qed

end
