(* ===== verification/Spec2Isabelle.thy ===== *)
theory Spec2Isabelle
  imports Ram_System Layout Access Shrink Names Devices Devtab Dir_Remove Ram_Dirs Dumps Lines
begin

text \<open>
  UFS/370: a Unix-like file system for MVS 3.8j, kept in BDAM datasets. This library models the C
  code under \<^verbatim>\<open>src/src\<close> and \<^verbatim>\<open>src/include/ufs\<close> (below without the leading
  \<^verbatim>\<open>src/\<close>) and proves what makes its parts correct, up to the operations on files and
  directories by path.

  \<^bold>\<open>The program and its parts, from the dataset up\<close>

  Every layer calls the one before it only; each theory stands for a layer and keeps the names of
  the C functions for the definitions that model them.

  \<^item> Physical disk (\<^verbatim>\<open>src/ufsdk*.c\<close>): theory \<open>Disk\<close>. The record \<open>disk\<close> is the struct of
    \<^verbatim>\<open>include/ufs/disk.h\<close>, its boot block and super block decoded; block I/O, the pool of
    idle buffers, the byte layouts, opening and closing.
  \<^item> Page cache (\<^verbatim>\<open>src/ufspg*.c\<close>): theory \<open>Pager\<close>. Pages with deferred writes; a full cache
    gives up the least used page, flushed before if it is dirty.
  \<^item> Virtual disk (\<^verbatim>\<open>src/ufsvd*.c\<close>): theory \<open>Vdisk\<close>. Block I/O goes to the cache where there
    is one, else to the disk. The record \<open>vol\<close> of \<open>Ufs_Types\<close> is a virtual disk together with
    its disk, its cache, its cached inodes and the state of the world outside.
  \<^item> Free data blocks (\<^verbatim>\<open>src/ufsdaalc.c\<close>, \<^verbatim>\<open>ufsdadal.c\<close>, \<^verbatim>\<open>ufsdafup.c\<close>,
    \<^verbatim>\<open>ufsdasan.c\<close>): theory \<open>Freeblock\<close>.
  \<^item> Inodes and access control (\<^verbatim>\<open>src/ufsin*.c\<close>): theory \<open>Inode\<close>. Layout, loading, writing
    back, the cache of inodes in use with its use counts, allocation, the owner/group/world check.
  \<^item> Block map of a file (the other \<^verbatim>\<open>src/ufsda*.c\<close>): theory \<open>Blockmap\<close>; growing, shrinking
    and iterating over the data blocks through up to three levels of index blocks.
  \<^item> Directories and the files in them (\<^verbatim>\<open>src/ufsdir*.c\<close>, \<^verbatim>\<open>ufsfil*.c\<close>,
    \<^verbatim>\<open>ufsfi*.c\<close>): theories \<open>Directory\<close> and \<open>Files\<close>.
  \<^item> Open files (\<^verbatim>\<open>src/ufsf*.c\<close>, \<^verbatim>\<open>ufs#f*.c\<close>): theory \<open>Stream_Model\<close>; the
    position, the one-block buffer, the indicators, reads, writes, seeks.
  \<^item> Time stamps and the deprecated clock (\<^verbatim>\<open>include/ufs/time.h\<close>,
    \<^verbatim>\<open>src/ufs1to2.c\<close>, \<^verbatim>\<open>ufsdstv.c\<close>): theories \<open>Files\<close> and \<open>Times\<close>; the dumps of
    inodes and address maps (\<^verbatim>\<open>src/ufsindmp.c\<close>, \<^verbatim>\<open>ufsdmpin.c\<close>,
    \<^verbatim>\<open>ufsdadmp.c\<close>, \<^verbatim>\<open>kprintf.c\<close>, \<^verbatim>\<open>ufspanic.c\<close>): theory \<open>Dumps\<close>.
  \<^item> Path names (\<^verbatim>\<open>fix_path\<close> of \<^verbatim>\<open>src/ufs#lkup.c\<close> and the path code of its
    callers): theory \<open>Paths\<close>.
  \<^item> Users, sessions and current directories (\<^verbatim>\<open>src/ufsnew.c\<close>, \<^verbatim>\<open>ufsfree.c\<close>,
    \<^verbatim>\<open>ufs#son.c\<close>, \<^verbatim>\<open>ufs#soff.c\<close>, \<^verbatim>\<open>ufscwd*.c\<close> and the accessors
    \<^verbatim>\<open>ufs#g*.c\<close>, \<^verbatim>\<open>ufs#s*.c\<close>): theory \<open>System\<close>. The record \<open>sys\<close> is
    \<^verbatim>\<open>UFSSYS\<close> of \<^verbatim>\<open>include/ufs/sys.h\<close>, \<open>ufs\<close> the handle of a user.
  \<^item> Lookup by path (\<^verbatim>\<open>src/ufs#lkup.c\<close>, \<^verbatim>\<open>ufs#lmin.c\<close>): theory \<open>Lookup\<close>; opening,
    creating and closing: \<open>Open\<close>; making, removing, changing and listing directories: \<open>Dirops\<close>;
    mounting, fstab, synchronising, start and end of the system: \<open>Mount\<close>.
  \<^item> The table of names (\<^verbatim>\<open>src/ufsnm*.c\<close>), device handles (\<^verbatim>\<open>src/ufsdv*.c\<close>) and the
    device switch kept from XINU (\<^verbatim>\<open>src/devtab.c\<close>, \<^verbatim>\<open>x*.c\<close>): theories \<open>Names\<close>, \<open>Devices\<close>,
    \<open>Devtab\<close>. No function of the file system calls them; their drivers are not in the repository and are a
    parameter.


  \<^bold>\<open>How the state is carried\<close>

  The layers up to the block map pass the volume and the inode by value and return them as the C code
  leaves what its pointers refer to. From \<open>Directory\<close> on the inodes live in the store of the
  volume (\<open>v_mstore\<close>) and are known by their address, since there a function may reach the same
  inode along two ways; \<open>at_minode\<close> runs a function of the lower layers on a stored inode. The
  system has its volumes by number; an inode is then a pair of volume and address, and \<open>on_vol\<close> runs
  a function on one volume with the shared state of the outside world put into it.

  A function whose C counterpart may do something undefined (follow a null or stale pointer, index out
  of an array, divide by zero) returns an option, and \<open>None\<close> is that behaviour; theorems that
  show \<open>Some\<close> therefore also show its absence. Return codes are the values of the datatype
  \<open>rc\<close>. Integers are words of the width the code declares. Disk I/O cannot be undefined and is a
  total function. The dynamic arrays of the C library are lists, in which deleting moves the rest up.

  \<^bold>\<open>The world outside\<close>

  What is not under \<^verbatim>\<open>src/\<close> is a parameter: BDAM, locks, storage and the clock are the
  fields of a record \<open>'d os\<close> on a state \<open>'d\<close>; the C library, case folding, RACF and the table of
  DD names are those of \<open>env\<close>. Three groups of hypotheses say what is documented of them:
  \<open>os_laws\<close> (a read that succeeds delivers the block's content, a write changes no other block and
  when it succeeds stores its argument, everything else leaves the dataset alone), \<open>os_live\<close> (I/O
  inside the dataset, locks and storage requests succeed), used only where a theorem promises
  success, and \<open>racf_laws\<close>. \<open>Ram\<close>, \<open>Ram_Files\<close>, \<open>Ram_Dirs\<close> and \<open>Ram_System\<close> build a world in memory
  with a small volume, files, directories and a small system in which every hypothesis holds; the
  theorems ending in \<open>_witness\<close> are applications there.

  \<^bold>\<open>What is shown, and how\<close>

  \<^item> The interface \<open>block_io\<close> (\<open>Vdisk\<close>) is the contract of block I/O: the blocks a volume presents,
    whatever fails. It is interpreted by the disk, the cache and the virtual disk; the layers above
    use its facts for the third. \<open>vgood os ct lim k s\<close> says that the volume works and \<open>k\<close> more writes
    to the cache may follow. The bound exists because a page counts its writes in a 32-bit
    word and the cache takes a count of 0 for a clean page; each theorem states how many writes the
    operation needs (for example 7 per block a file grows by), and the bound on \<open>k\<close> below
    \<open>2 ^ 32\<close> is part of the invariant.
  \<^item> The free list (\<open>Freeblock\<close>): \<open>bgood os ct k s L\<close> says in addition that \<open>L\<close> is the list of
    free blocks the super block and the chain of link blocks denote; \<open>block_alloc\<close> is the contract of
    allocating and freeing with its interpretation.
  \<^item> The tree of blocks of a file (\<open>Blocktree\<close>, \<open>Shrink\<close>): positions as paths of indexes;
    growing, finding the block of a position, freeing from the leaves.
  \<^item> Files as byte sequences (\<open>Stream\<close>, \<open>Seek\<close>): reading returns a slice, writing overwrites and grows,
    synchronising makes the file on the volume equal to what the handle shows; \<open>Lines\<close> reads a file
    line by line to its end.
  \<^item> Directories as lists of entries (\<open>Entries\<close>, \<open>Dir_Add\<close>, \<open>Dir_Remove\<close>):
    \<^verbatim>\<open>ufs_datablock_foreach\<close> is a fold (interface \<open>block_fold\<close>), a search is \<open>find\<close> on the
    list, adding appends, removing fills the gap with the last entry. A removal or replacement first
    searches and then changes the one entry found (interface \<open>deferred\<close>).
  \<^item> The tree of directories (\<open>Dir_Move\<close>): the climb over the \<^verbatim>\<open>".."\<close> entries against the set
    \<open>ancestors\<close>.
  \<^item> What iteration and lookup leave alone (\<open>Store\<close>, \<open>Iterate\<close>, \<open>Walk\<close>), the path a lookup puts
    together, and the mount table as an invariant of all mounting operations (\<open>Mount_Table\<close>).
  \<^item> The super block and the disk inode byte by byte on the dataset, at the offsets of their structures
    (\<open>Layout\<close>): C code copies structures, the model encodes records, and these lemmas tie the two.
  \<^item> Access as a right of everybody, the owner or a group, over names instead of their fields (\<open>Access\<close>).
  \<^item> Sessions as a step relation (\<open>Session\<close>) with the users logged on to RACF as its trace.
  \<^item> The table of names as a map, the device handles as a forest (\<open>Names\<close>, \<open>Devices\<close>).

  The root theory states the properties C1, C2, \<dots> over these, the theorems that show
  faults of the code among them.

  \<^bold>\<open>Loops and bounds\<close>

  Loops over arrays and blocks are structural recursions on lists or counters. The C loops that run
  until something is found run here on a counter that the state gives: popping free blocks on the
  count of the super block, which every step lowers, the editing of a path on its length, which every
  step shortens, reads and writes on the number of bytes left. Four loops have no such bound: the climb
  from a directory over its \<^verbatim>\<open>".."\<close> entries in \<^verbatim>\<open>src/ufsfiren.c\<close>, the reading of
  \<^verbatim>\<open>/etc/fstab\<close> up to the end of the file, and the descents through the children of a device
  that find and free it; they are partial functions whose value is \<open>None\<close> where they do not end. The
  climb ends on a tree of directories (C36), the reading of lines comes to the end of the file (C24) and
  the search for a device ends on a forest (C40). The file theorems hold for files up to \<open>2 ^ 31\<close> bytes
  and blocks from 512 to 2048 bytes, which C4, C5 and \<open>small_blocks_index_overrun\<close> show to be the limit
  of the address arithmetic.

  \<^bold>\<open>Not modelled\<close>

  \<^item> The messages functions write to the console when they fail, and \<^verbatim>\<open>errno\<close>: no function of
    the file system reads them.
  \<^item> The branch of \<^verbatim>\<open>ufs_file_deallocate\<close> (\<^verbatim>\<open>src/ufsfidal.c\<close>) that removes a directory on
    which a volume is mounted is \<open>None\<close> here: it runs \<^verbatim>\<open>ufs_directory_remove_entry\<close> on the blocks
    of the mounted volume with the parent of this one, which a model that keeps every inode with its
    volume cannot say. Its caller \<^verbatim>\<open>ufs_rmdir\<close> refuses mount points before.
  \<^item> The headers borrowed from XINU (\<^verbatim>\<open>include/*.h\<close>) declare functions of a kernel that is not
    in the repository; only the device table, its macro and its codes are used by the sources.
\<close>

section \<open>Growing files and finding their blocks\<close>

text \<open>
  C1. On a working volume with enough free blocks, \<^verbatim>\<open>ufs_datablock_expand\<close> returns 0 and
  the file's content is what it was followed by zero blocks: it enters direct addresses, index blocks
  and leaves so that the address arithmetic finds every block; the new blocks are exactly those that
  left the free list, no other file's block and no other inode changes, and the inode on disk has the
  new size and addresses.
\<close>

theorem expand_appends_zero_blocks:
  assumes "file_ok ct s m L" "bgood os ct (k + 7 * c + 1) s L" "good_blksize s"
    and "unat (di_filesize (mi_dinode m)) + unat sz \<le> 2 ^ 31"
    and "blocks (unat (v_blksize s)) (unat (di_filesize (mi_dinode m)) + unat sz)
      = blocks (unat (v_blksize s)) (unat (di_filesize (mi_dinode m))) + c"
    and "blocks (unat (v_blksize s)) (unat (di_filesize (mi_dinode m)) + unat sz) \<le> max_blocks (per_block s)"
    and "4 * c \<le> length L"
  shows "\<exists>m' s' L'. ufs_datablock_expand os s m sz = Some (RcOk, m', s') \<and> bgood os ct k s' L'
    \<and> grown_file ct s m L s' m' L' c \<and> di_filesize (mi_dinode m') = di_filesize (mi_dinode m) + sz"
proof -
  obtain m' s' L' where e: "ufs_datablock_expand os s m sz = Some (RcOk, m', s')" "bgood os ct k s' L'"
    "grown_file ct s m L s' m' L' c" "m' = finished m (m_addr m') (di_filesize (mi_dinode m) + sz)"
    by (rule expand_ok [OF assms])
  then have "di_filesize (mi_dinode m') = di_filesize (mi_dinode m) + sz" by (metis finished_simps(2))
  then show ?thesis using e by blast
qed

theorem expand_appends_zero_blocks_witness:
  "\<exists>m' s' L'. ufs_datablock_expand ram (demo (Some cache)) demo_file 100 = Some (RcOk, m', s')
    \<and> bgood ram demo_ct 5 s' L' \<and> grown_file demo_ct (demo (Some cache)) demo_file demo_free s' m' L' 1
    \<and> di_filesize (mi_dinode m') = di_filesize (mi_dinode demo_file) + 100"
  by (rule expand_appends_zero_blocks [where k = 5 and c = 1])
     (simp_all add: demo_file_ok demo_bgood blocks_def max_blocks_def, simp_all add: demo_free_def)

text \<open>
  C2. \<^verbatim>\<open>ufs_datablock_last\<close> of byte \<open>off - 1\<close> inside a file follows the index blocks to
  the data block of the file that holds this byte, and changes nothing.
\<close>

theorem last_finds_block:
  assumes "file_ok ct s m L" "bgood os ct k s L" "good_blksize s" "0 < unat off" "unat off \<le> 2 ^ 31"
    and "(unat off - 1) div unat (v_blksize s) < length (file_blocks ct s m)"
  shows "\<exists>b s'. ufs_datablock_last os s m off = Some (b, s') \<and> b \<in> file_nodes ct s m
    \<and> vview ct s' b = file_blocks ct s m ! ((unat off - 1) div unat (v_blksize s))
    \<and> bgood os ct k s' L \<and> vsame ct s s'"
proof -
  let ?i = "(unat off - 1) div unat (v_blksize s)"
  have i: "?i < blocks (unat (v_blksize s)) (unat (di_filesize (mi_dinode m)))"
    using assms(6) by (simp add: file_blocks_def)
  obtain s' where l: "ufs_datablock_last os s m off = Some (node (vview ct s) (m_addr m) (fpath (per_block s) ?i), s')"
    "bgood os ct k s' L" "vsame ct s s'" by (rule last_ok [OF assms(1-5) refl i])
  have "fpath (per_block s) ?i \<in> m_pos s m"
    unfolding m_pos_def using i file_okD(5) [OF assms(1)] by (intro fpath_in) simp_all
  then show ?thesis
    using l i by (auto simp: file_nodes_def file_blocks_def file_block_def vsameD(1) [OF l(3)])
qed

theorem last_finds_block_witness:
  "\<exists>b s'. ufs_datablock_last ram (demo None) demo_file 1025 = Some (b, s') \<and> b \<in> file_nodes demo_ct (demo None) demo_file
    \<and> vview demo_ct s' b
        = file_blocks demo_ct (demo None) demo_file ! ((unat (1025 :: u32) - 1) div unat (v_blksize (demo None)))
    \<and> bgood ram demo_ct 1 s' demo_free \<and> vsame demo_ct (demo None) s'"
  by (rule last_finds_block [OF demo_file_ok]) (simp_all add: demo_bgood file_blocks_def blocks_def)

text \<open>
  C3. On a working volume with a free block left, \<^verbatim>\<open>ufs_datablock_contract\<close> returns 0 and the
  file keeps a prefix of its blocks, as many as its new size needs, through all three index levels and
  down to the empty file: exactly the blocks that no longer hang from it, index blocks among them, join the
  free list, each once, and no other file's block and no other inode changes.
\<close>

theorem contract_keeps_prefix:
  assumes "file_ok ct s m L" "bgood os ct (k + 7 * c + 1) s L" "good_blksize s" "L \<noteq> []"
    and "unat sz \<le> unat (di_filesize (mi_dinode m))"
    and "blocks (unat (v_blksize s)) (unat (di_filesize (mi_dinode m)))
      = blocks (unat (v_blksize s)) (unat (di_filesize (mi_dinode m) - sz)) + c"
  shows "\<exists>m' s' L'. ufs_datablock_contract os s m sz = Some (RcOk, m', s') \<and> bgood os ct k s' L'
    \<and> shrunk_file ct s m L s' m' L' (blocks (unat (v_blksize s)) (unat (di_filesize (mi_dinode m) - sz)))
    \<and> di_filesize (mi_dinode m') = di_filesize (mi_dinode m) - sz"
proof -
  obtain m' s' L' where e: "ufs_datablock_contract os s m sz = Some (RcOk, m', s')" "bgood os ct k s' L'"
    "shrunk_file ct s m L s' m' L' (blocks (unat (v_blksize s)) (unat (di_filesize (mi_dinode m) - sz)))"
    "m' = finished m (m_addr m') (di_filesize (mi_dinode m) - sz)" "frest s' = frest s"
    by (rule contract_ok [OF assms])
  then have "di_filesize (mi_dinode m') = di_filesize (mi_dinode m) - sz" by (metis finished_simps(2))
  with e show ?thesis by blast
qed

theorem contract_keeps_prefix_witness:
  "\<exists>m' s' L'. ufs_datablock_contract ram (demo None) demo_file 8100 = Some (RcOk, m', s')
    \<and> bgood ram demo_ct 1 s' L' \<and> shrunk_file demo_ct (demo None) demo_file demo_free s' m' L'
        (blocks (unat (v_blksize (demo None))) (unat (di_filesize (mi_dinode demo_file) - 8100)))
    \<and> di_filesize (mi_dinode m') = di_filesize (mi_dinode demo_file) - 8100"
proof -
  have "demo_free \<noteq> []" by (simp add: demo_free_def)
  then show ?thesis
    by (intro contract_keeps_prefix [where c = 15, OF demo_file_ok])
       (simp_all add: demo_bgood good_blksize_def blocks_def)
qed

text \<open>
  C4. \<^verbatim>\<open>ufs_datablock_addr\<close>: for blocks of 512, 1024 or 2048 bytes and sizes up to 2 GB
  the level and the indexes are those of block \<open>(sz - 1) / blksize\<close> in the order direct,
  single, double, triple index, and sizes ending in different blocks of a file the tree can hold get
  different paths.
\<close>

theorem address_arithmetic:
  assumes "geom s" "good_blksize s" "0 < unat a" "unat a \<le> 2 ^ 31" "0 < unat b" "unat b \<le> 2 ^ 31"
    and "(unat a - 1) div unat (v_blksize s) < max_blocks (per_block s)"
      "(unat b - 1) div unat (v_blksize s) < max_blocks (per_block s)"
  shows "\<exists>p q. ufs_datablock_addr s a = Some (RcOk, adrm_of p) \<and> ufs_datablock_addr s b = Some (RcOk, adrm_of q)
    \<and> p = fpath (per_block s) ((unat a - 1) div unat (v_blksize s)) \<and> leaf p \<and> pwf (per_block s) p
    \<and> (p = q \<longleftrightarrow> (unat a - 1) div unat (v_blksize s) = (unat b - 1) div unat (v_blksize s))"
proof -
  let ?bs = "unat (v_blksize s)" and ?n = "per_block s"
  note ap = addr_path [OF assms(1) geom_shift_le [OF assms(1,2)]]
  have "fpath ?n ((unat a - 1) div ?bs) = fpath ?n ((unat b - 1) div ?bs) \<longleftrightarrow>
      (unat a - 1) div ?bs = (unat b - 1) div ?bs"
    using fpath_pos(2) [OF assms(7)] fpath_pos(2) [OF assms(8)] by metis
  then show ?thesis using ap [OF assms(3,4)] ap [OF assms(5,6)] fpath_pos [OF assms(7)] by blast
qed

theorem address_arithmetic_witness:
  "\<exists>p q. ufs_datablock_addr (demo None) 8193 = Some (RcOk, adrm_of p)
    \<and> ufs_datablock_addr (demo None) 100000 = Some (RcOk, adrm_of q)
    \<and> p = fpath (per_block (demo None)) ((unat (8193 :: u32) - 1) div unat (v_blksize (demo None)))
    \<and> leaf p \<and> pwf (per_block (demo None)) p
    \<and> (p = q \<longleftrightarrow> (unat (8193 :: u32) - 1) div unat (v_blksize (demo None))
         = (unat (100000 :: u32) - 1) div unat (v_blksize (demo None)))"
  by (rule address_arithmetic) (simp_all add: demo_geom max_blocks_def)

text \<open>
  C5. With the 4096-byte blocks \<^verbatim>\<open>disk.h\<close> expects, the size of the double index area wraps
  to 0 in 32 bits: beyond the single index area \<^verbatim>\<open>ufs_datablock_addr\<close> divides by zero.
\<close>

theorem big_blocks_divide_by_zero:
  assumes "v_blksize s = 4096" "sb_blksize_shift (v_sb s) = 12" "4259840 < unat sz" "unat sz \<le> 2 ^ 31"
  shows "ufs_datablock_addr s sz = None"
  by (rule addr_4096 [OF assms])

theorem big_blocks_divide_by_zero_witness:
  "ufs_datablock_addr ((demo None)\<lparr>v_disk := demo_disk\<lparr>dk_blksize := 4096, dk_sb := demo_sb\<lparr>sb_blksize_shift := 12\<rparr>\<rparr>\<rparr>)
     4259841 = None"
  by (rule big_blocks_divide_by_zero) simp_all

text \<open>
  With 512-byte blocks the triple index ends near 1 GB; the check that should stop there looks at
  the last index instead of the first, so \<^verbatim>\<open>ufs_datablock_addr\<close> returns 0 with a first index
  outside its index block.
\<close>

theorem small_blocks_index_overrun:
  assumes "geom s" "sb_blksize_shift (v_sb s) = 9" "1082204160 < unat sz" "unat sz \<le> 2 ^ 31"
  shows "\<exists>mp i. ufs_datablock_addr s sz = Some (RcOk, mp) \<and> am_level mp = 3 \<and> idx mp 0 = Some i \<and> per_block s \<le> i"
  by (rule addr_512 [OF assms])

theorem small_blocks_index_overrun_witness:
  "\<exists>mp i. ufs_datablock_addr (demo None) 1082204161 = Some (RcOk, mp) \<and> am_level mp = 3 \<and> idx mp 0 = Some i
    \<and> per_block (demo None) \<le> i"
  by (rule small_blocks_index_overrun) (simp_all only: demo_geom, simp_all add: demo_defs)

section \<open>Allocating blocks\<close>

text \<open>
  C6. \<^verbatim>\<open>ufs_datablock_allocate\<close> hands out the blocks of the free list in order, each zeroed,
  across the reloads of the cache from its link blocks, and touches no other block.
\<close>

theorem allocate_in_order:
  assumes "fgood os ct (n + k) s L" "n \<le> length L"
  shows "\<exists>s'. allocate_n os n s = Some (take n L, s') \<and> fgood os ct k s' (drop n L)
    \<and> (\<forall>x. x \<notin> set (take n L) \<longrightarrow> vview ct s' x = vview ct s x)"
  unfolding allocate_n_eq by (rule ufs_alloc.allocs_take [OF assms])

theorem allocate_in_order_witness:
  "\<exists>s'. allocate_n ram 7 (demo (Some cache)) = Some (take 7 demo_free, s')
    \<and> fgood ram demo_ct 1 s' (drop 7 demo_free)
    \<and> (\<forall>x. x \<notin> set (take 7 demo_free) \<longrightarrow> vview demo_ct s' x = vview demo_ct (demo (Some cache)) x)"
  by (rule allocate_in_order)
     (simp_all add: demo_fgood, simp add: demo_free_def)

text \<open>
  C7. A block given to \<^verbatim>\<open>ufs_datablock_deallocate\<close> is the next one allocated, zeroed, whether
  it went into the cache or became the link block of a full one; the free list is back as it was.
\<close>

theorem deallocate_allocate:
  assumes "fgood os ct (Suc (Suc k)) s L" "b \<notin> set L" "ufs_datablock_number_sanity s b" "L \<noteq> []"
  shows "\<exists>s1 s2. ufs_datablock_deallocate os s b = Some (RcOk, s1)
    \<and> ufs_datablock_allocate os s1 = Some (RcOk, b, s2) \<and> fgood os ct k s2 L
    \<and> vview ct s2 = (vview ct s)(b := replicate (unat (v_blksize s)) 0)"
proof -
  obtain s1 where d: "ufs_datablock_deallocate os s b = Some (RcOk, s1)" "fgood os ct (Suc k) s1 (b # L)"
    "\<And>x. x \<noteq> b \<Longrightarrow> vview ct s1 x = vview ct s x" "frest s1 = frest s"
    by (rule deallocate_front [OF assms(1-3)]) (use assms(4) in auto)
  obtain s2 where a: "ufs_datablock_allocate os s1 = Some (RcOk, b, s2)" "fgood os ct k s2 L"
    "vview ct s2 = (vview ct s1)(b := replicate (unat (v_blksize s1)) 0)" by (rule allocate_head [OF d(2)])
  have "vview ct s2 = (vview ct s)(b := replicate (unat (v_blksize s)) 0)"
    using a(3) d(3) frestD(1) [OF d(4)] by (auto simp: fun_eq_iff)
  then show ?thesis using d(1) a(1,2) by blast
qed

theorem deallocate_allocate_witness:
  "\<exists>s1 s2. ufs_datablock_deallocate ram (demo None) 40 = Some (RcOk, s1)
    \<and> ufs_datablock_allocate ram s1 = Some (RcOk, 40, s2) \<and> fgood ram demo_ct 0 s2 demo_free
    \<and> vview demo_ct s2 = (vview demo_ct (demo None))(40 := replicate (unat (v_blksize (demo None))) 0)"
  by (rule deallocate_allocate)
     (simp_all add: demo_fgood, simp_all add: demo_free_def)


text \<open>
  C8. A block freed into an exhausted free list is made its link block without being written: when
  the file left a large number in its first word, the next allocation copies that many words over the
  51-word cache of the super block.
\<close>

theorem freed_into_empty_list_overruns:
  assumes "fgood os ct k s []" "ufs_datablock_number_sanity s b"
    and "UFS_MAX_FREEBLOCK < unat (get32 (vview ct s b) 0)" "unat (get32 (vview ct s b) 0) < 2 ^ 30"
  shows "\<exists>s'. ufs_datablock_deallocate os s b = Some (RcOk, s') \<and> ufs_datablock_allocate os s' = None"
  by (rule stale_link [OF assms])

theorem freed_into_empty_list_overruns_witness:
  "\<exists>s'. ufs_datablock_deallocate ram demo_empty 20 = Some (RcOk, s') \<and> ufs_datablock_allocate ram s' = None"
  by (rule freed_into_empty_list_overruns [OF demo_empty_fgood [of 1]])
     (simp_all add: demo_empty_stale UFS_MAX_FREEBLOCK_def,
      simp add: demo_empty_def demo_defs ufs_datablock_number_sanity_def)

text \<open>
  When the link block of the cache cannot be read, \<^verbatim>\<open>ufs_datablock_allocate\<close> reports EIO
  but leaves an empty cache with free blocks counted: the next allocation indexes the cache with -1.
\<close>

theorem failed_link_breaks_allocation:
  assumes "\<And>d k. lock_held (fst (os_lock os d k))" "\<And>d n. fst (os_calloc os d n)"
    and "v_pager s = None" "\<And>d. ecb_rc (fst (osdread os d (v_blksize s) b)) \<noteq> RcOk"
    and "sb_nfreeblock (v_sb s) = 1" "sb_freeblock (v_sb s) ! 0 = b" "ufs_datablock_number_sanity s b"
      "length (sb_freeblock (v_sb s)) = UFS_MAX_FREEBLOCK" "1 < unat (sb_total_freeblock (v_sb s))"
  shows "\<exists>s'. ufs_datablock_allocate os s = Some (RcErr EIO, 0, s') \<and> ufs_datablock_allocate os s' = None"
  by (rule failed_link [OF assms])

theorem failed_link_breaks_allocation_witness:
  "\<exists>s'. ufs_datablock_allocate bad_ram demo_last = Some (RcErr EIO, 0, s')
    \<and> ufs_datablock_allocate bad_ram s' = None"
  by (rule failed_link_breaks_allocation [where b = 5])
     (simp_all add: bad_ram_def ram_def lock_held_def ecb_rc_def demo_last_def demo_defs
       ufs_datablock_number_sanity_def UFS_MAX_FREEBLOCK_def)

section \<open>The page cache\<close>

text \<open>
  C9. \<^verbatim>\<open>ufs_pager_read\<close> is transparent whatever fails, locks, storage or disk: the blocks
  the volume presents, the invariant and everything but the cache stay, and a read that returns 0
  delivers the block.
\<close>

theorem pager_read_transparent:
  assumes "vinv os ct lim k s" "v_pager s \<noteq> None" "blk < lim" "length buf = unat (v_blksize s)"
  shows "case ufs_pager_read os s buf blk of (rc, buf', s') \<Rightarrow>
    vinv os ct lim k s' \<and> vview ct s' = vview ct s \<and> vrest s' = vrest s \<and> (rc = RcOk \<longrightarrow> buf' = vview ct s blk)"
proof (cases "ufs_pager_read os s buf blk")
  case (fields rc buf' s')
  from pager_read_spec [OF assms this] show ?thesis using assms(1) fields by (simp add: transp_def)
qed

theorem pager_read_transparent_witness:
  "case ufs_pager_read ram (demo (Some cache)) (replicate 512 7) 5 of (rc, buf', s') \<Rightarrow>
    vinv ram demo_ct 64 1 s' \<and> vview demo_ct s' = vview demo_ct (demo (Some cache))
    \<and> vrest s' = vrest (demo (Some cache)) \<and> (rc = RcOk \<longrightarrow> buf' = vview demo_ct (demo (Some cache)) 5)"
  by (rule pager_read_transparent) (use demo_good [of "Some cache" 1 64] in \<open>simp_all add: vgood_def\<close>)

text \<open>
  C10. \<^verbatim>\<open>ufs_pager_write\<close> changes at most the block written, whatever fails, also when it has
  to write back another page first; when it returns 0, the volume presents the new block.
\<close>

theorem pager_write_changes_one_block:
  assumes "vinv os ct lim (Suc k) s" "v_pager s \<noteq> None" "blk < lim" "length buf = unat (v_blksize s)"
  shows "case ufs_pager_write os s buf blk of (rc, s') \<Rightarrow>
    vinv os ct lim k s' \<and> vrest s' = vrest s \<and> (\<forall>b. b \<noteq> blk \<longrightarrow> vview ct s' b = vview ct s b)
    \<and> (rc = RcOk \<longrightarrow> vview ct s' blk = buf)"
proof (cases "ufs_pager_write os s buf blk")
  case (Pair rc s')
  from pager_write_spec [OF assms this] show ?thesis using Pair by (simp add: stored_def)
qed

theorem pager_write_changes_one_block_witness:
  "case ufs_pager_write ram (demo (Some cache)) (replicate 512 7) 9 of (rc, s') \<Rightarrow>
    vinv ram demo_ct 64 0 s' \<and> vrest s' = vrest (demo (Some cache))
    \<and> (\<forall>b. b \<noteq> 9 \<longrightarrow> vview demo_ct s' b = vview demo_ct (demo (Some cache)) b)
    \<and> (rc = RcOk \<longrightarrow> vview demo_ct s' 9 = replicate 512 7)"
  by (rule pager_write_changes_one_block) (use demo_good [of "Some cache" 1 64] in \<open>simp_all add: vgood_def\<close>)

text \<open>
  C11. After \<^verbatim>\<open>ufs_pager_flush\<close> returns 0 the dataset holds every block the volume presented
  before it; in any case the flush changes no block of the volume.
\<close>

theorem flush_makes_durable:
  assumes "vinv os ct lim k s" "v_pager s \<noteq> None"
  shows "case ufs_pager_flush os s of (rc, s') \<Rightarrow>
    vview ct s' = vview ct s \<and> vinv os ct lim k s' \<and> (rc = RcOk \<longrightarrow> ct (v_outer s') = vview ct s)"
proof (cases "ufs_pager_flush os s")
  case (Pair rc s')
  from pager_flush_spec [OF assms this] show ?thesis using Pair assms(1) by (simp add: transp_def)
qed

theorem flush_makes_durable_witness:
  "case ufs_pager_flush ram (demo (Some full_cache)) of (rc, s') \<Rightarrow>
    vview demo_ct s' = vview demo_ct (demo (Some full_cache)) \<and> vinv ram demo_ct 64 0 s'
    \<and> (rc = RcOk \<longrightarrow> demo_ct (v_outer s') = vview demo_ct (demo (Some full_cache)))"
  by (rule flush_makes_durable) (simp_all add: full_vinv)

text \<open>
  C12. When the cache is full, \<^verbatim>\<open>ufs_pager_lru_page\<close> picks a page that was used least often and
  changes nothing; when it was last used decides only between pages used equally often. That is not the
  "least recently used page" of the comments in \<^verbatim>\<open>include/ufs/pager.h\<close> and
  \<^verbatim>\<open>src/ufspgrlp.c\<close>: a page that was used more often than another is never picked, even if it is
  the one whose last use is longest ago, as in the cache of the witness.
\<close>

theorem least_used_page_is_victim:
  assumes "pr_pages (pgr s) \<noteq> []" "length (pr_pages (pgr s)) \<ge> unat (pr_maxpages (pgr s))"
  shows "\<exists>i. ufs_pager_lru_page os s = (Some i, s) \<and> i < length (pr_pages (pgr s))
    \<and> (\<forall>q \<in> set (pr_pages (pgr s)). pg_used (pr_pages (pgr s) ! i) < pg_used q
        \<or> pg_used (pr_pages (pgr s) ! i) = pg_used q \<and> pg_lru (pr_pages (pgr s) ! i) \<le> pg_lru q)
    \<and> (\<forall>p q. p \<in> set (pr_pages (pgr s)) \<longrightarrow> q \<in> set (pr_pages (pgr s)) \<longrightarrow> pg_used q < pg_used p
        \<longrightarrow> pr_pages (pgr s) ! i \<noteq> p)"
proof -
  obtain i s' where r: "ufs_pager_lru_page os s = (Some i, s')"
    using assms by (auto simp: ufs_pager_lru_page_def Let_def)
  note v = lru_page_victim [OF r assms]
  have "pr_pages (pgr s) ! i \<noteq> p" if "q \<in> set (pr_pages (pgr s))" "pg_used q < pg_used p" for p q
    using v that by (fastforce simp: page_le_def)
  then show ?thesis using r v unfolding page_le_def by blast
qed

theorem least_used_page_is_victim_witness:
  "let old = dirty_page\<lparr>pg_lru := 1, pg_used := 5\<rparr>; young = clean_page\<lparr>pg_lru := 9, pg_used := 1\<rparr>;
     s = demo (Some (full_cache\<lparr>pr_pages := [old, young]\<rparr>)) in
   pg_lru old < pg_lru young \<and> ufs_pager_lru_page ram s = (Some 1, s)"
proof -
  define ps where "ps = [dirty_page\<lparr>pg_lru := 1, pg_used := 5\<rparr>, clean_page\<lparr>pg_lru := 9, pg_used := 1\<rparr>]"
  let ?s = "demo (Some (full_cache\<lparr>pr_pages := ps\<rparr>))"
  have p: "pr_pages (pgr ?s) = ps" "unat (pr_maxpages (pgr ?s)) = 2" by (simp_all add: pgr_def demo_def full_cache_def)
  have a: "pr_pages (pgr ?s) \<noteq> []" "length (pr_pages (pgr ?s)) \<ge> unat (pr_maxpages (pgr ?s))"
    unfolding p by (simp_all add: ps_def)
  obtain i where i: "ufs_pager_lru_page ram ?s = (Some i, ?s)" "i < length ps"
    "\<forall>q \<in> set ps. pg_used (ps ! i) < pg_used q \<or> pg_used (ps ! i) = pg_used q \<and> pg_lru (ps ! i) \<le> pg_lru q"
    using least_used_page_is_victim [OF a, of ram] unfolding p by blast
  have "i = 1" using i(2,3) by (cases i) (auto simp: ps_def)
  then show ?thesis using i(1) by (simp add: ps_def Let_def)
qed

text \<open>
  A run of blocks written with \<^verbatim>\<open>ufs_vdisk_write_n\<close> reads back with
  \<^verbatim>\<open>ufs_vdisk_read_n\<close> as it was written, with or without a page cache and whatever its size.
\<close>

theorem blocks_round_trip:
  assumes "vinv os ct lim (length bufs) s" "vlive os lim s" "unat b + length bufs \<le> unat lim"
    and "\<forall>buf \<in> set bufs. length buf = unat (v_blksize s)"
    and "length olds = length bufs" "\<forall>buf \<in> set olds. length buf = unat (v_blksize s)"
  shows "\<exists>s1 s2. ufs_vdisk_write_n os s bufs b = (RcOk, s1) \<and> ufs_vdisk_fsread_n os s1 olds b = (RcOk, bufs, s2)"
  by (rule vdisk_round_trip [OF assms])

theorem blocks_round_trip_witness:
  "\<exists>s1 s2. ufs_vdisk_write_n ram (demo (Some full_cache)) (map (replicate 512) [1, 2, 3]) 10 = (RcOk, s1)
    \<and> ufs_vdisk_fsread_n ram s1 (replicate 3 (replicate 512 0)) 10 = (RcOk, map (replicate 512) [1, 2, 3], s2)"
  by (rule blocks_round_trip [where lim = 64 and ct = demo_ct]) (simp_all add: full_vinv vlive_def ram_live)

section \<open>Inodes\<close>

text \<open>
  C13. An inode written back with \<^verbatim>\<open>ufs_inode_writeback\<close> is what \<^verbatim>\<open>ufs_inode_load\<close> then
  delivers, and every other inode of the list is as it was.
\<close>

theorem inode_write_load:
  assumes "igood os ct (Suc k) s" "inode_num s (mi_inode_number m)" "wf_dinode (mi_dinode m)"
  shows "\<exists>m' s1 s2. ufs_inode_writeback os s m = Some (RcOk, m', s1)
    \<and> ufs_inode_load os s1 any (mi_inode_number m) = Some (RcOk, inode_image (mi_inode_number m) (mi_dinode m), s2)
    \<and> (\<forall>x. inode_num s x \<longrightarrow> x \<noteq> mi_inode_number m \<longrightarrow> inode_at ct s2 x = inode_at ct s x)"
proof -
  let ?n = "mi_inode_number m"
  obtain s1 where w: "ufs_inode_writeback os s m = Some (RcOk, m\<lparr>mi_flags := mi_flags m AND NOT MINODE_FLAG_DIRTY\<rparr>, s1)"
    "vgood os ct (v_lim s) k s1" "vrest s1 = vrest s"
    "vview ct s1 = (vview ct s)(inode_block s ?n :=
       blit (128 * inode_slot s ?n) (enc_dinode (mi_dinode m)) (vview ct s (inode_block s ?n)))"
    "length (vview ct s (inode_block s ?n)) = unat (v_blksize s)"
    by (rule good_writeback [OF assms])
  note at = inode_at_writeback [OF assms(1,2) _ assms(3) w(4,3,5)]
  have g1: "igood os ct k s1" using assms(1) w(2) vrestD(1) [OF w(3)] geom_rest(1) [OF w(3)] by (simp add: igood_def)
  have n1: "inode_num s1 ?n" using assms(2) geom_rest(2) [OF w(3)] by simp
  obtain s2 where l: "ufs_inode_load os s1 any ?n = Some (RcOk, inode_image ?n (inode_at ct s1 ?n), s2)" "vsame ct s1 s2"
    by (rule good_load [OF g1 n1])
  then show ?thesis using w(1) at [OF assms(2)] at inode_at_vsame [OF l(2)] by auto
qed

theorem inode_write_load_witness:
  "\<exists>m' s1 s2. ufs_inode_writeback ram (demo None) demo_file = Some (RcOk, m', s1)
    \<and> ufs_inode_load ram s1 zero_minode (mi_inode_number demo_file)
        = Some (RcOk, inode_image (mi_inode_number demo_file) (mi_dinode demo_file), s2)
    \<and> (\<forall>x. inode_num (demo None) x \<longrightarrow> x \<noteq> mi_inode_number demo_file \<longrightarrow>
         inode_at demo_ct s2 x = inode_at demo_ct (demo None) x)"
  by (rule inode_write_load [where k = 0])
     (use demo_good [of None 1] in \<open>simp_all add: igood_def demo_geom inode_num_def wf_dinode_def\<close>, simp add: demo_file_def)

text \<open>
  C14. The location \<^verbatim>\<open>ufs_inode_inquire_disk_location\<close> computes is inside the inode list and
  different inodes have different locations.
\<close>

theorem inode_locations_distinct:
  assumes "geom s" "inode_num s n" "inode_num s x"
  shows "\<exists>b i c j. ufs_inode_inquire_disk_location s n = (RcOk, b, i)
    \<and> ufs_inode_inquire_disk_location s x = (RcOk, c, j)
    \<and> UFS_ILIST_SECTOR \<le> b \<and> b < sb_datablock_start_sector (v_sb s) \<and> 128 * unat i + 128 \<le> unat (v_blksize s)
    \<and> (b = c \<and> i = j \<longleftrightarrow> n = x)"
proof -
  note n = inode_location [OF assms(1,2)] and x = inode_location [OF assms(1,3)] and ip = geom_ipb [OF assms(1)]
  have "unat (v_blksize s) < 2 ^ 16" using unsigned_less [of "v_blksize s"] by simp
  then have "ipb s < 2 ^ 16" using ip by simp
  then have sl: "unat (of_nat (inode_slot s n) :: u32) = inode_slot s n" "unat (of_nat (inode_slot s x) :: u32) = inode_slot s x"
    using n(4) x(4) by (intro unat_of_nat32; simp)+
  have "inode_block s n = inode_block s x \<and> of_nat (inode_slot s n) = (of_nat (inode_slot s x) :: u32) \<longleftrightarrow> n = x"
    using inode_slot_inj [OF assms(1,3,2)] sl by metis
  moreover have "UFS_ILIST_SECTOR \<le> inode_block s n" using n(5) by (simp add: UFS_ILIST_SECTOR_def)
  moreover have "128 * inode_slot s n + 128 \<le> unat (v_blksize s)" using n(4) ip(1) by simp
  ultimately show ?thesis using n(1,2) x(1) sl(1) by auto
qed

theorem inode_locations_distinct_witness:
  "\<exists>b i c j. ufs_inode_inquire_disk_location (demo None) 3 = (RcOk, b, i)
    \<and> ufs_inode_inquire_disk_location (demo None) 7 = (RcOk, c, j)
    \<and> UFS_ILIST_SECTOR \<le> b \<and> b < sb_datablock_start_sector (v_sb (demo None))
    \<and> 128 * unat i + 128 \<le> unat (v_blksize (demo None)) \<and> (b = c \<and> i = j \<longleftrightarrow> (3 :: u32) = 7)"
  by (rule inode_locations_distinct) (simp_all add: demo_geom inode_num_def)

text \<open>
  The last inode of the list has a valid location, and the range check refuses it: every other
  inode number but 1 passes both.
\<close>

theorem last_inode_refused:
  assumes "geom s" "1 \<le> max_inode s" "unat n = max_inode s"
  shows "fst (ufs_inode_inquire_disk_location s n) = RcOk \<and> \<not> ufs_inode_number_sanity s n"
  using last_inode [OF assms(1,3,2)] by simp

theorem last_inode_refused_witness:
  "fst (ufs_inode_inquire_disk_location (demo None) 8) = RcOk \<and> \<not> ufs_inode_number_sanity (demo None) 8"
  by (rule last_inode_refused) (simp_all add: demo_geom)

text \<open>
  C15. After \<^verbatim>\<open>ufs_disk_write_super\<close> returns 0, block 1 of the dataset holds the super block
  field by field at the offsets of the structure in \<^verbatim>\<open>include/ufs/disk.h\<close>, big-endian and with zeros
  behind it, the modified flag off and the time possibly new, whether or not the boot block was written
  as well; \<^verbatim>\<open>ufs_disk_read_super\<close> does not overrun its buffer and, when it returns 0, delivers the
  same super block.
\<close>

theorem super_block_on_disk:
  assumes "os_laws os ct (v_blksize s)" "\<And>b. dk_boote (v_disk s) = Some b \<Longrightarrow> wf_boote b" "wf_sb (v_sb s)"
    and "ufs_disk_write_super os s = Some (RcOk, s')" "b = v_sb s'" "blk = ct (v_outer s') 1"
  shows "b = (v_sb s)\<lparr>sb_modified := 0, sb_update_time := sb_update_time b\<rparr>
    \<and> get32 blk 0x00 = sb_datablock_start_sector b \<and> get32 blk 0x04 = sb_volume_size b
    \<and> blk ! 0x08 = sb_lock_freeblock b \<and> blk ! 0x09 = sb_lock_freeinode b \<and> blk ! 0x0A = 0 \<and> blk ! 0x0B = sb_readonly b
    \<and> get32 blk 0x0C = sb_update_time b \<and> get32 blk 0x10 = sb_total_freeblock b \<and> get32 blk 0x14 = sb_total_freeinode b
    \<and> get32 blk 0x18 = sb_create_time b \<and> get32 blk 0x1C = sb_nfreeblock b \<and> words_at blk 0x20 51 = sb_freeblock b
    \<and> get32 blk 0xEC = sb_nfreeinode b \<and> words_at blk 0xF0 64 = sb_freeinode b
    \<and> get32 blk 0x1F0 = sb_inodes_per_block b \<and> get32 blk 0x1F4 = sb_blksize_shift b
    \<and> get32 blk 0x1F8 = sb_ilist_sector b \<and> get32 blk 0x1FC = sb_unused3 b
    \<and> drop 0x200 blk = replicate (unat (v_blksize s) - 0x200) 0
    \<and> (\<exists>rc b' s2. ufs_disk_read_super os s' = Some (rc, b', s2) \<and> (rc = RcOk \<longrightarrow> b' = b))"
proof -
  note w = write_super_ok [OF assms(1-4)]
  have m: "sb_modified b = 0" "wf_sb b" using arg_cong [OF w(4), of sb_modified] arg_cong [OF w(4), of wf_sb] assms(3,5)
    by (simp_all add: wf_sb_def)
  have e: "blk = enc_sb b @ replicate (unat (v_blksize s) - 512) 0" using w(1) assms(5,6) by simp
  have l: "os_laws os ct (v_blksize s')" "512 \<le> unat (v_blksize s')" using assms(1) w(2,3) by simp_all
  have "b\<lparr>sb_modified := 0\<rparr> = b" using m(1) by simp
  then have "\<exists>rc b' s2. ufs_disk_read_super os s' = Some (rc, b', s2) \<and> (rc = RcOk \<longrightarrow> b' = b)"
    using read_super_ok [OF l e [unfolded assms(6)] m(2)] by metis
  moreover have "drop 0x200 blk = replicate (unat (v_blksize s) - 0x200) 0" unfolding e using m(2) by simp
  moreover have "b = (v_sb s)\<lparr>sb_modified := 0, sb_update_time := sb_update_time b\<rparr>" using w(4) assms(5) by simp
  moreover have "blk ! 0x0A = 0" using sb_fields(5) [OF m(2) e] m(1) by simp
  ultimately show ?thesis using sb_fields [OF m(2) e] by (intro conjI) assumption+
qed

theorem super_block_on_disk_witness:
  "\<exists>s'. ufs_disk_write_super ram (demo None) = Some (RcOk, s') \<and> get32 (demo_ct (v_outer s') 1) 0x10 = 8
    \<and> get32 (demo_ct (v_outer s') 1) 0x14 = 5 \<and> words_at (demo_ct (v_outer s') 1) 0xF0 64 = [4, 3] @ replicate 62 0"
proof -
  let ?s = "demo None"
  have l: "os_laws ram demo_ct (v_blksize ?s)" by (simp add: demo_defs ram_laws)
  have b: "dk_boote (v_disk ?s) = Some b \<Longrightarrow> wf_boote b" for b by (simp add: demo_defs)
  have f: "wf_sb (v_sb ?s)" by (simp add: demo_defs wf_sb_def UFS_MAX_FREEBLOCK_def UFS_MAX_FREEINODE_def)
  obtain s' where w: "ufs_disk_write_super ram ?s = Some (RcOk, s')"
    by (simp add: ufs_disk_write_super_def demo_defs calloc_def clock32_def boot_is_old_def ram_def ufs_disk_write_def ecb_rc_def Let_def)
  have t: "sb_total_freeblock (v_sb ?s) = 8" "sb_total_freeinode (v_sb ?s) = 5" "sb_freeinode (v_sb ?s) = [4, 3] @ replicate 62 0"
    by (simp_all add: demo_defs)
  note x = super_block_on_disk [OF l b f w refl refl]
  then have v: "v_sb s' = (v_sb ?s)\<lparr>sb_modified := 0, sb_update_time := sb_update_time (v_sb s')\<rparr>" by blast
  have "sb_total_freeblock (v_sb s') = 8" "sb_total_freeinode (v_sb s') = 5" "sb_freeinode (v_sb s') = [4, 3] @ replicate 62 0"
    using arg_cong [OF v, of sb_total_freeblock] arg_cong [OF v, of sb_total_freeinode] arg_cong [OF v, of sb_freeinode] t by simp_all
  then show ?thesis using w x by auto
qed

section \<open>Access control\<close>

text \<open>
  C16. \<^verbatim>\<open>ufs_inode_auth\<close> grants a request exactly when one of its bits is a right: given to
  everybody, to the owner if the user is the owner, or to the group if one of the user's groups is
  the file's; names are compared by what they say, not by how they are stored. The three checks ask for
  one right each.
\<close>

theorem access_is_a_right:
  assumes "\<And>c. fc c = 0 \<longleftrightarrow> c = 0" "\<And>a. acee = Some a \<Longrightarrow> acee_names a"
  shows "(ufs_inode_auth fc acee m acc \<longleftrightarrow> (\<exists>b < 3. bit acc b \<and> has_right fc acee (mi_dinode m) b))
    \<and> (ufs_inode_auth_read fc acee m \<longleftrightarrow> has_right fc acee (mi_dinode m) 2)
    \<and> (ufs_inode_auth_write fc acee m \<longleftrightarrow> has_right fc acee (mi_dinode m) 1)
    \<and> (ufs_inode_auth_exec fc acee m \<longleftrightarrow> has_right fc acee (mi_dinode m) 0)"
  using auth_rights [of fc acee m acc, OF assms] auth_one_right [of fc acee m, OF assms] by blast

text \<open>A user with a lower-case \<open>A\<close> for a name and a file of the user with the capital one, mode 0600.\<close>

theorem access_is_a_right_witness:
  "\<exists>fc a m. ufs_inode_auth_read fc (Some a) m \<and> \<not> ufs_inode_auth_exec fc (Some a) m \<and> \<not> ufs_inode_auth_read fc None m
    \<and> fc = (\<lambda>c. if c = 0x81 then 0xC1 else c) \<and> aceeuser a = [1, 0x81, 0, 0, 0, 0, 0, 0, 0]
    \<and> cstr (di_owner (mi_dinode m)) = [0xC1] \<and> di_mode (mi_dinode m) = 0x8180"
proof -
  define fc where "fc = (\<lambda>c :: byte. if c = 0x81 then 0xC1 else c)"
  let ?a = "\<lparr>aceeacee = [], aceeuser = [1, 0x81, 0, 0, 0, 0, 0, 0, 0], aceegrp = [1, 0x82, 0, 0, 0, 0, 0, 0, 0], aceecgrp = []\<rparr>"
  let ?m = "demo_file\<lparr>mi_dinode := (mi_dinode demo_file)\<lparr>di_mode := 0x8180, di_owner := 0xC1 # replicate 8 0\<rparr>\<rparr>"
  have f: "fc c = 0 \<longleftrightarrow> c = 0" for c by (simp add: fc_def)
  have a: "acee_names a" if "Some ?a = Some a" for a
    using that by (auto simp: acee_names_def name_field_def field_name_def)
  have c: "cstr (0xC1 # replicate 8 0) = [0xC1]" by (simp add: cstr_def)
  have g: "di_group (mi_dinode demo_file) = replicate 9 0" by (simp add: demo_file_def)
  have "has_right fc (Some ?a) (mi_dinode ?m) 2" "\<not> has_right fc (Some ?a) (mi_dinode ?m) 0" "\<not> has_right fc None (mi_dinode ?m) 2"
    by (simp_all add: has_right_def c field_name_def fc_def)
  then have "ufs_inode_auth_read fc (Some ?a) ?m" "\<not> ufs_inode_auth_exec fc (Some ?a) ?m" "\<not> ufs_inode_auth_read fc None ?m"
    using access_is_a_right [of fc "Some ?a" ?m, OF f a] access_is_a_right [of fc None ?m, OF f] by simp_all
  then show ?thesis using c by (intro exI [of _ fc] exI [of _ ?a] exI [of _ ?m]) (simp add: fc_def)
qed

section \<open>Reading and writing open files\<close>

text \<open>
  C17. \<^verbatim>\<open>ufs_file_getn\<close> (behind \<^verbatim>\<open>ufs_fread\<close>) returns the bytes of the file from the
  position of the handle, as many as requested and there, across block boundaries and whatever the
  length, and sets the end-of-file indicator exactly when more was requested than there was; the volume
  presents the same blocks.
\<close>

theorem read_returns_slice:
  assumes "file_handle os ct k s fp m L" "at_block ct s fp m i" "\<not> has (fl_ind fp) FILE_IND_DIRTY"
    and "has (fl_mode fp) FILE_MODE_READ" "\<not> has (fl_ind fp) FILE_IND_EOF" "\<not> has (fl_ind fp) FILE_IND_ERROR"
    and "unat (fl_filepos fp) \<le> unat (di_filesize (mi_dinode m))"
  shows "\<exists>fp' s' c i'. c = min (unat n) (unat (di_filesize (mi_dinode m)) - unat (fl_filepos fp))
    \<and> ufs_file_getn os s fp n = Some (of_nat c, slice (unat (fl_filepos fp)) c (file_bytes ct s m), fp', s')
    \<and> file_handle os ct k s' fp' m L \<and> at_block ct s' fp' m i' \<and> vsame ct s s'
    \<and> unat (fl_filepos fp') = unat (fl_filepos fp) + c
    \<and> (has (fl_ind fp') FILE_IND_EOF \<longleftrightarrow> c < unat n)"
proof -
  let ?c = "min (unat n) (unat (di_filesize (mi_dinode m)) - unat (fl_filepos fp))"
  obtain fp' s' i' where
    r: "ufs_file_getn os s fp n = Some (of_nat ?c, slice (unat (fl_filepos fp)) ?c (file_bytes ct s m), fp', s')"
    "file_handle os ct k s' fp' m L" "at_block ct s' fp' m i'" "vsame ct s s'"
    "unat (fl_filepos fp') = unat (fl_filepos fp) + ?c"
    "fl_ind fp' = (if unat (di_filesize (mi_dinode m)) - unat (fl_filepos fp) < unat n
                    then fl_ind fp OR FILE_IND_EOF else fl_ind fp)"
    using getn_ok [OF assms refl] by blast
  have "has (fl_ind fp') FILE_IND_EOF \<longleftrightarrow> ?c < unat n" using r(6) assms(5) by (simp add: min_less_iff_conj not_less)
  then show ?thesis using r(1-5) by blast
qed

theorem read_returns_slice_witness:
  "\<exists>fp' s' c i'. c = min (unat (1000 :: u32)) (unat (di_filesize (mi_dinode demo_file)) - unat (fl_filepos (demo_fp 0xC0)))
    \<and> ufs_file_getn ram (demo_open (Some cache)) (demo_fp 0xC0) 1000
      = Some (of_nat c, slice (unat (fl_filepos (demo_fp 0xC0))) c (file_bytes demo_ct (demo_open (Some cache)) demo_file), fp', s')
    \<and> file_handle ram demo_ct 5 s' fp' demo_file demo_free \<and> at_block demo_ct s' fp' demo_file i'
    \<and> vsame demo_ct (demo_open (Some cache)) s'
    \<and> unat (fl_filepos fp') = unat (fl_filepos (demo_fp 0xC0)) + c
    \<and> (has (fl_ind fp') FILE_IND_EOF \<longleftrightarrow> c < unat (1000 :: u32))"
  by (rule read_returns_slice [OF demo_handle demo_at_block])
     (simp_all add: demo_fp_def has_def FILE_MODE_READ_def)

text \<open>
  C18. \<^verbatim>\<open>ufs_file_putn\<close> (behind \<^verbatim>\<open>ufs_fwrite\<close>) puts the bytes at the position of the
  handle, over the old ones and, past the end, into blocks newly allocated to the file; the bytes before
  and after stay, the new blocks come from the free list, and no other file's block or inode changes.
\<close>

theorem write_overwrites:
  assumes "file_handle os ct (k + 7 * c + 1 + getn_measure fp n) s fp m L" "at_block ct s fp m i"
    and "has (fl_mode fp) FILE_MODE_WRITE" "\<not> has (fl_ind fp) FILE_IND_ERROR"
    and "n \<noteq> 0" "unat n \<le> length buf"
    and "unat (fl_filepos fp) \<le> unat (di_filesize (mi_dinode m))" "unat (fl_filepos fp) + unat n < 2 ^ 31"
    and "blocks (unat (v_blksize s)) (max (unat (fl_filepos fp) + unat n) (unat (di_filesize (mi_dinode m)))) = nblks s m + c"
    and "nblks s m + c \<le> max_blocks (per_block s)" "4 * c \<le> length L"
  shows "\<exists>fp' s' m' L' i'. ufs_file_putn os s fp buf n = Some (n, fp', s')
    \<and> file_handle os ct k s' fp' m' L' \<and> at_block ct s' fp' m' i'
    \<and> handle_bytes ct s' fp' m' i' = blit (unat (fl_filepos fp)) (take (unat n) buf) (handle_bytes ct s fp m i)
    \<and> unat (fl_filepos fp') = unat (fl_filepos fp) + unat n
    \<and> rewrote ct m L (fl_minode fp) s s' m' L'"
proof -
  obtain fp' s' m' L' i' where "ufs_file_putn os s fp buf n = Some (n, fp', s')"
    "file_handle os ct k s' fp' m' L'" "at_block ct s' fp' m' i'"
    "handle_bytes ct s' fp' m' i' = blit (unat (fl_filepos fp)) (take (unat n) buf) (handle_bytes ct s fp m i)"
    "unat (fl_filepos fp') = unat (fl_filepos fp) + unat n"
    "rewrote ct m L (fl_minode fp) s s' m' L'"
    by (rule putn_ok [OF assms])
  then show ?thesis by blast
qed

theorem write_overwrites_witness:
  "\<exists>fp' s' m' L' i'. ufs_file_putn ram (demo_open (Some cache)) demo_filled (replicate 9000 7) 8000 = Some (8000, fp', s')
    \<and> file_handle ram demo_ct 5 s' fp' m' L' \<and> at_block demo_ct s' fp' m' i'
    \<and> handle_bytes demo_ct s' fp' m' i' = blit (unat (fl_filepos demo_filled)) (take (unat (8000 :: u32)) (replicate 9000 7))
        (handle_bytes demo_ct (demo_open (Some cache)) demo_filled demo_file 0)
    \<and> unat (fl_filepos fp') = unat (fl_filepos demo_filled) + unat (8000 :: u32)
    \<and> rewrote demo_ct demo_file demo_free (fl_minode demo_filled) (demo_open (Some cache)) s' m' L'"
  by (rule write_overwrites [where c = 1, OF demo_filled_handle demo_filled_at_block])
     (simp_all add: demo_filled_def demo_fp_def has_def FILE_MODE_WRITE_def FILE_IND_DIRTY_def FILE_IND_ERROR_def getn_measure_def
       blocks_def max_blocks_def demo_free_def)

text \<open>
  C19. After \<^verbatim>\<open>ufs_file_sync\<close> the file on the volume has the bytes the handle showed: a
  buffer not written back before goes into the data block of the file it belongs to, and nothing else
  changes.
\<close>

theorem sync_stores_buffer:
  assumes "file_handle os ct (Suc k) s fp m L" "at_block ct s fp m i"
  shows "\<exists>fp' s'. ufs_file_sync os s fp = Some (fp', s') \<and> file_handle os ct k s' fp' m L \<and> at_block ct s' fp' m i
    \<and> \<not> has (fl_ind fp') FILE_IND_DIRTY \<and> file_bytes ct s' m = handle_bytes ct s fp m i
    \<and> (\<forall>x. x \<notin> file_nodes ct s m \<longrightarrow> vview ct s' x = vview ct s x)"
proof -
  obtain fp' s' where r: "ufs_file_sync os s fp = Some (fp', s')" "file_handle os ct k s' fp' m L"
    "at_block ct s' fp' m i" "fl_ind fp' = fl_ind fp AND NOT FILE_IND_DIRTY"
    "file_bytes ct s' m = handle_bytes ct s fp m i" "wrote ct m s s'" by (rule sync_ok [OF assms])
  have "\<not> has (fl_ind fp') FILE_IND_DIRTY" by (simp add: r(4))
  then show ?thesis using r(1-3,5) wroteD(3) [OF r(6)] by blast
qed

theorem sync_stores_buffer_witness:
  "\<exists>fp' s'. ufs_file_sync ram (demo_open None) demo_filled = Some (fp', s')
    \<and> file_handle ram demo_ct 3 s' fp' demo_file demo_free \<and> at_block demo_ct s' fp' demo_file 0
    \<and> \<not> has (fl_ind fp') FILE_IND_DIRTY
    \<and> file_bytes demo_ct s' demo_file = handle_bytes demo_ct (demo_open None) demo_filled demo_file 0
    \<and> (\<forall>x. x \<notin> file_nodes demo_ct (demo_open None) demo_file \<longrightarrow> vview demo_ct s' x = vview demo_ct (demo_open None) x)"
  by (rule sync_stores_buffer [OF demo_filled_handle demo_filled_at_block]) simp_all

text \<open>
  C20. Written bytes are there to read: after \<^verbatim>\<open>ufs_file_putn\<close> and \<^verbatim>\<open>ufs_file_sync\<close> the
  file on the volume holds the bytes written, where they were written, and its other bytes as before.
\<close>

theorem write_sync_round_trip:
  assumes "file_handle os ct (Suc k + 7 * c + 1 + getn_measure fp n) s fp m L" "at_block ct s fp m i"
    and "has (fl_mode fp) FILE_MODE_WRITE" "\<not> has (fl_ind fp) FILE_IND_ERROR" "\<not> has (fl_ind fp) FILE_IND_DIRTY"
    and "n \<noteq> 0" "unat n \<le> length buf"
    and "unat (fl_filepos fp) \<le> unat (di_filesize (mi_dinode m))" "unat (fl_filepos fp) + unat n < 2 ^ 31"
    and "blocks (unat (v_blksize s)) (max (unat (fl_filepos fp) + unat n) (unat (di_filesize (mi_dinode m)))) = nblks s m + c"
    and "nblks s m + c \<le> max_blocks (per_block s)" "4 * c \<le> length L"
  shows "\<exists>fp1 s1 fp2 s2 m'. ufs_file_putn os s fp buf n = Some (n, fp1, s1) \<and> ufs_file_sync os s1 fp1 = Some (fp2, s2)
    \<and> v_mstore s2 (fl_minode fp) = Some m'
    \<and> file_bytes ct s2 m' = blit (unat (fl_filepos fp)) (take (unat n) buf) (file_bytes ct s m)
    \<and> slice (unat (fl_filepos fp)) (unat n) (file_bytes ct s2 m') = take (unat n) buf"
proof -
  obtain fp1 s1 m' L' i' where w: "ufs_file_putn os s fp buf n = Some (n, fp1, s1)"
    "file_handle os ct (Suc k) s1 fp1 m' L'" "at_block ct s1 fp1 m' i'"
    "handle_bytes ct s1 fp1 m' i' = blit (unat (fl_filepos fp)) (take (unat n) buf) (handle_bytes ct s fp m i)"
    "rewrote ct m L (fl_minode fp) s s1 m' L'"
    by (rule putn_ok [OF assms(1-4,6-12)])
  obtain fp2 s2 where y: "ufs_file_sync os s1 fp1 = Some (fp2, s2)" "file_bytes ct s2 m' = handle_bytes ct s1 fp1 m' i'"
    "wrote ct m' s1 s2" by (rule sync_ok [OF w(2,3)])
  have len: "length (file_bytes ct s m) = unat (di_filesize (mi_dinode m))"
    using length_file_bytes file_handleD(1,2) [OF assms(1)] by blast
  have b: "file_bytes ct s2 m' = blit (unat (fl_filepos fp)) (take (unat n) buf) (file_bytes ct s m)"
    using y(2) w(4) handle_bytes_clean [OF assms(5), of ct s m i] by simp
  have "slice (unat (fl_filepos fp)) (unat n) (file_bytes ct s2 m') = take (unat n) buf"
    unfolding b using assms(7,8) len by (simp add: slice_def blit_def)
  moreover have "v_mstore s2 (fl_minode fp) = Some m'"
    using vrestD [OF wroteD(1) [OF y(3)]] rewroteD(1) [OF w(5)] by simp
  ultimately show ?thesis using w(1) y(1) b by blast
qed

theorem write_sync_round_trip_witness:
  "\<exists>fp1 s1 fp2 s2 m'. ufs_file_putn ram (demo_open None) (demo_fp 0x40) (map of_nat [0..<700]) 700 = Some (700, fp1, s1)
    \<and> ufs_file_sync ram s1 fp1 = Some (fp2, s2) \<and> v_mstore s2 (fl_minode (demo_fp 0x40)) = Some m'
    \<and> file_bytes demo_ct s2 m' = blit (unat (fl_filepos (demo_fp 0x40))) (take (unat (700 :: u32)) (map of_nat [0..<700]))
        (file_bytes demo_ct (demo_open None) demo_file)
    \<and> slice (unat (fl_filepos (demo_fp 0x40))) (unat (700 :: u32)) (file_bytes demo_ct s2 m')
        = take (unat (700 :: u32)) (map of_nat [0..<700])"
  by (rule write_sync_round_trip [where c = 0 and k = 1, OF demo_handle demo_at_block])
     (simp_all add: demo_fp_def has_def FILE_MODE_WRITE_def getn_measure_def blocks_def max_blocks_def)

text \<open>
  C21. \<^verbatim>\<open>ufs_file_putc\<close> at the end of a filled block looks the next block up with the offset
  of the position instead of the offset behind it: it loads the block just filled again and overwrites
  its first byte; the next sync stores that over the file, and the block that should get the character
  stays as it was.
\<close>

theorem putc_overwrites_full_block:
  assumes "file_handle os ct (Suc (Suc k)) s fp m L" "at_block ct s fp m i"
    and "unat (fl_blkpos fp) = unat (v_blksize s)"
    and "has (fl_mode fp) FILE_MODE_WRITE" "\<not> has (fl_ind fp) FILE_IND_ERROR"
    and "unat (fl_filepos fp) < unat (di_filesize (mi_dinode m))"
  shows "\<exists>fp1 s1 fp2 s2. ufs_file_putc os s x fp = Some (0, fp1, s1) \<and> fl_filepos fp1 = fl_filepos fp + 1
    \<and> ufs_file_sync os s1 fp1 = Some (fp2, s2) \<and> file_bytes ct s1 m = handle_bytes ct s fp m i
    \<and> file_blocks ct s2 m = (file_blocks ct s1 m)[i := (fl_blkbuf fp)[0 := ucast x]]"
  by (rule putc_boundary [OF assms, of x]) blast

theorem putc_overwrites_full_block_witness:
  "\<exists>fp1 s1 fp2 s2. ufs_file_putc ram (demo_open None) 65 demo_filled = Some (0, fp1, s1)
    \<and> fl_filepos fp1 = fl_filepos demo_filled + 1 \<and> ufs_file_sync ram s1 fp1 = Some (fp2, s2)
    \<and> file_bytes demo_ct s1 demo_file = handle_bytes demo_ct (demo_open None) demo_filled demo_file 0
    \<and> file_blocks demo_ct s2 demo_file
        = (file_blocks demo_ct s1 demo_file)[0 := (fl_blkbuf demo_filled)[0 := ucast (65 :: u32)]]"
  by (rule putc_overwrites_full_block [where k = 0, OF demo_filled_handle demo_filled_at_block])
     (simp_all add: demo_filled_def demo_fp_def has_def FILE_MODE_WRITE_def FILE_IND_DIRTY_def FILE_IND_ERROR_def)

text \<open>
  C22. \<^verbatim>\<open>ufs_fseek\<close> to the first byte of block \<open>j + 1\<close> of a file opened for reading loads
  block \<open>j\<close>: the read that follows returns the bytes from the start of block \<open>j\<close>.
\<close>

theorem seek_boundary_reads_previous_block:
  assumes "file_handle os ct k s fp m L" "at_block ct s fp m i" "\<not> has (fl_ind fp) FILE_IND_DIRTY" "fl_blkno fp \<noteq> 0"
    and "\<not> has (fl_mode fp) FILE_MODE_WRITE" "has (fl_mode fp) FILE_MODE_READ"
    and "unat p = Suc j * unat (v_blksize s)" "unat p + unat n \<le> unat (di_filesize (mi_dinode m))" "unat p < 2 ^ 31"
    and "n \<noteq> 0" "unat n \<le> unat (v_blksize s)"
  shows "\<exists>fp1 s1 fp2. ufs_fseek os s (Some fp) p UFS_SEEK_SET = Some ((RcOk, Some fp1), s1) \<and> fl_filepos fp1 = p
    \<and> ufs_file_getn os s1 fp1 n = Some (n, slice (j * unat (v_blksize s)) (unat n) (file_bytes ct s m), fp2, s1)"
proof -
  have bs: "0 < unat (v_blksize s)" by (rule bgood_bs [OF file_handleD(1) [OF assms(1)]])
  have n0: "0 < unat n" using assms(10) by (simp add: unat_gt_0)
  obtain fp1 s1 where k: "ufs_fseek os s (Some fp) p UFS_SEEK_SET = Some ((RcOk, Some fp1), s1)"
    "file_handle os ct k s1 fp1 m L" "vsame ct s s1" "fl_filepos fp1 = p"
    "unat (fl_blkpos fp1) = unat p mod unat (v_blksize s)" "fl_blkbuf fp1 = file_block ct s (m_addr m) j"
    "fl_mode fp1 = fl_mode fp" "\<not> has (fl_ind fp1) FILE_IND_EOF" "\<not> has (fl_ind fp1) FILE_IND_ERROR"
    by (rule seek_read_ok [OF assms(1-3,5) _ _ assms(9) _ assms(4), where j = j])
       (use assms(7,8) bs n0 boundary_index [OF bs, of j] in simp_all)
  note v = vsameD [OF k(3)] and f = file_vsame [OF k(3)]
  obtain fp2 where "ufs_file_getn os s1 fp1 n = Some (n, slice (j * unat (v_blksize s1)) (unat n) (file_bytes ct s1 m), fp2, s1)"
    by (rule seek_boundary_read [OF k(2,4), where j = j and n = n])
       (use k assms f v vrest_frest_geom [OF v(2)] in \<open>simp_all add: file_block_def\<close>)
  moreover have "file_bytes ct s1 m = file_bytes ct s m" using f by (simp add: file_bytes_def)
  ultimately show ?thesis using k(1,4) v(4) by auto
qed

theorem seek_boundary_reads_previous_block_witness:
  "\<exists>fp1 s1 fp2. ufs_fseek ram (demo_open None) (Some (demo_fp 0x80)) 1024 UFS_SEEK_SET = Some ((RcOk, Some fp1), s1)
    \<and> fl_filepos fp1 = 1024 \<and> ufs_file_getn ram s1 fp1 100
      = Some (100, slice (1 * unat (v_blksize (demo_open None))) (unat (100 :: u32)) (file_bytes demo_ct (demo_open None) demo_file), fp2, s1)"
  by (rule seek_boundary_reads_previous_block [OF demo_handle [where k = 0] demo_at_block])
     (simp_all add: demo_fp_def has_def FILE_MODE_WRITE_def FILE_MODE_READ_def)

text \<open>
  C23. \<^verbatim>\<open>ufs_fseek\<close> to a position inside a block puts the handle on that block, and the read
  that follows returns the bytes from there.
\<close>

theorem seek_then_read:
  assumes "file_handle os ct k s fp m L" "at_block ct s fp m i" "\<not> has (fl_ind fp) FILE_IND_DIRTY" "fl_blkno fp \<noteq> 0"
    and "\<not> has (fl_mode fp) FILE_MODE_WRITE" "has (fl_mode fp) FILE_MODE_READ"
    and "unat p mod unat (v_blksize s) \<noteq> 0" "unat p < unat (di_filesize (mi_dinode m))" "unat p < 2 ^ 31"
  shows "\<exists>fp1 s1 fp2 s2 c. ufs_fseek os s (Some fp) p UFS_SEEK_SET = Some ((RcOk, Some fp1), s1)
    \<and> c = min (unat n) (unat (di_filesize (mi_dinode m)) - unat p)
    \<and> ufs_file_getn os s1 fp1 n = Some (of_nat c, slice (unat p) c (file_bytes ct s m), fp2, s2)"
proof -
  let ?c = "min (unat n) (unat (di_filesize (mi_dinode m)) - unat p)" and ?j = "(unat p - 1) div unat (v_blksize s)"
  have bs: "0 < unat (v_blksize s)" by (rule bgood_bs [OF file_handleD(1) [OF assms(1)]])
  have p0: "0 < unat p" using assms(7) by (rule_tac ccontr) simp
  obtain fp1 s1 where k: "ufs_fseek os s (Some fp) p UFS_SEEK_SET = Some ((RcOk, Some fp1), s1)"
    "file_handle os ct k s1 fp1 m L" "vsame ct s s1" "fl_filepos fp1 = p"
    "unat (fl_blkpos fp1) = unat p mod unat (v_blksize s)" "fl_blkno fp1 = data_node ct s m ?j"
    "fl_blkbuf fp1 = file_block ct s (m_addr m) ?j"
    "fl_mode fp1 = fl_mode fp" "\<not> has (fl_ind fp1) FILE_IND_EOF" "\<not> has (fl_ind fp1) FILE_IND_ERROR"
    "\<not> has (fl_ind fp1) FILE_IND_DIRTY"
    by (rule seek_read_ok [OF assms(1-3,5) p0 assms(8,9) refl assms(4)])
  note v = vsameD [OF k(3)] and f = file_vsame [OF k(3)]
  have at: "at_block ct s1 fp1 m ?j"
    by (rule seek_at_block [OF k(2,4)]) (use k assms f v vrest_frest_geom [OF v(2)] in \<open>simp_all add: file_block_def\<close>)
  have le: "unat (fl_filepos fp1) \<le> unat (di_filesize (mi_dinode m))" using k(4) assms(8) by simp
  have "\<exists>fp2 s2. ufs_file_getn os s1 fp1 n = Some (of_nat ?c, slice (unat p) ?c (file_bytes ct s1 m), fp2, s2)"
    using getn_ok [OF k(2) at k(11) _ k(9,10) le refl, of n] k(4,8) assms(6) by auto
  moreover have "file_bytes ct s1 m = file_bytes ct s m" using f by (simp add: file_bytes_def)
  ultimately show ?thesis using k(1) by auto
qed

theorem seek_then_read_witness:
  "\<exists>fp1 s1 fp2 s2 c. ufs_fseek ram (demo_open None) (Some (demo_fp 0x80)) 1000 UFS_SEEK_SET = Some ((RcOk, Some fp1), s1)
    \<and> c = min (unat (9000 :: u32)) (unat (di_filesize (mi_dinode demo_file)) - unat (1000 :: u32))
    \<and> ufs_file_getn ram s1 fp1 9000
      = Some (of_nat c, slice (unat (1000 :: u32)) c (file_bytes demo_ct (demo_open None) demo_file), fp2, s2)"
  by (rule seek_then_read [OF demo_handle [where k = 0] demo_at_block])
     (simp_all add: demo_fp_def has_def FILE_MODE_WRITE_def FILE_MODE_READ_def)

text \<open>
  C24. Calling \<^verbatim>\<open>ufs_fgets\<close> again and again reads a file to its end: a finite number of calls
  hands out its lines, which together are its bytes from the position on, and the next one returns
  \<^verbatim>\<open>NULL\<close> with the end-of-file indicator on.
\<close>

theorem lines_read_to_end:
  assumes "file_handle os ct k s fp m L" "at_block ct s fp m i" "\<not> has (fl_ind fp) FILE_IND_DIRTY" "has (fl_mode fp) FILE_MODE_READ"
    and "\<not> has (fl_ind fp) FILE_IND_ERROR" "\<not> has (fl_ind fp) FILE_IND_EOF"
    and "unat (fl_filepos fp) \<le> unat (di_filesize (mi_dinode m))" "2 \<le> num"
  shows "\<exists>ls fp' s'. fgets_times os nl num (Suc (length ls)) s (Some fp) = Some (map Some ls @ [None], Some fp', s')
    \<and> ls = lines nl (nat (num - 1)) (drop (unat (fl_filepos fp)) (file_bytes ct s m))
    \<and> concat ls = drop (unat (fl_filepos fp)) (file_bytes ct s m)
    \<and> has (fl_ind fp') FILE_IND_EOF \<and> unat (fl_filepos fp') = unat (di_filesize (mi_dinode m)) \<and> vsame ct s s'"
proof -
  let ?ls = "lines nl (nat (num - 1)) (drop (unat (fl_filepos fp)) (file_bytes ct s m))"
  have r: "reader os ct k m L (unat (fl_filepos fp)) False fp s" using assms(1-7) by (auto simp: reader_def)
  obtain fp' s' where "fgets_times os nl num (Suc (length ?ls)) s (Some fp) = Some (map Some ?ls @ [None], Some fp', s')"
    "vsame ct s s'" "reader os ct k m L (unat (di_filesize (mi_dinode m))) True fp' s'"
    by (rule fgets_times_ok [OF r assms(8) refl])
  then show ?thesis using assms(8) by (intro exI [of _ ?ls]) (auto simp: concat_lines reader_def)
qed

theorem lines_read_to_end_witness:
  "\<exists>ls fp' s'. fgets_times ram 0x25 81 (Suc (length ls)) (demo_open (Some cache)) (Some (demo_fp 0xC0))
      = Some (map Some ls @ [None], Some fp', s')
    \<and> concat ls = drop 0 (file_bytes demo_ct (demo_open (Some cache)) demo_file) \<and> has (fl_ind fp') FILE_IND_EOF"
proof -
  let ?fp = "demo_fp 0xC0" and ?s = "demo_open (Some cache)"
  have h: "file_handle ram demo_ct 5 ?s ?fp demo_file demo_free" by (rule demo_handle) simp_all
  have b: "at_block demo_ct ?s ?fp demo_file 0" by (rule demo_at_block) simp
  have p: "\<not> has (fl_ind ?fp) FILE_IND_DIRTY" "has (fl_mode ?fp) FILE_MODE_READ" "\<not> has (fl_ind ?fp) FILE_IND_ERROR"
    "\<not> has (fl_ind ?fp) FILE_IND_EOF" "unat (fl_filepos ?fp) = 0"
    by (simp_all add: demo_fp_def has_def FILE_MODE_READ_def)
  show ?thesis using lines_read_to_end [OF h b p(1-4), of 81 "0x25"] p(5) by auto
qed

section \<open>Path names\<close>

text \<open>
  C25. \<^verbatim>\<open>fix_path\<close>, which edits the full path of a lookup in place until nothing changes,
  computes the meaning of the path: empty components and \<open>.\<close> dropped, every \<open>..\<close> taking back the
  component before it, never above the root.
\<close>

theorem fix_path_normalises:
  assumes "s \<noteq> []" "hd s = slash" "0 \<notin> set s"
  shows "fix_path s = render (foldl step_path [] (split_path s))"
  using fix_path_resolves [OF assms] by (simp add: resolve_def)

theorem fix_path_normalises_witness:
  "fix_path (str ''/a/./b//../c/'') = str ''/a/c''"
proof -
  have "fix_path (str ''/a/./b//../c/'') = render (foldl step_path [] (split_path (str ''/a/./b//../c/'')))"
    by (rule fix_path_normalises) (simp_all add: str_def slash_def)
  then show ?thesis by (simp add: str_def slash_def split_path_def step_path_def render_def dot_byte_def)
qed

text \<open>
  C26. The full path \<^verbatim>\<open>ufs_lookup_minode\<close> puts together with \<^verbatim>\<open>strcat\<close> fits the
  257 bytes of the caller's buffer with its final zero, whatever the path and the volumes hold.
\<close>

theorem full_path_fits:
  assumes "ufs_lookup_minode E S u path wd wl = Some (rc, d, q, full, S')"
    "\<And>c w. us_cwd u = Some c \<Longrightarrow> sy_cwd S c = Some w \<Longrightarrow> length (cstr (cw_path w)) < 256"
  shows "length full + 1 \<le> UFS_PATH_MAX + 1"
  using lookup_minode_full(1) [OF assms(1)] assms(2) by (simp add: UFS_PATH_MAX_def)

theorem full_path_fits_witness:
  "\<exists>q full S'. ufs_lookup_minode demo_env demo_sys demo_user [slash] True True = Some (RcOk, Some (0, 0), q, full, S')
    \<and> length full + 1 \<le> UFS_PATH_MAX + 1"
proof -
  obtain S1 where "m_use demo_env demo_sys (0, 0) = Some S1" by (rule demo_use_rel)
  note look = lookup_root [OF demo_session(1,4,2) this, of True True]
  have "length [slash] + 1 \<le> UFS_PATH_MAX + 1"
    by (rule full_path_fits [OF look]) (auto simp: demo_session cstr_def slash_def)
  then show ?thesis using look by simp
qed

section \<open>Directories by path\<close>

text \<open>
  C27. With the root as current directory, \<^verbatim>\<open>ufs_mkdir\<close> never makes a directory given by a
  relative name: it compares the path of the lookup with a string that begins with two slashes.
\<close>

theorem mkdir_relative_in_root:
  assumes "us_cwd u = Some c" "sy_cwd S c = Some w" "cw_path w = [slash]" "char_at (cstr path) 0 \<noteq> slash"
  shows "\<nexists>S'. ufs_mkdir E S u (Some path) = Some (RcOk, S')"
  using mkdir_relative [OF assms] by blast

theorem mkdir_relative_in_root_witness:
  "\<nexists>S'. ufs_mkdir demo_env demo_sys demo_user (Some (str ''e'')) = Some (RcOk, S')"
  by (rule mkdir_relative_in_root [OF demo_session(1,4)]) (simp_all add: str_def slash_def cstr_def)

text \<open>
  C28. \<^verbatim>\<open>ufs_open\<close> of the root directory for writing dereferences a null pointer; opened for
  reading it returns \<^verbatim>\<open>ENOENT\<close>.
\<close>

theorem open_root_for_writing:
  assumes "us_cwd u = Some c" "sy_cwd S c = Some w" "sy_fsroot S = Some p" "m_use E S p = Some S1" "m_rel E S1 p = Some S2"
    "has fm FILE_MODE_WRITE \<or> has fm FILE_MODE_READ"
  shows "ufs_open E S u [slash] fm = (if has fm FILE_MODE_WRITE then None else Some (RcErr ENOENT, None, S2))"
  using open_root [OF assms(1-4)] assms(5,6) by auto

theorem open_root_for_writing_witness:
  "ufs_open demo_env demo_sys demo_user [slash] FILE_MODE_WRITE = None \<and>
   (\<exists>S2. ufs_open demo_env demo_sys demo_user [slash] FILE_MODE_READ = Some (RcErr ENOENT, None, S2))"
proof -
  have w: "has FILE_MODE_WRITE FILE_MODE_WRITE" "\<not> has FILE_MODE_READ FILE_MODE_WRITE" "has FILE_MODE_READ FILE_MODE_READ"
    by (simp_all add: has_def FILE_MODE_WRITE_def FILE_MODE_READ_def)
  obtain S1 S2 where "m_use demo_env demo_sys (0, 0) = Some S1" "m_rel demo_env S1 (0, 0) = Some S2"
    by (rule demo_use_rel)
  note op = open_root_for_writing [OF demo_session(1,4,2) this]
  show ?thesis using op [of FILE_MODE_WRITE] op [of FILE_MODE_READ] w by simp
qed

section \<open>The mount table\<close>

text \<open>
  C29. In every state that mounts, unmounts of all kinds and lookups lead to, the volume's record of
  where it is mounted, the inode's record of what is mounted on it and the list of mount points
  agree, and no directory carries two volumes.
\<close>

theorem mount_table_consistent:
  assumes "mount_ok S" "(mount_step E)\<^sup>*\<^sup>* S S'"
  shows "mount_ok S'"
  by (rule mount_steps_ok [OF assms(2,1)])

theorem mount_table_consistent_witness:
  "\<exists>S'. (mount_step demo_env)\<^sup>*\<^sup>* demo_sys S' \<and> sy_mounted S' 1 = Some (0, 1) \<and> mount_ok S'"
proof -
  obtain S1 where m: "ufs_mount demo_env demo_sys demo_user (Some [1]) (Some demo_d) = Some (RcOk, S1)"
    "sy_mounted S1 1 = Some (0, 1)" by (rule demo_mounts)
  have s: "(mount_step demo_env)\<^sup>*\<^sup>* demo_sys S1" by (rule r_into_rtranclp) (rule mount_step.mount [OF m(1)])
  show ?thesis using mount_table_consistent [OF demo_mount_ok s] s m(2) by blast
qed

text \<open>
  C30. Unmounting the volume that \<^verbatim>\<open>ufs_mount\<close> mounted gives the mount table back.
\<close>

theorem mount_unmount:
  assumes "mount_ok S" "ufs_mount E S u dd path = Some (RcOk, S1)" "sy_mounted S v = None" "sy_mounted S1 v \<noteq> None"
    "ufs_unmount_vdisk E S1 (Some v) = Some (RcOk, S2)"
  shows "sy_mounted S2 = sy_mounted S \<and> set (sy_mountpoint S2) = set (sy_mountpoint S)"
  by (rule mount_unmount_ok [OF assms])

theorem mount_unmount_witness:
  "\<exists>S1 S2. ufs_mount demo_env demo_sys demo_user (Some [1]) (Some demo_d) = Some (RcOk, S1)
    \<and> ufs_unmount_vdisk demo_env S1 (Some 1) = Some (RcOk, S2) \<and> sy_mounted S2 = sy_mounted demo_sys"
proof -
  obtain S1 S2 where m: "ufs_mount demo_env demo_sys demo_user (Some [1]) (Some demo_d) = Some (RcOk, S1)"
    "sy_mounted S1 1 = Some (0, 1)" "ufs_unmount_vdisk demo_env S1 (Some 1) = Some (RcOk, S2)" by (rule demo_mounts)
  have "sy_mounted demo_sys 1 = None" by (simp add: demo_sys_def)
  from mount_unmount [OF demo_mount_ok m(1) this _ m(3)] m show ?thesis by auto
qed

text \<open>
  \<^verbatim>\<open>ufs_mount\<close> of a volume that is mounted already reports success and mounts nothing.
\<close>

theorem mount_again_succeeds:
  assumes "sys_lock E LkSys S = (r, S1)" "find_ddname S1 dd (sy_vdisks S1) = Some (Some v)" "sy_mounted S v \<noteq> None"
    "root_allowed E S1 v = Some (RcOk, None, S2)" "ufs_lookup_minode E S2 u path True True = Some (RcOk, d, Some p, full, S3)"
  shows "\<exists>S'. ufs_mount E S u (Some dd) (Some path) = Some (RcOk, S') \<and> sy_mounted S' = sy_mounted S"
  by (rule mount_again [OF assms])

theorem mount_again_succeeds_witness:
  "\<exists>S'. ufs_mount demo_env demo_sys demo_user (Some [0]) (Some demo_d) = Some (RcOk, S') \<and> sy_mounted S' = sy_mounted demo_sys"
proof -
  obtain r S1 S2 d full S3 where "sys_lock demo_env LkSys demo_sys = (r, S1)"
    "find_ddname S1 [0] (sy_vdisks S1) = Some (Some 0)" "root_allowed demo_env S1 0 = Some (RcOk, None, S2)"
    "ufs_lookup_minode demo_env S2 demo_user demo_d True True = Some (RcOk, d, Some (0, 1), full, S3)" by (rule demo_again)
  then show ?thesis by (intro mount_again_succeeds [where v = 0]) (simp_all add: demo_sys_def)
qed

section \<open>The entries of a directory\<close>

text \<open>
  C31. \<^verbatim>\<open>ufs_file_lookup_by_name\<close> walks the blocks of a directory, through its index blocks,
  and returns the inode number of the first entry in use that has the name, \<^verbatim>\<open>ENOENT\<close> when
  there is none; the volume stays as it is.
\<close>

theorem lookup_finds_first_entry:
  assumes "bgood os ct k s L" "file_ok ct s m L" "good_blksize s" "ufs_inode_isdir (mi_dinode m)"
  shows "\<exists>s'. ufs_file_lookup_by_name os s m name ino = Some (case find (named name) (entries_of ct s m) of
      None \<Rightarrow> (RcErr ENOENT, ino, s') | Some e \<Rightarrow> (RcOk, de_inode_number e, s'))
    \<and> bgood os ct k s' L \<and> vsame ct s s'"
  by (rule lookup_by_name_ok [OF assms, of name ino]) blast

theorem lookup_finds_first_entry_witness:
  "\<exists>s'. ufs_file_lookup_by_name ram demo_tree demo_parent (str ''a'') 0
    = Some (case find (named (str ''a'')) (entries_of demo_ct demo_tree demo_parent) of
        None \<Rightarrow> (RcErr ENOENT, 0, s') | Some e \<Rightarrow> (RcOk, de_inode_number e, s'))"
  using lookup_finds_first_entry [OF demo_tree_ok(1,2) demo_parent_simps(5,2), of 5] by fastforce

text \<open>
  C32. \<^verbatim>\<open>ufs_directory_add_entry\<close> of a regular file appends one entry with its inode number and
  name to the directory, growing it by 64 bytes; the directory is in order again, and no block changes
  but free ones, those of the directory and the one with its inode.
\<close>

theorem add_entry_appends:
  assumes "bgood os ct (k + 9) s L" "v_mstore s p = Some m" "file_ok ct s m L" "good_blksize s"
    and "64 dvd unat (di_filesize (mi_dinode m))" "unat (di_filesize (mi_dinode m)) + 64 \<le> 2 ^ 31"
    and "nblks s m < max_blocks (per_block s)" "4 \<le> length L"
    and "find_minode (v_mstore s) (v_minodes s) ino = Some (Some q)" "v_mstore s q = Some mq" "q \<noteq> p"
      "\<not> ufs_inode_isdir (mi_dinode mq)" "0 < mi_usecount mq" "unat (mi_usecount mq) + 1 < 2 ^ 16"
  shows "\<exists>s' m' L' x. ufs_directory_add_entry os s p ino name = Some (RcOk, s')
    \<and> v_mstore s' = (v_mstore s)(p := Some m') \<and> bgood os ct k s' L' \<and> file_ok ct s' m' L'
    \<and> entries_of ct s' m' = entries_of ct s m @ [new_entry ino (ufs_dirent_filename name) x]
    \<and> (\<forall>y. y \<notin> set L \<longrightarrow> y \<notin> file_nodes ct s m \<longrightarrow> y \<noteq> inode_block s (mi_inode_number m) \<longrightarrow>
        vview ct s' y = vview ct s y)"
  by (rule add_entry_ok [OF assms, of name]) blast

theorem add_entry_appends_witness:
  "\<exists>s' m' x. ufs_directory_add_entry ram demo_tree 0 5 (str ''a'') = Some (RcOk, s') \<and> v_mstore s' 0 = Some m'
    \<and> entries_of demo_ct s' m' = entries_of demo_ct demo_tree demo_parent @ [new_entry 5 (ufs_dirent_filename (str ''a'')) x]"
proof -
  have g: "bgood ram demo_ct (0 + 9) demo_tree demo_free" by (rule demo_tree_ok) simp
  note ok = demo_tree_ok [of 9]
  obtain s' m' L' x where "ufs_directory_add_entry ram demo_tree 0 5 (str ''a'') = Some (RcOk, s')"
    "v_mstore s' = (v_mstore demo_tree)(0 := Some m')"
    "entries_of demo_ct s' m' = entries_of demo_ct demo_tree demo_parent @ [new_entry 5 (ufs_dirent_filename (str ''a'')) x]"
    using add_entry_appends [OF g ok(3,2) demo_parent_simps(5) demo_room ok(5,4) _ demo_child_ok, of "str ''a''"] by auto
  then show ?thesis by (intro exI [of _ s'] exI [of _ m'] exI [of _ x]) simp
qed

text \<open>
  C33. A name given to a file with \<^verbatim>\<open>ufs_directory_add_entry\<close> is the name the file is looked up
  by afterwards, if no entry had it before.
\<close>

theorem add_then_lookup:
  assumes "bgood os ct (k + 9) s L" "v_mstore s p = Some m" "file_ok ct s m L" "good_blksize s"
    and "64 dvd unat (di_filesize (mi_dinode m))" "unat (di_filesize (mi_dinode m)) + 64 \<le> 2 ^ 31"
    and "nblks s m < max_blocks (per_block s)" "4 \<le> length L"
    and "find_minode (v_mstore s) (v_minodes s) ino = Some (Some q)" "v_mstore s q = Some mq" "q \<noteq> p"
      "\<not> ufs_inode_isdir (mi_dinode mq)" "0 < mi_usecount mq" "unat (mi_usecount mq) + 1 < 2 ^ 16"
    and "find (named name) (entries_of ct s m) = None" "slash \<notin> set (cstr name)" "ino \<noteq> 0" "ufs_inode_isdir (mi_dinode m)"
  shows "\<exists>s1 m1 s2. ufs_directory_add_entry os s p ino name = Some (RcOk, s1) \<and> v_mstore s1 p = Some m1
    \<and> ufs_file_lookup_by_name os s1 m1 name 0 = Some (RcOk, ino, s2)"
proof -
  obtain s1 m1 L1 x where a: "ufs_directory_add_entry os s p ino name = Some (RcOk, s1)" "bgood os ct k s1 L1"
    "v_mstore s1 = (v_mstore s)(p := Some m1)" "file_ok ct s1 m1 L1" "good_blksize s1"
    "di_mode (mi_dinode m1) = di_mode (mi_dinode m)"
    "entries_of ct s1 m1 = entries_of ct s m @ [new_entry ino (ufs_dirent_filename name) x]"
    by (rule add_entry_ok [OF assms(1-14), of name]) blast
  have "find (named name) (entries_of ct s1 m1) = Some (new_entry ino (ufs_dirent_filename name) x)"
    using assms(15) named_new [OF assms(17,16), of x] by (simp add: a(7) find_append)
  moreover have "de_inode_number (new_entry ino (ufs_dirent_filename name) x) = ino" by (simp add: new_entry_def)
  moreover have "ufs_inode_isdir (mi_dinode m1)" using assms(18) a(6) by (simp add: ufs_inode_isdir_def)
  ultimately obtain s2 where "ufs_file_lookup_by_name os s1 m1 name 0 = Some (RcOk, ino, s2)"
    using lookup_by_name_ok [OF a(2,4,5), of name 0] by (metis option.simps(5))
  then show ?thesis using a(1,3) by auto
qed

theorem add_then_lookup_witness:
  "\<exists>s1 m1 s2. ufs_directory_add_entry ram demo_tree 0 5 (str ''a'') = Some (RcOk, s1) \<and> v_mstore s1 0 = Some m1
    \<and> ufs_file_lookup_by_name ram s1 m1 (str ''a'') 0 = Some (RcOk, 5, s2)"
proof -
  have g: "bgood ram demo_ct (0 + 9) demo_tree demo_free" by (rule demo_tree_ok) simp
  have n: "slash \<notin> set (cstr (str ''a''))" "(5 :: u32) \<noteq> 0" by (simp_all add: str_def slash_def cstr_def)
  note ok = demo_tree_ok [of 9]
  show ?thesis
    by (rule add_then_lookup [OF g ok(3,2) demo_parent_simps(5) demo_room ok(5,4) _ demo_child_ok demo_no_names n demo_parent_simps(2)])
      simp_all
qed

text \<open>
  C34. \<^verbatim>\<open>ufs_directory_remove_entry\<close> of a regular file puts the last entry into the place of the
  first one with the name and shrinks the directory by 64 bytes; the directory is in order again, the
  blocks it no longer needs are free, and no other block changes.
\<close>

theorem remove_entry_fills_gap:
  assumes "bgood os ct (k + 9) s L" "v_mstore s p = Some m" "file_ok ct s m L" "good_blksize s"
    and "64 dvd unat (di_filesize (mi_dinode m))" "L \<noteq> []" "first (same_name name) (entries_of ct s m) = Some (n, e)"
    and "find_minode (v_mstore s) (v_minodes s) (de_inode_number e) = Some (Some q)" "v_mstore s q = Some mq" "q \<noteq> p"
      "\<not> ufs_inode_isdir (mi_dinode mq)" "0 < mi_usecount mq" "unat (mi_usecount mq) + 1 < 2 ^ 16"
  shows "\<exists>s' m' L'. ufs_directory_remove_entry os s p name = Some (RcOk, s') \<and> bgood os ct k s' L'
    \<and> v_mstore s' = (v_mstore s)(p := Some m') \<and> file_ok ct s' m' L'
    \<and> di_filesize (mi_dinode m') = di_filesize (mi_dinode m) - 64
    \<and> entries_of ct s' m' = butlast ((entries_of ct s m)[n := last (entries_of ct s m)])
    \<and> set L' = set L \<union> (file_nodes ct s m - file_nodes ct s' m')
    \<and> (\<forall>y. y \<notin> set L \<longrightarrow> y \<notin> file_nodes ct s m \<longrightarrow> y \<noteq> inode_block s (mi_inode_number m) \<longrightarrow> vview ct s' y = vview ct s y)"
  by (rule remove_entry_ok [OF assms]) blast

theorem remove_entry_fills_gap_witness:
  "\<exists>s' m'. ufs_directory_remove_entry ram demo_listed 0 (str ''a'') = Some (RcOk, s') \<and> v_mstore s' 0 = Some m'
    \<and> entries_of demo_ct s' m' = [up_entry 3]"
proof -
  note ok = demo_listed_ok
  have g: "bgood ram demo_ct (0 + 9) demo_listed demo_free" by (rule ok(1)) simp
  have z: "64 dvd unat (di_filesize (mi_dinode (inode_image 4 (dir_node 22 128))))" "demo_free \<noteq> []"
    by (simp_all add: dir_image_node demo_free_def)
  have f: "first (same_name (str ''a'')) (entries_of demo_ct demo_listed (inode_image 4 (dir_node 22 128))) = Some (1, a_entry)"
    by (simp add: ok(5) dirs_names)
  show ?thesis
    using remove_entry_fills_gap [OF g ok(2-4) z f _ ok(7) _ demo_child_ok] ok(5,6) by (auto simp: dirs_names)
qed

text \<open>
  C35. In a directory in which no name is used twice, a removed name is no longer found, every
  other name is found as before although an entry has moved, and still no name is used twice.
\<close>

theorem remove_then_lookup:
  assumes "bgood os ct (k + 9) s L" "v_mstore s p = Some m" "file_ok ct s m L" "good_blksize s"
    and "64 dvd unat (di_filesize (mi_dinode m))" "L \<noteq> []" "first (same_name name) (entries_of ct s m) = Some (n, e)"
    and "find_minode (v_mstore s) (v_minodes s) (de_inode_number e) = Some (Some q)" "v_mstore s q = Some mq" "q \<noteq> p"
      "\<not> ufs_inode_isdir (mi_dinode mq)" "0 < mi_usecount mq" "unat (mi_usecount mq) + 1 < 2 ^ 16"
    and "ufs_inode_isdir (mi_dinode m)" "distinct_names (entries_of ct s m)"
  shows "\<exists>s1 m1. ufs_directory_remove_entry os s p name = Some (RcOk, s1) \<and> v_mstore s1 p = Some m1
    \<and> distinct_names (entries_of ct s1 m1)
    \<and> (\<forall>nm. \<exists>s2 s3. ufs_file_lookup_by_name os s m nm 0 = Some (case find (named nm) (entries_of ct s m) of
          None \<Rightarrow> (RcErr ENOENT, 0, s2) | Some d \<Rightarrow> (RcOk, de_inode_number d, s2))
      \<and> ufs_file_lookup_by_name os s1 m1 nm 0 = Some (if named nm e then (RcErr ENOENT, 0, s3)
          else case find (named nm) (entries_of ct s m) of
            None \<Rightarrow> (RcErr ENOENT, 0, s3) | Some d \<Rightarrow> (RcOk, de_inode_number d, s3)))"
proof -
  obtain s1 m1 L1 where r: "ufs_directory_remove_entry os s p name = Some (RcOk, s1)" "bgood os ct k s1 L1"
    "v_mstore s1 = (v_mstore s)(p := Some m1)" "file_ok ct s1 m1 L1" "good_blksize s1"
    "di_mode (mi_dinode m1) = di_mode (mi_dinode m)"
    "entries_of ct s1 m1 = butlast ((entries_of ct s m)[n := last (entries_of ct s m)])"
    by (rule remove_entry_ok [OF assms(1-13)]) blast
  have ne: "n < length (entries_of ct s m)" "e = entries_of ct s m ! n" using first_Some [OF assms(7)] by auto
  have ms: "mset (entries_of ct s1 m1) = mset (entries_of ct s m) - {#e#}" unfolding r(7) ne(2) by (rule mset_fill_gap [OF ne(1)])
  have f: "find (named nm) (entries_of ct s1 m1) = (if named nm e then None else find (named nm) (entries_of ct s m))" for nm
    by (rule find_removed [OF ms]) (use ne assms(15) in \<open>simp_all add: distinct_names_def\<close>)
  have dir: "ufs_inode_isdir (mi_dinode m1)" using assms(14) r(6) by (simp add: ufs_inode_isdir_def)
  have "\<exists>s2 s3. ufs_file_lookup_by_name os s m nm 0 = Some (case find (named nm) (entries_of ct s m) of
          None \<Rightarrow> (RcErr ENOENT, 0, s2) | Some d \<Rightarrow> (RcOk, de_inode_number d, s2))
      \<and> ufs_file_lookup_by_name os s1 m1 nm 0 = Some (if named nm e then (RcErr ENOENT, 0, s3)
          else case find (named nm) (entries_of ct s m) of
            None \<Rightarrow> (RcErr ENOENT, 0, s3) | Some d \<Rightarrow> (RcOk, de_inode_number d, s3))" for nm
  proof -
    obtain s2 where "ufs_file_lookup_by_name os s m nm 0 = Some (case find (named nm) (entries_of ct s m) of
        None \<Rightarrow> (RcErr ENOENT, 0, s2) | Some d \<Rightarrow> (RcOk, de_inode_number d, s2))"
      by (rule lookup_by_name_ok [OF assms(1,3,4,14)])
    moreover obtain s3 where "ufs_file_lookup_by_name os s1 m1 nm 0 = Some (case find (named nm) (entries_of ct s1 m1) of
        None \<Rightarrow> (RcErr ENOENT, 0, s3) | Some d \<Rightarrow> (RcOk, de_inode_number d, s3))"
      by (rule lookup_by_name_ok [OF r(2,4,5) dir])
    ultimately show ?thesis unfolding f by (auto split: if_splits)
  qed
  then show ?thesis using r(1,3) distinct_removed [OF ms assms(15)] by auto
qed

theorem remove_then_lookup_witness:
  "\<exists>s1 m1 s3. ufs_directory_remove_entry ram demo_listed 0 (str ''a'') = Some (RcOk, s1) \<and> v_mstore s1 0 = Some m1
    \<and> ufs_file_lookup_by_name ram s1 m1 (str ''a'') 0 = Some (RcErr ENOENT, 0, s3)"
proof -
  let ?m = "inode_image 4 (dir_node 22 128)"
  note ok = demo_listed_ok
  have g: "bgood ram demo_ct (0 + 9) demo_listed demo_free" by (rule ok(1)) simp
  have z: "64 dvd unat (di_filesize (mi_dinode ?m))" "demo_free \<noteq> []" "ufs_inode_isdir (mi_dinode ?m)"
    by (simp_all add: dir_image_node demo_free_def)
  have f: "first (same_name (str ''a'')) (entries_of demo_ct demo_listed ?m) = Some (1, a_entry)"
    by (simp add: ok(5) dirs_names)
  have q: "find_minode (v_mstore demo_listed) (v_minodes demo_listed) (de_inode_number a_entry) = Some (Some 1)"
    using ok(6) by (simp add: dirs_names)
  have "\<not> (named nm (up_entry 3) \<and> named nm a_entry)" for nm
  proof
    assume "named nm (up_entry 3) \<and> named nm a_entry"
    then have "take 59 (cstr (de_name (up_entry 3))) = take 59 (cstr (de_name a_entry))"
      by (simp add: named_def same_name_def strncmp_eq_iff UFS_NAME_MAX_def)
    then show False by (simp add: up_entry_def a_entry_def cstr_def dotdot_def str_def)
  qed
  then have d: "distinct_names (entries_of demo_ct demo_listed ?m)" by (auto simp: ok(5) distinct_names_def)
  have n: "named (str ''a'') a_entry"
    using dirs_names(3,5) by (simp add: named_def lookup_name_def same_filename) (simp add: cstr_def str_def slash_def)
  have look: "\<exists>s3. f (str ''a'') = Some (RcErr ENOENT, 0, s3)"
    if "\<forall>nm. \<exists>s2 s3. A nm s2 \<and> f nm = Some (if named nm a_entry then (RcErr ENOENT, 0, s3) else g nm s3)"
    for A and f :: "_ \<Rightarrow> (rc \<times> u32 \<times> (u32 \<Rightarrow> block) vol) option" and g
    using spec [OF that, of "str ''a''"] n by auto
  from remove_then_lookup [OF g ok(2-4) z(1,2) f q ok(7) one_neq_zero demo_child_ok z(3) d]
  show ?thesis by (elim exE conjE) (drule look, blast)
qed

text \<open>
  C36. On directories that form a tree the climb of \<^verbatim>\<open>can_dirmove\<close> from the new parent to the
  root ends, and it refuses exactly the moves of a directory that lies above the new parent. The new
  parent itself is not compared: a directory may be moved into itself.
\<close>

theorem can_dirmove_decides:
  assumes "bgood os ct k s L" "good_blksize s" "dir_tree ct s L D d" "to_ino \<in> D" "ufs_inode_isdir (inode_at ct s to_ino)"
  shows "\<exists>s'. can_dirmove os s from_ino to_ino
      = Some (if from_ino \<in> ancestors (parent_of ct s) to_ino then RcErr EINVAL else RcOk, s')
    \<and> bgood os ct k s' L \<and> vsame ct s s'"
  by (rule can_dirmove_ok [OF assms, of from_ino]) blast

theorem can_dirmove_decides_witness:
  "(\<exists>s'. can_dirmove ram demo_dirs 3 4 = Some (RcErr EINVAL, s')) \<and> (\<exists>s'. can_dirmove ram demo_dirs 4 4 = Some (RcOk, s'))"
proof -
  have g: "bgood ram demo_ct 5 demo_dirs demo_free" by (rule demo_dirs_bgood) simp
  have d: "ufs_inode_isdir (inode_at demo_ct demo_dirs 4)" by (simp add: dirs_inode dir_image_node)
  have "ancestors (parent_of demo_ct demo_dirs) 4 = {3, 2}"
    by (simp add: ancestors_step [of _ 4] ancestors_step [of _ 3] dirs_parent UFS_ROOT_INODE_def)
  then show ?thesis
    using can_dirmove_decides [OF g demo_dirs_simps(4) dirs_tree _ d, of 3] can_dirmove_decides [OF g demo_dirs_simps(4) dirs_tree _ d, of 4]
    by auto
qed

text \<open>
  C37. \<^verbatim>\<open>ufs_file_allocate\<close> takes a time in milliseconds whose low word is below 1000000 for
  seconds and microseconds and converts it, and a listing converts it once more. A file created at
  such a time is listed with its high word for milliseconds: within a second of the start of 1970.
\<close>

theorem new_file_listed_in_1970:
  assumes "at_ctime attr = t" "at_mtime attr = t" "at_atime attr = t"
    and "2 ^ 32 \<le> unat t" "unat t < 1000 * 2 ^ 32" "unat t mod 2 ^ 32 < 1000000" "set_times os attr d s = (d', s')"
  shows "unat (time_v2 (di_ctime d')) = unat t div 2 ^ 32 \<and> unat (time_v2 (di_mtime d')) = unat t div 2 ^ 32
    \<and> unat (time_v2 (di_atime d')) = unat t div 2 ^ 32"
  using times_of_new_file [OF assms] by blast

theorem new_file_listed_in_1970_witness:
  "\<exists>d' s'. set_times ram \<lparr>at_owner = None, at_group = None, at_mode = 0, at_codepage = 0, at_atime = 0x190000000FF,
      at_mtime = 0x190000000FF, at_ctime = 0x190000000FF\<rparr> zero_dinode demo_dirs = (d', s') \<and> unat (time_v2 (di_ctime d')) = 400"
proof -
  let ?a = "\<lparr>at_owner = None, at_group = None, at_mode = 0, at_codepage = 0, at_atime = 0x190000000FF,
      at_mtime = 0x190000000FF, at_ctime = 0x190000000FF\<rparr>"
  obtain d' s' where d: "set_times ram ?a zero_dinode demo_dirs = (d', s')" by fastforce
  then show ?thesis using new_file_listed_in_1970 [OF _ _ _ _ _ _ d, of "0x190000000FF"] by simp
qed

section \<open>Sessions\<close>

text \<open>
  C38. Whatever a session does between \<^verbatim>\<open>ufsnew\<close> and \<^verbatim>\<open>ufsfree\<close> - signing
  on and off, as often as it likes, with ACEEs of its own - at its end nobody is logged on who was not
  before, and nobody was logged off.
\<close>

theorem session_is_balanced:
  assumes "racf_laws E live" "ufsnew E S = Some (Some u, S1)" "(session_step E live)\<^sup>*\<^sup>* (u, S1) (u2, S2)"
    "ufsfree E S2 (Some u2) = Some S3"
  shows "live (sy_outer S3) = live (sy_outer S)"
  by (rule session_end [OF assms(1) session_steps_inv [OF assms(1,3) session_start [OF assms(1,2)]] assms(4)])

theorem session_is_balanced_witness:
  "\<exists>u S u1 S1 S2. ufsnew demo_racf (empty_sys {#}) = Some (Some u, S)
    \<and> ufs_signon demo_racf (Some u) (str ''IBMUSER'') [] [] S = (0, Some u1, S1)
    \<and> ufsfree demo_racf S1 (Some u1) = Some S2 \<and> sy_outer S1 \<noteq> {#} \<and> sy_outer S2 = {#}"
proof -
  obtain u S u1 S1 S2 where s: "ufsnew demo_racf (empty_sys {#}) = Some (Some u, S)"
    "ufs_signon demo_racf (Some u) (str ''IBMUSER'') [] [] S = (0, Some u1, S1)"
    "ufsfree demo_racf S1 (Some u1) = Some S2" "sy_outer S1 = {#demo_acee (str ''IBMUSER'')#}" by (rule demo_logon)
  have "(session_step demo_racf id)\<^sup>*\<^sup>* (u, S) (u1, S1)"
    by (rule r_into_rtranclp) (rule session_step.signon [OF s(2)])
  from session_is_balanced [OF demo_racf_laws s(1) this s(3)] show ?thesis using s by (auto simp: empty_sys_def)
qed

section \<open>Names and devices\<close>

text \<open>
  C39. For prefixes below 256 characters the table of names is a finite map:
  \<^verbatim>\<open>ufs_name_mount\<close> is the update of the map at the prefix, keeps the table free of duplicates
  and leaves it in the order the comments of \<^verbatim>\<open>src/ufsnmsrt.c\<close> ask for, the longest prefix first
  and prefixes of the same length in ascending order of their bytes (\<open>longest_first\<close>);
  \<^verbatim>\<open>ufs_name_find\<close> is its lookup. It looks for the whole name once and substitutes no prefix, other
  than the comment on its loop says.
\<close>

theorem name_table_is_map:
  assumes "ns_live os" "names_ok (ns_names s)" "0 \<notin> set p" "length p < NM_MAXLEN" "0 \<notin> set x" "length x < NM_MAXLEN"
  shows "\<exists>s' i s2. ufs_name_mount os (Some p) (Some r) v s = Some (RcOk, s')
    \<and> names_ok (ns_names s') \<and> sorted_wrt longest_first (map name_key (ns_names s'))
    \<and> name_map (ns_names s') = (name_map (ns_names s))(p \<mapsto> (Some (cstr r), v))
    \<and> ufs_name_find os (Some x) s' = Some (i, s2) \<and> ns_names s2 = ns_names s'
    \<and> name_map (ns_names s') x = (case i of None \<Rightarrow> None
        | Some i \<Rightarrow> map_option (\<lambda>e. (nm_rep e, nm_vdisk e)) (ns_names s' ! i))"
proof -
  obtain s' where m: "ufs_name_mount os (Some p) (Some r) v s = Some (RcOk, s')" "names_ok (ns_names s')"
    "names_sorted (ns_names s')" "name_map (ns_names s') = (name_map (ns_names s))(p \<mapsto> (Some (cstr r), v))"
    by (rule name_mount_map [OF assms(1-4)])
  have n: "\<forall>p\<in>set (ns_names s'). named_entry p" using m(2) by (simp add: names_ok_def)
  show ?thesis
    by (cases rule: ufs_name_find_ok [OF assms(1) n assms(5,6)]) (use m [unfolded names_sorted_def] in force)+
qed

theorem name_table_is_map_witness:
  "\<exists>s i s2. ufs_name_mount ram (Some (str ''/dev'')) (Some (str ''x'')) (Some 3) \<lparr>ns_outer = \<lambda>_. [], ns_names = []\<rparr> = Some (RcOk, s)
    \<and> ufs_name_find ram (Some (str ''/dev'')) s = Some (Some i, s2)"
proof -
  have l: "ns_live ram" by (simp add: ns_live_def ram_def lock_held_def)
  have p: "0 \<notin> set (str ''/dev'')" "length (str ''/dev'') < NM_MAXLEN" by (simp_all add: str_def NM_MAXLEN_def)
  have o: "names_ok (ns_names \<lparr>ns_outer = \<lambda>_. [], ns_names = []\<rparr>)" by (simp add: names_ok_def)
  from name_table_is_map [OF l o p p, of "str ''x''" "Some 3"] show ?thesis by (auto split: option.splits)
qed

text \<open>
  C40. The search for a device by its name ends on every forest of devices, whatever its depth, and
  is right: it delivers a device that hangs from the system and has the name, and a null pointer only
  when there is none. Devices made one after the other form such a forest (\<open>ufs_dev_new_ok\<close>).
\<close>

theorem dev_find_ends:
  assumes "devs_ok S" "\<And>d k. lock_held (fst (os_lock os d k))"
  shows "\<exists>r d. ufs_dev_find os name S = Some (r, S\<lparr>ds_outer := d\<rparr>) \<and>
    (case r of None \<Rightarrow> \<forall>p. hangs S (ds_devs S) p \<longrightarrow> \<not> is_named S p name
     | Some p \<Rightarrow> hangs S (ds_devs S) p \<and> is_named S p name)"
  by (rule ufs_dev_find_ok [OF assms, where name = name]) (auto simp: found_in_def)

theorem dev_find_ends_witness:
  "\<exists>S S2 d. ufs_dev_new ram demo_lib (\<lambda>_ _ _ _. None) 0 0 (Some (str ''lan'')) None None None None
      \<lparr>ds_outer = \<lambda>_. [], ds_devs = [], ds_dev = \<lambda>_. None, ds_next_dvnum = 0, ds_next = 0\<rparr> = Some (Some 0, S)
    \<and> ufs_dev_new ram demo_lib (\<lambda>_ _ _ _. None) 0 0 (Some (str ''eth'')) (Some 0) None None (None :: nat devio option) S = Some (Some 1, S2)
    \<and> ufs_dev_find ram (str ''eth'') S2 = Some (Some 1, S2\<lparr>ds_outer := d\<rparr>)"
proof -
  let ?S = "\<lparr>ds_outer = \<lambda>_. [], ds_devs = [], ds_dev = \<lambda>_. None, ds_next_dvnum = 0, ds_next = 0\<rparr>
    :: (nat, u32 \<Rightarrow> block) devsys"
  have live: "\<And>d k. lock_held (fst (os_lock ram d k))" "\<And>d n. fst (os_calloc ram d n)"
    by (simp_all add: ram_def lock_held_def)
  have cp: "cl_strcpyp demo_lib (UFSDEV_MAX_NAME + 1) x 0 = x @ replicate (16 - length x) 0"
    if "length x \<le> UFSDEV_MAX_NAME" "0 \<notin> set x" for x
    using that by (simp add: demo_lib_def UFSDEV_MAX_NAME_def)
  have n: "length (str ''lan'') \<le> UFSDEV_MAX_NAME" "0 \<notin> set (str ''lan'')"
    "length (str ''eth'') \<le> UFSDEV_MAX_NAME" "0 \<notin> set (str ''eth'')" by (simp_all add: str_def UFSDEV_MAX_NAME_def)
  have ok: "devs_ok ?S" by (simp add: devs_ok_def)
  obtain S d where S: "ufs_dev_new ram demo_lib (\<lambda>_ _ _ _. None) 0 0 (Some (str ''lan'')) None None None None ?S
      = Some (Some (ds_next ?S), S)" "entered None d ?S S" "devs_ok S" "dev_name d = Some (cstr (str ''lan''))"
    by (rule ufs_dev_new_ok [OF ok live _ _ cp [OF n(1,2)] n(1), where devio = None and parent = None and num = 0 and minor = 0
        and ?ctx1.0 = None and ?ctx2.0 = None and call = "\<lambda>_ _ _ _. None"]) auto
  have s: "ds_devs S = [Some 0]" "ds_dev S = [0 \<mapsto> d]" "ds_next S = 1" using S(2) by (simp_all add: entered_def)
  obtain S2 e where S2: "ufs_dev_new ram demo_lib (\<lambda>_ _ _ _. None) 0 0 (Some (str ''eth'')) (Some 0) None None None S
      = Some (Some (ds_next S), S2)" "entered (Some 0) e S S2" "devs_ok S2" "dev_name e = Some (cstr (str ''eth''))"
    by (rule ufs_dev_new_ok [OF S(3) live _ _ cp [OF n(3,4)] n(3), where devio = None and parent = "Some 0" and num = 0 and minor = 0
        and ?ctx1.0 = None and ?ctx2.0 = None and call = "\<lambda>_ _ _ _. None"]) (use s in auto)
  have s2: "ds_devs S2 = [Some 0]" "ds_dev S2 = [1 \<mapsto> e, 0 \<mapsto> d\<lparr>dv_children := dv_children d @ [Some 1]\<rparr>]"
    using S2(2) s by (simp_all add: entered_def)
  have "hangs S2 (ds_devs S2) 1"
    by (rule hangs.child [where p = 0 and d = "d\<lparr>dv_children := dv_children d @ [Some 1]\<rparr>"])
      (simp_all add: s2 hangs.here)
  moreover have "is_named S2 p (str ''eth'') \<longleftrightarrow> p = 1" for p
    using S(4) S2(4) s2(2) n by (auto simp: is_named_def dev_name_def str_def split: if_splits)
  ultimately show ?thesis
    using dev_find_ends [OF S2(3) live(1), of "str ''eth''"] S(1) S2(1) s(3)
    by (auto split: option.splits)
qed

end
